(* ===== verification/Js_Prelude.thy ===== *)
theory Js_Prelude
  imports Main "HOL-Library.Monad_Syntax"
begin

section \<open>The parts of JavaScript that the components share\<close>

text \<open>
  Strings are lists of code units. A \<open>char\<close> of HOL is one code unit in the range 0 to 255, so
  every string of this development is a string over the Latin-1 range; the character classes of
  the regular expressions are written out on that range.  Array indices and string positions are
  \<open>nat\<close> where the code only ever passes non-negative ones and \<open>int\<close> where it may pass others.
  An expression that raises a \<open>TypeError\<close> in the code is \<open>None\<close> of an \<open>option\<close> here.
\<close>

named_theorems js_simps \<open>unfolding of the JavaScript library operations\<close>

type_synonym jstring = string

subsection \<open>Character classes\<close>

definition code :: "char \<Rightarrow> nat" where
  "code c = of_char c"

definition is_digit :: "char \<Rightarrow> bool" where
  "is_digit c \<longleftrightarrow> 48 \<le> code c \<and> code c \<le> 57"

definition is_upper :: "char \<Rightarrow> bool" where
  "is_upper c \<longleftrightarrow> 65 \<le> code c \<and> code c \<le> 90"

definition is_lower :: "char \<Rightarrow> bool" where
  "is_lower c \<longleftrightarrow> 97 \<le> code c \<and> code c \<le> 122"

definition is_alpha :: "char \<Rightarrow> bool" where
  "is_alpha c \<longleftrightarrow> is_upper c \<or> is_lower c"

text \<open>The regular expression class \<open>\w\<close>.\<close>

definition re_word :: "char \<Rightarrow> bool" where
  "re_word c \<longleftrightarrow> is_digit c \<or> is_alpha c \<or> c = CHR ''_''"

text \<open>The regular expression class \<open>\s\<close>: tab, line feed, vertical tab, form feed, carriage
  return, space and the no-break space.\<close>

definition re_space :: "char \<Rightarrow> bool" where
  "re_space c \<longleftrightarrow> (9 \<le> code c \<and> code c \<le> 13) \<or> code c = 32 \<or> code c = 160"

text \<open>Letters with a case distinction: the ASCII letters and those of the Latin-1 block.\<close>

definition has_case :: "char \<Rightarrow> bool" where
  "has_case c \<longleftrightarrow> is_alpha c \<or> code c = 181 \<or> (192 \<le> code c \<and> code c \<noteq> 215 \<and> code c \<noteq> 247)"

definition to_lower :: "char \<Rightarrow> char" where
  "to_lower c = (if is_upper c \<or> (192 \<le> code c \<and> code c \<le> 222 \<and> code c \<noteq> 215)
                 then char_of (code c + 32) else c)"

lemmas char_class_defs = code_def is_digit_def is_upper_def is_lower_def is_alpha_def re_word_def
  re_space_def has_case_def to_lower_def

subsection \<open>Strings\<close>

definition js_index :: "int \<Rightarrow> nat \<Rightarrow> nat" where
  "js_index i n = (if i < 0 then nat (int n + i) else min (nat i) n)"

text \<open>\<open>s.slice(a, b)\<close> and \<open>s.slice(a)\<close>; a negative index counts from the end.\<close>

definition js_slice :: "'a list \<Rightarrow> int \<Rightarrow> int \<Rightarrow> 'a list" where
  "js_slice s a b = (let i = js_index a (length s); j = js_index b (length s) in take (j - i) (drop i s))"

definition js_slice_from :: "'a list \<Rightarrow> int \<Rightarrow> 'a list" where
  "js_slice_from s a = drop (js_index a (length s)) s"

text \<open>\<open>s.charAt(i)\<close>: \<open>None\<close> stands for the empty string of an index out of range.\<close>

definition charAt :: "jstring \<Rightarrow> int \<Rightarrow> char option" where
  "charAt s i = (if 0 \<le> i \<and> i < int (length s) then Some (s ! nat i) else None)"

text \<open>\<open>arr[arr.length-1]\<close>, \<open>undefined\<close> on the empty array.\<close>

definition lst :: "'a list \<Rightarrow> 'a option" where
  "lst xs = (if xs = [] then None else Some (last xs))"

text \<open>\<open>arr.splice(i, n, ...ys)\<close>, the changed array.\<close>

definition splice_at :: "nat \<Rightarrow> nat \<Rightarrow> 'a list \<Rightarrow> 'a list \<Rightarrow> 'a list" where
  "splice_at i n ys xs = take i xs @ ys @ drop (i + n) xs"

text \<open>\<open>xs.join(sep)\<close>.\<close>

fun js_join :: "jstring \<Rightarrow> jstring list \<Rightarrow> jstring" where
  "js_join sep [] = []"
| "js_join sep [x] = x"
| "js_join sep (x # y # xs) = x @ sep @ js_join sep (y # xs)"

text \<open>\<open>s.split(c)\<close> for a separator of one character.\<close>

fun js_split :: "char \<Rightarrow> jstring \<Rightarrow> jstring list" where
  "js_split c [] = [[]]"
| "js_split c (x # xs) =
     (if x = c then [] # js_split c xs
      else (case js_split c xs of [] \<Rightarrow> [[x]] | y # ys \<Rightarrow> (x # y) # ys))"

text \<open>The first index of an element from position \<open>k\<close> on, \<open>None\<close> for the code's -1.\<close>

fun find_from :: "('a \<Rightarrow> bool) \<Rightarrow> nat \<Rightarrow> 'a list \<Rightarrow> nat option" where
  "find_from P k [] = None"
| "find_from P k (x # xs) = (if P x then Some k else find_from P (Suc k) xs)"

definition index_of :: "'a \<Rightarrow> 'a list \<Rightarrow> nat option" where
  "index_of y xs = find_from (\<lambda>x. x = y) 0 xs"

definition index_from :: "char \<Rightarrow> nat \<Rightarrow> jstring \<Rightarrow> nat option" where
  "index_from c k s = find_from (\<lambda>x. x = c) k (drop k s)"

text \<open>\<open>$.trim\<close>.\<close>

definition js_trim :: "jstring \<Rightarrow> jstring" where
  "js_trim s = rev (dropWhile re_space (rev (dropWhile re_space s)))"

text \<open>\<open>String(n)\<close> of an integer.\<close>

fun nat_digits :: "nat \<Rightarrow> jstring" where
  "nat_digits n = (if n < 10 then [char_of (48 + n)]
                   else nat_digits (n div 10) @ [char_of (48 + n mod 10)])"

declare nat_digits.simps [simp del]

definition int_str :: "int \<Rightarrow> jstring" where
  "int_str i = (if i < 0 then CHR ''-'' # nat_digits (nat (- i)) else nat_digits (nat i))"

subsection \<open>Facts on the operations above\<close>

lemma js_index_nat [simp]: "js_index (int i) n = min i n"
  by (simp add: js_index_def)

lemma js_index_nonneg: "0 \<le> i \<Longrightarrow> js_index i n = min (nat i) n"
  by (simp add: js_index_def)

lemma js_slice_nat: "js_slice s (int a) (int b) = take (b - a) (drop a s)"
  by (cases "a \<le> length s") (auto simp: js_slice_def Let_def min_def)

lemma js_slice_0: "0 \<le> b \<Longrightarrow> js_slice s 0 b = take (nat b) s"
  using js_slice_nat [of s 0 "nat b"] by simp

lemma js_slice_nonneg: "0 \<le> a \<Longrightarrow> 0 \<le> b \<Longrightarrow> js_slice s a b = take (nat b - nat a) (drop (nat a) s)"
  using js_slice_nat [of s "nat a" "nat b"] by simp

lemma js_slice_from_nat: "js_slice_from s (int a) = drop a s"
  by (simp add: js_slice_from_def min_def)

lemma js_slice_from_nonneg: "0 \<le> a \<Longrightarrow> js_slice_from s a = drop (nat a) s"
  using js_slice_from_nat [of s "nat a"] by simp

lemma lst_Some [simp]: "xs \<noteq> [] \<Longrightarrow> lst xs = Some (last xs)"
  by (simp add: lst_def)

lemma lst_Nil [simp]: "lst [] = None"
  by (simp add: lst_def)

lemma lst_eq_Some: "lst xs = Some x \<longleftrightarrow> (\<exists>ys. xs = ys @ [x])"
  by (auto simp: lst_def) (metis append_butlast_last_id)

lemma js_split_nonempty [simp]: "js_split c s \<noteq> []"
  by (cases s) (auto split: list.splits)

lemma js_join_Cons: "xs \<noteq> [] \<Longrightarrow> js_join sep (x # xs) = x @ sep @ js_join sep xs"
  by (cases xs) auto

lemma js_join_split: "js_join [c] (js_split c s) = s"
proof (induction s)
  case (Cons x xs)
  then show ?case
    by (cases "js_split c xs")
      (auto simp: js_join_Cons split: list.splits, metis append_Cons js_join.simps(2,3) list.exhaust)
qed simp

lemma js_split_noncontaining: "c \<notin> set s \<Longrightarrow> js_split c s = [s]"
  by (induction s) auto

lemma js_split_append: "c \<notin> set s \<Longrightarrow> js_split c (s @ c # t) = s # js_split c t"
  by (induction s) auto

lemma js_split_join:
  "xs \<noteq> [] \<Longrightarrow> \<forall>x \<in> set xs. c \<notin> set x \<Longrightarrow> js_split c (js_join [c] xs) = xs"
proof (induction xs)
  case (Cons x xs)
  then show ?case
    by (cases "xs = []") (auto simp: js_join_Cons js_split_append js_split_noncontaining)
qed simp

lemma js_split_no_sep: "x \<in> set (js_split c s) \<Longrightarrow> c \<notin> set x"
  by (induction s arbitrary: x) (auto split: list.splits if_splits)

lemma find_from_Some: "find_from P k xs = Some i \<Longrightarrow> k \<le> i \<and> i < k + length xs \<and> P (xs ! (i - k))"
proof (induction xs arbitrary: k)
  case (Cons x xs)
  then show ?case by (force split: if_splits simp: nth_Cons')
qed simp

lemma find_from_None: "find_from P k xs = None \<longleftrightarrow> (\<forall>x \<in> set xs. \<not> P x)"
  by (induction xs arbitrary: k) auto

lemma sum_list_append_take_drop:
  "sum_list (map f (take n xs)) + sum_list (map f (drop n xs)) = sum_list (map f (xs :: 'a list))"
  for f :: "'a \<Rightarrow> int"
  by (metis append_take_drop_id map_append sum_list_append)

end
