(* ===== verification/CM_Line.thy ===== *)
theory CM_Line
  imports Js_Prelude
begin

section \<open>Lines, marked spans and history lines\<close>

text \<open>
  The objects the editor's document is made of (\<open>codemirror.js\<close>): the \<open>Line\<close> object, the spans
  that text markers leave on lines, and the history lines that the undo history stores.  A line
  and a marker are objects with an identity; here they carry a number.  The \<open>parent\<close> pointer of
  a line is not a field: a line has a parent when it occurs in the document tree.
\<close>

record span =
  sfrom :: "int option"
  sto :: "int option"
  smarker :: nat

datatype marker_type = Range | Bookmark

text \<open>A \<open>TextMarker\<close>: the lines it is attached to, its type and the options \<open>markText\<close> copies.\<close>

record marker =
  mlines :: "nat list"
  mtype :: marker_type
  mstyle :: "jstring option"
  inclusiveLeft :: bool
  inclusiveRight :: bool
  startStyle :: "jstring option"
  endStyle :: "jstring option"

text \<open>A history line: a string, or a text with its spans.\<close>

datatype hl = HL jstring | HLS jstring "span list"

fun hlText :: "hl \<Rightarrow> jstring" where
  "hlText (HL t) = t"
| "hlText (HLS t sp) = t"

fun hlSpans :: "hl \<Rightarrow> span list option" where
  "hlSpans (HL t) = None"
| "hlSpans (HLS t sp) = Some sp"

fun newHL :: "jstring \<Rightarrow> span list option \<Rightarrow> hl" where
  "newHL t None = HL t"
| "newHL t (Some sp) = HLS t sp"

lemma hlText_newHL [simp]: "hlText (newHL t sp) = t"
  by (cases sp) auto

lemma hlSpans_newHL [simp]: "hlSpans (newHL t sp) = sp"
  by (cases sp) auto

lemma newHL_eta [simp]: "newHL (hlText h) (hlSpans h) = h"
  by (cases h) auto

text \<open>
  A line; \<open>'s\<close> is the type of the mode's parser states.  \<open>styles\<close> is the array of alternating
  fragments and style names, as a list of pairs.  \<open>lhiddenSet\<close> tells that the property \<open>hidden\<close> was assigned; before
  that it is \<open>undefined\<close>.
\<close>

record 's line =
  lid :: nat
  ltext :: jstring
  lheight :: int
  markedSpans :: "span list option"
  lhidden :: bool
  lhiddenSet :: bool
  stateAfter :: "'s option"
  lstyles :: "(jstring \<times> jstring option) list option"
  lclass :: "jstring option"
  lbgclass :: "jstring option"
  gutterMarker :: "(jstring option \<times> jstring option) option"
  lhandlers :: "nat list"

text \<open>\<open>new Line(text, markedSpans)\<close>; the marker side of \<open>attachMarkedSpans\<close> is in the editor.\<close>

definition new_line :: "nat \<Rightarrow> jstring \<Rightarrow> span list option \<Rightarrow> 's line" where
  "new_line i t sp = \<lparr>lid = i, ltext = t, lheight = 1, markedSpans = sp, lhidden = False, lhiddenSet = False,
     stateAfter = None, lstyles = None, lclass = None, lbgclass = None, gutterMarker = None,
     lhandlers = []\<rparr>"

text \<open>\<open>Line.prototype.update\<close>.\<close>

definition line_update :: "jstring \<Rightarrow> span list option \<Rightarrow> 's line \<Rightarrow> 's line" where
  "line_update t sp l = l\<lparr>ltext := t, stateAfter := None, lstyles := None, markedSpans := sp\<rparr>"

text \<open>\<open>newHL(line.text, line.markedSpans)\<close>, what the history keeps of a line.\<close>

definition line_hl :: "'s line \<Rightarrow> hl" where
  "line_hl l = newHL (ltext l) (markedSpans l)"

lemma new_line_sel [simp]:
  "lid (new_line i t sp) = i" "ltext (new_line i t sp) = t" "lheight (new_line i t sp) = 1"
  "markedSpans (new_line i t sp) = sp" "lhidden (new_line i t sp) = False"
  "stateAfter (new_line i t sp) = None" "lstyles (new_line i t sp) = None"
  by (simp_all add: new_line_def)

lemma line_update_sel [simp]:
  "lid (line_update t sp l) = lid l" "ltext (line_update t sp l) = t"
  "lheight (line_update t sp l) = lheight l" "markedSpans (line_update t sp l) = sp"
  "lhidden (line_update t sp l) = lhidden l" "stateAfter (line_update t sp l) = None"
  by (simp_all add: line_update_def)

lemma hlText_line_hl [simp]: "hlText (line_hl l) = ltext l"
  by (simp add: line_hl_def)

lemma hlSpans_line_hl [simp]: "hlSpans (line_hl l) = markedSpans l"
  by (simp add: line_hl_def)

end
