(* ===== verification/CM_Chunks.thy ===== *)
theory CM_Chunks
  imports CM_Line
begin

section \<open>The document tree\<close>

text \<open>
  The sequence of lines is a tree of chunks (\<open>LeafChunk\<close>, \<open>BranchChunk\<close>, \<open>getLineAt\<close>,
  \<open>lineAtHeight\<close>, \<open>heightAtLine\<close> in \<open>codemirror.js\<close>).  A leaf caches the height of its lines, a
  branch the number and the height of the lines below it.  The code mutates nodes in place and
  follows parent pointers; here an operation returns the new node, and an operation that makes a
  node spill returns the node together with the siblings it has spilled, which the parent puts in
  its place.
\<close>

datatype 's chunk =
  Leaf "'s line list" int
| Branch "'s chunk list" nat int

definition heights :: "'s line list \<Rightarrow> int" where
  "heights ls = sum_list (map lheight ls)"

fun chunkSize :: "'s chunk \<Rightarrow> nat" where
  "chunkSize (Leaf ls h) = length ls"
| "chunkSize (Branch cs sz h) = sz"

fun chunkHeight :: "'s chunk \<Rightarrow> int" where
  "chunkHeight (Leaf ls h) = h"
| "chunkHeight (Branch cs sz h) = h"

text \<open>The constructors \<open>new LeafChunk(lines)\<close> and \<open>new BranchChunk(children)\<close>.\<close>

definition leafChunk :: "'s line list \<Rightarrow> 's chunk" where
  "leafChunk ls = Leaf ls (heights ls)"

definition branchChunk :: "'s chunk list \<Rightarrow> 's chunk" where
  "branchChunk cs = Branch cs (sum_list (map chunkSize cs)) (sum_list (map chunkHeight cs))"

text \<open>\<open>collapse(lines)\<close> pushes the lines below a node; this is also the abstraction function.\<close>

fun collapse :: "'s chunk \<Rightarrow> 's line list" where
  "collapse (Leaf ls h) = ls"
| "collapse (Branch cs sz h) = concat (map collapse cs)"

subsection \<open>Removal\<close>

text \<open>
  \<open>remove(at, n, callbacks)\<close> returns the changed node and the lines it has removed, in the order
  the code cleans them up.  \<open>removeN\<close> is the loop over the children: the new children, the sum of
  the height differences, what is left of \<open>n\<close> and the removed lines.
\<close>

fun chunk_remove :: "nat \<Rightarrow> nat \<Rightarrow> 's chunk \<Rightarrow> 's chunk \<times> 's line list"
and removeN :: "nat \<Rightarrow> nat \<Rightarrow> 's chunk list \<Rightarrow> 's chunk list \<times> int \<times> nat \<times> 's line list" where
  "chunk_remove at n (Leaf ls h) =
     (let rem = take n (drop at ls) in (Leaf (splice_at at n [] ls) (h - heights rem), rem))"
| "chunk_remove at n (Branch cs sz h) =
     (let (cs', dh, left, rem) = removeN at n cs in
      if sz - n - left < 25 then (Branch [leafChunk (concat (map collapse cs'))] (sz - n) (h - dh), rem)
      else (Branch cs' (sz - n) (h - dh), rem))"
| "removeN at n [] = ([], 0, n, [])"
| "removeN at n (c # cs) =
     (let sz = chunkSize c in
      if at < sz then
        let rm = min n (sz - at);
            (c', ls) = chunk_remove at rm c;
            dh = chunkHeight c - chunkHeight c';
            kept = (if sz = rm then [] else [c'])
        in if n - rm = 0 then (kept @ cs, dh, 0, ls)
           else let (cs', dh', left, ls') = removeN 0 (n - rm) cs
                in (kept @ cs', dh + dh', left, ls @ ls')
      else let (cs', dh', left, ls') = removeN (at - sz) n cs in (c # cs', dh', left, ls'))"

subsection \<open>Insertion\<close>

text \<open>
  A leaf of more than 50 lines spills its last 25 lines as a new leaf until it is small enough;
  a branch of more than 10 children spills its last 5 as a new branch (\<open>maybeSpill\<close>).
\<close>

fun leaf_spill :: "'s line list \<Rightarrow> int \<Rightarrow> 's chunk list \<Rightarrow> 's chunk list" where
  "leaf_spill ls h sibs =
     (if length ls > 50 then
        let newleaf = leafChunk (drop (length ls - 25) ls)
        in leaf_spill (take (length ls - 25) ls) (h - chunkHeight newleaf) (newleaf # sibs)
      else Leaf ls h # sibs)"

fun branch_spill :: "'s chunk list \<Rightarrow> nat \<Rightarrow> int \<Rightarrow> 's chunk list \<Rightarrow> 's chunk list" where
  "branch_spill cs sz h sibs =
     (if length cs > 10 then
        let sibling = branchChunk (drop (length cs - 5) cs)
        in branch_spill (take (length cs - 5) cs) (sz - chunkSize sibling) (h - chunkHeight sibling)
             (sibling # sibs)
      else Branch cs sz h # sibs)"

declare leaf_spill.simps [simp del] branch_spill.simps [simp del]

text \<open>
  \<open>insertHeight\<close> below the root: the node with the siblings it has spilled.  \<open>insertN\<close> is the loop
  over the children, with the flag that the receiving child has spilled.
\<close>

fun chunk_insert :: "nat \<Rightarrow> 's line list \<Rightarrow> int \<Rightarrow> 's chunk \<Rightarrow> 's chunk list"
and insertN :: "nat \<Rightarrow> 's line list \<Rightarrow> int \<Rightarrow> 's chunk list \<Rightarrow> 's chunk list \<times> bool" where
  "chunk_insert at ls dh (Leaf l h) = leaf_spill (splice_at at 0 ls l) (h + dh) []"
| "chunk_insert at ls dh (Branch cs sz h) =
     (let (cs', spilled) = insertN at ls dh cs in
      if spilled then branch_spill cs' (sz + length ls) (h + dh) []
      else [Branch cs' (sz + length ls) (h + dh)])"
| "insertN at ls dh [] = ([], False)"
| "insertN at ls dh (c # cs) =
     (let sz = chunkSize c in
      if at \<le> sz then let r = chunk_insert at ls dh c in (r @ cs, length r > 1)
      else let (cs', sp) = insertN (at - sz) ls dh cs in (c # cs', sp))"

text \<open>
  The root keeps its place: on the first round of \<open>maybeSpill\<close> it takes a copy of itself and the
  sibling as its two children, the copy goes on spilling, and then the root is looked at again.
\<close>

lemma branch_spill_length:
  "length (branch_spill cs sz h sibs) =
     length sibs + 1 + (if length cs > 10 then (length cs - 6) div 5 else 0)"
proof (induction cs sz h sibs rule: branch_spill.induct)
  case (1 cs sz h sibs)
  show ?case
  proof (cases "length cs > 10")
    case True
    then have "(length cs - 6) div 5 = Suc (if 15 < length cs then (length cs - 11) div 5 else 0)"
      by (cases "15 < length cs") (auto simp: div_if)
    with True show ?thesis
      using 1 [OF True refl] by (subst branch_spill.simps) (simp add: Let_def less_diff_conv)
  next
    case False
    then show ?thesis by (subst branch_spill.simps) simp
  qed
qed

function root_spill :: "'s chunk list \<Rightarrow> 's chunk list" where
  "root_spill cs =
     (if length cs \<le> 10 then cs
      else let sibling = branchChunk (drop (length cs - 5) cs);
               copy = branchChunk (take (length cs - 5) cs);
               rest = (case copy of Branch cs' sz h \<Rightarrow> branch_spill cs' sz h [] | _ \<Rightarrow> [copy])
           in root_spill (rest @ [sibling]))"
  by pat_completeness auto
termination
  by (relation "measure length") (auto simp: branchChunk_def branch_spill_length)

declare root_spill.simps [simp del]

fun insert_lines :: "nat \<Rightarrow> 's line list \<Rightarrow> 's chunk \<Rightarrow> 's chunk" where
  "insert_lines at ls (Branch cs sz h) =
     (let (cs', spilled) = insertN at ls (heights ls) cs
      in Branch (if spilled then root_spill cs' else cs') (sz + length ls) (h + heights ls))"
| "insert_lines at ls (Leaf l h) = Leaf (splice_at at 0 ls l) (h + heights ls)"


subsection \<open>Access\<close>

text \<open>\<open>getLineAt\<close>: \<open>None\<close> for the \<open>TypeError\<close> (or \<open>undefined\<close>) of a line out of range.\<close>

fun getLineAt :: "'s chunk \<Rightarrow> nat \<Rightarrow> 's line option"
and getLineN :: "'s chunk list \<Rightarrow> nat \<Rightarrow> 's line option" where
  "getLineAt (Leaf ls h) n = (if n < length ls then Some (ls ! n) else None)"
| "getLineAt (Branch cs sz h) n = getLineN cs n"
| "getLineN [] n = None"
| "getLineN (c # cs) n = (if n < chunkSize c then getLineAt c n else getLineN cs (n - chunkSize c))"

text \<open>
  \<open>iterN(at, n, op)\<close>: \<open>op\<close> is called on each line of the range until it returns true; \<open>'a\<close> is the
  state that the closure \<open>op\<close> updates.
\<close>

fun iter_lines :: "('s line \<Rightarrow> 'a \<Rightarrow> bool \<times> 'a) \<Rightarrow> 's line list \<Rightarrow> 'a \<Rightarrow> bool \<times> 'a" where
  "iter_lines op [] a = (False, a)"
| "iter_lines op (l # ls) a = (let (stop, a') = op l a in if stop then (True, a') else iter_lines op ls a')"

fun iterN :: "nat \<Rightarrow> nat \<Rightarrow> ('s line \<Rightarrow> 'a \<Rightarrow> bool \<times> 'a) \<Rightarrow> 's chunk \<Rightarrow> 'a \<Rightarrow> bool \<times> 'a"
and iterC :: "nat \<Rightarrow> nat \<Rightarrow> ('s line \<Rightarrow> 'a \<Rightarrow> bool \<times> 'a) \<Rightarrow> 's chunk list \<Rightarrow> 'a \<Rightarrow> bool \<times> 'a" where
  "iterN at n op (Leaf ls h) a = iter_lines op (take n (drop at ls)) a"
| "iterN at n op (Branch cs sz h) a = iterC at n op cs a"
| "iterC at n op [] a = (False, a)"
| "iterC at n op (c # cs) a =
     (let sz = chunkSize c in
      if at < sz then
        let used = min n (sz - at); (stop, a') = iterN at used op c a
        in if stop then (True, a') else if n - used = 0 then (False, a') else iterC 0 (n - used) op cs a'
      else iterC (at - sz) n op cs a)"

definition doc_iter :: "nat \<Rightarrow> nat \<Rightarrow> ('s line \<Rightarrow> 'a \<Rightarrow> bool \<times> 'a) \<Rightarrow> 's chunk \<Rightarrow> 'a \<Rightarrow> bool \<times> 'a" where
  "doc_iter f t op c a = iterN f (t - f) op c a"

text \<open>\<open>lineAtHeight\<close> and \<open>heightAtLine\<close>: the loops over the lines of a leaf, then the descent.\<close>

fun leafAtHeight :: "'s line list \<Rightarrow> int \<Rightarrow> nat" where
  "leafAtHeight [] h = 0"
| "leafAtHeight (l # ls) h = (if h < lheight l then 0 else Suc (leafAtHeight ls (h - lheight l)))"

fun lineAtHeight :: "'s chunk \<Rightarrow> int \<Rightarrow> nat"
and lineAtHeightN :: "'s chunk list \<Rightarrow> int \<Rightarrow> nat" where
  "lineAtHeight (Leaf ls lh) h = leafAtHeight ls h"
| "lineAtHeight (Branch cs sz bh) h = lineAtHeightN cs h"
| "lineAtHeightN [] h = 0"
| "lineAtHeightN (c # cs) h =
     (if h < chunkHeight c then lineAtHeight c h
      else chunkSize c + lineAtHeightN cs (h - chunkHeight c))"

fun heightAtLine :: "'s chunk \<Rightarrow> nat \<Rightarrow> int"
and heightAtLineN :: "'s chunk list \<Rightarrow> nat \<Rightarrow> int" where
  "heightAtLine (Leaf ls lh) n = heights (take n ls)"
| "heightAtLine (Branch cs sz bh) n = heightAtLineN cs n"
| "heightAtLineN [] n = 0"
| "heightAtLineN (c # cs) n =
     (if n < chunkSize c then heightAtLine c n
      else chunkHeight c + heightAtLineN cs (n - chunkSize c))"

text \<open>
  \<open>lineNo(line)\<close> climbs from the line to the root.  The chain of parent pointers is the path from
  the line's leaf upwards: at each branch the children in front of the one it came from.
\<close>

fun parent_path :: "nat \<Rightarrow> 's chunk \<Rightarrow> ('s line list \<times> 's chunk list list) option"
and parent_pathN :: "nat \<Rightarrow> 's chunk list \<Rightarrow> 's chunk list \<Rightarrow> ('s line list \<times> 's chunk list list) option"
where
  "parent_path i (Leaf ls h) = (if i \<in> lid ` set ls then Some (ls, []) else None)"
| "parent_path i (Branch cs sz h) = parent_pathN i [] cs"
| "parent_pathN i before [] = None"
| "parent_pathN i before (c # cs) =
     (case parent_path i c of
        Some (ls, p) \<Rightarrow> Some (ls, p @ [before])
      | None \<Rightarrow> parent_pathN i (before @ [c]) cs)"

definition lineNo :: "nat \<Rightarrow> 's chunk \<Rightarrow> nat option" where
  "lineNo i c =
     (case parent_path i c of
        None \<Rightarrow> None
      | Some (ls, p) \<Rightarrow>
          map_option (\<lambda>no. fold (\<lambda>before n. n + sum_list (map chunkSize before)) p no)
            (index_of i (map lid ls)))"

text \<open>
  Mutation of one line in place, and \<open>updateLineHeight\<close>, which adds the difference to the line and
  to every node on the way to the root.
\<close>

fun map_line :: "nat \<Rightarrow> ('s line \<Rightarrow> 's line) \<Rightarrow> 's chunk \<Rightarrow> 's chunk"
and map_lineN :: "nat \<Rightarrow> ('s line \<Rightarrow> 's line) \<Rightarrow> 's chunk list \<Rightarrow> 's chunk list" where
  "map_line n f (Leaf ls h) = Leaf (if n < length ls then ls[n := f (ls ! n)] else ls) h"
| "map_line n f (Branch cs sz h) = Branch (map_lineN n f cs) sz h"
| "map_lineN n f [] = []"
| "map_lineN n f (c # cs) =
     (if n < chunkSize c then map_line n f c # cs else c # map_lineN (n - chunkSize c) f cs)"

fun add_height :: "nat \<Rightarrow> int \<Rightarrow> 's chunk \<Rightarrow> 's chunk"
and add_heightN :: "nat \<Rightarrow> int \<Rightarrow> 's chunk list \<Rightarrow> 's chunk list" where
  "add_height n d (Leaf ls h) =
     (if n < length ls then Leaf (ls[n := (ls ! n)\<lparr>lheight := lheight (ls ! n) + d\<rparr>]) (h + d) else Leaf ls h)"
| "add_height n d (Branch cs sz h) = Branch (add_heightN n d cs) sz (h + d)"
| "add_heightN n d [] = []"
| "add_heightN n d (c # cs) =
     (if n < chunkSize c then add_height n d c # cs else c # add_heightN (n - chunkSize c) d cs)"

definition updateLineHeight :: "nat \<Rightarrow> int \<Rightarrow> 's chunk \<Rightarrow> 's chunk" where
  "updateLineHeight n height c =
     (case getLineAt c n of None \<Rightarrow> c | Some l \<Rightarrow> add_height n (height - lheight l) c)"

end
