(* ===== verification/Line_Store.thy ===== *)
theory Line_Store
  imports Js_Prelude
begin

section \<open>The interface between the editor and its document\<close>

text \<open>
  What the editor relies on in the document: reading a line, inserting lines at an index and
  removing a range of lines, all described on the list of lines that the document stands for.
\<close>

locale line_store =
  fixes ok :: "'d \<Rightarrow> bool"
    and lines_of :: "'d \<Rightarrow> 'l list"
    and get :: "'d \<Rightarrow> nat \<Rightarrow> 'l option"
    and ins :: "nat \<Rightarrow> 'l list \<Rightarrow> 'd \<Rightarrow> 'd"
    and del :: "nat \<Rightarrow> nat \<Rightarrow> 'd \<Rightarrow> 'd"
  assumes get_line: "ok d \<Longrightarrow> get d n = (if n < length (lines_of d) then Some (lines_of d ! n) else None)"
    and ins_lines: "ok d \<Longrightarrow> i \<le> length (lines_of d) \<Longrightarrow> lines_of (ins i ls d) = splice_at i 0 ls (lines_of d)"
    and ins_ok: "ok d \<Longrightarrow> i \<le> length (lines_of d) \<Longrightarrow> ok (ins i ls d)"
    and del_lines: "ok d \<Longrightarrow> i + n \<le> length (lines_of d) \<Longrightarrow> lines_of (del i n d) = splice_at i n [] (lines_of d)"
    and del_ok: "ok d \<Longrightarrow> i + n \<le> length (lines_of d) \<Longrightarrow> ok (del i n d)"
begin

lemma replace_lines:
  assumes "ok d" and "i + n \<le> length (lines_of d)"
  shows "lines_of (ins i ls (del i n d)) = splice_at i n ls (lines_of d)"
    and "ok (ins i ls (del i n d))"
proof -
  have d: "ok (del i n d)" "lines_of (del i n d) = splice_at i n [] (lines_of d)"
    using assms by (simp_all add: del_ok del_lines)
  then have i: "i \<le> length (lines_of (del i n d))"
    using assms(2) by (simp add: splice_at_def)
  show "ok (ins i ls (del i n d))" by (rule ins_ok [OF d(1) i])
  show "lines_of (ins i ls (del i n d)) = splice_at i n ls (lines_of d)"
    using ins_lines [OF d(1) i] d(2) assms(2) by (simp add: splice_at_def)
qed

lemma insert_remove:
  assumes "ok d" and "i \<le> length (lines_of d)"
  shows "lines_of (del i (length ls) (ins i ls d)) = lines_of d"
  using assms del_lines [of "ins i ls d" i "length ls"] ins_ok [of d i ls]
  by (simp add: ins_lines splice_at_def)

lemma get_inserted:
  assumes "ok d" and "i \<le> length (lines_of d)"
  shows "get (ins i ls d) n =
     (if n < i then get d n else if n < i + length ls then Some (ls ! (n - i)) else get d (n - length ls))"
  using assms by (auto simp: get_line ins_ok ins_lines splice_at_def nth_append)

lemma get_removed:
  assumes "ok d" and "i + k \<le> length (lines_of d)"
  shows "get (del i k d) n = (if n < i then get d n else get d (n + k))"
  using assms by (auto simp: get_line del_ok del_lines splice_at_def nth_append min_def add.commute)

end

end
