(* ===== verification/CM_Chunks_Laws.thy ===== *)
theory CM_Chunks_Laws
  imports CM_Chunks Line_Store
begin

section \<open>The document tree implements a list of lines\<close>

text \<open>
  The abstraction of a tree is \<open>collapse\<close>, the list of its lines.  \<open>cached\<close> says that every cached
  size and height is right, \<open>small\<close> that leaves hold at most 50 lines and branches between 1 and 10
  children.  Each operation of the tree is the corresponding operation on the list and keeps both.
\<close>

named_theorems tree_abs \<open>what the operations of the tree do to the list of lines\<close>

fun cached :: "'s chunk \<Rightarrow> bool" where
  "cached (Leaf ls h) \<longleftrightarrow> h = heights ls"
| "cached (Branch cs sz h) \<longleftrightarrow> (\<forall>c \<in> set cs. cached c) \<and>
     sz = sum_list (map chunkSize cs) \<and> h = sum_list (map chunkHeight cs)"

fun small :: "'s chunk \<Rightarrow> bool" where
  "small (Leaf ls h) \<longleftrightarrow> length ls \<le> 50"
| "small (Branch cs sz h) \<longleftrightarrow> (\<forall>c \<in> set cs. small c) \<and> cs \<noteq> [] \<and> length cs \<le> 10"

fun is_branch :: "'s chunk \<Rightarrow> bool" where
  "is_branch (Leaf ls h) = False"
| "is_branch (Branch cs sz h) = True"

text \<open>The invariant of the document.\<close>

definition doc_ok :: "'s chunk \<Rightarrow> bool" where
  "doc_ok c \<longleftrightarrow> is_branch c \<and> cached c \<and> small c"

subsection \<open>Sums over lists of chunks\<close>

abbreviation sizes :: "'s chunk list \<Rightarrow> nat" where
  "sizes cs \<equiv> sum_list (map chunkSize cs)"

abbreviation hts :: "'s chunk list \<Rightarrow> int" where
  "hts cs \<equiv> sum_list (map chunkHeight cs)"

abbreviation collapses :: "'s chunk list \<Rightarrow> 's line list" where
  "collapses cs \<equiv> concat (map collapse cs)"

lemma heights_simps [simp]:
  "heights [] = 0" "heights (l # ls) = lheight l + heights ls" "heights (xs @ ys) = heights xs + heights ys"
  by (simp_all add: heights_def)

lemma heights_take_drop: "heights (take n ls) + heights (drop n ls) = heights ls"
  by (simp add: heights_def sum_list_append_take_drop)

lemma heights_middle:
  "heights (take a ls) + heights (drop (a + n) ls) = heights ls - heights (take n (drop a ls))"
proof -
  have "heights ls = heights (take a ls) + (heights (take n (drop a ls)) + heights (drop n (drop a ls)))"
    by (simp only: heights_take_drop)
  then show ?thesis by (simp add: add.commute)
qed

lemma chunkSize_collapse: "cached c \<Longrightarrow> chunkSize c = length (collapse c)"
proof (induction c)
  case (Branch cs sz h)
  then have "map chunkSize cs = map (length \<circ> collapse) cs" by auto
  with Branch show ?case by (simp add: length_concat comp_def)
qed simp

lemma sizes_collapses: "\<forall>c \<in> set cs. cached c \<Longrightarrow> sizes cs = length (collapses cs)"
  by (induction cs) (auto simp: chunkSize_collapse)

lemma chunkHeight_collapse: "cached c \<Longrightarrow> chunkHeight c = heights (collapse c)"
proof (induction c)
  case (Branch cs sz h)
  have "\<forall>c \<in> set cs. chunkHeight c = heights (collapse c) \<Longrightarrow> hts cs = heights (collapses cs)" for cs :: "'a chunk list"
    by (induction cs) auto
  with Branch show ?case by simp
qed simp

lemma hts_collapses: "\<forall>c \<in> set cs. cached c \<Longrightarrow> hts cs = heights (collapses cs)"
  by (induction cs) (auto simp: chunkHeight_collapse)

lemma leafChunk_sel [simp]:
  "cached (leafChunk ls)" "collapse (leafChunk ls) = ls" "chunkSize (leafChunk ls) = length ls"
  "chunkHeight (leafChunk ls) = heights ls" "small (leafChunk ls) \<longleftrightarrow> length ls \<le> 50"
  by (simp_all add: leafChunk_def)

lemma branchChunk_sel [simp]:
  "cached (branchChunk cs) \<longleftrightarrow> (\<forall>c \<in> set cs. cached c)" "collapse (branchChunk cs) = collapses cs"
  "chunkSize (branchChunk cs) = sizes cs" "chunkHeight (branchChunk cs) = hts cs"
  "small (branchChunk cs) \<longleftrightarrow> (\<forall>c \<in> set cs. small c) \<and> cs \<noteq> [] \<and> length cs \<le> 10"
  by (simp_all add: branchChunk_def)

subsection \<open>Spilling\<close>

lemma take_drop_sums:
  "sizes (take n cs) + sizes (drop n cs) = sizes cs" "hts (take n cs) + hts (drop n cs) = hts cs"
  "collapses (take n cs) @ collapses (drop n cs) = collapses cs"
  by (metis append_take_drop_id map_append sum_list_append concat_append)+

lemma leaf_spill_collapse:
  "collapses (leaf_spill ls h sibs) = ls @ collapses sibs"
proof (induction ls h sibs rule: leaf_spill.induct)
  case (1 ls h sibs)
  then show ?case by (subst leaf_spill.simps) (auto simp: Let_def)
qed

lemma leaf_spill_ok:
  "h = heights ls \<Longrightarrow> \<forall>c \<in> set sibs. cached c \<and> small c \<Longrightarrow>
   \<forall>c \<in> set (leaf_spill ls h sibs). cached c \<and> small c"
proof (induction ls h sibs rule: leaf_spill.induct)
  case (1 ls h sibs)
  show ?case
  proof (cases "length ls > 50")
    case True
    have "h - chunkHeight (leafChunk (drop (length ls - 25) ls)) = heights (take (length ls - 25) ls)"
      using 1(2) heights_take_drop [of "length ls - 25" ls] by simp
    with True 1(3) have "\<forall>c \<in> set (leaf_spill (take (length ls - 25) ls)
        (h - chunkHeight (leafChunk (drop (length ls - 25) ls)))
        (leafChunk (drop (length ls - 25) ls) # sibs)). cached c \<and> small c"
      by (intro 1(1) [OF True refl]) auto
    with True show ?thesis by (subst leaf_spill.simps) (simp add: Let_def)
  next
    case False
    with 1 show ?thesis by (subst leaf_spill.simps) auto
  qed
qed

lemma leaf_spill_nonempty [simp]: "leaf_spill ls h sibs \<noteq> []"
proof (induction ls h sibs rule: leaf_spill.induct)
  case (1 ls h sibs)
  then show ?case by (subst leaf_spill.simps) (auto simp: Let_def)
qed

lemma branch_spill_collapse:
  "collapses (branch_spill cs sz h sibs) = collapses cs @ collapses sibs"
proof (induction cs sz h sibs rule: branch_spill.induct)
  case (1 cs sz h sibs)
  show ?case
  proof (cases "length cs > 10")
    case True
    from 1 [OF True refl] True show ?thesis
      by (subst branch_spill.simps) (simp add: Let_def take_drop_sums(3) flip: append_assoc)
  next
    case False
    then show ?thesis by (subst branch_spill.simps) simp
  qed
qed

lemma branch_spill_ok:
  "\<forall>c \<in> set cs. cached c \<and> small c \<Longrightarrow> cs \<noteq> [] \<Longrightarrow> sz = sizes cs \<Longrightarrow> h = hts cs \<Longrightarrow>
   \<forall>c \<in> set sibs. cached c \<and> small c \<Longrightarrow>
   \<forall>c \<in> set (branch_spill cs sz h sibs). cached c \<and> small c"
proof (induction cs sz h sibs rule: branch_spill.induct)
  case (1 cs sz h sibs)
  show ?case
  proof (cases "length cs > 10")
    case True
    let ?d = "drop (length cs - 5) cs" and ?t = "take (length cs - 5) cs"
    have "\<forall>c \<in> set (branch_spill ?t (sz - chunkSize (branchChunk ?d)) (h - chunkHeight (branchChunk ?d))
        (branchChunk ?d # sibs)). cached c \<and> small c"
      using 1(2-) True take_drop_sums(1,2) [of "length cs - 5" cs]
      by (intro 1(1) [OF True refl]) (auto dest: in_set_takeD in_set_dropD)
    with True show ?thesis by (subst branch_spill.simps) (simp add: Let_def)
  next
    case False
    with 1 show ?thesis by (subst branch_spill.simps) auto
  qed
qed

lemma branch_spill_nonempty [simp]: "branch_spill cs sz h sibs \<noteq> []"
  using branch_spill_length [of cs sz h sibs] by auto

lemma branchChunk_spill:
  "(case branchChunk cs of Branch cs' sz h \<Rightarrow> branch_spill cs' sz h [] | _ \<Rightarrow> [branchChunk cs])
   = branch_spill cs (sizes cs) (hts cs) []"
  by (simp add: branchChunk_def)

lemma root_spill_collapse: "collapses (root_spill cs) = collapses cs"
proof (induction cs rule: root_spill.induct)
  case (1 cs)
  show ?case
  proof (cases "length cs \<le> 10")
    case False
    from 1 [OF False refl refl refl] False show ?thesis
      by (subst root_spill.simps)
        (simp add: Let_def branchChunk_spill branch_spill_collapse take_drop_sums(3))
  qed (subst root_spill.simps, simp)
qed

lemma root_spill_ok:
  "\<forall>c \<in> set cs. cached c \<and> small c \<Longrightarrow> cs \<noteq> [] \<Longrightarrow>
   (\<forall>c \<in> set (root_spill cs). cached c \<and> small c) \<and> root_spill cs \<noteq> [] \<and> length (root_spill cs) \<le> 10"
proof (induction cs rule: root_spill.induct)
  case (1 cs)
  show ?case
  proof (cases "length cs \<le> 10")
    case True
    with 1 show ?thesis by (subst (1 2 3) root_spill.simps) simp
  next
    case False
    let ?d = "drop (length cs - 5) cs" and ?t = "take (length cs - 5) cs"
    have "\<forall>c \<in> set (branch_spill ?t (sizes ?t) (hts ?t) []). cached c \<and> small c"
      using 1(2) False by (intro branch_spill_ok) (auto dest: in_set_takeD)
    then have "\<forall>c \<in> set (branch_spill ?t (sizes ?t) (hts ?t) [] @ [branchChunk ?d]). cached c \<and> small c"
      using 1(2) False by (auto dest: in_set_dropD)
    from 1(1) [OF False refl refl refl, unfolded branchChunk_spill, OF this] False show ?thesis
      by (subst (1 2 3) root_spill.simps) (simp add: Let_def branchChunk_spill)
  qed
qed


subsection \<open>Insertion\<close>

definition good :: "'s chunk \<Rightarrow> bool" where
  "good c \<longleftrightarrow> cached c \<and> small c"

lemma good_Branch: "good (Branch cs sz h) \<longleftrightarrow>
    (\<forall>c \<in> set cs. good c) \<and> sz = sizes cs \<and> h = hts cs \<and> cs \<noteq> [] \<and> length cs \<le> 10"
  by (auto simp: good_def)

lemma good_size [simp]: "good c \<Longrightarrow> chunkSize c = length (collapse c)"
  by (simp add: good_def chunkSize_collapse)

lemma good_sizes: "\<forall>c \<in> set cs. good c \<Longrightarrow> sizes cs = length (collapses cs)"
  by (simp add: good_def sizes_collapses)

lemma splice_append_left:
  "at \<le> length xs \<Longrightarrow> splice_at at 0 ls (xs @ ys) = splice_at at 0 ls xs @ ys"
  by (simp add: splice_at_def)

lemma splice_append_right:
  "length xs \<le> at \<Longrightarrow> splice_at at n ls (xs @ ys) = xs @ splice_at (at - length xs) n ls ys"
  by (simp add: splice_at_def)

lemma insert_abs:
  fixes c :: "'s chunk" and cs :: "'s chunk list"
  shows "good c \<Longrightarrow> at \<le> length (collapse c) \<Longrightarrow>
     collapses (chunk_insert at ls dh c) = splice_at at 0 ls (collapse c)"
  and "\<forall>c \<in> set cs. good c \<Longrightarrow> cs \<noteq> [] \<Longrightarrow> at \<le> length (collapses cs) \<Longrightarrow>
     collapses (fst (insertN at ls dh cs)) = splice_at at 0 ls (collapses cs)"
proof (induction at ls dh c and at ls dh cs rule: chunk_insert_insertN.induct)
  case (1 at ls dh l h)
  then show ?case by (simp add: leaf_spill_collapse)
next
  case (2 at ls dh cs sz h)
  then show ?case
    by (auto simp: good_Branch branch_spill_collapse split: prod.splits if_splits)
next
  case (4 at ls dh c cs)
  show ?case
  proof (cases "at \<le> length (collapse c)")
    case True
    with 4 show ?thesis by (simp add: Let_def splice_append_left)
  next
    case False
    with "4.prems"(3) have "cs \<noteq> []" by auto
    with False 4 show ?thesis by (auto simp: Let_def splice_append_right split: prod.splits)
  qed
qed simp

lemma insert_good:
  fixes c :: "'s chunk" and cs :: "'s chunk list"
  shows "good c \<Longrightarrow> at \<le> length (collapse c) \<Longrightarrow> dh = heights ls \<Longrightarrow>
     (\<forall>d \<in> set (chunk_insert at ls dh c). good d) \<and> chunk_insert at ls dh c \<noteq> []"
  and "\<forall>c \<in> set cs. good c \<Longrightarrow> cs \<noteq> [] \<Longrightarrow> at \<le> length (collapses cs) \<Longrightarrow> dh = heights ls \<Longrightarrow>
     (\<forall>d \<in> set (fst (insertN at ls dh cs)). good d) \<and> fst (insertN at ls dh cs) \<noteq> [] \<and>
     (\<not> snd (insertN at ls dh cs) \<longrightarrow> length (fst (insertN at ls dh cs)) = length cs)"
proof (induction at ls dh c and at ls dh cs rule: chunk_insert_insertN.induct)
  case (1 at ls dh l h)
  then have "h + dh = heights (splice_at at 0 ls l)"
    using heights_take_drop [of at l] by (simp add: good_def splice_at_def)
  from leaf_spill_ok [OF this, of "[]"] show ?case by (simp add: good_def)
next
  case (2 at ls dh cs sz h)
  obtain cs' sp where ins: "insertN at ls dh cs = (cs', sp)" by fastforce
  from 2 have g: "\<forall>c \<in> set cs. good c" and at: "at \<le> length (collapses cs)" and ne: "cs \<noteq> []"
    and sz: "sz = sizes cs" and h: "h = hts cs" and le: "length cs \<le> 10"
    by (auto simp: good_Branch)
  have IH: "\<forall>d \<in> set cs'. good d" "cs' \<noteq> []" "\<not> sp \<longrightarrow> length cs' = length cs"
    using 2(1) [OF g ne at 2(4)] ins by auto
  have coll: "collapses cs' = splice_at at 0 ls (collapses cs)"
    using insert_abs(2) [OF g ne at] ins by (metis fst_conv)
  have sz': "sz + length ls = sizes cs'"
    using coll at g IH sz by (simp add: good_sizes splice_at_def)
  have h': "h + dh = hts cs'"
    using coll g IH(1) h 2(4) heights_take_drop [of at "collapses cs"]
    by (simp add: hts_collapses good_def splice_at_def)
  show ?case
  proof (cases sp)
    case True
    then show ?thesis
      using branch_spill_ok [of cs' "sz + length ls" "h + dh" "[]"] IH(1,2) sz' h' ins
      by (auto simp: good_def)
  next
    case False
    then show ?thesis using IH ins sz' h' le by (simp add: good_Branch)
  qed
next
  case (4 at ls dh c cs)
  show ?case
  proof (cases "at \<le> length (collapse c)")
    case True
    with 4 have "(\<forall>d \<in> set (chunk_insert at ls dh c). good d) \<and> chunk_insert at ls dh c \<noteq> []" by simp
    with True 4 show ?thesis
      by (cases "chunk_insert at ls dh c") (auto simp: Let_def)
  next
    case False
    with "4.prems"(3) have "cs \<noteq> []" by auto
    obtain cs' sp where ins: "insertN (at - chunkSize c) ls dh cs = (cs', sp)" by fastforce
    have g: "\<forall>c \<in> set cs. good c" "good c" using "4.prems"(1) by auto
    have "at - chunkSize c \<le> length (collapses cs)" using False "4.prems"(3) g(2) by simp
    from 4(2) [OF refl _ g(1) \<open>cs \<noteq> []\<close> this "4.prems"(4)] False g(2)
    have "(\<forall>d \<in> set cs'. good d) \<and> cs' \<noteq> [] \<and> (\<not> sp \<longrightarrow> length cs' = length cs)"
      by (simp add: ins del: good_size) (simp add: g)
    with False g ins show ?thesis by (simp add: Let_def)
  qed
qed simp

lemma insert_lines_collapse [tree_abs]:
  assumes "doc_ok c" and "at \<le> length (collapse c)"
  shows "collapse (insert_lines at ls c) = splice_at at 0 ls (collapse c)"
proof (cases c)
  case (Branch cs sz h)
  with assms have "collapses (fst (insertN at ls (heights ls) cs)) = splice_at at 0 ls (collapses cs)"
    by (intro insert_abs(2)) (auto simp: doc_ok_def good_def)
  with Branch show ?thesis by (auto simp: root_spill_collapse split: prod.splits)
qed (use assms in \<open>simp add: doc_ok_def\<close>)

lemma insert_lines_ok:
  assumes "doc_ok c" and "at \<le> length (collapse c)"
  shows "doc_ok (insert_lines at ls c)"
proof (cases c)
  case (Branch cs sz h)
  obtain cs' sp where ins: "insertN at ls (heights ls) cs = (cs', sp)" by fastforce
  let ?r = "if sp then root_spill cs' else cs'"
  from assms Branch have g: "\<forall>c \<in> set cs. good c" and ne: "cs \<noteq> []" and at: "at \<le> length (collapses cs)"
    and sz: "sz = sizes cs" and h: "h = hts cs" and le: "length cs \<le> 10"
    by (auto simp: doc_ok_def good_def)
  have IH: "\<forall>d \<in> set cs'. good d" "cs' \<noteq> []" "\<not> sp \<longrightarrow> length cs' = length cs"
    using insert_good(2) [OF g ne at refl] ins by (metis fst_conv snd_conv)+
  have coll: "collapses cs' = splice_at at 0 ls (collapses cs)"
    using insert_abs(2) [OF g ne at] ins by (metis fst_conv)
  have r: "\<forall>d \<in> set ?r. good d" "?r \<noteq> []" "length ?r \<le> 10" "collapses ?r = collapses cs'"
    using IH le root_spill_ok [of cs'] by (auto simp: good_def root_spill_collapse)
  have "sz + length ls = sizes ?r"
    using coll at g r(1,4) sz by (simp add: good_sizes splice_at_def del: map_eq_conv)
  moreover have "h + heights ls = hts ?r"
    using coll g r(1,4) h heights_take_drop [of at "collapses cs"]
    by (simp add: hts_collapses good_def splice_at_def)
  ultimately have "good (Branch ?r (sz + length ls) (h + heights ls))"
    using r by (simp add: good_Branch)
  then show ?thesis using Branch ins by (simp add: doc_ok_def good_def)
qed (use assms in \<open>simp add: doc_ok_def\<close>)


subsection \<open>Removal\<close>

lemma splice_take_drop [simp]: "splice_at at 0 [] xs = xs"
  by (simp add: splice_at_def)

text \<open>
  What \<open>removeN\<close> does with a child: it skips it, removes inside it and stops, or removes its end
  and goes on with the rest.
\<close>

lemma removeN_cases:
  assumes "removeN at n (c # cs) = (cs', dh, lft, rem)"
  obtains (skip) ds where "chunkSize c \<le> at" "removeN (at - chunkSize c) n cs = (ds, dh, lft, rem)"
      "cs' = c # ds"
  | (inside) c' where "at < chunkSize c" "n \<le> chunkSize c - at" "chunk_remove at n c = (c', rem)"
      "cs' = (if chunkSize c = n then [] else [c']) @ cs" "dh = chunkHeight c - chunkHeight c'" "lft = 0"
  | (across) c' ls ds dh' ls' where "at < chunkSize c" "chunkSize c - at < n"
      "chunk_remove at (chunkSize c - at) c = (c', ls)"
      "removeN 0 (n - (chunkSize c - at)) cs = (ds, dh', lft, ls')"
      "cs' = (if chunkSize c = chunkSize c - at then [] else [c']) @ ds"
      "dh = chunkHeight c - chunkHeight c' + dh'" "rem = ls @ ls'"
proof (cases "at < chunkSize c")
  case False
  with assms skip show ?thesis by (auto simp: Let_def split: prod.splits)
next
  case True
  show ?thesis
  proof (cases "n \<le> chunkSize c - at")
    case le: True
    then have "min n (chunkSize c - at) = n" by simp
    with assms \<open>at < chunkSize c\<close> le inside show ?thesis by (simp add: Let_def split: prod.splits)
  next
    case gt: False
    then have "min n (chunkSize c - at) = chunkSize c - at" "n - (chunkSize c - at) \<noteq> 0" by simp_all
    with assms \<open>at < chunkSize c\<close> gt across show ?thesis
      by (simp add: Let_def split: prod.splits if_split_asm)
  qed
qed

text \<open>A child that was emptied is dropped, which loses neither lines nor height.\<close>

lemma kept_child:
  assumes "cached c" "cached c'" "at < chunkSize c" "at + n \<le> chunkSize c"
    and "collapse c' = splice_at at n [] (collapse c)"
  defines "kept \<equiv> if chunkSize c = n then [] else [c']"
  shows "collapses kept = collapse c'" "hts kept = chunkHeight c'" "\<forall>c \<in> set kept. cached c"
proof -
  have "collapse c' = [] \<and> chunkHeight c' = 0" if "chunkSize c = n"
  proof -
    have "collapse c' = []" using that assms by (simp add: splice_at_def chunkSize_collapse)
    then show ?thesis using chunkHeight_collapse [OF assms(2)] by simp
  qed
  then show "collapses kept = collapse c'" "hts kept = chunkHeight c'" "\<forall>c \<in> set kept. cached c"
    using assms(2) by (auto simp: kept_def)
qed

lemma remove_branch_abs:
  assumes r: "removeN at n cs = (cs', dh, 0, rem)" and le: "at + n \<le> length (collapses cs)"
    and c: "cached (Branch cs sz h)"
    and cs': "collapses cs' = splice_at at n [] (collapses cs)" "\<forall>c \<in> set cs'. cached c" "dh = hts cs - hts cs'"
  shows "collapse (fst (chunk_remove at n (Branch cs sz h))) = splice_at at n [] (collapses cs) \<and>
    snd (chunk_remove at n (Branch cs sz h)) = rem \<and> cached (fst (chunk_remove at n (Branch cs sz h)))"
proof -
  have sz: "sz = length (collapses cs)" "h = hts cs" using c by (simp_all add: sizes_collapses)
  have "sizes cs' = sz - n" using cs'(1,2) sz le by (simp add: sizes_collapses splice_at_def)
  moreover have "h - dh = hts cs'" using cs'(3) sz(2) by simp
  moreover have "hts cs' = heights (collapses cs')" "sizes cs' = length (collapses cs')"
    using cs'(2) by (simp_all add: hts_collapses sizes_collapses)
  ultimately have "h - dh = heights (collapses cs')" "sz - n = length (collapses cs')"
    "h - dh = hts cs'" "sz - n = sizes cs'" by simp_all
  then show ?thesis using cs'(1,2) by (simp add: r Let_def)
qed

lemma splice_inside: "at + n \<le> length xs \<Longrightarrow> splice_at at n [] (xs @ ys) = splice_at at n [] xs @ ys"
  by (simp add: splice_at_def)

lemma splice_across:
  "at < length xs \<Longrightarrow> length xs - at < n \<Longrightarrow>
   splice_at at n [] (xs @ ys) = splice_at at (length xs - at) [] xs @ drop (n - (length xs - at)) ys"
  by (simp add: splice_at_def add.commute)

lemma remove_abs:
  fixes c :: "'s chunk" and cs :: "'s chunk list"
  shows "cached c \<Longrightarrow> at + n \<le> length (collapse c) \<Longrightarrow>
     collapse (fst (chunk_remove at n c)) = splice_at at n [] (collapse c) \<and>
     snd (chunk_remove at n c) = take n (drop at (collapse c)) \<and> cached (fst (chunk_remove at n c))"
  and "\<forall>c \<in> set cs. cached c \<Longrightarrow> at + n \<le> length (collapses cs) \<Longrightarrow> removeN at n cs = (cs', dh, lft, rem) \<Longrightarrow>
     collapses cs' = splice_at at n [] (collapses cs) \<and> (\<forall>c \<in> set cs'. cached c) \<and>
     dh = hts cs - hts cs' \<and> lft = 0 \<and> rem = take n (drop at (collapses cs))"
proof (induction at n c and at n cs arbitrary: and cs' dh lft rem rule: chunk_remove_removeN.induct)
  case (1 at n ls h)
  then show ?case
    by (simp add: Let_def splice_at_def) (metis heights_middle)
next
  case (2 at n cs sz h)
  obtain cs' dh lft rem where r: "removeN at n cs = (cs', dh, lft, rem)" by (metis prod_cases4)
  have "\<forall>c \<in> set cs. cached c" and le: "at + n \<le> length (collapses cs)" using "2.prems" by simp_all
  note IH = "2.IH" [OF this r]
  from IH r have "removeN at n cs = (cs', dh, 0, rem)" by simp
  from remove_branch_abs [OF this le "2.prems"(1)] IH show ?case by simp
next
  case (3 at n)
  then show ?case by simp
next
  case (4 at n c cs)
  have c: "cached c" "chunkSize c = length (collapse c)" and cs: "\<forall>c \<in> set cs. cached c"
    using "4.prems"(1) by (auto simp: chunkSize_collapse)
  from "4.prems"(3) show ?case
  proof (cases rule: removeN_cases)
    case (skip ds)
    have "\<not> at < chunkSize c" "at - chunkSize c + n \<le> length (collapses cs)" using skip(1) "4.prems"(2) c by simp_all
    from "4.IH"(3) [OF refl this(1) cs this(2) skip(2)] skip c show ?thesis
      by (auto simp: splice_append_right)
  next
    case (inside c')
    have "n = min n (chunkSize c - at)" "at + n \<le> length (collapse c)" using inside(1,2) c by simp_all
    from "4.IH"(1) [OF refl inside(1) this(1) c(1) this(2)] inside(3)
    have IH: "collapse c' = splice_at at n [] (collapse c)" "rem = take n (drop at (collapse c))" "cached c'"
      by simp_all
    have le: "at + n \<le> chunkSize c" using inside(1,2) by simp
    from kept_child [OF c(1) IH(3) inside(1) le IH(1)] inside IH cs le c(2) show ?thesis
      by (simp add: splice_inside del: if_split)
  next
    case (across c' ls ds dh' ls')
    let ?k = "chunkSize c - at"
    have rm: "?k = min n ?k" "at + ?k \<le> length (collapse c)" "n - ?k \<noteq> 0" using across(1,2) c by simp_all
    from "4.IH"(1) [OF refl across(1) rm(1) c(1) rm(2)] across(3)
    have IHc: "collapse c' = splice_at at ?k [] (collapse c)" "ls = take ?k (drop at (collapse c))" "cached c'"
      by simp_all
    have "0 + (n - ?k) \<le> length (collapses cs)" using "4.prems"(2) across(1,2) c by simp
    from "4.IH"(2) [OF refl across(1) rm(1) across(3) [symmetric] refl refl refl rm(3) cs this across(4)]
    have IHd: "collapses ds = drop (n - ?k) (collapses cs)" "\<forall>c \<in> set ds. cached c"
      "dh' = hts cs - hts ds" "lft = 0" "ls' = take (n - ?k) (collapses cs)"
      by (simp_all add: splice_at_def)
    have le: "at + ?k \<le> chunkSize c" using across(1) by simp
    from kept_child [OF c(1) IHc(3) across(1) le IHc(1)] across IHc IHd c(2) show ?thesis
      by (simp add: splice_across del: if_split)
  qed
qed


lemma remove_small:
  fixes c :: "'s chunk" and cs :: "'s chunk list"
  shows "good c \<Longrightarrow> at + n \<le> length (collapse c) \<Longrightarrow> small (fst (chunk_remove at n c))"
  and "\<forall>c \<in> set cs. good c \<Longrightarrow> at + n \<le> length (collapses cs) \<Longrightarrow> removeN at n cs = (cs', dh, lft, rem) \<Longrightarrow>
     (\<forall>c \<in> set cs'. small c) \<and> length cs' \<le> length cs"
proof (induction at n c and at n cs arbitrary: and cs' dh lft rem rule: chunk_remove_removeN.induct)
  case (1 at n ls h)
  then show ?case by (auto simp: good_def Let_def splice_at_def)
next
  case (2 at n cs sz h)
  obtain cs' dh lft rem where r: "removeN at n cs = (cs', dh, lft, rem)" by (metis prod_cases4)
  from "2.prems"(1) have all: "\<forall>c \<in> set cs. good c" and sz: "sz = length (collapses cs)"
    and le: "length cs \<le> 10"
    by (simp_all add: good_Branch good_sizes)
  from "2.prems"(2) have at: "at + n \<le> length (collapses cs)" by simp
  have abs: "collapses cs' = splice_at at n [] (collapses cs)" "lft = 0"
    using remove_abs(2) [OF _ at r] all by (simp_all add: good_def)
  then have len: "length (collapses cs') = sz - n"
    using at sz by (simp add: splice_at_def)
  from "2.IH" [OF all at r] have IH: "\<forall>c \<in> set cs'. small c" "length cs' \<le> length cs" by simp_all
  have "cs' \<noteq> []" if "\<not> sz - n < 25" using len that by auto
  with IH len abs(2) le show ?case by (cases "sz - n < 25") (simp_all add: r)
next
  case (3 at n)
  then show ?case by simp
next
  case (4 at n c cs)
  have c: "good c" "chunkSize c = length (collapse c)" and cs: "\<forall>c \<in> set cs. good c"
    using "4.prems"(1) by auto
  have sm: "small c" "\<forall>c \<in> set cs. small c" using c(1) cs by (simp_all add: good_def)
  from "4.prems"(3) show ?case
  proof (cases rule: removeN_cases)
    case (skip ds)
    have "\<not> at < chunkSize c" "at - chunkSize c + n \<le> length (collapses cs)" using skip(1) "4.prems"(2) c by simp_all
    from "4.IH"(3) [OF refl this(1) cs this(2) skip(2)] skip sm show ?thesis by auto
  next
    case (inside c')
    have "n = min n (chunkSize c - at)" "at + n \<le> length (collapse c)" using inside(1,2) c by simp_all
    from "4.IH"(1) [OF refl inside(1) this(1) c(1) this(2)] inside sm show ?thesis by auto
  next
    case (across c' ls ds dh' ls')
    let ?k = "chunkSize c - at"
    have rm: "?k = min n ?k" "at + ?k \<le> length (collapse c)" "n - ?k \<noteq> 0" using across(1,2) c by simp_all
    from "4.IH"(1) [OF refl across(1) rm(1) c(1) rm(2)] across(3) have "small c'" by simp
    moreover have "0 + (n - ?k) \<le> length (collapses cs)" using "4.prems"(2) across(1,2) c by simp
    note "4.IH"(2) [OF refl across(1) rm(1) across(3) [symmetric] refl refl refl rm(3) cs this across(4)]
    ultimately show ?thesis using across(5) by auto
  qed
qed

lemma chunk_remove_collapse [tree_abs]:
  assumes "doc_ok c" and "at + n \<le> length (collapse c)"
  shows "collapse (fst (chunk_remove at n c)) = splice_at at n [] (collapse c)"
    and "snd (chunk_remove at n c) = take n (drop at (collapse c))"
  using remove_abs(1) [OF _ assms(2)] assms(1) by (simp_all add: doc_ok_def)

lemma chunk_remove_ok:
  assumes "doc_ok c" and "at + n \<le> length (collapse c)"
  shows "doc_ok (fst (chunk_remove at n c))"
proof -
  have "is_branch (fst (chunk_remove at n c))"
    using assms(1) by (cases c) (auto simp: doc_ok_def Let_def split: prod.splits)
  then show ?thesis
    using remove_abs(1) [OF _ assms(2)] remove_small(1) [OF _ assms(2)] assms(1)
    by (simp add: doc_ok_def good_def)
qed

subsection \<open>Access\<close>

lemma getLine_abs:
  fixes c :: "'s chunk" and cs :: "'s chunk list"
  shows "cached c \<Longrightarrow> getLineAt c n = (if n < length (collapse c) then Some (collapse c ! n) else None)"
  and "\<forall>c \<in> set cs. cached c \<Longrightarrow>
     getLineN cs n = (if n < length (collapses cs) then Some (collapses cs ! n) else None)"
  by (induction c n and cs n rule: getLineAt_getLineN.induct)
    (auto simp: chunkSize_collapse nth_append)

lemma getLineAt_collapse [tree_abs]:
  "doc_ok c \<Longrightarrow> getLineAt c n = (if n < length (collapse c) then Some (collapse c ! n) else None)"
  by (simp add: doc_ok_def getLine_abs)

lemma iter_lines_append:
  "iter_lines op (xs @ ys) a =
     (let (stop, a') = iter_lines op xs a in if stop then (True, a') else iter_lines op ys a')"
  by (induction xs arbitrary: a) (auto simp: Let_def split: prod.splits)

lemma iter_abs:
  fixes c :: "'s chunk" and cs :: "'s chunk list"
  shows "cached c \<Longrightarrow> iterN at n op c a = iter_lines op (take n (drop at (collapse c))) a"
  and "\<forall>c \<in> set cs. cached c \<Longrightarrow> iterC at n op cs a = iter_lines op (take n (drop at (collapses cs))) a"
proof (induction at n op c a and at n op cs a rule: iterN_iterC.induct)
  case (4 at n op c cs a)
  then have c: "chunkSize c = length (collapse c)" by (simp add: chunkSize_collapse)
  show ?case
  proof (cases "at < chunkSize c")
    case True
    obtain stop a' where it: "iterN at (min n (chunkSize c - at)) op c a = (stop, a')" by fastforce
    from 4(1) [OF refl True refl] 4(4) it c
    have i: "iter_lines op (take n (drop at (collapse c))) a = (stop, a')"
      by (simp add: min_def split: if_splits)
    show ?thesis
    proof (cases "stop \<or> n - min n (chunkSize c - at) = 0")
      case True
      then show ?thesis using \<open>at < chunkSize c\<close> c it i
        by (auto simp: Let_def iter_lines_append)
    next
      case False
      with 4(2) [OF refl \<open>at < chunkSize c\<close> refl it [symmetric] refl] 4(4) it i c \<open>at < chunkSize c\<close>
      show ?thesis by (auto simp: Let_def iter_lines_append min_def)
    qed
  qed (use 4 c in \<open>simp add: Let_def\<close>)
qed auto

lemma doc_iter_collapse [tree_abs]:
  "doc_ok c \<Longrightarrow> doc_iter f t op c a = iter_lines op (take (t - f) (drop f (collapse c))) a"
  by (simp add: doc_ok_def doc_iter_def iter_abs)

lemma height_abs:
  fixes c :: "'s chunk" and cs :: "'s chunk list"
  shows "cached c \<Longrightarrow> heightAtLine c n = heights (take n (collapse c))"
  and "\<forall>c \<in> set cs. cached c \<Longrightarrow> heightAtLineN cs n = heights (take n (collapses cs))"
  by (induction c n and cs n rule: heightAtLine_heightAtLineN.induct)
    (auto simp: chunkSize_collapse chunkHeight_collapse)

lemma heightAtLine_collapse [tree_abs]:
  "doc_ok c \<Longrightarrow> heightAtLine c n = heights (take n (collapse c))"
  by (simp add: doc_ok_def height_abs)


lemma leafAtHeight_append:
  "leafAtHeight (xs @ ys) h =
     (if leafAtHeight xs h < length xs then leafAtHeight xs h
      else length xs + leafAtHeight ys (h - heights xs))"
  by (induction xs arbitrary: h) (auto simp: algebra_simps)

lemma leafAtHeight_le: "leafAtHeight xs h \<le> length xs"
  by (induction xs arbitrary: h) auto

definition nonneg :: "'s line list \<Rightarrow> bool" where
  "nonneg ls \<longleftrightarrow> (\<forall>l \<in> set ls. 0 \<le> lheight l)"

lemma nonneg_simps [simp]:
  "nonneg []" "nonneg (l # ls) \<longleftrightarrow> 0 \<le> lheight l \<and> nonneg ls" "nonneg (xs @ ys) \<longleftrightarrow> nonneg xs \<and> nonneg ys"
  by (auto simp: nonneg_def)

lemma nonneg_heights: "nonneg ls \<Longrightarrow> 0 \<le> heights ls"
  by (induction ls) auto

lemma leafAtHeight_lt: "nonneg xs \<Longrightarrow> 0 \<le> h \<Longrightarrow> h < heights xs \<longleftrightarrow> leafAtHeight xs h < length xs"
proof (induction xs arbitrary: h)
  case (Cons x xs)
  then have "\<not> h < lheight x \<Longrightarrow>
      h - lheight x < heights xs \<longleftrightarrow> leafAtHeight xs (h - lheight x) < length xs" by simp
  moreover have "0 \<le> heights xs" using Cons.prems by (auto intro: nonneg_heights)
  ultimately show ?case by auto
qed simp_all

lemma lineAtHeight_abs:
  fixes c :: "'s chunk" and cs :: "'s chunk list"
  shows "cached c \<Longrightarrow> nonneg (collapse c) \<Longrightarrow> 0 \<le> h \<Longrightarrow> lineAtHeight c h = leafAtHeight (collapse c) h"
  and "\<forall>c \<in> set cs. cached c \<Longrightarrow> nonneg (collapses cs) \<Longrightarrow> 0 \<le> h \<Longrightarrow> lineAtHeightN cs h = leafAtHeight (collapses cs) h"
proof (induction c h and cs h rule: lineAtHeight_lineAtHeightN.induct)
  case (4 c cs h)
  then have "chunkHeight c = heights (collapse c)" "chunkSize c = length (collapse c)"
    by (simp_all add: chunkHeight_collapse chunkSize_collapse)
  with 4 show ?case
    using leafAtHeight_lt [of "collapse c" h] leafAtHeight_le [of "collapse c" h]
    by (auto simp: leafAtHeight_append)
qed auto

lemma lineAtHeight_collapse [tree_abs]:
  "doc_ok c \<Longrightarrow> nonneg (collapse c) \<Longrightarrow> 0 \<le> h \<Longrightarrow> lineAtHeight c h = leafAtHeight (collapse c) h"
  by (simp add: doc_ok_def lineAtHeight_abs)

text \<open>The line at a vertical position and the position of a line are inverse to each other.\<close>

lemma nonneg_take: "nonneg ls \<Longrightarrow> nonneg (take n ls)"
  by (metis append_take_drop_id nonneg_simps(3))

lemma leafAtHeight_heights:
  "nonneg ls \<Longrightarrow> n < length ls \<Longrightarrow> 0 \<le> d \<Longrightarrow> d < lheight (ls ! n) \<Longrightarrow>
   leafAtHeight ls (heights (take n ls) + d) = n"
proof (induction ls arbitrary: n)
  case (Cons l ls)
  show ?case
  proof (cases n)
    case (Suc m)
    have "0 \<le> heights (take m ls)" using Cons.prems(1) by (simp add: nonneg_heights nonneg_take)
    with Cons Suc show ?thesis by (simp add: add.assoc)
  qed (use Cons in simp)
qed simp

lemma heights_leafAtHeight:
  "0 \<le> h \<Longrightarrow> leafAtHeight ls h < length ls \<Longrightarrow>
   heights (take (leafAtHeight ls h) ls) \<le> h \<and>
   h < heights (take (Suc (leafAtHeight ls h)) ls)"
proof (induction ls arbitrary: h)
  case (Cons l ls)
  show ?case
  proof (cases "h < lheight l")
    case False
    with Cons have "heights (take (leafAtHeight ls (h - lheight l)) ls) \<le> h - lheight l \<and>
      h - lheight l < heights (take (Suc (leafAtHeight ls (h - lheight l))) ls)" by simp
    with False show ?thesis by simp
  qed (use Cons.prems in simp)
qed simp

subsection \<open>Mutation of a line\<close>

lemma map_line_abs:
  fixes c :: "'s chunk" and cs :: "'s chunk list"
  shows "cached c \<Longrightarrow> n < length (collapse c) \<Longrightarrow>
     collapse (map_line n f c) = (collapse c)[n := f (collapse c ! n)] \<and> chunkSize (map_line n f c) = chunkSize c \<and>
     chunkHeight (map_line n f c) = chunkHeight c"
  and "\<forall>c \<in> set cs. cached c \<Longrightarrow> n < length (collapses cs) \<Longrightarrow>
     collapses (map_lineN n f cs) = (collapses cs)[n := f (collapses cs ! n)] \<and>
     sizes (map_lineN n f cs) = sizes cs \<and> hts (map_lineN n f cs) = hts cs"
proof (induction n f c and n f cs rule: map_line_map_lineN.induct)
  case (4 n f c cs)
  then have "chunkSize c = length (collapse c)" by (simp add: chunkSize_collapse)
  with 4 show ?case by (auto simp: list_update_append nth_append)
qed auto

lemma heights_update:
  "n < length ls \<Longrightarrow> heights (ls[n := l]) = heights ls - lheight (ls ! n) + lheight l"
  by (induction ls arbitrary: n) (auto split: nat.splits)

lemma map_line_cached:
  fixes c :: "'s chunk" and cs :: "'s chunk list"
  shows "(\<And>l. lheight (f l) = lheight l) \<Longrightarrow> cached c \<Longrightarrow> n < length (collapse c) \<Longrightarrow>
    cached (map_line n f c)"
  and "(\<And>l. lheight (f l) = lheight l) \<Longrightarrow> \<forall>c \<in> set cs. cached c \<Longrightarrow> n < length (collapses cs) \<Longrightarrow>
    \<forall>c \<in> set (map_lineN n f cs). cached c"
proof (induction n f c and n f cs rule: map_line_map_lineN.induct)
  case (1 n f ls h)
  then show ?case by (simp add: heights_update)
next
  case (2 n f cs sz h)
  then show ?case using map_line_abs(2) [of cs n f] by simp
next
  case (4 n f c cs)
  have "chunkSize c = length (collapse c)" using "4.prems"(2) by (simp add: chunkSize_collapse)
  with 4 show ?case by auto
qed simp

lemma add_height_abs:
  fixes c :: "'s chunk" and cs :: "'s chunk list"
  shows "cached c \<Longrightarrow> n < length (collapse c) \<Longrightarrow>
     collapse (add_height n d c) =
       (collapse c)[n := (collapse c ! n)\<lparr>lheight := lheight (collapse c ! n) + d\<rparr>] \<and>
     chunkSize (add_height n d c) = chunkSize c \<and> chunkHeight (add_height n d c) = chunkHeight c + d \<and>
     cached (add_height n d c)"
  and "\<forall>c \<in> set cs. cached c \<Longrightarrow> n < length (collapses cs) \<Longrightarrow>
     collapses (add_heightN n d cs) =
       (collapses cs)[n := (collapses cs ! n)\<lparr>lheight := lheight (collapses cs ! n) + d\<rparr>] \<and>
     sizes (add_heightN n d cs) = sizes cs \<and> hts (add_heightN n d cs) = hts cs + d \<and>
     (\<forall>c \<in> set (add_heightN n d cs). cached c)"
proof (induction n d c and n d cs rule: add_height_add_heightN.induct)
  case (1 n d ls h)
  then show ?case by (simp add: heights_update)
next
  case (4 n d c cs)
  then have "chunkSize c = length (collapse c)" by (simp add: chunkSize_collapse)
  with 4 show ?case by (auto simp: list_update_append nth_append)
qed simp_all

lemma map_small:
  fixes c :: "'s chunk" and cs :: "'s chunk list"
  shows "small c \<Longrightarrow> small (map_line n f c) \<and> (is_branch c \<longrightarrow> is_branch (map_line n f c))"
  and "\<forall>c \<in> set cs. small c \<Longrightarrow> (\<forall>c \<in> set (map_lineN n f cs). small c) \<and> length (map_lineN n f cs) = length cs"
  by (induction n f c and n f cs rule: map_line_map_lineN.induct) auto

lemma add_small:
  fixes c :: "'s chunk" and cs :: "'s chunk list"
  shows "small c \<Longrightarrow> small (add_height n d c) \<and> (is_branch c \<longrightarrow> is_branch (add_height n d c))"
  and "\<forall>c \<in> set cs. small c \<Longrightarrow> (\<forall>c \<in> set (add_heightN n d cs). small c) \<and> length (add_heightN n d cs) = length cs"
  by (induction n d c and n d cs rule: add_height_add_heightN.induct) auto

lemma map_line_collapse [tree_abs]:
  "doc_ok c \<Longrightarrow> n < length (collapse c) \<Longrightarrow> collapse (map_line n f c) = (collapse c)[n := f (collapse c ! n)]"
  by (simp add: doc_ok_def map_line_abs)

lemma map_line_ok:
  "doc_ok c \<Longrightarrow> n < length (collapse c) \<Longrightarrow> (\<And>l. lheight (f l) = lheight l) \<Longrightarrow> doc_ok (map_line n f c)"
  by (simp add: doc_ok_def map_line_cached map_small)

lemma updateLineHeight_collapse [tree_abs]:
  "doc_ok c \<Longrightarrow> n < length (collapse c) \<Longrightarrow>
   collapse (updateLineHeight n h c) = (collapse c)[n := (collapse c ! n)\<lparr>lheight := h\<rparr>]"
  by (simp add: updateLineHeight_def getLineAt_collapse doc_ok_def add_height_abs(1))

lemma updateLineHeight_ok:
  "doc_ok c \<Longrightarrow> n < length (collapse c) \<Longrightarrow> doc_ok (updateLineHeight n h c)"
  by (simp add: updateLineHeight_def getLineAt_collapse doc_ok_def add_height_abs(1) add_small(1))

subsection \<open>The number of a line\<close>

lemma index_of_Some: "index_of x xs = Some i \<Longrightarrow> i < length xs \<and> xs ! i = x"
  unfolding index_of_def by (drule find_from_Some) simp

lemma index_of_None: "index_of x xs = None \<longleftrightarrow> x \<notin> set xs"
  unfolding index_of_def by (auto simp: find_from_None)

lemma index_of_distinct: "distinct xs \<Longrightarrow> i < length xs \<Longrightarrow> index_of (xs ! i) xs = Some i"
  using index_of_None [of "xs ! i" xs] index_of_Some [of "xs ! i" xs]
  by (cases "index_of (xs ! i) xs") (auto simp: nth_eq_iff_index_eq)

abbreviation "climb p n \<equiv> fold (\<lambda>before n. n + sizes before) p n"

lemma parent_path_abs:
  fixes c :: "'s chunk" and cs :: "'s chunk list"
  shows "cached c \<Longrightarrow> distinct (map lid (collapse c)) \<Longrightarrow>
     (case parent_path i c of None \<Rightarrow> i \<notin> lid ` set (collapse c)
      | Some (ls, p) \<Rightarrow> \<exists>k. index_of i (map lid ls) = Some k \<and> climb p k < length (collapse c) \<and>
                          lid (collapse c ! climb p k) = i)"
  and "\<forall>c \<in> set cs. cached c \<Longrightarrow> distinct (map lid (collapses cs)) \<Longrightarrow>
     (case parent_pathN i before cs of None \<Rightarrow> i \<notin> lid ` set (collapses cs)
      | Some (ls, p) \<Rightarrow> \<exists>k. index_of i (map lid ls) = Some k \<and>
          sizes before \<le> climb p k \<and> climb p k - sizes before < length (collapses cs) \<and>
          lid (collapses cs ! (climb p k - sizes before)) = i)"
proof (induction i c and i before cs rule: parent_path_parent_pathN.induct)
  case (1 i ls h)
  show ?case
  proof (cases "i \<in> lid ` set ls")
    case True
    then obtain k where "index_of i (map lid ls) = Some k"
      using index_of_None [of i "map lid ls"] by auto
    with True show ?thesis using index_of_Some [of i "map lid ls" k] by auto
  qed simp
next
  case (2 i cs sz h)
  then show ?case by (auto split: option.splits)
next
  case (4 i before c cs)
  have c: "cached c" "chunkSize c = length (collapse c)" and cs: "\<forall>c \<in> set cs. cached c"
    using "4.prems"(1) by (auto simp: chunkSize_collapse)
  have d: "distinct (map lid (collapse c))" "distinct (map lid (collapses cs))"
    using "4.prems"(2) by auto
  show ?case
  proof (cases "parent_path i c")
    case None
    with "4.IH"(1) [OF c(1) d(1)] have "i \<notin> lid ` set (collapse c)" by simp
    moreover note "4.IH"(2) [OF None cs d(2)]
    ultimately show ?thesis using None c(2)
      by (fastforce split: option.splits simp: nth_append)
  next
    case (Some q)
    with "4.IH"(1) [OF c(1) d(1)] c(2) show ?thesis
      by (cases q) (auto simp: nth_append)
  qed
qed simp

lemma lineNo_collapse [tree_abs]:
  assumes "doc_ok c" and "distinct (map lid (collapse c))"
  shows "lineNo i c = index_of i (map lid (collapse c))"
proof (cases "parent_path i c")
  case None
  with parent_path_abs(1) [of c i] assms show ?thesis
    by (simp add: doc_ok_def lineNo_def) (metis image_set index_of_None)
next
  case (Some q)
  obtain ls p where q: "q = (ls, p)" by fastforce
  with parent_path_abs(1) [of c i] assms Some obtain k where
    "index_of i (map lid ls) = Some k" "climb p k < length (collapse c)" "lid (collapse c ! climb p k) = i"
    by (auto simp: doc_ok_def)
  with assms(2) q Some show ?thesis
    using index_of_distinct [of "map lid (collapse c)" "climb p k"] by (simp add: lineNo_def)
qed


subsection \<open>The tree provides the editor's document\<close>

interpretation tree: line_store doc_ok collapse getLineAt insert_lines
    "\<lambda>i n c. fst (chunk_remove i n c)"
  by unfold_locales
    (simp_all add: getLineAt_collapse insert_lines_collapse insert_lines_ok chunk_remove_collapse
      chunk_remove_ok)

end
