(* ===== verification/CM_Marks.thy ===== *)
theory CM_Marks
  imports CM_Line
begin

section \<open>Marked spans under an edit\<close>

text \<open>
  \<open>getMarkedSpanFor\<close>, \<open>markedSpansBefore\<close>, \<open>markedSpansAfter\<close> and \<open>updateMarkedSpans\<close> of
  \<open>codemirror.js\<close>.  A span without \<open>from\<close> comes from the line before, one without \<open>to\<close> goes on in
  the next line.  The options of a marker are looked up in the store of markers \<open>mk\<close>.
\<close>

fun getMarkedSpanFor :: "span list \<Rightarrow> nat \<Rightarrow> span option" where
  "getMarkedSpanFor [] m = None"
| "getMarkedSpanFor (s # ss) m = (if smarker s = m then Some s else getMarkedSpanFor ss m)"

definition spanFor :: "span list option \<Rightarrow> nat \<Rightarrow> span option" where
  "spanFor spans m = (case spans of None \<Rightarrow> None | Some ss \<Rightarrow> getMarkedSpanFor ss m)"

text \<open>With \<open>del\<close>, the span is also taken out of the array.\<close>

fun delMarkedSpanFor :: "span list \<Rightarrow> nat \<Rightarrow> span list" where
  "delMarkedSpanFor [] m = []"
| "delMarkedSpanFor (s # ss) m = (if smarker s = m then ss else s # delMarkedSpanFor ss m)"

definition opt_list :: "'a list \<Rightarrow> 'a list option" where
  "opt_list xs = (if xs = [] then None else Some xs)"

definition at_most :: "int option \<Rightarrow> bool \<Rightarrow> int \<Rightarrow> bool" where
  "at_most f incl ch = (case f of None \<Rightarrow> True | Some x \<Rightarrow> if incl then x \<le> ch else x < ch)"

definition at_least :: "int option \<Rightarrow> bool \<Rightarrow> int \<Rightarrow> bool" where
  "at_least t incl ch = (case t of None \<Rightarrow> True | Some x \<Rightarrow> if incl then ch \<le> x else ch < x)"

text \<open>\<open>endCh\<close> is \<open>None\<close> where the call omits the argument: then \<open>span.from != endCh\<close> holds.\<close>

definition markedSpansBefore :: "(nat \<Rightarrow> marker) \<Rightarrow> span list option \<Rightarrow> int \<Rightarrow> int option \<Rightarrow> span list option" where
  "markedSpansBefore mk old startCh endCh =
     (case old of None \<Rightarrow> None
      | Some ss \<Rightarrow> opt_list
          [s\<lparr>sto := if at_least (sto s) (inclusiveRight (mk (smarker s))) startCh then None else sto s\<rparr>.
             s \<leftarrow> ss,
             at_most (sfrom s) (inclusiveLeft (mk (smarker s))) startCh \<or>
             (mtype (mk (smarker s)) = Bookmark \<and> sfrom s = Some startCh \<and> sfrom s \<noteq> endCh)])"

definition markedSpansAfter :: "(nat \<Rightarrow> marker) \<Rightarrow> span list option \<Rightarrow> int \<Rightarrow> span list option" where
  "markedSpansAfter mk old endCh =
     (case old of None \<Rightarrow> None
      | Some ss \<Rightarrow> opt_list
          [s\<lparr>sfrom := if at_most (sfrom s) (inclusiveLeft (mk (smarker s))) endCh then None
                      else map_option (\<lambda>x. x - endCh) (sfrom s),
             sto := map_option (\<lambda>x. x - endCh) (sto s)\<rparr>.
             s \<leftarrow> ss,
             at_least (sto s) (inclusiveRight (mk (smarker s))) endCh \<or>
             (mtype (mk (smarker s)) = Bookmark \<and> sfrom s = Some endCh)])"

text \<open>The loop that fixes \<open>to\<close> in the spans that stick out on the left.\<close>

definition fixFirst :: "span list option \<Rightarrow> bool \<Rightarrow> int \<Rightarrow> int \<Rightarrow> span \<Rightarrow> span" where
  "fixFirst lastSp sameLine startCh offset s =
     (case sto s of Some _ \<Rightarrow> s
      | None \<Rightarrow>
          (case spanFor lastSp (smarker s) of
             None \<Rightarrow> s\<lparr>sto := Some startCh\<rparr>
           | Some f \<Rightarrow> if sameLine then s\<lparr>sto := map_option (\<lambda>t. t + offset) (sto f)\<rparr> else s))"

text \<open>
  The loop that fixes \<open>from\<close> in the spans that stick out on the right, and moves them into \<open>first\<close>
  when both ends are on the same new line.
\<close>

fun fixLast :: "bool \<Rightarrow> int \<Rightarrow> span list \<Rightarrow> span list option \<Rightarrow> span list \<times> span list option" where
  "fixLast sameLine offset [] first = ([], first)"
| "fixLast sameLine offset (s # ss) first =
     (let s1 = s\<lparr>sto := map_option (\<lambda>t. t + offset) (sto s)\<rparr>;
          push = (\<lambda>sp. if sameLine then Some ((case first of None \<Rightarrow> [] | Some f \<Rightarrow> f) @ [sp]) else first);
          (s2, first2) =
            (case sfrom s1 of
               None \<Rightarrow>
                 (case spanFor first (smarker s1) of
                    None \<Rightarrow> (let sp = s1\<lparr>sfrom := Some offset\<rparr> in (sp, push sp))
                  | Some _ \<Rightarrow> (s1, first))
             | Some f \<Rightarrow> (let sp = s1\<lparr>sfrom := Some (f + offset)\<rparr> in (sp, push sp)));
          (rest, first3) = fixLast sameLine offset ss first2
      in (s2 # rest, first3))"

definition gapMarkers :: "span list option \<Rightarrow> span list option" where
  "gapMarkers first =
     (case first of None \<Rightarrow> None
      | Some ss \<Rightarrow> opt_list [\<lparr>sfrom = None, sto = None, smarker = smarker s\<rparr>. s \<leftarrow> ss, sto s = None])"

text \<open>
  \<open>updateMarkedSpans\<close>.  When neither line has spans the code returns the array of strings itself;
  a string is the history line \<open>HL\<close>.
\<close>

definition updateMarkedSpans :: "(nat \<Rightarrow> marker) \<Rightarrow> span list option \<Rightarrow> span list option \<Rightarrow>
    int \<Rightarrow> int \<Rightarrow> jstring list \<Rightarrow> hl list" where
  "updateMarkedSpans mk oldFirst oldLast startCh endCh newText =
     (if oldFirst = None \<and> oldLast = None then map HL newText
      else
        let first = markedSpansBefore mk oldFirst startCh None;
            last0 = markedSpansAfter mk oldLast endCh;
            sameLine = (length newText = 1);
            offset = int (length (last newText)) + (if sameLine then startCh else 0);
            first1 = map_option (map (fixFirst last0 sameLine startCh offset)) first;
            (last1, first2) =
              (case last0 of None \<Rightarrow> (None, first1)
               | Some ls \<Rightarrow> (let (l, f) = fixLast sameLine offset ls first1 in (Some l, f)))
        in if sameLine then [newHL (hd newText) first2]
           else newHL (hd newText) first2 #
                map (\<lambda>t. newHL t (gapMarkers first2)) (butlast (tl newText)) @
                [newHL (last newText) last1])"

subsection \<open>An edit of the spans never changes the text\<close>

lemma updateMarkedSpans_text:
  assumes "newText \<noteq> []"
  shows "map hlText (updateMarkedSpans mk a b s t newText) = newText"
proof -
  have one: "[hd newText] = newText" if "length newText = 1"
    using that by (cases newText) auto
  have more: "hd newText # butlast (tl newText) @ [last newText] = newText" if "length newText \<noteq> 1"
    using that assms by (cases newText) auto
  show ?thesis
    using one more assms
    by (auto simp: updateMarkedSpans_def Let_def comp_def split: prod.split)
qed

lemma updateMarkedSpans_length:
  "newText \<noteq> [] \<Longrightarrow> length (updateMarkedSpans mk a b s t newText) = length newText"
  by (metis length_map updateMarkedSpans_text)

lemma updateMarkedSpans_none [simp]: "updateMarkedSpans mk None None s t newText = map HL newText"
  by (simp add: updateMarkedSpans_def)

subsection \<open>Where the marks go when their own line is edited\<close>

text \<open>
  The edit replaces the columns \<open>a\<close> to \<open>b\<close> of one line by a text of length \<open>n\<close>.  A mark over the
  columns \<open>f\<close> to \<open>e\<close> stays where it is in front of the edit, moves with the text behind it,
  stretches around it, is cut off at an edge it overlaps, and is gone when it lies inside.
\<close>

definition moved_span :: "int \<Rightarrow> int \<Rightarrow> int \<Rightarrow> span \<Rightarrow> span" where
  "moved_span a b n s =
     (let f = the (sfrom s); e = the (sto s) in
      s\<lparr>sfrom := Some (if f < a then f else if f < b then a + n else f + (n + a - b)),
        sto := Some (if e \<le> a then e else if e \<le> b then a else e + (n + a - b))\<rparr>)"

definition plain_span :: "(nat \<Rightarrow> marker) \<Rightarrow> span \<Rightarrow> bool" where
  "plain_span mk s \<longleftrightarrow> (\<exists>f e. sfrom s = Some f \<and> sto s = Some e \<and> f < e) \<and>
     mtype (mk (smarker s)) = Range \<and> \<not> inclusiveLeft (mk (smarker s)) \<and> \<not> inclusiveRight (mk (smarker s))"

lemma getMarkedSpanFor_None: "getMarkedSpanFor ss m = None \<longleftrightarrow> m \<notin> smarker ` set ss"
  by (induction ss) auto

lemma getMarkedSpanFor_distinct:
  "distinct (map smarker ss) \<Longrightarrow> s \<in> set ss \<Longrightarrow> getMarkedSpanFor ss (smarker s) = Some s"
  by (induction ss) auto

definition markers_of :: "span list option \<Rightarrow> nat set" where
  "markers_of spans = (case spans of None \<Rightarrow> {} | Some ss \<Rightarrow> smarker ` set ss)"

lemma spanFor_None: "spanFor spans m = None \<longleftrightarrow> m \<notin> markers_of spans"
  by (cases spans) (auto simp: spanFor_def markers_of_def getMarkedSpanFor_None)

definition pushed :: "int \<Rightarrow> span list option \<Rightarrow> span list \<Rightarrow> span list" where
  "pushed offset first ss =
     [s\<lparr>sto := map_option (\<lambda>t. t + offset) (sto s),
        sfrom := Some (case sfrom s of None \<Rightarrow> offset | Some f \<Rightarrow> f + offset)\<rparr>.
      s \<leftarrow> ss, \<not> (sfrom s = None \<and> smarker s \<in> markers_of first)]"

definition append_opt :: "'a list option \<Rightarrow> 'a list \<Rightarrow> 'a list option" where
  "append_opt xs ys = (if ys = [] then xs else Some ((case xs of None \<Rightarrow> [] | Some f \<Rightarrow> f) @ ys))"

lemma append_opt_simps [simp]:
  "append_opt xs [] = xs" "append_opt (append_opt xs ys) zs = append_opt xs (ys @ zs)"
  by (auto simp: append_opt_def split: option.splits)

lemma append_opt_list [simp]: "append_opt (opt_list xs) ys = opt_list (xs @ ys)"
  by (auto simp: append_opt_def opt_list_def)

lemma fixLast_pushed:
  "distinct (map smarker ss) \<Longrightarrow> snd (fixLast True offset ss first) = append_opt first (pushed offset first ss)"
proof (induction ss arbitrary: first)
  case Nil
  then show ?case by (simp add: pushed_def)
next
  case (Cons s ss)
  let ?p = "s\<lparr>sto := map_option (\<lambda>t. t + offset) (sto s),
              sfrom := Some (case sfrom s of None \<Rightarrow> offset | Some f \<Rightarrow> f + offset)\<rparr>"
  have frame: "pushed offset (append_opt first [?p]) ss = pushed offset first ss"
    using Cons.prems unfolding pushed_def
    by (intro arg_cong [where f = concat] map_cong)
      (auto simp: append_opt_def markers_of_def split: option.splits, (metis image_eqI)+)
  show ?case
  proof (cases "sfrom s = None \<and> smarker s \<in> markers_of first")
    case True
    then obtain y where "spanFor first (smarker s) = Some y"
      using spanFor_None [of first "smarker s"] by auto
    with True have "snd (fixLast True offset (s # ss) first) = snd (fixLast True offset ss first)"
      by (simp add: Let_def case_prod_beta)
    also have "\<dots> = append_opt first (pushed offset first ss)" using Cons by simp
    also have "pushed offset first ss = pushed offset first (s # ss)" using True by (simp add: pushed_def)
    finally show ?thesis .
  next
    case False
    then have "snd (fixLast True offset (s # ss) first) = snd (fixLast True offset ss (append_opt first [?p]))"
      using spanFor_None [of first "smarker s"]
      by (cases "sfrom s") (simp_all add: Let_def append_opt_def case_prod_beta)
    also have "\<dots> = append_opt first (?p # pushed offset first ss)"
      using Cons frame by simp
    also have "?p # pushed offset first ss = pushed offset first (s # ss)"
      using False by (auto simp: pushed_def)
    finally show ?thesis .
  qed
qed

text \<open>
  A plain span before a change keeps its start and loses an end beyond the change; a span after it loses a
  start inside the change and counts its columns from the end of the change.
\<close>

definition cut_span :: "int \<Rightarrow> span \<Rightarrow> span" where
  "cut_span a s = s\<lparr>sto := if a < the (sto s) then None else sto s\<rparr>"

definition far_span :: "int \<Rightarrow> span \<Rightarrow> span" where
  "far_span b s = s\<lparr>sfrom := if the (sfrom s) < b then None else map_option (\<lambda>x. x - b) (sfrom s),
                  sto := map_option (\<lambda>x. x - b) (sto s)\<rparr>"

lemma far_span_marker [simp]: "smarker (far_span b s) = smarker s"
  by (simp add: far_span_def)

abbreviation "starts_before a \<equiv> filter (\<lambda>s. the (sfrom s) < a)"
abbreviation "ends_after b \<equiv> filter (\<lambda>s. b < the (sto s))"

lemma markedSpansBefore_plain:
  assumes "\<forall>s \<in> set ss. plain_span mk s"
  shows "markedSpansBefore mk (Some ss) a None = opt_list (map (cut_span a) (starts_before a ss))"
  unfolding markedSpansBefore_def option.case
proof (intro arg_cong [where f = opt_list])
  show "[s\<lparr>sto := if at_least (sto s) (inclusiveRight (mk (smarker s))) a then None else sto s\<rparr>.
           s \<leftarrow> ss, at_most (sfrom s) (inclusiveLeft (mk (smarker s))) a \<or>
           (mtype (mk (smarker s)) = Bookmark \<and> sfrom s = Some a \<and> sfrom s \<noteq> None)] =
        map (cut_span a) (starts_before a ss)"
    using assms by (induction ss) (auto simp: plain_span_def at_most_def at_least_def cut_span_def)
qed

lemma markedSpansAfter_plain:
  assumes "\<forall>s \<in> set ss. plain_span mk s"
  shows "markedSpansAfter mk (Some ss) b = opt_list (map (far_span b) (ends_after b ss))"
  unfolding markedSpansAfter_def option.case
proof (intro arg_cong [where f = opt_list])
  show "[s\<lparr>sfrom := if at_most (sfrom s) (inclusiveLeft (mk (smarker s))) b then None
                    else map_option (\<lambda>x. x - b) (sfrom s), sto := map_option (\<lambda>x. x - b) (sto s)\<rparr>.
           s \<leftarrow> ss, at_least (sto s) (inclusiveRight (mk (smarker s))) b \<or>
           (mtype (mk (smarker s)) = Bookmark \<and> sfrom s = Some b)] = map (far_span b) (ends_after b ss)"
    using assms by (induction ss) (auto simp: plain_span_def at_most_def at_least_def far_span_def)
qed

lemma distinct_far: "distinct (map smarker ss) \<Longrightarrow> distinct (map smarker (map (far_span b) (ends_after b ss)))"
  by (simp add: comp_def distinct_map_filter)

lemma spanFor_far:
  assumes d: "distinct (map smarker ss)" and s: "s \<in> set ss"
  shows "spanFor (opt_list (map (far_span b) (ends_after b ss))) (smarker s) =
    (if b < the (sto s) then Some (far_span b s) else None)"
proof (cases "b < the (sto s)")
  case True
  then have "far_span b s \<in> set (map (far_span b) (ends_after b ss))" using s by auto
  from getMarkedSpanFor_distinct [OF distinct_far [OF d] this] True show ?thesis
    using s by (auto simp: spanFor_def opt_list_def filter_empty_conv)
next
  case False
  have "x = s" if "x \<in> set ss" "smarker x = smarker s" for x
    using d s that by (auto simp: distinct_map dest: inj_onD)
  with False have "smarker s \<notin> smarker ` set (map (far_span b) (ends_after b ss))" by (auto simp: image_iff)
  with False show ?thesis by (auto simp: spanFor_None markers_of_def opt_list_def)
qed

lemma fixFirst_plain:
  assumes "distinct (map smarker ss)" "plain_span mk s" "s \<in> set ss" "the (sfrom s) < a" "a \<le> b"
  shows "fixFirst (opt_list (map (far_span b) (ends_after b ss))) True a (n + a) (cut_span a s) = moved_span a b n s"
  using assms(2-) spanFor_far [OF assms(1,3), of b]
  by (auto simp: plain_span_def fixFirst_def moved_span_def cut_span_def far_span_def Let_def algebra_simps
      split: option.splits if_splits)

lemma far_span_moved:
  assumes "plain_span mk s" "\<not> the (sfrom s) < a" "b < the (sto s)" "a \<le> b"
  shows "(far_span b s)\<lparr>sto := map_option (\<lambda>t. t + (n + a)) (sto (far_span b s)),
      sfrom := Some (case sfrom (far_span b s) of None \<Rightarrow> n + a | Some f \<Rightarrow> f + (n + a))\<rparr> = moved_span a b n s"
  using assms by (auto simp: plain_span_def far_span_def moved_span_def)

lemma pushed_plain:
  assumes d: "distinct (map smarker ss)" and ps: "\<forall>s \<in> set ss. plain_span mk s" and ab: "a \<le> b"
  shows "pushed (n + a) (opt_list (map (moved_span a b n) (starts_before a ss))) (map (far_span b) (ends_after b ss)) =
    map (moved_span a b n) (filter (\<lambda>s. a \<le> the (sfrom s) \<and> b < the (sto s)) ss)"
    (is "pushed ?off (opt_list (map ?mv ?l)) _ = _")
proof -
  have mks: "markers_of (opt_list (map ?mv ?l)) = smarker ` set ?l"
    by (cases "?l = []") (simp_all add: markers_of_def opt_list_def moved_span_def Let_def image_comp comp_def)
  have kept: "(sfrom (far_span b s) = None \<and> smarker (far_span b s) \<in> smarker ` set ?l) \<longleftrightarrow> the (sfrom s) < a"
    if s: "s \<in> set (ends_after b ss)" for s
  proof -
    have "x = s" if "x \<in> set ss" "smarker x = smarker s" for x
      using d s that by (auto simp: distinct_map dest: inj_onD)
    then show ?thesis using s ps ab by (auto simp: image_iff plain_span_def far_span_def)
  qed
  have "pushed ?off (opt_list (map ?mv ?l)) (map (far_span b) (ends_after b ss)) =
      [?mv s. s \<leftarrow> ends_after b ss, \<not> the (sfrom s) < a]"
    unfolding pushed_def mks map_map comp_def
  proof (intro arg_cong [where f = concat] map_cong refl)
    fix s assume s: "s \<in> set (ends_after b ss)"
    then have p: "plain_span mk s" "b < the (sto s)" using ps by simp_all
    show "(if \<not> (sfrom (far_span b s) = None \<and> smarker (far_span b s) \<in> smarker ` set ?l)
           then [(far_span b s)\<lparr>sto := map_option (\<lambda>t. t + ?off) (sto (far_span b s)),
               sfrom := Some (case sfrom (far_span b s) of None \<Rightarrow> ?off | Some f \<Rightarrow> f + ?off)\<rparr>] else []) =
          (if \<not> the (sfrom s) < a then [?mv s] else [])"
      unfolding kept [OF s] using far_span_moved [OF p(1) _ p(2) ab]
      by (cases "the (sfrom s) < a") (simp_all only: simp_thms if_True if_False)
  qed
  also have "\<dots> = map ?mv (filter (\<lambda>s. a \<le> the (sfrom s) \<and> b < the (sto s)) ss)" by (induction ss) auto
  finally show ?thesis .
qed

lemma updateMarkedSpans_line:
  assumes d: "distinct (map smarker ss)" and ps: "\<forall>s \<in> set ss. plain_span mk s" and ab: "a \<le> b"
  shows "updateMarkedSpans mk (Some ss) (Some ss) a b [t] =
     [newHL t (opt_list
        (map (moved_span a b (int (length t)))
          (filter (\<lambda>s. the (sfrom s) < a) ss @
           filter (\<lambda>s. a \<le> the (sfrom s) \<and> b < the (sto s)) ss)))]"
    (is "_ = [newHL t (opt_list (map ?mv (?l @ ?r)))]")
proof -
  let ?off = "int (length t) + a" and ?R = "ends_after b ss"
  note first = markedSpansBefore_plain [OF ps, of a] and last = markedSpansAfter_plain [OF ps, of b]
  have fixed: "map_option (map (fixFirst (opt_list (map (far_span b) ?R)) True a ?off)) (opt_list (map (cut_span a) ?l)) =
      opt_list (map ?mv ?l)"
    using fixFirst_plain [OF d _ _ _ ab] ps by (auto simp: opt_list_def)
  have fl: "snd (fixLast True ?off (map (far_span b) ?R)
      (map_option (map (fixFirst (opt_list (map (far_span b) ?R)) True a ?off)) (opt_list (map (cut_span a) ?l)))) =
      opt_list (map ?mv (?l @ ?r))"
    unfolding fixed fixLast_pushed [OF distinct_far [OF d]] pushed_plain [OF d ps ab] by simp
  show ?thesis
  proof (cases "?R = []")
    case True
    then have "?r = []" by (auto simp: filter_empty_conv)
    then show ?thesis
      unfolding updateMarkedSpans_def first last
      using fixed by (simp add: True Let_def opt_list_def [of "[]"])
  next
    case False
    then have "opt_list (map (far_span b) ?R) = Some (map (far_span b) ?R)" by (simp add: opt_list_def)
    with fl show ?thesis
      unfolding updateMarkedSpans_def first last
      by (simp only: option.case case_prod_beta Let_def list.size One_nat_def add_0_right last.simps
          simp_thms if_True if_False list.sel fst_conv snd_conv) simp
  qed
qed

end
