(* ===== verification/CM_History.thy ===== *)
theory CM_History
  imports Js_Prelude
begin

section \<open>The undo history\<close>

text \<open>
  \<open>History\<close> of \<open>codemirror.js\<close>: \<open>done\<close> and \<open>undone\<close> are stacks of change sets (the last element is
  the top), and \<open>addChange\<close> merges a change into the last one when it comes within 400 ms and
  touches the same lines.  A change says that the \<open>added\<close> lines from \<open>start\<close> on replaced the lines
  \<open>old\<close>.  The theory is generic in the type of stored lines.
\<close>

record 'l change =
  cstart :: int
  cadded :: int
  cold :: "'l list"

record 'l history =
  htime :: int
  hdone :: "'l change list list"
  hundone :: "'l change list list"
  compound :: int
  hclosed :: bool

definition newHistory :: "'l history" where
  "newHistory = \<lparr>htime = 0, hdone = [], hundone = [], compound = 0, hclosed = False\<rparr>"

definition merge_change :: "'l change \<Rightarrow> int \<Rightarrow> int \<Rightarrow> 'l list \<Rightarrow> 'l change" where
  "merge_change lastc start added old =
     (let startBefore = max 0 (cstart lastc - start);
          endAfter = max 0 ((start + int (length old)) - (cstart lastc + cadded lastc))
      in \<lparr>cstart = (if startBefore \<noteq> 0 then start else cstart lastc),
          cadded = cadded lastc + (added - (int (length old) - startBefore - endAfter)),
          cold = take (nat startBefore) old @ cold lastc @ drop (length old - nat endAfter) old\<rparr>)"

definition addChange :: "int \<Rightarrow> int \<Rightarrow> int \<Rightarrow> 'l list \<Rightarrow> 'l history \<Rightarrow> 'l history" where
  "addChange now start added old h =
     (let cur = lst (hdone h);
          lastc = (case cur of None \<Rightarrow> None | Some cs \<Rightarrow> lst cs);
          dtime = now - htime h;
          change = \<lparr>cstart = start, cadded = added, cold = old\<rparr>;
          h1 = h\<lparr>hundone := [], htime := now\<rparr>
      in if compound h \<noteq> 0 \<and> cur \<noteq> None \<and> \<not> hclosed h then
           h1\<lparr>hdone := butlast (hdone h) @ [last (hdone h) @ [change]]\<rparr>
         else case lastc of
           None \<Rightarrow> h1\<lparr>hdone := hdone h @ [[change]], hclosed := False\<rparr>
         | Some l \<Rightarrow>
             if dtime > 400 \<or> hclosed h \<or> cstart l > start + int (length old) \<or> cstart l + cadded l < start
             then h1\<lparr>hdone := hdone h @ [[change]], hclosed := False\<rparr>
             else h1\<lparr>hdone := butlast (hdone h) @
                       [butlast (last (hdone h)) @ [merge_change l start added old]]\<rparr>)"

definition startCompound :: "'l history \<Rightarrow> 'l history" where
  "startCompound h = h\<lparr>compound := compound h + 1, hclosed := (if compound h = 0 then True else hclosed h)\<rparr>"

definition endCompound :: "'l history \<Rightarrow> 'l history" where
  "endCompound h = h\<lparr>compound := compound h - 1, hclosed := (if compound h - 1 = 0 then True else hclosed h)\<rparr>"

text \<open>\<open>while (history.done.length > options.undoDepth) history.done.shift()\<close>\<close>

definition trim_depth :: "nat \<Rightarrow> 'l history \<Rightarrow> 'l history" where
  "trim_depth depth h = h\<lparr>hdone := drop (length (hdone h) - depth) (hdone h)\<rparr>"

definition historySize :: "'l history \<Rightarrow> nat \<times> nat" where
  "historySize h = (length (hdone h), length (hundone h))"

text \<open>
  The loop of \<open>unredoHelper\<close> on the list of lines: \<open>set\<close> is taken from its end, every change is
  inverted and its inverse goes to \<open>out\<close>.
\<close>

definition revert :: "'l change \<Rightarrow> 'l list \<Rightarrow> 'l list" where
  "revert c d = splice_at (nat (cstart c)) (nat (cadded c)) (cold c) d"

definition inverse :: "'l change \<Rightarrow> 'l list \<Rightarrow> 'l change" where
  "inverse c d = \<lparr>cstart = cstart c, cadded = int (length (cold c)),
     cold = take (nat (cadded c)) (drop (nat (cstart c)) d)\<rparr>"

fun unredo_loop :: "'l change list \<Rightarrow> 'l list \<Rightarrow> 'l change list \<times> 'l list" where
  "unredo_loop [] d = ([], d)"
| "unredo_loop (c # cs) d = (let (out, d') = unredo_loop cs (revert c d) in (inverse c d # out, d'))"

definition unredo :: "'l change list \<Rightarrow> 'l list \<Rightarrow> 'l change list \<times> 'l list" where
  "unredo cset d = unredo_loop (rev cset) d"

definition undo_lines :: "'l history \<times> 'l list \<Rightarrow> 'l history \<times> 'l list" where
  "undo_lines st = (case st of (h, d) \<Rightarrow>
     if hdone h = [] then (h, d)
     else let (out, d') = unredo (last (hdone h)) d
          in (h\<lparr>hdone := butlast (hdone h), hundone := hundone h @ [out]\<rparr>, d'))"

definition redo_lines :: "'l history \<times> 'l list \<Rightarrow> 'l history \<times> 'l list" where
  "redo_lines st = (case st of (h, d) \<Rightarrow>
     if hundone h = [] then (h, d)
     else let (out, d') = unredo (last (hundone h)) d
          in (h\<lparr>hundone := butlast (hundone h), hdone := hdone h @ [out]\<rparr>, d'))"

subsection \<open>When a list of changes can be reverted\<close>

definition in_range :: "'l change \<Rightarrow> nat \<Rightarrow> bool" where
  "in_range c n \<longleftrightarrow> 0 \<le> cstart c \<and> 0 \<le> cadded c \<and> cstart c + cadded c \<le> int n"

text \<open>The changes in the order they are reverted, on a document of \<open>n\<close> lines.\<close>

fun revertible :: "'l change list \<Rightarrow> nat \<Rightarrow> bool" where
  "revertible [] n = True"
| "revertible (c # cs) n = (in_range c n \<and> revertible cs (n - nat (cadded c) + length (cold c)))"

definition all_done :: "'l history \<Rightarrow> 'l change list" where
  "all_done h = rev (concat (hdone h))"

definition revert_all :: "'l change list \<Rightarrow> 'l list \<Rightarrow> 'l list" where
  "revert_all cs d = fold revert cs d"

lemma in_rangeE:
  assumes "in_range c n"
  obtains s a where "cstart c = int s" "cadded c = int a" "s + a \<le> n"
  using assms that [of "nat (cstart c)" "nat (cadded c)"] by (auto simp: in_range_def)

lemma length_revert: "in_range c (length d) \<Longrightarrow> length (revert c d) = length d - nat (cadded c) + length (cold c)"
  by (erule in_rangeE) (simp add: revert_def splice_at_def)

lemma revert_all_simps [simp]:
  "revert_all [] d = d" "revert_all (c # cs) d = revert_all cs (revert c d)"
  "revert_all (cs @ ds) d = revert_all ds (revert_all cs d)"
  by (simp_all add: revert_all_def)

lemma unredo_loop_revert: "snd (unredo_loop cs d) = revert_all cs d"
  by (induction cs arbitrary: d) (simp_all add: case_prod_beta)

subsection \<open>Undo and redo are inverse\<close>

lemma revert_inverse:
  assumes "in_range c (length d)"
  shows "revert (inverse c d) (revert c d) = d" and "inverse (inverse c d) (revert c d) = c"
proof -
  obtain s a where c: "cstart c = int s" "cadded c = int a" and le: "s + a \<le> length d"
    using assms by (rule in_rangeE)
  have "d = take s d @ take a (drop s d) @ drop (s + a) d"
    by (metis add.commute append_take_drop_id drop_drop)
  with le c show "revert (inverse c d) (revert c d) = d"
    by (simp add: revert_def inverse_def splice_at_def)
  show "inverse (inverse c d) (revert c d) = c"
    using le c by (simp add: revert_def inverse_def splice_at_def)
qed

lemma in_range_inverse:
  "in_range c (length d) \<Longrightarrow> in_range (inverse c d) (length (revert c d))"
  by (simp add: length_revert, erule in_rangeE) (simp add: in_range_def inverse_def)

lemma unredo_loop_append:
  "unredo_loop (xs @ ys) d =
     (let (o1, d1) = unredo_loop xs d; (o2, d2) = unredo_loop ys d1 in (o1 @ o2, d2))"
  by (induction xs arbitrary: d) (simp_all add: case_prod_beta)

lemma unredo_loop_inverse:
  "revertible cs (length d) \<Longrightarrow> unredo_loop cs d = (out, d') \<Longrightarrow> unredo_loop (rev out) d' = (rev cs, d)"
proof (induction cs arbitrary: d out d')
  case (Cons c cs)
  from Cons.prems(1) have c: "in_range c (length d)" and cs: "revertible cs (length (revert c d))"
    by (simp_all add: length_revert)
  obtain o1 d1 where r: "unredo_loop cs (revert c d) = (o1, d1)" by fastforce
  with Cons.prems(2) have out: "out = inverse c d # o1" "d' = d1" by simp_all
  from Cons.IH [OF cs r] out revert_inverse [OF c] show ?case
    by (simp add: unredo_loop_append)
qed simp

lemma unredo_inverse:
  "revertible (rev cset) (length d) \<Longrightarrow> unredo cset d = (out, d') \<Longrightarrow> unredo out d' = (cset, d)"
  unfolding unredo_def using unredo_loop_inverse [of "rev cset" d out d'] by simp

text \<open>The number of lines after the changes.\<close>

definition len_after :: "'l change list \<Rightarrow> nat \<Rightarrow> nat" where
  "len_after cs n = fold (\<lambda>c m. m - nat (cadded c) + length (cold c)) cs n"

lemma len_after_simps [simp]:
  "len_after [] n = n" "len_after (c # cs) n = len_after cs (n - nat (cadded c) + length (cold c))"
  "len_after (cs @ ds) n = len_after ds (len_after cs n)"
  by (simp_all add: len_after_def)

lemma revertible_append [simp]:
  "revertible (xs @ ys) n \<longleftrightarrow> revertible xs n \<and> revertible ys (len_after xs n)"
  by (induction xs arbitrary: n) auto

lemma length_revert_all: "revertible cs (length d) \<Longrightarrow> length (revert_all cs d) = len_after cs (length d)"
  by (induction cs arbitrary: d) (auto simp: length_revert)


subsection \<open>Merging changes keeps what an undo restores\<close>

text \<open>
  The change that replaced lines \<open>start .. start + length old\<close> by \<open>new\<close>: reverting it, alone or merged
  into a mergeable change before it, gives the same lines.
\<close>

definition mergeable :: "'l change \<Rightarrow> int \<Rightarrow> nat \<Rightarrow> bool" where
  "mergeable l start n \<longleftrightarrow> \<not> (cstart l > start + int n \<or> cstart l + cadded l < start)"

lemma in_range_merge:
  assumes "in_range l m" "mergeable l start (length old)" "0 \<le> start" "start + int (length old) \<le> int m"
  shows "in_range (merge_change l start (int k) old) (m + k - length old)"
  using assms by (auto simp: in_range_def mergeable_def merge_change_def Let_def max_def)

lemma revert_merge:
  assumes "in_range l (length d)" "mergeable l (int s) (length old)"
    and old: "old = take n (drop s d)" and "s + n \<le> length d"
  shows "revert (merge_change l (int s) (int (length new)) old) (splice_at s n new d) = revert l d"
proof -
  obtain ls la where l: "cstart l = int ls" "cadded l = int la" and le: "ls + la \<le> length d"
    using assms(1) by (rule in_rangeE)
  have n: "length old = n" using assms by simp
  have m: "ls \<le> s + n" "s \<le> ls + la" using assms(2) n l by (simp_all add: mergeable_def)
  have st: "nat (cstart (merge_change l (int s) (int (length new)) old)) = min ls s"
    using m l n by (auto simp: merge_change_def Let_def max_def)
  have ad: "nat (cadded (merge_change l (int s) (int (length new)) old)) =
      length new + max (s + n) (ls + la) - n - min ls s"
    using m l n by (auto simp: merge_change_def Let_def max_def)
  have co: "cold (merge_change l (int s) (int (length new)) old) =
      take (ls - s) old @ cold l @ drop (n - (s + n - (ls + la))) old"
  proof -
    have "nat (max 0 (int s + int n - (int ls + int la))) = s + n - (ls + la)"
      "nat (max 0 (int ls - int s)) = ls - s" by auto
    then show ?thesis using l n by (simp add: merge_change_def Let_def)
  qed
  have a: "take (min ls s) (splice_at s n new d) @ take (ls - s) old = take ls d"
  proof (cases "ls \<le> s")
    case True
    with le assms(4) show ?thesis by (simp add: splice_at_def min_def)
  next
    case False
    with m le assms(4) have "take ls d = take s d @ take (ls - s) (drop s d)"
      by (metis le_add_diff_inverse nat_le_linear take_add)
    with False m le assms(4) old show ?thesis by (simp add: splice_at_def min_def)
  qed
  have b: "drop (n - (s + n - (ls + la))) old @
      drop (length new + max (s + n) (ls + la) - n) (splice_at s n new d) = drop (ls + la) d"
  proof (cases "s + n \<le> ls + la")
    case True
    with le assms(4) old show ?thesis by (simp add: splice_at_def max_def)
  next
    case False
    have "drop (ls + la) d = drop (ls + la - s) (take n (drop s d) @ drop n (drop s d))"
      unfolding append_take_drop_id using m by simp
    also have "\<dots> = drop (ls + la - s) (take n (drop s d)) @ drop (s + n) d"
      using False m assms(4) by (subst drop_append) (simp add: add.commute)
    finally have "drop (ls + la) d = drop (ls + la - s) (take n (drop s d)) @ drop (s + n) d" .
    with False m le assms(4) old show ?thesis by (simp add: splice_at_def max_def)
  qed
  have k: "min ls s + (length new + max (s + n) (ls + la) - n - min ls s) = length new + max (s + n) (ls + la) - n"
    by auto
  have "revert (merge_change l (int s) (int (length new)) old) (splice_at s n new d) = take ls d @ cold l @ drop (ls + la) d"
    unfolding revert_def st ad co splice_at_def [of "min ls s"] k using a b by (metis append.assoc)
  with l show ?thesis by (simp add: revert_def splice_at_def)
qed


text \<open>The three things \<open>addChange\<close> can do to the stack.\<close>

lemma addChange_all_done:
  fixes h :: "'l history"
  defines "c s k ol \<equiv> \<lparr>cstart = s, cadded = k, cold = ol\<rparr>"
  shows "all_done (addChange now s k ol h) = c s k ol # all_done h \<or>
    (\<exists>l cs. all_done h = l # cs \<and> mergeable l s (length ol) \<and>
       all_done (addChange now s k ol h) = merge_change l s k ol # cs)"
proof (cases "hdone h" rule: rev_cases)
  case Nil
  then show ?thesis by (simp add: addChange_def all_done_def c_def)
next
  case (snoc A cs)
  show ?thesis
  proof (cases cs rule: rev_cases)
    case Nil
    with snoc show ?thesis by (simp add: addChange_def all_done_def Let_def c_def)
  next
    case (snoc B l)
    with \<open>hdone h = A @ [cs]\<close> have "hdone h = A @ [B @ [l]]" by simp
    then show ?thesis by (simp add: addChange_def all_done_def Let_def c_def mergeable_def)
  qed
qed

text \<open>
  Whatever the clock, the compounds and the merging do: the history that recorded a replacement
  can be reverted on the new text, and reverting all of it gives what it gave before.
\<close>

lemma addChange_undo_all:
  fixes new :: "'l list" and now :: int
  assumes h: "revertible (all_done h) (length d)" and n: "s + n \<le> length d"
  defines "h' \<equiv> addChange now (int s) (int (length new)) (take n (drop s d)) h"
    and "d' \<equiv> splice_at s n new d"
  shows "revertible (all_done h') (length d') \<and> revert_all (all_done h') d' = revert_all (all_done h) d"
proof -
  let ?old = "take n (drop s d)"
  have lo: "length ?old = n" using n by simp
  have ld: "length d' = length d + length new - n" using n by (simp add: d'_def splice_at_def)
  let ?c = "\<lparr>cstart = int s, cadded = int (length new), cold = ?old\<rparr>"
  consider (push) "all_done h' = ?c # all_done h"
    | (merge) l cs where "all_done h = l # cs" "mergeable l (int s) n"
        "all_done h' = merge_change l (int s) (int (length new)) ?old # cs"
    using addChange_all_done [of now "int s" "int (length new)" ?old h] lo unfolding h'_def by auto
  then show ?thesis
  proof cases
    case push
    have r: "revert ?c d' = d"
      using revert_inverse(1) [of "\<lparr>cstart = int s, cadded = int n, cold = new\<rparr>" d] n lo
      by (simp add: in_range_def revert_def inverse_def d'_def)
    have "in_range ?c (length d')" using n by (simp add: in_range_def ld)
    moreover have "length d' - length new + n = length d" using n by (simp add: ld)
    ultimately show ?thesis using push r h lo by simp
  next
    case merge
    let ?m = "merge_change l (int s) (int (length new)) ?old"
    have l: "in_range l (length d)" using h merge(1) by simp
    have r: "revert ?m d' = revert l d"
      unfolding d'_def using revert_merge [OF l _ refl n] merge(2) lo by simp
    have i: "in_range ?m (length d')"
      using in_range_merge [OF l, of "int s" ?old "length new"] merge(2) lo n ld by simp
    have "revertible cs (length (revert l d))" using h merge(1) l by (simp add: length_revert)
    with r i merge h show ?thesis by (simp add: length_revert [symmetric])
  qed
qed

text \<open>Dropping the oldest change sets keeps the rest revertible.\<close>

lemma all_done_trim: "\<exists>cs. all_done h = all_done (trim_depth k h) @ cs"
  unfolding all_done_def trim_depth_def
  by (rule exI [of _ "rev (concat (take (length (hdone h) - k) (hdone h)))"])
    (simp flip: rev_append concat_append)

lemma trim_depth_revertible: "revertible (all_done h) n \<Longrightarrow> revertible (all_done (trim_depth k h)) n"
  using all_done_trim [of h k] by auto

subsection \<open>The history and the lines as one state\<close>

definition hist_ok :: "'l history \<times> 'l list \<Rightarrow> bool" where
  "hist_ok st \<longleftrightarrow> revertible (all_done (fst st)) (length (snd st)) \<and>
     revertible (concat (map rev (rev (hundone (fst st))))) (length (snd st))"

lemma addChange_undone [simp]: "hundone (addChange now s k ol h) = []"
  by (auto simp: addChange_def Let_def split: option.split)

lemma hist_ok_addChange:
  assumes "hist_ok (h, d)" "s + n \<le> length d"
  shows "hist_ok (addChange now (int s) (int (length new)) (take n (drop s d)) h, splice_at s n new d)"
  using addChange_undo_all [OF _ assms(2)] assms(1) by (simp add: hist_ok_def)

lemma all_done_snoc [simp]: "hdone h = A @ [cs] \<Longrightarrow> all_done h = rev cs @ rev (concat A)"
  by (simp add: all_done_def)

lemma revertible_unredo_out:
  "revertible cs (length d) \<Longrightarrow> unredo_loop cs d = (out, d') \<Longrightarrow> revertible (rev out) (length d')"
proof (induction cs arbitrary: d out d')
  case (Cons c cs)
  from Cons.prems(1) have c: "in_range c (length d)" and cs: "revertible cs (length (revert c d))"
    by (simp_all add: length_revert)
  obtain o1 d1 where r: "unredo_loop cs (revert c d) = (o1, d1)" by fastforce
  with Cons.prems(2) have out: "out = inverse c d # o1" "d' = d1" by simp_all
  have "unredo_loop (rev o1) d1 = (rev cs, revert c d)" by (rule unredo_loop_inverse [OF cs r])
  then have "revert_all (rev o1) d1 = revert c d" by (metis snd_conv unredo_loop_revert)
  with Cons.IH [OF cs r] have "len_after (rev o1) (length d1) = length (revert c d)"
    by (metis length_revert_all)
  with Cons.IH [OF cs r] in_range_inverse [OF c] out show ?case by simp
qed simp

lemma unredo_length:
  "revertible (rev cset) (length d) \<Longrightarrow> unredo cset d = (out, d') \<Longrightarrow>
     length d' = len_after (rev cset) (length d) \<and> revertible (rev out) (length d') \<and>
     len_after (rev out) (length d') = length d"
  using unredo_inverse [of cset d out d'] revertible_unredo_out [of "rev cset" d out d']
  unfolding unredo_def by (metis length_revert_all snd_conv unredo_loop_revert)

lemma hist_ok_undo: "hist_ok st \<Longrightarrow> hist_ok (undo_lines st)"
proof (cases st)
  case (Pair h d)
  assume ok: "hist_ok st"
  show ?thesis
  proof (cases "hdone h" rule: rev_cases)
    case (snoc A cs)
    obtain out d' where u: "unredo cs d = (out, d')" by fastforce
    from ok Pair snoc have r: "revertible (rev cs) (length d)" by (simp add: hist_ok_def)
    from unredo_length [OF r u] ok Pair snoc u show ?thesis
      by (simp add: hist_ok_def undo_lines_def) (simp add: all_done_def, metis)
  qed (use ok Pair in \<open>simp add: undo_lines_def\<close>)
qed

lemma hist_ok_redo: "hist_ok st \<Longrightarrow> hist_ok (redo_lines st)"
proof (cases st)
  case (Pair h d)
  assume ok: "hist_ok st"
  show ?thesis
  proof (cases "hundone h" rule: rev_cases)
    case (snoc A cs)
    obtain out d' where u: "unredo cs d = (out, d')" by fastforce
    from ok Pair snoc have r: "revertible (rev cs) (length d)" by (simp add: hist_ok_def)
    from unredo_length [OF r u] ok Pair snoc u show ?thesis
      by (simp add: hist_ok_def redo_lines_def) (simp add: all_done_def, metis)
  qed (use ok Pair in \<open>simp add: redo_lines_def\<close>)
qed

lemma redo_undo:
  assumes ok: "hist_ok (h, d)" and ne: "hdone h \<noteq> []"
  shows "redo_lines (undo_lines (h, d)) = (h, d)"
proof -
  obtain A cs where s: "hdone h = A @ [cs]" using ne by (cases "hdone h" rule: rev_cases) auto
  obtain out d' where u: "unredo cs d = (out, d')" by fastforce
  from ok s have r: "revertible (rev cs) (length d)" by (simp add: hist_ok_def)
  from unredo_inverse [OF r u] u s show ?thesis by (simp add: undo_lines_def redo_lines_def)
qed

lemma undo_redo:
  assumes ok: "hist_ok (h, d)" and ne: "hundone h \<noteq> []"
  shows "undo_lines (redo_lines (h, d)) = (h, d)"
proof -
  obtain A cs where s: "hundone h = A @ [cs]" using ne by (cases "hundone h" rule: rev_cases) auto
  obtain out d' where u: "unredo cs d = (out, d')" by fastforce
  from ok s have r: "revertible (rev cs) (length d)" by (simp add: hist_ok_def)
  from unredo_inverse [OF r u] u s show ?thesis by (simp add: undo_lines_def redo_lines_def)
qed

end
