(* ===== verification/CM_Stream.thy ===== *)
theory CM_Stream
  imports Js_Prelude
begin

section \<open>The character stream of the parsers\<close>

text \<open>
  \<open>StringStream\<close>, \<open>countColumn\<close> and the word and white-space tests of \<open>codemirror.js\<close>.  A regular
  expression given to \<open>eat\<close> or \<open>eatWhile\<close> is its predicate on one character; one given to \<open>match\<close>
  is a function from the rest of the line to the length of its match at the beginning.
\<close>

record stream =
  str :: jstring
  pos :: nat
  start :: nat
  tabSize :: nat

text \<open>\<open>new StringStream(string, tabSize)\<close>; a tab size of 0 counts as absent.\<close>

definition newStream :: "jstring \<Rightarrow> nat \<Rightarrow> stream" where
  "newStream s tab = \<lparr>str = s, pos = 0, start = 0, tabSize = (if tab = 0 then 8 else tab)\<rparr>"

lemma newStream_sel [simp]: "str (newStream t tab) = t" "pos (newStream t tab) = 0" "start (newStream t tab) = 0"
  by (simp_all add: newStream_def)

text \<open>\<open>countColumn(string, end, tabSize)\<close>; \<open>None\<close> is the \<open>null\<close> end.\<close>

fun count_cols :: "nat \<Rightarrow> jstring \<Rightarrow> nat \<Rightarrow> nat \<Rightarrow> nat \<Rightarrow> nat" where
  "count_cols tab s i 0 n = n"
| "count_cols tab s i (Suc k) n =
     count_cols tab s (Suc i) k
       (if charAt s (int i) = Some (CHR 0x09) then n + (tab - n mod tab) else Suc n)"

definition countColumn :: "jstring \<Rightarrow> nat option \<Rightarrow> nat \<Rightarrow> nat" where
  "countColumn s stop tab =
     (let e = (case stop of Some e \<Rightarrow> e
               | None \<Rightarrow> (case find_from (\<lambda>c. \<not> re_space c) 0 s of Some i \<Rightarrow> i | None \<Rightarrow> length s))
      in count_cols tab s 0 e 0)"

definition isWordChar :: "char \<Rightarrow> bool" where
  "isWordChar ch \<longleftrightarrow> re_word ch \<or> has_case ch"

definition eol :: "stream \<Rightarrow> bool" where
  "eol s \<longleftrightarrow> length (str s) \<le> pos s"

definition sol :: "stream \<Rightarrow> bool" where
  "sol s \<longleftrightarrow> pos s = 0"

definition peek :: "stream \<Rightarrow> char option" where
  "peek s = charAt (str s) (int (pos s))"

definition next_char :: "stream \<Rightarrow> char option \<times> stream" where
  "next_char s = (if pos s < length (str s) then (Some (str s ! pos s), s\<lparr>pos := Suc (pos s)\<rparr>) else (None, s))"

definition eat :: "(char \<Rightarrow> bool) \<Rightarrow> stream \<Rightarrow> char option \<times> stream" where
  "eat match s =
     (case charAt (str s) (int (pos s)) of
        Some ch \<Rightarrow> if match ch then (Some ch, s\<lparr>pos := Suc (pos s)\<rparr>) else (None, s)
      | None \<Rightarrow> (None, s))"

lemma eat_advances: "eat match s = (Some ch, s') \<Longrightarrow> length (str s') - pos s' < length (str s) - pos s"
  by (auto simp: eat_def charAt_def split: option.splits if_splits)

function eat_loop :: "(char \<Rightarrow> bool) \<Rightarrow> stream \<Rightarrow> stream" where
  "eat_loop match s = (case eat match s of (Some ch, s') \<Rightarrow> eat_loop match s' | (None, s') \<Rightarrow> s')"
  by pat_completeness auto
termination
  by (relation "measure (\<lambda>(m, s). length (str s) - pos s)") (auto dest: eat_advances [OF sym])

declare eat_loop.simps [simp del]

definition eatWhile :: "(char \<Rightarrow> bool) \<Rightarrow> stream \<Rightarrow> bool \<times> stream" where
  "eatWhile match s = (let s' = eat_loop match s in (pos s < pos s', s'))"

definition eatSpace :: "stream \<Rightarrow> bool \<times> stream" where
  "eatSpace s = eatWhile re_space s"

definition skipToEnd :: "stream \<Rightarrow> stream" where
  "skipToEnd s = s\<lparr>pos := length (str s)\<rparr>"

definition skipTo :: "char \<Rightarrow> stream \<Rightarrow> bool \<times> stream" where
  "skipTo ch s = (case index_from ch (pos s) (str s) of Some i \<Rightarrow> (True, s\<lparr>pos := i\<rparr>) | None \<Rightarrow> (False, s))"

text \<open>\<open>backUp(n)\<close>; \<open>None\<close> where the position would become negative.\<close>

definition backUp :: "nat \<Rightarrow> stream \<Rightarrow> stream option" where
  "backUp n s = (if n \<le> pos s then Some (s\<lparr>pos := pos s - n\<rparr>) else None)"

definition column :: "stream \<Rightarrow> nat" where
  "column s = countColumn (str s) (Some (start s)) (tabSize s)"

definition indentation :: "stream \<Rightarrow> nat" where
  "indentation s = countColumn (str s) None (tabSize s)"

text \<open>\<open>match(pattern, consume, caseInsensitive)\<close> for a string and for a regular expression.\<close>

definition match_string :: "jstring \<Rightarrow> bool \<Rightarrow> bool \<Rightarrow> stream \<Rightarrow> bool \<times> stream" where
  "match_string pat consume ci s =
     (let cased = (if ci then map to_lower else id) in
      if take (length pat) (drop (pos s) (cased (str s))) = cased pat
      then (True, if consume then s\<lparr>pos := pos s + length pat\<rparr> else s) else (False, s))"

definition match_re :: "(jstring \<Rightarrow> nat option) \<Rightarrow> bool \<Rightarrow> stream \<Rightarrow> nat option \<times> stream" where
  "match_re re consume s =
     (case re (drop (pos s) (str s)) of
        Some n \<Rightarrow> (Some n, if consume then s\<lparr>pos := pos s + n\<rparr> else s)
      | None \<Rightarrow> (None, s))"

definition current :: "stream \<Rightarrow> jstring" where
  "current s = take (pos s - start s) (drop (start s) (str s))"

lemmas stream_defs = eol_def sol_def peek_def next_char_def eat_def eatWhile_def eatSpace_def
  skipToEnd_def skipTo_def column_def indentation_def match_string_def match_re_def current_def

subsection \<open>Laws\<close>

text \<open>The loop of \<open>eatWhile\<close> consumes exactly the longest prefix of matching characters.\<close>

lemma eat_loop_takeWhile:
  "eat_loop match s = s\<lparr>pos := pos s + length (takeWhile match (drop (pos s) (str s)))\<rparr>"
proof (induction match s rule: eat_loop.induct)
  case (1 match s)
  show ?case
  proof (cases "pos s < length (str s) \<and> match (str s ! pos s)")
    case True
    then have e: "eat match s = (Some (str s ! pos s), s\<lparr>pos := Suc (pos s)\<rparr>)"
      by (simp add: eat_def charAt_def)
    from 1 [OF e [symmetric] refl] e True show ?thesis
      by (subst eat_loop.simps) (simp add: Cons_nth_drop_Suc [symmetric])
  next
    case False
    then have e: "eat match s = (None, s)"
      by (auto simp: eat_def charAt_def)
    have "takeWhile match (drop (pos s) (str s)) = []"
    proof (cases "pos s < length (str s)")
      case True
      with False show ?thesis by (simp add: Cons_nth_drop_Suc [symmetric])
    qed simp
    then show ?thesis by (subst eat_loop.simps) (simp add: e)
  qed
qed

lemma eatWhile_takeWhile:
  "eatWhile match s = (let n = length (takeWhile match (drop (pos s) (str s))) in
     (0 < n, s\<lparr>pos := pos s + n\<rparr>))"
  by (simp add: eatWhile_def eat_loop_takeWhile Let_def)

text \<open>
  Every reading operation leaves the string and the start alone, never moves back and never
  passes the end of the line.
\<close>

definition moves_on :: "stream \<Rightarrow> stream \<Rightarrow> bool" where
  "moves_on s s' \<longleftrightarrow> str s' = str s \<and> start s' = start s \<and> tabSize s' = tabSize s \<and> pos s \<le> pos s' \<and>
     (pos s \<le> length (str s) \<longrightarrow> pos s' \<le> length (str s'))"

lemma moves_on_refl [simp]: "moves_on s s"
  by (simp add: moves_on_def)

lemma moves_on_trans: "moves_on a b \<Longrightarrow> moves_on b c \<Longrightarrow> moves_on a c"
  by (auto simp: moves_on_def)

lemma takeWhile_drop_le: "k \<le> length xs \<Longrightarrow> k + length (takeWhile P (drop k xs)) \<le> length xs"
  using length_takeWhile_le [of P "drop k xs"] by simp

lemma moves_on_eatWhile [simp]: "moves_on s (snd (eatWhile match s))"
  by (simp add: moves_on_def eatWhile_takeWhile Let_def takeWhile_drop_le)

lemma moves_on_next [simp]: "moves_on s (snd (next_char s))"
  by (simp add: moves_on_def next_char_def)

lemma moves_on_eat [simp]: "moves_on s (snd (eat match s))"
  by (auto simp: moves_on_def eat_def charAt_def split: option.splits if_splits)

lemma moves_on_skipToEnd: "pos s \<le> length (str s) \<Longrightarrow> moves_on s (skipToEnd s)"
  by (simp add: moves_on_def skipToEnd_def)

lemma moves_on_match_re:
  "(\<And>t n. re t = Some n \<Longrightarrow> n \<le> length t) \<Longrightarrow> moves_on s (snd (match_re re consume s))"
  by (force simp: moves_on_def match_re_def split: option.splits)

lemma count_cols_ge: "0 < tab \<Longrightarrow> n + k \<le> count_cols tab s i k n"
proof (induction tab s i k n rule: count_cols.induct)
  case (2 tab s i k n)
  have "n mod tab < tab" using 2(2) by simp
  then have "n + 1 \<le> n + (tab - n mod tab)" by linarith
  with 2 show ?case by auto
qed simp

end
