(* ===== verification/CM_Mode.thy ===== *)
theory CM_Mode
  imports CM_Stream
begin

section \<open>Modes and the loops that run them over a line\<close>

text \<open>
  A mode is a record of functions.  \<open>'g\<close> is what a mode object keeps in variables of its closure
  and in objects its states share; \<open>'s\<close> is a parser state.  \<open>copyState\<close> copies the fields of a state
  and shares the objects they refer to, so on values of \<open>'s\<close> it is the identity, and what is shared
  lives in \<open>'g\<close>.  The loops are \<open>highlight\<close>, \<open>process\<close> and \<open>getTokenAt\<close> of \<open>Line\<close> in
  \<open>codemirror.js\<close>.  They stop only if the mode's \<open>token\<close> advances the stream; their fuel is the
  number of tokens they may read, and the result is \<open>None\<close> when it runs out.
\<close>

record ('g, 's) mode =
  m_token :: "'g \<Rightarrow> stream \<Rightarrow> 's \<Rightarrow> jstring option \<times> 'g \<times> stream \<times> 's"
  m_startState :: 's
  m_blankLine :: "('g \<Rightarrow> 's \<Rightarrow> 'g \<times> 's) option"
  m_indent :: "('g \<Rightarrow> 's \<Rightarrow> jstring \<Rightarrow> jstring \<Rightarrow> int option) option"
  m_electric :: "jstring option"

definition copyState :: "('g, 's) mode \<Rightarrow> 's \<Rightarrow> 's" where
  "copyState m s = s"

definition blank_line :: "('g, 's) mode \<Rightarrow> jstring \<Rightarrow> 'g \<Rightarrow> 's \<Rightarrow> 'g \<times> 's" where
  "blank_line m t g s =
     (if t = [] then (case m_blankLine m of Some f \<Rightarrow> f g s | None \<Rightarrow> (g, s)) else (g, s))"

type_synonym styles = "(jstring \<times> jstring option) list"

text \<open>One round of the loop of \<open>highlight\<close>: join the fragment to the last one of the same style.\<close>

definition push_style :: "styles \<Rightarrow> jstring \<Rightarrow> jstring option \<Rightarrow> styles" where
  "push_style st substr style =
     (if st \<noteq> [] \<and> snd (last st) = style then butlast st @ [(fst (last st) @ substr, style)]
      else if substr \<noteq> [] then st @ [(substr, style)] else st)"

fun highlight_loop :: "nat \<Rightarrow> ('g, 's) mode \<Rightarrow> 'g \<Rightarrow> stream \<Rightarrow> 's \<Rightarrow> styles \<Rightarrow> ('g \<times> 's \<times> styles) option" where
  "highlight_loop fuel m g stream s st =
     (if eol stream then Some (g, s, st)
      else case fuel of 0 \<Rightarrow> None
        | Suc k \<Rightarrow>
          (let (style, g', stream', s') = m_token m g stream s;
               substr = current stream';
               stream'' = stream'\<lparr>start := pos stream'\<rparr>;
               st' = push_style st substr style
           in if 5000 < pos stream''
              then Some (g', s', st' @ [(drop (pos stream'') (str stream''), None)])
              else highlight_loop k m g' stream'' s' st'))"

definition highlight :: "('g, 's) mode \<Rightarrow> nat \<Rightarrow> jstring \<Rightarrow> 'g \<Rightarrow> 's \<Rightarrow> ('g \<times> 's \<times> styles) option" where
  "highlight m tab t g s =
     (let (g', s') = blank_line m t g s in highlight_loop (length t) m g' (newStream t tab) s' [])"

fun process_loop :: "nat \<Rightarrow> ('g, 's) mode \<Rightarrow> 'g \<Rightarrow> stream \<Rightarrow> 's \<Rightarrow> ('g \<times> 's) option" where
  "process_loop fuel m g stream s =
     (if eol stream \<or> 5000 < pos stream then Some (g, s)
      else case fuel of 0 \<Rightarrow> None
        | Suc k \<Rightarrow>
          (let (style, g', stream', s') = m_token m g stream s
           in process_loop k m g' (stream'\<lparr>start := pos stream'\<rparr>) s'))"

definition process :: "('g, 's) mode \<Rightarrow> nat \<Rightarrow> jstring \<Rightarrow> 'g \<Rightarrow> 's \<Rightarrow> ('g \<times> 's) option" where
  "process m tab t g s =
     (let (g', s') = blank_line m t g s in process_loop (length t) m g' (newStream t tab) s')"

record 's token_info =
  t_start :: nat
  t_end :: nat
  t_string :: jstring
  t_class :: "jstring option"
  t_state :: 's

fun token_loop :: "nat \<Rightarrow> ('g, 's) mode \<Rightarrow> int \<Rightarrow> 'g \<Rightarrow> stream \<Rightarrow> 's \<Rightarrow> jstring option \<Rightarrow>
    ('g \<times> 's token_info) option" where
  "token_loop fuel m ch g stream s style =
     (if \<not> (int (pos stream) < ch \<and> \<not> eol stream)
      then Some (g, \<lparr>t_start = start stream, t_end = pos stream, t_string = current stream,
                     t_class = (if style = Some [] then None else style), t_state = s\<rparr>)
      else case fuel of 0 \<Rightarrow> None
        | Suc k \<Rightarrow>
          (let (style', g', stream', s') = m_token m g (stream\<lparr>start := pos stream\<rparr>) s
           in token_loop k m ch g' stream' s' style'))"

definition getTokenAt :: "('g, 's) mode \<Rightarrow> nat \<Rightarrow> jstring \<Rightarrow> int \<Rightarrow> 'g \<Rightarrow> 's \<Rightarrow> ('g \<times> 's token_info) option" where
  "getTokenAt m tab t ch g s = token_loop (length t) m ch g (newStream t tab) s None"

declare highlight_loop.simps [simp del] process_loop.simps [simp del] token_loop.simps [simp del]

subsection \<open>What a mode promises\<close>

text \<open>
  The contract of \<open>token\<close>: called before the end of a line it reads at least one character, does
  not pass the end and touches neither the line nor the start of the token.
\<close>

definition token_advances :: "stream \<Rightarrow> stream \<Rightarrow> bool" where
  "token_advances s s' \<longleftrightarrow> moves_on s s' \<and> pos s < pos s'"

text \<open>The fragments of a line: all non-empty, and no two neighbours of the same style.\<close>

fun normal_styles :: "styles \<Rightarrow> bool" where
  "normal_styles [] = True"
| "normal_styles [x] = (fst x \<noteq> [])"
| "normal_styles (x # y # xs) = (fst x \<noteq> [] \<and> snd x \<noteq> snd y \<and> normal_styles (y # xs))"

lemma normal_styles_append1:
  "normal_styles (st @ [x]) \<longleftrightarrow>
     normal_styles st \<and> fst x \<noteq> [] \<and> (st = [] \<or> snd (last st) \<noteq> snd x)"
  by (induction st rule: normal_styles.induct) auto

lemma push_style_cases:
  obtains (join) us u where "st = us @ [(u, sty)]" "push_style st t sty = us @ [(u @ t, sty)]"
  | (fresh) "t \<noteq> []" "st = [] \<or> snd (last st) \<noteq> sty" "push_style st t sty = st @ [(t, sty)]"
  | (skip) "t = []" "push_style st t sty = st"
proof (cases "st \<noteq> [] \<and> snd (last st) = sty")
  case True
  then have "st = butlast st @ [(fst (last st), sty)]" by (metis append_butlast_last_id prod.collapse)
  with True show ?thesis by (intro join [of "butlast st" "fst (last st)"]) (auto simp: push_style_def)
qed (auto simp: push_style_def intro: fresh skip)

lemma push_style_text: "concat (map fst (push_style st t sty)) = concat (map fst st) @ t"
  by (cases rule: push_style_cases [of st sty t]) auto

lemma push_style_normal: "normal_styles st \<Longrightarrow> normal_styles (push_style st t sty)"
  by (cases rule: push_style_cases [of st sty t]) (auto simp: normal_styles_append1)

text \<open>
  The fragments of a line: up to a column they are as \<open>push_style\<close> joins them, and a line that is too long ends
  with one fragment without a style, which may be empty.
\<close>

definition cut_styles :: "jstring \<Rightarrow> styles \<Rightarrow> bool" where
  "cut_styles t st \<longleftrightarrow>
     (if length t \<le> 5000 then normal_styles st
      else \<exists>us p. st = us @ [(drop p t, None)] \<and> normal_styles us \<and> 5000 < p \<and> p \<le> length t)"

locale cm_mode =
  fixes m :: "('g, 's) mode"
  assumes token_progress:
    "\<not> eol stream \<Longrightarrow> m_token m g stream s = (style, g', stream', s') \<Longrightarrow> token_advances stream stream'"
begin

lemma token_step:
  assumes "m_token m g stream s = (style, g', stream', s')" "\<not> eol stream"
  shows "str stream' = str stream" "start stream' = start stream" "pos stream < pos stream'"
    "pos stream' \<le> length (str stream)" "current stream' = take (pos stream' - start stream) (drop (start stream) (str stream))"
  using token_progress [OF assms(2,1)] assms(2)
  by (auto simp: token_advances_def moves_on_def eol_def current_def)

lemma take_token: "a \<le> b \<Longrightarrow> take a xs @ take (b - a) (drop a xs) = take b xs"
  by (metis le_add_diff_inverse take_add)

lemma highlight_loop_total:
  assumes "length (str stream) \<le> pos stream + fuel" "pos stream \<le> length (str stream)"
    "start stream = pos stream" "concat (map fst st) = take (pos stream) (str stream)" "normal_styles st"
    "pos stream \<le> 5000"
  shows "\<exists>g' s' st'. highlight_loop fuel m g stream s st = Some (g', s', st') \<and>
     concat (map fst st') = str stream \<and> cut_styles (str stream) st'"
  using assms
proof (induction fuel arbitrary: g stream s st)
  case 0
  then show ?case by (subst highlight_loop.simps) (simp add: eol_def cut_styles_def)
next
  case (Suc k)
  show ?case
  proof (cases "eol stream")
    case True
    then show ?thesis using Suc.prems by (subst highlight_loop.simps) (simp add: eol_def cut_styles_def)
  next
    case False
    obtain style g' stream' s' where tok: "m_token m g stream s = (style, g', stream', s')"
      by (metis prod_cases4)
    note st = token_step [OF tok False]
    let ?st = "push_style st (current stream') style" and ?str = "stream'\<lparr>start := pos stream'\<rparr>"
    have cat: "concat (map fst ?st) = take (pos stream') (str stream)"
      using Suc.prems(3,4) st(3,5) take_token [of "pos stream" "pos stream'" "str stream"]
      by (simp add: push_style_text)
    have norm: "normal_styles ?st" using Suc.prems(5) by (rule push_style_normal)
    show ?thesis
    proof (cases "5000 < pos stream'")
      case True
      then have "cut_styles (str stream) (?st @ [(drop (pos stream') (str stream), None)])"
        using norm st(4) unfolding cut_styles_def by auto
      then show ?thesis using True False tok st cat
        by (subst highlight_loop.simps) (simp add: Let_def)
    next
      case False
      have "\<exists>g'' s'' st''. highlight_loop k m g' ?str s' ?st = Some (g'', s'', st'') \<and>
          concat (map fst st'') = str ?str \<and> cut_styles (str ?str) st''"
        using Suc.prems(1) st cat norm False by (intro Suc.IH) auto
      with False \<open>\<not> eol stream\<close> tok st(1) show ?thesis
        by (subst highlight_loop.simps) (simp add: Let_def)
    qed
  qed
qed

lemma highlight_total:
  "\<exists>g' s' st. highlight m tab t g s = Some (g', s', st) \<and> concat (map fst st) = t \<and> cut_styles t st"
proof -
  obtain g1 s1 where b: "blank_line m t g s = (g1, s1)" by fastforce
  have "\<exists>g' s' st. highlight_loop (length t) m g1 (newStream t tab) s1 [] = Some (g', s', st) \<and>
     concat (map fst st) = str (newStream t tab) \<and> cut_styles (str (newStream t tab)) st"
    by (rule highlight_loop_total) (simp_all add:)
  with b show ?thesis by (simp add: highlight_def)
qed

lemma process_loop_total:
  "length (str stream) \<le> pos stream + fuel \<Longrightarrow> \<exists>r. process_loop fuel m g stream s = Some r"
proof (induction fuel arbitrary: g stream s)
  case 0
  then show ?case by (subst process_loop.simps) (simp add: eol_def)
next
  case (Suc k)
  show ?case
  proof (cases "eol stream \<or> 5000 < pos stream")
    case False
    obtain style g' stream' s' where tok: "m_token m g stream s = (style, g', stream', s')"
      by (metis prod_cases4)
    from False token_step [OF tok] Suc.prems
    have "\<exists>r. process_loop k m g' (stream'\<lparr>start := pos stream'\<rparr>) s' = Some r"
      by (intro Suc.IH) auto
    with False tok show ?thesis by (subst process_loop.simps) simp
  qed (subst process_loop.simps, simp)
qed

lemma process_total: "\<exists>r. process m tab t g s = Some r"
  using process_loop_total [of "newStream t tab" "length t"]
  by (simp add: process_def split: prod.splits)

text \<open>
  \<open>highlight\<close> and \<open>process\<close> run the same tokens over a line, and give up behind the same one: they leave the
  parser in the same state.
\<close>

lemma highlight_process_loop:
  "pos stream \<le> length (str stream) \<Longrightarrow> pos stream \<le> 5000 \<Longrightarrow>
   highlight_loop fuel m g stream s st = Some (g', s', st') \<Longrightarrow>
   process_loop fuel m g stream s = Some (g', s')"
proof (induction fuel arbitrary: g stream s st)
  case 0
  then show ?case
    by (subst process_loop.simps) (simp add: highlight_loop.simps [of 0] split: if_splits)
next
  case (Suc k)
  show ?case
  proof (cases "eol stream")
    case True
    then show ?thesis using Suc.prems(3)
      by (subst process_loop.simps) (simp add: highlight_loop.simps [of "Suc k"])
  next
    case False
    obtain style g1 stream' s1 where tok: "m_token m g stream s = (style, g1, stream', s1)"
      by (metis prod_cases4)
    note st = token_step [OF tok False]
    have "process_loop k m g1 (stream'\<lparr>start := pos stream'\<rparr>) s1 = Some (g', s')"
    proof (cases "5000 < pos stream'")
      case True
      then have "g' = g1" "s' = s1"
        using Suc.prems(3) False tok by (simp_all add: highlight_loop.simps [of "Suc k"] Let_def)
      then show ?thesis using True by (subst process_loop.simps) simp
    next
      case short: False
      have "highlight_loop k m g1 (stream'\<lparr>start := pos stream'\<rparr>) s1
          (push_style st (current stream') style) = Some (g', s', st')"
        using False tok short Suc.prems(3) by (simp add: highlight_loop.simps [of "Suc k"] Let_def)
      then show ?thesis using st short by (intro Suc.IH) auto
    qed
    with False tok Suc.prems(2) show ?thesis by (subst process_loop.simps) simp
  qed
qed

lemma highlight_process:
  assumes "highlight m tab t g s = Some (g', s', st)"
  shows "process m tab t g s = Some (g', s')"
  using assms highlight_process_loop [of "newStream t tab" "length t"]
  by (auto simp: highlight_def process_def split: prod.splits)

text \<open>The token at a position of the line covers the character in front of it.\<close>

lemma token_loop_total:
  assumes "length (str stream) \<le> pos stream + fuel" "pos stream \<le> length (str stream)"
    "start stream \<le> pos stream" "int (start stream) < ch" "ch \<le> int (length (str stream))"
  shows "\<exists>g' tk. token_loop fuel m ch g stream s style = Some (g', tk) \<and>
     int (t_start tk) < ch \<and> ch \<le> int (t_end tk) \<and> t_end tk \<le> length (str stream) \<and>
     t_string tk = take (t_end tk - t_start tk) (drop (t_start tk) (str stream))"
  using assms
proof (induction fuel arbitrary: g stream s style)
  case 0
  then show ?case by (subst token_loop.simps) (simp add: eol_def current_def)
next
  case (Suc k)
  show ?case
  proof (cases "int (pos stream) < ch \<and> \<not> eol stream")
    case False
    then show ?thesis using Suc.prems
      by (subst token_loop.simps) (auto simp: eol_def current_def)
  next
    case True
    let ?str = "stream\<lparr>start := pos stream\<rparr>"
    obtain style' g' stream' s' where tok: "m_token m g ?str s = (style', g', stream', s')"
      by (metis prod_cases4)
    have "\<not> eol ?str" using True by (simp add: eol_def)
    note st = token_step [OF tok this]
    have "\<exists>g'' tk. token_loop k m ch g' stream' s' style' = Some (g'', tk) \<and>
      int (t_start tk) < ch \<and> ch \<le> int (t_end tk) \<and> t_end tk \<le> length (str stream') \<and>
      t_string tk = take (t_end tk - t_start tk) (drop (t_start tk) (str stream'))"
      using Suc.prems st True by (intro Suc.IH) auto
    with True tok st(1) show ?thesis by (subst token_loop.simps) simp
  qed
qed

lemma getTokenAt_covers:
  assumes "0 < ch" "ch \<le> int (length t)"
  shows "\<exists>g' tk. getTokenAt m tab t ch g s = Some (g', tk) \<and>
     int (t_start tk) < ch \<and> ch \<le> int (t_end tk) \<and> t_end tk \<le> length t \<and>
     t_string tk = take (t_end tk - t_start tk) (drop (t_start tk) t)"
  using token_loop_total [of "newStream t tab" "length t" ch g s None] assms
  by (simp add: getTokenAt_def)

end

end
