(* ===== verification/CM_Editor.thy ===== *)
theory CM_Editor
  imports CM_Chunks_Laws CM_Marks CM_History CM_Mode
begin

section \<open>The editor: its state, positions, edits and the selection\<close>

text \<open>
  The closure of \<open>CodeMirror(place, givenOptions)\<close> in \<open>codemirror.js\<close> as a record, and the functions
  that change the document, the undo history and the selection.  An operation that dereferences a
  line that does not exist raises a \<open>TypeError\<close> in the code and is \<open>None\<close> here.  What the code reads
  from the browser (sizes, the clock) is in the record \<open>screen\<close> and in \<open>clock\<close>; timers are values in
  \<open>timers\<close>.  Arrays of spans are values here: the code lets the lines of a multi-line insertion
  inside a mark share one array.
\<close>

subsection \<open>Positions\<close>

datatype pos = Pos (pline: int) (pch: int)

text \<open>\<open>posLess\<close> is the order of positions, \<open>posEq\<close> is equality.\<close>

definition posLess :: "pos \<Rightarrow> pos \<Rightarrow> bool" where
  "posLess a b \<longleftrightarrow> pline a < pline b \<or> (pline a = pline b \<and> pch a < pch b)"

definition posEq :: "pos \<Rightarrow> pos \<Rightarrow> bool" where
  "posEq a b \<longleftrightarrow> pline a = pline b \<and> pch a = pch b"

instantiation pos :: linorder
begin

definition less_pos :: "pos \<Rightarrow> pos \<Rightarrow> bool" where
  "less_pos = posLess"

definition less_eq_pos :: "pos \<Rightarrow> pos \<Rightarrow> bool" where
  "less_eq_pos a b \<longleftrightarrow> posLess a b \<or> a = b"

instance
  by standard (auto simp: less_pos_def less_eq_pos_def posLess_def intro: pos.expand)

end

lemma posEq_eq [simp]: "posEq a b \<longleftrightarrow> a = b"
  by (cases a; cases b) (auto simp: posEq_def)

lemma posLess_less [simp]: "posLess a b \<longleftrightarrow> a < b"
  by (simp add: less_pos_def)

lemma pos_less_iff: "a < b \<longleftrightarrow> pline a < pline b \<or> (pline a = pline b \<and> pch a < pch b)" for a b :: pos
  by (simp only: less_pos_def posLess_def)

lemma pos_le_iff: "a \<le> b \<longleftrightarrow> pline a < pline b \<or> (pline a = pline b \<and> pch a \<le> pch b)" for a b :: pos
  unfolding less_eq_pos_def posLess_def by (cases a; cases b) auto

subsection \<open>The state\<close>

datatype read_only = Editable | ReadOnly | NoCursor

text \<open>The options that the modelled functions read; a callback option is the flag that it is set.\<close>

record options =
  lineWrapping :: bool
  readOnly :: read_only
  undoDepth :: nat
  tab_size :: nat
  indentUnit :: int
  indentWithTabs :: bool
  smartIndent :: bool
  autoClearEmptyLines :: bool
  electricChars :: bool
  onChange :: bool
  onCursorActivity :: bool
  opt_matchBrackets :: bool
  workTime :: nat

text \<open>What is read from the browser, in pixels.\<close>

record screen =
  clientWidth :: nat
  clientHeight :: nat
  charWidth :: nat
  textHeight :: int
  paddingTop :: int
  paddingLeft :: int

datatype timer =
    ClearEmptyLine nat
  | RunMatchBrackets
  | ClearBrackets "nat list"
  | ElectricIndent
  | RehideShift

record change_rec =
  chfrom :: int
  chto :: int
  chdiff :: int

record change_obj =
  cofrom :: pos
  coto :: pos
  cotext :: "jstring list"

record ('g, 's) editor =
  doc :: "'s chunk"
  gone :: "'s line list"
  markers :: "nat \<Rightarrow> marker"
  next_line :: nat
  next_marker :: nat
  mode :: "('g, 's) mode"
  mode_env :: 'g
  options :: options
  screen :: screen
  clock :: int
  history :: "hl history option"
  frontier :: nat
  sel_from :: pos
  sel_to :: pos
  sel_inverted :: bool
  shiftSelecting :: "pos option"
  suppressEdits :: bool
  goalColumn :: "int option"
  maxLine :: nat
  updateMaxLine :: bool
  maxLineChanged :: bool
  showingFrom :: nat
  showingTo :: nat
  displayOffset :: int
  updateInput :: "bool option"
  userSelChange :: bool
  changes :: "change_rec list"
  textChanged :: "change_obj list"
  selectionChanged :: bool
  gutterDirty :: bool
  callbacks :: "nat list"
  nestedOperation :: nat
  focused :: bool
  overwrite :: bool
  pollingFast :: bool
  prevInput :: jstring
  input :: jstring
  bracketHighlighted :: "nat list option"
  worker :: "nat option"
  timers :: "timer list"

subsection \<open>Reading the document\<close>

definition doc_size :: "('g, 's) editor \<Rightarrow> int" where
  "doc_size ed = int (chunkSize (doc ed))"

definition getLine :: "('g, 's) editor \<Rightarrow> int \<Rightarrow> 's line option" where
  "getLine ed n = (if n < 0 then None else getLineAt (doc ed) (nat n))"

definition line_text :: "('g, 's) editor \<Rightarrow> int \<Rightarrow> jstring option" where
  "line_text ed n = map_option ltext (getLine ed n)"

definition isLine :: "('g, 's) editor \<Rightarrow> int \<Rightarrow> bool" where
  "isLine ed l \<longleftrightarrow> 0 \<le> l \<and> l < doc_size ed"

definition clipLine :: "('g, 's) editor \<Rightarrow> int \<Rightarrow> int" where
  "clipLine ed n = max 0 (min n (doc_size ed - 1))"

text \<open>\<open>clipPos({line: l, ch: c})\<close>; \<open>c\<close> is \<open>None\<close> for a \<open>ch\<close> that is null or undefined.\<close>

definition clipPos :: "('g, 's) editor \<Rightarrow> int \<Rightarrow> int option \<Rightarrow> pos option" where
  "clipPos ed l c =
     (if l < 0 then Some (Pos 0 0)
      else if l \<ge> doc_size ed then
        do { t \<leftarrow> line_text ed (doc_size ed - 1); Some (Pos (doc_size ed - 1) (int (length t))) }
      else do {
        t \<leftarrow> line_text ed l;
        Some (case c of
            None \<Rightarrow> Pos l (int (length t))
          | Some ch \<Rightarrow> if ch > int (length t) then Pos l (int (length t))
                       else if ch < 0 then Pos l 0 else Pos l ch) })"

abbreviation clip :: "('g, 's) editor \<Rightarrow> pos \<Rightarrow> pos option" where
  "clip ed p \<equiv> clipPos ed (pline p) (Some (pch p))"

text \<open>The lines from \<open>f\<close> up to \<open>t\<close>, collected by \<open>doc.iter\<close>.\<close>

definition iter_list :: "('g, 's) editor \<Rightarrow> int \<Rightarrow> int \<Rightarrow> 's line list" where
  "iter_list ed f t = snd (doc_iter (nat f) (nat t) (\<lambda>l acc. (False, acc @ [l])) (doc ed) [])"

definition getValue :: "('g, 's) editor \<Rightarrow> jstring \<Rightarrow> jstring" where
  "getValue ed sep = js_join sep (map ltext (iter_list ed 0 (doc_size ed)))"

definition getRange :: "('g, 's) editor \<Rightarrow> pos \<Rightarrow> pos \<Rightarrow> jstring \<Rightarrow> jstring option" where
  "getRange ed f t sep =
     (if pline f = pline t then do { s \<leftarrow> line_text ed (pline f); Some (js_slice s (pch f) (pch t)) }
      else do {
        s1 \<leftarrow> line_text ed (pline f);
        s2 \<leftarrow> line_text ed (pline t);
        Some (js_join sep (js_slice_from s1 (pch f) #
          map ltext (iter_list ed (pline f + 1) (pline t)) @ [js_slice s2 0 (pch t)])) })"

definition getSelection :: "('g, 's) editor \<Rightarrow> jstring \<Rightarrow> jstring option" where
  "getSelection ed sep = getRange ed (sel_from ed) (sel_to ed) sep"

text \<open>\<open>posFromIndex\<close>: the loop's state is the offset left, the line number and \<open>ch\<close>.\<close>

definition posFromIndex :: "('g, 's) editor \<Rightarrow> int \<Rightarrow> pos option" where
  "posFromIndex ed off =
     (let op = (\<lambda>l (o1, no, c). (let sz = int (length (ltext l)) + 1 in
                if sz > o1 then (True, (o1, no, Some o1)) else (False, (o1 - sz, no + 1, c))));
          (_, (_, no, c)) = doc_iter 0 (chunkSize (doc ed)) op (doc ed) (off, 0, None)
      in clipPos ed no c)"

definition indexFromPos :: "('g, 's) editor \<Rightarrow> int \<Rightarrow> int \<Rightarrow> int" where
  "indexFromPos ed l c =
     (if l < 0 \<or> c < 0 then 0
      else c + sum_list (map (\<lambda>x. int (length (ltext x)) + 1) (iter_list ed 0 l)))"

text \<open>\<open>string.split(/\r\n?|\n/)\<close>, and the code's own loop for the browsers without it.\<close>

fun splitLines :: "jstring \<Rightarrow> jstring list" where
  "splitLines [] = [[]]"
| "splitLines (c # cs) =
     (if c = CHR 0x0A then [] # splitLines cs
      else if c = CHR 0x0D then
        [] # (case cs of d # ds \<Rightarrow> if d = CHR 0x0A then splitLines ds else splitLines cs | [] \<Rightarrow> [[]])
      else (case splitLines cs of [] \<Rightarrow> [[c]] | x # xs \<Rightarrow> (c # x) # xs))"


function ie_split :: "jstring \<Rightarrow> nat \<Rightarrow> jstring list \<Rightarrow> jstring list" where
  "ie_split s p result =
     (if p \<le> length s then
        let nl = (case index_from (CHR 0x0A) p s of None \<Rightarrow> length s | Some i \<Rightarrow> i);
            line = js_slice s (int p) (int (if charAt s (int nl - 1) = Some (CHR 0x0D) then nl - 1 else nl))
        in case index_of (CHR 0x0D) line of
             Some rt \<Rightarrow> ie_split s (p + rt + 1) (result @ [take rt line])
           | None \<Rightarrow> ie_split s (nl + 1) (result @ [line])
      else result)"
  by pat_completeness auto
termination
proof (relation "measure (\<lambda>(s, p, r). Suc (length s) - p)", simp_all, goal_cases)
  case (1 s p)
  then show ?case
    by (cases "index_from (CHR 0x0A) p s") (auto simp: index_from_def dest!: find_from_Some)
qed

declare ie_split.simps [simp del]

definition splitLinesIE :: "jstring \<Rightarrow> jstring list" where
  "splitLinesIE s = ie_split s 0 []"

text \<open>\<open>editEnd\<close>: the loop compares the two strings from their ends; \<open>charAt\<close> past the end is the empty
  string, and the index \<open>j\<close> may reach -1.\<close>

function edit_end_loop :: "jstring \<Rightarrow> jstring \<Rightarrow> int \<Rightarrow> int \<Rightarrow> int" where
  "edit_end_loop f t i j =
     (if i \<ge> 0 \<and> j \<ge> 0 then
        if charAt f i \<noteq> charAt t j then j else edit_end_loop f t (i - 1) (j - 1)
      else j)"
  by pat_completeness auto
termination
  by (relation "measure (\<lambda>(f, t, i, j). nat (i + 1))") auto

declare edit_end_loop.simps [simp del]

definition editEnd :: "jstring \<Rightarrow> jstring \<Rightarrow> int" where
  "editEnd f t =
     (if t = [] then 0 else if f = [] then int (length t)
      else edit_end_loop f t (int (length f)) (int (length t)) + 1)"

end
