(* ===== verification/CM_Edits.thy ===== *)
theory CM_Edits
  imports CM_Editor Complex_Main
begin

section \<open>Edits of the document, the selection and undo\<close>

text \<open>
  \<open>updateLines\<close> and \<open>updateLinesNoUndo\<close>, the only ways the code changes the text, with everything
  they change: the tree, the marks, the history, the longest line, the frontier of the highlighter,
  the change log and the selection.  Then the operations on top of them: \<open>setValue\<close>,
  \<open>replaceRange\<close>, \<open>replaceSelection\<close>, \<open>undo\<close> and \<open>redo\<close>.
\<close>

subsection \<open>Marks and lines\<close>

text \<open>\<open>lines.splice(ix, 1)\<close> where \<open>ix\<close> is what \<open>indexOf\<close> returned: -1 removes the last element.\<close>

definition splice_index :: "nat option \<Rightarrow> 'a list \<Rightarrow> 'a list" where
  "splice_index ix xs = (case ix of None \<Rightarrow> butlast xs | Some i \<Rightarrow> splice_at i 1 [] xs)"

definition detachMarkedSpans :: "nat \<Rightarrow> span list option \<Rightarrow> (nat \<Rightarrow> marker) \<Rightarrow> nat \<Rightarrow> marker" where
  "detachMarkedSpans i spans mk =
     (case spans of None \<Rightarrow> mk
      | Some ss \<Rightarrow> fold (\<lambda>sp mk. let m = mk (smarker sp) in
          mk(smarker sp := m\<lparr>mlines := splice_index (index_of i (mlines m)) (mlines m)\<rparr>)) ss mk)"

definition attachMarkedSpans :: "nat \<Rightarrow> span list option \<Rightarrow> (nat \<Rightarrow> marker) \<Rightarrow> nat \<Rightarrow> marker" where
  "attachMarkedSpans i spans mk =
     (case spans of None \<Rightarrow> mk
      | Some ss \<Rightarrow> fold (\<lambda>sp mk. let m = mk (smarker sp) in
          mk(smarker sp := m\<lparr>mlines := mlines m @ [i]\<rparr>)) ss mk)"

text \<open>\<open>line.update(t, sp)\<close> on the line at \<open>n\<close>.\<close>

definition update_line :: "int \<Rightarrow> jstring \<Rightarrow> span list option \<Rightarrow> ('g, 's) editor \<Rightarrow> ('g, 's) editor" where
  "update_line n t sp ed =
     (case getLine ed n of
        None \<Rightarrow> ed
      | Some l \<Rightarrow> ed\<lparr>doc := map_line (nat n) (line_update t sp) (doc ed),
          markers := attachMarkedSpans (lid l) sp (detachMarkedSpans (lid l) (markedSpans l) (markers ed))\<rparr>)"

text \<open>\<open>added.push(new Line(hlText(h), hlSpans(h)))\<close>.\<close>

definition add_line :: "jstring \<Rightarrow> span list option \<Rightarrow> 's line list \<times> ('g, 's) editor \<Rightarrow> 's line list \<times> ('g, 's) editor" where
  "add_line t sp st = (case st of (added, ed) \<Rightarrow>
     (added @ [new_line (next_line ed) t sp],
      ed\<lparr>next_line := next_line ed + 1, markers := attachMarkedSpans (next_line ed) sp (markers ed)\<rparr>))"

definition add_lines :: "hl list \<Rightarrow> 's line list \<times> ('g, 's) editor \<Rightarrow> 's line list \<times> ('g, 's) editor" where
  "add_lines hs st = fold (\<lambda>h. add_line (hlText h) (hlSpans h)) hs st"

text \<open>\<open>doc.insert(at, added)\<close>, and \<open>doc.remove(at, n, callbacks)\<close> with the clean-up of the lines.\<close>

definition doc_insert :: "int \<Rightarrow> 's line list \<Rightarrow> ('g, 's) editor \<Rightarrow> ('g, 's) editor" where
  "doc_insert ix ls ed = ed\<lparr>doc := insert_lines (nat ix) ls (doc ed)\<rparr>"

definition doc_remove :: "int \<Rightarrow> int \<Rightarrow> ('g, 's) editor \<Rightarrow> ('g, 's) editor" where
  "doc_remove ix n ed =
     (let (doc', rem) = chunk_remove (nat ix) (nat n) (doc ed) in
      ed\<lparr>doc := doc',
         gone := map (\<lambda>l. l\<lparr>markedSpans := None\<rparr>) rem @ gone ed,
         markers := fold (\<lambda>l. detachMarkedSpans (lid l) (markedSpans l)) rem (markers ed),
         callbacks := callbacks ed @ concat (map lhandlers rem)\<rparr>)"

text \<open>A line object by its identity, in the document or removed from it.\<close>

definition line_obj :: "('g, 's) editor \<Rightarrow> nat \<Rightarrow> 's line option" where
  "line_obj ed i =
     (case lineNo i (doc ed) of
        Some n \<Rightarrow> getLineAt (doc ed) n
      | None \<Rightarrow> map_option (\<lambda>k. gone ed ! k) (index_of i (map lid (gone ed))))"

definition maxLineLength :: "('g, 's) editor \<Rightarrow> nat option" where
  "maxLineLength ed = map_option (length \<circ> ltext) (line_obj ed (maxLine ed))"

subsection \<open>The structural part of an edit\<close>

definition edit_lines :: "pos \<Rightarrow> pos \<Rightarrow> hl list \<Rightarrow> ('g, 's) editor \<Rightarrow> ('g, 's) editor option" where
  "edit_lines from to lines ed = do {
     firstLine \<leftarrow> getLine ed (pline from);
     lastLine \<leftarrow> getLine ed (pline to);
     lastHL \<leftarrow> lst lines;
     let nlines = pline to - pline from;
     let before = js_slice (ltext firstLine) 0 (pch from);
     let firstHL = hd lines;
     Some (
       if pch from = 0 \<and> pch to = 0 \<and> hlText lastHL = [] then
         let (added, ed1) = add_lines (butlast lines) ([], ed);
             ed2 = update_line (pline to) (ltext lastLine) (hlSpans lastHL) ed1;
             ed3 = (if nlines \<noteq> 0 then doc_remove (pline from) nlines ed2 else ed2)
         in if added \<noteq> [] then doc_insert (pline from) added ed3 else ed3
       else if lid firstLine = lid lastLine then
         if length lines = 1 then
           update_line (pline from) (before @ hlText firstHL @ js_slice_from (ltext firstLine) (pch to))
             (hlSpans firstHL) ed
         else
           let (added, ed1) = add_line (hlText lastHL @ js_slice_from (ltext firstLine) (pch to)) (hlSpans lastHL)
                 (add_lines (butlast (tl lines)) ([], ed));
               ed2 = update_line (pline from) (before @ hlText firstHL) (hlSpans firstHL) ed1
           in doc_insert (pline from + 1) added ed2
       else if length lines = 1 then
         doc_remove (pline from + 1) nlines
           (update_line (pline from) (before @ hlText firstHL @ js_slice_from (ltext lastLine) (pch to))
             (hlSpans firstHL) ed)
       else
         let ed1 = update_line (pline from) (before @ hlText firstHL) (hlSpans firstHL) ed;
             ed2 = update_line (pline to) (hlText lastHL @ js_slice_from (ltext lastLine) (pch to))
                     (hlSpans lastHL) ed1;
             (added, ed3) = add_lines (butlast (tl lines)) ([], ed2);
             ed4 = (if nlines > 1 then doc_remove (pline from + 1) (nlines - 1) ed3 else ed3)
         in doc_insert (pline from + 1) added ed4) }"

subsection \<open>The longest line and the wrapped heights\<close>

text \<open>The loop that looks for the longest line among the lines that may go.\<close>

definition touches_max :: "nat \<Rightarrow> int \<Rightarrow> int \<Rightarrow> ('g, 's) editor \<Rightarrow> bool" where
  "touches_max len f t ed =
     snd (doc_iter (nat f) (nat t)
       (\<lambda>l r. if \<not> lhidden l \<and> length (ltext l) = len then (True, True) else (False, r)) (doc ed) False)"

text \<open>The state of the loop over the new lines: the line, its length, whether it changed and whether
  the maximum has to be computed again.\<close>

fun grow_max :: "'s line list \<Rightarrow> nat \<times> nat \<times> bool \<times> bool \<Rightarrow> nat \<times> nat \<times> bool \<times> bool" where
  "grow_max [] st = st"
| "grow_max (l # ls) (i, len, changed, recompute) =
     grow_max ls (if \<not> lhidden l \<and> length (ltext l) > len then (lid l, length (ltext l), True, False)
                  else (i, len, changed, recompute))"

definition wrap_guess :: "rat \<Rightarrow> nat \<Rightarrow> int" where
  "wrap_guess perLine len = (let g = \<lceil>of_nat len / perLine\<rceil> in if g = 0 then 1 else g)"

definition per_line :: "screen \<Rightarrow> rat" where
  "per_line s = of_nat (clientWidth s) / of_nat (charWidth s) - 3"

definition set_height :: "nat \<Rightarrow> int \<Rightarrow> ('g, 's) editor \<Rightarrow> ('g, 's) editor" where
  "set_height n h ed = ed\<lparr>gutterDirty := True, doc := updateLineHeight n h (doc ed)\<rparr>"

definition rewrap_line :: "rat \<Rightarrow> nat \<Rightarrow> ('g, 's) editor \<Rightarrow> ('g, 's) editor" where
  "rewrap_line perLine n ed =
     (case getLine ed (int n) of
        None \<Rightarrow> ed
      | Some l \<Rightarrow>
          if lhidden l then ed
          else let g = wrap_guess perLine (length (ltext l)) in if g \<noteq> lheight l then set_height n g ed else ed)"

definition startWorker :: "nat \<Rightarrow> ('g, 's) editor \<Rightarrow> ('g, 's) editor" where
  "startWorker time ed = (if frontier ed < showingTo ed then ed\<lparr>worker := Some time\<rparr> else ed)"

subsection \<open>The selection\<close>

function next_visible :: "('g, 's) editor \<Rightarrow> int \<Rightarrow> (int \<times> 's line) option" where
  "next_visible ed n =
     (if n < doc_size ed then
        case getLine ed n of None \<Rightarrow> None
        | Some l \<Rightarrow> if \<not> lhidden l then Some (n, l) else next_visible ed (n + 1)
      else None)"
  by pat_completeness auto
termination
  by (relation "measure (\<lambda>(ed, n). nat (doc_size ed - n))") auto

function prev_visible :: "('g, 's) editor \<Rightarrow> int \<Rightarrow> (int \<times> 's line) option" where
  "prev_visible ed n =
     (if n \<ge> 0 then
        case getLine ed n of None \<Rightarrow> None
        | Some l \<Rightarrow> if \<not> lhidden l then Some (n, l) else prev_visible ed (n - 1)
      else None)"
  by pat_completeness auto
termination
  by (relation "measure (\<lambda>(ed, n). nat (n + 1))") auto

declare next_visible.simps [simp del] prev_visible.simps [simp del]

text \<open>\<open>skipHidden\<close>: the inner \<open>None\<close> is the code's \<open>undefined\<close>, every line being hidden.\<close>

definition skipHidden :: "('g, 's) editor \<Rightarrow> pos \<Rightarrow> int \<Rightarrow> int \<Rightarrow> pos option option" where
  "skipHidden ed p oldLine oldCh = do {
     line \<leftarrow> getLine ed (pline p);
     let toEnd = (pch p = int (length (ltext line)) \<and> pch p \<noteq> oldCh);
     let place = (\<lambda>(no, l). let len = int (length (ltext l)) in
           Pos no (if toEnd \<or> pch p > oldCh \<or> pch p > len then len else pch p));
     let forward = map_option place (next_visible ed (pline p + 1));
     let backward = map_option place (prev_visible ed (pline p - 1));
     Some (if \<not> lhidden line then Some p
           else if pline p \<ge> oldLine then (if forward \<noteq> None then forward else backward)
           else if backward \<noteq> None then backward else forward) }"

text \<open>What \<open>setLineHidden\<close> does to the line itself, and the call that shows a line.\<close>

definition set_hidden :: "nat \<Rightarrow> 's line \<Rightarrow> bool \<Rightarrow> ('g, 's) editor \<Rightarrow> ('g, 's) editor option" where
  "set_hidden n l hidden ed = do {
     let ed1 = ed\<lparr>doc := map_line n (\<lambda>x. x\<lparr>lhidden := hidden, lhiddenSet := True\<rparr>) (doc ed)\<rparr>;
     ed2 \<leftarrow> (if lineWrapping (options ed) then Some ed1
             else do {
               len \<leftarrow> maxLineLength ed1;
               Some (if hidden \<and> length (ltext l) = len then ed1\<lparr>updateMaxLine := True\<rparr>
                     else if \<not> hidden \<and> length (ltext l) > len
                     then ed1\<lparr>maxLine := lid l, updateMaxLine := False\<rparr> else ed1) });
     Some (set_height n (if hidden then 0 else 1) ed2) }"

definition push_change :: "int \<Rightarrow> int \<Rightarrow> int \<Rightarrow> ('g, 's) editor \<Rightarrow> ('g, 's) editor" where
  "push_change f t d ed = ed\<lparr>changes := changes ed @ [\<lparr>chfrom = f, chto = t, chdiff = d\<rparr>]\<rparr>"

definition show_line :: "int \<Rightarrow> ('g, 's) editor \<Rightarrow> ('g, 's) editor option" where
  "show_line no ed = do {
     let n = clipLine ed no;
     l \<leftarrow> getLine ed n;
     if lhiddenSet l \<and> \<not> lhidden l then Some ed
     else do {
       ed1 \<leftarrow> set_hidden (nat n) l False ed;
       Some (push_change no (no + 1) 0 (ed1\<lparr>gutterDirty := True\<rparr>)) } }"

definition blank_text :: "jstring \<Rightarrow> bool" where
  "blank_text t \<longleftrightarrow> t \<noteq> [] \<and> list_all re_space t"

definition autoClear :: "pos \<Rightarrow> pos \<Rightarrow> ('g, 's) editor \<Rightarrow> ('g, 's) editor option" where
  "autoClear from to ed =
     (if autoClearEmptyLines (options ed) \<and> sel_from ed = sel_to ed then
        let head = (if sel_inverted ed then from else to) in
        if pline head \<noteq> pline (sel_from ed) \<and> pline (sel_from ed) < doc_size ed then do {
          oldLine \<leftarrow> getLine ed (pline (sel_from ed));
          Some (if blank_text (ltext oldLine) then ed\<lparr>timers := timers ed @ [ClearEmptyLine (lid oldLine)]\<rparr> else ed) }
        else Some ed
      else Some ed)"

definition set_inverted :: "pos \<Rightarrow> pos \<Rightarrow> ('g, 's) editor \<Rightarrow> ('g, 's) editor" where
  "set_inverted from to ed =
     (if posEq from to then ed\<lparr>sel_inverted := False\<rparr>
      else if posEq from (sel_to ed) then ed\<lparr>sel_inverted := False\<rparr>
      else if posEq to (sel_from ed) then ed\<lparr>sel_inverted := True\<rparr> else ed)"

definition setSelection :: "pos \<Rightarrow> pos \<Rightarrow> (int \<times> int) option \<Rightarrow> ('g, 's) editor \<Rightarrow> ('g, 's) editor option" where
  "setSelection from0 to0 old ed0 =
     (let ed = ed0\<lparr>goalColumn := None\<rparr>;
          (oldFrom, oldTo) = (case old of None \<Rightarrow> (pline (sel_from ed), pline (sel_to ed)) | Some ot \<Rightarrow> ot)
      in if posEq (sel_from ed) from0 \<and> posEq (sel_to ed) to0 then Some ed
      else do {
        let (from, to) = (if posLess to0 from0 then (to0, from0) else (from0, to0));
        (ed1, from1) \<leftarrow>
          (if pline from \<noteq> oldFrom then do {
             r \<leftarrow> skipHidden ed from oldFrom (pch (sel_from ed));
             case r of None \<Rightarrow> map_option (\<lambda>e. (e, from)) (show_line (pline from) ed) | Some p \<Rightarrow> Some (ed, p) }
           else Some (ed, from));
        to1 \<leftarrow> (if pline to \<noteq> oldTo then Option.bind (skipHidden ed1 to oldTo (pch (sel_to ed1))) (\<lambda>r. r) else Some to);
        ed3 \<leftarrow> autoClear from1 to1 (set_inverted from1 to1 ed1);
        Some (ed3\<lparr>sel_from := from1, sel_to := to1, selectionChanged := True\<rparr>) })"

definition setSelectionUser :: "pos \<Rightarrow> pos \<Rightarrow> ('g, 's) editor \<Rightarrow> ('g, 's) editor option" where
  "setSelectionUser from to ed = do {
     sh \<leftarrow> (case shiftSelecting ed of None \<Rightarrow> Some None | Some p \<Rightarrow> map_option Some (clip ed p));
     let (from1, to1) = (case sh of None \<Rightarrow> (from, to)
        | Some s \<Rightarrow> if posLess s from then (s, to) else if posLess to s then (from, s) else (from, to));
     ed1 \<leftarrow> setSelection from1 to1 None ed;
     Some (ed1\<lparr>userSelChange := True\<rparr>) }"

definition setShift :: "bool \<Rightarrow> ('g, 's) editor \<Rightarrow> ('g, 's) editor" where
  "setShift v ed =
     (if v then ed\<lparr>shiftSelecting := (case shiftSelecting ed of
          Some p \<Rightarrow> Some p | None \<Rightarrow> Some (if sel_inverted ed then sel_to ed else sel_from ed))\<rparr>
      else ed\<lparr>shiftSelecting := None\<rparr>)"

definition setCursor :: "int \<Rightarrow> int option \<Rightarrow> bool \<Rightarrow> ('g, 's) editor \<Rightarrow> ('g, 's) editor option" where
  "setCursor line ch user ed = do {
     p \<leftarrow> clipPos ed line (Some (case ch of None \<Rightarrow> 0 | Some c \<Rightarrow> c));
     if user then setSelectionUser p p ed else setSelection p p None ed }"

text \<open>
  \<open>setLineHidden\<close> through \<open>changeLine\<close>: the flag tells whether the line is returned, \<open>null\<close> otherwise.
  \<open>undefined\<close> from \<open>skipHidden\<close> is the inner \<open>None\<close>.  The property \<open>hidden\<close> of a line that was never hidden or
  shown is \<open>undefined\<close>, which differs from \<open>true\<close> and from \<open>false\<close>.
\<close>

definition setLineHidden :: "int \<Rightarrow> bool \<Rightarrow> ('g, 's) editor \<Rightarrow> (('g, 's) editor \<times> bool) option" where
  "setLineHidden no hidden ed = do {
     let n = clipLine ed no;
     l \<leftarrow> getLine ed n;
     if lhiddenSet l \<and> lhidden l = hidden then Some (ed, False)
     else do {
       ed1 \<leftarrow> set_hidden (nat n) l hidden ed;
       let fline = pline (sel_from ed1);
       let tline = pline (sel_to ed1);
       if hidden \<and> (fline = no \<or> tline = no) then do {
         f \<leftarrow> (if fline = no then skipHidden ed1 (Pos fline 0) fline 0 else Some (Some (sel_from ed1)));
         t \<leftarrow> (if tline = no then skipHidden ed1 (Pos tline 0) tline 0 else Some (Some (sel_to ed1)));
         case t of None \<Rightarrow> Some (ed1, False)
         | Some t' \<Rightarrow> do {
             f' \<leftarrow> f;
             ed2 \<leftarrow> setSelection f' t' None ed1;
             Some (push_change no (no + 1) 0 (ed2\<lparr>gutterDirty := True\<rparr>), True) } }
       else Some (push_change no (no + 1) 0 (ed1\<lparr>gutterDirty := True\<rparr>), True) } }"


subsection \<open>\<open>updateLines\<close>\<close>

text \<open>After the change of structure: wrapped heights, or the longest line.\<close>

definition fix_widths :: "int \<Rightarrow> nat \<Rightarrow> nat \<Rightarrow> bool \<Rightarrow> ('g, 's) editor \<Rightarrow> ('g, 's) editor" where
  "fix_widths f n maxLen recompute ed =
     (if lineWrapping (options ed) then
        fold (rewrap_line (max 5 (per_line (screen ed)))) [nat f ..< nat f + n] ed
      else
        let (i, len, changed, rc) = grow_max (iter_list ed f (f + int n)) (maxLine ed, maxLen, False, recompute);
            ed1 = (if changed then ed\<lparr>maxLine := i, maxLineChanged := True\<rparr> else ed)
        in if rc then ed1\<lparr>updateMaxLine := True\<rparr> else ed1)"

text \<open>\<open>changes.push\<close> and the linked list of change objects that \<open>onChange\<close> gets.\<close>

definition log_change :: "pos \<Rightarrow> pos \<Rightarrow> hl list \<Rightarrow> ('g, 's) editor \<Rightarrow> ('g, 's) editor" where
  "log_change from to lines ed =
     (let lendiff = int (length lines) - (pline to - pline from) - 1;
          ed1 = push_change (pline from) (pline to + 1) lendiff ed
      in if onChange (options ed)
         then ed1\<lparr>textChanged := textChanged ed1 @ [\<lparr>cofrom = from, coto = to, cotext = map hlText lines\<rparr>]\<rparr>
         else ed1)"

definition shift_line :: "pos \<Rightarrow> int \<Rightarrow> int \<Rightarrow> int" where
  "shift_line to lendiff n = (if n \<le> min (pline to) (pline to + lendiff) then n else n + lendiff)"

definition dirty_gutter :: "pos \<Rightarrow> pos \<Rightarrow> hl list \<Rightarrow> ('g, 's) editor \<Rightarrow> ('g, 's) editor" where
  "dirty_gutter from to lines ed =
     (if pline from \<noteq> pline to \<or> length lines > 1 then ed\<lparr>gutterDirty := True\<rparr> else ed)"

definition after_edit :: "pos \<Rightarrow> pos \<Rightarrow> hl list \<Rightarrow> nat \<Rightarrow> bool \<Rightarrow> ('g, 's) editor \<Rightarrow> ('g, 's) editor" where
  "after_edit from to lines maxLen recompute ed =
     (let ed1 = fix_widths (pline from) (length lines) maxLen recompute ed
      in log_change from to lines
           (startWorker 400 (ed1\<lparr>frontier := min (frontier ed1) (nat (pline from))\<rparr>)))"

definition updateLinesNoUndo ::
    "pos \<Rightarrow> pos \<Rightarrow> hl list \<Rightarrow> pos \<Rightarrow> pos \<Rightarrow> ('g, 's) editor \<Rightarrow> ('g, 's) editor option" where
  "updateLinesNoUndo from to lines selFrom selTo ed =
     (if suppressEdits ed then Some ed
      else do {
        maxLen \<leftarrow> maxLineLength ed;
        let recompute = (\<not> lineWrapping (options ed) \<and> touches_max maxLen (pline from) (pline to + 1) ed);
        ed2 \<leftarrow> edit_lines from to lines (dirty_gutter from to lines ed);
        let ed5 = after_edit from to lines maxLen recompute ed2;
        let lendiff = int (length lines) - (pline to - pline from) - 1;
        p \<leftarrow> clip ed5 selFrom;
        q \<leftarrow> clip ed5 selTo;
        setSelection p q
          (Some (shift_line to lendiff (pline (sel_from ed5)), shift_line to lendiff (pline (sel_to ed5)))) ed5 })"

text \<open>\<open>hlSpans(undefined)\<close> raises a \<open>TypeError\<close>, as on an empty range of lines.\<close>

definition record_change :: "pos \<Rightarrow> nat \<Rightarrow> hl list \<Rightarrow> ('g, 's) editor \<Rightarrow> ('g, 's) editor" where
  "record_change from n old ed =
     ed\<lparr>history := map_option (\<lambda>h. trim_depth (undoDepth (options ed))
        (addChange (clock ed) (pline from) (int n) old h)) (history ed)\<rparr>"

definition updateLines ::
    "pos \<Rightarrow> pos \<Rightarrow> jstring list \<Rightarrow> pos \<Rightarrow> pos \<Rightarrow> ('g, 's) editor \<Rightarrow> ('g, 's) editor option" where
  "updateLines from to newText selFrom selTo ed =
     (if suppressEdits ed then Some ed
      else let old = map line_hl (iter_list ed (pline from) (pline to + 1)) in
        if old = [] then None
        else updateLinesNoUndo from to
               (updateMarkedSpans (markers ed) (hlSpans (hd old)) (hlSpans (last old)) (pch from) (pch to) newText)
               selFrom selTo (record_change from (length newText) old ed))"

definition setValue :: "jstring \<Rightarrow> ('g, 's) editor \<Rightarrow> ('g, 's) editor option" where
  "setValue txt ed = do {
     t \<leftarrow> line_text ed (doc_size ed - 1);
     ed1 \<leftarrow> updateLines (Pos 0 0) (Pos (doc_size ed - 1) (int (length t))) (splitLines txt) (Pos 0 0) (Pos 0 0) ed;
     Some (ed1\<lparr>updateInput := Some True\<rparr>) }"

text \<open>\<open>replaceRange1\<close>; \<open>computeSel\<close> maps the end of the inserted text to the new selection.\<close>

definition code_end :: "jstring list \<Rightarrow> pos \<Rightarrow> pos" where
  "code_end ls from = Pos (pline from + int (length ls) - 1)
     (if length ls = 1 then int (length (hd ls)) + pch from else int (length (last ls)))"

definition replaceRange1 ::
    "jstring list \<Rightarrow> pos \<Rightarrow> pos \<Rightarrow> (pos \<Rightarrow> pos \<times> pos) \<Rightarrow> ('g, 's) editor \<Rightarrow> ('g, 's) editor option" where
  "replaceRange1 ls from to computeSel ed =
     (let (sf, st) = computeSel (code_end ls from) in updateLines from to ls sf st ed)"

definition adjustPos :: "jstring list \<Rightarrow> pos \<Rightarrow> pos \<Rightarrow> pos \<Rightarrow> pos \<Rightarrow> pos" where
  "adjustPos ls from to end1 p =
     (if posLess p from then p
      else if \<not> posLess to p then end1
      else Pos (pline p + int (length ls) - (pline to - pline from) - 1)
             (if pline p = pline to
              then pch p + (int (length (last ls)) - (pch to - (if pline to = pline from then pch from else 0)))
              else pch p))"

definition replaceRange :: "jstring \<Rightarrow> pos \<Rightarrow> pos option \<Rightarrow> ('g, 's) editor \<Rightarrow> (('g, 's) editor \<times> pos) option" where
  "replaceRange txt from0 to0 ed = do {
     from \<leftarrow> clip ed from0;
     to \<leftarrow> (case to0 of None \<Rightarrow> Some from | Some p \<Rightarrow> clip ed p);
     let ls = splitLines txt;
     ed1 \<leftarrow> replaceRange1 ls from to
       (\<lambda>end1. (adjustPos ls from to end1 (sel_from ed), adjustPos ls from to end1 (sel_to ed))) ed;
     Some (ed1, code_end ls from) }"

datatype collapse_to = CollapseEnd | CollapseStart | NoCollapse

definition replaceSelection :: "jstring \<Rightarrow> collapse_to \<Rightarrow> ('g, 's) editor \<Rightarrow> ('g, 's) editor option" where
  "replaceSelection txt c ed =
     replaceRange1 (splitLines txt) (sel_from ed) (sel_to ed)
       (\<lambda>e. case c of CollapseEnd \<Rightarrow> (e, e) | CollapseStart \<Rightarrow> (sel_from ed, sel_from ed)
                    | NoCollapse \<Rightarrow> (sel_from ed, e)) ed"

subsection \<open>Undo and redo\<close>

definition unredo_change :: "hl change \<Rightarrow> ('g, 's) editor \<Rightarrow> (hl change \<times> ('g, 's) editor) option" where
  "unredo_change c ed = do {
     let end1 = cstart c + cadded c;
     let replaced = map line_hl (iter_list ed (cstart c) end1);
     r \<leftarrow> lst replaced;
     o1 \<leftarrow> lst (cold c);
     let p = Pos (cstart c + int (length (cold c)) - 1) (editEnd (hlText r) (hlText o1));
     t \<leftarrow> line_text ed (end1 - 1);
     ed1 \<leftarrow> updateLinesNoUndo (Pos (cstart c) 0) (Pos (end1 - 1) (int (length t))) (cold c) p p ed;
     Some (\<lparr>cstart = cstart c, cadded = int (length (cold c)), cold = replaced\<rparr>, ed1) }"

fun unredo_changes :: "hl change list \<Rightarrow> hl change list \<Rightarrow> ('g, 's) editor \<Rightarrow> (hl change list \<times> ('g, 's) editor) option" where
  "unredo_changes [] out ed = Some (out, ed)"
| "unredo_changes (c # cs) out ed = do {
     (c', ed1) \<leftarrow> unredo_change c ed;
     unredo_changes cs (out @ [c']) ed1 }"

definition undo :: "('g, 's) editor \<Rightarrow> ('g, 's) editor option" where
  "undo ed = do {
     h \<leftarrow> history ed;
     if hdone h = [] then Some ed
     else do {
       (out, ed1) \<leftarrow> unredo_changes (rev (last (hdone h))) []
         (ed\<lparr>history := Some (h\<lparr>hdone := butlast (hdone h)\<rparr>)\<rparr>);
       Some (ed1\<lparr>updateInput := Some True,
         history := map_option (\<lambda>h. h\<lparr>hundone := hundone h @ [out]\<rparr>) (history ed1)\<rparr>) } }"

definition redo :: "('g, 's) editor \<Rightarrow> ('g, 's) editor option" where
  "redo ed = do {
     h \<leftarrow> history ed;
     if hundone h = [] then Some ed
     else do {
       (out, ed1) \<leftarrow> unredo_changes (rev (last (hundone h))) []
         (ed\<lparr>history := Some (h\<lparr>hundone := butlast (hundone h)\<rparr>)\<rparr>);
       Some (ed1\<lparr>updateInput := Some True,
         history := map_option (\<lambda>h. h\<lparr>hdone := hdone h @ [out]\<rparr>) (history ed1)\<rparr>) } }"

subsection \<open>The longest line, recomputed\<close>

definition computeMaxLength :: "('g, 's) editor \<Rightarrow> ('g, 's) editor option" where
  "computeMaxLength ed = do {
     l0 \<leftarrow> getLine ed 0;
     let (i, len, changed, rc) = grow_max (iter_list ed 1 (doc_size ed)) (lid l0, length (ltext l0), False, False);
     Some (ed\<lparr>maxLine := i, maxLineChanged := True, updateMaxLine := False\<rparr>) }"

end
