(* ===== verification/CM_Edits_Laws.thy ===== *)
theory CM_Edits_Laws
  imports CM_Edits
begin

section \<open>What the edits do to the text, and that they keep the editor well formed\<close>

text \<open>
  The text of the editor is the list of the texts of its lines.  An edit replaces the lines from the
  one of \<open>from\<close> to the one of \<open>to\<close> by the new ones, the first and the last joined to what is left of
  the lines they meet (\<open>text_edit\<close>).  The lemmas on \<open>edit_lines\<close> go through the five cases of the code.
\<close>

abbreviation lines :: "('g, 's) editor \<Rightarrow> 's line list" where
  "lines ed \<equiv> collapse (doc ed)"

definition texts :: "('g, 's) editor \<Rightarrow> jstring list" where
  "texts ed = map ltext (lines ed)"

abbreviation ids :: "('g, 's) editor \<Rightarrow> nat list" where
  "ids ed \<equiv> map lid (lines ed)"

definition known :: "('g, 's) editor \<Rightarrow> nat set" where
  "known ed = set (ids ed) \<union> lid ` set (gone ed)"

definition pos_ok :: "jstring list \<Rightarrow> pos \<Rightarrow> bool" where
  "pos_ok d p \<longleftrightarrow> 0 \<le> pline p \<and> pline p < int (length d) \<and> 0 \<le> pch p \<and> pch p \<le> int (length (d ! nat (pline p)))"

definition joined :: "jstring \<Rightarrow> jstring list \<Rightarrow> jstring \<Rightarrow> jstring list" where
  "joined pre ls post =
     (if length ls = 1 then [pre @ hd ls @ post] else (pre @ hd ls) # butlast (tl ls) @ [last ls @ post])"

definition text_edit :: "pos \<Rightarrow> pos \<Rightarrow> jstring list \<Rightarrow> jstring list \<Rightarrow> jstring list" where
  "text_edit from to ls d =
     splice_at (nat (pline from)) (nat (pline to - pline from) + 1)
       (joined (take (nat (pch from)) (d ! nat (pline from))) ls (drop (nat (pch to)) (d ! nat (pline to)))) d"

lemma length_joined: "ls \<noteq> [] \<Longrightarrow> length (joined pre ls post) = length ls"
  by (cases ls) (auto simp: joined_def)

subsection \<open>Well-formed structure\<close>

text \<open>\<open>k\<close> bounds the identities in use; lines with larger ones are made but not inserted yet.\<close>

definition struct_ok :: "nat \<Rightarrow> ('g, 's) editor \<Rightarrow> bool" where
  "struct_ok k ed \<longleftrightarrow> doc_ok (doc ed) \<and> distinct (ids ed) \<and> known ed \<subseteq> {..<k} \<and> k \<le> next_line ed \<and> nonneg (lines ed)"

definition evolves :: "('g, 's) editor \<Rightarrow> ('g, 's) editor \<Rightarrow> bool" where
  "evolves ed ed' \<longleftrightarrow> (\<exists>d g m n c.
     ed' = ed\<lparr>doc := d, gone := g, markers := m, next_line := n, callbacks := c\<rparr>) \<and> known ed \<subseteq> known ed'"

lemma evolves_refl [simp]: "evolves ed ed"
  unfolding evolves_def by (rule conjI, (rule exI)+, rule editor.equality) auto

lemma evolvesI:
  "ed' = ed\<lparr>doc := doc ed', gone := gone ed', markers := markers ed', next_line := next_line ed',
     callbacks := callbacks ed'\<rparr> \<Longrightarrow> known ed \<subseteq> known ed' \<Longrightarrow> evolves ed ed'"
  unfolding evolves_def by blast

lemma evolves_trans: "evolves a b \<Longrightarrow> evolves b c \<Longrightarrow> evolves a c"
  unfolding evolves_def by (elim exE conjE) (simp, fast)

lemma evolves_fields:
  assumes "evolves ed ed'"
  shows "options ed' = options ed" "screen ed' = screen ed" "clock ed' = clock ed" "history ed' = history ed"
    "sel_from ed' = sel_from ed" "sel_to ed' = sel_to ed" "sel_inverted ed' = sel_inverted ed"
    "suppressEdits ed' = suppressEdits ed" "maxLine ed' = maxLine ed" "frontier ed' = frontier ed"
    "showingFrom ed' = showingFrom ed" "showingTo ed' = showingTo ed" "changes ed' = changes ed"
    "textChanged ed' = textChanged ed" "shiftSelecting ed' = shiftSelecting ed" "updateMaxLine ed' = updateMaxLine ed"
    "mode ed' = mode ed" "mode_env ed' = mode_env ed" "next_marker ed' = next_marker ed"
    "gutterDirty ed' = gutterDirty ed" "maxLineChanged ed' = maxLineChanged ed"
  using assms unfolding evolves_def by auto

lemma doc_size_lines: "doc_ok (doc ed) \<Longrightarrow> doc_size ed = int (length (lines ed))"
  by (simp add: doc_size_def doc_ok_def chunkSize_collapse)

lemma getLine_lines:
  "doc_ok (doc ed) \<Longrightarrow> getLine ed n = (if 0 \<le> n \<and> n < int (length (lines ed)) then Some (lines ed ! nat n) else None)"
  by (auto simp: getLine_def getLineAt_collapse)

lemma line_text_texts:
  "doc_ok (doc ed) \<Longrightarrow> line_text ed n = (if 0 \<le> n \<and> n < int (length (texts ed)) then Some (texts ed ! nat n) else None)"
  by (auto simp: line_text_def getLine_lines texts_def)

lemma iter_lines_collect: "iter_lines (\<lambda>l acc. (False, acc @ [l])) ls acc = (False, acc @ ls)"
  by (induction ls arbitrary: acc) auto

lemma iter_list_lines:
  "doc_ok (doc ed) \<Longrightarrow> iter_list ed f t = take (nat t - nat f) (drop (nat f) (lines ed))"
  by (simp add: iter_list_def doc_iter_collapse iter_lines_collect)

subsection \<open>The primitive steps\<close>

lemma update_line_ok:
  assumes ok: "struct_ok k ed" and n: "0 \<le> n" "n < int (length (lines ed))"
  and ed'_def: "ed' = update_line n t sp ed"
  shows "struct_ok k ed'" "evolves ed ed'" "lines ed' = (lines ed)[nat n := line_update t sp (lines ed ! nat n)]"
    "next_line ed' = next_line ed"
proof -
  have d: "doc_ok (doc ed)" and n': "nat n < length (lines ed)"
    using ok n by (auto simp: struct_ok_def)
  have eq: "ed' = ed\<lparr>doc := map_line (nat n) (line_update t sp) (doc ed),
      markers := attachMarkedSpans (lid (lines ed ! nat n)) sp
        (detachMarkedSpans (lid (lines ed ! nat n)) (markedSpans (lines ed ! nat n)) (markers ed))\<rparr>"
    using n by (simp add: ed'_def update_line_def getLine_lines [OF d])
  show l: "lines ed' = (lines ed)[nat n := line_update t sp (lines ed ! nat n)]"
    using d n' by (simp add: eq map_line_collapse)
  have i: "ids ed' = ids ed"
    using n' unfolding l map_update by (simp, metis list_update_id nth_map)
  then have kn: "known ed' = known ed" by (simp add: known_def eq)
  have "nonneg (lines ed')"
    using ok nth_mem [OF n'] set_update_subset_insert [of "lines ed" "nat n" "line_update t sp (lines ed ! nat n)"]
    unfolding l nonneg_def struct_ok_def by auto
  with ok i kn d n' show "struct_ok k ed'"
    by (simp add: struct_ok_def eq map_line_ok)
  show "evolves ed ed'" 
    by (rule evolvesI, rule editor.equality) (use kn in \<open>auto simp: eq\<close>)
  show "next_line ed' = next_line ed" by (simp add: eq)
qed

lemma doc_remove_ok:
  assumes ok: "struct_ok k ed" and n: "0 \<le> i" "0 \<le> n" "i + n \<le> int (length (lines ed))"
  and ed'_def: "ed' = doc_remove i n ed"
  shows "struct_ok k ed'" "evolves ed ed'" "lines ed' = splice_at (nat i) (nat n) [] (lines ed)"
    "next_line ed' = next_line ed"
proof -
  have d: "doc_ok (doc ed)" and n': "nat i + nat n \<le> length (lines ed)"
    using ok n by (auto simp: struct_ok_def)
  obtain dc rem where r: "chunk_remove (nat i) (nat n) (doc ed) = (dc, rem)" by fastforce
  have dc: "collapse dc = splice_at (nat i) (nat n) [] (lines ed)" "rem = take (nat n) (drop (nat i) (lines ed))"
    and dok: "doc_ok dc"
    using chunk_remove_collapse [OF d n'] chunk_remove_ok [OF d n'] r by simp_all
  have eq: "ed' = ed\<lparr>doc := dc, gone := map (\<lambda>l. l\<lparr>markedSpans := None\<rparr>) rem @ gone ed,
      markers := fold (\<lambda>l. detachMarkedSpans (lid l) (markedSpans l)) rem (markers ed),
      callbacks := callbacks ed @ concat (map lhandlers rem)\<rparr>"
    by (simp add: ed'_def doc_remove_def r)
  show l: "lines ed' = splice_at (nat i) (nat n) [] (lines ed)" by (simp add: eq dc)
  have split: "lines ed = take (nat i) (lines ed) @ rem @ drop (nat i + nat n) (lines ed)"
    by (metis append_take_drop_id dc(2) drop_drop add.commute)
  have st: "set (lines ed) = set (lines ed') \<union> set rem"
    using arg_cong [OF split, of set] by (auto simp: eq dc(1) splice_at_def)
  have gn: "gone ed' = map (\<lambda>l. l\<lparr>markedSpans := None\<rparr>) rem @ gone ed" by (simp add: eq)
  have kn: "known ed' = known ed"
    unfolding known_def gn set_map st by (auto simp: image_Un image_image)
  have "distinct (ids ed')"
    using ok unfolding struct_ok_def l by (subst (asm) (1) split) (auto simp: splice_at_def)
  moreover have "nonneg (lines ed')"
    using ok st by (auto simp: struct_ok_def nonneg_def)
  ultimately show "struct_ok k ed'" using ok kn dok by (simp add: struct_ok_def eq)
  show "evolves ed ed'" 
    by (rule evolvesI, rule editor.equality) (use kn in \<open>auto simp: eq\<close>)
  show "next_line ed' = next_line ed" by (simp add: eq)
qed

lemma doc_insert_ok:
  assumes ok: "struct_ok k ed" and n: "0 \<le> i" "i \<le> int (length (lines ed))"
    and ls: "map lid ls = [k ..< next_line ed]" "nonneg ls"
  and ed'_def: "ed' = doc_insert i ls ed"
  shows "struct_ok (next_line ed') ed'" "evolves ed ed'" "lines ed' = splice_at (nat i) 0 ls (lines ed)"
proof -
  have d: "doc_ok (doc ed)" and n': "nat i \<le> length (lines ed)"
    using ok n by (auto simp: struct_ok_def)
  have eq: "ed' = ed\<lparr>doc := insert_lines (nat i) ls (doc ed)\<rparr>" by (simp add: ed'_def doc_insert_def)
  show l: "lines ed' = splice_at (nat i) 0 ls (lines ed)" by (simp add: eq insert_lines_collapse [OF d n'])
  have st: "set (lines ed') = set ls \<union> set (lines ed)"
    using set_append [of "take (nat i) (lines ed)" "drop (nat i) (lines ed)"]
    by (auto simp: l splice_at_def)
  have lsid: "lid ` set ls = {k ..< next_line ed}" using ls(1) by (metis set_map set_upt)
  have kn: "known ed' = {k ..< next_line ed} \<union> known ed"
    by (auto simp: known_def st image_Un lsid) (simp_all add: eq)
  let ?a = "map lid (take (nat i) (lines ed))" and ?b = "map lid (drop (nat i) (lines ed))"
  have ab: "ids ed = ?a @ ?b" by (simp flip: map_append)
  then have "distinct (?a @ ?b)" "set (?a @ ?b) \<subseteq> {..<k}"
    using ok by (simp_all add: struct_ok_def known_def)
  moreover have "ids ed' = ?a @ [k ..< next_line ed] @ ?b" by (simp add: l splice_at_def ls(1))
  ultimately have "distinct (ids ed')" by auto
  moreover have "nonneg (lines ed')" using ok ls(2) st by (auto simp: struct_ok_def nonneg_def)
  ultimately show "struct_ok (next_line ed') ed'"
    using ok kn insert_lines_ok [OF d n', of ls] by (auto simp: struct_ok_def eq)
  show "evolves ed ed'" 
    by (rule evolvesI, rule editor.equality) (use kn in \<open>auto simp: eq\<close>)
qed

lemma add_lines_spec:
  "\<exists>m. add_lines hs (acc, ed) =
     (acc @ map (\<lambda>(i, h). new_line i (hlText h) (hlSpans h)) (zip [next_line ed ..< next_line ed + length hs] hs),
      ed\<lparr>next_line := next_line ed + length hs, markers := m\<rparr>)"
proof (induction hs arbitrary: acc ed)
  case (Cons h hs)
  show ?case
    using Cons.IH [of "acc @ [new_line (next_line ed) (hlText h) (hlSpans h)]"
        "ed\<lparr>next_line := next_line ed + 1, markers := attachMarkedSpans (next_line ed) (hlSpans h) (markers ed)\<rparr>"]
    by (auto simp: add_lines_def add_line_def upt_conv_Cons simp del: upt_Suc)
next
  case Nil
  show ?case by (rule exI [of _ "markers ed"]) (simp add: add_lines_def)
qed


subsection \<open>The five cases of an edit\<close>

text \<open>The steps at the level of texts, and what they keep about hidden lines.\<close>

definition all_visible :: "('g, 's) editor \<Rightarrow> bool" where
  "all_visible ed \<longleftrightarrow> (\<forall>l \<in> set (lines ed). \<not> lhidden l)"

lemma texts_update:
  assumes "struct_ok k ed" "a < length (texts ed)"
  shows "texts (update_line (int a) t sp ed) = (texts ed)[a := t]"
    "all_visible ed \<Longrightarrow> all_visible (update_line (int a) t sp ed)"
proof -
  have l: "lines (update_line (int a) t sp ed) = (lines ed)[a := line_update t sp (lines ed ! a)]"
    using update_line_ok(3) [OF assms(1) _ _ refl, of "int a"] assms(2) by (simp add: texts_def)
  then show "texts (update_line (int a) t sp ed) = (texts ed)[a := t]"
    by (simp add: texts_def map_update)
  show "all_visible ed \<Longrightarrow> all_visible (update_line (int a) t sp ed)"
    using l assms(2) nth_mem [of a "lines ed"] set_update_subset_insert [of "lines ed" a "line_update t sp (lines ed ! a)"]
    by (auto simp: all_visible_def texts_def)
qed

lemma texts_remove:
  assumes "struct_ok k ed" "a + n \<le> length (texts ed)"
  shows "texts (doc_remove (int a) (int n) ed) = splice_at a n [] (texts ed)"
    "all_visible ed \<Longrightarrow> all_visible (doc_remove (int a) (int n) ed)"
  using doc_remove_ok(3) [OF assms(1) _ _ _ refl, of "int a" "int n"] assms(2)
  by (auto simp: texts_def splice_at_def take_map drop_map all_visible_def dest: in_set_takeD in_set_dropD)

lemma texts_insert:
  assumes "struct_ok k ed" "a \<le> length (texts ed)" "map lid ls = [k ..< next_line ed]" "nonneg ls"
  shows "texts (doc_insert (int a) ls ed) = splice_at a 0 (map ltext ls) (texts ed)"
    "all_visible ed \<Longrightarrow> \<forall>l \<in> set ls. \<not> lhidden l \<Longrightarrow> all_visible (doc_insert (int a) ls ed)"
  using doc_insert_ok(3) [OF assms(1) _ _ assms(3,4) refl, of "int a"] assms(2)
  by (auto simp: texts_def splice_at_def take_map drop_map all_visible_def dest: in_set_takeD in_set_dropD)

definition fresh_lines :: "nat \<Rightarrow> (jstring \<times> span list option) list \<Rightarrow> 's line list" where
  "fresh_lines k hs = map (\<lambda>(i, (t, sp)). new_line i t sp) (zip [k ..< k + length hs] hs)"

lemma fresh_lines_props [simp]:
  "map lid (fresh_lines k hs) = [k ..< k + length hs]" "map ltext (fresh_lines k hs) = map fst hs"
  "nonneg (fresh_lines k hs)" "\<forall>l \<in> set (fresh_lines k hs). \<not> lhidden l" "fresh_lines k hs = [] \<longleftrightarrow> hs = []"
  by (auto simp: fresh_lines_def nonneg_def comp_def case_prod_beta intro: nth_equalityI dest: set_zip_leftD)

lemma add_lines_fresh:
  "\<exists>m. add_lines hs ([], ed) = (fresh_lines (next_line ed) (map (\<lambda>h. (hlText h, hlSpans h)) hs),
     ed\<lparr>next_line := next_line ed + length hs, markers := m\<rparr>)"
  using add_lines_spec [of hs "[]" ed]
  by (auto simp: fresh_lines_def zip_map2 case_prod_beta comp_def)

lemma fresh_lines_snoc:
  "fresh_lines k hs @ [new_line (k + length hs) t sp] = fresh_lines k (hs @ [(t, sp)])"
  by (simp add: fresh_lines_def)

text \<open>Making lines does not touch the document.\<close>

lemma reserve_ok:
  assumes "struct_ok k ed" "next_line ed \<le> n"
  shows "struct_ok k (ed\<lparr>next_line := n, markers := m\<rparr>)" "evolves ed (ed\<lparr>next_line := n, markers := m\<rparr>)"
    "texts (ed\<lparr>next_line := n, markers := m\<rparr>) = texts ed"
    "all_visible (ed\<lparr>next_line := n, markers := m\<rparr>) = all_visible ed"
  using assms by (auto simp: struct_ok_def known_def texts_def all_visible_def evolves_def)
    (rule exI [of _ "doc ed"], rule exI [of _ "gone ed"], rule exI [of _ m], rule exI [of _ n], rule exI [of _ "callbacks ed"], simp)

lemma take_Suc_update: "a < length xs \<Longrightarrow> take (Suc a) (xs[a := x]) = take a xs @ [x]"
  by (simp add: take_Suc_conv_app_nth)


text \<open>
  An edit leaves the lines in front of it and behind it alone: \<open>ends a z\<close> compares the first \<open>a\<close> and the last \<open>z\<close>
  elements of two lists.
\<close>

definition ends :: "nat \<Rightarrow> nat \<Rightarrow> 'a list \<Rightarrow> 'a list \<Rightarrow> bool" where
  "ends a z xs ys \<longleftrightarrow> a + z \<le> length ys \<and> take a ys = take a xs \<and> drop (length ys - z) ys = drop (length xs - z) xs"

lemma ends_refl: "a + z \<le> length xs \<Longrightarrow> ends a z xs xs"
  by (simp add: ends_def)

lemma ends_trans: "ends a z xs ys \<Longrightarrow> ends a z ys zs \<Longrightarrow> ends a z xs zs"
  by (simp add: ends_def)

lemma ends_update: "a \<le> i \<Longrightarrow> i + z < length xs \<Longrightarrow> ends a z xs (xs[i := x])"
  by (simp add: ends_def)

lemma ends_splice: "a \<le> i \<Longrightarrow> i + n + z \<le> length xs \<Longrightarrow> ends a z xs (splice_at i n ys xs)"
  by (auto simp: ends_def splice_at_def min_def)

lemma ends_nth_low: "ends a z xs ys \<Longrightarrow> j < a \<Longrightarrow> a \<le> length xs \<Longrightarrow> ys ! j = xs ! j"
  unfolding ends_def by (metis nth_take)

lemma ends_nth_high:
  assumes "ends a z xs ys" and "z \<le> length xs" and "length ys - z \<le> j" and "j < length ys"
  shows "ys ! j = xs ! (length xs - (length ys - j))"
proof -
  obtain k where k: "j = (length ys - z) + k" using assms(3) le_Suc_ex by blast
  have "ys ! j = drop (length ys - z) ys ! k" unfolding k using assms(4) k by (simp add: ends_def)
  also have "\<dots> = drop (length xs - z) xs ! k" using assms(1) by (simp add: ends_def)
  also have "\<dots> = xs ! (length xs - z + k)" by simp
  also have "length xs - z + k = length xs - (length ys - j)" using k assms by (simp add: ends_def)
  finally show ?thesis .
qed

text \<open>
  \<open>step a z k n ed e T\<close>: from \<open>ed\<close> the editor has become \<open>e\<close>, of text \<open>T\<close>, with the first \<open>a\<close> and the last \<open>z\<close>
  lines as they were, identities below \<open>k\<close> in the document and \<open>n\<close> the next free one.
\<close>

definition step :: "nat \<Rightarrow> nat \<Rightarrow> nat \<Rightarrow> nat \<Rightarrow> ('g, 's) editor \<Rightarrow> ('g, 's) editor \<Rightarrow> jstring list \<Rightarrow> bool" where
  "step a z k n ed e T \<longleftrightarrow> struct_ok k e \<and> next_line e = n \<and> evolves ed e \<and> texts e = T \<and> (all_visible ed \<longrightarrow> all_visible e) \<and>
     ends a z (lines ed) (lines e)"

lemma step_refl: "struct_ok k ed \<Longrightarrow> a + z \<le> length (texts ed) \<Longrightarrow> step a z k (next_line ed) ed ed (texts ed)"
  by (simp add: step_def ends_refl texts_def)

lemma step_then:
  "step a z k n ed e T \<Longrightarrow> struct_ok k' e' \<Longrightarrow> next_line e' = n' \<Longrightarrow> evolves e e' \<Longrightarrow> texts e' = T' \<Longrightarrow>
     (all_visible e \<Longrightarrow> all_visible e') \<Longrightarrow> ends a z (lines e) (lines e') \<Longrightarrow> step a z k' n' ed e' T'"
  unfolding step_def by (blast intro: evolves_trans ends_trans)

lemma step_update:
  assumes s: "step a z k n ed e T" and i: "a \<le> i" "i + z < length T"
  shows "step a z k n ed (update_line (int i) t sp e) (T[i := t])"
proof -
  have ok: "struct_ok k e" "i < length (texts e)" "texts e = T" "int i < int (length (lines e))" "next_line e = n"
    using s i by (auto simp: step_def texts_def)
  note u = update_line_ok [OF ok(1) _ ok(4) refl, of t sp] and t = texts_update [OF ok(1,2), of t sp]
  have "ends a z (lines e) ((lines e)[i := line_update t sp (lines e ! i)])"
    by (rule ends_update [OF i(1)]) (use i(2) ok(3) in \<open>auto simp: texts_def\<close>)
  then show ?thesis by (intro step_then [OF s]) (use u t ok in simp_all)
qed

lemma step_remove:
  assumes s: "step a z k n ed e T" and i: "a \<le> i" "i + m + z \<le> length T"
  shows "step a z k n ed (doc_remove (int i) (int m) e) (splice_at i m [] T)"
proof -
  have ok: "struct_ok k e" "i + m \<le> length (texts e)" "texts e = T" "int i + int m \<le> int (length (lines e))"
      "next_line e = n"
    using s i by (auto simp: step_def texts_def)
  note u = doc_remove_ok [OF ok(1) _ _ ok(4) refl] and t = texts_remove [OF ok(1,2)]
  have "ends a z (lines e) (splice_at i m [] (lines e))"
    by (rule ends_splice [OF i(1)]) (use i(2) ok(3) in \<open>auto simp: texts_def\<close>)
  then show ?thesis by (intro step_then [OF s]) (use u t ok in simp_all)
qed

lemma step_insert:
  assumes s: "step a z k n ed e T" and i: "a \<le> i" "i + z \<le> length T" and n: "n = k + length hs"
  shows "step a z n n ed (doc_insert (int i) (fresh_lines k hs) e) (splice_at i 0 (map fst hs) T)"
proof -
  have ok: "struct_ok k e" "i \<le> length (texts e)" "texts e = T" "int i \<le> int (length (lines e))" "next_line e = n"
      "map lid (fresh_lines k hs) = [k ..< next_line e]" "nonneg (fresh_lines k hs)"
    using s i n by (auto simp: step_def texts_def)
  note u = doc_insert_ok [OF ok(1) _ ok(4) ok(6,7) refl] and t = texts_insert [OF ok(1,2) ok(6,7)]
  have nl: "next_line (doc_insert (int i) (fresh_lines k hs) e) = n" using ok by (simp add: doc_insert_def)
  have "ends a z (lines e) (splice_at i 0 (fresh_lines k hs) (lines e))"
    by (rule ends_splice [OF i(1)]) (use i(2) ok(3) in \<open>auto simp: texts_def\<close>)
  then show ?thesis by (intro step_then [OF s]) (use u t ok nl in simp_all)
qed

lemma step_reserve:
  assumes s: "step a z k n ed e T"
  shows "step a z k (n + m) ed (e\<lparr>next_line := n + m, markers := mk\<rparr>) T"
proof -
  have ok: "struct_ok k e" "next_line e \<le> n + m" "texts e = T" "a + z \<le> length (lines e)" using s by (auto simp: step_def ends_def)
  show ?thesis by (rule step_then [OF s]) (use reserve_ok [OF ok(1,2)] ok in \<open>simp_all add: ends_refl\<close>)
qed

definition add_args :: "hl list \<Rightarrow> (jstring \<times> span list option) list" where
  "add_args hs = map (\<lambda>h. (hlText h, hlSpans h)) hs"

lemma add_args_simps [simp]: "length (add_args hs) = length hs" "map fst (add_args hs) = map hlText hs"
    "add_args hs = [] \<longleftrightarrow> hs = []"
  by (simp_all add: add_args_def comp_def)

lemma step_add_lines:
  assumes "step a z k k ed e T"
  obtains e' where "add_lines hs ([], e) = (fresh_lines k (add_args hs), e')" "step a z k (k + length hs) ed e' T"
proof -
  obtain m where m: "add_lines hs ([], e) =
      (fresh_lines (next_line e) (add_args hs), e\<lparr>next_line := next_line e + length hs, markers := m\<rparr>)"
    using add_lines_fresh [of hs e] by (auto simp: add_args_def)
  moreover have "next_line e = k" using assms by (simp add: step_def)
  ultimately show thesis using that step_reserve [OF assms, of "length hs" m] by simp
qed

lemma step_add_line:
  assumes "step a z k n ed e T" "n = k + length hs"
  obtains e' where "add_line t sp (fresh_lines k hs, e) = (fresh_lines k (hs @ [(t, sp)]), e')"
    "step a z k (n + 1) ed e' T"
proof -
  have n: "next_line e = n" using assms(1) by (simp add: step_def)
  let ?m = "attachMarkedSpans n sp (markers e)"
  have "add_line t sp (fresh_lines k hs, e) = (fresh_lines k (hs @ [(t, sp)]), e\<lparr>next_line := n + 1, markers := ?m\<rparr>)"
    using fresh_lines_snoc [of k hs t sp] assms(2) n by (simp add: add_line_def)
  with that step_reserve [OF assms(1), of 1 ?m] show thesis by simp
qed


lemma pos_okE:
  assumes "pos_ok d p"
  obtains a b where "p = Pos (int a) (int b)" "a < length d" "b \<le> length (d ! a)"
proof -
  from assms have "p = Pos (int (nat (pline p))) (int (nat (pch p)))" by (cases p) (simp add: pos_ok_def)
  with that [of "nat (pline p)" "nat (pch p)"] assms show thesis by (auto simp: pos_ok_def)
qed

lemma lid_same_line:
  "struct_ok k ed \<Longrightarrow> a < length (lines ed) \<Longrightarrow> c < length (lines ed) \<Longrightarrow>
     lid (lines ed ! a) = lid (lines ed ! c) \<longleftrightarrow> a = c"
  unfolding struct_ok_def by (metis length_map nth_eq_iff_index_eq nth_map)

lemma whole_line_edit:
  assumes s: "step a z k k ed ed T" and ac: "a \<le> c" "c + z < length T" and hs: "hs \<noteq> []" "hlText (last hs) = []"
  shows "\<exists>n. step a z n n ed
     (let (added, ed1) = add_lines (butlast hs) ([], ed);
          ed2 = update_line (int c) (T ! c) sp ed1;
          ed3 = (if int c - int a \<noteq> 0 then doc_remove (int a) (int c - int a) ed2 else ed2)
      in if added \<noteq> [] then doc_insert (int a) added ed3 else ed3)
     (splice_at a (c - a + 1) (joined [] (map hlText hs) (T ! c)) T)"
proof -
  obtain e1 where e1: "add_lines (butlast hs) ([], ed) = (fresh_lines k (add_args (butlast hs)), e1)"
      "step a z k (k + length (butlast hs)) ed e1 T"
    by (rule step_add_lines [OF s])
  let ?n = "k + length (butlast hs)"
  let ?e2 = "update_line (int c) (T ! c) sp e1"
  have e2: "step a z k ?n ed ?e2 T" using step_update [OF e1(2) ac, of "T ! c" sp] by simp
  let ?e3 = "if int c - int a \<noteq> 0 then doc_remove (int a) (int c - int a) ?e2 else ?e2"
  have e3: "step a z k ?n ed ?e3 (splice_at a (c - a) [] T)"
    using step_remove [OF e2, of a "c - a"] e2 ac by (auto simp: of_nat_diff splice_at_def)
  have j: "joined [] (map hlText hs) (T ! c) = map hlText (butlast hs) @ [T ! c]"
  proof (cases "length hs = 1")
    case True
    then show ?thesis using hs by (cases hs) (auto simp: joined_def)
  next
    case False
    then have "hd hs # butlast (tl hs) = butlast hs" using hs(1) by (cases hs) (auto split: if_splits)
    then show ?thesis using False hs
      by (simp add: joined_def hd_map last_map map_tl [symmetric] map_butlast [symmetric] del: map_tl)
         (metis list.simps(9))
  qed
  have T: "splice_at a (c - a + 1) (joined [] (map hlText hs) (T ! c)) T =
      splice_at a 0 (map hlText (butlast hs)) (splice_at a (c - a) [] T)"
    using ac unfolding j by (simp add: splice_at_def Cons_nth_drop_Suc)
  let ?r = "if butlast hs \<noteq> [] then doc_insert (int a) (fresh_lines k (add_args (butlast hs))) ?e3 else ?e3"
  have "step a z ?n ?n ed ?r (splice_at a 0 (map hlText (butlast hs)) (splice_at a (c - a) [] T))"
  proof (cases "butlast hs = []")
    case True
    with e3 show ?thesis by (simp only: splice_take_drop) simp
  next
    case False
    with step_insert [OF e3, of a "add_args (butlast hs)"] ac show ?thesis by (simp add: splice_at_def)
  qed
  then show ?thesis unfolding T e1(1) Let_def by (intro exI [of _ ?n]) simp
qed

lemma one_line_split:
  assumes s: "step a z k k ed ed T" and a: "a + z < length T" and hs: "length hs \<noteq> 1" "hs \<noteq> []"
  shows "\<exists>n. step a z n n ed
     (let (added, ed1) = add_line (hlText (last hs) @ post) sp2 (add_lines (butlast (tl hs)) ([], ed));
          ed2 = update_line (int a) (pre @ hlText (hd hs)) sp ed1
      in doc_insert (int a + 1) added ed2)
     (splice_at a 1 (joined pre (map hlText hs) post) T)"
proof -
  obtain e1 where e1: "add_lines (butlast (tl hs)) ([], ed) = (fresh_lines k (add_args (butlast (tl hs))), e1)"
      "step a z k (k + length (butlast (tl hs))) ed e1 T"
    by (rule step_add_lines [OF s])
  let ?hs = "add_args (butlast (tl hs)) @ [(hlText (last hs) @ post, sp2)]"
  let ?n = "k + length (butlast (tl hs)) + 1"
  obtain e2 where e2: "add_line (hlText (last hs) @ post) sp2 (fresh_lines k (add_args (butlast (tl hs))), e1) =
      (fresh_lines k ?hs, e2)" "step a z k ?n ed e2 T"
    using step_add_line [OF e1(2), of "add_args (butlast (tl hs))" "hlText (last hs) @ post" sp2] by auto
  let ?e3 = "update_line (int a) (pre @ hlText (hd hs)) sp e2"
  have e3: "step a z k ?n ed ?e3 (T[a := pre @ hlText (hd hs)])" by (rule step_update [OF e2(2) order_refl a])
  have e4: "step a z ?n ?n ed (doc_insert (int (Suc a)) (fresh_lines k ?hs) ?e3)
      (splice_at (Suc a) 0 (map fst ?hs) (T[a := pre @ hlText (hd hs)]))"
    by (rule step_insert [OF e3]) (use a in auto)
  have "splice_at (Suc a) 0 (map fst ?hs) (T[a := pre @ hlText (hd hs)]) =
      splice_at a 1 (joined pre (map hlText hs) post) T"
    using a hs by (simp add: splice_at_def joined_def take_Suc_update hd_map last_map map_tl map_butlast)
  with e4 show ?thesis unfolding e1(1) e2(1) by (auto simp: add.commute intro!: exI [of _ ?n])
qed

lemma join_lines_edit:
  assumes s: "step a z k k ed ed T" and ac: "a < c" "c + z < length T" and hs: "length hs = 1"
  shows "step a z k k ed (doc_remove (int a + 1) (int c - int a) (update_line (int a) (pre @ hlText (hd hs) @ post) sp ed))
     (splice_at a (c - a + 1) (joined pre (map hlText hs) post) T)"
proof -
  have e1: "step a z k k ed (update_line (int a) (pre @ hlText (hd hs) @ post) sp ed) (T[a := pre @ hlText (hd hs) @ post])"
    by (rule step_update [OF s]) (use ac in auto)
  have "step a z k k ed (doc_remove (int (Suc a)) (int (c - a)) (update_line (int a) (pre @ hlText (hd hs) @ post) sp ed))
      (splice_at (Suc a) (c - a) [] (T[a := pre @ hlText (hd hs) @ post]))"
    by (rule step_remove [OF e1]) (use ac in auto)
  moreover have "splice_at (Suc a) (c - a) [] (T[a := pre @ hlText (hd hs) @ post]) =
      splice_at a (c - a + 1) (joined pre (map hlText hs) post) T"
    using ac hs by (cases hs) (auto simp: splice_at_def joined_def take_Suc_update)
  ultimately show ?thesis using ac by (simp add: of_nat_diff add.commute)
qed

lemma many_lines_edit:
  assumes s: "step a z k k ed ed T" and ac: "a < c" "c + z < length T" and hs: "length hs \<noteq> 1" "hs \<noteq> []"
  shows "\<exists>n. step a z n n ed
     (let ed1 = update_line (int a) (pre @ hlText (hd hs)) sp ed;
          ed2 = update_line (int c) (hlText (last hs) @ post) sp2 ed1;
          (added, ed3) = add_lines (butlast (tl hs)) ([], ed2);
          ed4 = (if int c - int a > 1 then doc_remove (int a + 1) (int c - int a - 1) ed3 else ed3)
      in doc_insert (int a + 1) added ed4)
     (splice_at a (c - a + 1) (joined pre (map hlText hs) post) T)"
proof -
  let ?T1 = "T[a := pre @ hlText (hd hs)]" and ?e1 = "update_line (int a) (pre @ hlText (hd hs)) sp ed"
  have e1: "step a z k k ed ?e1 ?T1" by (rule step_update [OF s]) (use ac in auto)
  let ?T2 = "?T1[c := hlText (last hs) @ post]" and ?e2 = "update_line (int c) (hlText (last hs) @ post) sp2 ?e1"
  have e2: "step a z k k ed ?e2 ?T2" by (rule step_update [OF e1]) (use ac in auto)
  obtain m where m: "add_lines (butlast (tl hs)) ([], ?e2) =
      (fresh_lines (next_line ?e2) (add_args (butlast (tl hs))),
       ?e2\<lparr>next_line := next_line ?e2 + length (butlast (tl hs)), markers := m\<rparr>)"
    using add_lines_fresh [of "butlast (tl hs)" ?e2] by (auto simp: add_args_def)
  let ?n = "k + length (butlast (tl hs))"
  have nl: "next_line ?e2 = k" using e2 by (simp add: step_def)
  let ?e3 = "?e2\<lparr>next_line := ?n, markers := m\<rparr>"
  have e3: "step a z k ?n ed ?e3 ?T2" by (rule step_reserve [OF e2])
  let ?e4 = "if int c - int a > 1 then doc_remove (int a + 1) (int c - int a - 1) ?e3 else ?e3"
  have e4: "step a z k ?n ed ?e4 (splice_at (Suc a) (c - a - 1) [] ?T2)"
  proof (cases "int c - int a > 1")
    case True
    have "step a z k ?n ed (doc_remove (int (Suc a)) (int (c - a - 1)) ?e3) (splice_at (Suc a) (c - a - 1) [] ?T2)"
      by (rule step_remove [OF e3]) (use ac in auto)
    moreover have "int (Suc a) = int a + 1" "int (c - a - 1) = int c - int a - 1" using ac by auto
    ultimately show ?thesis using True by (simp only: if_True)
  next
    case False
    then have "c - a - 1 = 0" using ac by simp
    with e3 False show ?thesis by (simp only: splice_take_drop if_False)
  qed
  have e5: "step a z ?n ?n ed (doc_insert (int (Suc a)) (fresh_lines k (add_args (butlast (tl hs)))) ?e4)
      (splice_at (Suc a) 0 (map hlText (butlast (tl hs))) (splice_at (Suc a) (c - a - 1) [] ?T2))"
    using step_insert [OF e4, of "Suc a" "add_args (butlast (tl hs))"] ac by (simp add: splice_at_def)
  have d: "drop c ?T2 = (hlText (last hs) @ post) # drop (Suc c) T"
    using ac by (subst Cons_nth_drop_Suc [symmetric]) auto
  have t: "take (Suc a) ?T2 = take a T @ [pre @ hlText (hd hs)]"
    using ac by (simp add: take_Suc_update)
  have T: "splice_at (Suc a) 0 (map hlText (butlast (tl hs))) (splice_at (Suc a) (c - a - 1) [] ?T2) =
      splice_at a (c - a + 1) (joined pre (map hlText hs) post) T"
    using ac hs d t by (simp add: splice_at_def joined_def hd_map last_map map_tl map_butlast)
  show ?thesis
    using e5 unfolding T m nl Let_def of_nat_Suc by (intro exI [of _ ?n]) (simp only: prod.case add.commute)
qed


theorem edit_lines_step:
  assumes ok: "struct_ok (next_line ed) ed" and p: "pos_ok (texts ed) from" "pos_ok (texts ed) to" "from \<le> to"
    and hs: "hs \<noteq> []"
  shows "\<exists>ed' n. edit_lines from to hs ed = Some ed' \<and>
     step (nat (pline from)) (length (texts ed) - Suc (nat (pline to))) n n ed ed' (text_edit from to (map hlText hs) (texts ed))"
proof -
  let ?T = "texts ed" and ?k = "next_line ed"
  obtain a b where f: "from = Pos (int a) (int b)" and a: "a < length ?T" "b \<le> length (?T ! a)" by (rule pos_okE [OF p(1)])
  obtain c e where t: "to = Pos (int c) (int e)" and c: "c < length ?T" "e \<le> length (?T ! c)" by (rule pos_okE [OF p(2)])
  let ?z = "length ?T - Suc c"
  have ac: "a \<le> c" using p(3) by (auto simp: f t pos_le_iff)
  have d: "doc_ok (doc ed)" and len: "length (lines ed) = length ?T" using ok by (simp_all add: struct_ok_def texts_def)
  have gl: "getLine ed (int a) = Some (lines ed ! a)" "getLine ed (int c) = Some (lines ed ! c)"
    using a c len by (simp_all add: getLine_lines [OF d])
  have tx: "ltext (lines ed ! a) = ?T ! a" "ltext (lines ed ! c) = ?T ! c" using a(1) c(1) unfolding texts_def by simp_all
  have z1: "c + ?z < length ?T" and z2: "a + ?z < length ?T" using c ac by simp_all
  have st: "nat (pline from) = a" "nat (pline to) = c" by (simp_all add: f t)
  have s: "step a ?z ?k ?k ed ed ?T" by (rule step_refl [OF ok]) (use ac c in simp)
  have te: "text_edit from to (map hlText hs) ?T =
      splice_at a (c - a + 1) (joined (take b (?T ! a)) (map hlText hs) (drop e (?T ! c))) ?T"
    using ac by (simp add: text_edit_def f t nat_diff_distrib)
  have same: "lid (lines ed ! a) = lid (lines ed ! c) \<longleftrightarrow> a = c"
    by (rule lid_same_line [OF ok]) (use a c len in simp_all)
  have sl: "js_slice (?T ! a) 0 (int b) = take b (?T ! a)" "js_slice_from (?T ! a) (int e) = drop e (?T ! a)"
    "js_slice_from (?T ! c) (int e) = drop e (?T ! c)"
    using js_slice_nat [of "?T ! a" 0 b] by (simp_all add: js_slice_from_nat)
  note eval = edit_lines_def gl lst_Some [OF hs] f t Option.bind.simps Let_def tx pos.sel same sl
  consider (whole) "b = 0 \<and> e = 0 \<and> hlText (last hs) = []" | (one) "\<not> (b = 0 \<and> e = 0 \<and> hlText (last hs) = [])" "a = c" "length hs = 1"
    | (two) "\<not> (b = 0 \<and> e = 0 \<and> hlText (last hs) = [])" "a = c" "length hs \<noteq> 1"
    | (join) "\<not> (b = 0 \<and> e = 0 \<and> hlText (last hs) = [])" "a \<noteq> c" "length hs = 1"
    | (many) "\<not> (b = 0 \<and> e = 0 \<and> hlText (last hs) = [])" "a \<noteq> c" "length hs \<noteq> 1"
    by blast
  then have "\<exists>ed' n. edit_lines from to hs ed = Some ed' \<and> step a ?z n n ed ed' (text_edit from to (map hlText hs) ?T)"
  proof cases
    case whole
    then have z: "int 0 = 0 \<and> int 0 = 0 \<and> hlText (last hs) = []" and h: "hlText (last hs) = []"
      and bz: "b = 0" "e = 0" by simp_all
    show ?thesis
      using whole_line_edit [OF s ac z1 hs h, of "hlSpans (last hs)"]
      unfolding te unfolding eval if_P [OF z] bz take_0 drop_0 by (simp only: option.inject simp_thms ex_simps)
  next
    case one
    then have z: "\<not> (int b = 0 \<and> int e = 0 \<and> hlText (last hs) = [])" by simp
    have "step a ?z ?k ?k ed (update_line (int a) (take b (?T ! a) @ hlText (hd hs) @ drop e (?T ! a)) (hlSpans (hd hs)) ed)
        (?T[a := take b (?T ! a) @ hlText (hd hs) @ drop e (?T ! a)])"
      by (rule step_update [OF s order_refl z2])
    moreover have "?T[a := take b (?T ! a) @ hlText (hd hs) @ drop e (?T ! a)] = text_edit from to (map hlText hs) ?T"
      using a one(2,3) unfolding te by (cases hs) (auto simp: splice_at_def joined_def upd_conv_take_nth_drop)
    ultimately show ?thesis unfolding eval if_not_P [OF z] if_P [OF one(2)] if_P [OF one(3)] by auto
  next
    case two
    then have z: "\<not> (int b = 0 \<and> int e = 0 \<and> hlText (last hs) = [])" by simp
    show ?thesis
      using one_line_split [OF s z2 two(3) hs, of "drop e (?T ! a)" "hlSpans (last hs)" "take b (?T ! a)" "hlSpans (hd hs)"]
      unfolding te unfolding eval if_not_P [OF z] if_P [OF two(2)] if_not_P [OF two(3)] by (simp only: two(2) diff_self_eq_0 add_0 option.inject simp_thms ex_simps)
  next
    case join
    then have z: "\<not> (int b = 0 \<and> int e = 0 \<and> hlText (last hs) = [])" by simp
    have "a < c" using join ac by simp
    from join_lines_edit [OF s this z1 join(3), of "take b (?T ! a)" "drop e (?T ! c)" "hlSpans (hd hs)"]
    show ?thesis unfolding te unfolding eval if_not_P [OF z] if_not_P [OF join(2)] if_P [OF join(3)] by (simp only: option.inject simp_thms ex_simps) (rule exI)
  next
    case many
    then have z: "\<not> (int b = 0 \<and> int e = 0 \<and> hlText (last hs) = [])" by simp
    have "a < c" using many ac by simp
    from many_lines_edit [OF s this z1 many(3) hs, of "take b (?T ! a)" "hlSpans (hd hs)" "drop e (?T ! c)" "hlSpans (last hs)"]
    show ?thesis unfolding te unfolding eval if_not_P [OF z] if_not_P [OF many(2)] if_not_P [OF many(3)] by (simp only: option.inject simp_thms ex_simps)
  qed
  then show ?thesis unfolding st .
qed

end
