(* ===== verification/CM_Text.thy ===== *)
theory CM_Text
  imports CM_Edits_Laws
begin

section \<open>The editor as a text with a selection and a history\<close>

text \<open>
  The contract of the editor: a well-formed editor (\<open>ed_ok\<close>) carries out every edit between two valid
  positions without a \<open>TypeError\<close>, stays well formed, and its text and history change as the abstract
  ones do.  \<open>ed_ok\<close> asks that no line is hidden.
\<close>

definition ed_ok :: "('g, 's) editor \<Rightarrow> bool" where
  "ed_ok ed \<longleftrightarrow> struct_ok (next_line ed) ed \<and> lines ed \<noteq> [] \<and> all_visible ed \<and> maxLine ed \<in> known ed \<and>
     pos_ok (texts ed) (sel_from ed) \<and> pos_ok (texts ed) (sel_to ed) \<and> sel_from ed \<le> sel_to ed"

lemma ed_okD:
  assumes "ed_ok ed"
  shows "struct_ok (next_line ed) ed" "doc_ok (doc ed)" "texts ed \<noteq> []" "all_visible ed" "maxLine ed \<in> known ed"
    "pos_ok (texts ed) (sel_from ed)" "pos_ok (texts ed) (sel_to ed)" "sel_from ed \<le> sel_to ed"
  using assms by (simp_all add: ed_ok_def struct_ok_def texts_def)

lemma length_texts [simp]: "length (texts ed) = length (lines ed)"
  by (simp add: texts_def)

subsection \<open>Clipping\<close>

definition clip_text :: "jstring list \<Rightarrow> int \<Rightarrow> int option \<Rightarrow> pos" where
  "clip_text d l c =
     (if l < 0 then Pos 0 0
      else if l \<ge> int (length d) then Pos (int (length d) - 1) (int (length (last d)))
      else let n = int (length (d ! nat l)) in
        Pos l (case c of None \<Rightarrow> n | Some ch \<Rightarrow> max 0 (min ch n)))"

lemma clipPos_text:
  assumes "doc_ok (doc ed)" "texts ed \<noteq> []"
  shows "clipPos ed l c = Some (clip_text (texts ed) l c)"
proof -
  have "nat (int (length (lines ed)) - 1) = length (lines ed) - 1" by simp
  then have "last (texts ed) = texts ed ! nat (int (length (texts ed)) - 1)"
    by (simp only: last_conv_nth [OF assms(2)] length_texts)
  moreover have "lines ed \<noteq> []" using assms(2) by (simp add: texts_def)
  ultimately show ?thesis
    using assms(2) by (auto simp: clipPos_def clip_text_def line_text_texts [OF assms(1)] doc_size_lines [OF assms(1)]
      Let_def split: option.splits)
qed

lemma clip_text_ok: "d \<noteq> [] \<Longrightarrow> pos_ok d (clip_text d l c)"
proof -
  assume d: "d \<noteq> []"
  have "nat (int (length d) - 1) = length d - 1" using d by (simp add: nat_diff_distrib)
  then show ?thesis using d by (auto simp: pos_ok_def clip_text_def last_conv_nth Let_def split: option.splits)
qed

lemma clip_text_id: "pos_ok d p \<Longrightarrow> clip_text d (pline p) (Some (pch p)) = p"
  by (cases p) (auto simp: pos_ok_def clip_text_def Let_def)

subsection \<open>Parts of the state that a step leaves alone\<close>

definition frame :: "('g, 's) editor \<Rightarrow> ('g, 's) editor \<Rightarrow> bool" where
  "frame e e' \<longleftrightarrow> sel_from e' = sel_from e \<and> sel_to e' = sel_to e \<and> history e' = history e \<and>
     options e' = options e \<and> suppressEdits e' = suppressEdits e \<and> clock e' = clock e \<and>
     shiftSelecting e' = shiftSelecting e \<and> screen e' = screen e \<and> mode e' = mode e"

definition keeps :: "('g, 's) editor \<Rightarrow> ('g, 's) editor \<Rightarrow> bool" where
  "keeps e e' \<longleftrightarrow> frame e e' \<and> (struct_ok (next_line e) e \<longrightarrow>
     struct_ok (next_line e') e' \<and> next_line e' = next_line e \<and> texts e' = texts e \<and> ids e' = ids e \<and>
     known e' = known e \<and> (all_visible e \<longrightarrow> all_visible e') \<and> length (lines e') = length (lines e) \<and>
     (maxLine e \<in> known e \<longrightarrow> maxLine e' \<in> known e))"

lemma frame_refl [simp]: "frame e e"
  by (simp add: frame_def)

lemma frame_trans: "frame a b \<Longrightarrow> frame b c \<Longrightarrow> frame a c"
  by (simp add: frame_def)

lemma keeps_refl [simp]: "keeps e e"
  by (simp add: keeps_def)

lemma keeps_trans: "keeps a b \<Longrightarrow> keeps b c \<Longrightarrow> keeps a c"
  unfolding keeps_def by (auto intro: frame_trans)

lemma evolves_frame: "evolves e e' \<Longrightarrow> frame e e'"
  by (simp add: frame_def evolves_fields)

text \<open>A step that changes neither the document nor what the frame names.\<close>

lemma keepsI:
  "frame e e' \<Longrightarrow> doc e' = doc e \<Longrightarrow> gone e' = gone e \<Longrightarrow> next_line e' = next_line e \<Longrightarrow>
     (maxLine e \<in> known e \<Longrightarrow> maxLine e' \<in> known e) \<Longrightarrow> keeps e e'"
  by (simp add: keeps_def struct_ok_def known_def texts_def all_visible_def)

lemma keeps_set_height:
  assumes "n < length (lines e)" "0 \<le> h"
  shows "keeps e (set_height n h e)"
proof -
  have "struct_ok (next_line e) (set_height n h e) \<and> texts (set_height n h e) = texts e \<and> ids (set_height n h e) = ids e \<and>
      known (set_height n h e) = known e \<and> (all_visible e \<longrightarrow> all_visible (set_height n h e)) \<and>
      length (lines (set_height n h e)) = length (lines e)"
    if ok: "struct_ok (next_line e) e"
  proof -
    have d: "doc_ok (doc e)" using ok by (simp add: struct_ok_def)
    have l: "lines (set_height n h e) = (lines e)[n := (lines e ! n)\<lparr>lheight := h\<rparr>]"
      by (simp add: set_height_def updateLineHeight_collapse [OF d assms(1)])
    have same: "map lid (lines (set_height n h e)) = ids e" "map ltext (lines (set_height n h e)) = texts e"
      unfolding l map_update texts_def using assms(1) by (simp, metis list_update_id nth_map)+
    have st: "set (lines (set_height n h e)) \<subseteq> insert ((lines e ! n)\<lparr>lheight := h\<rparr>) (set (lines e))"
      unfolding l by (rule set_update_subset_insert)
    have g: "gone (set_height n h e) = gone e" "next_line (set_height n h e) = next_line e"
      by (simp_all add: set_height_def)
    have kn: "known (set_height n h e) = known e" by (simp only: known_def same g)
    have "nonneg (lines (set_height n h e))"
      using ok st assms(2) by (auto simp: struct_ok_def nonneg_def)
    moreover have "all_visible e \<Longrightarrow> all_visible (set_height n h e)"
      using st nth_mem [OF assms(1)] by (auto simp: all_visible_def)
    moreover have "doc_ok (doc (set_height n h e))"
      using updateLineHeight_ok [OF d assms(1)] by (simp add: set_height_def)
    ultimately show ?thesis using ok same kn by (simp add: struct_ok_def texts_def g l)
  qed
  then show ?thesis unfolding keeps_def by (simp add: set_height_def frame_def)
qed

lemma wrap_guess_pos: "0 < p \<Longrightarrow> 0 \<le> wrap_guess p n"
  by (auto simp: wrap_guess_def Let_def ceiling_less_zero intro!: ceiling_mono [of 0, simplified])

lemma keeps_rewrap: "0 < p \<Longrightarrow> struct_ok (next_line e) e \<Longrightarrow> keeps e (rewrap_line p n e)"
  by (auto simp: rewrap_line_def getLine_lines struct_ok_def Let_def wrap_guess_pos
      intro: keeps_set_height split: option.split)

lemma keeps_rewrap_all:
  "0 < p \<Longrightarrow> struct_ok (next_line e) e \<Longrightarrow> keeps e (fold (rewrap_line p) ns e)"
proof (induction ns arbitrary: e)
  case (Cons n ns)
  have k: "keeps e (rewrap_line p n e)" by (rule keeps_rewrap [OF Cons.prems])
  then have "struct_ok (next_line (rewrap_line p n e)) (rewrap_line p n e)"
    using Cons.prems(2) unfolding keeps_def by metis
  from keeps_trans [OF k Cons.IH [OF Cons.prems(1) this]] show ?case by simp
qed simp

lemma grow_max_known:
  "i \<in> K \<Longrightarrow> lid ` set ls \<subseteq> K \<Longrightarrow> fst (grow_max ls (i, len, ch, rc)) \<in> K"
  by (induction ls arbitrary: i len ch rc) auto

lemma keeps_fix_widths:
  assumes "struct_ok (next_line e) e"
  shows "keeps e (fix_widths f n maxLen rc e)"
proof (cases "lineWrapping (options e)")
  case True
  then show ?thesis using keeps_rewrap_all [OF _ assms, of "max 5 (per_line (screen e))"]
    by (simp add: fix_widths_def)
next
  case False
  obtain i len ch r where g: "grow_max (iter_list e f (f + int n)) (maxLine e, maxLen, False, rc) = (i, len, ch, r)"
    by (cases "grow_max (iter_list e f (f + int n)) (maxLine e, maxLen, False, rc)") auto
  have "lid ` set (iter_list e f (f + int n)) \<subseteq> known e"
    using assms by (auto simp: iter_list_lines struct_ok_def known_def dest!: in_set_takeD in_set_dropD)
  then have "maxLine e \<in> known e \<Longrightarrow> i \<in> known e"
    using grow_max_known [of "maxLine e" "known e" _ maxLen False rc] g by (metis fst_conv)
  with False show ?thesis
    by (auto simp: fix_widths_def g frame_def intro!: keepsI)
qed


lemma keeps_fields [simp]:
  assumes "keeps e e'"
  shows "options e' = options e" "sel_from e' = sel_from e" "sel_to e' = sel_to e" "history e' = history e"
    "suppressEdits e' = suppressEdits e" "clock e' = clock e" "shiftSelecting e' = shiftSelecting e"
  using assms by (simp_all add: keeps_def frame_def)

subsection \<open>The longest line can be read\<close>

lemma line_obj_known:
  assumes "struct_ok k ed" "i \<in> known ed"
  shows "\<exists>l. line_obj ed i = Some l \<and> lid l = i"
proof -
  have n: "lineNo i (doc ed) = index_of i (ids ed)"
    using assms(1) by (simp add: struct_ok_def lineNo_collapse)
  show ?thesis
  proof (cases "index_of i (ids ed)")
    case (Some m)
    then have "m < length (lines ed)" "lid (lines ed ! m) = i" using index_of_Some [OF Some] by auto
    with Some assms(1) n show ?thesis by (simp add: line_obj_def struct_ok_def getLineAt_collapse)
  next
    case None
    then have "i \<in> set (map lid (gone ed))" using assms(2) by (auto simp: known_def index_of_None)
    then obtain m where m: "index_of i (map lid (gone ed)) = Some m"
      using index_of_None [of i "map lid (gone ed)"] by fastforce
    then have "m < length (gone ed)" "lid (gone ed ! m) = i" using index_of_Some [OF m] by auto
    with m n None show ?thesis by (simp add: line_obj_def)
  qed
qed

lemma maxLineLength_total: "struct_ok k ed \<Longrightarrow> maxLine ed \<in> known ed \<Longrightarrow> \<exists>n. maxLineLength ed = Some n"
  using line_obj_known [of k ed "maxLine ed"] by (auto simp: maxLineLength_def)

subsection \<open>Setting the selection\<close>

lemma skipHidden_visible:
  assumes "all_visible ed" "doc_ok (doc ed)" "pos_ok (texts ed) p"
  shows "skipHidden ed p n c = Some (Some p)"
  using assms by (auto simp: skipHidden_def getLine_lines pos_ok_def all_visible_def)

lemma autoClear_total:
  assumes "doc_ok (doc ed)" "0 \<le> pline (sel_from ed)"
  shows "\<exists>ts. autoClear a b ed = Some (ed\<lparr>timers := ts\<rparr>)"
proof -
  have "\<exists>ts. ed = ed\<lparr>timers := ts\<rparr>" by (rule exI [of _ "timers ed"]) simp
  with assms show ?thesis
    by (auto simp: autoClear_def getLine_lines doc_size_lines Let_def split: if_splits)
qed

definition ordered :: "pos \<Rightarrow> pos \<Rightarrow> pos \<times> pos" where
  "ordered p q = (if q < p then (q, p) else (p, q))"

lemma setSelection_visible:
  assumes v: "all_visible ed" and d: "doc_ok (doc ed)" and p: "pos_ok (texts ed) p" "pos_ok (texts ed) q"
    and s: "0 \<le> pline (sel_from ed)" "sel_from ed \<le> sel_to ed"
  shows "\<exists>g i ts sc. setSelection p q old ed =
     Some (ed\<lparr>sel_from := fst (ordered p q), sel_to := snd (ordered p q), goalColumn := g, sel_inverted := i,
              timers := ts, selectionChanged := sc\<rparr>)"
proof -
  let ?e = "ed\<lparr>goalColumn := None\<rparr>"
  obtain o1 o2 where o: "(case old of None \<Rightarrow> (pline (sel_from ?e), pline (sel_to ?e)) | Some ot \<Rightarrow> ot) = (o1, o2)"
    by fastforce
  obtain f t where ft: "(if q < p then (q, p) else (p, q)) = (f, t)" by fastforce
  have pf: "pos_ok (texts ed) f" "pos_ok (texts ed) t" using p ft by (auto split: if_splits)
  have sk: "skipHidden ?e f n c = Some (Some f)" "skipHidden ?e t n c = Some (Some t)" for n c
    by (rule skipHidden_visible; use v d pf in \<open>simp add: all_visible_def texts_def\<close>)+
  show ?thesis
  proof (cases "sel_from ed = p \<and> sel_to ed = q")
    case True
    then have "setSelection p q old ed = Some ?e"
      by (simp add: setSelection_def Let_def o split: option.split)
    moreover have "ordered p q = (sel_from ed, sel_to ed)"
      using True leD [OF s(2)] by (simp add: ordered_def)
    ultimately show ?thesis
      by (intro exI [of _ None] exI [of _ "sel_inverted ed"] exI [of _ "timers ed"] exI [of _ "selectionChanged ed"]) simp
  next
    case False
    let ?e2 = "set_inverted f t ?e"
    have "\<exists>i. ?e2 = ed\<lparr>goalColumn := None, sel_inverted := i\<rparr>"
      unfolding set_inverted_def by (auto intro: exI [of _ "sel_inverted ed"])
    then obtain i where e2: "?e2 = ed\<lparr>goalColumn := None, sel_inverted := i\<rparr>" by blast
    then have "doc_ok (doc ?e2)" "0 \<le> pline (sel_from ?e2)" using d s by auto
    then obtain ts where ac: "autoClear f t ?e2 = Some (?e2\<lparr>timers := ts\<rparr>)" using autoClear_total by blast
    have "setSelection p q old ed = Some (?e2\<lparr>timers := ts, sel_from := f, sel_to := t, selectionChanged := True\<rparr>)"
      using o ft sk ac by (simp add: setSelection_def Let_def) (use False in blast)
    moreover have "ordered p q = (f, t)" using ft by (simp add: ordered_def)
    ultimately show ?thesis unfolding e2
      by (intro exI [of _ None] exI [of _ i] exI [of _ ts] exI [of _ True]) simp
  qed
qed


subsection \<open>An edit keeps the editor well formed\<close>

definition norm_sel :: "jstring list \<Rightarrow> pos \<Rightarrow> pos \<Rightarrow> pos \<times> pos" where
  "norm_sel d sf st = ordered (clip_text d (pline sf) (Some (pch sf))) (clip_text d (pline st) (Some (pch st)))"

lemma ordered_ok: "pos_ok d p \<Longrightarrow> pos_ok d q \<Longrightarrow>
    pos_ok d (fst (ordered p q)) \<and> pos_ok d (snd (ordered p q)) \<and> fst (ordered p q) \<le> snd (ordered p q)"
  by (auto simp: ordered_def)

lemma text_edit_nonempty:
  "hs \<noteq> [] \<Longrightarrow> text_edit from to hs d \<noteq> []"
  using length_joined [of hs "take (nat (pch from)) (d ! nat (pline from))" "drop (nat (pch to)) (d ! nat (pline to))"]
  by (auto simp: text_edit_def splice_at_def)

text \<open>The parts of an edit: the new structure \<open>ed2\<close>, what \<open>after_edit\<close> makes of it, and the selection.\<close>

lemma updateLinesNoUndo_parts:
  assumes ok: "ed_ok ed" and su: "\<not> suppressEdits ed"
    and p: "pos_ok (texts ed) from" "pos_ok (texts ed) to" "from \<le> to" and hs: "hs \<noteq> []"
  obtains maxLen rc ed2 n g i ts sc where
    "step (nat (pline from)) (length (texts ed) - Suc (nat (pline to))) n n (dirty_gutter from to hs ed) ed2
       (text_edit from to (map hlText hs) (texts ed))"
    "frame ed ed2" "struct_ok (next_line ed2) ed2" "all_visible ed2" "maxLine ed2 \<in> known ed2"
    "keeps ed2 (after_edit from to hs maxLen rc ed2)"
    "updateLinesNoUndo from to hs sf st ed = Some ((after_edit from to hs maxLen rc ed2)
       \<lparr>sel_from := fst (norm_sel (text_edit from to (map hlText hs) (texts ed)) sf st),
        sel_to := snd (norm_sel (text_edit from to (map hlText hs) (texts ed)) sf st),
        goalColumn := g, sel_inverted := i, timers := ts, selectionChanged := sc\<rparr>)"
proof -
  let ?d = "text_edit from to (map hlText hs) (texts ed)"
  note ok' = ed_okD [OF ok]
  obtain maxLen where ml: "maxLineLength ed = Some maxLen" using maxLineLength_total [OF ok'(1,5)] by blast
  define rc where "rc = (\<not> lineWrapping (options ed) \<and> touches_max maxLen (pline from) (pline to + 1) ed)"
  define ed1 where "ed1 = dirty_gutter from to hs ed"
  have k1: "keeps ed ed1" unfolding ed1_def dirty_gutter_def by (auto intro!: keepsI simp: frame_def)
  then have s1: "struct_ok (next_line ed1) ed1" "texts ed1 = texts ed" "known ed1 = known ed" "all_visible ed1"
      "maxLine ed1 \<in> known ed1"
    using ok' unfolding keeps_def by metis+
  obtain ed2 n where e2: "edit_lines from to hs ed1 = Some ed2"
      and st2: "step (nat (pline from)) (length (texts ed) - Suc (nat (pline to))) n n ed1 ed2 ?d"
    using edit_lines_step [OF s1(1) _ _ p(3) hs] p(1,2) s1(2) by metis
  have s2: "struct_ok (next_line ed2) ed2" "texts ed2 = ?d" "all_visible ed2" "frame ed1 ed2" "maxLine ed2 \<in> known ed2"
    using st2 s1 by (auto simp: step_def evolves_frame evolves_fields) (auto simp: evolves_def)
  define ed3 where "ed3 = fix_widths (pline from) (length hs) maxLen rc ed2"
  define ed4 where "ed4 = startWorker 400 (ed3\<lparr>frontier := min (frontier ed3) (nat (pline from))\<rparr>)"
  define ed5 where "ed5 = after_edit from to hs maxLen rc ed2"
  have ed5: "ed5 = log_change from to hs ed4" by (simp add: ed5_def after_edit_def Let_def ed4_def ed3_def)
  have k3: "keeps ed2 ed3" unfolding ed3_def by (rule keeps_fix_widths [OF s2(1)])
  have k4: "keeps ed3 ed4" unfolding ed4_def startWorker_def by (auto intro!: keepsI simp: frame_def)
  have k5: "keeps ed4 ed5" unfolding ed5 log_change_def push_change_def Let_def by (auto intro!: keepsI simp: frame_def)
  have k: "keeps ed2 ed5" by (rule keeps_trans [OF keeps_trans [OF k3 k4] k5])
  have s5: "texts ed5 = ?d" "all_visible ed5" "doc_ok (doc ed5)" using k s2 by (auto simp: keeps_def struct_ok_def)
  have f2: "frame ed ed2" using k1 s2(4) by (auto simp: keeps_def intro: frame_trans)
  have ne: "?d \<noteq> []" by (rule text_edit_nonempty) (use hs in simp)
  let ?p = "clip_text ?d (pline sf) (Some (pch sf))" and ?q = "clip_text ?d (pline st) (Some (pch st))"
  have pq: "pos_ok (texts ed5) ?p" "pos_ok (texts ed5) ?q" using clip_text_ok [OF ne] s5(1) by simp_all
  have cl: "clip ed5 sf = Some ?p" "clip ed5 st = Some ?q"
    using clipPos_text [OF s5(3)] ne s5(1) by simp_all
  have sel: "0 \<le> pline (sel_from ed5)" "sel_from ed5 \<le> sel_to ed5"
    using f2 k ok'(6,8) by (simp_all add: frame_def pos_ok_def)
  let ?old = "Some (shift_line to (int (length hs) - (pline to - pline from) - 1) (pline (sel_from ed5)),
                    shift_line to (int (length hs) - (pline to - pline from) - 1) (pline (sel_to ed5)))"
  obtain g i ts sc where ss: "setSelection ?p ?q ?old ed5 =
     Some (ed5\<lparr>sel_from := fst (ordered ?p ?q), sel_to := snd (ordered ?p ?q), goalColumn := g, sel_inverted := i,
              timers := ts, selectionChanged := sc\<rparr>)"
    using setSelection_visible [OF s5(2,3) pq sel, of ?old] by blast
  have "updateLinesNoUndo from to hs sf st ed = Some (ed5\<lparr>sel_from := fst (norm_sel ?d sf st),
      sel_to := snd (norm_sel ?d sf st), goalColumn := g, sel_inverted := i, timers := ts, selectionChanged := sc\<rparr>)"
    unfolding updateLinesNoUndo_def Let_def norm_sel_def using su ml e2 cl ss
    by (simp flip: rc_def ed1_def ed5_def)
  from that [OF st2 [unfolded ed1_def] f2 s2(1,3,5) k [unfolded ed5_def] this [unfolded ed5_def]] show thesis .
qed

theorem updateLinesNoUndo_ok:
  assumes ok: "ed_ok ed" and su: "\<not> suppressEdits ed"
    and p: "pos_ok (texts ed) from" "pos_ok (texts ed) to" "from \<le> to" and hs: "hs \<noteq> []"
  defines "d' \<equiv> text_edit from to (map hlText hs) (texts ed)"
  shows "\<exists>ed'. updateLinesNoUndo from to hs sf st ed = Some ed' \<and> ed_ok ed' \<and> texts ed' = d' \<and>
     (sel_from ed', sel_to ed') = norm_sel d' sf st \<and> history ed' = history ed \<and> options ed' = options ed \<and>
     clock ed' = clock ed \<and> suppressEdits ed' = suppressEdits ed"
proof -
  obtain maxLen rc ed2 n g i ts sc where
      e: "texts ed2 = d'" "frame ed ed2" "struct_ok (next_line ed2) ed2" "all_visible ed2" "maxLine ed2 \<in> known ed2"
        "keeps ed2 (after_edit from to hs maxLen rc ed2)"
        "updateLinesNoUndo from to hs sf st ed = Some ((after_edit from to hs maxLen rc ed2)
           \<lparr>sel_from := fst (norm_sel d' sf st), sel_to := snd (norm_sel d' sf st),
            goalColumn := g, sel_inverted := i, timers := ts, selectionChanged := sc\<rparr>)" (is "_ = Some ?e")
    by (rule updateLinesNoUndo_parts [OF ok su p hs, of sf st]) (auto simp: d'_def step_def)
  let ?e5 = "after_edit from to hs maxLen rc ed2"
  have s5: "struct_ok (next_line ?e5) ?e5" "texts ?e5 = d'" "all_visible ?e5" "maxLine ?e5 \<in> known ?e5"
    using e(1,3-6) unfolding keeps_def by metis+
  have ne: "d' \<noteq> []" unfolding d'_def by (rule text_edit_nonempty) (use hs in simp)
  have "pos_ok d' (fst (norm_sel d' sf st)) \<and> pos_ok d' (snd (norm_sel d' sf st)) \<and>
      fst (norm_sel d' sf st) \<le> snd (norm_sel d' sf st)"
    unfolding norm_sel_def by (intro ordered_ok clip_text_ok ne)
  then have "ed_ok ?e"
    using s5 ne by (auto simp: ed_ok_def struct_ok_def known_def texts_def all_visible_def)
  moreover have "texts ?e = d'" using s5(2) by (simp add: texts_def)
  ultimately show ?thesis using e(2,6,7) by (auto simp: frame_def)
qed

end
