(* ===== verification/CM_Undo.thy ===== *)
theory CM_Undo
  imports CM_Text
begin

section \<open>Undo and redo of the editor\<close>

text \<open>
  The editor stores history lines with their marks.  Forgetting the marks turns its history and its
  text into the state of \<open>CM_History\<close>; every edit, undo and redo of the editor is the one of the
  abstract history (\<open>abs_ed\<close>), so the laws of the abstract undo hold for the editor.
\<close>

definition map_change :: "('a \<Rightarrow> 'b) \<Rightarrow> 'a change \<Rightarrow> 'b change" where
  "map_change f c = \<lparr>cstart = cstart c, cadded = cadded c, cold = map f (cold c)\<rparr>"

definition map_history :: "('a \<Rightarrow> 'b) \<Rightarrow> 'a history \<Rightarrow> 'b history" where
  "map_history f h = \<lparr>htime = htime h, hdone = map (map (map_change f)) (hdone h),
     hundone = map (map (map_change f)) (hundone h), compound = compound h, hclosed = hclosed h\<rparr>"

definition abs_ed :: "('g, 's) editor \<Rightarrow> jstring history \<times> jstring list" where
  "abs_ed ed = (map_history hlText (the (history ed)), texts ed)"

definition undo_ok :: "('g, 's) editor \<Rightarrow> bool" where
  "undo_ok ed \<longleftrightarrow> ed_ok ed \<and> \<not> suppressEdits ed \<and> history ed \<noteq> None \<and> hist_ok (abs_ed ed) \<and>
     (\<forall>c \<in> set (concat (hdone (the (history ed)) @ hundone (the (history ed)))). cold c \<noteq> [] \<and> 0 < cadded c)"

subsection \<open>The history commutes with the abstraction\<close>

lemma map_change_sel [simp]:
  "cstart (map_change f c) = cstart c" "cadded (map_change f c) = cadded c" "cold (map_change f c) = map f (cold c)"
  by (simp_all add: map_change_def)

lemma map_history_sel [simp]:
  "htime (map_history f h) = htime h" "hdone (map_history f h) = map (map (map_change f)) (hdone h)"
  "hundone (map_history f h) = map (map (map_change f)) (hundone h)" "compound (map_history f h) = compound h"
  "hclosed (map_history f h) = hclosed h"
  by (simp_all add: map_history_def)

lemma map_merge_change: "map_change f (merge_change l s k old) = merge_change (map_change f l) s k (map f old)"
  by (simp add: merge_change_def map_change_def Let_def take_map drop_map)

lemma map_addChange:
  "map_history f (addChange now s k old h) = addChange now s k (map f old) (map_history f h)"
proof (cases "hdone h" rule: rev_cases)
  case Nil
  then show ?thesis by (simp add: addChange_def map_history_def map_change_def Let_def)
next
  case (snoc A cs)
  then show ?thesis
  proof (cases cs rule: rev_cases)
    case Nil
    with snoc show ?thesis by (simp add: addChange_def map_history_def map_change_def Let_def)
  next
    case (snoc B l)
    with \<open>hdone h = A @ [cs]\<close> have "hdone h = A @ [B @ [l]]" by simp
    then show ?thesis
      by (simp add: addChange_def map_history_def map_merge_change Let_def map_change_def [of f "change.make s k old"] change.make_def)
  qed
qed

lemma map_trim_depth: "map_history f (trim_depth n h) = trim_depth n (map_history f h)"
  by (simp add: trim_depth_def map_history_def drop_map)

subsection \<open>An edit\<close>

lemma text_edit_splice:
  assumes "pos_ok d from" "pos_ok d to" "from \<le> to" "ls \<noteq> []"
  defines "s \<equiv> nat (pline from)" and "n \<equiv> nat (pline to - pline from) + 1"
  shows "\<exists>new. text_edit from to ls d = splice_at s n new d \<and> length new = length ls \<and> s + n \<le> length d \<and>
     nat (pline to + 1) - nat (pline from) = n \<and> pline from = int s"
  using assms length_joined [OF assms(4)] by (auto simp: text_edit_def pos_ok_def pos_le_iff)

theorem updateLines_ok:
  assumes ok: "ed_ok ed" and su: "\<not> suppressEdits ed"
    and p: "pos_ok (texts ed) from" "pos_ok (texts ed) to" "from \<le> to" and hs: "ls \<noteq> []"
  defines "d' \<equiv> text_edit from to ls (texts ed)"
    and "old \<equiv> map line_hl (take (nat (pline to - pline from) + 1) (drop (nat (pline from)) (lines ed)))"
  shows "\<exists>ed'. updateLines from to ls sf st ed = Some ed' \<and> ed_ok ed' \<and> texts ed' = d' \<and>
     (sel_from ed', sel_to ed') = norm_sel d' sf st \<and>
     history ed' = map_option (\<lambda>h. trim_depth (undoDepth (options ed))
        (addChange (clock ed) (pline from) (int (length ls)) old h)) (history ed) \<and> options ed' = options ed \<and>
     clock ed' = clock ed \<and> suppressEdits ed' = suppressEdits ed"
proof -
  note ok' = ed_okD [OF ok]
  let ?ed1 = "record_change from (length ls) old ed"
  have sp: "nat (pline from) + (nat (pline to - pline from) + 1) \<le> length (texts ed)"
      "nat (pline to + 1) - nat (pline from) = nat (pline to - pline from) + 1"
    using text_edit_splice [OF p hs] by blast+
  have old: "map line_hl (iter_list ed (pline from) (pline to + 1)) = old" "old \<noteq> []"
    unfolding iter_list_lines [OF ok'(2)] sp(2) old_def using sp(1) by auto
  let ?hs = "updateMarkedSpans (markers ed) (hlSpans (hd old)) (hlSpans (last old)) (pch from) (pch to) ls"
  have hs': "?hs \<noteq> []" "map hlText ?hs = ls"
    using updateMarkedSpans_text [OF hs] hs by (metis list.map_disc_iff)+
  have r: "texts ?ed1 = texts ed" "ed_ok ?ed1" "\<not> suppressEdits ?ed1"
    using ok su by (simp_all add: record_change_def texts_def ed_ok_def struct_ok_def known_def all_visible_def)
  have "updateLines from to ls sf st ed = updateLinesNoUndo from to ?hs sf st ?ed1"
    using su old by (simp add: updateLines_def)
  with updateLinesNoUndo_ok [OF r(2,3), of "from" to ?hs sf st] p hs' r(1) show ?thesis
    by (auto simp: d'_def record_change_def)
qed

subsection \<open>One change undone\<close>

abbreviation "live c \<equiv> cold c \<noteq> [] \<and> 0 < cadded c"

lemma joined_plain: "ls \<noteq> [] \<Longrightarrow> joined [] ls [] = ls"
  by (cases ls) (auto simp: joined_def)

lemma unredo_change_ok:
  assumes ok: "ed_ok ed" and su: "\<not> suppressEdits ed" and c: "in_range c (length (texts ed))" "live c"
  defines "ac \<equiv> map_change hlText c"
  shows "\<exists>c' ed'. unredo_change c ed = Some (c', ed') \<and> ed_ok ed' \<and> texts ed' = revert ac (texts ed) \<and>
     map_change hlText c' = inverse ac (texts ed) \<and> live c' \<and> history ed' = history ed \<and>
     options ed' = options ed \<and> suppressEdits ed' = suppressEdits ed"
proof -
  note ok' = ed_okD [OF ok]
  let ?T = "texts ed"
  obtain s a where sa: "cstart c = int s" "cadded c = int a" and le: "s + a \<le> length ?T"
    using c(1) by (rule in_rangeE)
  have a: "0 < a" using c(2) sa by simp
  let ?rep = "take a (drop s (lines ed))"
  have il: "iter_list ed (cstart c) (cstart c + cadded c) = ?rep"
    using sa by (simp add: iter_list_lines [OF ok'(2)] nat_add_distrib)
  have rep: "?rep \<noteq> []" using a le by simp
  define m where "m = s + a - 1"
  have m: "cstart c + cadded c - 1 = int m" "m < length ?T" "s \<le> m" "m - s + 1 = a"
    using a sa le by (simp_all add: m_def)
  have lt: "line_text ed (cstart c + cadded c - 1) = Some (?T ! m)"
    using m by (simp add: line_text_texts [OF ok'(2)])
  let ?from = "Pos (int s) 0" and ?to = "Pos (int m) (int (length (?T ! m)))"
  have p: "pos_ok ?T ?from" "pos_ok ?T ?to" "?from \<le> ?to"
    using m by (auto simp: pos_ok_def pos_le_iff)
  have "nat (int m - int s) + 1 = a" using m by simp
  then have te: "text_edit ?from ?to (map hlText (cold c)) ?T = revert ac ?T"
    using sa c(2) joined_plain [of "map hlText (cold c)"]
    by (simp add: text_edit_def revert_def ac_def)
  let ?p = "Pos (cstart c + int (length (cold c)) - 1)
      (editEnd (hlText (last (map line_hl ?rep))) (hlText (last (cold c))))"
  obtain ed' where ed': "updateLinesNoUndo ?from ?to (cold c) ?p ?p ed = Some ed'" "ed_ok ed'" "texts ed' = revert ac ?T"
      "history ed' = history ed" "options ed' = options ed" "suppressEdits ed' = suppressEdits ed"
    using updateLinesNoUndo_ok [OF ok su p, of "cold c" ?p ?p] c(2) te by auto
  let ?c' = "\<lparr>cstart = cstart c, cadded = int (length (cold c)), cold = map line_hl ?rep\<rparr>"
  have "unredo_change c ed = Some (?c', ed')"
    using rep c(2) lt [unfolded m(1)] ed'(1) unfolding unredo_change_def Let_def il m(1) by (simp add: sa)
  moreover have "map_change hlText ?c' = inverse ac ?T"
    using sa by (simp add: inverse_def ac_def map_change_def texts_def take_map drop_map)
  ultimately show ?thesis using ed' rep c(2) by auto
qed

lemma unredo_changes_ok:
  "ed_ok ed \<Longrightarrow> \<not> suppressEdits ed \<Longrightarrow> revertible cs (length (texts ed)) \<Longrightarrow> \<forall>c \<in> set cs. live c \<Longrightarrow>
     \<exists>o' ed'. unredo_changes cs out ed = Some (out @ o', ed') \<and> ed_ok ed' \<and> (\<forall>c \<in> set o'. live c) \<and>
       unredo_loop (map (map_change hlText) cs) (texts ed) = (map (map_change hlText) o', texts ed') \<and>
       history ed' = history ed \<and> options ed' = options ed \<and> suppressEdits ed' = suppressEdits ed"
proof (induction cs arbitrary: ed out)
  case (Cons c cs)
  from Cons.prems have c: "in_range c (length (texts ed))" "live c" by simp_all
  obtain c' ed1 where u: "unredo_change c ed = Some (c', ed1)" "ed_ok ed1" "texts ed1 = revert (map_change hlText c) (texts ed)"
      "map_change hlText c' = inverse (map_change hlText c) (texts ed)" "live c'" "history ed1 = history ed"
      "options ed1 = options ed" "suppressEdits ed1 = suppressEdits ed"
    using unredo_change_ok [OF Cons.prems(1,2) c] by blast
  have "length (texts ed1) = length (texts ed) - nat (cadded c) + length (cold c)"
    unfolding u(3) using length_revert [of "map_change hlText c" "texts ed"] c(1) by (simp add: in_range_def)
  then have r: "revertible cs (length (texts ed1))" using Cons.prems(3) by simp
  obtain o' ed2 where v: "unredo_changes cs (out @ [c']) ed1 = Some ((out @ [c']) @ o', ed2)" "ed_ok ed2"
      "\<forall>c \<in> set o'. live c" "unredo_loop (map (map_change hlText) cs) (texts ed1) = (map (map_change hlText) o', texts ed2)"
      "history ed2 = history ed1" "options ed2 = options ed1" "suppressEdits ed2 = suppressEdits ed1"
    using Cons.IH [OF u(2) _ r, of "out @ [c']"] Cons.prems u(8) by auto
  show ?case
    by (rule exI [of _ "c' # o'"], rule exI [of _ ed2]) (use u v in simp)
qed simp

lemma revertible_map [simp]: "revertible (map (map_change f) cs) n = revertible cs n"
  by (induction cs arbitrary: n) (auto simp: in_range_def)


subsection \<open>The editor's undo is the abstract one\<close>

lemma rev_concat_map: "rev (concat (map (map g) xss)) = map g (rev (concat xss))"
  by (metis map_concat rev_map)

lemma hist_ok_abs:
  "hist_ok (abs_ed ed) \<longleftrightarrow>
     revertible (rev (concat (hdone (the (history ed))))) (length (texts ed)) \<and>
     revertible (concat (map rev (rev (hundone (the (history ed)))))) (length (texts ed))"
proof -
  have "concat (map rev (rev (map (map g) xss))) = map g (concat (map rev (rev xss)))" for g :: "hl change \<Rightarrow> jstring change" and xss
    by (induction xss) (simp_all add: rev_map)
  then show ?thesis
    by (simp add: hist_ok_def abs_ed_def all_done_def rev_concat_map del: length_texts)
qed

theorem undo_refines:
  assumes ok: "undo_ok ed"
  shows "\<exists>ed'. undo ed = Some ed' \<and> undo_ok ed' \<and> abs_ed ed' = undo_lines (abs_ed ed)"
proof -
  from ok obtain h where h: "history ed = Some h" by (auto simp: undo_ok_def)
  show ?thesis
  proof (cases "hdone h" rule: rev_cases)
    case Nil
    with h ok show ?thesis by (simp add: undo_def undo_lines_def abs_ed_def)
  next
    case (snoc A cs)
    let ?ed1 = "ed\<lparr>history := Some (h\<lparr>hdone := A\<rparr>)\<rparr>"
    have e1: "ed_ok ?ed1" "\<not> suppressEdits ?ed1" "texts ?ed1 = texts ed"
      using ok by (simp_all add: undo_ok_def ed_ok_def struct_ok_def known_def texts_def all_visible_def)
    have r: "revertible (rev cs) (length (texts ?ed1))" "\<forall>c \<in> set (rev cs). live c"
      using ok h snoc unfolding undo_ok_def hist_ok_abs e1(3) by auto
    obtain o' ed2 where u: "unredo_changes (rev cs) [] ?ed1 = Some (o', ed2)" "ed_ok ed2" "\<forall>c \<in> set o'. live c"
        "unredo_loop (map (map_change hlText) (rev cs)) (texts ed) = (map (map_change hlText) o', texts ed2)"
        "history ed2 = Some (h\<lparr>hdone := A\<rparr>)" "\<not> suppressEdits ed2"
      using unredo_changes_ok [OF e1(1,2) r, of "[]"] e1(2) unfolding e1(3) by auto
    let ?ed' = "ed2\<lparr>updateInput := Some True, history := Some (h\<lparr>hdone := A, hundone := hundone h @ [o']\<rparr>)\<rparr>"
    have un: "undo ed = Some ?ed'" using h snoc u(1,5) by (simp add: undo_def)
    have ab: "abs_ed ?ed' = undo_lines (abs_ed ed)"
      using h snoc u(4) by (simp add: abs_ed_def undo_lines_def unredo_def rev_map map_history_def texts_def)
    have "hist_ok (abs_ed ?ed')" unfolding ab using ok hist_ok_undo [of "abs_ed ed"] by (simp add: undo_ok_def)
    then have "undo_ok ?ed'"
      using u ok h snoc by (auto simp: undo_ok_def ed_ok_def struct_ok_def known_def texts_def all_visible_def)
    with un ab show ?thesis by blast
  qed
qed

theorem redo_refines:
  assumes ok: "undo_ok ed"
  shows "\<exists>ed'. redo ed = Some ed' \<and> undo_ok ed' \<and> abs_ed ed' = redo_lines (abs_ed ed)"
proof -
  from ok obtain h where h: "history ed = Some h" by (auto simp: undo_ok_def)
  show ?thesis
  proof (cases "hundone h" rule: rev_cases)
    case Nil
    with h ok show ?thesis by (simp add: redo_def redo_lines_def abs_ed_def)
  next
    case (snoc A cs)
    let ?ed1 = "ed\<lparr>history := Some (h\<lparr>hundone := A\<rparr>)\<rparr>"
    have e1: "ed_ok ?ed1" "\<not> suppressEdits ?ed1" "texts ?ed1 = texts ed"
      using ok by (simp_all add: undo_ok_def ed_ok_def struct_ok_def known_def texts_def all_visible_def)
    have r: "revertible (rev cs) (length (texts ?ed1))" "\<forall>c \<in> set (rev cs). live c"
      using ok h snoc unfolding undo_ok_def hist_ok_abs e1(3) by auto
    obtain o' ed2 where u: "unredo_changes (rev cs) [] ?ed1 = Some (o', ed2)" "ed_ok ed2" "\<forall>c \<in> set o'. live c"
        "unredo_loop (map (map_change hlText) (rev cs)) (texts ed) = (map (map_change hlText) o', texts ed2)"
        "history ed2 = Some (h\<lparr>hundone := A\<rparr>)" "\<not> suppressEdits ed2"
      using unredo_changes_ok [OF e1(1,2) r, of "[]"] e1(2) unfolding e1(3) by auto
    let ?ed' = "ed2\<lparr>updateInput := Some True, history := Some (h\<lparr>hundone := A, hdone := hdone h @ [o']\<rparr>)\<rparr>"
    have un: "redo ed = Some ?ed'" using h snoc u(1,5) by (simp add: redo_def)
    have ab: "abs_ed ?ed' = redo_lines (abs_ed ed)"
      using h snoc u(4) by (simp add: abs_ed_def redo_lines_def unredo_def rev_map map_history_def texts_def)
    have "hist_ok (abs_ed ?ed')" unfolding ab using ok hist_ok_redo [of "abs_ed ed"] by (simp add: undo_ok_def)
    then have "undo_ok ?ed'"
      using u ok h snoc by (auto simp: undo_ok_def ed_ok_def struct_ok_def known_def texts_def all_visible_def)
    with un ab show ?thesis by blast
  qed
qed


subsection \<open>Every edit is a step of the abstract history\<close>

lemma live_merge:
  "live l \<Longrightarrow> 0 < k \<Longrightarrow> live (merge_change l s k old)"
  by (auto simp: merge_change_def Let_def max_def)

lemma live_addChange:
  assumes "\<forall>c \<in> set (all_done h). live c" "0 < k" "old \<noteq> []"
  shows "\<forall>c \<in> set (all_done (addChange now s k old h)). live c"
  using addChange_all_done [of now s k old h] assms by (auto simp: live_merge)

lemma set_all_done: "set (all_done h) = set (concat (hdone h))"
  by (simp add: all_done_def)

lemma live_trim: "\<forall>c \<in> set (all_done h). live c \<Longrightarrow> \<forall>c \<in> set (all_done (trim_depth n h)). live c"
  using all_done_trim [of h n] by auto

lemma hist_ok_trim: "hist_ok (h, d) \<Longrightarrow> hist_ok (trim_depth n h, d)"
  using trim_depth_revertible [of h "length d" n] by (simp add: hist_ok_def trim_depth_def)

definition abs_edit :: "int \<Rightarrow> nat \<Rightarrow> nat \<Rightarrow> nat \<Rightarrow> 'l list \<Rightarrow> 'l history \<times> 'l list \<Rightarrow> 'l history \<times> 'l list" where
  "abs_edit now depth s n new hd1 = (case hd1 of (h, d) \<Rightarrow>
     (trim_depth depth (addChange now (int s) (int (length new)) (take n (drop s d)) h), splice_at s n new d))"

theorem updateLines_refines:
  assumes ok: "undo_ok ed" and p: "pos_ok (texts ed) from" "pos_ok (texts ed) to" "from \<le> to" and ls: "ls \<noteq> []"
  shows "\<exists>ed' s n new. updateLines from to ls sf st ed = Some ed' \<and> undo_ok ed' \<and>
     s + n \<le> length (texts ed) \<and> 0 < n \<and> new \<noteq> [] \<and> texts ed' = text_edit from to ls (texts ed) \<and>
     (sel_from ed', sel_to ed') = norm_sel (texts ed') sf st \<and>
     options ed' = options ed \<and> abs_ed ed' = abs_edit (clock ed) (undoDepth (options ed)) s n new (abs_ed ed)"
proof -
  from ok obtain h where h: "history ed = Some h" by (auto simp: undo_ok_def)
  let ?s = "nat (pline from)" and ?n = "nat (pline to - pline from) + 1"
  obtain new where new: "text_edit from to ls (texts ed) = splice_at ?s ?n new (texts ed)" "length new = length ls"
      "?s + ?n \<le> length (texts ed)" "pline from = int ?s"
    using text_edit_splice [OF p ls] by blast
  let ?old = "map line_hl (take ?n (drop ?s (lines ed)))"
  obtain ed' where ed': "updateLines from to ls sf st ed = Some ed'" "ed_ok ed'"
      "texts ed' = splice_at ?s ?n new (texts ed)" "(sel_from ed', sel_to ed') = norm_sel (texts ed') sf st"
      "history ed' = Some (trim_depth (undoDepth (options ed)) (addChange (clock ed) (pline from) (int (length ls)) ?old h))"
      "options ed' = options ed" "suppressEdits ed' = suppressEdits ed"
    using updateLines_ok [OF _ _ p ls, of sf st] ok h new(1) unfolding undo_ok_def by auto
  have old: "map hlText ?old = take ?n (drop ?s (texts ed))" "?old \<noteq> []"
    using new(3) by (simp_all add: texts_def take_map drop_map)
  have ab: "abs_ed ed' = abs_edit (clock ed) (undoDepth (options ed)) ?s ?n new (abs_ed ed)"
    unfolding abs_ed_def abs_edit_def prod.case ed'(3,5) h option.sel map_trim_depth map_addChange old(1) new(2)
    using p(1) by (simp add: pos_ok_def)
  have a: "abs_ed ed = (map_history hlText h, texts ed)" by (simp add: abs_ed_def h)
  have "hist_ok (abs_edit (clock ed) (undoDepth (options ed)) ?s ?n new (map_history hlText h, texts ed))"
    unfolding abs_edit_def prod.case
    by (rule hist_ok_trim, rule hist_ok_addChange [OF _ new(3)]) (use ok a in \<open>simp add: undo_ok_def\<close>)
  then have "hist_ok (abs_ed ed')" unfolding ab a .
  moreover have "\<forall>c \<in> set (all_done (the (history ed'))). live c"
    unfolding ed'(5) option.sel
    by (rule live_trim, rule live_addChange) (use ok h ls old(2) in \<open>auto simp: undo_ok_def set_all_done\<close>)
  moreover have "hundone (the (history ed')) = []" by (simp add: ed'(5) trim_depth_def)
  ultimately have "undo_ok ed'" using ok ed' by (auto simp: undo_ok_def set_all_done)
  moreover have "new \<noteq> []" using new(2) ls by auto
  ultimately show ?thesis using ed' ab new by (intro exI [of _ ed'] exI [of _ ?s] exI [of _ ?n] exI [of _ new]) auto
qed

text \<open>Undoing an edit that started a new change set gives back the text, the selection apart.\<close>

lemma undo_lines_fresh_edit:
  assumes ok: "hist_ok (h, d)" and n: "s + n \<le> length d"
    and fresh: "hdone (fst (abs_edit now depth s n new (h, d))) \<noteq> []"
      "last (hdone (fst (abs_edit now depth s n new (h, d)))) =
         [\<lparr>cstart = int s, cadded = int (length new), cold = take n (drop s d)\<rparr>]"
  shows "snd (undo_lines (abs_edit now depth s n new (h, d))) = d"
proof -
  have "undo_lines (abs_edit now depth s n new (h, d)) =
      (let (out, d') = unredo [\<lparr>cstart = int s, cadded = int (length new), cold = take n (drop s d)\<rparr>] (splice_at s n new d)
       in ((fst (abs_edit now depth s n new (h, d)))\<lparr>hdone := butlast (hdone (fst (abs_edit now depth s n new (h, d)))),
            hundone := hundone (fst (abs_edit now depth s n new (h, d))) @ [out]\<rparr>, d'))"
    using fresh unfolding undo_lines_def by (cases "abs_edit now depth s n new (h, d)") (simp add: abs_edit_def)
  moreover have "revert \<lparr>cstart = int s, cadded = int (length new), cold = take n (drop s d)\<rparr> (splice_at s n new d) = d"
    using n by (simp add: revert_def splice_at_def) (metis append.assoc append_take_drop_id drop_drop add.commute)
  ultimately show ?thesis by (simp add: unredo_def case_prod_beta)
qed

end
