(* ===== verification/CM_Api.thy ===== *)
theory CM_Api
  imports CM_Undo
begin

section \<open>The editor's interface on the flat text\<close>

text \<open>
  \<open>getValue\<close> is the flat text: the lines joined by line feeds.  The lemmas describe \<open>setValue\<close>,
  \<open>getRange\<close>, \<open>replaceRange\<close>, \<open>posFromIndex\<close>, \<open>indexFromPos\<close> and \<open>splitLines\<close> by that text and offsets
  into it.
\<close>

abbreviation nl :: char where "nl \<equiv> CHR 0x0A"

abbreviation cr :: char where "cr \<equiv> CHR 0x0D"

definition flat :: "jstring list \<Rightarrow> jstring" where
  "flat d = js_join [nl] d"

definition before_line :: "jstring list \<Rightarrow> nat \<Rightarrow> jstring" where
  "before_line d a = concat (map (\<lambda>x. x @ [nl]) (take a d))"

definition after_line :: "jstring list \<Rightarrow> nat \<Rightarrow> jstring" where
  "after_line d a = concat (map (\<lambda>x. nl # x) (drop (Suc a) d))"

definition offset :: "jstring list \<Rightarrow> pos \<Rightarrow> nat" where
  "offset d p = length (before_line d (nat (pline p))) + nat (pch p)"

lemma flat_append: "xs \<noteq> [] \<Longrightarrow> flat (xs @ ys) = flat xs @ concat (map (\<lambda>x. nl # x) ys)"
proof (induction xs)
  case (Cons x xs)
  have one: "js_join [nl] (x # ys) = x @ concat (map (\<lambda>x. nl # x) ys)" for x
    by (induction ys arbitrary: x) simp_all
  show ?case
  proof (cases "xs = []")
    case True
    with one show ?thesis by (simp add: flat_def)
  next
    case False
    with Cons.IH show ?thesis by (simp add: flat_def js_join_Cons)
  qed
qed simp

lemma flat_prepend: "ys \<noteq> [] \<Longrightarrow> flat (xs @ ys) = concat (map (\<lambda>x. x @ [nl]) xs) @ flat ys"
  by (induction xs) (simp_all add: flat_def js_join_Cons)

lemma flat_middle:
  "ys \<noteq> [] \<Longrightarrow> flat (xs @ ys @ zs) = concat (map (\<lambda>x. x @ [nl]) xs) @ flat ys @ concat (map (\<lambda>x. nl # x) zs)"
  by (simp add: flat_prepend flat_append)

lemma flat_single [simp]: "flat [x] = x"
  by (simp add: flat_def)

lemma flat_line: "a < length d \<Longrightarrow> flat d = before_line d a @ d ! a @ after_line d a"
  using flat_middle [of "[d ! a]" "take a d" "drop (Suc a) d"]
  by (simp add: before_line_def after_line_def Cons_nth_drop_Suc)

lemma flat_joined: "ls \<noteq> [] \<Longrightarrow> flat (joined p ls q) = p @ flat ls @ q"
proof -
  assume ls: "ls \<noteq> []"
  have snoc: "flat (xs @ [y @ q]) = flat (xs @ [y]) @ q" for xs and y :: jstring
    by (cases "xs = []") (simp_all add: flat_append)
  have cons: "flat ((p @ y) # ys) = p @ flat (y # ys)" for ys and y :: jstring
    using flat_append [of "[p @ y]" ys] flat_append [of "[y]" ys] by simp
  show ?thesis
  proof (cases "length ls = 1")
    case True
    then show ?thesis by (cases ls) (auto simp: joined_def)
  next
    case False
    then obtain x ys y where "ls = x # ys @ [y]"
      using ls by (cases ls; cases "tl ls" rule: rev_cases) auto
    then show ?thesis
      using snoc [of "(p @ x) # ys" y] cons [of x "ys @ [y]"] by (simp add: joined_def)
  qed
qed

lemma offset_le: "pos_ok d p \<Longrightarrow> offset d p \<le> length (flat d)"
  using flat_line [of "nat (pline p)" d] by (auto simp: offset_def pos_ok_def)

lemma take_offset: "pos_ok d p \<Longrightarrow>
    take (offset d p) (flat d) = before_line d (nat (pline p)) @ take (nat (pch p)) (d ! nat (pline p))"
  using flat_line [of "nat (pline p)" d] by (auto simp: offset_def pos_ok_def)

lemma drop_offset: "pos_ok d p \<Longrightarrow>
    drop (offset d p) (flat d) = drop (nat (pch p)) (d ! nat (pline p)) @ after_line d (nat (pline p))"
  using flat_line [of "nat (pline p)" d] by (auto simp: offset_def pos_ok_def)

text \<open>An edit of lines is a splice of the flat text.\<close>

theorem flat_text_edit:
  assumes p: "pos_ok d from" "pos_ok d to" "from \<le> to" and ls: "ls \<noteq> []"
  shows "flat (text_edit from to ls d) = take (offset d from) (flat d) @ flat ls @ drop (offset d to) (flat d)"
proof -
  have ac: "nat (pline from) + (nat (pline to - pline from) + 1) = Suc (nat (pline to))"
    using p by (auto simp: pos_ok_def pos_le_iff)
  have ne: "joined a ls b \<noteq> []" for a b using length_joined [OF ls, of a b] ls by auto
  show ?thesis
    unfolding text_edit_def splice_at_def ac take_offset [OF p(1)] drop_offset [OF p(2)]
    by (simp add: flat_middle [OF ne] flat_joined [OF ls] before_line_def after_line_def)
qed

subsection \<open>Reading\<close>

lemma getValue_texts: "doc_ok (doc ed) \<Longrightarrow> getValue ed sep = js_join sep (texts ed)"
  by (simp add: getValue_def iter_list_lines doc_size_lines texts_def)

lemma drop_take_flat:
  assumes "a < c" "c < length d"
  shows "flat d = before_line d a @ d ! a @ concat (map (\<lambda>x. nl # x) (take (c - Suc a) (drop (Suc a) d))) @ nl # d ! c @ after_line d c"
proof -
  have "drop (Suc a) d = take (c - Suc a) (drop (Suc a) d) @ d ! c # drop (Suc c) d"
    using assms by (metis Cons_nth_drop_Suc Suc_leI append_take_drop_id drop_drop le_add_diff_inverse2)
  then have "after_line d a = concat (map (\<lambda>x. nl # x) (take (c - Suc a) (drop (Suc a) d) @ d ! c # drop (Suc c) d))"
    unfolding after_line_def by (rule arg_cong)
  with flat_line [of a d] assms show ?thesis by (simp add: after_line_def)
qed

theorem getRange_flat:
  assumes d: "doc_ok (doc ed)" and p: "pos_ok (texts ed) from" "pos_ok (texts ed) to" "from \<le> to"
  shows "getRange ed from to [nl] =
     Some (take (offset (texts ed) to - offset (texts ed) from) (drop (offset (texts ed) from) (flat (texts ed))))"
proof -
  let ?T = "texts ed"
  obtain a b where f: "from = Pos (int a) (int b)" and a: "a < length ?T" "b \<le> length (?T ! a)" by (rule pos_okE [OF p(1)])
  obtain c e where t: "to = Pos (int c) (int e)" and c: "c < length ?T" "e \<le> length (?T ! c)" by (rule pos_okE [OF p(2)])
  have dr: "drop (offset ?T from) (flat ?T) = drop b (?T ! a) @ after_line ?T a"
    using drop_offset [OF p(1)] by (simp add: f)
  show ?thesis
  proof (cases "a = c")
    case True
    with p(3) have "b \<le> e" by (simp add: f t pos_le_iff)
    with True c show ?thesis
      unfolding dr by (simp add: getRange_def line_text_texts [OF d] f t js_slice_nat offset_def)
  next
    case False
    with p(3) have ac: "a < c" by (simp add: f t pos_le_iff)
    let ?mid = "concat (map (\<lambda>x. nl # x) (take (c - Suc a) (drop (Suc a) ?T)))"
    have il: "map ltext (iter_list ed (int a + 1) (int c)) = take (c - Suc a) (drop (Suc a) ?T)"
      by (simp add: iter_list_lines [OF d] texts_def take_map drop_map nat_add_distrib)
    have val: "getRange ed from to [nl] = Some (flat (drop b (?T ! a) # take (c - Suc a) (drop (Suc a) ?T) @ [take e (?T ! c)]))"
      using False a c il js_slice_nat [of "?T ! c" 0 e]
      by (simp add: getRange_def line_text_texts [OF d] f t js_slice_from_nat flat_def)
    have fl: "flat (x # xs @ [y]) = x @ concat (map (\<lambda>x. nl # x) xs) @ nl # y" for x y and xs :: "jstring list"
      using flat_append [of "[x]" "xs @ [y]"] by simp
    have "flat ?T = before_line ?T a @ ?T ! a @ ?mid @ nl # ?T ! c @ after_line ?T c"
      by (rule drop_take_flat [OF ac c(1)])
    moreover have "flat ?T = before_line ?T c @ ?T ! c @ after_line ?T c" by (rule flat_line [OF c(1)])
    ultimately have "before_line ?T c @ (?T ! c @ after_line ?T c) =
        (before_line ?T a @ ?T ! a @ ?mid @ [nl]) @ (?T ! c @ after_line ?T c)" by simp
    then have bc: "before_line ?T c = before_line ?T a @ ?T ! a @ ?mid @ [nl]" by (rule append_same_eq [THEN iffD1])
    have al: "after_line ?T a = ?mid @ nl # ?T ! c @ after_line ?T c"
      using flat_line [OF a(1)] drop_take_flat [OF ac c(1)] by simp
    have n: "offset ?T to - offset ?T from = length (drop b (?T ! a) @ ?mid @ nl # take e (?T ! c))"
      using a c bc by (simp add: offset_def f t)
    have "take e (?T ! c) @ drop e (?T ! c) @ after_line ?T c = ?T ! c @ after_line ?T c" by (simp flip: append.assoc)
    then have "drop b (?T ! a) @ after_line ?T a = (drop b (?T ! a) @ ?mid @ nl # take e (?T ! c)) @ drop e (?T ! c) @ after_line ?T c"
      unfolding al by simp
    with c(2) show ?thesis unfolding val fl dr n by (simp add: min_absorb2)
  qed
qed


subsection \<open>Offsets and positions\<close>

lemma length_before: "length (before_line d a) = sum_list (map (\<lambda>x. Suc (length x)) (take a d))"
  by (simp add: before_line_def length_concat comp_def)

lemma indexFromPos_offset:
  fixes ed :: "('g, 's) editor"
  assumes d: "doc_ok (doc ed)" and p: "pos_ok (texts ed) p"
  shows "indexFromPos ed (pline p) (pch p) = int (offset (texts ed) p)"
proof -
  have s: "sum_list (map (\<lambda>x. int (length (ltext x)) + 1) xs) = int (sum_list (map (\<lambda>x. Suc (length x)) (map ltext xs)))"
    for xs :: "'s line list" by (induction xs) auto
  have il: "map ltext (iter_list ed 0 (pline p)) = take (nat (pline p)) (texts ed)"
    by (simp add: iter_list_lines [OF d] texts_def take_map)
  have "sum_list (map (\<lambda>x. int (length (ltext x)) + 1) (iter_list ed 0 (pline p))) =
      int (sum_list (map (\<lambda>x. Suc (length x)) (take (nat (pline p)) (texts ed))))"
    unfolding s il ..
  then show ?thesis
    using p unfolding indexFromPos_def offset_def length_before pos_ok_def by simp
qed

abbreviation "index_op \<equiv> (\<lambda>l (o1, no, c). (let sz = int (length (ltext l)) + 1 in
    if sz > o1 then (True, (o1, no, Some o1)) else (False, (o1 - sz, no + 1, c))))"

lemma index_loop:
  "a < length ls \<Longrightarrow> b \<le> length (ltext (ls ! a)) \<Longrightarrow>
   iter_lines index_op ls (int (sum_list (map (\<lambda>x. Suc (length (ltext x))) (take a ls)) + b), n, c) =
     (True, (int b, n + int a, Some (int b)))"
proof (induction ls arbitrary: a n)
  case (Cons l ls)
  show ?case
  proof (cases a)
    case 0
    with Cons.prems show ?thesis by simp
  next
    case (Suc a')
    with Cons.IH [of a' "n + 1"] Cons.prems show ?thesis by (simp add: algebra_simps)
  qed
qed simp

theorem posFromIndex_offset:
  assumes d: "doc_ok (doc ed)" and p: "pos_ok (texts ed) p"
  shows "posFromIndex ed (int (offset (texts ed) p)) = Some p"
proof -
  obtain a b where f: "p = Pos (int a) (int b)" and a: "a < length (texts ed)" "b \<le> length (texts ed ! a)"
    by (rule pos_okE [OF p])
  have sz: "chunkSize (doc ed) = length (lines ed)" using d by (simp add: doc_ok_def chunkSize_collapse)
  have "sum_list (map (\<lambda>x. Suc (length x)) (take a (texts ed))) = sum_list (map (\<lambda>x. Suc (length (ltext x))) (take a (lines ed)))"
    by (simp add: texts_def take_map comp_def)
  moreover have "b \<le> length (ltext (lines ed ! a))" using a by (simp add: texts_def)
  ultimately have "doc_iter 0 (chunkSize (doc ed)) index_op (doc ed) (int (offset (texts ed) p), 0, None) =
      (True, (int b, int a, Some (int b)))"
    using index_loop [of a "lines ed" b 0 None] a(1) by (simp add: doc_iter_collapse [OF d] sz offset_def f length_before)
  then have "posFromIndex ed (int (offset (texts ed) p)) = clipPos ed (int a) (Some (int b))"
    unfolding posFromIndex_def Let_def by simp
  moreover have "texts ed \<noteq> []" using a(1) by (metis less_nat_zero_code list.size(3))
  ultimately show ?thesis using clipPos_text [OF d] clip_text_id [OF p] by (simp add: f)
qed

text \<open>Every offset of the flat text is the one of a valid position.\<close>

lemma offset_surj: "d \<noteq> [] \<Longrightarrow> i \<le> length (flat d) \<Longrightarrow> \<exists>p. pos_ok d p \<and> offset d p = i"
proof (induction d arbitrary: i)
  case (Cons x xs)
  show ?case
  proof (cases "i \<le> length x")
    case True
    then show ?thesis
      by (intro exI [of _ "Pos 0 (int i)"]) (simp add: pos_ok_def offset_def before_line_def)
  next
    case False
    then have ne: "xs \<noteq> []" using Cons.prems by auto
    then have "length (flat (x # xs)) = Suc (length x) + length (flat xs)"
      using flat_prepend [of xs "[x]"] by simp
    with Cons.prems False have "i - Suc (length x) \<le> length (flat xs)" by simp
    from Cons.IH [OF ne this] obtain p where p: "pos_ok xs p" "offset xs p = i - Suc (length x)" by blast
    obtain a b where f: "p = Pos (int a) (int b)" by (rule pos_okE [OF p(1)])
    have "nat (1 + int a) = Suc a" by simp
    with p False show ?thesis
      by (intro exI [of _ "Pos (1 + int a) (int b)"]) (auto simp: pos_ok_def offset_def before_line_def f)
  qed
qed simp

theorem indexFromPos_posFromIndex:
  assumes d: "doc_ok (doc ed)" and ne: "texts ed \<noteq> []" and i: "i \<le> length (flat (texts ed))"
  shows "\<exists>p. posFromIndex ed (int i) = Some p \<and> pos_ok (texts ed) p \<and> indexFromPos ed (pline p) (pch p) = int i"
  using offset_surj [OF ne i] posFromIndex_offset [OF d] indexFromPos_offset [OF d] by metis

end
