(* ===== verification/CM_Split.thy ===== *)
theory CM_Split
  imports CM_Api
begin

section \<open>Splitting text into lines, and setting the whole value\<close>

text \<open>
  \<open>splitLines\<close> against the normalisation of line ends, the hand-written variant for browsers with a
  broken \<open>split\<close> against the regular expression, and \<open>setValue\<close>, \<open>replaceRange\<close> and
  \<open>replaceSelection\<close> on the flat text.
\<close>

definition no_break :: "jstring \<Rightarrow> bool" where
  "no_break x \<longleftrightarrow> nl \<notin> set x \<and> cr \<notin> set x"

text \<open>The text with its line ends replaced by line feeds.\<close>

fun norm_nl :: "jstring \<Rightarrow> jstring" where
  "norm_nl [] = []"
| "norm_nl (c # cs) =
     (if c = cr then nl # (case cs of d # ds \<Rightarrow> if d = nl then norm_nl ds else norm_nl cs | [] \<Rightarrow> [])
      else c # norm_nl cs)"

lemma splitLines_nonempty [simp]: "splitLines s \<noteq> []"
  by (cases s) (auto split: list.split)

lemma flat_Cons: "ls \<noteq> [] \<Longrightarrow> flat (x # ls) = x @ nl # flat ls"
  by (simp add: flat_def js_join_Cons)

lemma flat_add_first: "ls \<noteq> [] \<Longrightarrow> flat ((c # hd ls) # tl ls) = c # flat ls"
  by (cases ls; cases "tl ls") (auto simp: flat_def)

lemma flat_splitLines: "flat (splitLines s) = norm_nl s"
proof (induction s rule: splitLines.induct)
  case (2 c cs)
  have "(case splitLines cs of [] \<Rightarrow> [[c]] | x # xs \<Rightarrow> (c # x) # xs) = (c # hd (splitLines cs)) # tl (splitLines cs)"
    by (cases "splitLines cs") auto
  with 2 show ?case
    by (auto simp: flat_Cons flat_add_first split: list.split)
qed (simp add: flat_def)

lemma norm_nl_id: "cr \<notin> set s \<Longrightarrow> norm_nl s = s"
  by (induction s) auto

lemma splitLines_no_break: "x \<in> set (splitLines s) \<Longrightarrow> no_break x"
proof (induction s arbitrary: x rule: splitLines.induct)
  case (2 c cs)
  show ?case
  proof (cases "c = nl \<or> c = cr")
    case True
    show ?thesis
    proof (cases "c = cr \<and> cs \<noteq> [] \<and> hd cs = nl")
      case crlf: True
      then obtain ds where ds: "cs = nl # ds" by (cases cs) auto
      have "x = [] \<or> x \<in> set (splitLines ds)" using "2.prems" crlf ds by auto
      with "2.IH"(2) [OF _ _ ds refl] crlf show ?thesis by (auto simp: no_break_def)
    next
      case False
      show ?thesis
      proof (cases "c = nl \<or> cs \<noteq> []")
        case t: True
        have "x = [] \<or> x \<in> set (splitLines cs)" using "2.prems" True False t by (cases cs) (auto split: if_splits)
        moreover have "y \<in> set (splitLines cs) \<Longrightarrow> no_break y" for y
          using "2.IH" True False t by (cases cs) (auto split: if_splits)
        ultimately show ?thesis by (auto simp: no_break_def)
      next
        case f: False
        with "2.prems" True show ?thesis by (auto simp: no_break_def)
      qed
    qed
  next
    case False
    obtain y ys where y: "splitLines cs = y # ys" by (cases "splitLines cs") auto
    with 2 False show ?thesis by (auto simp: no_break_def)
  qed
qed (simp add: no_break_def)

lemma splitLines_line: "no_break x \<Longrightarrow> splitLines x = [x]"
  by (induction x) (auto simp: no_break_def)

lemma splitLines_nl: "no_break x \<Longrightarrow> splitLines (x @ nl # t) = x # splitLines t"
  by (induction x) (auto simp: no_break_def)

lemma splitLines_crnl: "no_break x \<Longrightarrow> splitLines (x @ cr # nl # t) = x # splitLines t"
  by (induction x) (auto simp: no_break_def)

lemma splitLines_cr: "no_break x \<Longrightarrow> t \<noteq> [] \<Longrightarrow> hd t \<noteq> nl \<Longrightarrow> splitLines (x @ cr # t) = x # splitLines t"
  by (induction x) (auto simp: no_break_def split: list.split)

lemma splitLines_flat: "ls \<noteq> [] \<Longrightarrow> \<forall>x \<in> set ls. no_break x \<Longrightarrow> splitLines (flat ls) = ls"
proof (induction ls)
  case (Cons x xs)
  then show ?case
    by (cases "xs = []") (simp_all add: flat_Cons splitLines_nl splitLines_line)
qed simp

subsection \<open>The two variants of \<open>splitLines\<close>\<close>

lemma index_of_split: "index_of c t = Some r \<Longrightarrow> t = take r t @ c # drop (Suc r) t \<and> c \<notin> set (take r t)"
proof -
  have gen: "find_from (\<lambda>x. x = c) k t = Some (k + r) \<Longrightarrow> t = take r t @ c # drop (Suc r) t \<and> c \<notin> set (take r t)" for k r t
  proof (induction t arbitrary: k r)
    case (Cons x xs)
    show ?case
    proof (cases "x = c")
      case True
      with Cons.prems show ?thesis by simp
    next
      case False
      with Cons.prems have f: "find_from (\<lambda>x. x = c) (Suc k) xs = Some (k + r)" by simp
      with find_from_Some [OF f] obtain r' where r: "r = Suc r'" by (cases r) auto
      with Cons.IH [of "Suc k" r'] f False show ?thesis by simp
    qed
  qed simp
  assume "index_of c t = Some r"
  with gen [of 0 t r] show ?thesis by (simp add: index_of_def)
qed

lemma index_from_drop: "index_from c p s = map_option (\<lambda>i. p + i) (index_of c (drop p s))"
proof -
  have gen: "find_from P k xs = map_option (\<lambda>i. k + i) (find_from P 0 xs)" for P k and xs :: jstring
  proof (induction xs arbitrary: k)
    case (Cons x xs)
    show ?case
      by (simp only: find_from.simps Cons.IH [of "Suc k"] Cons.IH [of "Suc 0"])
        (cases "find_from P 0 xs", simp_all)
  qed simp
  show ?thesis unfolding index_from_def index_of_def by (rule gen)
qed

lemma charAt_before:
  assumes t: "t = drop p s" "p \<le> length s" and n: "n < length t"
  shows "charAt s (int (p + n) - 1) = Some cr \<longleftrightarrow>
    (0 < n \<and> t ! (n - 1) = cr) \<or> (n = 0 \<and> 0 < p \<and> s ! (p - 1) = cr)"
proof (cases "p + n")
  case 0
  then show ?thesis by (simp add: charAt_def)
next
  case (Suc m)
  have i: "int (p + n) - 1 = int m" using Suc by simp
  have "m < length s" using n t Suc by simp
  then have e: "charAt s (int (p + n) - 1) = Some (s ! m)" unfolding i by (simp add: charAt_def)
  show ?thesis
  proof (cases n)
    case 0
    with Suc show ?thesis unfolding e by simp
  next
    case (Suc k)
    then have "t ! k = s ! m" using t \<open>p + n = Suc m\<close> by simp
    with Suc show ?thesis unfolding e by simp
  qed
qed

text \<open>One round of the loop: the text from \<open>p\<close> on is the line, its end and the rest.\<close>

lemma ie_round:
  assumes t: "t = drop p s" "p \<le> length s" and e: "s = [] \<or> last s \<noteq> cr"
  shows "ie_split s p res =
    (case index_of nl t of
       None \<Rightarrow> (case index_of cr t of None \<Rightarrow> res @ [t] | Some r \<Rightarrow> ie_split s (p + r + 1) (res @ [take r t]))
     | Some n \<Rightarrow>
         let line = take (if 0 < n \<and> t ! (n - 1) = cr then n - 1 else n) t in
         (case index_of cr line of None \<Rightarrow> ie_split s (p + n + 1) (res @ [line])
          | Some r \<Rightarrow> ie_split s (p + r + 1) (res @ [take r line])))"
proof (cases "index_of nl t")
  case None
  have nocr: "charAt s (int (length s) - 1) \<noteq> Some cr"
  proof (cases "s = []")
    case False
    have "nat (int (length s) - 1) = length s - 1" by simp
    with False e last_conv_nth [OF False] show ?thesis by (simp add: charAt_def)
  qed (simp add: charAt_def)
  have sl: "js_slice s (int p) (int (length s)) = t" using t by (simp add: js_slice_nat)
  have stop: "ie_split s (Suc (length s)) r = r" for r by (subst ie_split.simps) simp
  show ?thesis
    by (subst ie_split.simps) (use t None nocr in \<open>simp add: index_from_drop sl stop Let_def split: option.split\<close>)
next
  case (Some n)
  from index_of_split [OF Some] index_of_Some [OF Some] have n: "n < length t" "t ! n = nl" by auto
  note ch = charAt_before [OF t n(1)]
  have "js_slice s (int p) (int (p + n - 1)) = take (n - 1) t" "js_slice s (int p) (int (p + n)) = take n t"
    using t unfolding js_slice_nat by (simp_all)
  then have sl: "js_slice s (int p) (int (if charAt s (int (p + n) - 1) = Some cr then p + n - 1 else p + n)) =
      take (if 0 < n \<and> t ! (n - 1) = cr then n - 1 else n) t"
    using ch by (cases "n = 0") auto
  have "ie_split s p res =
      (case index_of cr (js_slice s (int p) (int (if charAt s (int (p + n) - 1) = Some cr then p + n - 1 else p + n))) of
         Some rt \<Rightarrow> ie_split s (p + rt + 1) (res @ [take rt (js_slice s (int p) (int (if charAt s (int (p + n) - 1) = Some cr then p + n - 1 else p + n)))])
       | None \<Rightarrow> ie_split s (p + n + 1) (res @ [js_slice s (int p) (int (if charAt s (int (p + n) - 1) = Some cr then p + n - 1 else p + n))]))"
    by (rule trans [OF ie_split.simps])
      (simp only: t(2) if_True index_from_drop t(1) [symmetric] Some option.map(2) option.case Let_def)
  then show ?thesis unfolding sl Some option.case Let_def by (simp split: option.split)
qed


lemma take_prefix_no_break: "c \<notin> set (take n x) \<Longrightarrow> m \<le> n \<Longrightarrow> c \<notin> set (take m x)"
  using set_take_subset_set_take [of m n x] by blast

text \<open>Where a line ends: at a carriage return with no line feed after it, or at a line feed with or without one before it.\<close>

lemma splitLines_cut_cr:
  assumes "Suc r < length t" "t ! r = cr" "t ! Suc r \<noteq> nl" "no_break (take r t)"
  shows "splitLines t = take r t # splitLines (drop (Suc r) t)"
proof -
  have "hd (drop (Suc r) t) \<noteq> nl" "drop (Suc r) t \<noteq> []" using assms(1,3) by (simp_all add: hd_drop_conv_nth)
  then show ?thesis
    using splitLines_cr [of "take r t" "drop (Suc r) t"] assms id_take_nth_drop [of r t] by simp
qed

lemma splitLines_cut_nl:
  assumes n: "n < length t" "t ! n = nl" and m: "m = (if 0 < n \<and> t ! (n - 1) = cr then n - 1 else n)"
    and b: "no_break (take m t)"
  shows "splitLines t = take m t # splitLines (drop (Suc n) t)"
proof (cases "0 < n \<and> t ! (n - 1) = cr")
  case True
  then obtain k where k: "n = Suc k" "t ! k = cr" by (cases n) auto
  then have "t = take k t @ cr # nl # drop (Suc n) t"
    using n by (metis Suc_lessD append.assoc append_Cons append_Nil take_Suc_conv_app_nth id_take_nth_drop)
  with True k m b show ?thesis using splitLines_crnl [of "take k t" "drop (Suc n) t"] by simp
next
  case False
  then have "m = n" unfolding m by (rule if_not_P)
  with n b show ?thesis using splitLines_nl [of "take n t" "drop (Suc n) t"] id_take_nth_drop [OF n(1)] by simp
qed

lemma cr_inside:
  assumes "t = [] \<or> last t \<noteq> cr" "r < length t" "t ! r = cr"
  shows "Suc r < length t"
proof (rule ccontr)
  assume "\<not> Suc r < length t"
  with assms(2) have r: "r = length t - 1" "t \<noteq> []" by auto
  from last_conv_nth [OF r(2)] have "last t = cr" unfolding r(1) [symmetric] assms(3) .
  with assms(1) r(2) show False by blast
qed

text \<open>The first line of a text and what is left of it, found the way a round of the loop finds them.\<close>

lemma splitLines_round_cr:
  assumes t: "t = [] \<or> last t \<noteq> cr" and nl: "nl \<notin> set t"
  shows "splitLines t =
    (case index_of cr t of None \<Rightarrow> [t] | Some r \<Rightarrow> take r t # splitLines (drop (Suc r) t))"
proof (cases "index_of cr t")
  case None
  then have "no_break t" using nl by (simp add: no_break_def index_of_None)
  with None show ?thesis by (simp add: splitLines_line)
next
  case (Some r)
  have r: "r < length t" "t ! r = cr" "cr \<notin> set (take r t)"
    using index_of_Some [OF Some] index_of_split [OF Some] by simp_all
  note inner = cr_inside [OF t r(1,2)]
  have "no_break (take r t)" "t ! Suc r \<noteq> nl"
    using nl r(3) nth_mem [OF inner] by (auto simp: no_break_def dest: in_set_takeD)
  with Some show ?thesis using splitLines_cut_cr [OF inner r(2)] by simp
qed

lemma splitLines_round_nl:
  assumes t: "t = [] \<or> last t \<noteq> cr" and n: "index_of nl t = Some n"
    and m: "m = (if 0 < n \<and> t ! (n - 1) = cr then n - 1 else n)"
  shows "splitLines t =
    (case index_of cr (take m t) of
       None \<Rightarrow> take m t # splitLines (drop (Suc n) t)
     | Some r \<Rightarrow> take r t # splitLines (drop (Suc r) t))"
proof -
  from index_of_split [OF n] index_of_Some [OF n]
  have n': "nl \<notin> set (take n t)" "n < length t" "t ! n = nl" by auto
  have nb: "nl \<notin> set (take m t)" using take_prefix_no_break [OF n'(1)] m by simp
  show ?thesis
  proof (cases "index_of cr (take m t)")
    case None
    then have "no_break (take m t)" using nb by (simp add: no_break_def index_of_None)
    from splitLines_cut_nl [OF n'(2,3) m this] None show ?thesis by simp
  next
    case (Some r)
    have r: "cr \<notin> set (take r (take m t))" "r < m" "r < length t" "t ! r = cr"
      using index_of_Some [OF Some] index_of_split [OF Some] by auto
    have "r < n" using r(2) m by (simp split: if_splits)
    have "t ! Suc r \<noteq> nl"
    proof (cases "Suc r = n")
      case True
      then show ?thesis using r m by (auto split: if_splits)
    next
      case False
      then have "t ! Suc r \<in> set (take n t)"
        using \<open>r < n\<close> n'(2) by (auto simp: in_set_conv_nth intro!: exI [of _ "Suc r"])
      with n'(1) show ?thesis by auto
    qed
    moreover have "no_break (take r t)"
      using r(1,2) take_prefix_no_break [OF nb, of r] by (auto simp: no_break_def min_def)
    ultimately show ?thesis
      using splitLines_cut_cr [OF cr_inside [OF t r(3,4)] r(4)] Some by simp
  qed
qed

lemma ie_split_splitLines:
  assumes e: "s = [] \<or> last s \<noteq> cr"
  shows "p \<le> length s \<Longrightarrow> ie_split s p res = res @ splitLines (drop p s)"
proof (induction "length s - p" arbitrary: p res rule: less_induct)
  case less
  let ?t = "drop p s"
  have last: "?t = [] \<or> last ?t \<noteq> cr" using e by (cases "s = []") (auto simp: last_drop)
  have go: "ie_split s (p + Suc k) r = r @ splitLines (drop (Suc k) ?t)" if "k < length ?t" for k r
    using less.hyps [of "p + Suc k" r] that less.prems by (simp add: add.commute)
  note R = ie_round [OF refl less.prems e, of res]
  show ?case
  proof (cases "index_of nl ?t")
    case None
    then have "nl \<notin> set ?t" by (simp add: index_of_None)
    note cut = splitLines_round_cr [OF last this]
    show ?thesis
    proof (cases "index_of cr ?t")
      case (Some r)
      then have "r < length ?t" using index_of_Some [OF Some] by blast
      with cut R \<open>index_of nl ?t = None\<close> Some go show ?thesis by simp
    qed (use cut R None in simp)
  next
    case (Some n)
    obtain m where m: "m = (if 0 < n \<and> ?t ! (n - 1) = cr then n - 1 else n)" by blast
    have n: "n < length ?t" using index_of_Some [OF Some] by simp
    have Rn: "ie_split s p res =
        (case index_of cr (take m ?t) of
           None \<Rightarrow> ie_split s (p + n + 1) (res @ [take m ?t])
         | Some r \<Rightarrow> ie_split s (p + r + 1) (res @ [take r (take m ?t)]))"
      using R unfolding Some option.case Let_def m .
    show ?thesis
    proof (cases "index_of cr (take m ?t)")
      case None
      with splitLines_round_nl [OF last Some m] Rn go [OF n] show ?thesis by simp
    next
      case (Some r)
      then have r: "r < length ?t" "r \<le> m" using index_of_Some [OF Some] by auto
      with splitLines_round_nl [OF last \<open>index_of nl ?t = Some n\<close> m] Rn Some go [OF r(1)]
      show ?thesis by (simp add: min_def)
    qed
  qed
qed


subsection \<open>Setting and replacing text\<close>

lemma undo_okD:
  "undo_ok ed \<Longrightarrow> ed_ok ed" "undo_ok ed \<Longrightarrow> doc_ok (doc ed)" "undo_ok ed \<Longrightarrow> texts ed \<noteq> []"
  by (auto simp: undo_ok_def dest: ed_okD)

lemma last_pos_ok: "d \<noteq> [] \<Longrightarrow> pos_ok d (Pos (int (length d) - 1) (int (length (d ! nat (int (length d) - 1)))))"
  by (auto simp: pos_ok_def neq_Nil_conv)

lemma joined_empty: "ls \<noteq> [] \<Longrightarrow> joined [] ls [] = ls"
  by (rule joined_plain)

theorem setValue_ok:
  assumes ok: "undo_ok ed"
  shows "\<exists>ed'. setValue txt ed = Some ed' \<and> undo_ok ed' \<and> texts ed' = splitLines txt \<and> getValue ed' [nl] = norm_nl txt"
proof -
  note d = undo_okD [OF ok]
  let ?T = "texts ed" and ?n = "int (length (lines ed)) - 1"
  have sz: "doc_size ed - 1 = ?n" by (simp add: doc_size_lines [OF d(2)])
  have ne: "lines ed \<noteq> []" using d(3) by (simp add: texts_def)
  then have lt: "line_text ed ?n = Some (?T ! nat ?n)" by (simp add: line_text_texts [OF d(2)])
  let ?to = "Pos ?n (int (length (?T ! nat ?n)))"
  have p: "pos_ok ?T (Pos 0 0)" "pos_ok ?T ?to" "Pos 0 0 \<le> ?to"
    using last_pos_ok [OF d(3)] ne by (cases "lines ed"; auto simp: pos_ok_def pos_le_iff)+
  have "nat ?n + 1 = length (lines ed)" using ne by (cases "lines ed") auto
  then have te: "text_edit (Pos 0 0) ?to (splitLines txt) ?T = splitLines txt"
    by (simp add: text_edit_def splice_at_def joined_empty)
  obtain ed1 where e: "updateLines (Pos 0 0) ?to (splitLines txt) (Pos 0 0) (Pos 0 0) ed = Some ed1" "undo_ok ed1"
      "texts ed1 = splitLines txt"
    using updateLines_refines [OF ok p splitLines_nonempty, of "txt" "Pos 0 0" "Pos 0 0"] te by auto
  let ?e = "ed1\<lparr>updateInput := Some True\<rparr>"
  have v: "setValue txt ed = Some ?e" by (simp add: setValue_def sz lt e(1))
  have u: "undo_ok ?e" "texts ?e = splitLines txt"
    using e(2,3) by (simp_all add: undo_ok_def ed_ok_def struct_ok_def known_def texts_def all_visible_def abs_ed_def)
  have "getValue ?e [nl] = norm_nl txt"
    using getValue_texts [OF undo_okD(2) [OF u(1)]] u(2) flat_splitLines by (simp add: flat_def)
  with v u show ?thesis by blast
qed

lemma code_end_ok:
  assumes p: "pos_ok d from" "pos_ok d to" "from \<le> to" and ls: "ls \<noteq> []"
  shows "pos_ok (text_edit from to ls d) (code_end ls from)"
    "offset (text_edit from to ls d) (code_end ls from) = offset d from + length (flat ls)"
proof -
  obtain a b where f: "from = Pos (int a) (int b)" and a: "a < length d" "b \<le> length (d ! a)" by (rule pos_okE [OF p(1)])
  obtain c e where t: "to = Pos (int c) (int e)" and c: "c < length d" "e \<le> length (d ! c)" by (rule pos_okE [OF p(2)])
  let ?q = "drop e (d ! c)" and ?j = "joined (take b (d ! a)) ls (drop e (d ! c))"
  have ac: "a \<le> c" using p(3) by (auto simp: f t pos_le_iff)
  have te: "text_edit from to ls d = take a d @ ?j @ drop (Suc c) d"
    using ac by (simp add: text_edit_def splice_at_def f t nat_diff_distrib)
  let ?d' = "text_edit from to ls d"
  obtain m where m: "length ls = Suc m" using ls by (cases ls) auto
  define k where "k = (if length ls = 1 then length (hd ls) + b else length (last ls))"
  have ce: "code_end ls from = Pos (int (a + m)) (int k)" using m by (simp add: code_end_def f k_def)
  have jm: "length ?j = Suc m" using length_joined [OF ls] m by simp
  have last: "?j ! m = (if length ls = 1 then take b (d ! a) @ hd ls @ ?q else last ls @ ?q)"
    using m jm by (cases "length ls = 1") (auto simp: joined_def nth_append)
  have line: "?d' ! (a + m) = ?j ! m" using a(1) jm by (simp add: te nth_append)
  have klen: "k \<le> length (?j ! m)" unfolding last k_def using a(2) by auto
  have len: "a + m < length ?d'" using a(1) jm by (simp add: te)
  show ok: "pos_ok ?d' (code_end ls from)" using len klen line by (simp add: pos_ok_def ce nat_add_distrib)
  have rest: "drop (offset ?d' (code_end ls from)) (flat ?d') = ?q @ after_line d c"
  proof -
    have "drop k (?j ! m) = ?q" unfolding last k_def using a(2) by auto
    moreover have "after_line ?d' (a + m) = after_line d c"
      using a(1) jm by (simp add: after_line_def te)
    ultimately show ?thesis using drop_offset [OF ok] line by (simp add: ce nat_add_distrib)
  qed
  have "length (flat ?d') = offset d from + length (flat ls) + length (?q @ after_line d c)"
    using flat_text_edit [OF p ls] drop_offset [OF p(2)] offset_le [OF p(1)] by (simp add: t)
  moreover have "length (flat ?d') = offset ?d' (code_end ls from) + length (?q @ after_line d c)"
    using rest offset_le [OF ok] by (metis append_take_drop_id length_append length_take min.absorb2)
  ultimately show "offset ?d' (code_end ls from) = offset d from + length (flat ls)" by simp
qed

theorem replaceSelection_ok:
  assumes ok: "undo_ok ed"
  defines "i \<equiv> offset (texts ed) (sel_from ed)" and "j \<equiv> offset (texts ed) (sel_to ed)"
  shows "\<exists>ed'. replaceSelection txt CollapseEnd ed = Some ed' \<and> undo_ok ed' \<and>
     flat (texts ed') = take i (flat (texts ed)) @ norm_nl txt @ drop j (flat (texts ed)) \<and>
     sel_from ed' = sel_to ed' \<and> offset (texts ed') (sel_to ed') = i + length (norm_nl txt)"
proof -
  note d = ed_okD [OF undo_okD(1) [OF ok]]
  let ?ls = "splitLines txt" and ?T = "texts ed"
  let ?fin = "code_end ?ls (sel_from ed)"
  obtain ed' where e: "updateLines (sel_from ed) (sel_to ed) ?ls ?fin ?fin ed = Some ed'" "undo_ok ed'"
      "texts ed' = text_edit (sel_from ed) (sel_to ed) ?ls ?T" "(sel_from ed', sel_to ed') = norm_sel (texts ed') ?fin ?fin"
    using updateLines_refines [OF ok d(6,7,8) splitLines_nonempty, of "txt" ?fin ?fin] by auto
  note ce = code_end_ok [OF d(6,7,8) splitLines_nonempty, of "txt"]
  have "(sel_from ed', sel_to ed') = (?fin, ?fin)"
    unfolding e(4) norm_sel_def e(3) clip_text_id [OF ce(1)] by (simp add: ordered_def)
  moreover have "replaceSelection txt CollapseEnd ed = Some ed'"
    using e(1) by (simp add: replaceSelection_def replaceRange1_def)
  ultimately show ?thesis
    using e(2,3) ce(2) flat_text_edit [OF d(6,7,8) splitLines_nonempty, of "txt"]
    by (simp add: i_def j_def flat_splitLines)
qed

theorem replaceRange_ok:
  assumes ok: "undo_ok ed"
  defines "c \<equiv> \<lambda>p. clip_text (texts ed) (pline p) (Some (pch p))"
  assumes le: "c from \<le> c to"
  shows "\<exists>ed'. replaceRange txt from (Some to) ed = Some (ed', code_end (splitLines txt) (c from)) \<and> undo_ok ed' \<and>
     texts ed' = text_edit (c from) (c to) (splitLines txt) (texts ed) \<and>
     flat (texts ed') = take (offset (texts ed) (c from)) (flat (texts ed)) @ norm_nl txt @
       drop (offset (texts ed) (c to)) (flat (texts ed))"
proof -
  note d = undo_okD [OF ok]
  let ?ls = "splitLines txt"
  have p: "pos_ok (texts ed) (c from)" "pos_ok (texts ed) (c to)" by (simp_all add: c_def clip_text_ok [OF d(3)])
  have cl: "clip ed from = Some (c from)" "clip ed to = Some (c to)" by (simp_all add: c_def clipPos_text [OF d(2,3)])
  let ?adj = "adjustPos ?ls (c from) (c to) (code_end ?ls (c from))"
  obtain ed' where e: "updateLines (c from) (c to) ?ls (?adj (sel_from ed)) (?adj (sel_to ed)) ed = Some ed'" "undo_ok ed'"
      "texts ed' = text_edit (c from) (c to) ?ls (texts ed)"
    using updateLines_refines [OF ok p le splitLines_nonempty, of "txt" "?adj (sel_from ed)" "?adj (sel_to ed)"] by auto
  then have "replaceRange txt from (Some to) ed = Some (ed', code_end ?ls (c from))"
    by (simp add: replaceRange_def cl replaceRange1_def Let_def)
  with e flat_text_edit [OF p le splitLines_nonempty, of "txt"] show ?thesis
    by (simp add: flat_splitLines)
qed

end
