(* ===== verification/CM_Instance.thy ===== *)
theory CM_Instance
  imports CM_Split
begin

section \<open>A new editor, and what its calls can reach\<close>

text \<open>
  The start of \<open>CodeMirror(place, givenOptions)\<close>: the state variables, the first \<open>setValue\<close> before there
  is a history, and then the history.  The calls of the instance that edit the text or move the
  selection form a step relation; every state it reaches is well formed and every call returns.
\<close>

definition defaults :: options where
  "defaults = \<lparr>lineWrapping = False, readOnly = Editable, undoDepth = 40, tab_size = 4, indentUnit = 2,
     indentWithTabs = False, smartIndent = True, autoClearEmptyLines = False, electricChars = True,
     onChange = False, onCursorActivity = False, opt_matchBrackets = False, workTime = 100\<rparr>"

text \<open>\<open>new BranchChunk([new LeafChunk([new Line("")])])\<close> and the other initial values.\<close>

definition init_editor :: "('g, 's) mode \<Rightarrow> 'g \<Rightarrow> options \<Rightarrow> screen \<Rightarrow> ('g, 's) editor" where
  "init_editor m g opts scr =
     \<lparr>doc = branchChunk [leafChunk [new_line 0 [] None]], gone = [],
      markers = (\<lambda>_. \<lparr>mlines = [], mtype = Range, mstyle = None, inclusiveLeft = False, inclusiveRight = False,
                      startStyle = None, endStyle = None\<rparr>),
      next_line = 1, next_marker = 0, mode = m, mode_env = g, options = opts, screen = scr, clock = 0,
      history = None, frontier = 0, sel_from = Pos 0 0, sel_to = Pos 0 0, sel_inverted = False,
      shiftSelecting = None, suppressEdits = False, goalColumn = None, maxLine = 0, updateMaxLine = False,
      maxLineChanged = True, showingFrom = 0, showingTo = 0, displayOffset = 0, updateInput = None,
      userSelChange = False, changes = [], textChanged = [], selectionChanged = False, gutterDirty = False,
      callbacks = [], nestedOperation = 0, focused = False, overwrite = False, pollingFast = False,
      prevInput = [], input = [], bracketHighlighted = None, worker = None, timers = []\<rparr>"

definition newEditor :: "('g, 's) mode \<Rightarrow> 'g \<Rightarrow> options \<Rightarrow> screen \<Rightarrow> jstring \<Rightarrow> ('g, 's) editor option" where
  "newEditor m g opts scr value = do {
     ed \<leftarrow> setValue value (init_editor m g opts scr);
     Some (ed\<lparr>updateInput := Some False, history := Some newHistory\<rparr>) }"

lemma init_editor_ok: "ed_ok (init_editor m g opts scr)"
  by (simp add: ed_ok_def struct_ok_def init_editor_def doc_ok_def texts_def pos_ok_def all_visible_def known_def
      branchChunk_def leafChunk_def heights_def)

lemma hist_ok_new: "hist_ok (abs_ed (ed\<lparr>history := Some newHistory\<rparr>))"
  by (simp add: hist_ok_def abs_ed_def map_history_def newHistory_def all_done_def)

theorem newEditor_ok:
  "\<exists>ed. newEditor m g opts scr value = Some ed \<and> undo_ok ed \<and> texts ed = splitLines value"
proof -
  let ?i = "init_editor m g opts scr"
  have i: "doc_size ?i - 1 = 0" "line_text ?i 0 = Some []" "texts ?i = [[]]" "history ?i = None" "\<not> suppressEdits ?i"
    by (simp_all add: init_editor_def doc_size_def line_text_def getLine_def texts_def branchChunk_def leafChunk_def)
  have p: "pos_ok (texts ?i) (Pos 0 0)" by (simp add: i(3)) (simp add: pos_ok_def)
  obtain ed1 where e: "updateLines (Pos 0 0) (Pos 0 0) (splitLines value) (Pos 0 0) (Pos 0 0) ?i = Some ed1" "ed_ok ed1"
      "texts ed1 = splitLines value" "\<not> suppressEdits ed1"
    using updateLines_ok [OF init_editor_ok i(5) p p order_refl splitLines_nonempty, of "value" "Pos 0 0" "Pos 0 0"] i(3,5)
    by (auto simp: text_edit_def splice_at_def joined_empty)
  let ?e = "ed1\<lparr>updateInput := Some False, history := Some newHistory\<rparr>"
  have "newEditor m g opts scr value = Some ?e" using e(1) i by (simp add: newEditor_def setValue_def)
  moreover have "undo_ok ?e"
    using e(2,4) hist_ok_new [of "ed1\<lparr>updateInput := Some False\<rparr>"]
    by (simp add: undo_ok_def ed_ok_def struct_ok_def known_def texts_def all_visible_def newHistory_def)
  ultimately show ?thesis using e(3) by (auto simp: texts_def)
qed

subsection \<open>The calls of the instance\<close>

datatype api =
    SetValue jstring
  | ReplaceSelection jstring collapse_to
  | ReplaceRange jstring pos pos
  | Undo
  | Redo
  | SetSelection pos pos
  | SetCursor int "int option" bool

fun run_api :: "api \<Rightarrow> ('g, 's) editor \<Rightarrow> ('g, 's) editor option" where
  "run_api (SetValue v) ed = setValue v ed"
| "run_api (ReplaceSelection v c) ed = replaceSelection v c ed"
| "run_api (ReplaceRange v f t) ed = map_option fst (replaceRange v f (Some t) ed)"
| "run_api Undo ed = undo ed"
| "run_api Redo ed = redo ed"
| "run_api (SetSelection f t) ed = do { f' \<leftarrow> clip ed f; t' \<leftarrow> clip ed t; setSelection f' t' None ed }"
| "run_api (SetCursor l c user) ed = setCursor l c user ed"

text \<open>The one requirement: a range is given in order.\<close>

fun api_ok :: "api \<Rightarrow> ('g, 's) editor \<Rightarrow> bool" where
  "api_ok (ReplaceRange v f t) ed =
     (case (clip ed f, clip ed t) of (Some p, Some q) \<Rightarrow> p \<le> q | _ \<Rightarrow> False)"
| "api_ok _ ed = True"

inductive reachable :: "('g, 's) editor \<Rightarrow> bool" where
  reach_new: "newEditor m g opts scr value = Some ed \<Longrightarrow> reachable ed"
| reach_step: "reachable ed \<Longrightarrow> api_ok a ed \<Longrightarrow> run_api a ed = Some ed' \<Longrightarrow> reachable ed'"
| reach_tick: "reachable ed \<Longrightarrow> reachable (ed\<lparr>clock := now\<rparr>)"

lemma replaceSelection_total:
  assumes ok: "undo_ok ed"
  shows "\<exists>ed'. replaceSelection v c ed = Some ed' \<and> undo_ok ed'"
proof -
  note d = ed_okD [OF undo_okD(1) [OF ok]]
  obtain f t where ft: "(case c of CollapseEnd \<Rightarrow> (code_end (splitLines v) (sel_from ed), code_end (splitLines v) (sel_from ed))
      | CollapseStart \<Rightarrow> (sel_from ed, sel_from ed)
      | NoCollapse \<Rightarrow> (sel_from ed, code_end (splitLines v) (sel_from ed))) = (f, t)" by fastforce
  obtain ed' where "updateLines (sel_from ed) (sel_to ed) (splitLines v) f t ed = Some ed'" "undo_ok ed'"
    using updateLines_refines [OF ok d(6,7,8) splitLines_nonempty, of v f t] by blast
  with ft show ?thesis by (simp add: replaceSelection_def replaceRange1_def)
qed

lemma undo_ok_sel:
  assumes "undo_ok ed" "pos_ok (texts ed) p" "pos_ok (texts ed) q" "p \<le> q"
  shows "undo_ok (ed\<lparr>sel_from := p, sel_to := q, goalColumn := gc, sel_inverted := i, timers := ts, selectionChanged := sc\<rparr>)"
  using assms by (simp add: undo_ok_def ed_ok_def struct_ok_def known_def texts_def all_visible_def abs_ed_def)

lemma setSelection_total:
  assumes ok: "undo_ok ed" and p: "pos_ok (texts ed) p" "pos_ok (texts ed) q"
  shows "\<exists>ed'. setSelection p q old ed = Some ed' \<and> undo_ok ed' \<and> (sel_from ed', sel_to ed') = ordered p q"
proof -
  note d = ed_okD [OF undo_okD(1) [OF ok]]
  have s: "0 \<le> pline (sel_from ed)" using d(6) by (simp add: pos_ok_def)
  note o = ordered_ok [OF p]
  show ?thesis
    using setSelection_visible [OF d(4,2) p s d(8), of old] undo_ok_sel [OF ok, of "fst (ordered p q)" "snd (ordered p q)"] o
    by (auto simp: prod_eq_iff)
qed

lemma undo_ok_user: "undo_ok ed \<Longrightarrow> undo_ok (ed\<lparr>userSelChange := b\<rparr>)" "undo_ok ed \<Longrightarrow> undo_ok (ed\<lparr>clock := now\<rparr>)"
  by (simp_all add: undo_ok_def ed_ok_def struct_ok_def known_def texts_def all_visible_def abs_ed_def)

lemma setSelectionUser_total:
  assumes ok: "undo_ok ed" and p: "pos_ok (texts ed) p" "pos_ok (texts ed) q"
  shows "\<exists>ed'. setSelectionUser p q ed = Some ed' \<and> undo_ok ed'"
proof -
  note d = undo_okD [OF ok]
  obtain sh where sh: "(case shiftSelecting ed of None \<Rightarrow> Some None | Some p \<Rightarrow> map_option Some (clip ed p)) = Some sh"
      "\<forall>s. sh = Some s \<longrightarrow> pos_ok (texts ed) s"
    using clipPos_text [OF d(2,3)] clip_text_ok [OF d(3)] by (cases "shiftSelecting ed") auto
  obtain f t where ft: "(case sh of None \<Rightarrow> (p, q)
      | Some s \<Rightarrow> if posLess s p then (s, q) else if posLess q s then (p, s) else (p, q)) = (f, t)" by fastforce
  then have "pos_ok (texts ed) f" "pos_ok (texts ed) t" using p sh(2) by (auto split: option.splits if_splits)
  from setSelection_total [OF ok this, of None] obtain ed1 where "setSelection f t None ed = Some ed1" "undo_ok ed1" by blast
  then show ?thesis using sh(1) ft undo_ok_user(1) [of ed1 True] by (simp add: setSelectionUser_def Let_def)
qed

theorem run_api_total:
  assumes ok: "undo_ok ed" and a: "api_ok a ed"
  shows "\<exists>ed'. run_api a ed = Some ed' \<and> undo_ok ed'"
proof (cases a)
  case (SetValue v)
  with setValue_ok [OF ok, of v] show ?thesis by auto
next
  case (ReplaceSelection v c)
  with replaceSelection_total [OF ok] show ?thesis by simp
next
  case (ReplaceRange v f t)
  with a have "clip_text (texts ed) (pline f) (Some (pch f)) \<le> clip_text (texts ed) (pline t) (Some (pch t))"
    by (simp add: clipPos_text [OF undo_okD(2,3) [OF ok]])
  with replaceRange_ok [OF ok, of f t v] ReplaceRange show ?thesis by auto
next
  case Undo
  with undo_refines [OF ok] show ?thesis by auto
next
  case Redo
  with redo_refines [OF ok] show ?thesis by auto
next
  case (SetSelection f t)
  note d = undo_okD [OF ok]
  have p: "pos_ok (texts ed) (clip_text (texts ed) (pline q) (Some (pch q)))" for q by (rule clip_text_ok [OF d(3)])
  obtain ed' where "setSelection (clip_text (texts ed) (pline f) (Some (pch f)))
      (clip_text (texts ed) (pline t) (Some (pch t))) None ed = Some ed'" "undo_ok ed'"
    using setSelection_total [OF ok p p, of f t None] by blast
  then show ?thesis using SetSelection by (simp add: clipPos_text [OF d(2,3)])
next
  case (SetCursor l c user)
  note d = undo_okD [OF ok]
  let ?p = "clip_text (texts ed) l (Some (case c of None \<Rightarrow> 0 | Some c \<Rightarrow> c))"
  have p: "pos_ok (texts ed) ?p" by (rule clip_text_ok [OF d(3)])
  have "run_api a ed = (if user then setSelectionUser ?p ?p ed else setSelection ?p ?p None ed)"
    using SetCursor by (simp add: setCursor_def clipPos_text [OF d(2,3)])
  then show ?thesis
    using setSelection_total [OF ok p p, of None] setSelectionUser_total [OF ok p p] by auto
qed

lemma reachable_undo_ok: "reachable ed \<Longrightarrow> undo_ok ed"
proof (induction rule: reachable.induct)
  case (reach_new m g opts scr v ed)
  with newEditor_ok [of m g opts scr v] show ?case by auto
next
  case (reach_step ed a ed')
  with run_api_total [of ed a] show ?case by auto
next
  case (reach_tick ed now)
  then show ?case by (simp add: undo_ok_user)
qed

end
