(* ===== verification/CM_Sparql.thy ===== *)
theory CM_Sparql
  imports CM_Mode
begin

section \<open>The SPARQL mode of the query editor\<close>

text \<open>
  \<open>sparql.js\<close>.  A parser state refers to a chain of bracket contexts.  Copies of a state share the
  context objects, and \<open>token\<close> mutates \<open>align\<close> and \<open>col\<close> of a context in place, so the contexts live
  in a store (\<open>ctxs\<close>) that belongs to the mode, as does the variable \<open>curPunc\<close>, which all states
  share as well.  The fields \<open>prev\<close>, \<open>indent\<close> and \<open>type\<close> of a context never change; the chain of
  \<open>prev\<close> pointers of a state is the list of its references, innermost first.
\<close>

datatype ctype = Closer char | Pattern

record context_obj =
  cx_indent :: nat
  cx_col :: nat
  cx_type :: ctype
  cx_align :: "bool option"

record sparql_env =
  curPunc :: "char option"
  ctxs :: "context_obj list"

datatype tokenizer = TokenBase | TokenLiteral char

record sparql_state =
  tokenize :: tokenizer
  ctx :: "nat list"
  ss_indent :: nat
  ss_col :: nat

definition ops :: "jstring list" where
  "ops = [''str'', ''lang'', ''langmatches'', ''datatype'', ''bound'', ''sameterm'', ''isiri'', ''isuri'',
          ''isblank'', ''isliteral'', ''union'', ''a'']"

definition key_words :: "jstring list" where
  "key_words = [''base'', ''prefix'', ''select'', ''distinct'', ''reduced'', ''construct'', ''describe'',
               ''ask'', ''from'', ''named'', ''where'', ''order'', ''limit'', ''offset'', ''filter'', ''optional'',
               ''graph'', ''by'', ''asc'', ''desc'']"

text \<open>\<open>wordRegexp(words)\<close>: the whole word, in any case.\<close>

definition wordRegexp :: "jstring list \<Rightarrow> jstring \<Rightarrow> bool" where
  "wordRegexp ws w \<longleftrightarrow> map to_lower w \<in> set ws"

definition operatorChars :: "char \<Rightarrow> bool" where
  "operatorChars c \<longleftrightarrow> c \<in> set ''*+-<>=&|''"

definition punctuation :: "char \<Rightarrow> bool" where
  "punctuation c \<longleftrightarrow> c \<in> set ''{}(),.;[]''"

text \<open>The patterns of \<open>stream.match\<close>: \<open>[\w\d]*\<close>, one of space or \<open>=\<close>, and \<open>[^\s>]*>?\<close>.\<close>

definition re_varname :: "jstring \<Rightarrow> nat option" where
  "re_varname t = Some (length (takeWhile re_word t))"

definition re_lessop :: "jstring \<Rightarrow> nat option" where
  "re_lessop t = (case t of c # _ \<Rightarrow> if re_space c \<or> c = CHR ''='' then Some 1 else None | [] \<Rightarrow> None)"

definition re_iri :: "jstring \<Rightarrow> nat option" where
  "re_iri t =
     (let n = length (takeWhile (\<lambda>c. \<not> re_space c \<and> c \<noteq> CHR ''>'') t)
      in Some (if charAt t (int n) = Some (CHR ''>'') then Suc n else n))"

text \<open>The loop of \<open>tokenLiteral(quote)\<close>: to the closing quote or the end of the line.\<close>

lemma next_char_less: "next_char s = (Some ch, s') \<Longrightarrow> length (str s') - pos s' < length (str s) - pos s"
  by (auto simp: next_char_def split: if_splits)

function literal_loop :: "char \<Rightarrow> bool \<Rightarrow> stream \<Rightarrow> bool \<times> stream" where
  "literal_loop quote escaped s =
     (case next_char s of
        (None, s') \<Rightarrow> (False, s')
      | (Some ch, s') \<Rightarrow>
          if ch = quote \<and> \<not> escaped then (True, s')
          else literal_loop quote (\<not> escaped \<and> ch = CHR 0x5C) s')"
  by pat_completeness auto
termination
  by (relation "measure (\<lambda>(q, e, s). length (str s) - pos s)") (auto dest: next_char_less [OF sym])

declare literal_loop.simps [simp del]

definition tokenLiteral :: "char \<Rightarrow> stream \<Rightarrow> sparql_state \<Rightarrow> jstring \<times> stream \<times> sparql_state" where
  "tokenLiteral quote stream s =
     (let (closed, stream') = literal_loop quote False stream
      in (''string'', stream', if closed then s\<lparr>tokenize := TokenBase\<rparr> else s))"

text \<open>The last branch of \<open>tokenBase\<close>: a word, or a prefixed name when a colon follows.\<close>

definition tokenWord :: "stream \<Rightarrow> jstring option \<times> stream" where
  "tokenWord stream =
     (let s1 = snd (eatWhile re_word stream) in
      case eat (\<lambda>c. c = CHR '':'') s1 of
        (Some _, s2) \<Rightarrow> (Some ''atom'', snd (eatWhile (\<lambda>c. re_word c \<or> c = CHR ''-'') s2))
      | (None, s2) \<Rightarrow>
          let word = current s2 in
          (if wordRegexp ops word then None
           else if wordRegexp key_words word then Some ''keyword'' else Some ''variable'', s2))"

text \<open>\<open>tokenBase\<close>: the style, the new value of \<open>curPunc\<close>, the stream and the state.\<close>

definition tokenBase :: "stream \<Rightarrow> sparql_state \<Rightarrow>
    jstring option \<times> char option \<times> stream \<times> sparql_state" where
  "tokenBase stream s =
     (case next_char stream of
        (None, s1) \<Rightarrow> (let (style, s2) = tokenWord s1 in (style, None, s2, s))
      | (Some ch, s1) \<Rightarrow>
          if ch = CHR ''$'' \<or> ch = CHR ''?'' then
            (Some ''variable-2'', None, snd (match_re re_varname True s1), s)
          else if ch = CHR ''<'' \<and> fst (match_re re_lessop False s1) = None then
            (Some ''atom'', None, snd (match_re re_iri True s1), s)
          else if ch = CHR 0x22 \<or> ch = CHR 0x27 then
            (let (style, s2, s') = tokenLiteral ch s1 (s\<lparr>tokenize := TokenLiteral ch\<rparr>)
             in (Some style, None, s2, s'))
          else if punctuation ch then (None, Some ch, s1, s)
          else if ch = CHR ''#'' then (Some ''comment'', None, skipToEnd s1, s)
          else if operatorChars ch then (None, None, snd (eatWhile operatorChars s1), s)
          else if ch = CHR '':'' then
            (Some ''atom'', None, snd (eatWhile (\<lambda>c. re_word c \<or> c = CHR ''.'' \<or> c = CHR ''-'') s1), s)
          else (let (style, s2) = tokenWord s1 in (style, None, s2, s)))"

subsection \<open>Contexts\<close>

definition the_ctx :: "sparql_env \<Rightarrow> sparql_state \<Rightarrow> context_obj option" where
  "the_ctx g s =
     (case ctx s of [] \<Rightarrow> None | r # _ \<Rightarrow> if r < length (ctxs g) then Some (ctxs g ! r) else None)"

definition set_ctx :: "(context_obj \<Rightarrow> context_obj) \<Rightarrow> sparql_state \<Rightarrow> sparql_env \<Rightarrow> sparql_env" where
  "set_ctx f s g =
     (case ctx s of [] \<Rightarrow> g
      | r # _ \<Rightarrow> if r < length (ctxs g) then g\<lparr>ctxs := (ctxs g)[r := f (ctxs g ! r)]\<rparr> else g)"

definition pushContext :: "sparql_env \<Rightarrow> sparql_state \<Rightarrow> ctype \<Rightarrow> nat \<Rightarrow> sparql_env \<times> sparql_state" where
  "pushContext g s ty col =
     (g\<lparr>ctxs := ctxs g @ [\<lparr>cx_indent = ss_indent s, cx_col = col, cx_type = ty, cx_align = None\<rparr>]\<rparr>,
      s\<lparr>ctx := length (ctxs g) # ctx s\<rparr>)"

definition popContext :: "sparql_env \<Rightarrow> sparql_state \<Rightarrow> sparql_state" where
  "popContext g s =
     (case the_ctx g s of None \<Rightarrow> s | Some c \<Rightarrow> s\<lparr>ss_indent := cx_indent c, ctx := tl (ctx s)\<rparr>)"

function popPatterns :: "sparql_env \<Rightarrow> sparql_state \<Rightarrow> sparql_state" where
  "popPatterns g s =
     (case the_ctx g s of
        Some c \<Rightarrow> if cx_type c = Pattern then popPatterns g (popContext g s) else s
      | None \<Rightarrow> s)"
  by pat_completeness auto
termination
  by (relation "measure (\<lambda>(g, s). length (ctx s))")
    (auto simp: popContext_def the_ctx_def split: list.splits)

declare popPatterns.simps [simp del]

definition closing :: "char \<Rightarrow> bool" where
  "closing c \<longleftrightarrow> c \<in> set '']})''"

definition style_opens_pattern :: "jstring option \<Rightarrow> bool" where
  "style_opens_pattern style \<longleftrightarrow>
     style \<in> {Some ''atom'', Some ''string'', Some ''variable'', Some ''variable-2''}"

text \<open>
  The end of \<open>token\<close>: what the token does to the contexts.  \<open>col\<close> is \<open>stream.column()\<close>.
\<close>

definition patternToken :: "jstring option \<Rightarrow> nat \<Rightarrow> sparql_env \<Rightarrow> sparql_state \<Rightarrow> sparql_env \<times> sparql_state" where
  "patternToken style col g s =
     (case the_ctx g s of
        None \<Rightarrow> (g, s)
      | Some c \<Rightarrow>
          if \<not> style_opens_pattern style then (g, s)
          else if cx_type c = Closer (CHR ''}'') \<or> cx_type c = Closer (CHR '']'') then pushContext g s Pattern col
          else if cx_type c = Pattern \<and> cx_align c \<noteq> Some True
          then (set_ctx (\<lambda>c. c\<lparr>cx_align := Some True, cx_col := col\<rparr>) s g, s)
          else (g, s))"

definition trackContext :: "jstring option \<Rightarrow> nat \<Rightarrow> sparql_env \<Rightarrow> sparql_state \<Rightarrow> sparql_env \<times> sparql_state" where
  "trackContext style col g s =
     (if curPunc g = Some (CHR ''('') then pushContext g s (Closer (CHR '')'')) col
      else if curPunc g = Some (CHR ''['') then pushContext g s (Closer (CHR '']'')) col
      else if curPunc g = Some (CHR ''{'') then pushContext g s (Closer (CHR ''}'')) col
      else if (case curPunc g of Some p \<Rightarrow> closing p | None \<Rightarrow> False) then
        (let s1 = popPatterns g s in
         case the_ctx g s1 of
           Some c \<Rightarrow> (g, if Some (cx_type c) = map_option Closer (curPunc g) then popContext g s1 else s1)
         | None \<Rightarrow> (g, s1))
      else if curPunc g = Some (CHR ''.'') \<and> map_option cx_type (the_ctx g s) = Some Pattern
      then (g, popContext g s)
      else patternToken style col g s)"

definition token :: "sparql_env \<Rightarrow> stream \<Rightarrow> sparql_state \<Rightarrow>
    jstring option \<times> sparql_env \<times> stream \<times> sparql_state" where
  "token g stream s =
     (let (g1, s1) =
        (if sol stream
         then (set_ctx (\<lambda>c. if cx_align c = None then c\<lparr>cx_align := Some False\<rparr> else c) s g,
               s\<lparr>ss_indent := indentation stream\<rparr>)
         else (g, s));
        (sp, stream1) = eatSpace stream
      in if sp then (None, g1, stream1, s1)
         else
          let (style, g2, stream2, s2) =
            (case tokenize s1 of
               TokenBase \<Rightarrow>
                 (let (style, cp, st, s') = tokenBase stream1 s1 in (style, g1\<lparr>curPunc := cp\<rparr>, st, s'))
             | TokenLiteral q \<Rightarrow>
                 (let (style, st, s') = tokenLiteral q stream1 s1 in (Some style, g1, st, s')));
            g3 = (if style \<noteq> Some ''comment''
                  then set_ctx (\<lambda>c. if cx_align c = None \<and> cx_type c \<noteq> Pattern
                                    then c\<lparr>cx_align := Some True\<rparr> else c) s2 g2
                  else g2);
            (g4, s4) = trackContext style (column stream2) g3 s2
          in (style, g4, stream2, s4))"

text \<open>\<open>indent(state, textAfter)\<close>; the first loop walks out of the patterns around a closing bracket.\<close>

fun outOfPatterns :: "sparql_env \<Rightarrow> nat list \<Rightarrow> nat list" where
  "outOfPatterns g [] = []"
| "outOfPatterns g (r # rs) =
     (if r < length (ctxs g) \<and> cx_type (ctxs g ! r) = Pattern then outOfPatterns g rs else r # rs)"

definition indent :: "nat \<Rightarrow> sparql_env \<Rightarrow> sparql_state \<Rightarrow> jstring \<Rightarrow> int" where
  "indent indentUnit g s textAfter =
     (let firstChar = charAt textAfter 0;
          cs = (if firstChar = Some (CHR '']'') \<or> firstChar = Some (CHR ''}'')
                then outOfPatterns g (ctx s) else ctx s)
      in case the_ctx g (s\<lparr>ctx := cs\<rparr>) of
           None \<Rightarrow> 0
         | Some c \<Rightarrow>
             let closing = (map_option Closer firstChar = Some (cx_type c))
             in if cx_type c = Pattern then int (cx_col c)
                else if cx_align c = Some True then int (cx_col c) + (if closing then 0 else 1)
                else int (cx_indent c) + (if closing then 0 else int indentUnit))"

text \<open>The object that \<open>defineMode("sparql", ...)\<close> returns, and the variables of its closure.\<close>

definition sparql_startState :: sparql_state where
  "sparql_startState = \<lparr>tokenize = TokenBase, ctx = [], ss_indent = 0, ss_col = 0\<rparr>"

definition sparql_mode :: "nat \<Rightarrow> (sparql_env, sparql_state) mode" where
  "sparql_mode indentUnit = \<lparr>m_token = token, m_startState = sparql_startState, m_blankLine = None,
     m_indent = Some (\<lambda>g s textAfter line. Some (indent indentUnit g s textAfter)), m_electric = None\<rparr>"

definition sparql_env0 :: sparql_env where
  "sparql_env0 = \<lparr>curPunc = None, ctxs = []\<rparr>"

subsection \<open>The mode keeps the contract of \<open>token\<close>\<close>

lemma literal_loop_moves: "moves_on s (snd (literal_loop q e s))"
proof (induction q e s rule: literal_loop.induct)
  case (1 q e s)
  obtain c s' where n: "next_char s = (c, s')" by fastforce
  have m: "moves_on s s'" using moves_on_next [of s] n by simp
  show ?case
  proof (cases c)
    case None
    then show ?thesis using n m by (subst literal_loop.simps) simp
  next
    case (Some ch)
    show ?thesis
    proof (cases "ch = q \<and> \<not> e")
      case True
      then show ?thesis using n m Some by (subst literal_loop.simps) simp
    next
      case False
      with 1 [OF n [symmetric] Some False] m have "moves_on s (snd (literal_loop q (\<not> e \<and> ch = CHR 0x5C) s'))"
        by (blast intro: moves_on_trans)
      with False n Some show ?thesis by (subst literal_loop.simps) auto
    qed
  qed
qed

lemma literal_loop_advances:
  assumes "pos s < length (str s)" shows "pos s < pos (snd (literal_loop q e s))"
proof -
  let ?s = "s\<lparr>pos := Suc (pos s)\<rparr>" and ?ch = "str s ! pos s"
  have "pos ?s \<le> pos (snd (literal_loop q (\<not> e \<and> ?ch = CHR 0x5C) ?s))"
    using literal_loop_moves [of ?s] by (simp add: moves_on_def)
  then show ?thesis using assms by (subst literal_loop.simps) (auto simp: next_char_def)
qed


lemma tokenWord_moves: "moves_on s (snd (tokenWord s))"
proof -
  let ?s1 = "snd (eatWhile re_word s)"
  obtain r s2 where e: "eat (\<lambda>c. c = CHR '':'') ?s1 = (r, s2)" by fastforce
  have "moves_on ?s1 s2" using moves_on_eat [of ?s1 "\<lambda>c. c = CHR '':''"] e by simp
  then have m: "moves_on s s2" by (rule moves_on_trans [OF moves_on_eatWhile])
  show ?thesis
    using m moves_on_trans [OF m moves_on_eatWhile]
    by (cases r) (simp_all add: tokenWord_def Let_def e)
qed

lemma re_iri_le: "re_iri t = Some n \<Longrightarrow> n \<le> length t"
  using length_takeWhile_le [of "\<lambda>c. \<not> re_space c \<and> c \<noteq> CHR ''>''" t]
  by (auto simp: re_iri_def Let_def charAt_def split: if_splits)

lemma re_varname_le: "re_varname t = Some n \<Longrightarrow> n \<le> length t"
  using length_takeWhile_le [of re_word t] by (simp add: re_varname_def)

lemma tokenLiteral_moves: "moves_on s (fst (snd (tokenLiteral q s st)))"
  using literal_loop_moves [of s q False] by (simp add: tokenLiteral_def case_prod_beta Let_def)

lemma tokenBase_advances:
  assumes "\<not> eol s"
  shows "token_advances s (fst (snd (snd (tokenBase s st))))"
proof -
  let ?s = "s\<lparr>pos := Suc (pos s)\<rparr>"
  have lt: "pos s < length (str s)" using assms by (simp add: eol_def)
  then have adv: "token_advances s s2" if "moves_on ?s s2" for s2
    using that by (auto simp: token_advances_def moves_on_def)
  have n: "next_char s = (Some (str s ! pos s), ?s)" using lt by (simp add: next_char_def)
  have "moves_on ?s (fst (snd (snd (tokenBase s st))))"
    unfolding tokenBase_def n using lt tokenWord_moves [of ?s]
    by (simp add: Let_def moves_on_skipToEnd moves_on_match_re re_iri_le re_varname_le
        tokenLiteral_moves case_prod_beta)
  then show ?thesis by (rule adv)
qed

lemma tokenLiteral_advances:
  assumes "\<not> eol s"
  shows "token_advances s (fst (snd (tokenLiteral q s st)))"
  using assms tokenLiteral_moves [of s q st] literal_loop_advances [of s q False]
  by (simp add: token_advances_def eol_def tokenLiteral_def case_prod_beta Let_def)

lemma token_token_advances:
  assumes "\<not> eol stream" and "token g stream s = (style, g', stream', s')"
  shows "token_advances stream stream'"
proof (cases "fst (eatSpace stream)")
  case True
  moreover obtain b st1 where "eatSpace stream = (b, st1)" by fastforce
  ultimately have "stream' = st1" "b" using assms(2) by (auto simp: token_def Let_def split: prod.splits)
  moreover note \<open>eatSpace stream = (b, st1)\<close>
  ultimately show ?thesis
    using moves_on_eatWhile [of stream re_space]
    by (auto simp: token_advances_def eatSpace_def eatWhile_def Let_def)
next
  case False
  then have same: "eatSpace stream = (False, stream)"
    by (simp add: eatSpace_def eatWhile_takeWhile Let_def)
  show ?thesis
    using assms(2) same tokenBase_advances [OF assms(1)] tokenLiteral_advances [OF assms(1)]
    by (auto simp: token_def Let_def split: prod.splits tokenizer.splits) (metis fst_conv snd_conv)+
qed

interpretation sparql: cm_mode "sparql_mode u"
  by unfold_locales (simp add: sparql_mode_def token_token_advances)

end
