(* ===== verification/CM_Demo.thy ===== *)
theory CM_Demo
  imports CM_Instance CM_Sparql
begin

text \<open>An editor in the SPARQL mode, for the witnesses.\<close>

definition demo_editor :: "jstring \<Rightarrow> (sparql_env, sparql_state) editor" where
  "demo_editor v = the (newEditor (sparql_mode 2) sparql_env0 defaults
     \<lparr>clientWidth = 800, clientHeight = 600, charWidth = 8, textHeight = 16, paddingTop = 4, paddingLeft = 4\<rparr> v)"

lemma demo_new: "\<exists>m g opts scr. newEditor m g opts scr v = Some (demo_editor v)"
  using newEditor_ok [of "sparql_mode 2" sparql_env0 defaults _ v] unfolding demo_editor_def by (metis option.sel)

lemma demo_reachable: "reachable (demo_editor v)"
  using demo_new [of v] by (auto intro: reach_new)

lemma demo_texts: "texts (demo_editor v) = splitLines v"
  using newEditor_ok [of "sparql_mode 2" sparql_env0 defaults _ v] unfolding demo_editor_def by (metis option.sel)

end
