(* ===== verification/CM_Content.thy ===== *)
theory CM_Content
  imports CM_Demo
begin

section \<open>The rendering of a line\<close>

text \<open>
  \<open>Line.prototype.getContent\<close>: the DOM nodes that show a line, from its style fragments and its marked
  spans.  \<open>None\<close> stands for a \<open>TypeError\<close> or for the endless loop of a line whose styles are shorter than
  its text.  With \<open>wrapAt\<close> the node in front of that character is the anchor that \<open>measureLine\<close> measures.
\<close>

datatype node =
    TextNode jstring
  | TabNode nat
  | BadChar char
  | Wbr
  | Styled jstring "node list"
  | Anchor "node list"

text \<open>What \<open>getContent\<close> reads of the browser and its arguments, but \<open>wrapAt\<close>.\<close>

record render_env =
  re_ie :: bool
  re_opera :: bool
  re_tab :: nat
  re_compensate :: bool
  re_eol :: jstring

subsection \<open>One fragment\<close>

definition special :: "char \<Rightarrow> bool" where
  "special c \<longleftrightarrow> code c \<le> 25"

lemma dropWhile_shorter: "dropWhile P xs = m # rest \<Longrightarrow> length rest < length xs"
  by (metis Suc_le_lessD length_Cons length_dropWhile_le)

text \<open>The loop over the special characters of a fragment: its nodes and the column behind it.\<close>

function special_loop :: "nat \<Rightarrow> nat \<Rightarrow> jstring \<Rightarrow> node list \<times> nat" where
  "special_loop tab col text1 =
     (let skipped = takeWhile (\<lambda>c. \<not> special c) text1;
          plain = (if skipped = [] then [] else [TextNode skipped]);
          col1 = col + length skipped
      in case dropWhile (\<lambda>c. \<not> special c) text1 of
           [] \<Rightarrow> (plain, col1)
         | m # rest \<Rightarrow>
             if m = CHR 0x09 then
               let tabWidth = tab - col1 mod tab; (ns, col2) = special_loop tab (col1 + tabWidth) rest
               in (plain @ TabNode tabWidth # ns, col2)
             else let (ns, col2) = special_loop tab (col1 + 1) rest in (plain @ BadChar m # ns, col2))"
  by pat_completeness auto
termination
  by (relation "measure (\<lambda>(tab, col, t). length t)") (auto dest: dropWhile_shorter)

declare special_loop.simps [simp del]

text \<open>
  The variables of \<open>getContent\<close> that the inner functions change: \<open>first\<close>, \<open>col\<close>, \<open>outPos\<close>, \<open>wrapAt\<close>, and
  whether \<open>span\<close> has been replaced by the function that does nothing.
\<close>

record pen =
  pfirst :: bool
  pcol :: nat
  outPos :: int
  wrapAt :: "int option"
  pstop :: bool

text \<open>\<open>span_\<close>: the nodes to append.\<close>

definition put_text :: "render_env \<Rightarrow> jstring \<Rightarrow> jstring option \<Rightarrow> pen \<Rightarrow> node list \<times> pen" where
  "put_text env text1 style pn =
     (if text1 = [] then ([], pn)
      else let t = (if pfirst pn \<and> re_ie env \<and> hd text1 = CHR '' '' then CHR 0xA0 # tl text1 else text1);
               (ns, col) = (if list_ex special t then special_loop (re_tab env) (pcol pn) t
                            else ([TextNode t], pcol pn + length t));
               pn1 = pn\<lparr>pfirst := False, pcol := col\<rparr>
           in (case style of Some s \<Rightarrow> if s = [] then ns else [Styled s ns] | None \<Rightarrow> ns, pn1))"

text \<open>\<open>span\<close>: with \<open>wrapAt\<close> it puts the anchor in front of that character, and stops well behind it.\<close>

definition span_out :: "render_env \<Rightarrow> nat \<Rightarrow> jstring \<Rightarrow> jstring option \<Rightarrow> pen \<times> node list \<Rightarrow> pen \<times> node list" where
  "span_out env len text1 style st = (case st of (pn, html) \<Rightarrow>
     (case wrapAt pn of
        None \<Rightarrow> (let (ns, pn1) = put_text env text1 style pn in (pn1, html @ ns))
      | Some w \<Rightarrow>
          let l = int (length text1); op = outPos pn in
          if pstop pn then (pn, html)
          else if w \<ge> op \<and> w < op + l then
            let cut = nat (w - op);
                (before, pn1) = (if w > op
                  then (let (ns, p) = put_text env (take cut text1) style pn in
                        (ns @ (if re_compensate env then [Wbr] else []), p))
                  else ([], pn));
                (inside, pn2) = put_text env (if re_opera env then take 1 (drop cut text1) else drop cut text1) style pn1;
                (behind, pn3) = (if re_opera env then put_text env (drop (cut + 1) text1) style pn2 else ([], pn2))
            in (pn3\<lparr>wrapAt := Some (w - 1), outPos := op + l\<rparr>, html @ before @ [Anchor inside] @ behind)
          else
            let (ns, pn1) = put_text env text1 style pn; pn2 = pn1\<lparr>outPos := op + l\<rparr> in
            if op + l = w \<and> op + l = int len then (pn2, html @ ns @ [Anchor [TextNode (re_eol env)]])
            else if op + l > w + 10 \<and> list_ex re_space text1 then (pn2\<lparr>pstop := True\<rparr>, html @ ns)
            else (pn2, html @ ns)))"

text \<open>\<open>"cm-" + style.replace(/ +/g, " cm-")\<close>.\<close>

fun class_words :: "jstring \<Rightarrow> jstring" where
  "class_words [] = []"
| "class_words (c # cs) =
     (if c = CHR '' '' then
        (case cs of d # ds \<Rightarrow> if d = CHR '' '' then class_words cs else '' cm-'' @ class_words cs
         | [] \<Rightarrow> '' cm-'')
      else c # class_words cs)"

definition styleToClass :: "jstring option \<Rightarrow> jstring option" where
  "styleToClass style = (case style of None \<Rightarrow> None
     | Some s \<Rightarrow> if s = [] then None else Some (''cm-'' @ class_words s))"

subsection \<open>A line without marks\<close>

fun plain_loop :: "render_env \<Rightarrow> nat \<Rightarrow> nat \<Rightarrow> styles \<Rightarrow> pen \<times> node list \<Rightarrow> (pen \<times> node list) option" where
  "plain_loop env len ch [] st = (if ch < len then None else Some st)"
| "plain_loop env len ch ((s, style) # rest) st =
     (if ch < len then
        plain_loop env len (ch + length s) rest
          (span_out env len (if ch + length s > len then take (len - ch) s else s) (styleToClass style) st)
      else Some st)"

subsection \<open>A line with marks\<close>

definition span_key :: "span \<Rightarrow> int" where
  "span_key sp = (case sfrom sp of None \<Rightarrow> 0 | Some f \<Rightarrow> f)"

text \<open>
  \<open>advanceMarks\<close>.  The first function is the loop that starts marks, the second the one that ends them:
  the marks that stay and the next change, \<open>None\<close> for infinity.
\<close>

fun open_marks :: "(nat \<Rightarrow> marker) \<Rightarrow> int \<Rightarrow> span list \<Rightarrow> span list \<Rightarrow> span list \<times> span list" where
  "open_marks mk p [] marks = ([], marks)"
| "open_marks mk p (m # ms) marks =
     (if sfrom m = Some p \<or> sfrom m = None
      then open_marks mk p ms (if mtype (mk (smarker m)) = Range then marks @ [m] else marks)
      else (m # ms, marks))"

definition min_opt :: "int option \<Rightarrow> int option \<Rightarrow> int option" where
  "min_opt a b = (case a of None \<Rightarrow> b | Some x \<Rightarrow> (case b of None \<Rightarrow> a | Some y \<Rightarrow> Some (min x y)))"

fun close_marks :: "int \<Rightarrow> span list \<Rightarrow> int option \<Rightarrow> span list \<times> int option" where
  "close_marks p [] next1 = ([], next1)"
| "close_marks p (m # ms) next1 =
     (if sto m = Some p then close_marks p ms next1
      else let (ms', n) = close_marks p ms (min_opt (sto m) next1) in (m # ms', n))"

definition advanceMarks ::
    "(nat \<Rightarrow> marker) \<Rightarrow> int \<Rightarrow> span list \<Rightarrow> span list \<Rightarrow> span list \<times> span list \<times> int option" where
  "advanceMarks mk p marked marks =
     (let (marked1, marks1) = open_marks mk p marked marks;
          next1 = (case marked1 of [] \<Rightarrow> None | m # _ \<Rightarrow> sfrom m);
          (marks2, next2) = close_marks p marks1 next1
      in (marked1, marks2, next2))"

text \<open>The class of a fragment under marks; a mark without a style contributes \<open>"undefined"\<close>.\<close>

definition add_class :: "(nat \<Rightarrow> marker) \<Rightarrow> int \<Rightarrow> int \<Rightarrow> span \<Rightarrow> jstring \<Rightarrow> jstring" where
  "add_class mk p end1 m acc =
     (let k = mk (smarker m);
          a = (if acc = [] then [] else acc @ '' '') @ (case mstyle k of None \<Rightarrow> ''undefined'' | Some s \<Rightarrow> s);
          b = (case endStyle k of Some e \<Rightarrow> if e \<noteq> [] \<and> sto m = Some end1 then a @ '' '' @ e else a | None \<Rightarrow> a)
      in case startStyle k of Some s \<Rightarrow> if s \<noteq> [] \<and> sfrom m = Some p then b @ '' '' @ s else b | None \<Rightarrow> b)"

definition appliedStyle :: "(nat \<Rightarrow> marker) \<Rightarrow> int \<Rightarrow> int \<Rightarrow> span list \<Rightarrow> jstring option \<Rightarrow> jstring option" where
  "appliedStyle mk p end1 marks style =
     (if marks = [] then style
      else Some (fold (add_class mk p end1) marks (case style of None \<Rightarrow> [] | Some s \<Rightarrow> s)))"

text \<open>
  The inner loop, up to the next change: the text that is left of the fragment, its style, the styles
  left, and what has been written.
\<close>

fun inner_loop :: "render_env \<Rightarrow> (nat \<Rightarrow> marker) \<Rightarrow> nat \<Rightarrow> span list \<Rightarrow> int \<Rightarrow> styles \<Rightarrow> int \<Rightarrow> jstring \<Rightarrow>
    jstring option \<Rightarrow> pen \<times> node list \<Rightarrow> (jstring \<times> jstring option \<times> styles \<times> pen \<times> node list) option" where
  "inner_loop env mk len marks stopAt st p text1 style out =
     (let end1 = p + int (length text1);
          out1 = (if text1 = [] then out
                  else span_out env len (if end1 > stopAt then js_slice text1 0 (stopAt - p) else text1)
                         (appliedStyle mk p (min end1 stopAt) marks style) out)
      in if text1 \<noteq> [] \<and> end1 \<ge> stopAt then Some (js_slice_from text1 (stopAt - p), style, st, out1)
         else case st of
             [] \<Rightarrow> None
           | (t, sty) # rest \<Rightarrow> inner_loop env mk len marks stopAt rest end1 t (styleToClass sty) out1)"

declare inner_loop.simps [simp del]

text \<open>The outer loop; each round but the last ends at a change of marks, so the fuel is the length.\<close>

fun marked_loop :: "nat \<Rightarrow> render_env \<Rightarrow> (nat \<Rightarrow> marker) \<Rightarrow> nat \<Rightarrow> int \<Rightarrow> span list \<Rightarrow> span list \<Rightarrow> int option \<Rightarrow>
    jstring \<Rightarrow> jstring option \<Rightarrow> styles \<Rightarrow> pen \<times> node list \<Rightarrow> (pen \<times> node list) option" where
  "marked_loop fuel env mk len p marked marks next1 text1 style st out =
     (if p < int len then
        (case fuel of 0 \<Rightarrow> None
         | Suc k \<Rightarrow>
           let (marked1, marks1, next2) = (if next1 = Some p then advanceMarks mk p marked marks
                                           else (marked, marks, next1));
               stopAt = (case next2 of None \<Rightarrow> int len | Some n \<Rightarrow> min (int len) n)
           in (case inner_loop env mk len marks1 stopAt st p text1 style out of
                 None \<Rightarrow> None
               | Some (text2, style2, st2, out2) \<Rightarrow>
                   marked_loop k env mk len stopAt marked1 marks1 next2 text2 style2 st2 out2))
      else Some out)"

declare marked_loop.simps [simp del]

definition getContent ::
    "render_env \<Rightarrow> (nat \<Rightarrow> marker) \<Rightarrow> int option \<Rightarrow> jstring \<Rightarrow> styles \<Rightarrow> span list option \<Rightarrow> node list option" where
  "getContent env mk wrap allText st marked =
     (let len = length allText;
          pn = \<lparr>pfirst = True, pcol = 0, outPos = 0, wrapAt = wrap, pstop = False\<rparr>
      in map_option snd
        (if allText = [] \<and> wrap = None then Some (span_out env len '' '' None (pn, []))
         else case marked of
             Some (m # ms) \<Rightarrow>
               let sorted1 = sort_key span_key (m # ms) in
               marked_loop len env mk len 0 sorted1 [] (Some (span_key (hd sorted1))) [] None st (pn, [])
           | _ \<Rightarrow> plain_loop env len 0 st (pn, [])))"

end
