(* ===== verification/CM_Content_Laws.thy ===== *)
theory CM_Content_Laws
  imports CM_Content
begin

section \<open>What a line shows\<close>

text \<open>
  Whatever its marks, a line is written out as a sequence of fragments that together are its text; so
  the rendering shows the text and nothing else, and the anchor of \<open>measureLine\<close> stands where it should.
\<close>

fun shown :: "node \<Rightarrow> jstring" where
  "shown (TextNode t) = t"
| "shown (TabNode n) = [CHR 0x09]"
| "shown (BadChar c) = [c]"
| "shown Wbr = []"
| "shown (Styled s ns) = concat (map shown ns)"
| "shown (Anchor ns) = concat (map shown ns)"

abbreviation shows_all :: "node list \<Rightarrow> jstring" where
  "shows_all ns \<equiv> concat (map shown ns)"

definition emit :: "render_env \<Rightarrow> nat \<Rightarrow> jstring \<times> jstring option \<Rightarrow> pen \<times> node list \<Rightarrow> pen \<times> node list" where
  "emit env len fr out = span_out env len (fst fr) (snd fr) out"

definition emits :: "render_env \<Rightarrow> nat \<Rightarrow> jstring \<Rightarrow> pen \<times> node list \<Rightarrow> pen \<times> node list \<Rightarrow> bool" where
  "emits env len t out out' \<longleftrightarrow> (\<exists>frs. out' = fold (emit env len) frs out \<and> concat (map fst frs) = t \<and>
     (\<forall>fr \<in> set frs. fst fr \<noteq> []))"

lemma emits_Nil [intro]: "emits env len [] out out"
  unfolding emits_def by (rule exI [of _ "[]"]) simp

lemma emits_one: "t \<noteq> [] \<Longrightarrow> emits env len t out (span_out env len t s out)"
  unfolding emits_def by (rule exI [of _ "[(t, s)]"]) (simp add: emit_def)

lemma emits_trans: "emits env len a x y \<Longrightarrow> emits env len b y z \<Longrightarrow> emits env len (a @ b) x z"
  unfolding emits_def by (elim exE conjE) (rule_tac x = "frs @ frsa" in exI, auto)

subsection \<open>The loops write the text out\<close>

lemma plain_loop_emits:
  assumes "len \<le> ch + length (concat (map fst st))" "ch \<le> len" "\<forall>fr \<in> set st. fst fr \<noteq> []"
  shows "\<exists>out'. plain_loop env len ch st out = Some out' \<and> emits env len (take (len - ch) (concat (map fst st))) out out'"
  using assms
proof (induction env len ch st out rule: plain_loop.induct)
  case (1 env len ch st)
  then show ?case by auto
next
  case (2 env len ch s style rest st)
  show ?case
  proof (cases "ch < len")
    case True
    let ?s = "if ch + length s > len then take (len - ch) s else s"
    let ?o = "span_out env len ?s (styleToClass style) st"
    have e: "emits env len ?s st ?o" using 2(4) True by (intro emits_one) auto
    show ?thesis
    proof (cases "ch + length s \<le> len")
      case le: True
      then have "\<exists>out'. plain_loop env len (ch + length s) rest ?o = Some out' \<and>
          emits env len (take (len - (ch + length s)) (concat (map fst rest))) ?o out'"
        using 2 True by (intro 2(1)) auto
      then obtain out' where o: "plain_loop env len (ch + length s) rest ?o = Some out'"
          "emits env len (take (len - (ch + length s)) (concat (map fst rest))) ?o out'" by blast
      then show ?thesis using emits_trans [OF e o(2)] le True by auto
    next
      case False
      have "plain_loop env len (ch + length s) rest ?o = Some ?o"
        using False by (cases rest) (auto split: prod.split)
      then show ?thesis using e False True by auto
    qed
  qed (use 2 in auto)
qed

lemma inner_loop_emits:
  assumes "p < stopAt" "stopAt \<le> p + int (length (text1 @ concat (map fst st)))"
  shows "\<exists>text2 style2 st2 out2. inner_loop env mk len marks stopAt st p text1 style out = Some (text2, style2, st2, out2) \<and>
     emits env len (take (nat (stopAt - p)) (text1 @ concat (map fst st))) out out2 \<and>
     text2 @ concat (map fst st2) = drop (nat (stopAt - p)) (text1 @ concat (map fst st))"
  using assms
proof (induction st arbitrary: p text1 style out)
  case Nil
  then have le: "text1 \<noteq> []" "stopAt \<le> p + int (length text1)" by auto
  let ?t = "if p + int (length text1) > stopAt then js_slice text1 0 (stopAt - p) else text1"
  have t: "?t = take (nat (stopAt - p)) text1" using le Nil.prems by (auto simp: js_slice_0)
  have "?t \<noteq> []" using t le Nil.prems by simp
  from emits_one [OF this, of env len out "appliedStyle mk p (min (p + int (length text1)) stopAt) marks style"]
  show ?case using le Nil.prems t by (subst inner_loop.simps) (simp add: Let_def js_slice_from_nonneg)
next
  case (Cons fr st)
  let ?stop = "p + int (length text1)"
  let ?t = "if ?stop > stopAt then js_slice text1 0 (stopAt - p) else text1"
  let ?o = "if text1 = [] then out else span_out env len ?t (appliedStyle mk p (min ?stop stopAt) marks style) out"
  have t: "?t = take (nat (stopAt - p)) text1" using Cons.prems by (auto simp: js_slice_0)
  have e: "emits env len ?t out ?o"
    using t Cons.prems by (cases "text1 = []") (auto intro!: emits_one simp: js_slice_0)
  show ?case
  proof (cases "text1 \<noteq> [] \<and> ?stop \<ge> stopAt")
    case True
    then have "inner_loop env mk len marks stopAt (fr # st) p text1 style out =
        Some (js_slice_from text1 (stopAt - p), style, fr # st, ?o)"
      by (subst inner_loop.simps) (simp add: Let_def)
    moreover have "nat (stopAt - p) \<le> length text1" using True by linarith
    ultimately show ?thesis using e t Cons.prems(1) by (simp add: js_slice_from_nonneg)
  next
    case False
    then have lt: "?stop < stopAt" using Cons.prems by auto
    then have ts: "?t = text1" by simp
    obtain s sty where fr: "fr = (s, sty)" by fastforce
    from Cons.IH [of ?stop s "styleToClass sty" ?o] lt Cons.prems(2) fr
    obtain text2 style2 st2 out2 where o: "inner_loop env mk len marks stopAt st ?stop s (styleToClass sty) ?o = Some (text2, style2, st2, out2)"
      "emits env len (take (nat (stopAt - ?stop)) (s @ concat (map fst st))) ?o out2"
      "text2 @ concat (map fst st2) = drop (nat (stopAt - ?stop)) (s @ concat (map fst st))" by auto
    have "nat (stopAt - p) = length text1 + nat (stopAt - ?stop)" using lt by simp
    then have "emits env len (take (nat (stopAt - p)) (text1 @ concat (map fst (fr # st)))) out out2"
      "text2 @ concat (map fst st2) = drop (nat (stopAt - p)) (text1 @ concat (map fst (fr # st)))"
      using emits_trans [OF e o(2)] o(3) fr unfolding ts by simp_all
    moreover have "inner_loop env mk len marks stopAt (fr # st) p text1 style out = Some (text2, style2, st2, out2)"
      using lt False fr o(1) by (subst inner_loop.simps) (simp add: Let_def)
    ultimately show ?thesis by blast
  qed
qed

subsection \<open>The marks\<close>

text \<open>A span whose ends are in order.\<close>

definition span_ok :: "span \<Rightarrow> bool" where
  "span_ok sp \<longleftrightarrow> 0 \<le> span_key sp \<and> (\<forall>t. sto sp = Some t \<longrightarrow> span_key sp \<le> t)"

definition reaches :: "int option \<Rightarrow> int \<Rightarrow> bool" where
  "reaches nxt k \<longleftrightarrow> (\<exists>n. nxt = Some n \<and> n \<le> k)"

text \<open>The invariant of the outer loop: the next change is not behind, and no change comes before it.\<close>

definition marks_inv :: "int \<Rightarrow> span list \<Rightarrow> span list \<Rightarrow> int option \<Rightarrow> bool" where
  "marks_inv p marked marks nxt \<longleftrightarrow> sorted (map span_key marked) \<and> (\<forall>m \<in> set marked. span_ok m \<and> reaches nxt (span_key m)) \<and>
     (\<forall>m \<in> set marks. span_ok m \<and> span_key m \<le> p \<and> (\<forall>t. sto m = Some t \<longrightarrow> reaches nxt t)) \<and>
     (\<forall>n. nxt = Some n \<longrightarrow> p \<le> n)"

lemma open_marks_spec:
  assumes "open_marks mk p marked marks = (marked1, marks1)" "sorted (map span_key marked)" "0 \<le> p"
    "\<forall>m \<in> set marked. span_ok m \<and> p \<le> span_key m"
  shows "sorted (map span_key marked1) \<and> (\<forall>m \<in> set marked1. span_ok m \<and> p < span_key m \<and> sfrom m \<noteq> None) \<and>
    set marks1 \<subseteq> set marks \<union> {m \<in> set marked. span_key m = p}"
  using assms
proof (induction mk p marked marks rule: open_marks.induct)
  case (2 mk p m ms marks)
  show ?case
  proof (cases "sfrom m = Some p \<or> sfrom m = None")
    case True
    then have k: "span_key m = p" using 2(4,5) by (auto simp: span_key_def)
    with True 2 show ?thesis by (auto split: if_splits)
  next
    case False
    then have f: "p < span_key m" using 2(5) by (auto simp: span_key_def)
    moreover have "\<forall>x \<in> set ms. span_key m \<le> span_key x" using 2(3) by simp
    moreover have "sfrom x \<noteq> None" if "x \<in> set (m # ms)" for x
      using that f \<open>\<forall>x \<in> set ms. span_key m \<le> span_key x\<close> 2(4) False by (force simp: span_key_def split: option.splits)
    moreover have "marked1 = m # ms" "marks1 = marks" using 2(2) False by auto
    ultimately show ?thesis using 2(3,5) by auto
  qed
qed auto

lemma close_marks_spec:
  assumes "close_marks p marks nxt = (marks2, nxt2)"
  shows "set marks2 \<subseteq> {m \<in> set marks. sto m \<noteq> Some p} \<and> (\<forall>k. reaches nxt k \<longrightarrow> reaches nxt2 k) \<and>
    (\<forall>m \<in> set marks2. \<forall>t. sto m = Some t \<longrightarrow> reaches nxt2 t) \<and>
    (\<forall>n. nxt2 = Some n \<longrightarrow> nxt = Some n \<or> (\<exists>m \<in> set marks2. sto m = Some n))"
  using assms
proof (induction p marks nxt arbitrary: marks2 nxt2 rule: close_marks.induct)
  case (2 p m ms next1)
  show ?case
  proof (cases "sto m = Some p")
    case True
    with 2 show ?thesis by auto
  next
    case False
    obtain ms' n where c: "close_marks p ms (min_opt (sto m) next1) = (ms', n)" by fastforce
    have mo: "reaches next1 k \<Longrightarrow> reaches (min_opt (sto m) next1) k"
      "sto m = Some t \<Longrightarrow> reaches (min_opt (sto m) next1) t"
      "min_opt (sto m) next1 = Some i \<Longrightarrow> next1 = Some i \<or> sto m = Some i" for k t i
      by (auto simp: reaches_def min_opt_def min_def split: option.splits if_splits)
    have "marks2 = m # ms'" "nxt2 = n" using False c 2(3) by auto
    note IH = 2(2) [OF False c]
    have "set marks2 \<subseteq> {x \<in> set (m # ms). sto x \<noteq> Some p}" using IH False \<open>marks2 = m # ms'\<close> by auto
    moreover have "reaches next1 k \<Longrightarrow> reaches nxt2 k" for k using IH mo(1) \<open>nxt2 = n\<close> by blast
    moreover have "x \<in> set marks2 \<Longrightarrow> sto x = Some t \<Longrightarrow> reaches nxt2 t" for x t
      using IH mo(2) \<open>nxt2 = n\<close> \<open>marks2 = m # ms'\<close> by auto
    moreover have "nxt2 = Some i \<Longrightarrow> next1 = Some i \<or> (\<exists>x \<in> set marks2. sto x = Some i)" for i
      using IH mo(3) [of i] \<open>nxt2 = n\<close> \<open>marks2 = m # ms'\<close> by auto
    ultimately show ?thesis by blast
  qed
qed (auto simp: reaches_def)

lemma advance_inv:
  assumes inv: "marks_inv p marked marks (Some p)" and p: "0 \<le> p"
    and a: "advanceMarks mk p marked marks = (marked1, marks2, nxt2)"
  shows "marks_inv p marked1 marks2 nxt2 \<and> nxt2 \<noteq> Some p"
proof -
  obtain marks1 where o: "open_marks mk p marked marks = (marked1, marks1)"
    using a by (auto simp: advanceMarks_def split: prod.splits)
  let ?n1 = "case marked1 of [] \<Rightarrow> None | m # _ \<Rightarrow> sfrom m"
  have c: "close_marks p marks1 ?n1 = (marks2, nxt2)"
    using a o by (simp add: advanceMarks_def split: prod.splits)
  have "\<forall>m \<in> set marked. span_ok m \<and> p \<le> span_key m" "sorted (map span_key marked)"
    using inv by (auto simp: marks_inv_def reaches_def)
  note os = open_marks_spec [OF o this(2) p this(1)] and cs = close_marks_spec [OF c]
  have old: "\<forall>m \<in> set marks. span_ok m \<and> span_key m \<le> p \<and> (\<forall>t. sto m = Some t \<longrightarrow> p \<le> t)"
    using inv by (auto simp: marks_inv_def reaches_def)
  have new: "\<forall>m \<in> set marked. span_key m = p \<longrightarrow> span_ok m \<and> (\<forall>t. sto m = Some t \<longrightarrow> p \<le> t)"
    using inv by (auto simp: marks_inv_def span_ok_def)
  have marks2: "span_ok m \<and> span_key m \<le> p \<and> (\<forall>t. sto m = Some t \<longrightarrow> p < t)" if "m \<in> set marks2" for m
  proof -
    have "m \<in> set marks1" "sto m \<noteq> Some p" using cs that by auto
    then have "m \<in> set marks \<or> (m \<in> set marked \<and> span_key m = p)" using os by auto
    with old new \<open>sto m \<noteq> Some p\<close> show ?thesis by fastforce
  qed
  have n1: "reaches ?n1 (span_key m)" if "m \<in> set marked1" for m
  proof (cases marked1)
    case (Cons x xs)
    then have "sfrom x \<noteq> None" "span_key x \<le> span_key m" using os that by auto
    then show ?thesis using Cons by (auto simp: reaches_def span_key_def split: option.splits)
  qed (use that in simp)
  have "p < n" if "nxt2 = Some n" for n
  proof -
    have "?n1 = Some n \<or> (\<exists>m \<in> set marks2. sto m = Some n)" using cs that by simp
    then show ?thesis
    proof
      assume "?n1 = Some n"
      then show ?thesis using os by (cases marked1) (auto simp: span_key_def)
    qed (use marks2 in auto)
  qed
  then show ?thesis using os cs marks2 n1 unfolding marks_inv_def by (auto dest: less_imp_le)
qed

lemma marks_inv_later:
  "marks_inv p marked marks nxt \<Longrightarrow> p \<le> q \<Longrightarrow> (\<And>n. nxt = Some n \<Longrightarrow> q \<le> n) \<Longrightarrow> marks_inv q marked marks nxt"
  by (auto simp: marks_inv_def)

lemma marked_loop_emits:
  assumes "marks_inv p marked marks nxt" "0 \<le> p" "p \<le> int len" "int len - p \<le> int fuel"
    "int len \<le> p + int (length (text1 @ concat (map fst st)))"
  shows "\<exists>out'. marked_loop fuel env mk len p marked marks nxt text1 style st out = Some out' \<and>
     emits env len (take (nat (int len - p)) (text1 @ concat (map fst st))) out out'"
  using assms
proof (induction fuel arbitrary: p marked marks nxt text1 style st out)
  case 0
  then show ?case by (subst marked_loop.simps) auto
next
  case (Suc k)
  show ?case
  proof (cases "p < int len")
    case False
    then show ?thesis using Suc.prems by (subst marked_loop.simps) auto
  next
    case True
    obtain marked1 marks1 nxt2 where a: "(if nxt = Some p then advanceMarks mk p marked marks else (marked, marks, nxt)) = (marked1, marks1, nxt2)"
      by (metis prod_cases3)
    have inv: "marks_inv p marked1 marks1 nxt2 \<and> nxt2 \<noteq> Some p"
      using a advance_inv [of p marked marks mk marked1 marks1 nxt2] Suc.prems(1,2) by (auto split: if_splits)
    obtain q where q: "q = (case nxt2 of None \<Rightarrow> int len | Some n \<Rightarrow> min (int len) n)" by blast
    have lt: "p < q" "q \<le> int len" "\<And>n. nxt2 = Some n \<Longrightarrow> q \<le> n"
      using q inv True by (auto simp: marks_inv_def split: option.splits)
    let ?T = "text1 @ concat (map fst st)"
    have "q \<le> p + int (length ?T)" using lt Suc.prems(5) by linarith
    from inner_loop_emits [OF lt(1) this, of env mk len marks1 style out]
    obtain text2 style2 st2 out2 where i: "inner_loop env mk len marks1 q st p text1 style out = Some (text2, style2, st2, out2)"
      "emits env len (take (nat (q - p)) ?T) out out2" "text2 @ concat (map fst st2) = drop (nat (q - p)) ?T" by blast
    have "\<exists>out'. marked_loop k env mk len q marked1 marks1 nxt2 text2 style2 st2 out2 = Some out' \<and>
       emits env len (take (nat (int len - q)) (text2 @ concat (map fst st2))) out2 out'"
      using Suc.prems lt inv unfolding i(3)
      by (intro Suc.IH [of q marked1 marks1 nxt2 text2 st2 style2 out2, unfolded i(3)]) (auto intro: marks_inv_later)
    then obtain out' where o: "marked_loop k env mk len q marked1 marks1 nxt2 text2 style2 st2 out2 = Some out'"
       "emits env len (take (nat (int len - q)) (drop (nat (q - p)) ?T)) out2 out'" unfolding i(3) by blast
    have "nat (int len - p) = nat (q - p) + nat (int len - q)" using lt by simp
    then have "take (nat (int len - p)) ?T = take (nat (q - p)) ?T @ take (nat (int len - q)) (drop (nat (q - p)) ?T)"
      by (simp only: take_add)
    then have "emits env len (take (nat (int len - p)) ?T) out out'" using emits_trans [OF i(2) o(2)] by simp
    moreover have "marked_loop (Suc k) env mk len p marked marks nxt text1 style st out = Some out'"
      using True a i(1) o(1) by (subst marked_loop.simps) (simp add: q [symmetric])
    ultimately show ?thesis by blast
  qed
qed


subsection \<open>The whole rendering\<close>

lemma sorted_hd_key: "sorted (map f xs) \<Longrightarrow> x \<in> set xs \<Longrightarrow> f (hd xs) \<le> f x"
  by (cases xs) auto

lemma sorted_marks_inv:
  assumes "\<forall>m \<in> set marked. span_ok m" "marked \<noteq> []"
  shows "marks_inv 0 (sort_key span_key marked) [] (Some (span_key (hd (sort_key span_key marked))))"
proof -
  let ?s = "sort_key span_key marked"
  have s: "set ?s = set marked" "sorted (map span_key ?s)" "?s \<noteq> []"
    using assms(2) by (simp_all, metis set_empty set_sort)
  have "\<forall>m \<in> set ?s. span_key (hd ?s) \<le> span_key m" by (intro ballI sorted_hd_key s(2))
  moreover have "span_ok (hd ?s)" using s(1,3) assms(1) hd_in_set [of ?s] by auto
  ultimately show ?thesis using assms(1) s by (auto simp: marks_inv_def reaches_def span_ok_def)
qed

lemma getContent_emits:
  assumes "concat (map fst st) = t" "\<forall>fr \<in> set st. fst fr \<noteq> []"
    "\<And>ms. marked = Some ms \<Longrightarrow> \<forall>m \<in> set ms. span_ok m" "t \<noteq> [] \<or> wrap \<noteq> None"
  shows "\<exists>out. getContent env mk wrap t st marked = Some (snd out) \<and>
    emits env (length t) t (\<lparr>pfirst = True, pcol = 0, outPos = 0, wrapAt = wrap, pstop = False\<rparr>, []) out"
proof -
  let ?pn = "\<lparr>pfirst = True, pcol = 0, outPos = 0, wrapAt = wrap, pstop = False\<rparr>"
  have plain: "\<exists>out. plain_loop env (length t) 0 st (?pn, []) = Some out \<and> emits env (length t) t (?pn, []) out"
    using plain_loop_emits [of "length t" 0 st env "(?pn, [])"] assms by auto
  show ?thesis
  proof (cases "marked = None \<or> marked = Some []")
    case True
    with plain assms(4) show ?thesis by (auto simp: getContent_def)
  next
    case False
    then obtain m ms where ms: "marked = Some (m # ms)" by (metis list.exhaust option.exhaust)
    let ?s = "sort_key span_key (m # ms)"
    have "marks_inv 0 ?s [] (Some (span_key (hd ?s)))" using assms(3) ms by (intro sorted_marks_inv) auto
    from marked_loop_emits [OF this, of "length t" "length t" "[]" st env mk None "(?pn, [])"]
    obtain out where "marked_loop (length t) env mk (length t) 0 ?s [] (Some (span_key (hd ?s))) [] None st (?pn, []) = Some out"
      "emits env (length t) t (?pn, []) out" using assms(1) by auto
    moreover from this(1) have "getContent env mk wrap t st marked = Some (snd out)"
      using assms(4) ms unfolding getContent_def Let_def by (cases out) auto
    ultimately show ?thesis by blast
  qed
qed

lemma special_loop_shown: "shows_all (fst (special_loop tab col t)) = t"
proof (induction tab col t rule: special_loop.induct)
  case (1 tab col t)
  let ?a = "takeWhile (\<lambda>c. \<not> special c) t"
  show ?case
  proof (cases "dropWhile (\<lambda>c. \<not> special c) t")
    case Nil
    then have "?a = t" by (metis append_Nil2 takeWhile_dropWhile_id)
    moreover have "shows_all (fst (special_loop tab col t)) = ?a"
      by (subst special_loop.simps) (simp add: Let_def Nil del: dropWhile_eq_Nil_conv)
    ultimately show ?thesis by simp
  next
    case (Cons m rest)
    then have t: "t = ?a @ m # rest" by (metis takeWhile_dropWhile_id)
    show ?thesis
    proof (cases "m = CHR 0x09")
      case True
      obtain ns c2 where r: "special_loop tab (col + length ?a + (tab - (col + length ?a) mod tab)) rest = (ns, c2)"
        by fastforce
      have "shows_all ns = rest"
        using 1(1) [OF refl refl refl Cons True refl] r by simp
      then have "shows_all (fst (special_loop tab col t)) = ?a @ m # rest"
        by (subst special_loop.simps) (simp only: Let_def Cons list.case True if_True r prod.case, simp)
      with t show ?thesis by metis
    next
      case False
      obtain ns c2 where r: "special_loop tab (col + length ?a + 1) rest = (ns, c2)" by fastforce
      have "shows_all ns = rest" using 1(2) [OF refl refl refl Cons False] r by simp
      then have "shows_all (fst (special_loop tab col t)) = ?a @ m # rest"
        using False by (subst special_loop.simps) (simp only: Let_def Cons list.case if_False r prod.case, simp)
      with t show ?thesis by metis
    qed
  qed
qed

lemma put_text_shown:
  assumes "\<not> re_ie env" "put_text env t style pn = (ns, pn1)"
  shows "shows_all ns = t" "wrapAt pn1 = wrapAt pn" "outPos pn1 = outPos pn" "pstop pn1 = pstop pn"
  using assms special_loop_shown [of "re_tab env" "pcol pn" t]
  by (auto simp: put_text_def Let_def split: prod.splits option.splits if_splits)


lemma span_out_plain:
  assumes "\<not> re_ie env" "wrapAt pn = None"
  shows "\<exists>pn1 ns. span_out env len t style (pn, html) = (pn1, html @ ns) \<and> wrapAt pn1 = None \<and> shows_all ns = t"
proof -
  obtain ns pn1 where p: "put_text env t style pn = (ns, pn1)" by fastforce
  from put_text_shown [OF assms(1) this] show ?thesis using p assms(2) by (auto simp: span_out_def)
qed

lemma emits_plain:
  assumes "\<not> re_ie env" "wrapAt pn = None" "emits env len t (pn, html) out"
  shows "shows_all (snd out) = shows_all html @ t"
proof -
  obtain frs where f: "out = fold (emit env len) frs (pn, html)" "concat (map fst frs) = t"
    using assms(3) unfolding emits_def by blast
  have "shows_all (snd (fold (emit env len) frs (pn, html))) = shows_all html @ concat (map fst frs)"
    using assms(2)
  proof (induction frs arbitrary: pn html)
    case (Cons fr frs)
    obtain pn1 ns where s: "span_out env len (fst fr) (snd fr) (pn, html) = (pn1, html @ ns)" "wrapAt pn1 = None"
        "shows_all ns = fst fr"
      using span_out_plain [OF assms(1) Cons.prems, of len "fst fr" "snd fr" html] by blast
    then show ?case using Cons.IH [OF s(2), of "html @ ns"] by (simp add: emit_def)
  qed simp
  with f show ?thesis by simp
qed

text \<open>With \<open>wrapAt\<close>: the state while the anchor is still to come, and the state behind it.\<close>

definition anchored :: "jstring \<Rightarrow> int \<Rightarrow> node list \<Rightarrow> bool" where
  "anchored t w html \<longleftrightarrow> (\<exists>pre ns post. html = pre @ Anchor ns # post \<and> shows_all pre = take (nat w) t)"

lemma span_out_behind:
  assumes "wrapAt pn = Some w" "w < outPos pn"
  shows "\<exists>pn1 ns w1. span_out env len t style (pn, html) = (pn1, html @ ns) \<and> wrapAt pn1 = Some w1 \<and> w1 < outPos pn1"
proof -
  obtain ns pn1 where p: "put_text env t style pn = (ns, pn1)" by fastforce
  then have "wrapAt pn1 = Some w" "outPos pn1 = outPos pn"
    using assms(1) by (auto simp: put_text_def Let_def split: prod.splits option.splits if_splits)
  with p assms show ?thesis by (auto simp: span_out_def Let_def intro!: exI [of _ w])
qed

lemma fold_behind:
  "wrapAt pn = Some w \<Longrightarrow> w < outPos pn \<Longrightarrow> \<exists>ns. snd (fold (emit env len) frs (pn, html)) = html @ ns"
proof (induction frs arbitrary: pn html w)
  case (Cons fr frs)
  obtain pn1 ns w1 where s: "span_out env len (fst fr) (snd fr) (pn, html) = (pn1, html @ ns)" "wrapAt pn1 = Some w1" "w1 < outPos pn1"
    using span_out_behind [OF Cons.prems, of env len "fst fr" "snd fr" html] by blast
  from Cons.IH [OF s(2,3), of "html @ ns"] s(1) show ?case by (auto simp: emit_def)
qed simp

lemma span_out_here:
  assumes ie: "\<not> re_ie env" and pn: "wrapAt pn = Some w" "\<not> pstop pn" "outPos pn \<le> w" "w < outPos pn + int (length t)"
  shows "\<exists>pn1 pre ns post. span_out env len t style (pn, html) = (pn1, html @ pre @ Anchor ns # post) \<and>
     shows_all pre = take (nat (w - outPos pn)) t \<and> wrapAt pn1 = Some (w - 1) \<and> w - 1 < outPos pn1"
proof -
  let ?cut = "nat (w - outPos pn)"
  obtain before pn1 where b: "(if w > outPos pn
      then (let (ns, p) = put_text env (take ?cut t) style pn in (ns @ (if re_compensate env then [Wbr] else []), p))
      else ([], pn)) = (before, pn1)" by fastforce
  have "shows_all before = take ?cut t"
    using b put_text_shown(1) [OF ie, of "take ?cut t" style pn] by (auto split: if_splits prod.splits)
  moreover obtain inside pn2 where "put_text env (if re_opera env then take 1 (drop ?cut t) else drop ?cut t) style pn1 = (inside, pn2)"
    by fastforce
  moreover obtain behind pn3 where "(if re_opera env then put_text env (drop (?cut + 1) t) style pn2 else ([], pn2)) = (behind, pn3)"
    by fastforce
  ultimately have "shows_all before = take ?cut t" "span_out env len t style (pn, html) =
      (pn3\<lparr>wrapAt := Some (w - 1), outPos := outPos pn + int (length t)\<rparr>, html @ before @ [Anchor inside] @ behind)"
    using pn b by (simp_all only: span_out_def Let_def prod.case option.case if_False, simp_all)
  then show ?thesis using pn(4) by auto
qed

lemma span_out_end:
  assumes ie: "\<not> re_ie env" and pn: "wrapAt pn = Some w" "\<not> pstop pn" "outPos pn + int (length t) \<le> w"
  shows "\<exists>pn1 ns. span_out env len t style (pn, html) =
     (pn1, html @ ns @ (if outPos pn + int (length t) = w \<and> w = int len then [Anchor [TextNode (re_eol env)]] else [])) \<and>
     shows_all ns = t \<and> wrapAt pn1 = Some w \<and> \<not> pstop pn1 \<and> outPos pn1 = outPos pn + int (length t)"
proof -
  obtain ns pn1 where p: "put_text env t style pn = (ns, pn1)" by fastforce
  from put_text_shown [OF ie this] show ?thesis using p pn by (auto simp: span_out_def Let_def)
qed

lemma fold_anchored:
  assumes "\<not> re_ie env" "wrapAt pn = Some w" "\<not> pstop pn" "outPos pn = int (length d)" "shows_all html = d"
    "int (length d) \<le> w" "0 < w" "w \<le> int len" "length d < len"
    "d @ concat (map fst frs) = t" "length t = len" "\<forall>fr \<in> set frs. fst fr \<noteq> []"
  shows "anchored t w (snd (fold (emit env len) frs (pn, html)))"
  using assms
proof (induction frs arbitrary: pn html d)
  case (Cons fr frs)
  let ?x = "fst fr"
  show ?case
  proof (cases "w < outPos pn + int (length ?x)")
    case True
    from span_out_here [OF Cons.prems(1-3) _ True, of len "snd fr" html] Cons.prems(4,6)
    obtain pn1 pre ns post where s: "span_out env len ?x (snd fr) (pn, html) = (pn1, html @ pre @ Anchor ns # post)"
      "shows_all pre = take (nat (w - outPos pn)) ?x" "wrapAt pn1 = Some (w - 1)" "w - 1 < outPos pn1" by auto
    obtain more where m: "snd (fold (emit env len) frs (pn1, html @ pre @ Anchor ns # post)) = (html @ pre @ Anchor ns # post) @ more"
      using fold_behind [OF s(3,4)] by blast
    have "nat w = length d + nat (w - outPos pn)" using Cons.prems(4,6) by simp
    moreover have "nat (w - outPos pn) \<le> length ?x" using True Cons.prems(4,6) by simp
    ultimately have "shows_all (html @ pre) = take (nat w) t"
      using s(2) Cons.prems(5,10) by auto
    then show ?thesis using m s(1) unfolding anchored_def
      by (intro exI [of _ "html @ pre"] exI [of _ ns] exI [of _ "post @ more"]) (simp add: emit_def)
  next
    case False
    then have le: "outPos pn + int (length ?x) \<le> w" by simp
    from span_out_end [OF Cons.prems(1-3) le, of len "snd fr" html]
    obtain pn1 ns where s: "span_out env len ?x (snd fr) (pn, html) =
       (pn1, html @ ns @ (if outPos pn + int (length ?x) = w \<and> w = int len then [Anchor [TextNode (re_eol env)]] else []))"
      "shows_all ns = ?x" "wrapAt pn1 = Some w" "\<not> pstop pn1" "outPos pn1 = outPos pn + int (length ?x)" by blast
    have lt: "length d + length ?x \<le> len" using Cons.prems(10,11) by auto
    show ?thesis
    proof (cases "outPos pn + int (length ?x) = w \<and> w = int len")
      case True
      then have "length (concat (map fst frs)) = 0"
        using Cons.prems(4,11) arg_cong [OF Cons.prems(10), of length] by (simp del: length_0_conv)
      then have "frs = []" using Cons.prems(12) by (cases frs) auto
      moreover have "shows_all (html @ ns) = take (nat w) t" using True s(2) Cons.prems(4,5,10,11) \<open>frs = []\<close> by auto
      ultimately show ?thesis using True s(1) unfolding anchored_def
        by (intro exI [of _ "html @ ns"] exI [of _ "[TextNode (re_eol env)]"] exI [of _ "[]"]) (simp add: emit_def)
    next
      case no: False
      have "length (d @ ?x) < len" using no le lt Cons.prems(4,8) by auto
      then have "anchored t w (snd (fold (emit env len) frs (pn1, html @ ns)))"
        using Cons.prems s le by (intro Cons.IH [of pn1 "d @ ?x" "html @ ns"]) auto
      moreover have "span_out env len ?x (snd fr) (pn, html) = (pn1, html @ ns)" using s(1) no by simp
      ultimately show ?thesis by (simp add: emit_def [of env len fr])
    qed
  qed
qed simp

text \<open>
  C11: A line shows its text: the fragments, tabs and marked pieces that \<open>getContent\<close> writes out are together the
  text of the line, whatever marks are on it, and when a position is measured the anchor stands right
  behind the characters in front of that position.
\<close>

theorem line_shows_text:
  assumes "\<not> re_ie env" and "concat (map fst st) = t" and "\<forall>fr \<in> set st. fst fr \<noteq> []"
    and "\<forall>ms. marked = Some ms \<longrightarrow> (\<forall>m \<in> set ms. span_ok m)" and "t \<noteq> []"
  shows "(\<exists>ns. getContent env mk None t st marked = Some ns \<and> shows_all ns = t) \<and>
    (\<forall>w. 0 < w \<and> w \<le> int (length t) \<longrightarrow> (\<exists>pre ns post.
       getContent env mk (Some w) t st marked = Some (pre @ Anchor ns # post) \<and> shows_all pre = take (nat w) t))"
proof (intro conjI allI impI)
  have m: "marked = Some ms \<Longrightarrow> \<forall>m \<in> set ms. span_ok m" for ms using assms(4) by blast
  show "\<exists>ns. getContent env mk None t st marked = Some ns \<and> shows_all ns = t"
    using getContent_emits [OF assms(2,3) m, where marked = marked and wrap = None and env = env and mk = mk] assms(5)
    by (auto dest: emits_plain [OF assms(1), rotated])
  fix w assume w: "0 < w \<and> w \<le> int (length t)"
  let ?pn = "\<lparr>pfirst = True, pcol = 0, outPos = 0, wrapAt = Some w, pstop = False\<rparr>"
  obtain out where o: "getContent env mk (Some w) t st marked = Some (snd out)" "emits env (length t) t (?pn, []) out"
    using getContent_emits [OF assms(2,3) m, where marked = marked and wrap = "Some w" and env = env and mk = mk] by auto
  then obtain frs where f: "out = fold (emit env (length t)) frs (?pn, [])" "concat (map fst frs) = t" "\<forall>fr \<in> set frs. fst fr \<noteq> []"
    unfolding emits_def by blast
  have "anchored t w (snd (fold (emit env (length t)) frs (?pn, [])))"
    using w f assms(1,5) by (intro fold_anchored [of env ?pn w "[]" "[]" "length t" frs t]) auto
  then show "\<exists>pre ns post. getContent env mk (Some w) t st marked = Some (pre @ Anchor ns # post) \<and> shows_all pre = take (nat w) t"
    using o(1) f(1) by (auto simp: anchored_def)
qed

theorem line_shows_text_witness:
  "\<exists>ns. getContent \<lparr>re_ie = False, re_opera = False, re_tab = 4, re_compensate = False, re_eol = '' ''\<rparr>
      (\<lambda>_. \<lparr>mlines = [], mtype = Range, mstyle = Some ''m'', inclusiveLeft = False, inclusiveRight = False,
           startStyle = None, endStyle = None\<rparr>) None ''select x'' [(''select'', Some ''keyword''), ('' x'', None)]
      (Some [\<lparr>sfrom = Some 3, sto = Some 7, smarker = 0\<rparr>]) = Some ns \<and> shows_all ns = ''select x''"
  by (rule line_shows_text [THEN conjunct1]) (simp_all add: span_ok_def span_key_def)

end
