(* ===== verification/CM_Highlight.thy ===== *)
theory CM_Highlight
  imports CM_Demo
begin

section \<open>The background highlighter\<close>

text \<open>
  The parser states kept on the lines: \<open>findStartLine\<close>, \<open>getStateBefore\<close>, \<open>highlightWorker\<close>, \<open>loadMode\<close>
  and the cache of styles behind \<open>lineContent\<close> and \<open>getTokenAt\<close>.  The worker stops when its time is up;
  whether it is up behind a line is the parameter \<open>late\<close>.  \<open>None\<close> is a line that does not exist or a mode
  that does not advance.
\<close>

subsection \<open>Where to start\<close>

text \<open>The loop: the candidate is the line with the smallest indentation; the inner \<open>None\<close> is
  \<open>undefined\<close>.\<close>

function start_loop :: "('g, 's) editor \<Rightarrow> int \<Rightarrow> int \<Rightarrow> (int \<times> nat) option \<Rightarrow> int option option" where
  "start_loop ed search low best =
     (if search > low then
        if search = 0 then Some (Some 0)
        else do {
          l \<leftarrow> getLine ed (search - 1);
          if stateAfter l \<noteq> None then Some (Some search)
          else let indented = countColumn (ltext l) None (tab_size (options ed));
                   best1 = (case best of
                       None \<Rightarrow> Some (search - 1, indented)
                     | Some (ml, mi) \<Rightarrow> if mi > indented then Some (search - 1, indented) else best)
               in start_loop ed (search - 1) low best1 }
      else Some (map_option fst best))"
  by pat_completeness auto
termination
  by (relation "measure (\<lambda>(ed, search, low, best). nat (search - low))") auto

declare start_loop.simps [simp del]

definition findStartLine :: "('g, 's) editor \<Rightarrow> int \<Rightarrow> int option option" where
  "findStartLine ed n = start_loop ed n (n - 40) None"

subsection \<open>The state in front of a line\<close>

definition set_state_after :: "nat \<Rightarrow> 's option \<Rightarrow> ('g, 's) editor \<Rightarrow> ('g, 's) editor" where
  "set_state_after k s ed = ed\<lparr>doc := map_line k (\<lambda>l. l\<lparr>stateAfter := s\<rparr>) (doc ed)\<rparr>"

text \<open>\<open>line.process(mode, state, tabSize)\<close> and what is then kept on the line.\<close>

definition process_line :: "nat \<Rightarrow> bool \<Rightarrow> 's \<Rightarrow> ('g, 's) editor \<Rightarrow> ('s \<times> ('g, 's) editor) option" where
  "process_line k keep s ed = do {
     l \<leftarrow> getLine ed (int k);
     (g, s1) \<leftarrow> process (mode ed) (tab_size (options ed)) (ltext l) (mode_env ed) s;
     Some (s1, set_state_after k (if keep then Some (copyState (mode ed) s1) else None) (ed\<lparr>mode_env := g\<rparr>)) }"

fun process_lines :: "nat list \<Rightarrow> bool \<Rightarrow> 's \<Rightarrow> ('g, 's) editor \<Rightarrow> ('s \<times> ('g, 's) editor) option" where
  "process_lines [] keep s ed = Some (s, ed)"
| "process_lines (k # ks) keep s ed = do {
     (s1, ed1) \<leftarrow> process_line k keep s ed;
     process_lines ks keep s1 ed1 }"

text \<open>The loop of the code never counts \<open>pos\<close> up: where it started decides for all its lines whether
  they keep their state.\<close>

definition getStateBefore :: "nat \<Rightarrow> ('g, 's) editor \<Rightarrow> ('s \<times> ('g, 's) editor) option" where
  "getStateBefore n ed = do {
     r \<leftarrow> findStartLine ed (int n);
     p \<leftarrow> r;
     st \<leftarrow> (if p = 0 then Some None else map_option stateAfter (getLine ed (p - 1)));
     process_lines [nat p ..< min n (chunkSize (doc ed))] (p = int n - 1 \<or> p mod 5 = 0)
       (case st of None \<Rightarrow> m_startState (mode ed) | Some s \<Rightarrow> copyState (mode ed) s) ed }"

subsection \<open>The worker\<close>

text \<open>\<open>line.highlight(mode, state, tabSize)\<close>; \<open>keep\<close> is what is left in \<open>stateAfter\<close>.\<close>

definition highlight_line :: "nat \<Rightarrow> 's \<Rightarrow> ('g, 's) editor \<Rightarrow> ('s \<times> ('g, 's) editor) option" where
  "highlight_line k s ed = do {
     l \<leftarrow> getLine ed (int k);
     (g, s1, st) \<leftarrow> highlight (mode ed) (tab_size (options ed)) (ltext l) (mode_env ed) s;
     Some (s1, ed\<lparr>mode_env := g,
       doc := map_line k (\<lambda>l. l\<lparr>lstyles := Some st, stateAfter := Some (copyState (mode ed) s1)\<rparr>) (doc ed)\<rparr>) }"

fun work_lines :: "nat list \<Rightarrow> (nat \<Rightarrow> bool) \<Rightarrow> nat \<Rightarrow> 's \<Rightarrow> ('g, 's) editor \<Rightarrow> ('g, 's) editor option" where
  "work_lines [] late delay s ed = Some ed"
| "work_lines (k # ks) late delay s ed = do {
     (s1, ed1) \<leftarrow> (if showingFrom ed \<le> k then highlight_line k s ed else process_line k (k mod 5 = 0) s ed);
     let ed2 = ed1\<lparr>frontier := Suc k\<rparr>;
     if late k then Some (startWorker delay ed2) else work_lines ks late delay s1 ed2 }"

text \<open>What the worker does to the lines, and then the entry in the log of changes.\<close>

definition worker_pass :: "(nat \<Rightarrow> bool) \<Rightarrow> nat \<Rightarrow> ('g, 's) editor \<Rightarrow> ('g, 's) editor option" where
  "worker_pass late delay ed = do {
     (s, ed1) \<leftarrow> getStateBefore (frontier ed) ed;
     work_lines [frontier ed ..< min (showingTo ed) (chunkSize (doc ed))] late delay (copyState (mode ed) s) ed1 }"

definition highlightWorker :: "(nat \<Rightarrow> bool) \<Rightarrow> nat \<Rightarrow> ('g, 's) editor \<Rightarrow> ('g, 's) editor option" where
  "highlightWorker late delay ed =
     (if frontier ed \<ge> showingTo ed then Some ed
      else map_option (\<lambda>ed2. if frontier ed < showingTo ed2 \<and> showingFrom ed2 \<le> frontier ed2
              then push_change (int (frontier ed)) (int (frontier ed2)) 0 ed2 else ed2) (worker_pass late delay ed))"

definition loadMode :: "('g, 's) mode \<Rightarrow> 'g \<Rightarrow> ('g, 's) editor \<Rightarrow> ('g, 's) editor" where
  "loadMode m g ed =
     startWorker 100 ((fold (\<lambda>k. set_state_after k None) [0 ..< chunkSize (doc ed)]
        (ed\<lparr>mode := m, mode_env := g\<rparr>))\<lparr>frontier := 0\<rparr>)"

subsection \<open>The callers\<close>

text \<open>The first part of \<open>lineContent\<close>: the styles of a line, highlighted now if they are not known.\<close>

definition line_styles :: "nat \<Rightarrow> ('g, 's) editor \<Rightarrow> (styles \<times> ('g, 's) editor) option" where
  "line_styles k ed = do {
     l \<leftarrow> getLine ed (int k);
     case lstyles l of Some st \<Rightarrow> Some (st, ed)
     | None \<Rightarrow> do {
         (s, ed1) \<leftarrow> getStateBefore k ed;
         (g, s1, st) \<leftarrow> highlight (mode ed) (tab_size (options ed)) (ltext l) (mode_env ed1) s;
         Some (st, ed1\<lparr>mode_env := g,
           doc := map_line k (\<lambda>l. l\<lparr>lstyles := Some st, stateAfter := Some s1\<rparr>) (doc ed1)\<rparr>) } }"

text \<open>\<open>getTokenAt\<close> and \<open>getStateAfter\<close> of the instance.\<close>

definition cm_getTokenAt :: "pos \<Rightarrow> ('g, 's) editor \<Rightarrow> ('s token_info \<times> ('g, 's) editor) option" where
  "cm_getTokenAt p0 ed = do {
     p \<leftarrow> clip ed p0;
     l \<leftarrow> getLine ed (pline p);
     (s, ed1) \<leftarrow> getStateBefore (nat (pline p)) ed;
     (g, tk) \<leftarrow> getTokenAt (mode ed) (tab_size (options ed)) (ltext l) (pch p) (mode_env ed1) s;
     Some (tk, ed1\<lparr>mode_env := g\<rparr>) }"

definition getStateAfter :: "int option \<Rightarrow> ('g, 's) editor \<Rightarrow> ('s \<times> ('g, 's) editor) option" where
  "getStateAfter line ed =
     getStateBefore (nat (clipLine ed (case line of None \<Rightarrow> doc_size ed - 1 | Some l \<Rightarrow> l) + 1)) ed"

subsection \<open>What the highlighter leaves alone\<close>

text \<open>What a line is, apart from the caches of the highlighter.\<close>

definition core :: "'s line \<Rightarrow> nat \<times> jstring \<times> int \<times> bool \<times> span list option" where
  "core l = (lid l, ltext l, lheight l, lhidden l, markedSpans l)"

definition recached :: "('g, 's) editor \<Rightarrow> ('g, 's) editor \<Rightarrow> bool" where
  "recached ed ed' \<longleftrightarrow> (\<exists>d g. ed' = ed\<lparr>doc := d, mode_env := g\<rparr>) \<and> doc_ok (doc ed') \<and>
     map core (lines ed') = map core (lines ed)"

lemma recached_refl: "doc_ok (doc ed) \<Longrightarrow> recached ed ed"
  unfolding recached_def by (intro conjI exI [of _ "doc ed"] exI [of _ "mode_env ed"]) auto

lemma recached_trans: "recached a b \<Longrightarrow> recached b c \<Longrightarrow> recached a c"
  unfolding recached_def by (elim exE conjE) (intro conjI exI, auto)

lemma recachedD:
  assumes "recached ed ed'"
  shows "doc_ok (doc ed')" "length (lines ed') = length (lines ed)" "texts ed' = texts ed" "ids ed' = ids ed"
    "options ed' = options ed" "mode ed' = mode ed" "frontier ed' = frontier ed" "showingFrom ed' = showingFrom ed"
    "showingTo ed' = showingTo ed" "changes ed' = changes ed" "map lhidden (lines ed') = map lhidden (lines ed)"
    "map lheight (lines ed') = map lheight (lines ed)"
proof -
  have m: "map core (lines ed') = map core (lines ed)" using assms by (simp add: recached_def)
  have "map (f \<circ> core) (lines ed') = map (f \<circ> core) (lines ed)" for f :: "_ \<Rightarrow> 'c"
    using arg_cong [OF m, of "map f"] by simp
  from this [of "fst \<circ> snd"] this [of fst] this [of "fst \<circ> snd \<circ> snd \<circ> snd"] this [of "fst \<circ> snd \<circ> snd"]
  show "texts ed' = texts ed" "ids ed' = ids ed" "map lhidden (lines ed') = map lhidden (lines ed)"
    "map lheight (lines ed') = map lheight (lines ed)"
    by (simp_all add: texts_def core_def comp_def)
  show "length (lines ed') = length (lines ed)" using arg_cong [OF m, of length] by simp
qed (use assms in \<open>auto simp: recached_def\<close>)

lemma recached_map_line:
  assumes "doc_ok (doc ed)" "k < length (lines ed)" "\<And>l. core (f l) = core l"
  shows "recached ed (ed\<lparr>mode_env := g, doc := map_line k f (doc ed)\<rparr>)"
proof -
  have "\<And>l. lheight (f l) = lheight l" using assms(3) by (simp add: core_def)
  then have "doc_ok (map_line k f (doc ed))" by (rule map_line_ok [OF assms(1,2)])
  moreover have "map core ((lines ed)[k := f (lines ed ! k)]) = map core (lines ed)"
    using assms(2,3) by (simp add: map_update) (metis list_update_id nth_map)
  ultimately show ?thesis
    unfolding recached_def
    by (intro conjI exI [of _ "map_line k f (doc ed)"] exI [of _ g]) (simp_all add: map_line_collapse [OF assms(1,2)])
qed


lemma recached_set_state:
  "doc_ok (doc ed) \<Longrightarrow> k < length (lines ed) \<Longrightarrow> recached ed (set_state_after k s (ed\<lparr>mode_env := g\<rparr>))"
  using recached_map_line [of ed k "\<lambda>l. l\<lparr>stateAfter := s\<rparr>" g] by (simp add: set_state_after_def core_def)

subsection \<open>The highlighter returns\<close>

lemma findStartLine_range:
  assumes "doc_ok (doc ed)" "0 \<le> n" "n \<le> doc_size ed"
  shows "\<exists>p. findStartLine ed n = Some (Some p) \<and> 0 \<le> p \<and> p \<le> n"
proof -
  have "\<exists>p. start_loop ed search low best = Some (Some p) \<and> 0 \<le> p \<and> p \<le> n"
    if "0 \<le> search" "search \<le> n" "low < search \<or> best \<noteq> None" "\<And>b i. best = Some (b, i) \<Longrightarrow> 0 \<le> b \<and> b \<le> n"
    for search low best
    using that
  proof (induction "nat (search - low)" arbitrary: search best)
    case 0
    then obtain b i where "best = Some (b, i)" by auto
    with 0 show ?case by (subst start_loop.simps) auto
  next
    case (Suc k)
    have low: "low < search" using Suc.hyps(2) by linarith
    show ?case
    proof (cases "search = 0")
      case True
      with low assms(2) show ?thesis by (subst start_loop.simps) auto
    next
      case False
      then obtain l where l: "getLine ed (search - 1) = Some l"
        using Suc.prems assms by (auto simp: getLine_lines doc_size_lines)
      show ?thesis
      proof (cases "stateAfter l = None")
        case True
        let ?best = "case best of None \<Rightarrow> Some (search - 1, countColumn (ltext l) None (tab_size (options ed)))
           | Some (ml, mi) \<Rightarrow> if mi > countColumn (ltext l) None (tab_size (options ed))
               then Some (search - 1, countColumn (ltext l) None (tab_size (options ed))) else best"
        have "\<exists>p. start_loop ed (search - 1) low ?best = Some (Some p) \<and> 0 \<le> p \<and> p \<le> n"
          using Suc.hyps(2) Suc.prems False by (intro Suc.hyps(1)) (auto split: option.splits if_splits)
        then show ?thesis using l True False low
          by (subst start_loop.simps) (simp add: Let_def)
      next
        case nz: False
        then show ?thesis using l False low Suc.prems by (subst start_loop.simps) simp
      qed
    qed
  qed
  from this [of n "n - 40" None] show ?thesis using assms(2) by (simp add: findStartLine_def)
qed

context cm_mode
begin

lemma process_line_total:
  assumes "mode ed = m" "doc_ok (doc ed)" "k < length (lines ed)"
  shows "\<exists>s1 ed1. process_line k keep s ed = Some (s1, ed1) \<and> recached ed ed1"
proof -
  obtain g s1 where "process m (tab_size (options ed)) (ltext (lines ed ! k)) (mode_env ed) s = Some (g, s1)"
    using process_total [of "tab_size (options ed)" "ltext (lines ed ! k)" "mode_env ed" s] by auto
  then show ?thesis using assms recached_set_state [OF assms(2,3)]
    by (auto simp: process_line_def getLine_lines)
qed

lemma process_lines_total:
  assumes "mode ed = m" "doc_ok (doc ed)" "\<forall>k \<in> set ks. k < length (lines ed)"
  shows "\<exists>s1 ed1. process_lines ks keep s ed = Some (s1, ed1) \<and> recached ed ed1"
  using assms
proof (induction ks arbitrary: s ed)
  case (Cons k ks)
  obtain s1 ed1 where p: "process_line k keep s ed = Some (s1, ed1)" "recached ed ed1"
    using process_line_total [OF Cons.prems(1,2), of k keep s] Cons.prems(3) by auto
  note r = recachedD [OF p(2)]
  obtain s2 ed2 where "process_lines ks keep s1 ed1 = Some (s2, ed2)" "recached ed1 ed2"
    using Cons.IH [of ed1 s1] Cons.prems r by auto
  with p show ?case by (auto intro: recached_trans)
qed (auto intro: recached_refl)

lemma getStateBefore_total:
  assumes "mode ed = m" "doc_ok (doc ed)" "n \<le> length (lines ed)"
  shows "\<exists>s ed1. getStateBefore n ed = Some (s, ed1) \<and> recached ed ed1"
proof -
  obtain p where p: "findStartLine ed (int n) = Some (Some p)" "0 \<le> p" "p \<le> int n"
    using findStartLine_range [OF assms(2), of "int n"] assms(2,3) by (auto simp: doc_size_lines)
  obtain st where st: "(if p = 0 then Some None else map_option stateAfter (getLine ed (p - 1))) = Some st"
  proof (cases "p = 0")
    case False
    then have "getLine ed (p - 1) = Some (lines ed ! nat (p - 1))" using p assms(2,3) by (simp add: getLine_lines)
    with False that show ?thesis by simp
  qed simp
  obtain s0 where s0: "s0 = (case st of None \<Rightarrow> m_startState (mode ed) | Some s \<Rightarrow> copyState (mode ed) s)" by blast
  have "\<forall>k \<in> set [nat p ..< min n (chunkSize (doc ed))]. k < length (lines ed)" using assms(3) by simp
  from process_lines_total [OF assms(1,2) this]
  obtain s1 ed1 where "process_lines [nat p ..< min n (chunkSize (doc ed))] (p = int n - 1 \<or> p mod 5 = 0) s0 ed = Some (s1, ed1)"
    "recached ed ed1" by blast
  then show ?thesis using p(1) st unfolding getStateBefore_def s0 by (simp del: if_cancel)
qed

lemma highlight_line_total:
  assumes "mode ed = m" "doc_ok (doc ed)" "k < length (lines ed)"
  shows "\<exists>s1 ed1 st. highlight_line k s ed = Some (s1, ed1) \<and> recached ed ed1 \<and> take k (lines ed1) = take k (lines ed) \<and>
     lstyles (lines ed1 ! k) = Some st \<and> concat (map fst st) = ltext (lines ed ! k)"
proof -
  obtain g s1 st where h: "highlight m (tab_size (options ed)) (ltext (lines ed ! k)) (mode_env ed) s = Some (g, s1, st)"
      "concat (map fst st) = ltext (lines ed ! k)"
    using highlight_total [of "tab_size (options ed)" "ltext (lines ed ! k)" "mode_env ed" s] by auto
  have c: "core (l\<lparr>lstyles := Some st, stateAfter := Some (copyState (mode ed) s1)\<rparr>) = core l" for l
    by (simp add: core_def)
  show ?thesis
    using h assms recached_map_line [OF assms(2,3) c, of g]
    by (auto simp: highlight_line_def getLine_lines map_line_collapse)
qed

lemma process_line_take:
  assumes "doc_ok (doc ed)" "k < length (lines ed)" "process_line k keep s ed = Some (s1, ed1)"
  shows "take k (lines ed1) = take k (lines ed)"
  using assms by (auto simp: process_line_def getLine_lines set_state_after_def map_line_collapse split: bind_splits)

end

text \<open>What the worker changes, from line \<open>k\<close> on.\<close>

definition worked :: "nat \<Rightarrow> ('g, 's) editor \<Rightarrow> ('g, 's) editor \<Rightarrow> bool" where
  "worked k ed ed' \<longleftrightarrow> (\<exists>d g f w. ed' = ed\<lparr>doc := d, mode_env := g, frontier := f, worker := w\<rparr>) \<and> doc_ok (doc ed') \<and>
     map core (lines ed') = map core (lines ed) \<and> take k (lines ed') = take k (lines ed)"

lemma worked_refl: "doc_ok (doc ed) \<Longrightarrow> worked k ed ed"
  unfolding worked_def
  by (intro conjI exI [of _ "doc ed"] exI [of _ "mode_env ed"] exI [of _ "frontier ed"] exI [of _ "worker ed"]) auto

lemma worked_take: "worked k ed ed' \<Longrightarrow> take k (lines ed') = take k (lines ed)"
  unfolding worked_def by (elim conjE)

lemma worked_trans: "worked j a b \<Longrightarrow> worked k b c \<Longrightarrow> j \<le> k \<Longrightarrow> worked j a c"
proof -
  assume w: "worked j a b" "worked k b c" "j \<le> k"
  have k: "take k (lines c) = take k (lines b)" by (rule worked_take [OF w(2)])
  from arg_cong [OF k, of "take j"] w(3) have "take j (lines c) = take j (lines b)"
    by (simp add: min.absorb1)
  obtain d g f v where b: "b = a\<lparr>doc := d, mode_env := g, frontier := f, worker := v\<rparr>"
    using w(1) by (auto simp: worked_def)
  obtain d2 g2 f2 v2 where c: "c = b\<lparr>doc := d2, mode_env := g2, frontier := f2, worker := v2\<rparr>"
    using w(2) by (auto simp: worked_def)
  have "\<exists>d g f v. c = a\<lparr>doc := d, mode_env := g, frontier := f, worker := v\<rparr>"
    unfolding c b by (intro exI [of _ d2] exI [of _ g2] exI [of _ f2] exI [of _ v2]) simp
  with \<open>take j (lines c) = take j (lines b)\<close> w(1,2) show ?thesis unfolding worked_def by (elim conjE) simp
qed

lemma startWorker_sel [simp]:
  "doc (startWorker t ed) = doc ed" "frontier (startWorker t ed) = frontier ed" "texts (startWorker t ed) = texts ed"
  "showingFrom (startWorker t ed) = showingFrom ed" "showingTo (startWorker t ed) = showingTo ed"
  by (simp_all add: startWorker_def texts_def)

lemma worked_recached:
  assumes "recached ed ed1" "take k (lines ed1) = take k (lines ed)"
  shows "worked k ed (ed1\<lparr>frontier := f\<rparr>)" "worked k ed (startWorker t (ed1\<lparr>frontier := f\<rparr>))"
proof -
  obtain d g where e: "ed1 = ed\<lparr>doc := d, mode_env := g\<rparr>" using assms(1) by (auto simp: recached_def)
  show "worked k ed (ed1\<lparr>frontier := f\<rparr>)"
    using assms unfolding worked_def recached_def e
    by (intro conjI exI [of _ d] exI [of _ g] exI [of _ f] exI [of _ "worker ed"]) simp_all
  show "worked k ed (startWorker t (ed1\<lparr>frontier := f\<rparr>))"
    using assms unfolding worked_def recached_def e
    by (intro conjI exI [of _ d] exI [of _ g] exI [of _ f]
        exI [of _ "if f < showingTo ed then Some t else worker ed"]) (simp_all add: startWorker_def)
qed

lemma workedD:
  assumes "worked k ed ed'"
  shows "doc_ok (doc ed')" "length (lines ed') = length (lines ed)" "texts ed' = texts ed" "options ed' = options ed"
    "mode ed' = mode ed" "showingFrom ed' = showingFrom ed" "showingTo ed' = showingTo ed" "changes ed' = changes ed"
    "sel_from ed' = sel_from ed" "sel_to ed' = sel_to ed" "history ed' = history ed"
proof -
  obtain d g f w where e: "ed' = ed\<lparr>doc := d, mode_env := g, frontier := f, worker := w\<rparr>"
    using assms by (auto simp: worked_def)
  have m: "map core (lines ed') = map core (lines ed)" using assms by (simp add: worked_def)
  from arg_cong [OF this, of "map (fst \<circ> snd)"] show "texts ed' = texts ed"
    by (simp add: texts_def core_def comp_def)
  from arg_cong [OF m, of length] show "length (lines ed') = length (lines ed)" by simp
  show "doc_ok (doc ed')" using assms by (simp add: worked_def)
qed (use assms in \<open>auto simp: worked_def\<close>)

definition painted :: "nat \<Rightarrow> nat \<Rightarrow> ('g, 's) editor \<Rightarrow> bool" where
  "painted k f ed \<longleftrightarrow> (\<forall>i. k \<le> i \<and> i < f \<and> showingFrom ed \<le> i \<longrightarrow>
     (\<exists>st. lstyles (lines ed ! i) = Some st \<and> concat (map fst st) = texts ed ! i))"

context cm_mode
begin

lemma worked_nth: "worked k ed ed' \<Longrightarrow> i < k \<Longrightarrow> lines ed' ! i = lines ed ! i"
  using worked_take [of k ed ed'] by (metis nth_take)

lemma painted_Suc:
  assumes "painted (Suc k) n ed"
    and "showingFrom ed \<le> k \<Longrightarrow> \<exists>st. lstyles (lines ed ! k) = Some st \<and> concat (map fst st) = texts ed ! k"
  shows "painted k n ed"
  unfolding painted_def
proof (intro allI impI)
  fix i assume i: "k \<le> i \<and> i < n \<and> showingFrom ed \<le> i"
  then show "\<exists>st. lstyles (lines ed ! i) = Some st \<and> concat (map fst st) = texts ed ! i"
    using assms by (cases "i = k") (auto simp: painted_def)
qed

lemma work_lines_total:
  assumes "mode ed = m" "doc_ok (doc ed)" "frontier ed = k" "k \<le> K" "K \<le> length (lines ed)"
  shows "\<exists>ed'. work_lines [k ..< K] late delay s ed = Some ed' \<and> worked k ed ed' \<and> (k < K \<longrightarrow> k < frontier ed') \<and>
     frontier ed' \<le> K \<and> k \<le> frontier ed' \<and> painted k (frontier ed') ed' \<and>
     (frontier ed' < K \<longrightarrow> late (frontier ed' - 1) \<and> (K \<le> showingTo ed \<longrightarrow> worker ed' = Some delay))"
  using assms
proof (induction "K - k" arbitrary: k s ed)
  case 0
  then show ?case
    by (auto simp: painted_def worked_refl)
next
  case (Suc n)
  then have k: "k < K" "k < length (lines ed)" by auto
  obtain s1 ed1 where e: "(if showingFrom ed \<le> k then highlight_line k s ed else process_line k (k mod 5 = 0) s ed) = Some (s1, ed1)"
    "recached ed ed1" "take k (lines ed1) = take k (lines ed)"
    "showingFrom ed \<le> k \<longrightarrow> (\<exists>st. lstyles (lines ed1 ! k) = Some st \<and> concat (map fst st) = ltext (lines ed ! k))"
  proof (cases "showingFrom ed \<le> k")
    case True
    with highlight_line_total [OF Suc.prems(1,2) k(2), of s] that show ?thesis by fastforce
  next
    case False
    with process_line_total [OF Suc.prems(1,2) k(2), of "k mod 5 = 0" s] process_line_take [OF Suc.prems(2) k(2)] that
    show ?thesis by fastforce
  qed
  let ?ed2 = "ed1\<lparr>frontier := Suc k\<rparr>"
  note r = recachedD [OF e(2)] and w = worked_recached [OF e(2,3), where f = "Suc k"]
  have t: "texts ?ed2 = texts ed" "texts ed ! k = ltext (lines ed ! k)" using r(3) k(2) by (simp_all add: texts_def)
  have upt: "[k ..< K] = k # [Suc k ..< K]" using k(1) by (rule upt_conv_Cons)
  show ?case
  proof (cases "late k")
    case True
    have "painted k (Suc k) (startWorker delay ?ed2)"
      using e(4) t r(8) by (auto simp: painted_def less_Suc_eq_le dest: le_antisym)
    moreover have "Suc k < K \<longrightarrow> K \<le> showingTo ed \<longrightarrow> worker (startWorker delay ?ed2) = Some delay"
      using r(9) by (simp add: startWorker_def)
    ultimately show ?thesis using True e(1) w(2) [of delay] k(1) by (simp add: upt)
  next
    case False
    have "\<exists>ed'. work_lines [Suc k ..< K] late delay s1 ?ed2 = Some ed' \<and> worked (Suc k) ?ed2 ed' \<and> (Suc k < K \<longrightarrow> Suc k < frontier ed') \<and>
       frontier ed' \<le> K \<and> Suc k \<le> frontier ed' \<and> painted (Suc k) (frontier ed') ed' \<and>
       (frontier ed' < K \<longrightarrow> late (frontier ed' - 1) \<and> (K \<le> showingTo ?ed2 \<longrightarrow> worker ed' = Some delay))"
      using Suc.hyps(2) Suc.prems k r by (intro Suc.hyps(1)) auto
    then obtain ed' where d: "work_lines [Suc k ..< K] late delay s1 ?ed2 = Some ed'" "worked (Suc k) ?ed2 ed'"
       "frontier ed' \<le> K" "Suc k \<le> frontier ed'" "painted (Suc k) (frontier ed') ed'"
       "frontier ed' < K \<longrightarrow> late (frontier ed' - 1) \<and> (K \<le> showingTo ?ed2 \<longrightarrow> worker ed' = Some delay)" by blast
    note wd = workedD [OF d(2)]
    have lk: "lines ed' ! k = lines ed1 ! k" using worked_nth [OF d(2), of k] by simp
    have tx: "texts ed' = texts ed" "showingFrom ed' = showingFrom ed" using wd(3,6) t(1) r(8) by simp_all
    have "painted k (frontier ed') ed'"
      by (rule painted_Suc [OF d(5)]) (use e(4) t(2) tx lk in simp)
    then show ?thesis using False e(1) d k(1) worked_trans [OF w(1) d(2)] r(9) by (auto simp: upt)
  qed
qed

lemma highlightWorker_progress:
  assumes "mode ed = m" "doc_ok (doc ed)" "frontier ed < showingTo ed" "showingTo ed \<le> length (lines ed)"
  shows "\<exists>ed'. highlightWorker late delay ed = Some ed' \<and> texts ed' = texts ed \<and> doc_ok (doc ed') \<and>
     history ed' = history ed \<and> sel_from ed' = sel_from ed \<and> sel_to ed' = sel_to ed \<and>
     frontier ed < frontier ed' \<and> frontier ed' \<le> showingTo ed' \<and> painted (frontier ed) (frontier ed') ed' \<and>
     (frontier ed' < showingTo ed' \<longrightarrow> late (frontier ed' - 1) \<and> worker ed' = Some delay)"
proof -
  obtain s ed1 where g: "getStateBefore (frontier ed) ed = Some (s, ed1)" "recached ed ed1"
    using getStateBefore_total [OF assms(1,2), of "frontier ed"] assms(3,4) by auto
  note r = recachedD [OF g(2)]
  have same: "history ed1 = history ed" "sel_from ed1 = sel_from ed" "sel_to ed1 = sel_to ed"
    using g(2) by (auto simp: recached_def)
  have "int (chunkSize (doc ed)) = int (length (lines ed))" using doc_size_lines [OF assms(2)] by (simp add: doc_size_def)
  then have K: "min (showingTo ed) (chunkSize (doc ed)) = showingTo ed" using assms(4) by simp
  obtain ed2 where w: "work_lines [frontier ed ..< showingTo ed] late delay (copyState (mode ed) s) ed1 = Some ed2"
    "worked (frontier ed) ed1 ed2" "frontier ed < frontier ed2" "frontier ed2 \<le> showingTo ed"
    "painted (frontier ed) (frontier ed2) ed2"
    "frontier ed2 < showingTo ed \<longrightarrow> late (frontier ed2 - 1) \<and> worker ed2 = Some delay"
    using work_lines_total [of ed1 "frontier ed" "showingTo ed" late delay "copyState (mode ed) s"] assms r by auto
  note d = workedD [OF w(2)]
  obtain ed3 where e3: "ed3 = (if frontier ed < showingTo ed2 \<and> showingFrom ed2 \<le> frontier ed2
      then push_change (int (frontier ed)) (int (frontier ed2)) 0 ed2 else ed2)" by blast
  have "highlightWorker late delay ed = Some ed3"
    using g(1) w(1) assms(3) unfolding e3 by (simp add: highlightWorker_def worker_pass_def K)
  moreover have f: "doc ed3 = doc ed2" "frontier ed3 = frontier ed2" "showingTo ed3 = showingTo ed2" "history ed3 = history ed2"
    "showingFrom ed3 = showingFrom ed2" "sel_from ed3 = sel_from ed2" "sel_to ed3 = sel_to ed2" "worker ed3 = worker ed2"
    by (simp_all add: e3 push_change_def)
  moreover have "texts ed3 = texts ed2" "painted (frontier ed) (frontier ed2) ed3"
    using w(5) f unfolding painted_def texts_def by simp_all
  ultimately show ?thesis using w(3,4,6) d r same by simp
qed

end

text \<open>
  C16: Each run of the background highlighter in the SPARQL mode returns, changes neither the text nor the selection nor the history,
  moves the frontier forward by at least one line, leaves every visible line behind the frontier with
  style fragments that spell out its text, and when its time was up asks for another run: repeated runs
  reach the end of the visible lines.
\<close>

theorem highlighter_progress:
  assumes "ed_ok ed" and "mode ed = sparql_mode u" and "frontier ed < showingTo ed" and "int (showingTo ed) \<le> doc_size ed"
  shows "\<exists>ed'. highlightWorker late delay ed = Some ed' \<and> texts ed' = texts ed \<and> history ed' = history ed \<and>
     sel_from ed' = sel_from ed \<and> sel_to ed' = sel_to ed \<and>
     frontier ed < frontier ed' \<and> frontier ed' \<le> showingTo ed' \<and> painted (frontier ed) (frontier ed') ed' \<and>
     (frontier ed' < showingTo ed' \<longrightarrow> late (frontier ed' - 1) \<and> worker ed' = Some delay)"
  using sparql.highlightWorker_progress [OF assms(2) ed_okD(2) [OF assms(1)] assms(3), of late delay] assms(4)
    doc_size_lines [OF ed_okD(2) [OF assms(1)]] by auto

theorem highlighter_progress_witness:
  "\<exists>(ed :: (sparql_env, sparql_state) editor) ed'. highlightWorker (\<lambda>_. True) 100 ed = Some ed' \<and>
     frontier ed < frontier ed' \<and> texts ed' = [''select'', ''?x'']"
proof -
  let ?ed = "(demo_editor [CHR ''s'', CHR ''e'', CHR ''l'', CHR ''e'', CHR ''c'', CHR ''t'', CHR 0x0A, CHR ''?'', CHR ''x''])
    \<lparr>mode := sparql_mode 2, frontier := 0, showingTo := 1\<rparr>"
  have "ed_ok ?ed"
    using undo_okD(1) [OF reachable_undo_ok [OF demo_reachable]]
    by (simp add: ed_ok_def struct_ok_def known_def texts_def all_visible_def)
  moreover have t: "texts ?ed = [''select'', ''?x'']"
    using demo_texts [of "[CHR ''s'', CHR ''e'', CHR ''l'', CHR ''e'', CHR ''c'', CHR ''t'', CHR 0x0A, CHR ''?'', CHR ''x'']"]
    by (simp add: texts_def)
  moreover have "doc_size ?ed = 2"
    using doc_size_lines [OF ed_okD(2) [OF \<open>ed_ok ?ed\<close>]] arg_cong [OF t, of length] by simp
  ultimately show ?thesis
    using highlighter_progress [of ?ed 2 "\<lambda>_. True" 100] by fastforce
qed

end
