(* ===== verification/CM_Motion.thy ===== *)
theory CM_Motion
  imports CM_Highlight
begin

section \<open>Moving by characters and words, deleting and indenting\<close>

text \<open>
  \<open>findPosH\<close>, \<open>moveH\<close>, \<open>deleteH\<close>, \<open>findWordAt\<close>, \<open>selectLine\<close>, \<open>indentLine\<close> and
  \<open>indentSelected\<close> of \<open>codemirror.js\<close>.  \<open>None\<close> is a \<open>TypeError\<close>, or fuel that ran out.
\<close>

datatype h_unit = Char | Column | Word

text \<open>The variables of \<open>findPosH\<close>: the line, the character, and the text of the line object.\<close>

record cursor =
  cline :: int
  cch :: int
  ctext :: jstring

definition findNextLine :: "('g, 's) editor \<Rightarrow> int \<Rightarrow> int \<Rightarrow> (int \<times> 's line) option" where
  "findNextLine ed dir line = (if dir < 0 then prev_visible ed (line - 1) else next_visible ed (line + 1))"

definition moveOnce :: "('g, 's) editor \<Rightarrow> int \<Rightarrow> bool \<Rightarrow> cursor \<Rightarrow> bool \<times> cursor" where
  "moveOnce ed dir boundToLine c =
     (if cch c = (if dir < 0 then 0 else int (length (ctext c))) then
        if boundToLine then (False, c)
        else (case findNextLine ed dir (cline c) of
            None \<Rightarrow> (False, c)
          | Some (no, l) \<Rightarrow>
              (True, \<lparr>cline = no, cch = (if dir < 0 then int (length (ltext l)) else 0), ctext = ltext l\<rparr>))
      else (True, c\<lparr>cch := cch c + dir\<rparr>))"

text \<open>\<open>isWordChar(text.charAt(ch))\<close>; the empty string of an index out of range is no word character.\<close>

definition word_at :: "jstring \<Rightarrow> int \<Rightarrow> bool" where
  "word_at t i = (case charAt t i of None \<Rightarrow> False | Some c \<Rightarrow> isWordChar c)"

text \<open>The loop of the unit \<open>"word"\<close>; stepping back over the character that ended a word is its last move.\<close>

fun word_loop :: "nat \<Rightarrow> ('g, 's) editor \<Rightarrow> int \<Rightarrow> bool \<Rightarrow> cursor \<Rightarrow> cursor option" where
  "word_loop fuel ed dir sawWord c =
     (case fuel of 0 \<Rightarrow> None
      | Suc k \<Rightarrow>
        (let (moved, c1) = (if dir < 0 then moveOnce ed dir False c else (True, c)) in
         if \<not> moved then Some c1
         else if word_at (ctext c1) (cch c1) then
           if dir > 0 then (let (moved2, c2) = moveOnce ed dir False c1 in
                            if moved2 then word_loop k ed dir True c2 else Some c2)
           else word_loop k ed dir True c1
         else if sawWord then Some (if dir < 0 then snd (moveOnce ed 1 False c1) else c1)
         else if dir > 0 then (let (moved2, c2) = moveOnce ed dir False c1 in
                               if moved2 then word_loop k ed dir False c2 else Some c2)
         else word_loop k ed dir False c1))"

declare word_loop.simps [simp del]

definition findPosH :: "int \<Rightarrow> h_unit \<Rightarrow> ('g, 's) editor \<Rightarrow> pos option" where
  "findPosH dir unit ed = do {
     let head = (if sel_inverted ed then sel_from ed else sel_to ed);
     l \<leftarrow> getLine ed (pline head);
     let c = \<lparr>cline = pline head, cch = pch head, ctext = ltext l\<rparr>;
     c1 \<leftarrow> (case unit of
         Char \<Rightarrow> Some (snd (moveOnce ed dir False c))
       | Column \<Rightarrow> Some (snd (moveOnce ed dir True c))
       | Word \<Rightarrow> word_loop (length (getValue ed [CHR 0x0A]) + 2) ed dir False c);
     Some (Pos (cline c1) (cch c1)) }"

definition moveH :: "int \<Rightarrow> h_unit \<Rightarrow> ('g, 's) editor \<Rightarrow> ('g, 's) editor option" where
  "moveH dir unit ed = do {
     p \<leftarrow> (if shiftSelecting ed \<noteq> None \<or> posEq (sel_from ed) (sel_to ed) then findPosH dir unit ed
           else Some (if dir < 0 then sel_from ed else sel_to ed));
     setCursor (pline p) (Some (pch p)) True ed }"

definition deleteH :: "int \<Rightarrow> h_unit \<Rightarrow> ('g, 's) editor \<Rightarrow> ('g, 's) editor option" where
  "deleteH dir unit ed = do {
     (ed1, e) \<leftarrow>
       (if \<not> posEq (sel_from ed) (sel_to ed) then replaceRange [] (sel_from ed) (Some (sel_to ed)) ed
        else do {
          p \<leftarrow> findPosH dir unit ed;
          if dir < 0 then replaceRange [] p (Some (sel_to ed)) ed
          else replaceRange [] (sel_from ed) (Some p) ed });
     Some (ed1\<lparr>userSelChange := True\<rparr>) }"

subsection \<open>The word at a position, and the line\<close>

text \<open>The two loops of \<open>findWordAt\<close>.\<close>

fun word_start :: "(char \<Rightarrow> bool) \<Rightarrow> jstring \<Rightarrow> nat \<Rightarrow> nat" where
  "word_start check line 0 = 0"
| "word_start check line (Suc k) =
     (if (case charAt line (int k) of None \<Rightarrow> False | Some c \<Rightarrow> check c) then word_start check line k else Suc k)"

definition word_end :: "(char \<Rightarrow> bool) \<Rightarrow> jstring \<Rightarrow> nat \<Rightarrow> nat" where
  "word_end check line e = (if e < length line then e + length (takeWhile check (drop e line)) else e)"

definition char_class :: "char \<Rightarrow> char \<Rightarrow> bool" where
  "char_class c = (if isWordChar c then isWordChar else if re_space c then re_space
                   else (\<lambda>d. \<not> re_space d \<and> \<not> isWordChar d))"

text \<open>\<open>after\<close> is the property that \<open>coordsChar\<close> puts on the position.\<close>

definition findWordAt :: "pos \<Rightarrow> bool option \<Rightarrow> ('g, 's) editor \<Rightarrow> (pos \<times> pos) option" where
  "findWordAt p after ed = do {
     line \<leftarrow> line_text ed (pline p);
     if line = [] then Some (p, p)
     else do {
       let (s, e) = (if after = Some False \<or> pch p = int (length line) then (pch p - 1, pch p) else (pch p, pch p + 1));
       let check = (case charAt line s of Some c \<Rightarrow> char_class c | None \<Rightarrow> (\<lambda>d. \<not> re_space d \<and> \<not> isWordChar d));
       let s1 = (if s > 0 then int (word_start check line (nat s)) else s);
       Some (Pos (pline p) s1, Pos (pline p) (int (word_end check line (nat e)))) } }"

definition selectLine :: "int \<Rightarrow> ('g, 's) editor \<Rightarrow> ('g, 's) editor option" where
  "selectLine line ed = do {
     p \<leftarrow> clipPos ed (line + 1) (Some 0);
     setSelectionUser (Pos line 0) p ed }"

subsection \<open>Indentation\<close>

datatype indent_how = Smart | Prev | Add | Subtract

definition indent_string :: "options \<Rightarrow> nat \<Rightarrow> jstring" where
  "indent_string opts indentation1 =
     (let tabs = (if indentWithTabs opts then indentation1 div tab_size opts else 0);
          p = tabs * tab_size opts
      in replicate tabs (CHR 0x09) @ (if p < indentation1 then replicate (indentation1 - p) (CHR '' '') else []))"

text \<open>The new indentation before it is cut off at 0; \<open>Pass\<close> from the mode falls back to the line above.\<close>

definition prev_indent :: "nat \<Rightarrow> ('g, 's) editor \<Rightarrow> int option" where
  "prev_indent n ed =
     (if n = 0 then Some 0
      else map_option (\<lambda>l. int (countColumn (ltext l) None (tab_size (options ed)))) (getLine ed (int n - 1)))"

definition indent_target :: "nat \<Rightarrow> indent_how \<Rightarrow> 's line \<Rightarrow> ('g, 's) editor \<Rightarrow> (int \<times> ('g, 's) editor) option" where
  "indent_target n how line ed =
     (let curSpace = int (countColumn (ltext line) None (tab_size (options ed)));
          curSpaceString = takeWhile re_space (ltext line)
      in case how of
           Add \<Rightarrow> Some (curSpace + indentUnit (options ed), ed)
         | Subtract \<Rightarrow> Some (curSpace - indentUnit (options ed), ed)
         | Prev \<Rightarrow> map_option (\<lambda>i. (i, ed)) (prev_indent n ed)
         | Smart \<Rightarrow>
             (case m_indent (mode ed) of
                None \<Rightarrow> map_option (\<lambda>i. (i, ed)) (prev_indent n ed)
              | Some f \<Rightarrow> do {
                  (s, ed1) \<leftarrow> getStateBefore n ed;
                  case f (mode_env ed1) s (drop (length curSpaceString) (ltext line)) (ltext line) of
                    Some i \<Rightarrow> Some (i, ed1)
                  | None \<Rightarrow> map_option (\<lambda>i. (i, ed1)) (prev_indent n ed1) }))"

definition indentLine :: "nat \<Rightarrow> indent_how \<Rightarrow> ('g, 's) editor \<Rightarrow> ('g, 's) editor option" where
  "indentLine n how ed = do {
     line \<leftarrow> getLine ed (int n);
     (i, ed1) \<leftarrow> indent_target n how line ed;
     let s = indent_string (options ed) (nat (max 0 i));
     let cur = takeWhile re_space (ltext line);
     if s \<noteq> cur then map_option fst (replaceRange s (Pos (int n) 0) (Some (Pos (int n) (int (length cur)))) ed1)
     else Some ed1 }"

fun indent_lines :: "nat list \<Rightarrow> indent_how \<Rightarrow> ('g, 's) editor \<Rightarrow> ('g, 's) editor option" where
  "indent_lines [] how ed = Some ed"
| "indent_lines (n # ns) how ed = do { ed1 \<leftarrow> indentLine n how ed; indent_lines ns how ed1 }"

definition indentSelected :: "indent_how \<Rightarrow> ('g, 's) editor \<Rightarrow> ('g, 's) editor option" where
  "indentSelected how ed =
     (if posEq (sel_from ed) (sel_to ed) then indentLine (nat (pline (sel_from ed))) how ed
      else let e = pline (sel_to ed) - (if pch (sel_to ed) \<noteq> 0 then 0 else 1)
           in indent_lines [nat (pline (sel_from ed)) ..< nat (e + 1)] how ed)"

text \<open>\<open>indentLine\<close> of the instance; the inner \<open>None\<close> is an absent direction.\<close>

definition api_indentLine :: "int \<Rightarrow> indent_how option \<Rightarrow> ('g, 's) editor \<Rightarrow> ('g, 's) editor option" where
  "api_indentLine n dir ed =
     (let how = (case dir of Some h \<Rightarrow> h | None \<Rightarrow> if smartIndent (options ed) then Smart else Prev)
      in if isLine ed n then indentLine (nat n) how ed else Some ed)"

end
