(* ===== verification/CM_Motion_Laws.thy ===== *)
theory CM_Motion_Laws
  imports CM_Motion
begin

section \<open>Motion on the flat text\<close>

text \<open>
  A cursor of \<open>findPosH\<close> is an offset into the flat text, in which a line feed stands between two lines.
  One move adds or subtracts one, and the loop over words skips the characters that are no word
  characters and then those that are.
\<close>

definition at_offset :: "jstring list \<Rightarrow> cursor \<Rightarrow> nat \<Rightarrow> bool" where
  "at_offset d c i \<longleftrightarrow> pos_ok d (Pos (cline c) (cch c)) \<and> ctext c = d ! nat (cline c) \<and>
     offset d (Pos (cline c) (cch c)) = i"

lemma next_visible_all:
  "all_visible ed \<Longrightarrow> doc_ok (doc ed) \<Longrightarrow> 0 \<le> n \<Longrightarrow>
   next_visible ed n = (if n < doc_size ed then Some (n, lines ed ! nat n) else None)"
  by (subst next_visible.simps) (auto simp: getLine_lines doc_size_lines all_visible_def split: option.split)

lemma prev_visible_all:
  "all_visible ed \<Longrightarrow> doc_ok (doc ed) \<Longrightarrow> n < doc_size ed \<Longrightarrow>
   prev_visible ed n = (if 0 \<le> n then Some (n, lines ed ! nat n) else None)"
  by (subst prev_visible.simps) (auto simp: getLine_lines doc_size_lines all_visible_def split: option.split)

lemma after_line_simps:
  "Suc a < length d \<Longrightarrow> after_line d a = nl # d ! Suc a @ after_line d (Suc a)"
  "length d \<le> Suc a \<Longrightarrow> after_line d a = []"
  by (simp_all add: after_line_def Cons_nth_drop_Suc [symmetric])

lemma before_line_Suc: "a < length d \<Longrightarrow> before_line d (Suc a) = before_line d a @ d ! a @ [nl]"
  by (simp add: before_line_def take_Suc_conv_app_nth)

lemma nl_no_word: "\<not> isWordChar nl"
  by code_simp

lemma at_offset_le: "at_offset d c i \<Longrightarrow> i \<le> length (flat d)"
  by (auto simp: at_offset_def intro: offset_le)

lemma word_at_flat:
  assumes "at_offset d c i"
  shows "word_at (ctext c) (cch c) \<longleftrightarrow> i < length (flat d) \<and> isWordChar (flat d ! i)"
proof -
  let ?a = "nat (cline c)" and ?b = "nat (cch c)"
  have ok: "pos_ok d (Pos (cline c) (cch c))" "ctext c = d ! ?a" "offset d (Pos (cline c) (cch c)) = i"
    using assms by (auto simp: at_offset_def)
  have b: "0 \<le> cch c" "?b \<le> length (d ! ?a)" "?a < length d" using ok(1) by (auto simp: pos_ok_def)
  have dr: "drop i (flat d) = drop ?b (d ! ?a) @ after_line d ?a" using drop_offset [OF ok(1)] ok(3) by simp
  show ?thesis
  proof (cases "?b < length (d ! ?a)")
    case True
    then have "drop i (flat d) \<noteq> []" "flat d ! i = d ! ?a ! ?b"
      using dr b by (auto, metis (no_types, lifting) append_is_Nil_conv Cons_nth_drop_Suc append_Cons drop_eq_Nil hd_drop_conv_nth list.sel(1) not_le)
    moreover have "cch c < int (length (d ! ?a))" using True b(1) by linarith
    ultimately show ?thesis using b ok(2) by (simp add: word_at_def charAt_def)
  next
    case False
    then have w: "\<not> word_at (ctext c) (cch c)" using b ok(2) by (auto simp: word_at_def charAt_def)
    have e: "drop i (flat d) = after_line d ?a" using dr False by simp
    have "\<not> isWordChar (flat d ! i)" if "i < length (flat d)"
    proof -
      have "Suc ?a < length d" using that e after_line_simps(2) [of d ?a] by (metis drop_eq_Nil not_le)
      then have "flat d ! i = nl" using e that after_line_simps(1) [of ?a d] by (metis hd_drop_conv_nth list.sel(1))
      then show ?thesis by (simp add: nl_no_word)
    qed
    with w show ?thesis by blast
  qed
qed

lemma move_right:
  assumes v: "all_visible ed" "doc_ok (doc ed)" and c: "at_offset (texts ed) c i"
  shows "\<exists>c'. moveOnce ed 1 False c = (i < length (flat (texts ed)), c') \<and>
     at_offset (texts ed) c' (if i < length (flat (texts ed)) then Suc i else i)"
proof -
  let ?d = "texts ed" and ?a = "nat (cline c)"
  have ok: "pos_ok ?d (Pos (cline c) (cch c))" "ctext c = ?d ! ?a" "offset ?d (Pos (cline c) (cch c)) = i"
    using c by (auto simp: at_offset_def)
  have b: "0 \<le> cline c" "?a < length ?d" "0 \<le> cch c" "nat (cch c) \<le> length (?d ! ?a)" using ok(1) by (auto simp: pos_ok_def)
  have F: "length (flat ?d) = length (before_line ?d ?a) + length (?d ! ?a) + length (after_line ?d ?a)"
    using flat_line [OF b(2)] by simp
  have i: "i = length (before_line ?d ?a) + nat (cch c)" using ok(3) by (simp add: offset_def)
  show ?thesis
  proof (cases "cch c = int (length (ctext c))")
    case False
    then have "cch c < int (length (?d ! ?a))" using b ok(2) by auto
    moreover have "nat (cch c) < length (?d ! ?a)" "nat (cch c + 1) = Suc (nat (cch c))" using calculation b(3) by linarith+
    ultimately show ?thesis using False b ok F i
      by (auto simp: moveOnce_def at_offset_def pos_ok_def offset_def)
  next
    case True
    have n: "nat (cline c + 1) = Suc ?a" using b(1) by simp
    have nx: "findNextLine ed 1 (cline c) = (if Suc ?a < length ?d then Some (cline c + 1, lines ed ! Suc ?a) else None)"
      using b(1) by (auto simp: findNextLine_def next_visible_all [OF v] doc_size_lines [OF v(2)] n)
    show ?thesis
    proof (cases "Suc ?a < length ?d")
      case True
      have "i < length (flat ?d)" using F i \<open>cch c = _\<close> ok(2) after_line_simps(1) [OF True] by simp
      moreover have "ltext (lines ed ! Suc ?a) = ?d ! Suc ?a" using True by (simp add: texts_def)
      ultimately show ?thesis using True nx \<open>cch c = _\<close> b i ok(2) n before_line_Suc [OF b(2)]
        by (auto simp: moveOnce_def at_offset_def pos_ok_def offset_def)
    next
      case False
      then have "\<not> i < length (flat ?d)" using F i \<open>cch c = _\<close> ok(2) after_line_simps(2) [of ?d ?a] by simp
      then show ?thesis using False nx \<open>cch c = _\<close> c by (auto simp: moveOnce_def)
    qed
  qed
qed

lemma move_left:
  assumes v: "all_visible ed" "doc_ok (doc ed)" and c: "at_offset (texts ed) c i"
  shows "\<exists>c'. moveOnce ed (- 1) False c = (0 < i, c') \<and> at_offset (texts ed) c' (i - 1)"
proof -
  let ?d = "texts ed" and ?a = "nat (cline c)"
  have ok: "pos_ok ?d (Pos (cline c) (cch c))" "ctext c = ?d ! ?a" "offset ?d (Pos (cline c) (cch c)) = i"
    using c by (auto simp: at_offset_def)
  have b: "0 \<le> cline c" "?a < length ?d" "0 \<le> cch c" "nat (cch c) \<le> length (?d ! ?a)" using ok(1) by (auto simp: pos_ok_def)
  have i: "i = length (before_line ?d ?a) + nat (cch c)" using ok(3) by (simp add: offset_def)
  show ?thesis
  proof (cases "cch c = 0")
    case False
    then have "0 < cch c" using b by simp
    then have "offset ?d (Pos (cline c) (cch c - 1)) = i - 1" using i by (simp add: offset_def nat_diff_distrib)
    then show ?thesis using \<open>0 < cch c\<close> b ok i
      by (auto simp: moveOnce_def at_offset_def pos_ok_def)
  next
    case True
    have nx: "findNextLine ed (- 1) (cline c) = (if 0 < ?a then Some (cline c - 1, lines ed ! (?a - 1)) else None)"
      using b by (auto simp: findNextLine_def prev_visible_all [OF v] doc_size_lines [OF v(2)] nat_diff_distrib)
    show ?thesis
    proof (cases ?a)
      case 0
      then show ?thesis using True nx c i by (auto simp: moveOnce_def before_line_def)
    next
      case (Suc a)
      have "a < length ?d" "nat (cline c - 1) = a" "0 \<le> cline c - 1" using Suc b by auto
      moreover have "ltext (lines ed ! a) = ?d ! a" using \<open>a < length ?d\<close> by (simp add: texts_def)
      ultimately show ?thesis using True nx Suc i before_line_Suc [OF \<open>a < length ?d\<close>]
        by (auto simp: moveOnce_def at_offset_def pos_ok_def offset_def)
    qed
  qed
qed


subsection \<open>The loop over words\<close>

fun skip_word :: "bool \<Rightarrow> jstring \<Rightarrow> nat" where
  "skip_word saw [] = 0"
| "skip_word saw (x # xs) =
     (if isWordChar x then Suc (skip_word True xs) else if saw then 0 else Suc (skip_word False xs))"

lemma skip_word_True: "skip_word True xs = length (takeWhile isWordChar xs)"
  by (induction xs) auto

lemma skip_word_False:
  "skip_word False xs = length (takeWhile (\<lambda>c. \<not> isWordChar c) xs) +
     length (takeWhile isWordChar (dropWhile (\<lambda>c. \<not> isWordChar c) xs))"
  by (induction xs) (auto simp: skip_word_True)

lemma word_loop_right:
  assumes v: "all_visible ed" "doc_ok (doc ed)"
  shows "at_offset (texts ed) c i \<Longrightarrow> length (flat (texts ed)) - i < fuel \<Longrightarrow>
    \<exists>c'. word_loop fuel ed 1 saw c = Some c' \<and> at_offset (texts ed) c' (i + skip_word saw (drop i (flat (texts ed))))"
proof (induction fuel arbitrary: c i saw)
  case (Suc k)
  let ?F = "flat (texts ed)"
  note w = word_at_flat [OF Suc.prems(1)]
  obtain c1 where m: "moveOnce ed 1 False c = (i < length ?F, c1)" "at_offset (texts ed) c1 (if i < length ?F then Suc i else i)"
    using move_right [OF v Suc.prems(1)] by blast
  show ?case
  proof (cases "i < length ?F")
    case False
    then show ?thesis using w m Suc.prems(1) by (subst word_loop.simps) (auto simp: m(1))
  next
    case True
    then have d: "drop i ?F = ?F ! i # drop (Suc i) ?F" by (simp add: Cons_nth_drop_Suc)
    have IH: "\<exists>c'. word_loop k ed 1 s c1 = Some c' \<and> at_offset (texts ed) c' (Suc i + skip_word s (drop (Suc i) ?F))" for s
      using Suc.IH [of c1 "Suc i" s] m(2) True Suc.prems(2) by auto
    show ?thesis
    proof (cases "isWordChar (?F ! i)")
      case W: True
      then show ?thesis using w True m(1) IH [of True] d by (subst word_loop.simps) simp
    next
      case W: False
      then show ?thesis using w True m(1) IH [of False] d Suc.prems(1) by (subst word_loop.simps) auto
    qed
  qed
qed simp

lemma word_loop_left:
  assumes v: "all_visible ed" "doc_ok (doc ed)"
  shows "at_offset (texts ed) c i \<Longrightarrow> i < fuel \<Longrightarrow>
    \<exists>c'. word_loop fuel ed (- 1) saw c = Some c' \<and> at_offset (texts ed) c' (i - skip_word saw (rev (take i (flat (texts ed)))))"
proof (induction fuel arbitrary: c i saw)
  case (Suc k)
  let ?F = "flat (texts ed)"
  obtain c1 where m: "moveOnce ed (- 1) False c = (0 < i, c1)" "at_offset (texts ed) c1 (i - 1)"
    using move_left [OF v Suc.prems(1)] by blast
  show ?case
  proof (cases "0 < i")
    case False
    then show ?thesis using m by (subst word_loop.simps) (auto simp: m(1))
  next
    case True
    then obtain j where j: "i = Suc j" by (cases i) auto
    have lt: "j < length ?F" using at_offset_le [OF Suc.prems(1)] j by simp
    then have d: "rev (take i ?F) = ?F ! j # rev (take j ?F)" by (simp add: j take_Suc_conv_app_nth)
    have c1: "at_offset (texts ed) c1 j" using m(2) j by simp
    note w = word_at_flat [OF c1]
    have IH: "\<exists>c'. word_loop k ed (- 1) s c1 = Some c' \<and> at_offset (texts ed) c' (j - skip_word s (rev (take j ?F)))" for s
      using Suc.IH [OF c1, of s] Suc.prems(2) j by auto
    obtain c2 where r: "moveOnce ed 1 False c1 = (True, c2)" "at_offset (texts ed) c2 (Suc j)"
      using move_right [OF v c1] lt by auto
    show ?thesis
    proof (cases "isWordChar (?F ! j)")
      case W: True
      then show ?thesis using w lt m(1) IH [of True] d j by (subst word_loop.simps) simp
    next
      case W: False
      then show ?thesis using w lt m(1) IH [of False] d j r by (subst word_loop.simps) auto
    qed
  qed
qed simp

lemma findPosH_offsets:
  fixes ed :: "('g, 's) editor"
  assumes "ed_ok ed" and "head = (if sel_inverted ed then sel_from ed else sel_to ed)"
    and "F = flat (texts ed)" and "i = offset (texts ed) head"
  shows "\<exists>r l R L. findPosH 1 Char ed = Some r \<and> findPosH (- 1) Char ed = Some l \<and>
     findPosH 1 Word ed = Some R \<and> findPosH (- 1) Word ed = Some L \<and>
     pos_ok (texts ed) r \<and> offset (texts ed) r = min (Suc i) (length F) \<and>
     pos_ok (texts ed) l \<and> offset (texts ed) l = i - 1 \<and>
     pos_ok (texts ed) R \<and> offset (texts ed) R = i + length (takeWhile (\<lambda>c. \<not> isWordChar c) (drop i F)) +
       length (takeWhile isWordChar (dropWhile (\<lambda>c. \<not> isWordChar c) (drop i F))) \<and>
     pos_ok (texts ed) L \<and> offset (texts ed) L = i - (length (takeWhile (\<lambda>c. \<not> isWordChar c) (rev (take i F))) +
       length (takeWhile isWordChar (dropWhile (\<lambda>c. \<not> isWordChar c) (rev (take i F)))))"
proof -
  note d = ed_okD [OF assms(1)]
  have h: "pos_ok (texts ed) head" using d(6,7) assms(2) by simp
  let ?c = "\<lparr>cline = pline head, cch = pch head, ctext = texts ed ! nat (pline head)\<rparr>"
  have c: "at_offset (texts ed) ?c i" using h assms(4) by (simp add: at_offset_def)
  have le: "i \<le> length F" using at_offset_le [OF c] assms(3) by simp
  have l: "getLine ed (pline head) = Some (lines ed ! nat (pline head))"
    "ltext (lines ed ! nat (pline head)) = texts ed ! nat (pline head)"
    using h d(2) by (auto simp: pos_ok_def getLine_lines texts_def)
  have F: "getValue ed [nl] = F" using getValue_texts [OF d(2)] assms(3) by (simp add: flat_def)
  note f = findPosH_def [where ed = ed, unfolded assms(2) [symmetric] Let_def]
  obtain c1 where 1: "moveOnce ed 1 False ?c = (i < length F, c1)" "at_offset (texts ed) c1 (if i < length F then Suc i else i)"
    using move_right [OF d(4,2) c] assms(3) by blast
  obtain c2 where 2: "moveOnce ed (- 1) False ?c = (0 < i, c2)" "at_offset (texts ed) c2 (i - 1)"
    using move_left [OF d(4,2) c] by blast
  have fuel: "length F - i < length F + 2" by linarith
  obtain c3 where 3: "word_loop (length F + 2) ed 1 False ?c = Some c3" "at_offset (texts ed) c3 (i + skip_word False (drop i F))"
    using word_loop_right [OF d(4,2) c, of "length F + 2" False] fuel unfolding assms(3) by blast
  obtain c4 where 4: "word_loop (length F + 2) ed (- 1) False ?c = Some c4"
    "at_offset (texts ed) c4 (i - skip_word False (rev (take i F)))"
    using word_loop_left [OF d(4,2) c, of "length F + 2" False] assms(3) le by auto
  have m: "min (Suc i) (length F) = (if i < length F then Suc i else i)" using le by (auto simp: min_def)
  have "findPosH 1 Char ed = Some (Pos (cline c1) (cch c1))" "findPosH (- 1) Char ed = Some (Pos (cline c2) (cch c2))"
    "findPosH 1 Word ed = Some (Pos (cline c3) (cch c3))" "findPosH (- 1) Word ed = Some (Pos (cline c4) (cch c4))"
    unfolding f F using l 1(1) 2(1) 3(1) 4(1) by simp_all
  moreover have "pos_ok (texts ed) (Pos (cline c1) (cch c1)) \<and> offset (texts ed) (Pos (cline c1) (cch c1)) = min (Suc i) (length F)"
    using 1(2) unfolding at_offset_def m by blast
  moreover have "pos_ok (texts ed) (Pos (cline c2) (cch c2)) \<and> offset (texts ed) (Pos (cline c2) (cch c2)) = i - 1"
    using 2(2) unfolding at_offset_def by blast
  moreover note 3(2) [unfolded at_offset_def skip_word_False add.assoc [symmetric]] 4(2) [unfolded at_offset_def skip_word_False]
  ultimately show ?thesis by blast
qed

text \<open>
  C18: Moving the cursor: from a valid head, \<open>findPosH\<close> finds a valid position.  By characters it is the next or the
  previous offset of the text, if there is one; by words it lies behind the next word to the right,
  or at the start of the word to the left, across the ends of lines.
\<close>

theorem horizontal_motion:
  fixes ed :: "('g, 's) editor"
  assumes "ed_ok ed" and "head = (if sel_inverted ed then sel_from ed else sel_to ed)"
    and "F = flat (texts ed)" and "i = offset (texts ed) head"
  shows "\<exists>r l R L. findPosH 1 Char ed = Some r \<and> findPosH (- 1) Char ed = Some l \<and>
     findPosH 1 Word ed = Some R \<and> findPosH (- 1) Word ed = Some L \<and>
     pos_ok (texts ed) r \<and> offset (texts ed) r = min (Suc i) (length F) \<and>
     pos_ok (texts ed) l \<and> offset (texts ed) l = i - 1 \<and>
     pos_ok (texts ed) R \<and> offset (texts ed) R = i + length (takeWhile (\<lambda>c. \<not> isWordChar c) (drop i F)) +
       length (takeWhile isWordChar (dropWhile (\<lambda>c. \<not> isWordChar c) (drop i F))) \<and>
     pos_ok (texts ed) L \<and> offset (texts ed) L = i - (length (takeWhile (\<lambda>c. \<not> isWordChar c) (rev (take i F))) +
       length (takeWhile isWordChar (dropWhile (\<lambda>c. \<not> isWordChar c) (rev (take i F)))))"
  using findPosH_offsets [OF assms] .

theorem horizontal_motion_witness:
  "\<exists>(ed :: (sparql_env, sparql_state) editor) R. findPosH 1 Word ed = Some R \<and> offset (texts ed) R = 2 \<and> texts ed = [''ab cd'']"
proof -
  let ?ed = "(demo_editor ''ab cd'')\<lparr>sel_from := Pos 0 0, sel_to := Pos 0 0\<rparr>"
  have "ed_ok (demo_editor ''ab cd'')" by (rule undo_okD(1) [OF reachable_undo_ok [OF demo_reachable]])
  moreover have t: "texts (demo_editor ''ab cd'') = [''ab cd'']" using demo_texts [of "''ab cd''"] by simp
  ultimately have ok: "ed_ok ?ed" "texts ?ed = [''ab cd'']"
    by (simp_all add: ed_ok_def struct_ok_def known_def texts_def all_visible_def pos_ok_def)
  have o: "offset (texts ?ed) (if sel_inverted ?ed then sel_from ?ed else sel_to ?ed) = 0"
    by (simp add: offset_def before_line_def)
  have "isWordChar (CHR ''a'')" "isWordChar (CHR ''b'')" "\<not> isWordChar (CHR '' '')" by code_simp+
  then show ?thesis
    using horizontal_motion [OF ok(1) refl refl refl] ok(2) o by (intro exI [of _ ?ed]) (auto simp: o)
qed

end
