(* ===== verification/CM_Coords.thy ===== *)
theory CM_Coords
  imports CM_Demo
begin

section \<open>Between pixels and positions\<close>

text \<open>
  \<open>measureLine\<close>, \<open>localCoords\<close>, \<open>coordsChar\<close>, \<open>moveV\<close> and the scrolling functions
  of \<open>codemirror.js\<close>.  What the browser measures is the parameter \<open>ms\<close>: the offset (top, left) of the
  character of a line; that measuring a line also fills the line's cache of styles is left out.
  Coordinates are whole pixels, and the factors 0.9, 1.2 and 0.8 of the guesses in \<open>coordsChar\<close> are
  exact rationals.
\<close>

record view =
  scrollTop :: int
  lastScrollTop :: int
  scrollLeft :: int
  scrollerHeight :: int
  scrollerWidth :: int
  gutterWidth :: int
  fixedGutter :: bool
  spaceWidth :: int
  spaceHeight :: int
  windowHeight :: int
  lineOffTop :: int
  lineOffLeft :: int

type_synonym 's measure = "'s line \<Rightarrow> int \<Rightarrow> int \<times> int"

definition measureLine :: "'s measure \<Rightarrow> 's line \<Rightarrow> int \<Rightarrow> int \<times> int" where
  "measureLine ms l ch = (if ch = 0 then (0, 0) else ms l ch)"

text \<open>\<open>localCoords\<close>: \<open>x\<close>, \<open>y\<close> and \<open>yBot\<close>.\<close>

definition localCoords ::
    "'s measure \<Rightarrow> ('g, 's) editor \<Rightarrow> pos \<Rightarrow> bool \<Rightarrow> (int \<times> int \<times> int) option" where
  "localCoords ms ed p inLineWrap =
     (let lh = textHeight (screen ed);
          y = lh * (heightAtLine (doc ed) (nat (pline p)) - (if inLineWrap then displayOffset ed else 0))
      in if pch p = 0 then Some (0, y, y + lh)
         else do {
           l \<leftarrow> getLine ed (pline p);
           let (top, left) = measureLine ms l (pch p);
           let y1 = (if lineWrapping (options ed) then y + max 0 top else y);
           Some (left, y1, y1 + lh) })"

subsection \<open>The character at a point\<close>

text \<open>
  \<open>getX(len)\<close>, with the flag \<open>wrongLine\<close> that it sets.  \<open>Math.round\<close> rounds a half up.
\<close>

definition js_round :: "int \<Rightarrow> int \<Rightarrow> int" where
  "js_round a b = (2 * a + b) div (2 * b)"

definition getX :: "'s measure \<Rightarrow> ('g, 's) editor \<Rightarrow> 's line \<Rightarrow> int \<Rightarrow> int \<Rightarrow> int \<times> bool" where
  "getX ms ed l innerOff len =
     (let (top, left) = measureLine ms l len in
      if lineWrapping (options ed) then
        let off = js_round top (textHeight (screen ed))
        in (max 0 (left + (off - innerOff) * int (clientWidth (screen ed))), off \<noteq> innerOff)
      else (left, False))"

text \<open>
  The loop that looks for an upper bound of the search: the bound and its \<open>x\<close>.  With a first guess
  below 1 it may go on for ever, so it has fuel.
\<close>

fun upper_bound :: "nat \<Rightarrow> (int \<Rightarrow> int) \<Rightarrow> int \<Rightarrow> int \<Rightarrow> int \<Rightarrow> (int \<times> int) option" where
  "upper_bound fuel gx x to estimated =
     (let estX = gx estimated in
      if estX \<le> x \<and> estimated < to then
        (case fuel of 0 \<Rightarrow> None
         | Suc k \<Rightarrow> upper_bound k gx x to (min to \<lceil>(of_int estimated * 6 / 5 :: rat)\<rceil>))
      else Some (estimated, estX))"

declare upper_bound.simps [simp del]

text \<open>The binary search: the place and \<open>after\<close>.\<close>

function bin_search :: "(int \<Rightarrow> int \<times> bool) \<Rightarrow> int \<Rightarrow> int \<Rightarrow> int \<Rightarrow> int \<Rightarrow> int \<Rightarrow> int \<times> bool" where
  "bin_search gx x from fromX to toX =
     (if to - from \<le> 1 then let after = (x - fromX < toX - x) in (if after then from else to, after)
      else let middle = (from + to + 1) div 2; (middleX, wrongLine) = gx middle in
        if middleX > x then bin_search gx x from fromX middle (if wrongLine then middleX + 1000 else middleX)
        else bin_search gx x middle middleX to toX)"
  by pat_completeness auto
termination
  by (relation "measure (\<lambda>(gx, x, from, fromX, to, toX). nat (to - from))") auto

declare bin_search.simps [simp del]

definition find_char ::
    "(int \<Rightarrow> int \<times> bool) \<Rightarrow> int \<Rightarrow> int \<Rightarrow> int \<Rightarrow> (int \<times> bool option) option" where
  "find_char gx x len estimated = do {
     (to, toX) \<leftarrow> upper_bound (nat len) (\<lambda>k. fst (gx k)) x len estimated;
     Some (if x > toX then (to, None)
           else let est = \<lfloor>(of_int to * 4 / 5 :: rat)\<rfloor>; estX = fst (gx est);
                    (from, fromX) = (if estX < x then (est, estX) else (0, 0));
                    (ch, after) = bin_search gx x from fromX to toX
                in (ch, Some after)) }"

definition coordsChar ::
    "'s measure \<Rightarrow> ('g, 's) editor \<Rightarrow> int \<Rightarrow> int \<Rightarrow> (pos \<times> bool option) option" where
  "coordsChar ms ed x y =
     (let th = textHeight (screen ed); cw = int (charWidth (screen ed));
          heightPos = displayOffset ed + y div th
      in if heightPos < 0 then Some (Pos 0 0, None)
         else let no = int (lineAtHeight (doc ed) heightPos) in
           if no \<ge> doc_size ed then do {
             t \<leftarrow> line_text ed (doc_size ed - 1);
             Some (Pos (doc_size ed - 1) (int (length t)), None) }
           else do {
             l \<leftarrow> getLine ed no;
             let tw = lineWrapping (options ed);
             let innerOff = (if tw then heightPos - heightAtLine (doc ed) (nat no) else 0);
             if x \<le> 0 \<and> innerOff = 0 then Some (Pos no 0, None)
             else do {
               let len = int (length (ltext l));
               let guess = \<lceil>(of_int x + of_int (innerOff * int (clientWidth (screen ed))) * 9 / 10) / (of_int cw :: rat)\<rceil>;
               (ch, after) \<leftarrow> find_char (getX ms ed l innerOff) x len (min len guess);
               Some (Pos no ch, after) } })"

subsection \<open>The search ends, inside the line\<close>

lemma grow_guess: "1 \<le> e \<Longrightarrow> e < \<lceil>(of_int e * 6 / 5 :: rat)\<rceil>" for e :: int
  by (simp add: less_ceiling_iff)

lemma upper_bound_total:
  assumes "1 \<le> e" "e \<le> to" "to - e \<le> int fuel"
  shows "\<exists>u. upper_bound fuel gx x to e = Some (u, gx u) \<and> e \<le> u \<and> u \<le> to \<and> (x < gx u \<or> u = to)"
  using assms
proof (induction fuel arbitrary: e)
  case 0
  then show ?case by (subst upper_bound.simps) (auto simp: Let_def)
next
  case (Suc k)
  let ?e = "min to \<lceil>(of_int e * 6 / 5 :: rat)\<rceil>"
  show ?case
  proof (cases "gx e \<le> x \<and> e < to")
    case True
    have "e < ?e" using True grow_guess [OF Suc.prems(1)] by simp
    then have "\<exists>u. upper_bound k gx x to ?e = Some (u, gx u) \<and> ?e \<le> u \<and> u \<le> to \<and> (x < gx u \<or> u = to)"
      using Suc.prems True by (intro Suc.IH) auto
    then obtain u where "upper_bound k gx x to ?e = Some (u, gx u)" "?e \<le> u" "u \<le> to" "x < gx u \<or> u = to"
      by blast
    then show ?thesis using True \<open>e < ?e\<close> by (subst upper_bound.simps) (auto simp: Let_def)
  next
    case False
    then show ?thesis using Suc.prems by (subst upper_bound.simps) (auto simp: Let_def)
  qed
qed

lemma bin_search_bounds:
  "from \<le> to \<Longrightarrow> from \<le> fst (bin_search gx x from fromX to toX) \<and> fst (bin_search gx x from fromX to toX) \<le> to"
proof (induction gx x "from" fromX to toX rule: bin_search.induct)
  case (1 gx x "from" fromX to toX)
  show ?case
  proof (cases "to - from \<le> 1")
    case True
    with 1(3) show ?thesis by (subst (1 2) bin_search.simps) (simp add: Let_def)
  next
    case False
    let ?m = "(from + to + 1) div 2"
    obtain mx w where m: "gx ?m = (mx, w)" by fastforce
    have b: "from < ?m" "?m < to" using False by auto
    note IH1 = 1(1) [OF False refl m [symmetric] refl] and IH2 = 1(2) [OF False refl m [symmetric] refl]
    show ?thesis
    proof (cases "x < mx")
      case True
      with IH1 b False m show ?thesis by (subst (1 2) bin_search.simps) (simp add: Let_def)
    next
      case gr: False
      with IH2 b False m show ?thesis by (subst (1 2) bin_search.simps) (simp add: Let_def)
    qed
  qed
qed

text \<open>On a line whose offsets never decrease the search finds the character nearest to \<open>x\<close>.\<close>

definition nearest :: "(int \<Rightarrow> int) \<Rightarrow> int \<Rightarrow> int \<Rightarrow> int \<Rightarrow> bool" where
  "nearest f len x ch \<longleftrightarrow> (\<forall>k. 0 \<le> k \<and> k \<le> len \<longrightarrow> \<bar>f ch - x\<bar> \<le> \<bar>f k - x\<bar>)"

definition rises :: "(int \<Rightarrow> int) \<Rightarrow> int \<Rightarrow> bool" where
  "rises f len \<longleftrightarrow> (\<forall>i j. 0 \<le> i \<and> i \<le> j \<and> j \<le> len \<longrightarrow> f i \<le> f j)"

lemma nearest_neighbour:
  assumes up: "rises f len" and ft: "0 \<le> from" "from \<le> to" "to \<le> from + 1" "to \<le> len"
    and x: "f from \<le> x" "x \<le> f to"
  shows "nearest f len x (if x - f from < f to - x then from else to)"
  unfolding nearest_def
proof (intro allI impI)
  fix k assume k: "0 \<le> k \<and> k \<le> len"
  show "\<bar>f (if x - f from < f to - x then from else to) - x\<bar> \<le> \<bar>f k - x\<bar>"
  proof (cases "k \<le> from")
    case True
    then have "f k \<le> f from" using up k ft by (simp add: rises_def)
    then show ?thesis using x by auto
  next
    case False
    then have "f to \<le> f k" using up k ft by (simp add: rises_def)
    then show ?thesis using x by auto
  qed
qed

lemma bin_search_nearest:
  "rises (\<lambda>k. fst (gx k)) len \<Longrightarrow> (\<And>k. \<not> snd (gx k)) \<Longrightarrow> 0 \<le> from \<Longrightarrow> from \<le> to \<Longrightarrow> to \<le> len \<Longrightarrow>
   fst (gx from) = fromX \<Longrightarrow> fst (gx to) = toX \<Longrightarrow> fromX \<le> x \<Longrightarrow> x \<le> toX \<Longrightarrow>
   nearest (\<lambda>k. fst (gx k)) len x (fst (bin_search gx x from fromX to toX))"
proof (induction gx x "from" fromX to toX rule: bin_search.induct)
  case (1 gx x "from" fromX to toX)
  show ?case
  proof (cases "to - from \<le> 1")
    case True
    have "nearest (\<lambda>k. fst (gx k)) len x (if x - fst (gx from) < fst (gx to) - x then from else to)"
      using 1(5-) True by (intro nearest_neighbour [OF 1(3)]) auto
    with True 1(8,9) show ?thesis by (subst bin_search.simps) (simp add: Let_def)
  next
    case False
    let ?m = "(from + to + 1) div 2"
    obtain mx w where m: "gx ?m = (mx, w)" by fastforce
    have w: "\<not> w" using 1(4) [of ?m] m by simp
    have b: "from < ?m" "?m < to" using False by auto
    note IH1 = 1(1) [OF False refl m [symmetric] refl] and IH2 = 1(2) [OF False refl m [symmetric] refl]
    show ?thesis
    proof (cases "x < mx")
      case True
      have "nearest (\<lambda>k. fst (gx k)) len x (fst (bin_search gx x from fromX ?m (if w then mx + 1000 else mx)))"
        using IH1 True 1(3-) b m w by simp
      with False m True show ?thesis by (subst bin_search.simps) (simp add: Let_def)
    next
      case gr: False
      have "nearest (\<lambda>k. fst (gx k)) len x (fst (bin_search gx x ?m mx to toX))"
        using IH2 gr 1(3-) b m w by simp
      with False m gr show ?thesis by (subst bin_search.simps) (simp add: Let_def)
    qed
  qed
qed

lemma shrink_guess: "0 \<le> t \<Longrightarrow> 0 \<le> \<lfloor>(of_int t * 4 / 5 :: rat)\<rfloor> \<and> \<lfloor>(of_int t * 4 / 5 :: rat)\<rfloor> \<le> t" for t :: int
  by (simp add: floor_le_iff)

lemma find_char_from_guess:
  assumes "1 \<le> e" "e \<le> len"
  shows "\<exists>ch after. find_char gx x len e = Some (ch, after) \<and> 0 \<le> ch \<and> ch \<le> len \<and>
    (rises (\<lambda>k. fst (gx k)) len \<and> (\<forall>k. \<not> snd (gx k)) \<and> fst (gx 0) = 0 \<and> 0 < x \<longrightarrow> nearest (\<lambda>k. fst (gx k)) len x ch)"
proof -
  obtain u where u: "upper_bound (nat len) (\<lambda>k. fst (gx k)) x len e = Some (u, fst (gx u))" "e \<le> u" "u \<le> len"
      "x < fst (gx u) \<or> u = len"
    using upper_bound_total [OF assms, of "nat len" "\<lambda>k. fst (gx k)" x] assms by auto
  show ?thesis
  proof (cases "x > fst (gx u)")
    case True
    then have "u = len" using u(4) by simp
    moreover have "rises (\<lambda>k. fst (gx k)) len \<Longrightarrow> nearest (\<lambda>k. fst (gx k)) len x len"
      using True assms unfolding nearest_def rises_def \<open>u = len\<close>
      by (smt (verit) order_refl)
    ultimately show ?thesis using True u assms by (simp add: find_char_def)
  next
    case False
    let ?est = "\<lfloor>(of_int u * 4 / 5 :: rat)\<rfloor>"
    have est: "0 \<le> ?est" "?est \<le> u" using shrink_guess [of u] u(2) assms(1) by auto
    obtain fr frX where fr: "(if fst (gx ?est) < x then (?est, fst (gx ?est)) else (0, 0)) = (fr, frX)"
      by fastforce
    then have b: "0 \<le> fr" "fr \<le> u" using est u(2) assms(1) by (auto split: if_splits)
    have "nearest (\<lambda>k. fst (gx k)) len x (fst (bin_search gx x fr frX u (fst (gx u))))"
      if "rises (\<lambda>k. fst (gx k)) len" "\<forall>k. \<not> snd (gx k)" "fst (gx 0) = 0" "0 < x"
      using that fr b u(3) False by (intro bin_search_nearest) (auto split: if_splits)
    moreover have "find_char gx x len e =
        Some (fst (bin_search gx x fr frX u (fst (gx u))), Some (snd (bin_search gx x fr frX u (fst (gx u)))))"
      using False u(1) fr by (simp add: find_char_def Let_def split: prod.split if_splits)
    ultimately show ?thesis using bin_search_bounds [OF b(2), of gx x frX "fst (gx u)"] b(1) u(3) by auto
  qed
qed

text \<open>With a guess that is not positive the search stops at once, at the start of the line.\<close>

lemma find_char_at_start:
  assumes "e = 0 \<and> len = 0 \<or> e \<le> 0 \<and> x < 0 \<and> (\<forall>k. 0 \<le> fst (gx k))" "0 \<le> len"
  shows "\<exists>after. find_char gx x len e = Some (0, after)"
proof -
  have g: "x < 0 \<Longrightarrow> \<forall>k. 0 \<le> fst (gx k) \<Longrightarrow> \<not> fst (gx k) \<le> x" for k
    by (meson dual_order.strict_trans1 not_le)
  have u: "upper_bound (nat len) (\<lambda>k. fst (gx k)) x len e = Some (e, fst (gx e))"
    using assms g by (subst upper_bound.simps) (auto simp: Let_def)
  from assms(1) show ?thesis
  proof (elim disjE conjE)
    assume "e = 0" "len = 0"
    with u show ?thesis by (simp add: find_char_def Let_def bin_search.simps)
  next
    assume x: "e \<le> 0" "x < 0" "\<forall>k. 0 \<le> fst (gx k)"
    then have "\<not> fst (gx k) < x" "\<not> fst (gx k) - x \<le> x" for k
      by (smt (verit))+
    with u x show ?thesis by (simp add: find_char_def Let_def bin_search.simps) (smt (verit))
  qed
qed

text \<open>The line of a point and the offset of the point inside it.\<close>

lemma line_at_point:
  assumes "doc_ok (doc ed)" "nonneg (lines ed)" "0 \<le> h" "int (lineAtHeight (doc ed) h) < doc_size ed"
  shows "lineAtHeight (doc ed) h < length (lines ed)"
    "getLine ed (int (lineAtHeight (doc ed) h)) = Some (lines ed ! lineAtHeight (doc ed) h)"
    "0 \<le> h - heightAtLine (doc ed) (lineAtHeight (doc ed) h)"
proof -
  show l: "lineAtHeight (doc ed) h < length (lines ed)" using assms by (simp add: doc_size_lines)
  then show "getLine ed (int (lineAtHeight (doc ed) h)) = Some (lines ed ! lineAtHeight (doc ed) h)"
    using assms(1) by (simp add: getLine_lines)
  show "0 \<le> h - heightAtLine (doc ed) (lineAtHeight (doc ed) h)"
    using heights_leafAtHeight [OF assms(3), of "lines ed"] l assms
    by (simp add: lineAtHeight_collapse heightAtLine_collapse)
qed

lemma getX_wrapped:
  "lineWrapping (options ed) \<Longrightarrow> 0 \<le> fst (getX ms ed l i k)"
  by (simp add: getX_def Let_def split: prod.split)

lemma getX_plain:
  "\<not> lineWrapping (options ed) \<Longrightarrow> getX ms ed l i k = (snd (measureLine ms l k), False)"
  by (simp add: getX_def split: prod.split)

lemma guess_positive:
  assumes "\<not> (x \<le> 0 \<and> inner = 0)" "0 \<le> inner" "0 < cw" "0 < chw" "0 \<le> x"
  shows "0 < \<lceil>(of_int x + of_int (inner * cw) * 9 / 10) / (of_int chw :: rat)\<rceil>"
proof -
  have "0 \<le> inner * cw" "0 < inner \<Longrightarrow> 0 < inner * cw" using assms by simp_all
  then have "(0 :: rat) < of_int x + of_int (inner * cw) * 9 / 10"
    using assms by (cases "inner = 0") (auto intro: add_nonneg_pos)
  then show ?thesis using assms(4) by simp
qed

lemma find_char_line:
  assumes out: "\<not> (x \<le> 0 \<and> inner = 0)" and inner: "0 \<le> inner" "\<not> lineWrapping (options ed) \<Longrightarrow> inner = 0"
    and cw: "0 < clientWidth (screen ed)" "0 < charWidth (screen ed)" and len: "0 \<le> len"
    and g: "guess = \<lceil>(of_int x + of_int (inner * int (clientWidth (screen ed))) * 9 / 10) /
      (of_int (int (charWidth (screen ed))) :: rat)\<rceil>"
  shows "\<exists>ch after. find_char (getX ms ed l inner) x len (min len guess) = Some (ch, after) \<and> 0 \<le> ch \<and> ch \<le> len \<and>
    (rises (\<lambda>k. snd (measureLine ms l k)) len \<and> \<not> lineWrapping (options ed) \<longrightarrow>
      nearest (\<lambda>k. snd (measureLine ms l k)) len x ch)"
proof (cases "0 < guess")
  case True
  show ?thesis
  proof (cases "len = 0")
    case True
    with \<open>0 < guess\<close> have "\<exists>after. find_char (getX ms ed l inner) x len (min len guess) = Some (0, after)"
      by (intro find_char_at_start) auto
    with True show ?thesis by (auto simp: nearest_def)
  next
    case False
    with True len have "1 \<le> min len guess" "min len guess \<le> len" by auto
    from find_char_from_guess [OF this, of "getX ms ed l inner" x] show ?thesis
      using out inner(2) by (cases "lineWrapping (options ed)") (auto simp: getX_plain measureLine_def)
  qed
next
  case False
  then have "x < 0" using guess_positive [OF out inner(1), of "int (clientWidth (screen ed))" "int (charWidth (screen ed))"] cw g
    by force
  then have wr: "lineWrapping (options ed)" using out inner(2) by auto
  then have "\<exists>after. find_char (getX ms ed l inner) x len (min len guess) = Some (0, after)"
    using False \<open>x < 0\<close> len by (intro find_char_at_start) (auto simp: getX_wrapped)
  with wr len show ?thesis by auto
qed

text \<open>A point beside a line of the document: the search along that line ends at a column of it.\<close>

lemma coords_inside:
  assumes "ed_ok ed" and "0 < clientWidth (screen ed)" and "0 < charWidth (screen ed)"
    and inside: "0 \<le> displayOffset ed + y div textHeight (screen ed)"
      "int (lineAtHeight (doc ed) (displayOffset ed + y div textHeight (screen ed))) < doc_size ed"
  shows "\<exists>p after. coordsChar ms ed x y = Some (p, after) \<and> pos_ok (texts ed) p \<and>
    (\<forall>l. getLine ed (pline p) = Some l \<and> \<not> lineWrapping (options ed) \<and>
         rises (\<lambda>k. snd (measureLine ms l k)) (int (length (ltext l))) \<longrightarrow>
       nearest (\<lambda>k. snd (measureLine ms l k)) (int (length (ltext l))) x (pch p))"
proof -
  let ?h = "displayOffset ed + y div textHeight (screen ed)" and ?n = "lineAtHeight (doc ed)"
  note d = ed_okD [OF assms(1)]
  have non: "nonneg (lines ed)" using d(1) by (simp add: struct_ok_def)
  note l = line_at_point [OF d(2) non inside]
  let ?l = "lines ed ! ?n ?h" and ?inner = "if lineWrapping (options ed) then ?h - heightAtLine (doc ed) (?n ?h) else 0"
  have t: "texts ed ! ?n ?h = ltext ?l" using l(1) by (simp add: texts_def)
  show ?thesis
  proof (cases "x \<le> 0 \<and> ?inner = 0")
    case True
    have "nearest (\<lambda>k. snd (measureLine ms ?l k)) (int (length (ltext ?l))) x 0"
      if "rises (\<lambda>k. snd (measureLine ms ?l k)) (int (length (ltext ?l)))"
      using that True unfolding nearest_def rises_def by (smt (verit) measureLine_def snd_conv)
    with True inside l t show ?thesis by (auto simp: coordsChar_def Let_def pos_ok_def)
  next
    case False
    obtain inner guess where ig: "inner = ?inner" "guess = \<lceil>(of_int x + of_int (inner * int (clientWidth (screen ed))) * 9 / 10) /
        (of_int (int (charWidth (screen ed))) :: rat)\<rceil>" by blast
    have "0 \<le> inner" "\<not> lineWrapping (options ed) \<Longrightarrow> inner = 0" using l(3) ig(1) by auto
    from find_char_line [OF False [folded ig(1)] this assms(2,3) _ ig(2), of "int (length (ltext ?l))" ms ?l]
    obtain ch after where f: "find_char (getX ms ed ?l inner) x (int (length (ltext ?l))) (min (int (length (ltext ?l))) guess)
        = Some (ch, after)" "0 \<le> ch" "ch \<le> int (length (ltext ?l))"
      "rises (\<lambda>k. snd (measureLine ms ?l k)) (int (length (ltext ?l))) \<and> \<not> lineWrapping (options ed) \<longrightarrow>
         nearest (\<lambda>k. snd (measureLine ms ?l k)) (int (length (ltext ?l))) x ch"
      by auto
    have "coordsChar ms ed x y = Some (Pos (int (?n ?h)) ch, after)"
      using inside l(2) False f(1) unfolding coordsChar_def Let_def ig by (cases "lineWrapping (options ed)") auto
    with f l t show ?thesis by (auto simp: pos_ok_def)
  qed
qed

lemma coordsChar_ok:
  assumes "ed_ok ed" and "0 < clientWidth (screen ed)" and "0 < charWidth (screen ed)"
  shows "\<exists>p after. coordsChar ms ed x y = Some (p, after) \<and> pos_ok (texts ed) p \<and>
    (\<forall>l. getLine ed (pline p) = Some l \<and> \<not> lineWrapping (options ed) \<and>
         0 \<le> displayOffset ed + y div textHeight (screen ed) \<and>
         displayOffset ed + y div textHeight (screen ed) < chunkHeight (doc ed) \<and>
         rises (\<lambda>k. snd (measureLine ms l k)) (int (length (ltext l))) \<longrightarrow>
       nearest (\<lambda>k. snd (measureLine ms l k)) (int (length (ltext l))) x (pch p))"
proof -
  let ?h = "displayOffset ed + y div textHeight (screen ed)" and ?n = "lineAtHeight (doc ed)"
  note d = ed_okD [OF assms(1)]
  have non: "nonneg (lines ed)" using d(1) by (simp add: struct_ok_def)
  have ne: "lines ed \<noteq> []" using d(3) by (simp add: texts_def)
  have hgt: "chunkHeight (doc ed) = heights (lines ed)" using d(2) by (simp add: doc_ok_def chunkHeight_collapse)
  consider (above) "?h < 0" | (below) "0 \<le> ?h" "doc_size ed \<le> int (?n ?h)"
    | (inside) "0 \<le> ?h" "int (?n ?h) < doc_size ed" by linarith
  then show ?thesis
  proof cases
    case above
    then show ?thesis using ne by (auto simp: coordsChar_def Let_def pos_ok_def)
  next
    case below
    have "length (lines ed) \<le> ?n ?h" using below d(2) by (simp add: doc_size_lines)
    then have "\<not> ?h < heights (lines ed)"
      using leafAtHeight_lt [OF non below(1)] by (simp add: lineAtHeight_collapse [OF d(2) non below(1)])
    moreover have "0 < int (length (lines ed))" using ne by simp
    ultimately show ?thesis using below hgt last_pos_ok [OF d(3)]
      by (auto simp: coordsChar_def Let_def line_text_texts [OF d(2)] doc_size_lines [OF d(2)])
  next
    case inside
    then show ?thesis using coords_inside [OF assms, of y ms x] by blast
  qed
qed

text \<open>
  C19: A point of the text area is turned into a valid position, whatever the browser measures: the guesses
  and the binary search end.  On lines that are not wrapped and whose offsets never decrease, the
  character found is the one nearest to the point.
\<close>

theorem coords_to_position:
  assumes "ed_ok ed" and "0 < clientWidth (screen ed)" and "0 < charWidth (screen ed)"
  shows "\<exists>p after. coordsChar ms ed x y = Some (p, after) \<and> pos_ok (texts ed) p \<and>
    (\<forall>l. getLine ed (pline p) = Some l \<and> \<not> lineWrapping (options ed) \<and>
         0 \<le> displayOffset ed + y div textHeight (screen ed) \<and>
         displayOffset ed + y div textHeight (screen ed) < chunkHeight (doc ed) \<and>
         rises (\<lambda>k. snd (measureLine ms l k)) (int (length (ltext l))) \<longrightarrow>
       nearest (\<lambda>k. snd (measureLine ms l k)) (int (length (ltext l))) x (pch p))"
  using coordsChar_ok [OF assms] .

theorem coords_to_position_witness:
  "\<exists>(ed :: (sparql_env, sparql_state) editor) p after. coordsChar (\<lambda>l k. (0, 7 * k)) ed 12 3 = Some (p, after) \<and> pos_ok (texts ed) p \<and> texts ed = [''abc'']"
proof -
  let ?ed = "(demo_editor ''abc'')\<lparr>screen := \<lparr>clientWidth = 800, clientHeight = 600, charWidth = 8, textHeight = 16,
      paddingTop = 4, paddingLeft = 4\<rparr>\<rparr>"
  have "ed_ok (demo_editor ''abc'')" by (rule undo_okD(1) [OF reachable_undo_ok [OF demo_reachable]])
  then have ok: "ed_ok ?ed"
    by (simp add: ed_ok_def struct_ok_def known_def texts_def all_visible_def)
  have "texts ?ed = [''abc'']" using demo_texts [of "''abc''"] by (simp add: texts_def)
  moreover obtain p after where "coordsChar (\<lambda>l k. (0, 7 * k)) ?ed 12 3 = Some (p, after)" "pos_ok (texts ?ed) p"
    using coords_to_position [OF ok, of "\<lambda>l k. (0, 7 * k)" 12 3] by auto
  ultimately show ?thesis by blast
qed

subsection \<open>Scrolling\<close>

text \<open>\<open>needsScrollbar()\<close>: the height of the document when it does not fit, \<open>None\<close> for \<open>false\<close>.\<close>

definition needsScrollbar :: "('g, 's) editor \<Rightarrow> view \<Rightarrow> int option" where
  "needsScrollbar ed vw =
     (let realHeight = chunkHeight (doc ed) * textHeight (screen ed) + 2 * paddingTop (screen ed)
      in if realHeight * 99 > scrollerHeight vw * 100 then Some realHeight else None)"

text \<open>The new scroll offsets, left and top, where there is one.\<close>

definition calculateScrollPos ::
    "('g, 's) editor \<Rightarrow> view \<Rightarrow> int \<Rightarrow> int \<Rightarrow> int \<Rightarrow> int \<Rightarrow> int option \<times> int option" where
  "calculateScrollPos ed vw x1' y1' x2' y2' =
     (let pl = paddingLeft (screen ed); pt = paddingTop (screen ed);
          y1 = y1' + pt; y2 = y2' + pt; x1 = x1' + pl; x2 = x2' + pl;
          height = int (clientHeight (screen ed)); screentop = scrollTop vw;
          docBottom = needsScrollbar ed vw;
          atTop = y1 < pt + 10;
          top = (if y1 < screentop then Some (if atTop then 0 else max 0 y1)
                 else if y2 > screentop + height then
                   Some ((case docBottom of Some b \<Rightarrow> (if y2 + pt > b - 10 then b else y2) | None \<Rightarrow> y2) - height)
                 else None);
          screenw = int (clientWidth (screen ed)); screenleft = scrollLeft vw;
          gutterw = (if fixedGutter vw then gutterWidth vw else 0);
          atLeft = x1 < gutterw + pl + 10;
          left = (if x1 < screenleft + gutterw \<or> atLeft
                  then Some (max 0 ((if atLeft then 0 else x1) - 10 - gutterw))
                  else if x2 > screenw + screenleft - 3 then Some (x2 + 10 - screenw) else None)
      in (left, top))"

definition scrollIntoView :: "('g, 's) editor \<Rightarrow> int \<Rightarrow> int \<Rightarrow> int \<Rightarrow> int \<Rightarrow> view \<Rightarrow> view" where
  "scrollIntoView ed x1 y1 x2 y2 vw =
     (let (left, top) = calculateScrollPos ed vw x1 y1 x2 y2;
          vw1 = (case left of Some l \<Rightarrow> vw\<lparr>scrollLeft := l\<rparr> | None \<Rightarrow> vw)
      in case top of Some t \<Rightarrow> vw1\<lparr>scrollTop := t\<rparr> | None \<Rightarrow> vw1)"

definition calculateCursorCoords ::
    "'s measure \<Rightarrow> ('g, 's) editor \<Rightarrow> view \<Rightarrow> (int \<times> int \<times> int) option" where
  "calculateCursorCoords ms ed vw = do {
     (x, y, yBot) \<leftarrow> localCoords ms ed (if sel_inverted ed then sel_from ed else sel_to ed) False;
     Some (if lineWrapping (options ed) then min x (spaceWidth vw) else x, y, yBot) }"

text \<open>
  \<open>scrollCursorIntoView\<close>: the second part of the result is the argument of \<open>cursor.scrollIntoView\<close>, called
  when the cursor is outside the window; \<open>boxTop\<close> is the top of the sizer in the window.
\<close>

definition scrollCursorIntoView ::
    "'s measure \<Rightarrow> ('g, 's) editor \<Rightarrow> int \<Rightarrow> view \<Rightarrow> (view \<times> bool option) option" where
  "scrollCursorIntoView ms ed boxTop vw = do {
     (x, y, yBot) \<leftarrow> calculateCursorCoords ms ed vw;
     let vw1 = scrollIntoView ed x y x yBot vw;
     Some (vw1,
       if \<not> focused ed then None
       else if y + boxTop < 0 then Some True
       else if y + boxTop + textHeight (screen ed) > windowHeight vw then Some False else None) }"

text \<open>The unit of \<open>moveV\<close>.  The browser keeps the offset of a scroll bar from becoming negative.\<close>

datatype v_unit = ByPage | ByLine

definition moveV :: "'s measure \<Rightarrow> int \<Rightarrow> v_unit \<Rightarrow> ('g, 's) editor \<times> view \<Rightarrow> (('g, 's) editor \<times> view) option" where
  "moveV ms dir unit st = (case st of (ed, vw) \<Rightarrow> do {
     (x0, y, yBot) \<leftarrow> localCoords ms ed (if sel_inverted ed then sel_from ed else sel_to ed) True;
     let x = (case goalColumn ed of Some g \<Rightarrow> g | None \<Rightarrow> x0);
     let th = textHeight (screen ed);
     (target, after) \<leftarrow> coordsChar ms ed x
        (case unit of
           ByPage \<Rightarrow> y + min (int (clientHeight (screen ed))) (windowHeight vw) * dir
         | ByLine \<Rightarrow> y + th div 2 + dir * th);
     vw1 \<leftarrow> (case unit of
         ByPage \<Rightarrow> do { (tx, ty, tb) \<leftarrow> localCoords ms ed target True;
                     Some (vw\<lparr>scrollTop := max 0 (scrollTop vw + (ty - y))\<rparr>) }
       | ByLine \<Rightarrow> Some vw);
     ed1 \<leftarrow> setCursor (pline target) (Some (pch target)) True ed;
     Some (ed1\<lparr>goalColumn := Some x\<rparr>, vw1) })"

subsection \<open>Drawing the selection\<close>

record rect =
  rect_left :: int
  rect_top :: int
  rect_right :: int
  rect_height :: int

datatype drawing = DrawCursor int int | DrawSelection "rect list"

text \<open>
  \<open>updateSelection\<close>: where the hidden input goes (top, left), and the cursor or the rectangles of the
  selection.  \<open>lineOffTop\<close> and \<open>lineOffLeft\<close> are the offsets of the lines inside the editor.
\<close>

definition updateSelection ::
    "'s measure \<Rightarrow> ('g, 's) editor \<Rightarrow> view \<Rightarrow> ((int \<times> int) \<times> drawing) option" where
  "updateSelection ms ed vw = do {
     let collapsed = posEq (sel_from ed) (sel_to ed);
     (fx, fy, fb) \<leftarrow> localCoords ms ed (sel_from ed) True;
     (tx, ty, tb) \<leftarrow> (if collapsed then Some (fx, fy, fb) else localCoords ms ed (sel_to ed) True);
     let (hx, hy) = (if sel_inverted ed then (fx, fy) else (tx, ty));
     let th = textHeight (screen ed);
     let inputAt = (max 0 (min (scrollerHeight vw) (hy + lineOffTop vw)),
                    max 0 (min (scrollerWidth vw) (hx + lineOffLeft vw)));
     Some (inputAt,
       if collapsed then DrawCursor hy (if lineWrapping (options ed) then min hx (spaceWidth vw) else hx)
       else let sameLine = (fy = ty); cw = spaceWidth vw; ch = spaceHeight vw;
                middleStart = max 0 (fy + (if pch (sel_from ed) \<noteq> 0 then th else 0));
                middleHeight = min ty ch - middleStart
         in DrawSelection (
           (if pch (sel_from ed) \<noteq> 0 \<and> fy \<ge> 0
            then [\<lparr>rect_left = fx, rect_top = fy, rect_right = (if sameLine then cw - tx else 0), rect_height = th\<rparr>]
            else []) @
           (if 5 * middleHeight > th
            then [\<lparr>rect_left = 0, rect_top = middleStart, rect_right = 0, rect_height = middleHeight\<rparr>] else []) @
           (if (\<not> sameLine \<or> pch (sel_from ed) = 0) \<and> 2 * ty < 2 * ch - th
            then [\<lparr>rect_left = 0, rect_top = ty, rect_right = cw - tx, rect_height = th\<rparr>] else []))) }"

text \<open>
  Scrolling a rectangle into view shows it: a rectangle of the document that fits the window with its
  margins is inside it afterwards, clear of a fixed gutter.
\<close>

theorem scroll_shows:
  assumes "0 \<le> paddingTop (screen ed)" and "0 \<le> paddingLeft (screen ed)" and "0 \<le> gutterWidth vw"
    and "0 \<le> x1" and "x1 \<le> x2" and "0 \<le> y1" and "y1 \<le> y2"
    and "y2 - y1 + paddingTop (screen ed) + 10 \<le> int (clientHeight (screen ed))"
    and "x2 - x1 + gutterWidth vw + paddingLeft (screen ed) + 10 \<le> int (clientWidth (screen ed))"
    and "\<forall>b. needsScrollbar ed vw = Some b \<longrightarrow> y2 + paddingTop (screen ed) \<le> b"
    and "vw' = scrollIntoView ed x1 y1 x2 y2 vw"
  shows "scrollTop vw' \<le> y1 + paddingTop (screen ed) \<and>
      y2 + paddingTop (screen ed) \<le> scrollTop vw' + int (clientHeight (screen ed)) \<and>
      (fixedGutter vw \<longrightarrow> scrollLeft vw' + gutterWidth vw \<le> max (x1 + paddingLeft (screen ed)) (gutterWidth vw)) \<and>
      scrollLeft vw' \<le> x1 + paddingLeft (screen ed) \<and>
      x2 + paddingLeft (screen ed) \<le> scrollLeft vw' + int (clientWidth (screen ed))"
  using assms
  by (cases "needsScrollbar ed vw")
    (auto simp: scrollIntoView_def calculateScrollPos_def Let_def split: if_splits)

end
