(* ===== verification/CM_Keys.thy ===== *)
theory CM_Keys
  imports CM_Motion CM_Coords
begin

section \<open>Commands and key maps\<close>

text \<open>
  The table \<open>CodeMirror.commands\<close>, the tables \<open>keyMap\<close>, \<open>getKeyMap\<close>, \<open>lookupKey\<close>, \<open>isModifierKey\<close>, the key
  names, \<open>doHandleBinding\<close>, \<open>handleKeyBinding\<close> and \<open>handleCharBinding\<close>.  A command runs on an editor and
  its view; the calls it makes through \<open>operation\<close> are their bodies here.  The result of a bound
  function is the new state and whether it threw \<open>CodeMirror.Pass\<close>; \<open>None\<close> is any other exception.
\<close>

type_synonym ('g, 's) ui = "('g, 's) editor \<times> view"

type_synonym ('g, 's) command = "('g, 's) ui \<Rightarrow> ('g, 's) ui option"

subsection \<open>The commands\<close>

definition on_ed :: "(('g, 's) editor \<Rightarrow> ('g, 's) editor option) \<Rightarrow> ('g, 's) command" where
  "on_ed f st = (case st of (ed, vw) \<Rightarrow> map_option (\<lambda>e. (e, vw)) (f ed))"

text \<open>\<open>getCursor(start)\<close> of the instance.\<close>

definition getCursor :: "bool option \<Rightarrow> ('g, 's) editor \<Rightarrow> pos" where
  "getCursor start1 ed =
     (if (case start1 of None \<Rightarrow> sel_inverted ed | Some b \<Rightarrow> b) then sel_from ed else sel_to ed)"

text \<open>\<open>setSelection(from, to, user)\<close> of the instance; positions are given by line and optional \<open>ch\<close>.\<close>

definition api_setSelection ::
    "int \<times> int option \<Rightarrow> (int \<times> int option) option \<Rightarrow> bool \<Rightarrow> ('g, 's) editor \<Rightarrow> ('g, 's) editor option" where
  "api_setSelection f t user ed = do {
     p \<leftarrow> clipPos ed (fst f) (snd f);
     q \<leftarrow> (let t1 = (case t of Some x \<Rightarrow> x | None \<Rightarrow> f) in clipPos ed (fst t1) (snd t1));
     if user then setSelectionUser p q ed else setSelection p q None ed }"

definition selectAll :: "('g, 's) editor \<Rightarrow> ('g, 's) editor option" where
  "selectAll ed = api_setSelection (0, Some 0) (Some (doc_size ed - 1, None)) False ed"

definition killLine :: "('g, 's) editor \<Rightarrow> ('g, 's) editor option" where
  "killLine ed = do {
     let from = getCursor (Some True) ed;
     let to = getCursor (Some False) ed;
     let sel = (\<not> posEq from to);
     t \<leftarrow> line_text ed (pline from);
     if \<not> sel \<and> int (length t) = pch from then map_option fst (replaceRange [] from (Some (Pos (pline from + 1) 0)) ed)
     else do {
       e \<leftarrow> (if sel then Some to else clipPos ed (pline from) None);
       map_option fst (replaceRange [] from (Some e) ed) } }"

definition deleteLine :: "('g, 's) editor \<Rightarrow> ('g, 's) editor option" where
  "deleteLine ed = do {
     let l = pline (getCursor None ed);
     e \<leftarrow> clipPos ed l None;
     map_option fst (replaceRange [] (Pos l 0) (Some e) ed) }"

definition goDocEnd :: "('g, 's) editor \<Rightarrow> ('g, 's) editor option" where
  "goDocEnd ed = api_setSelection (doc_size ed - 1, None) None True ed"

definition goLineStart :: "('g, 's) editor \<Rightarrow> ('g, 's) editor option" where
  "goLineStart ed = setCursor (pline (getCursor None ed)) (Some 0) True ed"

definition goLineStartSmart :: "('g, 's) editor \<Rightarrow> ('g, 's) editor option" where
  "goLineStartSmart ed = do {
     let cur = getCursor None ed;
     t \<leftarrow> line_text ed (pline cur);
     let firstNonWS = (case find_from (\<lambda>c. \<not> re_space c) 0 t of Some i \<Rightarrow> int i | None \<Rightarrow> 0);
     setCursor (pline cur) (Some (if pch cur \<le> firstNonWS \<and> pch cur \<noteq> 0 then 0 else firstNonWS)) True ed }"

definition goLineEnd :: "('g, 's) editor \<Rightarrow> ('g, 's) editor option" where
  "goLineEnd ed = api_setSelection (pline (getCursor None ed), None) None True ed"

definition defaultTab :: "('g, 's) editor \<Rightarrow> ('g, 's) editor option" where
  "defaultTab ed =
     (if \<not> posEq (sel_from ed) (sel_to ed) then indentSelected Add ed
      else replaceSelection [CHR 0x09] CollapseEnd ed)"

definition transposeChars :: "('g, 's) editor \<Rightarrow> ('g, 's) editor option" where
  "transposeChars ed = do {
     let cur = getCursor None ed;
     t \<leftarrow> line_text ed (pline cur);
     if pch cur > 0 \<and> pch cur < int (length t) - 1
     then map_option fst (replaceRange [t ! nat (pch cur), t ! nat (pch cur - 1)]
            (Pos (pline cur) (pch cur - 1)) (Some (Pos (pline cur) (pch cur + 1))) ed)
     else Some ed }"

definition newlineAndIndent :: "('g, 's) editor \<Rightarrow> ('g, 's) editor option" where
  "newlineAndIndent ed = do {
     ed1 \<leftarrow> replaceSelection [CHR 0x0A] CollapseEnd ed;
     api_indentLine (pline (getCursor None ed1)) None ed1 }"

definition toggleOverwrite :: "('g, 's) editor \<Rightarrow> ('g, 's) editor" where
  "toggleOverwrite ed = ed\<lparr>overwrite := \<not> overwrite ed\<rparr>"

definition commands :: "'s measure \<Rightarrow> (jstring \<times> ('g, 's) command) list" where
  "commands ms = [
     (''selectAll'', on_ed selectAll), (''killLine'', on_ed killLine), (''deleteLine'', on_ed deleteLine),
     (''undo'', on_ed undo), (''redo'', on_ed redo),
     (''goDocStart'', on_ed (setCursor 0 (Some 0) True)), (''goDocEnd'', on_ed goDocEnd),
     (''goLineStart'', on_ed goLineStart), (''goLineStartSmart'', on_ed goLineStartSmart),
     (''goLineEnd'', on_ed goLineEnd),
     (''goLineUp'', moveV ms (- 1) ByLine), (''goLineDown'', moveV ms 1 ByLine),
     (''goPageUp'', moveV ms (- 1) ByPage), (''goPageDown'', moveV ms 1 ByPage),
     (''goCharLeft'', on_ed (moveH (- 1) Char)), (''goCharRight'', on_ed (moveH 1 Char)),
     (''goColumnLeft'', on_ed (moveH (- 1) Column)), (''goColumnRight'', on_ed (moveH 1 Column)),
     (''goWordLeft'', on_ed (moveH (- 1) Word)), (''goWordRight'', on_ed (moveH 1 Word)),
     (''delCharLeft'', on_ed (deleteH (- 1) Char)), (''delCharRight'', on_ed (deleteH 1 Char)),
     (''delWordLeft'', on_ed (deleteH (- 1) Word)), (''delWordRight'', on_ed (deleteH 1 Word)),
     (''indentAuto'', on_ed (indentSelected Smart)), (''indentMore'', on_ed (indentSelected Add)),
     (''indentLess'', on_ed (indentSelected Subtract)),
     (''insertTab'', on_ed (replaceSelection [CHR 0x09] CollapseEnd)), (''defaultTab'', on_ed defaultTab),
     (''transposeChars'', on_ed transposeChars), (''newlineAndIndent'', on_ed newlineAndIndent),
     (''toggleOverwrite'', on_ed (\<lambda>ed. Some (toggleOverwrite ed)))]"

subsection \<open>Key maps\<close>

text \<open>
  A binding is the name of a command, a function (by a number), or \<open>false\<close>.  A key map is given by its
  name or as an object; \<open>fallthrough\<close> is a list here also where the code has a single map.
\<close>

datatype bound = Command jstring | Func nat | Off

datatype key_map = KeyMap (bindings: "(jstring \<times> bound) list") (nofallthrough: bool) (fallthrough: "map_ref list option")
  (auto_map: "map_ref option")
  and map_ref = Named jstring | Direct key_map

definition bind_all :: "(jstring \<times> jstring) list \<Rightarrow> map_ref list option \<Rightarrow> key_map" where
  "bind_all bs ft = KeyMap (map (\<lambda>(k, c). (k, Command c)) bs) False ft None"

definition map_basic :: key_map where
  "map_basic = bind_all [
     (''Left'', ''goCharLeft''), (''Right'', ''goCharRight''), (''Up'', ''goLineUp''), (''Down'', ''goLineDown''),
     (''End'', ''goLineEnd''), (''Home'', ''goLineStartSmart''), (''PageUp'', ''goPageUp''), (''PageDown'', ''goPageDown''),
     (''Delete'', ''delCharRight''), (''Backspace'', ''delCharLeft''), (''Tab'', ''defaultTab''), (''Shift-Tab'', ''indentAuto''),
     (''Enter'', ''newlineAndIndent''), (''Insert'', ''toggleOverwrite'')] None"

definition map_pcDefault :: key_map where
  "map_pcDefault = bind_all [
     (''Ctrl-A'', ''selectAll''), (''Ctrl-D'', ''deleteLine''), (''Ctrl-Z'', ''undo''), (''Shift-Ctrl-Z'', ''redo''), (''Ctrl-Y'', ''redo''),
     (''Ctrl-Home'', ''goDocStart''), (''Alt-Up'', ''goDocStart''), (''Ctrl-End'', ''goDocEnd''), (''Ctrl-Down'', ''goDocEnd''),
     (''Ctrl-Left'', ''goWordLeft''), (''Ctrl-Right'', ''goWordRight''), (''Alt-Left'', ''goLineStart''), (''Alt-Right'', ''goLineEnd''),
     (''Ctrl-Backspace'', ''delWordLeft''), (''Ctrl-Delete'', ''delWordRight''), (''Ctrl-S'', ''save''), (''Ctrl-F'', ''find''),
     (''Ctrl-G'', ''findNext''), (''Shift-Ctrl-G'', ''findPrev''), (''Shift-Ctrl-F'', ''replace''), (''Shift-Ctrl-R'', ''replaceAll''),
     (''Ctrl-['', ''indentLess''), (''Ctrl-]'', ''indentMore'')] (Some [Named ''basic''])"

definition map_macDefault :: key_map where
  "map_macDefault = bind_all [
     (''Cmd-A'', ''selectAll''), (''Cmd-D'', ''deleteLine''), (''Cmd-Z'', ''undo''), (''Shift-Cmd-Z'', ''redo''), (''Cmd-Y'', ''redo''),
     (''Cmd-Up'', ''goDocStart''), (''Cmd-End'', ''goDocEnd''), (''Cmd-Down'', ''goDocEnd''), (''Alt-Left'', ''goWordLeft''),
     (''Alt-Right'', ''goWordRight''), (''Cmd-Left'', ''goLineStart''), (''Cmd-Right'', ''goLineEnd''), (''Alt-Backspace'', ''delWordLeft''),
     (''Ctrl-Alt-Backspace'', ''delWordRight''), (''Alt-Delete'', ''delWordRight''), (''Cmd-S'', ''save''), (''Cmd-F'', ''find''),
     (''Cmd-G'', ''findNext''), (''Shift-Cmd-G'', ''findPrev''), (''Cmd-Alt-F'', ''replace''), (''Shift-Cmd-Alt-F'', ''replaceAll''),
     (''Cmd-['', ''indentLess''), (''Cmd-]'', ''indentMore'')] (Some [Named ''basic'', Named ''emacsy''])"

definition map_emacsy :: key_map where
  "map_emacsy = bind_all [
     (''Ctrl-F'', ''goCharRight''), (''Ctrl-B'', ''goCharLeft''), (''Ctrl-P'', ''goLineUp''), (''Ctrl-N'', ''goLineDown''),
     (''Alt-F'', ''goWordRight''), (''Alt-B'', ''goWordLeft''), (''Ctrl-A'', ''goLineStart''), (''Ctrl-E'', ''goLineEnd''),
     (''Ctrl-V'', ''goPageUp''), (''Shift-Ctrl-V'', ''goPageDown''), (''Ctrl-D'', ''delCharRight''), (''Ctrl-H'', ''delCharLeft''),
     (''Alt-D'', ''delWordRight''), (''Alt-Backspace'', ''delWordLeft''), (''Ctrl-K'', ''killLine''), (''Ctrl-T'', ''transposeChars'')] None"

definition keyMap :: "bool \<Rightarrow> (jstring \<times> key_map) list" where
  "keyMap mac = [(''basic'', map_basic), (''pcDefault'', map_pcDefault), (''macDefault'', map_macDefault),
     (''default'', if mac then map_macDefault else map_pcDefault), (''emacsy'', map_emacsy)]"

text \<open>\<open>getKeyMap(val)\<close>: \<open>None\<close> for a name that is not defined.\<close>

fun getKeyMap :: "(jstring \<times> key_map) list \<Rightarrow> map_ref \<Rightarrow> key_map option" where
  "getKeyMap tbl (Named n) = map_of tbl n"
| "getKeyMap tbl (Direct m) = Some m"

text \<open>
  \<open>lookup(map)\<close>: whether the key is handled, whether \<open>stop\<close> was called, and the state of the handler.
  Fall-through may be cyclic, hence the fuel; \<open>None\<close> also stands for an undefined map and for an
  exception in the handler.
\<close>

fun lookup :: "nat \<Rightarrow> (jstring \<times> key_map) list \<Rightarrow> jstring \<Rightarrow> (bound \<Rightarrow> 'st \<Rightarrow> (bool \<times> 'st) option) \<Rightarrow>
    map_ref \<Rightarrow> 'st \<Rightarrow> (bool \<times> bool \<times> 'st) option"
and lookups :: "nat \<Rightarrow> (jstring \<times> key_map) list \<Rightarrow> jstring \<Rightarrow> (bound \<Rightarrow> 'st \<Rightarrow> (bool \<times> 'st) option) \<Rightarrow>
    map_ref list \<Rightarrow> 'st \<Rightarrow> (bool \<times> bool \<times> 'st) option" where
  "lookup 0 tbl name handle r st = None"
| "lookup (Suc k) tbl name handle r st = do {
     m \<leftarrow> getKeyMap tbl r;
     (case map_of (bindings m) name of
        Some Off \<Rightarrow> Some (True, True, st)
      | found \<Rightarrow> do {
          (ok, st1) \<leftarrow> (case found of Some b \<Rightarrow> handle b st | None \<Rightarrow> Some (False, st));
          if ok then Some (True, False, st1)
          else if nofallthrough m then Some (True, True, st1)
          else case fallthrough m of None \<Rightarrow> Some (False, False, st1)
               | Some rs \<Rightarrow> lookups k tbl name handle rs st1 }) }"
| "lookups k tbl name handle [] st = Some (False, False, st)"
| "lookups k tbl name handle (r # rs) st = do {
     (ok, stopped, st1) \<leftarrow> lookup k tbl name handle r st;
     if ok then Some (True, stopped, st1) else lookups k tbl name handle rs st1 }"

definition lookupKey :: "nat \<Rightarrow> (jstring \<times> key_map) list \<Rightarrow> jstring \<Rightarrow> map_ref option \<Rightarrow> map_ref \<Rightarrow>
    (bound \<Rightarrow> 'st \<Rightarrow> (bool \<times> 'st) option) \<Rightarrow> 'st \<Rightarrow> (bool \<times> bool \<times> 'st) option" where
  "lookupKey fuel tbl name extraMap km handle st =
     (case extraMap of
        None \<Rightarrow> lookup fuel tbl name handle km st
      | Some x \<Rightarrow> do {
          (ok, stopped, st1) \<leftarrow> lookup fuel tbl name handle x st;
          if ok then Some (True, stopped, st1) else lookup fuel tbl name handle km st1 })"

subsection \<open>Key events\<close>

definition keyNames :: "nat \<Rightarrow> jstring option" where
  "keyNames n =
     (if 48 \<le> n \<and> n < 58 then Some [char_of n]
      else if 65 \<le> n \<and> n \<le> 90 then Some [char_of n]
      else if 112 \<le> n \<and> n \<le> 123 then Some (CHR ''F'' # nat_digits (n - 111))
      else if 63236 \<le> n \<and> n \<le> 63247 then Some (CHR ''F'' # nat_digits (n - 63235))
      else map_of [
        (3, ''Enter''), (8, ''Backspace''), (9, ''Tab''), (13, ''Enter''), (16, ''Shift''), (17, ''Ctrl''), (18, ''Alt''),
        (19, ''Pause''), (20, ''CapsLock''), (27, ''Esc''), (32, ''Space''), (33, ''PageUp''), (34, ''PageDown''), (35, ''End''),
        (36, ''Home''), (37, ''Left''), (38, ''Up''), (39, ''Right''), (40, ''Down''), (44, ''PrintScrn''), (45, ''Insert''),
        (46, ''Delete''), (59, '';''), (91, ''Mod''), (92, ''Mod''), (93, ''Mod''), (109, ''-''), (107, ''=''), (127, ''Delete''),
        (186, '';''), (187, ''=''), (188, '',''), (189, ''-''), (190, ''.''), (191, ''/''), (192, [CHR 0x60]), (219, ''[''),
        (220, [CHR 0x5C]), (221, '']''), (222, [CHR 0x27]), (63276, ''PageUp''), (63277, ''PageDown''), (63275, ''End''),
        (63273, ''Home''), (63234, ''Left''), (63232, ''Up''), (63235, ''Right''), (63233, ''Down''), (63302, ''Insert''),
        (63272, ''Delete'')] n)"

record key_event =
  keyCode :: nat
  altKey :: bool
  ctrlKey :: bool
  metaKey :: bool
  shiftKey :: bool
  altGraphKey :: bool

definition isModifierKey :: "key_event \<Rightarrow> bool" where
  "isModifierKey e \<longleftrightarrow> keyNames (keyCode e) \<in> {Some ''Ctrl'', Some ''Alt'', Some ''Shift'', Some ''Mod''}"

text \<open>The name of a key with its modifiers, \<open>Shift\<close> apart.\<close>

definition key_name :: "bool \<Rightarrow> key_event \<Rightarrow> jstring option" where
  "key_name flipCtrlCmd e =
     (if altGraphKey e then None
      else map_option (\<lambda>n.
        (if (if flipCtrlCmd then ctrlKey e else metaKey e) then ''Cmd-'' else []) @
        (if (if flipCtrlCmd then metaKey e else ctrlKey e) then ''Ctrl-'' else []) @
        (if altKey e then ''Alt-'' else []) @ n) (keyNames (keyCode e)))"

text \<open>
  \<open>doHandleBinding\<close>; \<open>funcs\<close> are the functions that a key map may bind, \<open>cmds\<close> the commands.  Whatever
  the bound function does, the selection anchor is put back and edits are allowed again.
\<close>

definition run_bound ::
    "bool \<Rightarrow> (('g, 's) ui \<Rightarrow> (('g, 's) ui \<times> bool) option) \<Rightarrow> ('g, 's) ui \<Rightarrow> (bool \<times> ('g, 's) ui) option" where
  "run_bound dropShift f st = (case st of (ed, vw) \<Rightarrow>
     (let ed1 = (if readOnly (options ed) \<noteq> Editable then ed\<lparr>suppressEdits := True\<rparr> else ed);
          ed2 = (if dropShift then ed1\<lparr>shiftSelecting := None\<rparr> else ed1)
      in map_option (\<lambda>((ed3, vw1), passed).
           (\<not> passed, (ed3\<lparr>shiftSelecting := shiftSelecting ed, suppressEdits := False\<rparr>, vw1))) (f (ed2, vw))))"

definition doHandleBinding ::
    "(jstring \<times> ('g, 's) command) list \<Rightarrow> (nat \<Rightarrow> ('g, 's) ui \<Rightarrow> (('g, 's) ui \<times> bool) option) \<Rightarrow> bool \<Rightarrow>
     bound \<Rightarrow> ('g, 's) ui \<Rightarrow> (bool \<times> ('g, 's) ui) option" where
  "doHandleBinding cmds funcs dropShift b st =
     (case b of
        Off \<Rightarrow> Some (False, st)
      | Func k \<Rightarrow> run_bound dropShift (funcs k) st
      | Command c \<Rightarrow>
          (case map_of cmds c of
             None \<Rightarrow> Some (False, st)
           | Some f \<Rightarrow> run_bound dropShift (\<lambda>s. map_option (\<lambda>s1. (s1, False)) (f s)) st))"

text \<open>\<open>/^go[A-Z]/.test(b)\<close>.\<close>

definition is_go :: "bound \<Rightarrow> bool" where
  "is_go b = (case b of Command (g # oo # c # rest) \<Rightarrow> g = CHR ''g'' \<and> oo = CHR ''o'' \<and> is_upper c | _ \<Rightarrow> False)"

text \<open>
  \<open>handleKeyBinding\<close> behind the automatic change of key map: whether the event was handled, and the state.
\<close>

definition handleKeyBinding ::
    "nat \<Rightarrow> (jstring \<times> key_map) list \<Rightarrow> map_ref option \<Rightarrow> map_ref \<Rightarrow> (jstring \<times> ('g, 's) command) list \<Rightarrow>
     (nat \<Rightarrow> ('g, 's) ui \<Rightarrow> (('g, 's) ui \<times> bool) option) \<Rightarrow> bool \<Rightarrow> key_event \<Rightarrow> ('g, 's) ui \<Rightarrow> (bool \<times> ('g, 's) ui) option" where
  "handleKeyBinding fuel tbl extra km cmds funcs flip e st =
     (case key_name flip e of
        None \<Rightarrow> Some (False, st)
      | Some name \<Rightarrow> do {
          (handled, stopped, st1) \<leftarrow>
            (if shiftKey e then do {
               (h1, s1, st1) \<leftarrow> lookupKey fuel tbl (''Shift-'' @ name) extra km (doHandleBinding cmds funcs True) st;
               if h1 then Some (h1, s1, st1)
               else do {
                 (h2, s2, st2) \<leftarrow> lookupKey fuel tbl name extra km
                   (\<lambda>b s. if is_go b then doHandleBinding cmds funcs False b s else Some (False, s)) st1;
                 Some (h2, s1 \<or> s2, st2) } }
             else lookupKey fuel tbl name extra km (doHandleBinding cmds funcs False) st);
          Some (handled \<and> \<not> stopped, st1) })"

definition handleCharBinding ::
    "nat \<Rightarrow> (jstring \<times> key_map) list \<Rightarrow> map_ref option \<Rightarrow> map_ref \<Rightarrow> (jstring \<times> ('g, 's) command) list \<Rightarrow>
     (nat \<Rightarrow> ('g, 's) ui \<Rightarrow> (('g, 's) ui \<times> bool) option) \<Rightarrow> char \<Rightarrow> ('g, 's) ui \<Rightarrow> (bool \<times> ('g, 's) ui) option" where
  "handleCharBinding fuel tbl extra km cmds funcs ch st =
     map_option (\<lambda>(handled, stopped, st1). (handled, st1))
       (lookupKey fuel tbl [CHR 0x27, ch, CHR 0x27] extra km (doHandleBinding cmds funcs True) st)"

end
