(* ===== verification/CM_Keys_Laws.thy ===== *)
theory CM_Keys_Laws
  imports CM_Keys
begin

section \<open>Key look-up as a search through a list of maps\<close>

text \<open>
  The maps that a map falls through to, in the order in which they are tried, form a list unless they
  are cyclic; the look-up is the search for the first map of that list whose binding is accepted.
\<close>

fun chain :: "nat \<Rightarrow> (jstring \<times> key_map) list \<Rightarrow> map_ref \<Rightarrow> key_map list option"
and chains :: "nat \<Rightarrow> (jstring \<times> key_map) list \<Rightarrow> map_ref list \<Rightarrow> key_map list option" where
  "chain 0 tbl r = None"
| "chain (Suc k) tbl r = do {
     m \<leftarrow> getKeyMap tbl r;
     rest \<leftarrow> (case fallthrough m of None \<Rightarrow> Some [] | Some rs \<Rightarrow> chains k tbl rs);
     Some (m # rest) }"
| "chains k tbl [] = Some []"
| "chains k tbl (r # rs) = do { xs \<leftarrow> chain k tbl r; ys \<leftarrow> chains k tbl rs; Some (xs @ ys) }"

fun scan :: "jstring \<Rightarrow> (bound \<Rightarrow> 'st \<Rightarrow> (bool \<times> 'st) option) \<Rightarrow> key_map list \<Rightarrow> 'st \<Rightarrow> (bool \<times> bool \<times> 'st) option" where
  "scan name handle [] st = Some (False, False, st)"
| "scan name handle (m # ms) st =
     (case map_of (bindings m) name of
        Some Off \<Rightarrow> Some (True, True, st)
      | found \<Rightarrow> do {
          (ok, st1) \<leftarrow> (case found of Some b \<Rightarrow> handle b st | None \<Rightarrow> Some (False, st));
          if ok then Some (True, False, st1)
          else if nofallthrough m then Some (True, True, st1) else scan name handle ms st1 })"

lemma scan_append:
  "scan name handle (xs @ ys) st =
     do { (ok, stopped, st1) \<leftarrow> scan name handle xs st;
          if ok then Some (True, stopped, st1) else scan name handle ys st1 }"
proof (induction xs arbitrary: st)
  case (Cons m xs)
  show ?case
  proof (cases "map_of (bindings m) name")
    case None
    with Cons show ?thesis by simp
  next
    case (Some b)
    with Cons show ?thesis by (cases b; cases "handle b st") (auto split: prod.splits)
  qed
qed simp

lemma lookup_scan:
  "chain k tbl r = Some ms \<Longrightarrow> lookup k tbl name handle r st = scan name handle ms st"
  "chains k tbl rs = Some ms \<Longrightarrow> lookups k tbl name handle rs st = scan name handle ms st"
proof (induction k tbl r and k tbl rs arbitrary: ms st and ms st rule: chain_chains.induct)
  case (2 k tbl r)
  from "2.prems" obtain m rest where m: "getKeyMap tbl r = Some m" "ms = m # rest"
    "(case fallthrough m of None \<Rightarrow> Some [] | Some rs \<Rightarrow> chains k tbl rs) = Some rest"
    by (auto split: bind_splits)
  have ft: "(case fallthrough m of None \<Rightarrow> Some (False, False, s) | Some rs \<Rightarrow> lookups k tbl name handle rs s) =
      scan name handle rest s" for s
    using m(3) "2.IH" [OF m(1)] by (cases "fallthrough m") auto
  show ?case
  proof (cases "map_of (bindings m) name")
    case None
    with m(1,2) ft show ?thesis by simp
  next
    case (Some b)
    with m(1,2) ft show ?thesis by (cases b; cases "handle b st") (auto split: prod.splits)
  qed
next
  case (4 k tbl r rs)
  then show ?case by (auto simp: scan_append split: bind_splits)
qed simp_all

lemma default_chain:
  "chain 3 (keyMap mac) (Named ''default'') =
     Some (if mac then [map_macDefault, map_basic, map_emacsy] else [map_pcDefault, map_basic])"
  by (cases mac) (simp_all add: keyMap_def numeral_eq_Suc bind_all_def map_pcDefault_def map_macDefault_def map_basic_def map_emacsy_def)

text \<open>
  A key is looked up in the extra map and the maps it falls through to, then in the map of the editor and those it falls
  through to: the first binding that its handler accepts wins, \<open>false\<close> and a map without fall-through end
  the search, and the search returns whenever no handler throws.
\<close>

lemma key_lookup:
  assumes "chain fuel tbl km = Some ms"
    and "(case extra of None \<Rightarrow> Some [] | Some x \<Rightarrow> chain fuel tbl x) = Some xs"
  shows "lookupKey fuel tbl name extra km handle st = scan name handle (xs @ ms) st"
proof -
  have k: "lookup fuel tbl name handle km = scan name handle ms"
    by (rule ext) (rule lookup_scan(1) [OF assms(1)])
  show ?thesis
    using assms(2) unfolding lookupKey_def k by (cases extra) (auto simp: lookup_scan scan_append)
qed

subsection \<open>What a bound function cannot leave behind\<close>

lemma run_bound_restores:
  "run_bound dropShift f (ed, vw) = Some (ok, (ed1, vw1)) \<Longrightarrow>
     shiftSelecting ed1 = shiftSelecting ed \<and> \<not> suppressEdits ed1"
  by (auto simp: run_bound_def Let_def)

text \<open>Every command of the tables that the editor defines itself, and the ones it leaves to add-ons.\<close>

definition addons :: "jstring list" where
  "addons = [''save'', ''find'', ''findNext'', ''findPrev'', ''replace'', ''replaceAll'']"

definition command_names :: "jstring list" where
  "command_names = [''selectAll'', ''killLine'', ''deleteLine'', ''undo'', ''redo'', ''goDocStart'', ''goDocEnd'',
     ''goLineStart'', ''goLineStartSmart'', ''goLineEnd'', ''goLineUp'', ''goLineDown'', ''goPageUp'', ''goPageDown'',
     ''goCharLeft'', ''goCharRight'', ''goColumnLeft'', ''goColumnRight'', ''goWordLeft'', ''goWordRight'',
     ''delCharLeft'', ''delCharRight'', ''delWordLeft'', ''delWordRight'', ''indentAuto'', ''indentMore'', ''indentLess'',
     ''insertTab'', ''defaultTab'', ''transposeChars'', ''newlineAndIndent'', ''toggleOverwrite'']"

lemma command_names: "map fst (commands ms) = command_names"
  by (simp add: commands_def command_names_def)

fun bound_to :: "jstring list \<Rightarrow> bound \<Rightarrow> bool" where
  "bound_to names (Command c) = (c \<in> set names)"
| "bound_to names b = False"

lemma tables_bound:
  "\<forall>mac \<in> set [True, False]. \<forall>m \<in> set (map snd (keyMap mac)). \<forall>kb \<in> set (bindings m).
     bound_to (command_names @ addons) (snd kb)"
  by code_simp

text \<open>
  C21: Every binding of the key maps names a command of the command table or one of the six that add-ons define.
\<close>

theorem bindings_defined:
  "m \<in> set (map snd (keyMap mac)) \<Longrightarrow> (k, b) \<in> set (bindings m) \<Longrightarrow>
     \<exists>c. b = Command c \<and> (c \<in> set (map fst (commands ms)) \<or>
       c \<in> {''save'', ''find'', ''findNext'', ''findPrev'', ''replace'', ''replaceAll''})"
proof -
  assume m: "m \<in> set (map snd (keyMap mac))" "(k, b) \<in> set (bindings m)"
  have "mac \<in> set [True, False]" by simp
  with m tables_bound have "bound_to (command_names @ addons) b" by fastforce
  then show ?thesis unfolding command_names by (cases b) (auto simp: addons_def)
qed

theorem bindings_defined_witness:
  "\<exists>c. Command ''undo'' = Command c \<and>
     (c \<in> set (map fst (commands (\<lambda>l k. (0, k)) :: (jstring \<times> (sparql_env, sparql_state) command) list)) \<or>
       c \<in> {''save'', ''find'', ''findNext'', ''findPrev'', ''replace'', ''replaceAll''})"
  by (rule bindings_defined [of map_pcDefault False "''Ctrl-Z''"])
    (simp_all add: keyMap_def map_pcDefault_def bind_all_def)

end
