(* ===== verification/CM_Marking.thy ===== *)
theory CM_Marking
  imports CM_Demo
begin

section \<open>Marks, gutter markers and line classes\<close>

text \<open>
  \<open>TextMarker\<close> with \<open>clear\<close> and \<open>find\<close>, \<open>markText\<close>, \<open>setBookmark\<close>, \<open>findMarksAt\<close>, the gutter markers,
  \<open>changeLine\<close>, \<open>setLineClass\<close>, \<open>lineInfo\<close>, \<open>wrappingChanged\<close> and \<open>matchBrackets\<close> of \<open>codemirror.js\<close>.  A marker is a
  number, its fields are in the store \<open>markers\<close> of the editor; a line object is named by its identity.
  \<open>None\<close> is a \<open>TypeError\<close>.
\<close>

subsection \<open>Text markers\<close>

definition new_marker :: "marker_type \<Rightarrow> jstring option \<Rightarrow> marker" where
  "new_marker t style = \<lparr>mlines = [], mtype = t, mstyle = (if style = Some [] then None else style),
     inclusiveLeft = False, inclusiveRight = False, startStyle = None, endStyle = None\<rparr>"

text \<open>The options of \<open>markText\<close> that the code reads; each is a property copied to the marker.\<close>

datatype mark_option = InclusiveLeft bool | InclusiveRight bool | StartStyle jstring | EndStyle jstring

fun set_option :: "mark_option \<Rightarrow> marker \<Rightarrow> marker" where
  "set_option (InclusiveLeft b) m = m\<lparr>inclusiveLeft := b\<rparr>"
| "set_option (InclusiveRight b) m = m\<lparr>inclusiveRight := b\<rparr>"
| "set_option (StartStyle s) m = m\<lparr>startStyle := Some s\<rparr>"
| "set_option (EndStyle s) m = m\<lparr>endStyle := Some s\<rparr>"

definition span_list :: "span list option \<Rightarrow> span list" where
  "span_list ss = (case ss of None \<Rightarrow> [] | Some xs \<Rightarrow> xs)"

text \<open>\<open>(line.markedSpans || (line.markedSpans = [])).push(span); marker.lines.push(line)\<close>.\<close>

definition push_span :: "nat \<Rightarrow> span \<Rightarrow> ('g, 's) editor \<Rightarrow> ('g, 's) editor" where
  "push_span k sp ed =
     (case getLineAt (doc ed) k of
        None \<Rightarrow> ed
      | Some l \<Rightarrow> ed\<lparr>doc := map_line k (\<lambda>l. l\<lparr>markedSpans := Some (span_list (markedSpans l) @ [sp])\<rparr>) (doc ed),
          markers := (markers ed)(smarker sp := (markers ed (smarker sp))\<lparr>mlines := mlines (markers ed (smarker sp)) @ [lid l]\<rparr>)\<rparr>)"

definition add_marker :: "marker \<Rightarrow> ('g, 's) editor \<Rightarrow> nat \<times> ('g, 's) editor" where
  "add_marker m ed = (next_marker ed, ed\<lparr>next_marker := next_marker ed + 1, markers := (markers ed)(next_marker ed := m)\<rparr>)"

text \<open>The span that \<open>markText\<close> puts on line \<open>k\<close>.\<close>

definition mark_span :: "pos \<Rightarrow> pos \<Rightarrow> nat \<Rightarrow> nat \<Rightarrow> span" where
  "mark_span from to m k =
     \<lparr>sfrom = (if int k = pline from then Some (pch from) else None),
      sto = (if int k = pline to then Some (pch to) else None), smarker = m\<rparr>"

definition markText :: "pos \<Rightarrow> pos \<Rightarrow> jstring option \<Rightarrow> mark_option list \<Rightarrow> ('g, 's) editor \<Rightarrow> (nat \<times> ('g, 's) editor) option" where
  "markText from0 to0 className opts ed = do {
     from \<leftarrow> clip ed from0;
     to \<leftarrow> clip ed to0;
     let (m, ed1) = add_marker (fold set_option opts (new_marker Range className)) ed;
     let ed2 = fold (\<lambda>k. push_span k (mark_span from to m k)) [nat (pline from) ..< nat (pline to + 1)] ed1;
     Some (m, push_change (pline from) (pline to + 1) 0 ed2) }"

definition setBookmark :: "pos \<Rightarrow> ('g, 's) editor \<Rightarrow> (nat \<times> ('g, 's) editor) option" where
  "setBookmark p0 ed = do {
     p \<leftarrow> clip ed p0;
     let (m, ed1) = add_marker (new_marker Bookmark None) ed;
     l \<leftarrow> getLine ed1 (pline p);
     Some (m, push_span (nat (pline p)) \<lparr>sfrom = Some (pch p), sto = Some (pch p), smarker = m\<rparr> ed1) }"

text \<open>Mutation of a line object, in the document or removed from it.\<close>

definition map_ident :: "nat \<Rightarrow> ('s line \<Rightarrow> 's line) \<Rightarrow> ('g, 's) editor \<Rightarrow> ('g, 's) editor" where
  "map_ident i f ed =
     (case lineNo i (doc ed) of
        Some n \<Rightarrow> ed\<lparr>doc := map_line n f (doc ed)\<rparr>
      | None \<Rightarrow> ed\<lparr>gone := map (\<lambda>l. if lid l = i then f l else l) (gone ed)\<rparr>)"

text \<open>
  One round of the loop of \<open>clear\<close>; the second component is \<open>min\<close> and \<open>max\<close>.  A line without a number
  counts as 0, as \<open>null\<close> does in \<open>Math.min\<close>.
\<close>

definition clear_line :: "nat \<Rightarrow> nat \<Rightarrow> ('g, 's) editor \<times> (int \<times> int) option \<Rightarrow> (('g, 's) editor \<times> (int \<times> int) option) option" where
  "clear_line m i st = (case st of (ed, r) \<Rightarrow> do {
     l \<leftarrow> line_obj ed i;
     sp \<leftarrow> spanFor (markedSpans l) m;
     let ed1 = map_ident i (\<lambda>l. l\<lparr>markedSpans := map_option (\<lambda>ss. delMarkedSpanFor ss m) (markedSpans l)\<rparr>) ed;
     let n = (case lineNo i (doc ed) of Some n \<Rightarrow> int n | None \<Rightarrow> 0);
     Some (ed1, if sfrom sp \<noteq> None \<or> sto sp \<noteq> None
                then Some (case r of None \<Rightarrow> (n, n) | Some (a, b) \<Rightarrow> (min a n, max b n)) else r) })"

fun clear_lines :: "nat \<Rightarrow> nat list \<Rightarrow> ('g, 's) editor \<times> (int \<times> int) option \<Rightarrow> (('g, 's) editor \<times> (int \<times> int) option) option" where
  "clear_lines m [] st = Some st"
| "clear_lines m (i # is) st = do { st1 \<leftarrow> clear_line m i st; clear_lines m is st1 }"

definition clear_mark :: "nat \<Rightarrow> ('g, 's) editor \<Rightarrow> ('g, 's) editor option" where
  "clear_mark m ed = do {
     (ed1, r) \<leftarrow> clear_lines m (mlines (markers ed m)) (ed, None);
     let ed2 = (case r of None \<Rightarrow> ed1 | Some (a, b) \<Rightarrow> push_change a (b + 1) 0 ed1);
     Some (ed2\<lparr>markers := (markers ed2)(m := (markers ed2 m)\<lparr>mlines := []\<rparr>)\<rparr>) }"

text \<open>\<open>find\<close>: nothing, a position, or the two ends of a range, the second of which may be missing.\<close>

datatype mark_pos = NoMark | AtPos pos | InRange pos "pos option"

fun find_lines :: "nat \<Rightarrow> ('g, 's) editor \<Rightarrow> nat list \<Rightarrow> pos option \<times> pos option \<Rightarrow> (pos option \<times> pos option) option" where
  "find_lines m ed [] r = Some r"
| "find_lines m ed (i # is) (f, t) = do {
     l \<leftarrow> line_obj ed i;
     sp \<leftarrow> spanFor (markedSpans l) m;
     if sfrom sp = None \<and> sto sp = None then find_lines m ed is (f, t)
     else do {
       n \<leftarrow> lineNo i (doc ed);
       find_lines m ed is
         (case sfrom sp of Some c \<Rightarrow> Some (Pos (int n) c) | None \<Rightarrow> f,
          case sto sp of Some c \<Rightarrow> Some (Pos (int n) c) | None \<Rightarrow> t) } }"

definition find_mark :: "nat \<Rightarrow> ('g, 's) editor \<Rightarrow> mark_pos option" where
  "find_mark m ed = map_option (\<lambda>(f, t).
       case f of None \<Rightarrow> NoMark
       | Some p \<Rightarrow> if mtype (markers ed m) = Bookmark then AtPos p else InRange p t)
     (find_lines m ed (mlines (markers ed m)) (None, None))"

definition findMarksAt :: "pos \<Rightarrow> ('g, 's) editor \<Rightarrow> nat list option" where
  "findMarksAt p0 ed = do {
     p \<leftarrow> clip ed p0;
     l \<leftarrow> getLine ed (pline p);
     Some (map smarker (filter (\<lambda>s. (case sfrom s of None \<Rightarrow> True | Some f \<Rightarrow> f \<le> pch p) \<and>
                                    (case sto s of None \<Rightarrow> True | Some t \<Rightarrow> t \<ge> pch p)) (span_list (markedSpans l)))) }"


subsection \<open>Properties of a line\<close>

text \<open>A line is given by its number or as the object.\<close>

datatype handle = ByNumber int | ByLine nat

definition handle_line :: "handle \<Rightarrow> ('g, 's) editor \<Rightarrow> nat option" where
  "handle_line h ed = (case h of ByNumber n \<Rightarrow> map_option lid (getLine ed (clipLine ed n)) | ByLine i \<Rightarrow> Some i)"

definition addGutterMarker :: "handle \<Rightarrow> jstring option \<Rightarrow> jstring option \<Rightarrow> ('g, 's) editor \<Rightarrow> (nat \<times> ('g, 's) editor) option" where
  "addGutterMarker h t className ed = do {
     i \<leftarrow> handle_line h ed;
     Some (i, (map_ident i (\<lambda>l. l\<lparr>gutterMarker := Some (t, className)\<rparr>) ed)\<lparr>gutterDirty := True\<rparr>) }"

definition removeGutterMarker :: "handle \<Rightarrow> ('g, 's) editor \<Rightarrow> ('g, 's) editor option" where
  "removeGutterMarker h ed = do {
     i \<leftarrow> handle_line h ed;
     Some ((map_ident i (\<lambda>l. l\<lparr>gutterMarker := None\<rparr>) ed)\<lparr>gutterDirty := True\<rparr>) }"

text \<open>\<open>changeLine(handle, op)\<close>: the line that was changed, or \<open>null\<close>.\<close>

definition changeLine ::
    "handle \<Rightarrow> ('s line \<Rightarrow> int \<Rightarrow> ('g, 's) editor \<Rightarrow> (('g, 's) editor \<times> bool) option) \<Rightarrow> ('g, 's) editor \<Rightarrow>
     (('g, 's) editor \<times> nat option) option" where
  "changeLine h op ed = do {
     i \<leftarrow> handle_line h ed;
     (case (case h of ByNumber n \<Rightarrow> Some n | ByLine i \<Rightarrow> map_option int (lineNo i (doc ed))) of
        None \<Rightarrow> Some (ed, None)
      | Some no \<Rightarrow> do {
          l \<leftarrow> line_obj ed i;
          (ed1, changed) \<leftarrow> op l no ed;
          Some (if changed then (push_change no (no + 1) 0 ed1, Some i) else (ed1, None)) }) }"

definition setLineClass :: "handle \<Rightarrow> jstring option \<Rightarrow> jstring option \<Rightarrow> ('g, 's) editor \<Rightarrow> (('g, 's) editor \<times> nat option) option" where
  "setLineClass h className bgClassName = changeLine h (\<lambda>l no ed.
     Some (if lclass l \<noteq> className \<or> lbgclass l \<noteq> bgClassName
           then (map_ident (lid l) (\<lambda>l. l\<lparr>lclass := className, lbgclass := bgClassName\<rparr>) ed, True) else (ed, False)))"

record line_info =
  info_line :: int
  info_handle :: nat
  info_text :: jstring
  markerText :: "jstring option"
  markerClass :: "jstring option"
  lineClass :: "jstring option"
  bgClass :: "jstring option"

definition lineInfo :: "handle \<Rightarrow> ('g, 's) editor \<Rightarrow> line_info option" where
  "lineInfo h ed = do {
     n \<leftarrow> (case h of ByNumber n \<Rightarrow> if isLine ed n then Some n else None | ByLine i \<Rightarrow> map_option int (lineNo i (doc ed)));
     l \<leftarrow> getLine ed n;
     Some \<lparr>info_line = n, info_handle = lid l, info_text = ltext l, markerText = Option.bind (gutterMarker l) fst,
       markerClass = Option.bind (gutterMarker l) snd, lineClass = lclass l, bgClass = lbgclass l\<rparr> }"

subsection \<open>Line wrapping switched on or off\<close>

definition wrap_line :: "rat \<Rightarrow> nat \<Rightarrow> ('g, 's) editor \<Rightarrow> ('g, 's) editor" where
  "wrap_line perLine k ed =
     (case getLine ed (int k) of
        None \<Rightarrow> ed
      | Some l \<Rightarrow> if lhidden l then ed
          else let guess = wrap_guess perLine (length (ltext l)) in if guess \<noteq> 1 then set_height k guess ed else ed)"

definition unwrap_line :: "nat \<Rightarrow> ('g, 's) editor \<Rightarrow> ('g, 's) editor" where
  "unwrap_line k ed =
     (case getLine ed (int k) of
        None \<Rightarrow> ed
      | Some l \<Rightarrow> if lheight l \<noteq> 1 \<and> \<not> lhidden l then set_height k 1 ed else ed)"

definition wrappingChanged :: "('g, 's) editor \<Rightarrow> ('g, 's) editor option" where
  "wrappingChanged ed = do {
     ed1 \<leftarrow> (if lineWrapping (options ed)
             then Some (fold (wrap_line (per_line (screen ed))) [0 ..< chunkSize (doc ed)] ed)
             else map_option (fold unwrap_line [0 ..< chunkSize (doc ed)]) (computeMaxLength ed));
     Some (push_change 0 (doc_size ed1) 0 ed1) }"

subsection \<open>Matching brackets\<close>

definition matching :: "char \<Rightarrow> (char \<times> bool) option" where
  "matching c = map_of [(CHR ''('', (CHR '')'', True)), (CHR '')'', (CHR ''('', False)), (CHR ''['', (CHR '']'', True)),
     (CHR '']'', (CHR ''['', False)), (CHR ''{'', (CHR ''}'', True)), (CHR ''}'', (CHR ''{'', False))] c"

text \<open>The style of the fragment that the bracket at \<open>off - 1\<close> is in; the inner \<open>None\<close> is no style.\<close>

fun style_at :: "int \<Rightarrow> styles \<Rightarrow> jstring option" where
  "style_at off [] = None"
| "style_at off ((t, s) # st) = (if off - int (length t) \<le> 0 then s else style_at (off - int (length t)) st)"

text \<open>
  \<open>scan\<close> over the characters of one line in its direction, each with its column and the style of its
  fragment; the stack holds the open brackets, its head is the top.  \<open>Inl\<close> is the place that was
  found and whether it matches, \<open>Inr\<close> the stack for the next line.
\<close>

fun styled_chars :: "int \<Rightarrow> styles \<Rightarrow> (int \<times> char \<times> jstring option) list" where
  "styled_chars p [] = []"
| "styled_chars p ((t, s) # st) =
     map (\<lambda>(k, c). (p + int k, c, s)) (zip [0 ..< length t] t) @ styled_chars (p + int (length t)) st"

fun scan_chars :: "bool \<Rightarrow> jstring option \<Rightarrow> int \<Rightarrow> int \<Rightarrow> (int \<times> char \<times> jstring option) list \<Rightarrow> char list \<Rightarrow>
    int \<times> bool + char list" where
  "scan_chars forward style from to [] stack = Inr stack"
| "scan_chars forward style from to ((p, c, s) # cs) stack =
     (if s = style \<and> p \<ge> from \<and> p < to then
        (case matching c of
           None \<Rightarrow> scan_chars forward style from to cs stack
         | Some (partner, opens) \<Rightarrow>
             if opens = forward then scan_chars forward style from to cs (c # stack)
             else (case stack of
                 [] \<Rightarrow> Inl (p, False)
               | opener # others \<Rightarrow>
                   if opener \<noteq> partner then Inl (p, False)
                   else if others = [] then Inl (p, True)
                   else scan_chars forward style from to cs others))
      else scan_chars forward style from to cs stack)"


definition scan_line :: "bool \<Rightarrow> jstring option \<Rightarrow> int \<Rightarrow> int \<Rightarrow> 's line \<Rightarrow> char list \<Rightarrow> (int \<times> bool + char list) option" where
  "scan_line forward style from to l stack =
     (if ltext l = [] then Some (Inr stack)
      else do {
        st \<leftarrow> lstyles l;
        let first = (if forward then 0 else int (length (ltext l)) - int (length (concat (map fst st))));
        let cs = styled_chars first st;
        Some (scan_chars forward style from to (if forward then cs else rev cs) stack) })"

text \<open>The loop over the lines; the result is a line, a column and whether the bracket matches.\<close>

fun scan_lines :: "('g, 's) editor \<Rightarrow> bool \<Rightarrow> jstring option \<Rightarrow> pos \<Rightarrow> int list \<Rightarrow> char list \<Rightarrow> (int \<times> int \<times> bool) option option" where
  "scan_lines ed forward style p [] stack = Some None"
| "scan_lines ed forward style p (i # is) stack = do {
     l \<leftarrow> getLine ed i;
     found \<leftarrow> scan_line forward style (if i = pline p \<and> forward then pch p + 1 else 0)
       (if i = pline p \<and> \<not> forward then pch p else int (length (ltext l))) l stack;
     (case found of Inl (q, ok) \<Rightarrow> Some (Some (i, q, ok)) | Inr stack1 \<Rightarrow> scan_lines ed forward style p is stack1) }"

text \<open>
  \<open>matchBrackets(autoclear)\<close>: the new state and the marks that the closure \<open>clear\<close> clears.
\<close>

definition matchBrackets :: "bool \<Rightarrow> ('g, 's) editor \<Rightarrow> (('g, 's) editor \<times> nat list) option" where
  "matchBrackets autoclear ed = do {
     let head = (if sel_inverted ed then sel_from ed else sel_to ed);
     l \<leftarrow> getLine ed (pline head);
     let bracket = (\<lambda>k. if k < 0 then None else Option.bind (charAt (ltext l) k) matching);
     let p = (if bracket (pch head - 1) \<noteq> None then pch head - 1 else pch head);
     (case bracket p of
        None \<Rightarrow> Some (ed, [])
      | Some (partner, forward) \<Rightarrow> do {
          st \<leftarrow> lstyles l;
          c \<leftarrow> charAt (ltext l) p;
          let is = (if forward then [pline head..min (pline head + 100) (doc_size ed) - 1]
                    else rev [max (- 1) (pline head - 100) + 1..pline head]);
          found \<leftarrow> scan_lines ed forward (style_at (p + 1) st) (Pos (pline head) p) is [c];
          let className = (case found of Some (i, q, True) \<Rightarrow> ''CodeMirror-matchingbracket'' | _ \<Rightarrow> ''CodeMirror-nonmatchingbracket'');
          (one, ed1) \<leftarrow> markText (Pos (pline head) p) (Pos (pline head) (p + 1)) (Some className) [] ed;
          (ms, ed2) \<leftarrow> (case found of
              None \<Rightarrow> Some ([one], ed1)
            | Some (i, q, ok) \<Rightarrow> map_option (\<lambda>(two, e). ([one, two], e)) (markText (Pos i q) (Pos i (q + 1)) (Some className) [] ed1));
          Some (if autoclear then ed2 else ed2\<lparr>bracketHighlighted := Some ms\<rparr>, ms) }) }"

fun clear_marks :: "nat list \<Rightarrow> ('g, 's) editor \<Rightarrow> ('g, 's) editor option" where
  "clear_marks [] ed = Some ed"
| "clear_marks (m # ms) ed = do { ed1 \<leftarrow> clear_mark m ed; clear_marks ms ed1 }"

end
