(* ===== verification/CM_Marking_Laws.thy ===== *)
theory CM_Marking_Laws
  imports CM_Marking
begin

section \<open>A mark is found where it was put, and clearing it leaves no trace\<close>

text \<open>
  \<open>markText\<close> appends a span to each line of a stretch, \<open>find\<close> reads them and \<open>clear\<close> takes them away.  The
  loops of all three are updates of a stretch of the list of lines (\<open>upd_range\<close>).
\<close>

definition upd_range :: "nat \<Rightarrow> nat \<Rightarrow> (nat \<Rightarrow> 'a \<Rightarrow> 'a) \<Rightarrow> 'a list \<Rightarrow> 'a list" where
  "upd_range a b f xs = map (\<lambda>k. if a \<le> k \<and> k < b then f k (xs ! k) else xs ! k) [0 ..< length xs]"

lemma upd_range_simps [simp]:
  "length (upd_range a b f xs) = length xs"
  "k < length xs \<Longrightarrow> upd_range a b f xs ! k = (if a \<le> k \<and> k < b then f k (xs ! k) else xs ! k)"
  by (simp_all add: upd_range_def)

lemma upd_range_empty: "b \<le> a \<Longrightarrow> upd_range a b f xs = xs"
  by (rule nth_equalityI) auto

lemma upd_range_snoc: "a \<le> b \<Longrightarrow> b < length xs \<Longrightarrow> upd_range a (Suc b) f xs = (upd_range a b f xs)[b := f b (xs ! b)]"
  by (rule nth_equalityI) (auto simp: nth_list_update less_Suc_eq)

lemma upd_range_first: "a < b \<Longrightarrow> a < length xs \<Longrightarrow> upd_range (Suc a) b f (xs[a := f a (xs ! a)]) = upd_range a b f xs"
  by (rule nth_equalityI) (auto simp: nth_list_update)

lemma map_upd_range: "(\<And>k x. g (f k x) = g x) \<Longrightarrow> map g (upd_range a b f xs) = map g xs"
  by (rule nth_equalityI) simp_all

subsection \<open>Pushing the spans\<close>

definition add_span :: "span \<Rightarrow> 's line \<Rightarrow> 's line" where
  "add_span sp l = l\<lparr>markedSpans := Some (span_list (markedSpans l) @ [sp])\<rparr>"

lemma add_span_sel [simp]:
  "lid (add_span sp l) = lid l" "ltext (add_span sp l) = ltext l" "lheight (add_span sp l) = lheight l"
  "lhidden (add_span sp l) = lhidden l" "markedSpans (add_span sp l) = Some (span_list (markedSpans l) @ [sp])"
  by (simp_all add: add_span_def)

lemma push_span_lines:
  assumes "doc_ok (doc ed)" "k < length (lines ed)"
  shows "doc_ok (doc (push_span k sp ed))" "lines (push_span k sp ed) = (lines ed)[k := add_span sp (lines ed ! k)]"
    "push_span k sp ed = ed\<lparr>doc := doc (push_span k sp ed), markers := (markers ed)(smarker sp :=
       (markers ed (smarker sp))\<lparr>mlines := mlines (markers ed (smarker sp)) @ [lid (lines ed ! k)]\<rparr>)\<rparr>"
proof -
  have g: "getLineAt (doc ed) k = Some (lines ed ! k)" using assms by (simp add: getLineAt_collapse)
  have f: "(\<lambda>l. l\<lparr>markedSpans := Some (span_list (markedSpans l) @ [sp])\<rparr>) = add_span sp"
    by (rule ext) (simp add: add_span_def)
  show "doc_ok (doc (push_span k sp ed))" "lines (push_span k sp ed) = (lines ed)[k := add_span sp (lines ed ! k)]"
    using assms by (simp_all add: push_span_def g f map_line_ok map_line_collapse)
  show "push_span k sp ed = ed\<lparr>doc := doc (push_span k sp ed), markers := (markers ed)(smarker sp :=
       (markers ed (smarker sp))\<lparr>mlines := mlines (markers ed (smarker sp)) @ [lid (lines ed ! k)]\<rparr>)\<rparr>"
    by (simp add: push_span_def g)
qed

lemma push_spans:
  assumes "doc_ok (doc ed)" "a \<le> b" "b \<le> length (lines ed)" "\<And>k. smarker (sp k) = m"
  shows "\<exists>d. fold (\<lambda>k. push_span k (sp k)) [a ..< b] ed = ed\<lparr>doc := d, markers := (markers ed)(m :=
       (markers ed m)\<lparr>mlines := mlines (markers ed m) @ map (\<lambda>k. lid (lines ed ! k)) [a ..< b]\<rparr>)\<rparr> \<and>
     doc_ok d \<and> collapse d = upd_range a b (\<lambda>k. add_span (sp k)) (lines ed)"
  using assms(2,3)
proof (induction "b - a" arbitrary: b)
  case 0
  then show ?case using assms(1) by (intro exI [of _ "doc ed"]) (simp add: upd_range_empty)
next
  case (Suc n)
  obtain c where c: "b = Suc c" "a \<le> c" "n = c - a" "c < length (lines ed)" using Suc.hyps(2) Suc.prems by (cases b) auto
  let ?mk = "(markers ed)(m := (markers ed m)\<lparr>mlines := mlines (markers ed m) @ map (\<lambda>k. lid (lines ed ! k)) [a ..< c]\<rparr>)"
  obtain d where d: "fold (\<lambda>k. push_span k (sp k)) [a ..< c] ed = ed\<lparr>doc := d, markers := ?mk\<rparr>"
    "doc_ok d" "collapse d = upd_range a c (\<lambda>k. add_span (sp k)) (lines ed)"
    using Suc.hyps(1) [OF c(3) c(2)] c(4) by (meson less_imp_le)
  let ?e = "ed\<lparr>doc := d, markers := ?mk\<rparr>"
  have b: "c < length (lines ?e)" "lines ?e ! c = lines ed ! c" using c d(3) by simp_all
  have dk: "doc_ok (doc ?e)" using d(2) by simp
  note p = push_span_lines [OF dk b(1), of "sp c"]
  have f: "fold (\<lambda>k. push_span k (sp k)) [a ..< b] ed = push_span c (sp c) ?e" using c(1,2) d(1) by simp
  have e: "push_span c (sp c) ?e = ed\<lparr>doc := doc (push_span c (sp c) ?e), markers := (markers ed)(m :=
       (markers ed m)\<lparr>mlines := mlines (markers ed m) @ map (\<lambda>k. lid (lines ed ! k)) [a ..< b]\<rparr>)\<rparr>"
    using c(1,2) by (subst p(3)) (simp add: assms(4) d(3) c(4))
  have l: "lines (push_span c (sp c) ?e) = upd_range a b (\<lambda>k. add_span (sp k)) (lines ed)"
    unfolding p(2) c(1) upd_range_snoc [OF c(2,4)] using d(3) b(2) by simp
  show ?case unfolding f using e p(1) l by (intro exI [of _ "doc (push_span c (sp c) ?e)"]) simp
qed


subsection \<open>Finding and clearing\<close>

lemma getMarkedSpanFor_append:
  "m \<notin> smarker ` set ss \<Longrightarrow> getMarkedSpanFor (ss @ [sp]) m = getMarkedSpanFor [sp] m \<and>
   (smarker sp = m \<longrightarrow> delMarkedSpanFor (ss @ [sp]) m = ss)"
  by (induction ss) auto

lemma line_obj_nth:
  assumes "doc_ok (doc ed)" "distinct (ids ed)" "k < length (lines ed)"
  shows "lineNo (lid (lines ed ! k)) (doc ed) = Some k" "line_obj ed (lid (lines ed ! k)) = Some (lines ed ! k)"
proof -
  show n: "lineNo (lid (lines ed ! k)) (doc ed) = Some k"
    using index_of_distinct [OF assms(2), of k] assms by (simp add: lineNo_collapse)
  show "line_obj ed (lid (lines ed ! k)) = Some (lines ed ! k)"
    using assms by (simp add: line_obj_def n getLineAt_collapse)
qed

text \<open>What \<open>find\<close> has seen after a line with the span \<open>sp\<close>, and what \<open>clear\<close> has.\<close>

definition seen_ends :: "span \<Rightarrow> nat \<Rightarrow> pos option \<times> pos option \<Rightarrow> pos option \<times> pos option" where
  "seen_ends sp k = (\<lambda>(f, t).
     (case sfrom sp of Some c \<Rightarrow> Some (Pos (int k) c) | None \<Rightarrow> f,
      case sto sp of Some c \<Rightarrow> Some (Pos (int k) c) | None \<Rightarrow> t))"

definition seen_range :: "span \<Rightarrow> nat \<Rightarrow> (int \<times> int) option \<Rightarrow> (int \<times> int) option" where
  "seen_range sp k r =
     (if sfrom sp \<noteq> None \<or> sto sp \<noteq> None
      then Some (case r of None \<Rightarrow> (int k, int k) | Some (a, b) \<Rightarrow> (min a (int k), max b (int k))) else r)"

lemma find_lines_stretch:
  assumes "doc_ok (doc ed)" "distinct (ids ed)" "b \<le> length (lines ed)"
    and "\<And>k. a \<le> k \<Longrightarrow> k < b \<Longrightarrow> spanFor (markedSpans (lines ed ! k)) m = Some (sp k)"
  shows "find_lines m ed (map (\<lambda>k. lid (lines ed ! k)) [a ..< b]) ft = Some (fold (\<lambda>k. seen_ends (sp k) k) [a ..< b] ft)"
  using assms(4)
proof (induction "b - a" arbitrary: a ft)
  case (Suc n)
  have a: "a < b" "a < length (lines ed)" using Suc.hyps(2) assms(3) by simp_all
  have IH: "find_lines m ed (map (\<lambda>k. lid (lines ed ! k)) [Suc a ..< b]) ft1 =
      Some (fold (\<lambda>k. seen_ends (sp k) k) [Suc a ..< b] ft1)" for ft1
    using Suc.hyps Suc.prems by (intro Suc.hyps(1)) auto
  note l = line_obj_nth [OF assms(1,2) a(2)]
  have e: "seen_ends (sp a) a ft = ft" if "sfrom (sp a) = None" "sto (sp a) = None"
    using that by (cases ft) (simp add: seen_ends_def)
  show ?case
    using a(1) IH e Suc.prems [of a] by (cases ft) (simp add: upt_rec [of a b] l seen_ends_def)
qed simp

definition del_span :: "nat \<Rightarrow> 's line \<Rightarrow> 's line" where
  "del_span m l = l\<lparr>markedSpans := map_option (\<lambda>ss. delMarkedSpanFor ss m) (markedSpans l)\<rparr>"

lemma del_span_sel [simp]:
  "lid (del_span m l) = lid l" "ltext (del_span m l) = ltext l" "lheight (del_span m l) = lheight l"
  "markedSpans (del_span m l) = map_option (\<lambda>ss. delMarkedSpanFor ss m) (markedSpans l)"
  by (simp_all add: del_span_def)

lemma clear_lines_stretch:
  assumes "doc_ok (doc ed)" "distinct (ids ed)" "b \<le> length (lines ed)"
    and "\<And>k. a \<le> k \<Longrightarrow> k < b \<Longrightarrow> spanFor (markedSpans (lines ed ! k)) m = Some (sp k)"
  shows "\<exists>d. clear_lines m (map (\<lambda>k. lid (lines ed ! k)) [a ..< b]) (ed, r) =
     Some (ed\<lparr>doc := d\<rparr>, fold (\<lambda>k. seen_range (sp k) k) [a ..< b] r) \<and>
     doc_ok d \<and> collapse d = upd_range a b (\<lambda>k. del_span m) (lines ed)"
  using assms
proof (induction "b - a" arbitrary: a ed r)
  case 0
  then show ?case by (intro exI [of _ "doc ed"]) (simp add: upd_range_empty)
next
  case (Suc n)
  have a: "a < b" "a < length (lines ed)" "n = b - Suc a" using Suc.hyps(2) Suc.prems(3) by simp_all
  note l = line_obj_nth [OF Suc.prems(1,2) a(2)]
  let ?d = "map_line a (del_span m) (doc ed)"
  let ?e = "ed\<lparr>doc := ?d\<rparr>"
  have d: "doc_ok ?d" "collapse ?d = (lines ed)[a := del_span m (lines ed ! a)]"
    using Suc.prems(1) a(2) by (simp_all add: map_line_ok map_line_collapse)
  have ids: "map lid (collapse ?d) = ids ed" unfolding d(2) using a(2)
    by (intro nth_equalityI) (auto simp: nth_list_update)
  have f: "(\<lambda>l. l\<lparr>markedSpans := map_option (\<lambda>ss. delMarkedSpanFor ss m) (markedSpans l)\<rparr>) = del_span m"
    by (rule ext) (simp add: del_span_def)
  have one: "clear_line m (lid (lines ed ! a)) (ed, r) = Some (?e, seen_range (sp a) a r)"
    using Suc.prems(4) [of a] a(1) by (cases r) (auto simp: clear_line_def l map_ident_def seen_range_def f Let_def)
  have ex: "\<exists>d2. clear_lines m (map (\<lambda>k. lid (lines ?e ! k)) [Suc a ..< b]) (?e, seen_range (sp a) a r) =
     Some (?e\<lparr>doc := d2\<rparr>, fold (\<lambda>k. seen_range (sp k) k) [Suc a ..< b] (seen_range (sp a) a r)) \<and>
     doc_ok d2 \<and> collapse d2 = upd_range (Suc a) b (\<lambda>k. del_span m) (lines ?e)"
  proof (rule Suc.hyps(1) [OF a(3)])
    show "doc_ok (doc ?e)" "distinct (ids ?e)" "b \<le> length (lines ?e)" using d ids Suc.prems(2,3) by simp_all
    show "spanFor (markedSpans (lines ?e ! k)) m = Some (sp k)" if "Suc a \<le> k" "k < b" for k
      using that Suc.prems(4) [of k] d(2) by simp
  qed
  have me: "map (\<lambda>k. lid (lines ?e ! k)) [Suc a ..< b] = map (\<lambda>k. lid (lines ed ! k)) [Suc a ..< b]"
    by (rule map_cong [OF refl]) (use d(2) in \<open>simp add: nth_list_update\<close>)
  obtain d2 where d2: "clear_lines m (map (\<lambda>k. lid (lines ed ! k)) [Suc a ..< b]) (?e, seen_range (sp a) a r) =
     Some (?e\<lparr>doc := d2\<rparr>, fold (\<lambda>k. seen_range (sp k) k) [Suc a ..< b] (seen_range (sp a) a r))"
    "doc_ok d2" "collapse d2 = upd_range (Suc a) b (\<lambda>k. del_span m) (lines ?e)"
    using ex unfolding me by blast
  have "collapse d2 = upd_range a b (\<lambda>k. del_span m) (lines ed)"
    using d2(3) d(2) upd_range_first [OF a(1,2), of "\<lambda>k. del_span m"] by simp
  then show ?case using d2(1,2) one a(1) by (intro exI [of _ d2]) (simp add: upt_rec [of a b])
qed


text \<open>The spans of \<open>markText\<close>: what the two loops have seen behind the last line.\<close>

lemma mark_stretch:
  assumes "0 \<le> pline from" "pline from \<le> pline to"
  shows "fold (\<lambda>k. seen_ends (mark_span from to m k) k) [nat (pline from) ..< nat (pline to + 1)] (None, None) = (Some from, Some to)"
    and "fold (\<lambda>k. seen_range (mark_span from to m k) k) [nat (pline from) ..< nat (pline to + 1)] None = Some (pline from, pline to)"
proof -
  obtain a b where ab: "pline from = int a" "pline to = int b" "a \<le> b" using assms
    by (metis nat_0_le nat_mono order_trans)
  have fp: "from = Pos (int a) (pch from)" "to = Pos (int b) (pch to)" using ab by (cases "from", simp, cases to, simp)
  have ends: "fold (\<lambda>k. seen_ends (mark_span from to m k) k) [a ..< Suc c] (None, None) = (Some from, if c = b then Some to else None)"
    if "a \<le> c" "c \<le> b" for c
    using that
  proof (induction c rule: dec_induct)
    case base
    then show ?case using ab fp by (simp add: seen_ends_def mark_span_def)
  next
    case (step c)
    then show ?case using ab fp by (auto simp: seen_ends_def mark_span_def)
  qed
  have rng: "fold (\<lambda>k. seen_range (mark_span from to m k) k) [a ..< Suc c] None = Some (pline from, if c = b then pline to else pline from)"
    if "a \<le> c" "c \<le> b" for c
    using that
  proof (induction c rule: dec_induct)
    case base
    then show ?case using ab by (simp add: seen_range_def mark_span_def)
  next
    case (step c)
    then show ?case using ab by (auto simp: seen_range_def mark_span_def)
  qed
  have n: "nat (pline from) = a" "nat (pline to + 1) = Suc b" using ab by simp_all
  show "fold (\<lambda>k. seen_ends (mark_span from to m k) k) [nat (pline from) ..< nat (pline to + 1)] (None, None) = (Some from, Some to)"
    "fold (\<lambda>k. seen_range (mark_span from to m k) k) [nat (pline from) ..< nat (pline to + 1)] None = Some (pline from, pline to)"
    unfolding n using ends [OF ab(3) order_refl] rng [OF ab(3) order_refl] by simp_all
qed

lemma set_options_type: "mtype (fold set_option opts m) = mtype m \<and> mlines (fold set_option opts m) = mlines m"
proof (induction opts arbitrary: m)
  case (Cons x opts)
  then show ?case by (cases x) simp_all
qed simp

lemma markText_adds:
  assumes doc: "doc_ok (doc ed)" and p: "0 \<le> pline from" "pline from \<le> pline to" "pline to < int (length (lines ed))"
    and cl: "clip ed from = Some from" "clip ed to = Some to"
  shows "\<exists>ed1. markText from to cls opts ed = Some (next_marker ed, ed1) \<and> doc_ok (doc ed1) \<and>
    lines ed1 = upd_range (nat (pline from)) (nat (pline to + 1)) (\<lambda>k. add_span (mark_span from to (next_marker ed) k)) (lines ed) \<and>
    mlines (markers ed1 (next_marker ed)) = map (\<lambda>k. lid (lines ed ! k)) [nat (pline from) ..< nat (pline to + 1)] \<and>
    mtype (markers ed1 (next_marker ed)) = Range \<and>
    changes ed1 = changes ed @ [\<lparr>chfrom = pline from, chto = pline to + 1, chdiff = 0\<rparr>]"
proof -
  let ?m = "next_marker ed" and ?a = "nat (pline from)" and ?b = "nat (pline to + 1)"
  have ab: "?a \<le> ?b" "?b \<le> length (lines ed)" using p by simp_all
  obtain mk where mk: "mk = fold set_option opts (new_marker Range cls)" by blast
  have mk2: "mtype mk = Range" "mlines mk = []" using set_options_type [of opts "new_marker Range cls"] mk by (simp_all add: new_marker_def)
  let ?e0 = "ed\<lparr>next_marker := ?m + 1, markers := (markers ed)(?m := mk)\<rparr>"
  obtain dc where dc: "fold (\<lambda>k. push_span k (mark_span from to ?m k)) [?a ..< ?b] ?e0 = ?e0\<lparr>doc := dc, markers := (markers ?e0)(?m :=
       (markers ?e0 ?m)\<lparr>mlines := mlines (markers ?e0 ?m) @ map (\<lambda>k. lid (lines ?e0 ! k)) [?a ..< ?b]\<rparr>)\<rparr>"
    "doc_ok dc" "collapse dc = upd_range ?a ?b (\<lambda>k. add_span (mark_span from to ?m k)) (lines ?e0)"
    using push_spans [of ?e0 ?a ?b "mark_span from to ?m" ?m] doc ab by (auto simp: mark_span_def)
  obtain ed1 where ed1: "ed1 = push_change (pline from) (pline to + 1) 0 (?e0\<lparr>doc := dc, markers := (markers ?e0)(?m :=
       (markers ?e0 ?m)\<lparr>mlines := mlines (markers ?e0 ?m) @ map (\<lambda>k. lid (lines ?e0 ! k)) [?a ..< ?b]\<rparr>)\<rparr>)" by blast
  have mark: "markText from to cls opts ed = Some (?m, ed1)"
    using dc(1) by (simp add: markText_def cl add_marker_def mk [symmetric] ed1)
  have e1: "doc ed1 = dc" "markers ed1 ?m = mk\<lparr>mlines := map (\<lambda>k. lid (lines ed ! k)) [?a ..< ?b]\<rparr>"
    "changes ed1 = changes ed @ [\<lparr>chfrom = pline from, chto = pline to + 1, chdiff = 0\<rparr>]"
    unfolding ed1 push_change_def using mk2 by simp_all
  show ?thesis using mark e1 mk2 dc(2,3) by (intro exI [of _ ed1]) simp
qed

text \<open>Clearing a mark that lies over a stretch of lines removes its span from each of them, records one change
  and leaves the mark without a place.\<close>

lemma clear_mark_stretch:
  assumes "doc_ok (doc ed)" and "distinct (ids ed)" and "nat (pline to + 1) \<le> length (lines ed)"
    and p: "0 \<le> pline from" "pline from \<le> pline to"
    and sp: "\<And>k. nat (pline from) \<le> k \<Longrightarrow> k < nat (pline to + 1) \<Longrightarrow>
      spanFor (markedSpans (lines ed ! k)) m = Some (mark_span from to m k)"
    and ml: "mlines (markers ed m) = map (\<lambda>k. lid (lines ed ! k)) [nat (pline from) ..< nat (pline to + 1)]"
  shows "\<exists>ed'. clear_mark m ed = Some ed' \<and> find_mark m ed' = Some NoMark \<and>
    lines ed' = upd_range (nat (pline from)) (nat (pline to + 1)) (\<lambda>k. del_span m) (lines ed) \<and>
    changes ed' = changes ed @ [\<lparr>chfrom = pline from, chto = pline to + 1, chdiff = 0\<rparr>]"
proof -
  let ?a = "nat (pline from)" and ?b = "nat (pline to + 1)"
  obtain d2 where d2: "clear_lines m (map (\<lambda>k. lid (lines ed ! k)) [?a ..< ?b]) (ed, None) =
      Some (ed\<lparr>doc := d2\<rparr>, Some (pline from, pline to))" "collapse d2 = upd_range ?a ?b (\<lambda>k. del_span m) (lines ed)"
    using clear_lines_stretch [OF assms(1-3) sp, where a = ?a and r = None] mark_stretch(2) [OF p, of m] by auto
  obtain ed' where ed': "ed' = (push_change (pline from) (pline to + 1) 0 (ed\<lparr>doc := d2\<rparr>))
      \<lparr>markers := (markers ed)(m := (markers ed m)\<lparr>mlines := []\<rparr>)\<rparr>" by blast
  have "clear_mark m ed = Some ed'" unfolding clear_mark_def ml d2(1) ed' by (simp add: push_change_def)
  moreover have "find_mark m ed' = Some NoMark" by (simp add: find_mark_def ed')
  moreover have "lines ed' = upd_range ?a ?b (\<lambda>k. del_span m) (lines ed)" using d2(2) by (simp add: ed' push_change_def)
  moreover have "changes ed' = changes ed @ [\<lparr>chfrom = pline from, chto = pline to + 1, chdiff = 0\<rparr>]"
    by (simp add: ed' push_change_def)
  ultimately show ?thesis by blast
qed

text \<open>A span of a marker the line does not carry is found when added, and deleting it restores the spans.\<close>

lemma fresh_span:
  assumes "m \<notin> markers_of (markedSpans l)"
  shows "spanFor (markedSpans (add_span (mark_span from to m k) l)) m = Some (mark_span from to m k)"
    and "span_list (markedSpans (del_span m (add_span (mark_span from to m k) l))) = span_list (markedSpans l)"
proof -
  have "m \<notin> smarker ` set (span_list (markedSpans l))"
    using assms by (cases "markedSpans l") (simp_all add: markers_of_def span_list_def)
  note f = getMarkedSpanFor_append [OF this, of "mark_span from to m k"]
  show "spanFor (markedSpans (add_span (mark_span from to m k) l)) m = Some (mark_span from to m k)"
    using f by (simp add: spanFor_def mark_span_def)
  show "span_list (markedSpans (del_span m (add_span (mark_span from to m k) l))) = span_list (markedSpans l)"
    using f by (simp add: mark_span_def, simp add: span_list_def)
qed

text \<open>
  C25: A mark is found where it was put: \<open>find\<close> returns the ends that were given to \<open>markText\<close>, clearing the mark
  takes away its spans and nothing else, and afterwards \<open>find\<close> finds nothing.  Both record the marked
  lines as changed.
\<close>

theorem mark_find_clear:
  assumes "ed_ok ed" and "pos_ok (texts ed) from" and "pos_ok (texts ed) to" and "from \<le> to"
    and "\<forall>l \<in> set (lines ed). next_marker ed \<notin> markers_of (markedSpans l)"
  shows "\<exists>m ed1 ed2. markText from to cls opts ed = Some (m, ed1) \<and> find_mark m ed1 = Some (InRange from (Some to)) \<and>
    clear_mark m ed1 = Some ed2 \<and> find_mark m ed2 = Some NoMark \<and> texts ed1 = texts ed \<and> texts ed2 = texts ed \<and>
    map (\<lambda>l. span_list (markedSpans l)) (lines ed2) = map (\<lambda>l. span_list (markedSpans l)) (lines ed) \<and>
    changes ed2 = changes ed @ replicate 2 \<lparr>chfrom = pline from, chto = pline to + 1, chdiff = 0\<rparr>"
proof -
  let ?m = "next_marker ed" and ?a = "nat (pline from)" and ?b = "nat (pline to + 1)"
  note d = ed_okD [OF assms(1)]
  have dist: "distinct (ids ed)" using d(1) by (simp add: struct_ok_def)
  have p: "0 \<le> pline from" "pline from \<le> pline to" "pline to < int (length (lines ed))"
    using assms(2-4) by (auto simp: pos_ok_def texts_def pos_le_iff)
  then have ab: "?a \<le> ?b" "?b \<le> length (lines ed)" by simp_all
  have cl: "clip ed from = Some from" "clip ed to = Some to"
    using assms(2,3) clipPos_text [OF d(2,3)] clip_text_id by simp_all
  obtain ed1 where ed1: "markText from to cls opts ed = Some (?m, ed1)" "doc_ok (doc ed1)"
    "lines ed1 = upd_range ?a ?b (\<lambda>k. add_span (mark_span from to ?m k)) (lines ed)"
    "mlines (markers ed1 ?m) = map (\<lambda>k. lid (lines ed ! k)) [?a ..< ?b]" "mtype (markers ed1 ?m) = Range"
    "changes ed1 = changes ed @ [\<lparr>chfrom = pline from, chto = pline to + 1, chdiff = 0\<rparr>]"
    using markText_adds [OF d(2) p cl] by blast
  note l1 = ed1(3)
  have ids1: "ids ed1 = ids ed" and t1: "texts ed1 = texts ed" unfolding texts_def l1 by (simp_all add: map_upd_range)
  have fresh: "?m \<notin> markers_of (markedSpans (lines ed ! k))" if "k < length (lines ed)" for k
    using assms(5) nth_mem [OF that] by blast
  have sp: "spanFor (markedSpans (lines ed1 ! k)) ?m = Some (mark_span from to ?m k)" if "?a \<le> k" "k < ?b" for k
    using that ab(2) fresh_span(1) [OF fresh] by (simp add: l1)
  have ml: "mlines (markers ed1 ?m) = map (\<lambda>k. lid (lines ed1 ! k)) [?a ..< ?b]"
    unfolding ed1(4) l1 using ab by simp
  have ok1: "doc_ok (doc ed1)" "distinct (ids ed1)" "?b \<le> length (lines ed1)" using ed1(2) ids1 dist l1 ab(2) by simp_all
  have find1: "find_mark ?m ed1 = Some (InRange from (Some to))"
    using find_lines_stretch [OF ok1 sp, where a = ?a and ft = "(None, None)"] mark_stretch(1) [OF p(1,2), of ?m] ed1(5)
    by (simp add: find_mark_def ml)
  obtain ed2 where ed2: "clear_mark ?m ed1 = Some ed2" "find_mark ?m ed2 = Some NoMark"
    "lines ed2 = upd_range ?a ?b (\<lambda>k. del_span ?m) (lines ed1)"
    "changes ed2 = changes ed1 @ [\<lparr>chfrom = pline from, chto = pline to + 1, chdiff = 0\<rparr>]"
    using clear_mark_stretch [OF ok1 p(1,2) sp ml] by blast
  note l2 = ed2(3)
  have spans: "map (\<lambda>l. span_list (markedSpans l)) (lines ed2) = map (\<lambda>l. span_list (markedSpans l)) (lines ed)"
    by (rule nth_equalityI) (use fresh_span(2) [OF fresh] in \<open>auto simp: l2 l1\<close>)
  have "texts ed2 = texts ed" unfolding t1 [symmetric] unfolding texts_def l2 by (simp add: map_upd_range)
  moreover have "changes ed2 = changes ed @ replicate 2 \<lparr>chfrom = pline from, chto = pline to + 1, chdiff = 0\<rparr>"
    by (simp add: ed2(4) ed1(6) numeral_2_eq_2)
  ultimately show ?thesis using ed1(1) find1 ed2(1,2) t1 spans by blast
qed

theorem mark_find_clear_witness:
  "\<exists>(ed :: (sparql_env, sparql_state) editor) m ed1 ed2. texts ed = [''select''] \<and>
     markText (Pos 0 1) (Pos 0 3) (Some ''hit'') [StartStyle ''a''] ed = Some (m, ed1) \<and>
     find_mark m ed1 = Some (InRange (Pos 0 1) (Some (Pos 0 3))) \<and> clear_mark m ed1 = Some ed2 \<and> find_mark m ed2 = Some NoMark"
proof -
  let ?ed = "(init_editor (sparql_mode 2) sparql_env0 defaults
      \<lparr>clientWidth = 800, clientHeight = 600, charWidth = 8, textHeight = 16, paddingTop = 4, paddingLeft = 4\<rparr>)
    \<lparr>doc := branchChunk [leafChunk [new_line 0 ''select'' None]]\<rparr>"
  have ok: "ed_ok ?ed"
    by (simp add: ed_ok_def struct_ok_def init_editor_def doc_ok_def texts_def pos_ok_def all_visible_def known_def
      branchChunk_def leafChunk_def heights_def)
  have t: "texts ?ed = [''select'']" and l: "lines ?ed = [new_line 0 ''select'' None]"
    by (simp_all add: texts_def branchChunk_def leafChunk_def)
  have "pos_ok (texts ?ed) (Pos 0 1)" "pos_ok (texts ?ed) (Pos 0 3)" unfolding t by (simp_all add: pos_ok_def)
  moreover have "Pos 0 1 \<le> Pos 0 3" by (simp add: pos_le_iff)
  moreover have "\<forall>l \<in> set (lines ?ed). next_marker ?ed \<notin> markers_of (markedSpans l)"
    unfolding l by (simp add: markers_of_def)
  ultimately show ?thesis using mark_find_clear [OF ok, of "Pos 0 1" "Pos 0 3" "Some ''hit''" "[StartStyle ''a'']"] t by blast
qed

end
