(* ===== verification/CM_Display.thy ===== *)
theory CM_Display
  imports CM_Coords
begin

section \<open>The display\<close>

text \<open>
  \<open>updateDisplay\<close> and what it calls: \<open>visibleLines\<close>, \<open>computeIntact\<close>, \<open>patchDisplay\<close>, \<open>checkHeights\<close>,
  \<open>updateGutter\<close>, \<open>updateVerticalScroll\<close>.  The children of \<open>lineDiv\<close> are a list of rows; the content of a
  row, what \<open>lineContent\<close> returns for a line, is the parameter \<open>content\<close> (\<open>CM_Content\<close> and \<open>CM_Highlight\<close>
  model it).  Heights and widths that the browser measures are parameters too.
\<close>

datatype 'c row = HiddenRow | LineRow "jstring option" "jstring option" 'c

text \<open>A row of the gutter: its style, its text with the padding in front, and the line breaks behind.\<close>

datatype gutter_line = HiddenGutter | GutterRow "jstring option" jstring nat

record display_options =
  opt_gutter :: bool
  lineNumbers :: bool
  firstLineNumber :: int
  lineNumberFormatter :: "int \<Rightarrow> jstring"
  opt_onUpdate :: bool
  onViewportChange :: bool

record ('g, 's, 'c) display =
  d_ed :: "('g, 's) editor"
  d_view :: view
  d_opts :: display_options
  lineDiv :: "'c row list"
  gutterText :: "gutter_line list"
  marginLeft :: int
  lastSizeC :: int
  barHeight :: "int option"
  moverTop :: int
  d_selection :: "((int \<times> int) \<times> drawing) option"
  viewport_calls :: "(int \<times> int) list"
  update_calls :: nat

text \<open>\<open>TypeError\<close> for a dereferenced null, \<open>BadPatch\<close> for the code's only assertion.\<close>

datatype display_error = TypeError | BadPatch

subsection \<open>Which lines are visible, and which rows are still right\<close>

definition visibleLines :: "('g, 's) editor \<Rightarrow> view \<Rightarrow> int option \<Rightarrow> int \<times> int" where
  "visibleLines ed vw st =
     (let lh = textHeight (screen ed);
          top = (case st of Some t \<Rightarrow> t | None \<Rightarrow> scrollTop vw) - paddingTop (screen ed);
          fromHeight = max 0 (top div lh);
          toHeight = - ((- (top + int (clientHeight (screen ed)))) div lh)
      in (int (lineAtHeight (doc ed) fromHeight), int (lineAtHeight (doc ed) toHeight)))"

record intact_range =
  rfrom :: int
  rto :: int
  rdom :: int

text \<open>One range under one change.\<close>

definition punch :: "change_rec \<Rightarrow> intact_range \<Rightarrow> intact_range list" where
  "punch c r =
     (if chto c \<le> rfrom r \<and> chdiff c \<noteq> 0
      then [\<lparr>rfrom = rfrom r + chdiff c, rto = rto r + chdiff c, rdom = rdom r\<rparr>]
      else if chto c \<le> rfrom r \<or> chfrom c \<ge> rto r then [r]
      else (if chfrom c > rfrom r then [\<lparr>rfrom = rfrom r, rto = chfrom c, rdom = rdom r\<rparr>] else []) @
           (if chto c < rto r
            then [\<lparr>rfrom = chto c + chdiff c, rto = rto r + chdiff c, rdom = rdom r + (chto c - rfrom r)\<rparr>] else []))"

definition computeIntact :: "intact_range list \<Rightarrow> change_rec list \<Rightarrow> intact_range list" where
  "computeIntact intact cs = fold (\<lambda>c rs. concat (map (punch c) rs)) cs intact"

text \<open>The loop of \<open>updateDisplay\<close> that clips a range to the new window.\<close>

definition clip_range :: "int \<Rightarrow> int \<Rightarrow> intact_range \<Rightarrow> intact_range list" where
  "clip_range from to r =
     (let r1 = (if rfrom r < from then \<lparr>rfrom = from, rto = rto r, rdom = rdom r + (from - rfrom r)\<rparr> else r);
          r2 = (if rto r1 > to then r1\<lparr>rto := to\<rparr> else r1)
      in if rfrom r2 \<ge> rto r2 then [] else [r2])"

definition clip_ranges :: "int \<Rightarrow> int \<Rightarrow> intact_range list \<Rightarrow> intact_range list" where
  "clip_ranges from to rs = concat (map (clip_range from to) rs)"

definition intactLines :: "intact_range list \<Rightarrow> int" where
  "intactLines rs = sum_list (map (\<lambda>r. rto r - rfrom r) rs)"

subsection \<open>\<open>patchDisplay\<close>\<close>

text \<open>
  The first pass: \<open>killNode\<close> on the nodes in front of a range, then a step over each node of the range;
  either fails on a null node.  What remains behind the last range is removed.
\<close>

fun kill_nodes :: "nat \<Rightarrow> 'n list \<Rightarrow> 'n list option" where
  "kill_nodes 0 ns = Some ns"
| "kill_nodes (Suc k) [] = None"
| "kill_nodes (Suc k) (n # ns) = kill_nodes k ns"

fun keep_nodes :: "nat \<Rightarrow> 'n list \<Rightarrow> ('n list \<times> 'n list) option" where
  "keep_nodes 0 ns = Some ([], ns)"
| "keep_nodes (Suc k) [] = None"
| "keep_nodes (Suc k) (n # ns) = map_option (\<lambda>(kept, rest). (n # kept, rest)) (keep_nodes k ns)"

fun keep_pass :: "intact_range list \<Rightarrow> int \<Rightarrow> 'n list \<Rightarrow> 'n list option" where
  "keep_pass [] domPos ns = Some []"
| "keep_pass (r # rs) domPos ns = do {
     ns1 \<leftarrow> kill_nodes (nat (rdom r - domPos)) ns;
     (kept, ns2) \<leftarrow> keep_nodes (nat (rto r - rfrom r)) ns1;
     others \<leftarrow> keep_pass rs (max domPos (rdom r) + int (nat (rto r - rfrom r))) ns2;
     Some (kept @ others) }"

text \<open>The second pass over the lines from \<open>j\<close> on; the head of the ranges is \<open>nextIntact\<close>.\<close>

fun fill_pass :: "('l \<Rightarrow> 'n) \<Rightarrow> 'l list \<Rightarrow> int \<Rightarrow> intact_range list \<Rightarrow> 'n list \<Rightarrow> 'n list option" where
  "fill_pass mk [] j rs ns = Some ns"
| "fill_pass mk (l # ls) j rs ns =
     (let rs1 = (case rs of [] \<Rightarrow> [] | r # others \<Rightarrow> if rto r = j then others else rs);
          render = (case rs1 of [] \<Rightarrow> True | r # _ \<Rightarrow> rfrom r > j)
      in if render then map_option (Cons (mk l)) (fill_pass mk ls (j + 1) rs1 ns)
         else (case ns of [] \<Rightarrow> None
               | n # others \<Rightarrow> map_option (Cons n) (fill_pass mk ls (j + 1) rs1 others)))"

definition line_row :: "('s line \<Rightarrow> 'c) \<Rightarrow> 's line \<Rightarrow> 'c row" where
  "line_row content l =
     (if lhidden l then HiddenRow else LineRow (lclass l) (lbgclass l) (content l))"

definition patchDisplay ::
    "('s line \<Rightarrow> 'c) \<Rightarrow> ('g, 's) editor \<Rightarrow> int \<Rightarrow> int \<Rightarrow> intact_range list \<Rightarrow> 'c row list \<Rightarrow> 'c row list option" where
  "patchDisplay content ed from to intact ns = do {
     kept \<leftarrow> (if intact = [] then Some [] else keep_pass intact 0 ns);
     fill_pass (line_row content) (iter_list ed from to) from intact kept }"

subsection \<open>The gutter, the heights and the scrollbar\<close>

text \<open>\<open>s.replace(pat, rep)\<close> for a string \<open>pat\<close>: the first occurrence.\<close>

fun replace_first :: "jstring \<Rightarrow> jstring \<Rightarrow> jstring \<Rightarrow> jstring" where
  "replace_first pat rep [] = (if pat = [] then rep else [])"
| "replace_first pat rep (c # cs) =
     (if take (length pat) (c # cs) = pat then rep @ drop (length pat) (c # cs)
      else c # replace_first pat rep cs)"

definition gutter_row :: "display_options \<Rightarrow> nat \<Rightarrow> 's line \<Rightarrow> gutter_line" where
  "gutter_row opts i l =
     (if lhidden l then HiddenGutter
      else let number = (if lineNumbers opts then Some (lineNumberFormatter opts (int i + firstLineNumber opts)) else None);
               mtext = Option.bind (gutterMarker l) fst;
               txt1 = (case mtext of
                   Some t \<Rightarrow> if t \<noteq> [] then replace_first ''%N%'' (case number of Some n \<Rightarrow> n | None \<Rightarrow> []) t
                             else (case number of Some n \<Rightarrow> n | None \<Rightarrow> [CHR 0xA0])
                 | None \<Rightarrow> (case number of Some n \<Rightarrow> n | None \<Rightarrow> [CHR 0xA0]))
           in GutterRow (Option.bind (gutterMarker l) snd) txt1 (nat (lheight l - 1)))"

text \<open>The padding of the last line without a marker, which keeps the width of the gutter.\<close>

definition pad_row :: "nat \<Rightarrow> gutter_line \<Rightarrow> gutter_line" where
  "pad_row w r = (case r of HiddenGutter \<Rightarrow> HiddenGutter
     | GutterRow s t n \<Rightarrow> GutterRow s (replicate (w - length t) (CHR 0xA0) @ t) n)"

definition gutter_rows :: "display_options \<Rightarrow> ('g, 's) editor \<Rightarrow> gutter_line list" where
  "gutter_rows opts ed =
     (let f = showingFrom ed; t = max (showingTo ed) (f + 1);
          ls = iter_list ed (int f) (int t);
          rows = map (\<lambda>(i, l). gutter_row opts i l) (zip [f ..< f + length ls] ls);
          normal = filter (\<lambda>k. \<not> lhidden (ls ! k) \<and> gutterMarker (ls ! k) = None) [0 ..< length ls]
      in if normal \<noteq> [] \<and> lineNumbers opts
         then rows[last normal := pad_row (length (int_str (doc_size ed))) (rows ! last normal)]
         else rows)"

text \<open>\<open>updateGutter()\<close>, with its result; \<open>gw\<close> is the width of the gutter in the browser.\<close>

definition updateGutter ::
    "(gutter_line list \<Rightarrow> int) \<Rightarrow> ('g, 's, 'c) display \<Rightarrow> ('g, 's, 'c) display \<times> bool" where
  "updateGutter gw d =
     (if \<not> opt_gutter (d_opts d) \<and> \<not> lineNumbers (d_opts d) then (d, False)
      else let rows = gutter_rows (d_opts d) (d_ed d)
           in (d\<lparr>gutterText := rows, marginLeft := gw rows, d_ed := (d_ed d)\<lparr>gutterDirty := False\<rparr>\<rparr>,
               \<bar>marginLeft d - gw rows\<bar> > 2))"

text \<open>\<open>checkHeights\<close>: a line whose row has another height than it should.\<close>

definition check_height :: "('c row \<Rightarrow> int) \<Rightarrow> nat \<times> 'c row \<Rightarrow> ('g, 's) editor \<times> bool \<Rightarrow> ('g, 's) editor \<times> bool" where
  "check_height nh kr st = (case (kr, st) of ((k, r), (ed, changed)) \<Rightarrow>
     (case getLineAt (doc ed) k of
        None \<Rightarrow> st
      | Some l \<Rightarrow>
          if lhidden l then st
          else let h0 = js_round (nh r) (textHeight (screen ed)); h = (if h0 = 0 then 1 else h0)
               in if lheight l \<noteq> h then (set_height k h ed, True) else st))"

definition checkHeights :: "('c row \<Rightarrow> int) \<Rightarrow> ('g, 's, 'c) display \<Rightarrow> ('g, 's, 'c) display \<times> bool" where
  "checkHeights nh d =
     (let ed = d_ed d;
          (ed1, changed) = fold (check_height nh) (zip [showingFrom ed ..< showingTo ed] (lineDiv d)) (ed, False)
      in (d\<lparr>d_ed := ed1\<rparr>, changed))"

definition updateVerticalScroll :: "int option \<Rightarrow> ('g, 's, 'c) display \<Rightarrow> ('g, 's, 'c) display" where
  "updateVerticalScroll st d =
     (let ed = d_ed d; h = needsScrollbar ed (d_view d) in
      d\<lparr>barHeight := h,
        d_view := (case (h, st) of (Some _, Some t) \<Rightarrow> (d_view d)\<lparr>scrollTop := t\<rparr> | _ \<Rightarrow> d_view d),
        moverTop := displayOffset ed * textHeight (screen ed)\<rparr>)"

subsection \<open>\<open>updateDisplay\<close>\<close>

text \<open>The new window.\<close>

definition new_window :: "('g, 's) editor \<Rightarrow> int \<times> int \<Rightarrow> int \<times> int" where
  "new_window ed visible =
     (let from = max (fst visible - 100) 0; to = min (doc_size ed) (snd visible + 100);
          sf = int (showingFrom ed); st = int (showingTo ed)
      in (if sf < from \<and> from - sf < 20 then sf else from,
          if st > to \<and> st - to < 20 then min (doc_size ed) st else to))"

text \<open>Heights and gutter: a gutter that grew makes the heights be measured again.\<close>

definition remeasure ::
    "('c row \<Rightarrow> int) \<Rightarrow> (gutter_line list \<Rightarrow> int) \<Rightarrow> bool \<Rightarrow> ('g, 's, 'c) display \<Rightarrow> ('g, 's, 'c) display" where
  "remeasure nh gw different d =
     (let wrap = lineWrapping (options (d_ed d));
          d2 = (if wrap then fst (checkHeights nh d) else d)
      in if different \<or> gutterDirty (d_ed d2) then
           (let (d3, resized) = updateGutter gw d2 in
            if resized \<and> wrap then (let (d4, changed) = checkHeights nh d3 in
                                    if changed then fst (updateGutter gw d4) else d4)
            else d3)
         else d2)"

text \<open>The new window is recorded; the flag is the variable \<open>different\<close>.\<close>

definition record_window :: "int \<times> int \<Rightarrow> ('g, 's, 'c) display \<Rightarrow> ('g, 's, 'c) display \<times> bool" where
  "record_window window d =
     (let ed = d_ed d; (from, to) = window;
          size = int (clientHeight (screen ed)) + textHeight (screen ed);
          different = (from \<noteq> int (showingFrom ed) \<or> to \<noteq> int (showingTo ed) \<or> lastSizeC d \<noteq> size);
          call = (from \<noteq> int (showingFrom ed) \<or> (to \<noteq> int (showingTo ed) \<and> onViewportChange (d_opts d)))
      in (d\<lparr>lastSizeC := (if different then size else lastSizeC d),
            viewport_calls := viewport_calls d @ (if call \<and> onViewportChange (d_opts d) then [(from, to)] else []),
            d_ed := startWorker 100 (ed\<lparr>showingFrom := nat from, showingTo := nat to,
                       displayOffset := heightAtLine (doc ed) (nat from)\<rparr>)\<rparr>, different))"

text \<open>The part behind the patch: heights, gutter, scrollbar and selection are brought up to date.\<close>

definition after_patch ::
    "'s measure \<Rightarrow> ('c row \<Rightarrow> int) \<Rightarrow> (gutter_line list \<Rightarrow> int) \<Rightarrow> int \<times> int \<Rightarrow> bool \<Rightarrow> int option \<Rightarrow>
     ('g, 's, 'c) display \<Rightarrow> ('g, 's, 'c) display" where
  "after_patch ms nh gw window suppress st d =
     (let (d1, different) = record_window window d;
          d4 = updateVerticalScroll st (remeasure nh gw different d1);
          d5 = d4\<lparr>d_selection := updateSelection ms (d_ed d4) (d_view d4)\<rparr>
      in if \<not> suppress \<and> opt_onUpdate (d_opts d5) then d5\<lparr>update_calls := update_calls d5 + 1\<rparr> else d5)"

text \<open>
  \<open>changes\<close> is \<open>None\<close> for the argument \<open>true\<close>; the flag of the result is the code's return value.
\<close>

definition updateDisplay ::
    "('s line \<Rightarrow> 'c) \<Rightarrow> 's measure \<Rightarrow> ('c row \<Rightarrow> int) \<Rightarrow> (gutter_line list \<Rightarrow> int) \<Rightarrow>
     change_rec list option \<Rightarrow> bool \<Rightarrow> int option \<Rightarrow> ('g, 's, 'c) display \<Rightarrow> display_error + ('g, 's, 'c) display \<times> bool" where
  "updateDisplay content ms nh gw chs suppress st d =
     (let ed = d_ed d in
      if clientWidth (screen ed) = 0
      then Inr (d\<lparr>d_ed := ed\<lparr>showingFrom := 0, showingTo := 0, displayOffset := 0\<rparr>\<rparr>, False)
      else let visible = visibleLines ed (d_view d) st;
               sf = int (showingFrom ed); sto1 = int (showingTo ed) in
        if chs = Some [] \<and> fst visible > sf \<and> snd visible < sto1
        then Inr (updateVerticalScroll st d, False)
        else let (from, to) = new_window ed visible;
                 intact = clip_ranges from to
                   (case chs of None \<Rightarrow> [] | Some cs \<Rightarrow> computeIntact [\<lparr>rfrom = sf, rto = sto1, rdom = 0\<rparr>] cs)
             in if intactLines intact = to - from \<and> from = sf \<and> to = sto1
                then Inr (updateVerticalScroll st d, False)
                else (case patchDisplay content ed from to (sort_key rdom intact) (lineDiv d) of
                    None \<Rightarrow> Inl TypeError
                  | Some rows \<Rightarrow>
                      if int (length rows) \<noteq> to - from then Inl BadPatch
                      else Inr (after_patch ms nh gw (from, to) suppress st (d\<lparr>lineDiv := rows\<rparr>), True)))"

end
