(* ===== verification/CM_Operation.thy ===== *)
theory CM_Operation
  imports CM_Display CM_Marking CM_Keys
begin

section \<open>Operations, the hidden input, and key events\<close>

text \<open>
  \<open>startOperation\<close>, \<open>endOperation\<close>, \<open>operation\<close>, \<open>compoundChange\<close>, the polling of the hidden textarea
  (\<open>slowPoll\<close>, \<open>fastPoll\<close>, \<open>readInput\<close>, \<open>resetInput\<close>), the timers, and the events \<open>onKeyDown\<close>, \<open>onKeyPress\<close>, \<open>onKeyUp\<close>,
  \<open>onFocus\<close> and \<open>onBlur\<close> of \<open>codemirror.js\<close>.  What the browser measures and answers is in the record
  \<open>browser\<close>; the calls of the page's callbacks are in the list \<open>notices\<close>.  \<open>None\<close> is an exception.
  The blinking of the cursor and the special cases of old browsers are left out.
\<close>

datatype notice = Change "change_obj list" | CursorActivity | Deleted nat | Update | Focused | Blurred

text \<open>The callback that \<open>poll\<close> waits for; the flag is the variable \<open>missed\<close> of \<open>fastPoll\<close>.\<close>

datatype polling = SlowPoll | FastPoll bool

record ('s, 'c) browser =
  br_content :: "'s line \<Rightarrow> 'c"
  br_measure :: "'s measure"
  br_height :: "'c row \<Rightarrow> int"
  br_gutter :: "gutter_line list \<Rightarrow> int"
  br_boxTop :: int
  br_cursorWidth :: int
  br_hasSelection :: bool

record ('g, 's, 'c) session =
  s_disp :: "('g, 's, 'c) display"
  minWidth :: int
  notices :: "notice list"
  poll :: "polling option"

abbreviation s_ed :: "('g, 's, 'c) session \<Rightarrow> ('g, 's) editor" where
  "s_ed s \<equiv> d_ed (s_disp s)"

definition with_ed :: "('g, 's) editor \<Rightarrow> ('g, 's, 'c) session \<Rightarrow> ('g, 's, 'c) session" where
  "with_ed ed s = s\<lparr>s_disp := (s_disp s)\<lparr>d_ed := ed\<rparr>\<rparr>"

definition lift_ed :: "(('g, 's) editor \<Rightarrow> ('g, 's) editor option) \<Rightarrow> ('g, 's, 'c) session \<Rightarrow> ('g, 's, 'c) session option" where
  "lift_ed f s = map_option (\<lambda>ed. with_ed ed s) (f (s_ed s))"

definition notify_page :: "notice list \<Rightarrow> ('g, 's, 'c) session \<Rightarrow> ('g, 's, 'c) session" where
  "notify_page ns s = s\<lparr>notices := notices s @ ns\<rparr>"

subsection \<open>Operations\<close>

definition startOperation :: "('g, 's) editor \<Rightarrow> ('g, 's) editor" where
  "startOperation ed = ed\<lparr>updateInput := None, userSelChange := False, textChanged := [], changes := [],
     selectionChanged := False, callbacks := []\<rparr>"

definition resetInput :: "bool \<Rightarrow> ('g, 's) editor \<Rightarrow> ('g, 's) editor option" where
  "resetInput user ed =
     (if \<not> posEq (sel_from ed) (sel_to ed)
      then map_option (\<lambda>t. ed\<lparr>prevInput := [], input := t\<rparr>) (getSelection ed [CHR 0x0A])
      else Some (if user then ed\<lparr>prevInput := [], input := []\<rparr> else ed))"

text \<open>The first part of \<open>endOperation\<close>: the longest line and the width that it forces.\<close>

definition settle_width :: "('s, 'c) browser \<Rightarrow> ('g, 's, 'c) session \<Rightarrow> ('g, 's, 'c) session option" where
  "settle_width br s = do {
     ed \<leftarrow> (if updateMaxLine (s_ed s) then computeMaxLength (s_ed s) else Some (s_ed s));
     if maxLineChanged ed \<and> \<not> lineWrapping (options ed) then do {
       l \<leftarrow> line_obj ed (maxLine ed);
       let left = snd (measureLine (br_measure br) l (int (length (ltext l))));
       Some ((with_ed (ed\<lparr>maxLineChanged := False\<rparr>) s)\<lparr>minWidth := left + br_cursorWidth br\<rparr>) }
     else Some (with_ed ed s) }"

text \<open>The second part: the display, or only the selection and the gutter; the flag is \<open>updated\<close>.\<close>

definition settle_display :: "('s, 'c) browser \<Rightarrow> int option \<Rightarrow> ('g, 's, 'c) display \<Rightarrow> (('g, 's, 'c) display \<times> bool) option" where
  "settle_display br newTop d = do {
     (d1, updated) \<leftarrow>
       (if changes (d_ed d) \<noteq> [] \<or> newTop \<noteq> None
        then (case updateDisplay (br_content br) (br_measure br) (br_height br) (br_gutter br)
                 (Some (changes (d_ed d))) True newTop d of Inl e \<Rightarrow> None | Inr r \<Rightarrow> Some r)
        else Some (d, False));
     Some (if updated then d1
           else let d2 = (if selectionChanged (d_ed d1)
                          then d1\<lparr>d_selection := updateSelection (br_measure br) (d_ed d1) (d_view d1)\<rparr> else d1)
                in if gutterDirty (d_ed d2) then fst (updateGutter (br_gutter br) d2) else d2, updated) }"

definition endOperation :: "('s, 'c) browser \<Rightarrow> ('g, 's, 'c) session \<Rightarrow> ('g, 's, 'c) session option" where
  "endOperation br s = do {
     s1 \<leftarrow> settle_width br s;
     let ed = s_ed s1;
     newScrollPos \<leftarrow> (if selectionChanged ed
       then map_option (\<lambda>(x, y, yBot). Some (calculateScrollPos ed (d_view (s_disp s1)) x y x yBot))
              (calculateCursorCoords (br_measure br) ed (d_view (s_disp s1)))
       else Some None);
     (d, updated) \<leftarrow> settle_display br (Option.bind newScrollPos snd) (s_disp s1);
     d1 \<leftarrow> (if newScrollPos = None then Some d
             else map_option (\<lambda>(vw, doScroll). d\<lparr>d_view := vw\<rparr>)
                    (scrollCursorIntoView (br_measure br) (d_ed d) (br_boxTop br) (d_view d)));
     let ed1 = d_ed d1;
     ed2 \<leftarrow> (if focused ed1 \<and> (updateInput ed1 = Some True \<or> (updateInput ed1 \<noteq> Some False \<and> selectionChanged ed1))
              then resetInput (userSelChange ed1) ed1 else Some ed1);
     let ed3 = (if selectionChanged ed2 \<and> opt_matchBrackets (options ed2)
                then ed2\<lparr>timers := timers ed2 @ [RunMatchBrackets]\<rparr> else ed2);
     Some (notify_page
       ((if textChanged ed3 \<noteq> [] \<and> onChange (options ed3) then [Change (textChanged ed3)] else []) @
        (if selectionChanged ed3 \<and> onCursorActivity (options ed3) then [CursorActivity] else []) @
        map Deleted (callbacks ed3) @ (if updated \<and> opt_onUpdate (d_opts d1) then [Update] else []))
       (s1\<lparr>s_disp := d1\<lparr>d_ed := ed3\<rparr>\<rparr>)) }"

text \<open>
  \<open>operation(f)\<close>: only the outermost one starts and ends.  When \<open>f\<close> throws, the exception goes on.
\<close>

definition operation :: "('s, 'c) browser \<Rightarrow> (('g, 's, 'c) session \<Rightarrow> ('g, 's, 'c) session option) \<Rightarrow>
    ('g, 's, 'c) session \<Rightarrow> ('g, 's, 'c) session option" where
  "operation br f s = do {
     let ed = s_ed s;
     let ed1 = (if nestedOperation ed = 0 then startOperation ed else ed);
     s1 \<leftarrow> f (with_ed (ed1\<lparr>nestedOperation := nestedOperation ed + 1\<rparr>) s);
     let s2 = with_ed ((s_ed s1)\<lparr>nestedOperation := nestedOperation (s_ed s1) - 1\<rparr>) s1;
     if nestedOperation (s_ed s2) = 0 then endOperation br s2 else Some s2 }"

definition compoundChange :: "(('g, 's) editor \<Rightarrow> ('g, 's) editor option) \<Rightarrow> ('g, 's) editor \<Rightarrow> ('g, 's) editor option" where
  "compoundChange f ed =
     map_option (\<lambda>ed1. ed1\<lparr>history := map_option endCompound (history ed1)\<rparr>)
       (f (ed\<lparr>history := map_option startCompound (history ed)\<rparr>))"


subsection \<open>The hidden input\<close>

fun common_prefix :: "jstring \<Rightarrow> jstring \<Rightarrow> nat" where
  "common_prefix (a # as) (b # bs) = (if a = b then Suc (common_prefix as bs) else 0)"
| "common_prefix as bs = 0"

text \<open>The part of \<open>readInput\<close> between the start and the end of its operation.\<close>

definition input_selection :: "nat \<Rightarrow> ('g, 's) editor \<Rightarrow> ('g, 's) editor option" where
  "input_selection same ed =
     (if same < length (prevInput ed)
      then Some (ed\<lparr>sel_from := Pos (pline (sel_from ed)) (pch (sel_from ed) - int (length (prevInput ed) - same))\<rparr>)
      else if overwrite ed \<and> posEq (sel_from ed) (sel_to ed)
      then map_option (\<lambda>t. ed\<lparr>sel_to := Pos (pline (sel_to ed))
             (min (int (length t)) (pch (sel_to ed) + int (length (input ed) - same)))\<rparr>) (line_text ed (pline (sel_to ed)))
      else Some ed)"

definition apply_input :: "('g, 's) editor \<Rightarrow> ('g, 's) editor option" where
  "apply_input ed = do {
     let txt = input ed;
     let same = common_prefix (prevInput ed) txt;
     ed1 \<leftarrow> input_selection same (ed\<lparr>shiftSelecting := None\<rparr>);
     ed2 \<leftarrow> replaceSelection (drop same txt) CollapseEnd ed1;
     Some (if length txt > 1000 then ed2\<lparr>input := [], prevInput := []\<rparr> else ed2\<lparr>prevInput := txt\<rparr>) }"

definition readInput :: "('s, 'c) browser \<Rightarrow> ('g, 's, 'c) session \<Rightarrow> (('g, 's, 'c) session \<times> bool) option" where
  "readInput br s =
     (let ed = s_ed s in
      if \<not> focused ed \<or> br_hasSelection br \<or> readOnly (options ed) \<noteq> Editable \<or> input ed = prevInput ed then Some (s, False)
      else do {
        ed1 \<leftarrow> apply_input (if nestedOperation ed = 0 then startOperation ed else ed);
        let s1 = with_ed ed1 s;
        s2 \<leftarrow> (if nestedOperation ed1 = 0 then endOperation br s1 else Some s1);
        Some (s2, True) })"

definition slowPoll :: "('g, 's, 'c) session \<Rightarrow> ('g, 's, 'c) session" where
  "slowPoll s = (if pollingFast (s_ed s) then s else s\<lparr>poll := Some SlowPoll\<rparr>)"

definition fastPoll :: "('g, 's, 'c) session \<Rightarrow> ('g, 's, 'c) session" where
  "fastPoll s = (with_ed ((s_ed s)\<lparr>pollingFast := True\<rparr>) s)\<lparr>poll := Some (FastPoll False)\<rparr>"

text \<open>The delayed callback of either.\<close>

definition run_poll :: "('s, 'c) browser \<Rightarrow> ('g, 's, 'c) session \<Rightarrow> ('g, 's, 'c) session option" where
  "run_poll br s =
     (case poll s of
        None \<Rightarrow> Some s
      | Some SlowPoll \<Rightarrow> do {
          (s1, changed) \<leftarrow> readInput br (s\<lparr>poll := None\<rparr>);
          Some (if focused (s_ed s1) then slowPoll s1 else s1) }
      | Some (FastPoll missed) \<Rightarrow> do {
          (s1, changed) \<leftarrow> readInput br (s\<lparr>poll := None\<rparr>);
          Some (if \<not> changed \<and> \<not> missed then s1\<lparr>poll := Some (FastPoll True)\<rparr>
                else slowPoll (with_ed ((s_ed s1)\<lparr>pollingFast := False\<rparr>) s1)) })"

subsection \<open>Focus and keys\<close>

definition onFocus :: "('g, 's, 'c) session \<Rightarrow> ('g, 's, 'c) session" where
  "onFocus s =
     (if readOnly (options (s_ed s)) = NoCursor then s
      else slowPoll (if focused (s_ed s) then s
                     else notify_page [Focused] (with_ed ((s_ed s)\<lparr>focused := True\<rparr>) s)))"

text \<open>\<open>input.focus()\<close> has the browser send the event that \<open>onFocus\<close> handles, unless the input has the focus.\<close>

definition focusInput :: "('g, 's, 'c) session \<Rightarrow> ('g, 's, 'c) session" where
  "focusInput s = (if readOnly (options (s_ed s)) = NoCursor \<or> focused (s_ed s) then s else onFocus s)"

text \<open>The closure in \<open>bracketHighlighted\<close>, called and forgotten.\<close>

definition clear_brackets :: "('g, 's) editor \<Rightarrow> ('g, 's) editor option" where
  "clear_brackets ed =
     (case bracketHighlighted ed of
        None \<Rightarrow> Some ed
      | Some ms \<Rightarrow> map_option (\<lambda>e. e\<lparr>bracketHighlighted := None\<rparr>) (clear_marks ms ed))"

definition onBlur :: "('s, 'c) browser \<Rightarrow> ('g, 's, 'c) session \<Rightarrow> ('g, 's, 'c) session option" where
  "onBlur br s = do {
     s1 \<leftarrow> (if focused (s_ed s) then do {
             let s1 = notify_page [Blurred] (with_ed ((s_ed s)\<lparr>focused := False\<rparr>) s);
             if bracketHighlighted (s_ed s1) \<noteq> None then operation br (operation br (lift_ed clear_brackets)) s1 else Some s1 }
           else Some s);
     Some (with_ed ((s_ed s1)\<lparr>timers := timers (s_ed s1) @ [RehideShift]\<rparr>) s1) }"

text \<open>
  The keyboard: the key maps and commands, and the event handler of the page, which may stop the event.
\<close>

record ('g, 's) keyboard =
  kb_table :: "(jstring \<times> key_map) list"
  kb_extra :: "map_ref option"
  kb_map :: map_ref
  kb_commands :: "(jstring \<times> ('g, 's) command) list"
  kb_funcs :: "nat \<Rightarrow> ('g, 's) ui \<Rightarrow> (('g, 's) ui \<times> bool) option"
  kb_fuel :: nat
  onKeyEvent :: bool

definition lift_ui :: "(('g, 's) ui \<Rightarrow> (bool \<times> ('g, 's) ui) option) \<Rightarrow> ('g, 's, 'c) session \<Rightarrow> (('g, 's, 'c) session \<times> bool) option" where
  "lift_ui f s = map_option (\<lambda>(handled, (ed, vw)). (s\<lparr>s_disp := (s_disp s)\<lparr>d_ed := ed, d_view := vw\<rparr>\<rparr>, handled))
     (f (s_ed s, d_view (s_disp s)))"

definition onKeyDown :: "('s, 'c) browser \<Rightarrow> ('g, 's) keyboard \<Rightarrow> key_event \<Rightarrow> ('g, 's, 'c) session \<Rightarrow> ('g, 's, 'c) session option" where
  "onKeyDown br kb e s0 = do {
     let s = (if focused (s_ed s0) then s0 else onFocus s0);
     s1 \<leftarrow> (if pollingFast (s_ed s)
             then map_option (\<lambda>(s1, changed). if changed then with_ed ((s_ed s1)\<lparr>pollingFast := False\<rparr>) s1 else s1) (readInput br s)
             else Some s);
     if onKeyEvent kb then Some s1
     else do {
       let s2 = with_ed (setShift (keyCode e = 16 \<or> shiftKey e) (s_ed s1)) s1;
       map_option fst (lift_ui (handleKeyBinding (kb_fuel kb) (kb_table kb) (kb_extra kb) (kb_map kb) (kb_commands kb) (kb_funcs kb) False e) s2) } }"

definition onKeyPress :: "('s, 'c) browser \<Rightarrow> ('g, 's) keyboard \<Rightarrow> char \<Rightarrow> ('g, 's, 'c) session \<Rightarrow> ('g, 's, 'c) session option" where
  "onKeyPress br kb ch s = do {
     s1 \<leftarrow> (if pollingFast (s_ed s) then map_option fst (readInput br s) else Some s);
     if onKeyEvent kb then Some s1
     else do {
       let opts = options (s_ed s1);
       let electric = (electricChars opts \<and> smartIndent opts \<and> readOnly opts = Editable \<and>
                       (case m_electric (mode (s_ed s1)) of None \<Rightarrow> False | Some cs \<Rightarrow> ch \<in> set cs));
       let s2 = (if electric then with_ed ((s_ed s1)\<lparr>timers := timers (s_ed s1) @ [ElectricIndent]\<rparr>) s1 else s1);
       (s3, handled) \<leftarrow> lift_ui (handleCharBinding (kb_fuel kb) (kb_table kb) (kb_extra kb) (kb_map kb) (kb_commands kb) (kb_funcs kb) ch) s2;
       Some (if handled then s3 else fastPoll s3) } }"

definition onKeyUp :: "('g, 's) keyboard \<Rightarrow> key_event \<Rightarrow> ('g, 's, 'c) session \<Rightarrow> ('g, 's, 'c) session" where
  "onKeyUp kb e s =
     (if \<not> onKeyEvent kb \<and> keyCode e = 16 then with_ed ((s_ed s)\<lparr>shiftSelecting := None\<rparr>) s else s)"


subsection \<open>Timers\<close>

definition clear_empty_line :: "nat \<Rightarrow> ('g, 's) editor \<Rightarrow> ('g, 's) editor option" where
  "clear_empty_line i ed =
     (case lineNo i (doc ed) of
        None \<Rightarrow> Some ed
      | Some n \<Rightarrow> do {
          l \<leftarrow> getLineAt (doc ed) n;
          if blank_text (ltext l)
          then map_option fst (replaceRange [] (Pos (int n) 0) (Some (Pos (int n) (int (length (ltext l))))) ed)
          else Some ed })"

definition rematch_brackets :: "('g, 's) editor \<Rightarrow> ('g, 's) editor option" where
  "rematch_brackets ed = do {
     ed1 \<leftarrow> clear_brackets ed;
     if posEq (sel_from ed1) (sel_to ed1) then map_option fst (matchBrackets False ed1) else Some ed1 }"

definition run_timer :: "('s, 'c) browser \<Rightarrow> timer \<Rightarrow> ('g, 's, 'c) session \<Rightarrow> ('g, 's, 'c) session option" where
  "run_timer br t s =
     (case t of
        ClearEmptyLine i \<Rightarrow> operation br (lift_ed (clear_empty_line i)) s
      | RunMatchBrackets \<Rightarrow> operation br (lift_ed rematch_brackets) s
      | ClearBrackets ms \<Rightarrow> operation br (lift_ed (clear_marks ms)) s
      | ElectricIndent \<Rightarrow> operation br (lift_ed (\<lambda>ed. indentLine (nat (pline (sel_to ed))) Smart ed)) s
      | RehideShift \<Rightarrow> Some (if focused (s_ed s) then s else with_ed ((s_ed s)\<lparr>shiftSelecting := None\<rparr>) s))"

text \<open>The delayed call of \<open>highlightWorker\<close>: only the entry in the log of changes is inside an operation.\<close>

definition run_worker :: "('s, 'c) browser \<Rightarrow> (nat \<Rightarrow> bool) \<Rightarrow> nat \<Rightarrow> ('g, 's, 'c) session \<Rightarrow> ('g, 's, 'c) session option" where
  "run_worker br late delay s =
     (let ed = (s_ed s)\<lparr>worker := None\<rparr> in
      if frontier ed \<ge> showingTo ed then Some (with_ed ed s)
      else do {
        ed2 \<leftarrow> worker_pass late delay ed;
        if frontier ed < showingTo ed2 \<and> showingFrom ed2 \<le> frontier ed2
        then operation br (lift_ed (\<lambda>e. Some (push_change (int (frontier ed)) (int (frontier ed2)) 0 e))) (with_ed ed2 s)
        else Some (with_ed ed2 s) })"

text \<open>\<open>matchBrackets()\<close> of the instance.\<close>

definition api_matchBrackets :: "('g, 's) editor \<Rightarrow> ('g, 's) editor option" where
  "api_matchBrackets ed = map_option
     (\<lambda>(ed1, ms). if ms = [] then ed1 else ed1\<lparr>timers := timers ed1 @ [ClearBrackets ms]\<rparr>) (matchBrackets True ed)"

end
