(* ===== verification/CM_Mouse.thy ===== *)
theory CM_Mouse
  imports CM_Operation
begin

section \<open>The mouse\<close>

text \<open>
  \<open>posFromMouse\<close>, \<open>onMouseDown\<close> with the drag that may follow, \<open>onDrop\<close> of text, \<open>onDragStart\<close> and \<open>onScrollBar\<close> of
  \<open>codemirror.js\<close>.  A mouse event carries its coordinates, relative to the scroller and to the text, its
  button, and where in the page it hit.  Dropped files are left out.
\<close>

datatype target = InText | InScroller | InWidget | InGutter nat

record mouse_event =
  m_x :: int
  m_y :: int
  m_left :: int
  m_top :: int
  m_button :: nat
  m_shift :: bool
  m_target :: target
  m_time :: int

text \<open>The result is the position with the flag \<open>after\<close>; the inner \<open>None\<close> is \<open>null\<close>.\<close>

definition posFromMouse ::
    "'s measure \<Rightarrow> bool \<Rightarrow> mouse_event \<Rightarrow> ('g, 's) editor \<Rightarrow> (pos \<times> bool option) option option" where
  "posFromMouse ms liberal e ed =
     (if \<not> liberal \<and> (m_x e > int (clientWidth (screen ed)) \<or> m_y e > int (clientHeight (screen ed))) then Some None
      else map_option Some (coordsChar ms ed (m_left e) (m_top e)))"

datatype click_type = Single | Double | Triple

text \<open>What the closures of one mouse press share.\<close>

record drag =
  dr_type :: click_type
  dr_start :: pos
  dr_last :: pos
  startstart :: pos
  startend :: pos

record clicks =
  lastClick :: "(int \<times> pos) option"
  lastDoubleClick :: "(int \<times> pos) option"
  draggingText :: bool

definition recent :: "int \<Rightarrow> pos \<Rightarrow> (int \<times> pos) option \<Rightarrow> bool" where
  "recent now p c = (case c of None \<Rightarrow> False | Some (t, q) \<Rightarrow> t > now - 400 \<and> posEq q p)"

definition doSelect :: "drag \<Rightarrow> pos \<times> bool option \<Rightarrow> ('g, 's) editor \<Rightarrow> ('g, 's) editor option" where
  "doSelect dr c ed = (case c of (cur, after) \<Rightarrow>
     (case dr_type dr of
        Single \<Rightarrow> setSelectionUser (dr_start dr) cur ed
      | Double \<Rightarrow> do {
          (wfrom, wto) \<leftarrow> findWordAt cur after ed;
          if posLess cur (startstart dr) then setSelectionUser wfrom (startend dr) ed
          else setSelectionUser (startstart dr) wto ed }
      | Triple \<Rightarrow>
          if posLess cur (startstart dr)
          then do { p \<leftarrow> clip ed (Pos (pline cur) 0); setSelectionUser (startend dr) p ed }
          else do { p \<leftarrow> clip ed (Pos (pline cur + 1) 0); setSelectionUser (startstart dr) p ed }))"

text \<open>The first part of a press with button 1 inside the text: what the click selects.\<close>

definition click_select :: "int \<Rightarrow> pos \<times> bool option \<Rightarrow> clicks \<Rightarrow> ('g, 's) editor \<Rightarrow> (click_type \<times> clicks \<times> ('g, 's) editor) option" where
  "click_select now c ck ed = (case c of (p, after) \<Rightarrow>
     (if recent now p (lastDoubleClick ck)
      then map_option (\<lambda>e. (Triple, ck, e)) (selectLine (pline p) ed)
      else if recent now p (lastClick ck)
      then do {
        (wfrom, wto) \<leftarrow> findWordAt p after ed;
        ed1 \<leftarrow> setSelectionUser wfrom wto ed;
        Some (Double, ck\<lparr>lastDoubleClick := Some (now, p)\<rparr>, ed1) }
      else Some (Single, ck\<lparr>lastClick := Some (now, p)\<rparr>, ed)))"

text \<open>What the following events of the mouse continue: a selection, or the drag of the selected text.\<close>

datatype gesture = Idle | Selecting drag | DraggingText mouse_event pos

text \<open>
  \<open>onMouseDown\<close>: \<open>dragDrop\<close> tells whether the page may drag text.  The result has the click of the gutter
  that the page is told of, and what the press has started.
\<close>

definition onMouseDown ::
    "'s measure \<Rightarrow> bool \<Rightarrow> mouse_event \<Rightarrow> clicks \<Rightarrow> ('g, 's, 'c) session \<Rightarrow>
     (('g, 's, 'c) session \<times> clicks \<times> nat option \<times> gesture) option" where
  "onMouseDown ms dragDrop e ck s0 =
     (let s = with_ed (setShift (m_shift e) (s_ed s0)) s0 in
      case m_target e of
        InWidget \<Rightarrow> Some (s, ck, None, Idle)
      | InGutter k \<Rightarrow> Some (s, ck, Some (k + showingFrom (s_ed s)), Idle)
      | _ \<Rightarrow> do {
          hit \<leftarrow> posFromMouse ms False e (s_ed s);
          if m_button e = 3 then Some (s, ck, None, Idle)
          else if m_button e = 2
          then (case hit of
              None \<Rightarrow> Some (s, ck, None, Idle)
            | Some (p, after) \<Rightarrow> map_option (\<lambda>s1. (s1, ck, None, Idle)) (lift_ed (setCursor (pline p) (Some (pch p)) True) s))
          else (case hit of
              None \<Rightarrow> Some (s, ck, None, Idle)
            | Some (p, after) \<Rightarrow> do {
                let s1 = (if focused (s_ed s) then s else onFocus s);
                (typ, ck1, ed1) \<leftarrow> click_select (m_time e) (p, after) ck (s_ed s1);
                let s2 = with_ed ed1 s1;
                if dragDrop \<and> readOnly (options ed1) = Editable \<and> \<not> posEq (sel_from ed1) (sel_to ed1) \<and>
                   \<not> posLess p (sel_from ed1) \<and> \<not> posLess (sel_to ed1) p \<and> typ = Single
                then Some (s2, ck1\<lparr>draggingText := True\<rparr>, None, DraggingText e p)
                else do {
                  ed2 \<leftarrow> (if typ = Single then setCursor (pline p) (Some (pch p)) True ed1 else Some ed1);
                  Some (with_ed ed2 s2, ck1, None,
                    Selecting \<lparr>dr_type = typ, dr_start = p, dr_last = p, startstart = sel_from ed2, startend = sel_to ed2\<rparr>) } }) })"

text \<open>\<open>extend\<close> on a move, \<open>done\<close> on release; the flag tells whether \<open>extend\<close> calls itself again after a while.\<close>

definition extend_drag :: "'s measure \<Rightarrow> mouse_event \<Rightarrow> drag \<Rightarrow> ('g, 's, 'c) session \<Rightarrow> (('g, 's, 'c) session \<times> drag \<times> bool) option" where
  "extend_drag ms e dr s = do {
     cur \<leftarrow> posFromMouse ms True e (s_ed s);
     (case cur of
        None \<Rightarrow> Some (s, dr, False)
      | Some (p, after) \<Rightarrow>
          if posEq p (dr_last dr) then Some (s, dr, False)
          else do {
            let s1 = (if focused (s_ed s) then s else onFocus s);
            ed1 \<leftarrow> doSelect dr (p, after) (s_ed s1);
            let ed2 = ed1\<lparr>updateInput := Some False\<rparr>;
            let (vfrom, vto) = visibleLines ed2 (d_view (s_disp s1)) None;
            Some (with_ed ed2 s1, dr\<lparr>dr_last := p\<rparr>, pline p \<ge> vto \<or> pline p < vfrom) }) }"

definition end_drag :: "'s measure \<Rightarrow> mouse_event \<Rightarrow> drag \<Rightarrow> ('g, 's) editor \<Rightarrow> ('g, 's) editor option" where
  "end_drag ms e dr ed = do {
     cur \<leftarrow> posFromMouse ms False e ed;
     ed1 \<leftarrow> (case cur of None \<Rightarrow> Some ed | Some c \<Rightarrow> doSelect dr c ed);
     Some (ed1\<lparr>updateInput := Some True\<rparr>) }"

text \<open>\<open>dragEnd\<close>: a press inside the selection that moved by less than 10 pixels sets the cursor.\<close>

definition dragEnd :: "mouse_event \<Rightarrow> mouse_event \<Rightarrow> pos \<Rightarrow> clicks \<Rightarrow> ('g, 's, 'c) session \<Rightarrow> (('g, 's, 'c) session \<times> clicks) option" where
  "dragEnd e e2 p ck s =
     map_option (\<lambda>s1. (s1, ck\<lparr>draggingText := False\<rparr>))
       (if \<bar>m_x e - m_x e2\<bar> + \<bar>m_y e - m_y e2\<bar> < 10
        then map_option focusInput (lift_ed (setCursor (pline p) (Some (pch p)) True) s) else Some s)"

text \<open>
  \<open>onDrop\<close> with a text.  An exception is caught behind the changes made so far; the model has \<open>None\<close> there.
\<close>

definition drop_change :: "pos \<Rightarrow> bool \<Rightarrow> jstring \<Rightarrow> ('g, 's) editor \<Rightarrow> ('g, 's) editor option" where
  "drop_change p dragging txt ed = do {
     let curFrom = sel_from ed;
     let curTo = sel_to ed;
     ed1 \<leftarrow> setSelectionUser p p ed;
     ed2 \<leftarrow> (if dragging then map_option fst (replaceRange [] curFrom (Some curTo) ed1) else Some ed1);
     replaceSelection txt NoCollapse ed2 }"

definition onDrop :: "'s measure \<Rightarrow> mouse_event \<Rightarrow> jstring \<Rightarrow> clicks \<Rightarrow> ('g, 's, 'c) session \<Rightarrow> ('g, 's, 'c) session option" where
  "onDrop ms e txt ck s = do {
     let ed = s_ed s;
     cur \<leftarrow> posFromMouse ms True e ed;
     (case cur of
        None \<Rightarrow> Some s
      | Some (p, after) \<Rightarrow>
          if readOnly (options ed) \<noteq> Editable then Some s
          else if draggingText ck \<and> \<not> (posLess p (sel_from ed) \<or> posLess (sel_to ed) p) then Some s
          else if txt = [] then Some s
          else map_option focusInput (lift_ed (compoundChange (drop_change p (draggingText ck) txt)) s)) }"

definition onDragStart :: "('g, 's) editor \<Rightarrow> jstring option" where
  "onDragStart ed = getSelection ed [CHR 0x0A]"

text \<open>
  \<open>onScrollBar\<close> and the scrolling part of \<open>onScrollMain\<close>: \<open>t\<close> is the offset that the browser reports, after the
  user or the editor itself has scrolled.
\<close>

definition onScroll :: "('s, 'c) browser \<Rightarrow> int \<Rightarrow> ('g, 's, 'c) display \<Rightarrow> (('g, 's, 'c) display) option" where
  "onScroll br t d =
     (if t = lastScrollTop (d_view d) then Some (d\<lparr>d_view := (d_view d)\<lparr>scrollTop := t\<rparr>\<rparr>)
      else (case updateDisplay (br_content br) (br_measure br) (br_height br) (br_gutter br) (Some []) False None
              (d\<lparr>d_view := (d_view d)\<lparr>scrollTop := t, lastScrollTop := t\<rparr>\<rparr>) of Inl e \<Rightarrow> None | Inr (d1, updated) \<Rightarrow> Some d1))"

subsection \<open>Dropped files\<close>

text \<open>
  \<open>onDrop\<close> with files: one reader for each file; \<open>file_loaded\<close> is its callback \<open>onload\<close>, for file \<open>i\<close> with the
  content \<open>r\<close>.  The closure shares the array of contents and the counter; the last callback inserts.
\<close>

record file_drop =
  fd_pos :: pos
  fd_text :: "jstring option list"
  fd_read :: nat

definition newDrop :: "pos \<Rightarrow> nat \<Rightarrow> file_drop" where
  "newDrop p n = \<lparr>fd_pos = p, fd_text = replicate n None, fd_read = 0\<rparr>"

definition dropped_text :: "jstring option list \<Rightarrow> jstring" where
  "dropped_text ts = concat (map (\<lambda>t. case t of None \<Rightarrow> [] | Some r \<Rightarrow> r) ts)"

definition insert_files :: "('s, 'c) browser \<Rightarrow> pos \<Rightarrow> jstring \<Rightarrow> ('g, 's, 'c) session \<Rightarrow> ('g, 's, 'c) session option" where
  "insert_files br p txt s =
     operation br (lift_ed (\<lambda>ed. do {
       (ed1, e) \<leftarrow> replaceRange txt p (Some p) ed;
       setSelectionUser p e ed1 })) s"

definition file_loaded ::
    "('s, 'c) browser \<Rightarrow> nat \<Rightarrow> jstring \<Rightarrow> file_drop \<times> ('g, 's, 'c) session \<Rightarrow> (file_drop \<times> ('g, 's, 'c) session) option" where
  "file_loaded br i r st = (case st of (fd, s) \<Rightarrow>
     (let fd1 = fd\<lparr>fd_text := (fd_text fd)[i := Some r], fd_read := fd_read fd + 1\<rparr>
      in if fd_read fd1 = length (fd_text fd1) then do {
           p \<leftarrow> clip (s_ed s) (fd_pos fd1);
           s1 \<leftarrow> insert_files br p (dropped_text (fd_text fd1)) s;
           Some (fd1\<lparr>fd_pos := p\<rparr>, s1) }
         else Some (fd1, s)))"

fun files_loaded ::
    "('s, 'c) browser \<Rightarrow> (nat \<times> jstring) list \<Rightarrow> file_drop \<times> ('g, 's, 'c) session \<Rightarrow> (file_drop \<times> ('g, 's, 'c) session) option" where
  "files_loaded br [] st = Some st"
| "files_loaded br ((i, r) # rs) st = do { st1 \<leftarrow> file_loaded br i r st; files_loaded br rs st1 }"

end
