(* ===== verification/CM_Interface.thy ===== *)
theory CM_Interface
  imports CM_Mouse
begin

section \<open>The methods of the instance\<close>

text \<open>
  The methods of the instance (\<open>codemirror.js\<close>) that are more than a call of a function modelled elsewhere:
  coordinates, saved histories, whole lines, widgets, options and scrolling.
\<close>

subsection \<open>Coordinates\<close>

text \<open>\<open>pageCoords\<close>: \<open>off\<close> is the offset of the lines in the page, left and top.\<close>

definition pageCoords :: "'s measure \<Rightarrow> int \<times> int \<Rightarrow> ('g, 's) editor \<Rightarrow> pos \<Rightarrow> (int \<times> int \<times> int) option" where
  "pageCoords ms off ed p =
     map_option (\<lambda>(x, y, yBot). (fst off + x, snd off + y, snd off + yBot)) (localCoords ms ed p True)"

datatype coord_mode = LocalCoords | DivCoords | PageCoords

definition charCoords :: "'s measure \<Rightarrow> int \<times> int \<Rightarrow> pos \<Rightarrow> coord_mode \<Rightarrow> ('g, 's) editor \<Rightarrow> (int \<times> int \<times> int) option" where
  "charCoords ms off p0 m ed = do {
     p \<leftarrow> clip ed p0;
     (case m of LocalCoords \<Rightarrow> localCoords ms ed p False | DivCoords \<Rightarrow> localCoords ms ed p True
      | PageCoords \<Rightarrow> pageCoords ms off ed p) }"

definition cursorCoords :: "'s measure \<Rightarrow> int \<times> int \<Rightarrow> bool option \<Rightarrow> coord_mode \<Rightarrow> ('g, 's) editor \<Rightarrow> (int \<times> int \<times> int) option" where
  "cursorCoords ms off start1 m ed = charCoords ms off (getCursor start1 ed) m ed"

definition api_coordsChar :: "'s measure \<Rightarrow> int \<times> int \<Rightarrow> int \<Rightarrow> int \<Rightarrow> ('g, 's) editor \<Rightarrow> (pos \<times> bool option) option" where
  "api_coordsChar ms off x y ed = coordsChar ms ed (x - fst off) (y - snd off)"

text \<open>
  \<open>addWidget\<close>: left and top of the node, its CSS \<open>right\<close> being 0 where \<open>left\<close> is \<open>None\<close>; then the node is
  scrolled into view.
\<close>

datatype vert_place = Below | Over | Near
datatype horiz_place = Rightmost | Leftmost | Middle | AtChar

record widget =
  w_width :: int
  w_height :: int

definition widget_top :: "('g, 's) editor \<Rightarrow> view \<Rightarrow> vert_place \<Rightarrow> widget \<Rightarrow> int \<times> int \<times> int \<Rightarrow> int" where
  "widget_top ed vw vert w c = (case c of (x, y, yBot) \<Rightarrow>
     (case vert of
        Below \<Rightarrow> yBot
      | Over \<Rightarrow> y
      | Near \<Rightarrow>
          let vspace = max (scrollerHeight vw) (chunkHeight (doc ed) * textHeight (screen ed))
          in if yBot + w_height w > vspace \<and> y > w_height w then y - w_height w else yBot))"

definition widget_left :: "('g, 's) editor \<Rightarrow> view \<Rightarrow> int \<Rightarrow> vert_place \<Rightarrow> widget \<Rightarrow> int \<Rightarrow> int" where
  "widget_left ed vw sizerWidth vert w x =
     (let hspace = max sizerWidth (spaceWidth vw) - paddingLeft (screen ed)
      in if vert = Near \<and> x + w_width w > hspace then hspace - w_width w else x)"

definition addWidget ::
    "'s measure \<Rightarrow> int \<Rightarrow> pos \<Rightarrow> bool \<Rightarrow> vert_place \<Rightarrow> horiz_place \<Rightarrow> widget \<Rightarrow> ('g, 's) ui \<Rightarrow>
     ((int option \<times> int) \<times> ('g, 's) ui) option" where
  "addWidget ms sizerWidth p0 scroll vert horiz w st = (case st of (ed, vw) \<Rightarrow> do {
     p \<leftarrow> clip ed p0;
     (x, y, yBot) \<leftarrow> localCoords ms ed p False;
     let top1 = widget_top ed vw vert w (x, y, yBot);
     let left0 = widget_left ed vw sizerWidth vert w x;
     let left1 = (case horiz of Rightmost \<Rightarrow> sizerWidth - w_width w | Leftmost \<Rightarrow> 0
                  | Middle \<Rightarrow> (sizerWidth - w_width w) div 2 | AtChar \<Rightarrow> left0);
     Some ((if horiz = Rightmost then None else Some (left1 + paddingLeft (screen ed)), top1 + paddingTop (screen ed)),
       (ed, if scroll then scrollIntoView ed left1 top1 (left1 + w_width w) (top1 + w_height w) vw else vw)) })"

subsection \<open>Lines and histories\<close>

definition setLine :: "int \<Rightarrow> jstring \<Rightarrow> ('g, 's) editor \<Rightarrow> ('g, 's) editor option" where
  "setLine n txt ed =
     (if isLine ed n then do {
        t \<leftarrow> line_text ed n;
        map_option fst (replaceRange txt (Pos n 0) (Some (Pos n (int (length t)))) ed) }
      else Some ed)"

definition removeLine :: "int \<Rightarrow> ('g, 's) editor \<Rightarrow> ('g, 's) editor option" where
  "removeLine n ed =
     (if isLine ed n then do {
        e \<leftarrow> clip ed (Pos (n + 1) 0);
        map_option fst (replaceRange [] (Pos n 0) (Some e) ed) }
      else Some ed)"

definition onDeleteLine :: "handle \<Rightarrow> nat \<Rightarrow> ('g, 's) editor \<Rightarrow> ('g, 's) editor \<times> nat option" where
  "onDeleteLine h f ed =
     (case (case h of ByNumber n \<Rightarrow> (if isLine ed n then map_option lid (getLine ed n) else None) | ByLine i \<Rightarrow> Some i) of
        None \<Rightarrow> (ed, None)
      | Some i \<Rightarrow> (map_ident i (\<lambda>l. l\<lparr>lhandlers := lhandlers l @ [f]\<rparr>) ed, Some i))"

text \<open>\<open>getHistory\<close> copies the texts and leaves the marks out.\<close>

definition cp_changes :: "hl change list list \<Rightarrow> jstring change list list" where
  "cp_changes arr = map (map (\<lambda>c. \<lparr>cstart = cstart c, cadded = cadded c, cold = map hlText (cold c)\<rparr>)) arr"

definition getHistory :: "('g, 's) editor \<Rightarrow> (jstring change list list \<times> jstring change list list) option" where
  "getHistory ed = map_option (\<lambda>h. (cp_changes (hdone h), cp_changes (hundone h))) (history ed)"

text \<open>A string is a history line without marks.\<close>

definition as_lines :: "jstring change list list \<Rightarrow> hl change list list" where
  "as_lines arr = map (map (\<lambda>c. \<lparr>cstart = cstart c, cadded = cadded c, cold = map HL (cold c)\<rparr>)) arr"

definition setHistory :: "jstring change list list \<times> jstring change list list \<Rightarrow> ('g, 's) editor \<Rightarrow> ('g, 's) editor" where
  "setHistory hs ed = ed\<lparr>history := Some (newHistory\<lparr>hdone := as_lines (fst hs), hundone := as_lines (snd hs)\<rparr>)\<rparr>"

definition clearHistory :: "('g, 's) editor \<Rightarrow> ('g, 's) editor" where
  "clearHistory ed = ed\<lparr>history := Some newHistory\<rparr>"

subsection \<open>Options and scrolling\<close>

definition gutterChanged :: "('g, 's, 'c) display \<Rightarrow> ('g, 's, 'c) display" where
  "gutterChanged d =
     (if opt_gutter (d_opts d) \<or> lineNumbers (d_opts d) then d\<lparr>d_ed := (d_ed d)\<lparr>gutterDirty := True\<rparr>\<rparr>
      else d\<lparr>marginLeft := 0\<rparr>)"

definition redraw :: "('s, 'c) browser \<Rightarrow> bool \<Rightarrow> int option \<Rightarrow> ('g, 's, 'c) session \<Rightarrow> ('g, 's, 'c) session option" where
  "redraw br suppress st s =
     (case updateDisplay (br_content br) (br_measure br) (br_height br) (br_gutter br) None suppress st (s_disp s) of
        Inl e \<Rightarrow> None | Inr (d, updated) \<Rightarrow> Some (s\<lparr>s_disp := d\<rparr>))"

datatype setting =
    SetIndentUnit int
  | SetReadOnly read_only
  | SetLineWrapping bool
  | SetTabSize nat
  | SetLineNumbers bool
  | SetGutter bool
  | SetFirstLineNumber int

text \<open>\<open>setOption\<close> for the options that the code treats specially, \<open>mode\<close>, \<open>theme\<close> and \<open>keyMap\<close> apart.\<close>

definition set_options :: "(options \<Rightarrow> options) \<Rightarrow> ('g, 's, 'c) session \<Rightarrow> ('g, 's, 'c) session" where
  "set_options f s = with_ed ((s_ed s)\<lparr>options := f (options (s_ed s))\<rparr>) s"

definition set_gutter_option :: "('s, 'c) browser \<Rightarrow> (display_options \<Rightarrow> display_options) \<Rightarrow> ('g, 's, 'c) session \<Rightarrow> ('g, 's, 'c) session option" where
  "set_gutter_option br f s =
     (let d = s_disp s in redraw br False None (s\<lparr>s_disp := gutterChanged (d\<lparr>d_opts := f (d_opts d)\<rparr>)\<rparr>))"

fun setOption :: "('s, 'c) browser \<Rightarrow> setting \<Rightarrow> ('g, 's, 'c) session \<Rightarrow> ('g, 's, 'c) session option" where
  "setOption br (SetIndentUnit n) s =
     (let s1 = set_options (\<lambda>opts. opts\<lparr>indentUnit := n\<rparr>) s in
      Some (with_ed (loadMode (mode (s_ed s1)) (mode_env (s_ed s1)) (s_ed s1)) s1))"
| "setOption br (SetReadOnly v) s =
     (let s1 = set_options (\<lambda>opts. opts\<lparr>readOnly := v\<rparr>) s in
      if v = NoCursor then onBlur br s1
      else if v = Editable then lift_ed (resetInput True) s1 else Some s1)"
| "setOption br (SetLineWrapping b) s =
     (let s1 = set_options (\<lambda>opts. opts\<lparr>lineWrapping := b\<rparr>) s in
      if lineWrapping (options (s_ed s)) \<noteq> b then operation br (lift_ed wrappingChanged) s1 else Some s1)"
| "setOption br (SetTabSize n) s = redraw br False None (set_options (\<lambda>opts. opts\<lparr>tab_size := n\<rparr>) s)"
| "setOption br (SetLineNumbers b) s = set_gutter_option br (\<lambda>opts. opts\<lparr>lineNumbers := b\<rparr>) s"
| "setOption br (SetGutter b) s = set_gutter_option br (\<lambda>opts. opts\<lparr>opt_gutter := b\<rparr>) s"
| "setOption br (SetFirstLineNumber n) s = set_gutter_option br (\<lambda>opts. opts\<lparr>firstLineNumber := n\<rparr>) s"

definition scrollTo :: "('s, 'c) browser \<Rightarrow> int option \<Rightarrow> int option \<Rightarrow> ('g, 's, 'c) session \<Rightarrow> ('g, 's, 'c) session option" where
  "scrollTo br x y s =
     (let d = s_disp s; vw = d_view d;
          vw1 = (case x of None \<Rightarrow> vw | Some l \<Rightarrow> vw\<lparr>scrollLeft := l\<rparr>);
          vw2 = (case y of None \<Rightarrow> vw1 | Some t \<Rightarrow> vw1\<lparr>scrollTop := t\<rparr>)
      in case updateDisplay (br_content br) (br_measure br) (br_height br) (br_gutter br) (Some []) False None (d\<lparr>d_view := vw2\<rparr>) of
           Inl e \<Rightarrow> None | Inr (d1, updated) \<Rightarrow> Some (s\<lparr>s_disp := d1\<rparr>))"

text \<open>The bar has the height that \<open>updateVerticalScroll\<close> gave it, and none while it is not displayed.\<close>

definition refresh :: "('s, 'c) browser \<Rightarrow> ('g, 's, 'c) session \<Rightarrow> ('g, 's, 'c) session option" where
  "refresh br s = do {
     let top = lastScrollTop (d_view (s_disp s));
     s1 \<leftarrow> redraw br False (Some top) s;
     let d = s_disp s1;
     Some (if top < (case barHeight d of None \<Rightarrow> 0 | Some h \<Rightarrow> h)
           then s1\<lparr>s_disp := d\<lparr>d_view := (d_view d)\<lparr>scrollTop := top\<rparr>\<rparr>\<rparr> else s1) }"

end
