(* ===== verification/CM_Context.thy ===== *)
theory CM_Context
  imports CM_Interface
begin

section \<open>The context menu\<close>

text \<open>
  \<open>onContextMenu\<close> of \<open>codemirror.js\<close> with what it leaves to its timers: the hidden input is put under the mouse so
  that the menu of the browser works on it, \<open>rehide\<close> takes it back, and a poll looks whether the user chose
  "select all".  Also \<open>e_button\<close>.  The position of the input on the page, which has no influence on the editor,
  is left out.
\<close>

text \<open>The button of an event; \<open>None\<close> is \<open>undefined\<close>.\<close>

record raw_button =
  rb_which :: "nat option"
  rb_button :: nat
  rb_ctrl :: bool

definition e_button :: "bool \<Rightarrow> raw_button \<Rightarrow> nat option" where
  "e_button mac e =
     (let b = (case rb_which e of
                 Some w \<Rightarrow> Some w
               | None \<Rightarrow> if odd (rb_button e) then Some 1 else if odd (rb_button e div 2) then Some 3
                         else if odd (rb_button e div 4) then Some 2 else None)
      in if mac \<and> rb_ctrl e \<and> b = Some 1 then Some 3 else b)"

text \<open>The flag tells whether \<open>rehide\<close> will be called.\<close>

definition onContextMenu :: "('s, 'c) browser \<Rightarrow> bool \<Rightarrow> mouse_event \<Rightarrow> ('g, 's, 'c) session \<Rightarrow> (('g, 's, 'c) session \<times> bool) option" where
  "onContextMenu br opera e s = do {
     hit \<leftarrow> posFromMouse (br_measure br) False e (s_ed s);
     (case hit of
        None \<Rightarrow> Some (s, False)
      | Some (p, after) \<Rightarrow>
          if opera then Some (s, False)
          else do {
            let ed = s_ed s;
            s1 \<leftarrow> (if posEq (sel_from ed) (sel_to ed) \<or> posLess p (sel_from ed) \<or> \<not> posLess p (sel_to ed)
                   then operation br (lift_ed (setCursor (pline p) (Some (pch p)) False)) s else Some s);
            s2 \<leftarrow> lift_ed (resetInput True) (focusInput s1);
            let ed2 = s_ed s2;
            Some (if posEq (sel_from ed2) (sel_to ed2) then with_ed (ed2\<lparr>input := '' '', prevInput := '' ''\<rparr>) s2 else s2, True) }) }"

text \<open>\<open>rehide\<close> in a browser that tells the selection of the input, which is then behind the first character.\<close>

definition rehide :: "('g, 's, 'c) session \<Rightarrow> ('g, 's, 'c) session" where
  "rehide s =
     (let s1 = slowPoll s; ed = s_ed s1;
          extval = CHR '' '' # (if posEq (sel_from ed) (sel_to ed) then [] else input ed)
      in with_ed (ed\<lparr>input := extval, prevInput := '' ''\<rparr>) s1)"

text \<open>
  The function \<open>poll\<close>: \<open>start\<close> is \<open>input.selectionStart\<close> and \<open>i\<close> the counter; a counter in the result means that it
  is called again.
\<close>

definition poll_menu :: "('s, 'c) browser \<Rightarrow> nat \<Rightarrow> nat \<Rightarrow> ('g, 's, 'c) session \<Rightarrow> (('g, 's, 'c) session \<times> nat option) option" where
  "poll_menu br start1 i s =
     (if prevInput (s_ed s) = '' '' \<and> start1 = 0 then map_option (\<lambda>s1. (s1, None)) (operation br (lift_ed selectAll) s)
      else if i < 10 then Some (s, Some (Suc i))
      else map_option (\<lambda>s1. (s1, None)) (lift_ed (resetInput False) s))"

text \<open>The polls for the given starts of the selection; the flag tells whether it still waits.\<close>

fun poll_menus :: "('s, 'c) browser \<Rightarrow> nat list \<Rightarrow> nat \<Rightarrow> ('g, 's, 'c) session \<Rightarrow> (('g, 's, 'c) session \<times> bool) option" where
  "poll_menus br [] i s = Some (s, True)"
| "poll_menus br (a # as) i s = do {
     (s1, again) \<leftarrow> poll_menu br a i s;
     (case again of None \<Rightarrow> Some (s1, False) | Some k \<Rightarrow> poll_menus br as k s1) }"

end
