(* ===== verification/CM_Events.thy ===== *)
theory CM_Events
  imports CM_Context
begin

section \<open>The events of a page\<close>

text \<open>
  The handlers that \<open>CodeMirror\<close> connects to the nodes of the editor, each wrapped in \<open>operation\<close> as the calls of
  \<open>connect\<close> wrap it, the callbacks of its timers, and the calls of the instance, as the steps of a page: the
  session of the editor, the last clicks, what the mouse has started, and the state of the context menu.
\<close>

text \<open>The menu: opened, with \<open>rehide\<close> to come, or closed and polled for "select all".\<close>

datatype menu = NoMenu | MenuOpen | MenuPolled nat

record ('g, 's, 'c) page =
  pg_session :: "('g, 's, 'c) session"
  pg_clicks :: clicks
  pg_gesture :: gesture
  pg_menu :: menu

text \<open>\<open>operation(f)\<close> for a handler that also leaves something for its closures.\<close>

definition operation_with :: "('s, 'c) browser \<Rightarrow> (('g, 's, 'c) session \<Rightarrow> (('g, 's, 'c) session \<times> 'r) option) \<Rightarrow>
    ('g, 's, 'c) session \<Rightarrow> (('g, 's, 'c) session \<times> 'r) option" where
  "operation_with br f s = do {
     let ed = s_ed s;
     let ed1 = (if nestedOperation ed = 0 then startOperation ed else ed);
     (s1, r) \<leftarrow> f (with_ed (ed1\<lparr>nestedOperation := nestedOperation ed + 1\<rparr>) s);
     let s2 = with_ed ((s_ed s1)\<lparr>nestedOperation := nestedOperation (s_ed s1) - 1\<rparr>) s1;
     s3 \<leftarrow> (if nestedOperation (s_ed s2) = 0 then endOperation br s2 else Some s2);
     Some (s3, r) }"

text \<open>The methods of the instance that commands use.\<close>

datatype motion = MoveH int h_unit | DeleteH int h_unit | MoveV int v_unit | IndentSelection indent_how

fun run_method :: "('s, 'c) browser \<Rightarrow> motion \<Rightarrow> ('g, 's) ui \<Rightarrow> ('g, 's) ui option" where
  "run_method br (MoveH dir unit) st = on_ed (moveH dir unit) st"
| "run_method br (DeleteH dir unit) st = on_ed (deleteH dir unit) st"
| "run_method br (MoveV dir unit) st = moveV (br_measure br) dir unit st"
| "run_method br (IndentSelection how) st = on_ed (indentSelected how) st"

definition call_method :: "('s, 'c) browser \<Rightarrow> motion \<Rightarrow> ('g, 's, 'c) session \<Rightarrow> ('g, 's, 'c) session option" where
  "call_method br m s = map_option fst (lift_ui (\<lambda>st. map_option (Pair True) (run_method br m st)) s)"

text \<open>
  Typing changes the hidden input, and its event \<open>input\<close> starts \<open>fastPoll\<close>.  The flag of \<open>Press\<close> tells whether the
  page may drag text, the one of \<open>Work\<close> behind which lines the time of the worker is up; a \<open>Resize\<close> comes with the new
  width and height of the editor, a \<open>Drop\<close> with the text, an \<open>AskMenu\<close> with the start of the selection of the
  hidden input.
\<close>

datatype event =
    CallApi api
  | CallMethod motion
  | KeyDown key_event
  | KeyPress char
  | KeyUp key_event
  | TypeInto jstring
  | Paste
  | Cut
  | Poll
  | Timer timer
  | Work "nat \<Rightarrow> bool" nat
  | Focus
  | Blur
  | Scroll int
  | Resize nat nat
  | Press mouse_event bool
  | Move mouse_event
  | Release mouse_event
  | Drop mouse_event jstring
  | ContextMenu mouse_event bool
  | Rehide
  | AskMenu nat

definition on_session :: "(('g, 's, 'c) session \<Rightarrow> ('g, 's, 'c) session option) \<Rightarrow> ('g, 's, 'c) page \<Rightarrow> ('g, 's, 'c) page option" where
  "on_session f pg = map_option (\<lambda>s. pg\<lparr>pg_session := s\<rparr>) (f (pg_session pg))"

definition onCut :: "('g, 's, 'c) session \<Rightarrow> ('g, 's, 'c) session option" where
  "onCut s = (if readOnly (options (s_ed s)) = Editable then lift_ed (replaceSelection [] NoCollapse) s else Some s)"

definition onResize :: "('s, 'c) browser \<Rightarrow> nat \<Rightarrow> nat \<Rightarrow> ('g, 's, 'c) session \<Rightarrow> ('g, 's, 'c) session option" where
  "onResize br w h s =
     redraw br False None (with_ed ((s_ed s)\<lparr>screen := (screen (s_ed s))\<lparr>clientWidth := w, clientHeight := h\<rparr>\<rparr>) s)"

subsection \<open>The mouse\<close>

definition press :: "('s, 'c) browser \<Rightarrow> bool \<Rightarrow> mouse_event \<Rightarrow> ('g, 's, 'c) page \<Rightarrow> ('g, 's, 'c) page option" where
  "press br dragDrop e pg =
     map_option (\<lambda>(s, ck, gutter, g). pg\<lparr>pg_session := s, pg_clicks := ck, pg_gesture := g\<rparr>)
       (operation_with br (onMouseDown (br_measure br) dragDrop e (pg_clicks pg)) (pg_session pg))"

text \<open>\<open>done\<close> at the end of a selection.\<close>

definition finish_drag :: "('s, 'c) browser \<Rightarrow> mouse_event \<Rightarrow> drag \<Rightarrow> ('g, 's, 'c) page \<Rightarrow> ('g, 's, 'c) page option" where
  "finish_drag br e dr pg =
     map_option (\<lambda>pg1. pg1\<lparr>pg_gesture := Idle\<rparr>)
       (on_session (operation br (\<lambda>s. map_option focusInput (lift_ed (end_drag (br_measure br) e dr) s))) pg)"

text \<open>The handler of \<open>mousemove\<close>: a move without a button ends the selection.\<close>

definition move_drag :: "('s, 'c) browser \<Rightarrow> mouse_event \<Rightarrow> drag \<Rightarrow> ('g, 's, 'c) page \<Rightarrow> ('g, 's, 'c) page option" where
  "move_drag br e dr pg =
     (if m_button e = 0 then finish_drag br e dr pg
      else map_option (\<lambda>(s, dr1, again). pg\<lparr>pg_session := s, pg_gesture := Selecting dr1\<rparr>)
        (operation_with br (extend_drag (br_measure br) e dr) (pg_session pg)))"

definition end_text_drag :: "('s, 'c) browser \<Rightarrow> mouse_event \<Rightarrow> mouse_event \<Rightarrow> pos \<Rightarrow> ('g, 's, 'c) page \<Rightarrow> ('g, 's, 'c) page option" where
  "end_text_drag br e2 e p pg =
     map_option (\<lambda>(s, ck). pg\<lparr>pg_session := s, pg_clicks := ck, pg_gesture := Idle\<rparr>)
       (operation_with br (dragEnd e e2 p (pg_clicks pg)) (pg_session pg))"

text \<open>The handler of the constructor comes before the one of the press.\<close>

definition drop_text :: "('s, 'c) browser \<Rightarrow> mouse_event \<Rightarrow> jstring \<Rightarrow> ('g, 's, 'c) page \<Rightarrow> ('g, 's, 'c) page option" where
  "drop_text br e t pg = do {
     pg1 \<leftarrow> on_session (operation br (onDrop (br_measure br) e t (pg_clicks pg))) pg;
     (case pg_gesture pg1 of DraggingText e0 p \<Rightarrow> end_text_drag br e e0 p pg1 | _ \<Rightarrow> Some pg1) }"

subsection \<open>The menu\<close>

definition open_menu :: "('s, 'c) browser \<Rightarrow> bool \<Rightarrow> mouse_event \<Rightarrow> ('g, 's, 'c) page \<Rightarrow> ('g, 's, 'c) page option" where
  "open_menu br opera e pg =
     map_option (\<lambda>(s, asked). pg\<lparr>pg_session := s, pg_menu := (if asked then MenuOpen else pg_menu pg)\<rparr>)
       (onContextMenu br opera e (pg_session pg))"

definition ask_menu :: "('s, 'c) browser \<Rightarrow> nat \<Rightarrow> ('g, 's, 'c) page \<Rightarrow> ('g, 's, 'c) page option" where
  "ask_menu br a pg =
     (case pg_menu pg of
        MenuPolled i \<Rightarrow>
          map_option (\<lambda>(s, again). pg\<lparr>pg_session := s, pg_menu := (case again of None \<Rightarrow> NoMenu | Some k \<Rightarrow> MenuPolled k)\<rparr>)
            (poll_menu br a i (pg_session pg))
      | _ \<Rightarrow> Some pg)"

subsection \<open>Steps\<close>

fun run_event :: "('s, 'c) browser \<Rightarrow> ('g, 's) keyboard \<Rightarrow> event \<Rightarrow> ('g, 's, 'c) page \<Rightarrow> ('g, 's, 'c) page option" where
  "run_event br kb (CallApi a) pg = on_session (operation br (lift_ed (run_api a))) pg"
| "run_event br kb (CallMethod m) pg = on_session (operation br (call_method br m)) pg"
| "run_event br kb (KeyDown e) pg = on_session (operation br (onKeyDown br kb e)) pg"
| "run_event br kb (KeyPress ch) pg = on_session (operation br (onKeyPress br kb ch)) pg"
| "run_event br kb (KeyUp e) pg = on_session (operation br (\<lambda>s. Some (onKeyUp kb e s))) pg"
| "run_event br kb (TypeInto t) pg = on_session (\<lambda>s. Some (fastPoll (with_ed ((s_ed s)\<lparr>input := t\<rparr>) s))) pg"
| "run_event br kb Paste pg = on_session (\<lambda>s. Some (fastPoll (focusInput s))) pg"
| "run_event br kb Cut pg = on_session (operation br onCut) pg"
| "run_event br kb Poll pg = on_session (run_poll br) pg"
| "run_event br kb (Timer t) pg =
     on_session (\<lambda>s. run_timer br t (with_ed ((s_ed s)\<lparr>timers := remove1 t (timers (s_ed s))\<rparr>) s)) pg"
| "run_event br kb (Work late delay) pg = on_session (run_worker br late delay) pg"
| "run_event br kb Focus pg = on_session (\<lambda>s. Some (onFocus s)) pg"
| "run_event br kb Blur pg = on_session (onBlur br) pg"
| "run_event br kb (Scroll t) pg = on_session (\<lambda>s. map_option (\<lambda>d. s\<lparr>s_disp := d\<rparr>) (onScroll br t (s_disp s))) pg"
| "run_event br kb (Resize w h) pg = on_session (onResize br w h) pg"
| "run_event br kb (Press e dragDrop) pg = press br dragDrop e pg"
| "run_event br kb (Move e) pg = (case pg_gesture pg of Selecting dr \<Rightarrow> move_drag br e dr pg | _ \<Rightarrow> Some pg)"
| "run_event br kb (Release e) pg =
     (case pg_gesture pg of
        Selecting dr \<Rightarrow> finish_drag br e dr pg
      | DraggingText e0 p \<Rightarrow> end_text_drag br e e0 p pg
      | Idle \<Rightarrow> Some pg)"
| "run_event br kb (Drop e t) pg = drop_text br e t pg"
| "run_event br kb (ContextMenu e opera) pg = open_menu br opera e pg"
| "run_event br kb Rehide pg = on_session (\<lambda>s. Some (rehide s)) (pg\<lparr>pg_menu := MenuPolled 0\<rparr>)"
| "run_event br kb (AskMenu a) pg = ask_menu br a pg"

text \<open>
  The conditions on the events.  What the page and the browser are relied on for: the ends given to \<open>replaceRange\<close>
  are in order, a direction is 1 or -1, a scroll offset is not negative, a window has room for its padding, a timer or
  the worker fires only when it was set, and the question after the context menu is asked only when the menu was opened.
  Left out is where the code computes with positions that are not in the text: keys and polls when the hidden input has lost more characters
  than stand in front of the cursor, moves and the release of the mouse when an edit has removed the place where the
  selection by mouse began, and, since \<open>matchBrackets\<close> reads the styles of lines that may not have any
  (codemirror.js:1834), the timers of the bracket matcher and the loss of the focus while brackets are highlighted.
\<close>

definition input_room :: "('g, 's) editor \<Rightarrow> bool" where
  "input_room ed \<longleftrightarrow> int (length (prevInput ed) - common_prefix (prevInput ed) (input ed)) \<le> pch (sel_from ed)"

definition plain_timer :: "timer \<Rightarrow> bool" where
  "plain_timer t \<longleftrightarrow> (case t of ClearEmptyLine i \<Rightarrow> True | ElectricIndent \<Rightarrow> True | RehideShift \<Rightarrow> True | _ \<Rightarrow> False)"

definition in_text :: "('g, 's) editor \<Rightarrow> pos \<Rightarrow> bool" where
  "in_text ed p \<longleftrightarrow> clip ed p = Some p"

definition drag_in_text :: "('g, 's) editor \<Rightarrow> gesture \<Rightarrow> bool" where
  "drag_in_text ed g \<longleftrightarrow>
     (case g of Selecting d \<Rightarrow> in_text ed (dr_start d) \<and> in_text ed (startstart d) \<and> in_text ed (startend d) | _ \<Rightarrow> True)"

definition one_step :: "int \<Rightarrow> bool" where
  "one_step dir \<longleftrightarrow> dir = 1 \<or> dir = - 1"

fun event_ok :: "event \<Rightarrow> ('g, 's, 'c) page \<Rightarrow> bool" where
  "event_ok (CallApi a) pg = api_ok a (s_ed (pg_session pg))"
| "event_ok (CallMethod (MoveH dir unit)) pg = one_step dir"
| "event_ok (CallMethod (DeleteH dir unit)) pg = one_step dir"
| "event_ok (KeyDown e) pg = input_room (s_ed (pg_session pg))"
| "event_ok (KeyPress ch) pg = input_room (s_ed (pg_session pg))"
| "event_ok Poll pg = input_room (s_ed (pg_session pg))"
| "event_ok (Timer t) pg = (t \<in> set (timers (s_ed (pg_session pg))) \<and> plain_timer t)"
| "event_ok (Work late delay) pg = (worker (s_ed (pg_session pg)) \<noteq> None)"
| "event_ok Blur pg = (bracketHighlighted (s_ed (pg_session pg)) = None)"
| "event_ok (Scroll t) pg = (0 \<le> t)"
| "event_ok (Resize w h) pg =
     (0 < w \<and> paddingTop (screen (s_ed (pg_session pg))) \<le> int h \<and> int h \<le> scrollerHeight (d_view (s_disp (pg_session pg))))"
| "event_ok (Move e) pg = drag_in_text (s_ed (pg_session pg)) (pg_gesture pg)"
| "event_ok (Release e) pg = drag_in_text (s_ed (pg_session pg)) (pg_gesture pg)"
| "event_ok Rehide pg = (pg_menu pg = MenuOpen)"
| "event_ok _ pg = True"

text \<open>The pages that events lead to from \<open>pg0\<close>.\<close>

inductive visited :: "('s, 'c) browser \<Rightarrow> ('g, 's) keyboard \<Rightarrow> ('g, 's, 'c) page \<Rightarrow> ('g, 's, 'c) page \<Rightarrow> bool"
  for br :: "('s, 'c) browser" and kb :: "('g, 's) keyboard" and pg0 :: "('g, 's, 'c) page" where
  visit_start: "visited br kb pg0 pg0"
| visit_event: "visited br kb pg0 pg \<Longrightarrow> event_ok ev pg \<Longrightarrow> run_event br kb ev pg = Some pg' \<Longrightarrow> visited br kb pg0 pg'"

end
