(* ===== verification/CM_Display_Laws.thy ===== *)
theory CM_Display_Laws
  imports CM_Display
begin

section \<open>The display shows the document\<close>

text \<open>
  A list of changes maps the lines of the new document back to those of the old one.  The ranges that
  \<open>computeIntact\<close> keeps are sorted, do not overlap, and take a line to the row that showed it; the two
  passes of \<open>patchDisplay\<close> then leave the rows of the new window, so that its assertion cannot fail.
\<close>

subsection \<open>Changes and ranges\<close>

definition pre :: "change_rec \<Rightarrow> int \<Rightarrow> int option" where
  "pre c j = (if j < chfrom c then Some j else if chto c + chdiff c \<le> j then Some (j - chdiff c) else None)"

text \<open>The old number of the new line \<open>j\<close>.\<close>

definition track :: "change_rec list \<Rightarrow> int \<Rightarrow> int option" where
  "track cs j = foldr (\<lambda>c x. Option.bind x (pre c)) cs (Some j)"

definition change_ok :: "change_rec \<Rightarrow> bool" where
  "change_ok c \<longleftrightarrow> chfrom c \<le> chto c \<and> chfrom c \<le> chto c + chdiff c"

lemma track_Nil [simp]: "track [] j = Some j"
  by (simp add: track_def)

lemma track_snoc: "track (cs @ [c]) j = Option.bind (pre c j) (track cs)"
proof -
  have "foldr (\<lambda>c x. Option.bind x (pre c)) cs None = None" by (induction cs) auto
  then show ?thesis by (cases "pre c j") (simp_all add: track_def)
qed

definition before :: "intact_range \<Rightarrow> intact_range \<Rightarrow> bool" where
  "before r s \<longleftrightarrow> rto r \<le> rfrom s \<and> rdom r + (rto r - rfrom r) \<le> rdom s"

definition range_ok :: "int \<Rightarrow> intact_range \<Rightarrow> bool" where
  "range_ok n r \<longleftrightarrow> rfrom r \<le> rto r \<and> 0 \<le> rdom r \<and> rdom r + (rto r - rfrom r) \<le> n"

definition exact :: "int \<Rightarrow> change_rec list \<Rightarrow> intact_range \<Rightarrow> bool" where
  "exact sf cs r \<longleftrightarrow> (\<forall>j. rfrom r \<le> j \<and> j < rto r \<longrightarrow> track cs j = Some (sf + rdom r + (j - rfrom r)))"

definition intact_ok :: "int \<Rightarrow> int \<Rightarrow> change_rec list \<Rightarrow> intact_range list \<Rightarrow> bool" where
  "intact_ok sf n cs rs \<longleftrightarrow> sorted_wrt before rs \<and> (\<forall>r \<in> set rs. range_ok n r \<and> exact sf cs r)"

lemma sorted_wrt_concat:
  assumes "sorted_wrt R rs" "\<And>r. r \<in> set rs \<Longrightarrow> sorted_wrt S (f r)"
    "\<And>r s r' s'. r \<in> set rs \<Longrightarrow> s \<in> set rs \<Longrightarrow> R r s \<Longrightarrow> r' \<in> set (f r) \<Longrightarrow> s' \<in> set (f s) \<Longrightarrow> S r' s'"
  shows "sorted_wrt S (concat (map f rs))"
  using assms
proof (induction rs)
  case (Cons r rs)
  have "sorted_wrt S (concat (map f rs))"
  proof (rule Cons.IH)
    show "sorted_wrt R rs" using Cons.prems(1) by simp
    show "sorted_wrt S (f x)" if "x \<in> set rs" for x using that by (intro Cons.prems(2)) simp
    show "S x' y'" if "x \<in> set rs" "y \<in> set rs" "R x y" "x' \<in> set (f x)" "y' \<in> set (f y)" for x y x' y'
      using that by (intro Cons.prems(3) [of x y]) simp_all
  qed
  moreover have "\<forall>x \<in> set (f r). \<forall>y \<in> set (concat (map f rs)). S x y"
    using Cons.prems(1,3) by fastforce
  ultimately show ?case using Cons.prems(2) by (simp add: sorted_wrt_append)
qed simp

lemma punch_ok: "change_ok c \<Longrightarrow> range_ok n r \<Longrightarrow> r' \<in> set (punch c r) \<Longrightarrow> range_ok n r'"
  by (auto simp: punch_def change_ok_def range_ok_def split: if_splits)

lemma punch_sorted: "change_ok c \<Longrightarrow> range_ok n r \<Longrightarrow> sorted_wrt before (punch c r)"
  by (auto simp: punch_def change_ok_def range_ok_def before_def)

lemma punch_before:
  assumes "change_ok c" "range_ok n r" "range_ok n s" "before r s" "r' \<in> set (punch c r)" "s' \<in> set (punch c s)"
  shows "before r' s'"
  using assms by (auto simp: punch_def change_ok_def range_ok_def before_def split: if_splits)

lemma punch_exact:
  assumes "change_ok c" "range_ok n r" "exact sf cs r" "r' \<in> set (punch c r)"
  shows "exact sf (cs @ [c]) r'"
  unfolding exact_def
proof (intro allI impI)
  fix j assume j: "rfrom r' \<le> j \<and> j < rto r'"
  have "\<exists>i. pre c j = Some i \<and> rfrom r \<le> i \<and> i < rto r \<and> rdom r' + (j - rfrom r') = rdom r + (i - rfrom r)"
    using assms(1,2,4) j by (auto simp: punch_def change_ok_def range_ok_def pre_def split: if_splits)
  then show "track (cs @ [c]) j = Some (sf + rdom r' + (j - rfrom r'))"
    using assms(3) by (auto simp: track_snoc exact_def)
qed

lemma computeIntact_ok:
  assumes "\<forall>c \<in> set cs. change_ok c" "0 \<le> n"
  shows "intact_ok sf n cs (computeIntact [\<lparr>rfrom = sf, rto = sf + n, rdom = 0\<rparr>] cs)"
  using assms(1)
proof (induction cs rule: rev_induct)
  case Nil
  then show ?case using assms(2) by (simp add: computeIntact_def intact_ok_def range_ok_def exact_def)
next
  case (snoc c cs)
  let ?rs = "computeIntact [\<lparr>rfrom = sf, rto = sf + n, rdom = 0\<rparr>] cs"
  have IH: "intact_ok sf n cs ?rs" and c: "change_ok c" using snoc by simp_all
  have r: "range_ok n r" "exact sf cs r" if "r \<in> set ?rs" for r using that IH by (simp_all add: intact_ok_def)
  have "sorted_wrt before (concat (map (punch c) ?rs))"
  proof (rule sorted_wrt_concat [of before])
    show "sorted_wrt before ?rs" using IH by (simp add: intact_ok_def)
    show "sorted_wrt before (punch c x)" if "x \<in> set ?rs" for x by (rule punch_sorted [OF c r(1) [OF that]])
    show "before x' y'" if "x \<in> set ?rs" "y \<in> set ?rs" "before x y" "x' \<in> set (punch c x)" "y' \<in> set (punch c y)" for x y x' y'
      by (rule punch_before [OF c r(1) [OF that(1)] r(1) [OF that(2)] that(3-5)])
  qed
  moreover have "range_ok n r' \<and> exact sf (cs @ [c]) r'" if "r' \<in> set (concat (map (punch c) ?rs))" for r'
    using that punch_ok [OF c r(1)] punch_exact [OF c r] by auto
  ultimately show ?case by (simp add: computeIntact_def intact_ok_def)
qed

text \<open>After clipping, the ranges are not empty and lie inside the window.\<close>

definition clipped :: "int \<Rightarrow> int \<Rightarrow> intact_range list \<Rightarrow> bool" where
  "clipped from to rs \<longleftrightarrow> (\<forall>r \<in> set rs. from \<le> rfrom r \<and> rfrom r < rto r \<and> rto r \<le> to)"

lemma clip_range_spec:
  assumes "r' \<in> set (clip_range from to r)" "range_ok n r" "exact sf cs r"
  shows "range_ok n r' \<and> exact sf cs r' \<and> from \<le> rfrom r' \<and> rfrom r' < rto r' \<and> rto r' \<le> to \<and>
    rfrom r \<le> rfrom r' \<and> rto r' \<le> rto r \<and> rdom r' = rdom r + (rfrom r' - rfrom r)"
  using assms by (auto simp: clip_range_def Let_def range_ok_def exact_def split: if_splits)

lemma clip_ranges_ok:
  assumes "intact_ok sf n cs rs"
  shows "intact_ok sf n cs (clip_ranges from to rs) \<and> clipped from to (clip_ranges from to rs)"
proof -
  have "sorted_wrt before (clip_ranges from to rs)"
    unfolding clip_ranges_def
  proof (rule sorted_wrt_concat [of before])
    show "sorted_wrt before rs" using assms by (simp add: intact_ok_def)
    show "sorted_wrt before (clip_range from to r)" for r by (simp add: clip_range_def Let_def)
    fix r s r' s' assume "r \<in> set rs" "s \<in> set rs" "before r s" "r' \<in> set (clip_range from to r)" "s' \<in> set (clip_range from to s)"
    with clip_range_spec [of r' "from" to r n sf cs] clip_range_spec [of s' "from" to s n sf cs] assms
    show "before r' s'" by (auto simp: intact_ok_def before_def)
  qed
  moreover have "range_ok n r' \<and> exact sf cs r' \<and> from \<le> rfrom r' \<and> rfrom r' < rto r' \<and> rto r' \<le> to"
    if r': "r' \<in> set (clip_ranges from to rs)" for r'
  proof -
    from r' obtain r where "r \<in> set rs" "r' \<in> set (clip_range from to r)" by (auto simp: clip_ranges_def)
    with clip_range_spec [of r' "from" to r n sf cs] assms show ?thesis by (simp add: intact_ok_def)
  qed
  ultimately show ?thesis by (simp add: intact_ok_def clipped_def)
qed

text \<open>They are already sorted by their place in the DOM.\<close>

lemma sort_key_sorted: "sorted_wrt (\<lambda>x y. f x \<le> f y) xs \<Longrightarrow> sort_key f xs = xs"
  for f :: "'a \<Rightarrow> 'b :: linorder"
  by (induction xs) (simp_all add: insort_is_Cons)

lemma intact_sort:
  assumes "intact_ok sf n cs rs"
  shows "sort_key rdom rs = rs"
proof (rule sort_key_sorted, rule sorted_wrt_mono_rel)
  show "sorted_wrt before rs" using assms by (simp add: intact_ok_def)
  fix x y assume "x \<in> set rs" "before x y"
  moreover from this(1) have "range_ok n x" using assms by (simp add: intact_ok_def)
  ultimately show "rdom x \<le> rdom y" by (simp add: before_def range_ok_def)
qed

subsection \<open>The two passes\<close>

lemma kill_nodes_drop: "kill_nodes k ns = (if k \<le> length ns then Some (drop k ns) else None)"
  by (induction k ns rule: kill_nodes.induct) auto

lemma keep_nodes_take: "keep_nodes k ns = (if k \<le> length ns then Some (take k ns, drop k ns) else None)"
  by (induction k ns rule: keep_nodes.induct) auto

abbreviation rlen :: "intact_range \<Rightarrow> nat" where
  "rlen r \<equiv> nat (rto r - rfrom r)"

lemma keep_pass_spec:
  assumes "sorted_wrt before rs" "\<forall>r \<in> set rs. rfrom r \<le> rto r \<and> p \<le> rdom r \<and> rdom r + (rto r - rfrom r) \<le> p + int (length ns)"
  shows "keep_pass rs p ns = Some (concat (map (\<lambda>r. take (rlen r) (drop (nat (rdom r - p)) ns)) rs))"
  using assms
proof (induction rs arbitrary: p ns)
  case (Cons r rs)
  let ?k = "nat (rdom r - p)" and ?m = "rlen r"
  let ?p = "rdom r + (rto r - rfrom r)" and ?ns = "drop (?k + ?m) ns"
  have r: "rfrom r \<le> rto r" "p \<le> rdom r" "?p \<le> p + int (length ns)" using Cons.prems(2) by simp_all
  have km: "?k + ?m \<le> length ns" "?p = p + int (?k + ?m)" using r by auto
  have "keep_pass rs ?p ?ns = Some (concat (map (\<lambda>s. take (rlen s) (drop (nat (rdom s - ?p)) ?ns)) rs))"
  proof (rule Cons.IH)
    show "sorted_wrt before rs" using Cons.prems(1) by simp
    show "\<forall>s \<in> set rs. rfrom s \<le> rto s \<and> ?p \<le> rdom s \<and> rdom s + (rto s - rfrom s) \<le> ?p + int (length ?ns)"
    proof
      fix s assume s: "s \<in> set rs"
      then have "before r s" using Cons.prems(1) by simp
      moreover have "rfrom s \<le> rto s" "rdom s + (rto s - rfrom s) \<le> p + int (length ns)" using Cons.prems(2) s by simp_all
      moreover have "?p + int (length ?ns) = p + int (length ns)"
        using km unfolding length_drop by linarith
      ultimately show "rfrom s \<le> rto s \<and> ?p \<le> rdom s \<and> rdom s + (rto s - rfrom s) \<le> ?p + int (length ?ns)"
        unfolding before_def by linarith
    qed
  qed
  moreover have eq: "map (\<lambda>s. take (rlen s) (drop (nat (rdom s - ?p)) ?ns)) rs = map (\<lambda>s. take (rlen s) (drop (nat (rdom s - p)) ns)) rs"
  proof (rule map_cong [OF refl])
    fix s assume "s \<in> set rs"
    then have "?p \<le> rdom s" using Cons.prems(1) by (simp add: before_def)
    then have "nat (rdom s - ?p) + (?k + ?m) = nat (rdom s - p)" using km(2) by linarith
    then show "take (rlen s) (drop (nat (rdom s - ?p)) ?ns) = take (rlen s) (drop (nat (rdom s - p)) ns)"
      by (simp only: drop_drop)
  qed
  moreover have "max p (rdom r) + int ?m = ?p" using r by simp
  moreover have "drop ?m (drop ?k ns) = ?ns" by (simp add: add.commute)
  moreover have "?k \<le> length ns" "?m \<le> length (drop ?k ns)" using km by simp_all
  ultimately have "keep_pass (r # rs) p ns = Some (take ?m (drop ?k ns) @
      concat (map (\<lambda>s. take (rlen s) (drop (nat (rdom s - ?p)) ?ns)) rs))"
    by (simp only: keep_pass.simps kill_nodes_drop keep_nodes_take if_True bind.bind_lunit prod.case)
  then show ?case by (simp only: eq list.map concat.simps)
qed simp

text \<open>A first pass that keeps as many nodes as there are removes none.\<close>

lemma keep_pass_all: "keep_pass rs p ns = Some k \<Longrightarrow> length k \<le> length ns \<and> (length k = length ns \<longrightarrow> k = ns)"
proof (induction rs arbitrary: p ns k)
  case (Cons r rs)
  obtain i m where im: "i = nat (rdom r - p)" "m = rlen r" by blast
  with Cons.prems obtain others where k: "i \<le> length ns" "m \<le> length (drop i ns)"
    "keep_pass rs (max p (rdom r) + int (rlen r)) (drop m (drop i ns)) = Some others"
    "k = take m (drop i ns) @ others"
    by (auto simp: kill_nodes_drop keep_nodes_take split: bind_splits if_splits)
  note IH = Cons.IH [OF k(3)]
  show ?case
  proof (intro conjI impI)
    have l: "length k = m + length others" using k(2,4) by simp
    have "length others \<le> length ns - i - m" "m \<le> length ns - i"
      using IH [THEN conjunct1] k(2) unfolding length_drop .
    then have m: "length others + m + i \<le> length ns" using k(1) by linarith
    show "length k \<le> length ns" using l m by linarith
    assume "length k = length ns"
    then have i: "i = 0" "length others + m = length ns" using l m by linarith+
    then have "length others = length (drop m (drop i ns))" by simp
    then have "others = drop m (drop i ns)" using IH by blast
    then show "k = ns" using k(4) i(1) by simp
  qed
qed simp


text \<open>
  The second pass takes the kept nodes for the lines of the ranges and makes the others: \<open>R j\<close> is the row
  of line \<open>j\<close>.
\<close>

definition kept_rows :: "(int \<Rightarrow> 'n) \<Rightarrow> int \<Rightarrow> intact_range list \<Rightarrow> 'n list" where
  "kept_rows R j rs = concat (map (\<lambda>r. map R [max j (rfrom r)..rto r - 1]) rs)"

lemma kept_rows_cong:
  "(\<And>r. r \<in> set rs \<Longrightarrow> max j (rfrom r) = max i (rfrom r)) \<Longrightarrow> kept_rows R j rs = kept_rows R i rs"
  by (simp add: kept_rows_def cong: map_cong)

definition due :: "int \<Rightarrow> intact_range list \<Rightarrow> bool" where
  "due j rs \<longleftrightarrow> sorted_wrt (\<lambda>r s. rto r \<le> rfrom s) rs \<and> (\<forall>r \<in> set rs. rfrom r < rto r \<and> j \<le> rto r)"

lemma due_drop:
  assumes "due j rs" and "rs1 = (case rs of [] \<Rightarrow> [] | r # others \<Rightarrow> if rto r = j then others else rs)"
  shows "due (j + 1) rs1 \<and> kept_rows R j rs = kept_rows R j rs1"
proof (cases rs)
  case (Cons r others)
  have sr: "rto r \<le> rfrom s" if "s \<in> set others" for s using assms(1) Cons that by (simp add: due_def)
  have jr: "j \<le> rto r" using assms(1) Cons by (simp add: due_def)
  have later: "j + 1 \<le> rto s" if "s \<in> set others" for s
  proof -
    have "rfrom s < rto s" using assms(1) Cons that by (simp add: due_def)
    then show ?thesis using sr [OF that] jr by linarith
  qed
  show ?thesis
  proof (cases "rto r = j")
    case True
    then have rs1: "rs1 = others" using Cons assms(2) by simp
    have "due (j + 1) others" using assms(1) Cons later by (simp add: due_def)
    moreover have "kept_rows R j rs = kept_rows R j others" using True Cons by (simp add: kept_rows_def)
    ultimately show ?thesis using rs1 by simp
  next
    case False
    then have rs1: "rs1 = rs" using Cons assms(2) by simp
    have "j + 1 \<le> rto r" using jr False by linarith
    then have "due (j + 1) rs" using assms(1) Cons later by (simp add: due_def)
    then show ?thesis using rs1 by simp
  qed
qed (use assms in \<open>simp add: due_def\<close>)

lemma fill_pass_rows:
  assumes "due j rs" "\<forall>r \<in> set rs. rto r \<le> j + int (length ls)"
    and "\<forall>k < length ls. R (j + int k) = mk (ls ! k)"
  shows "fill_pass mk ls j rs (kept_rows R j rs) = Some (map mk ls)"
  using assms
proof (induction ls arbitrary: j rs)
  case Nil
  have "[max j (rfrom r)..rto r - 1] = []" if "r \<in> set rs" for r using Nil.prems(2) that by fastforce
  then have "kept_rows R j rs = []" by (simp add: kept_rows_def)
  then show ?case by simp
next
  case (Cons l ls)
  obtain rs1 where rs1: "rs1 = (case rs of [] \<Rightarrow> [] | r # others \<Rightarrow> if rto r = j then others else rs)" by blast
  from due_drop [OF Cons.prems(1) rs1] have d: "due (j + 1) rs1" "kept_rows R j rs = kept_rows R j rs1" by blast+
  have sub: "set rs1 \<subseteq> set rs" using rs1 by (auto split: list.splits)
  have "\<forall>r \<in> set rs1. rto r \<le> (j + 1) + int (length ls)" using Cons.prems(2) sub by (auto simp: algebra_simps)
  moreover have "R ((j + 1) + int k) = mk (ls ! k)" if "k < length ls" for k
    using Cons.prems(3) [rule_format, of "Suc k"] that by (simp add: algebra_simps)
  ultimately have IH: "fill_pass mk ls (j + 1) rs1 (kept_rows R (j + 1) rs1) = Some (map mk ls)"
    using Cons.IH [OF d(1)] by blast
  have Rj: "R j = mk l" using Cons.prems(3) [rule_format, of 0] by simp
  have unf: "fill_pass mk (l # ls) j rs ns = (if (case rs1 of [] \<Rightarrow> True | r # _ \<Rightarrow> rfrom r > j)
      then map_option (Cons (mk l)) (fill_pass mk ls (j + 1) rs1 ns)
      else (case ns of [] \<Rightarrow> None | n # others \<Rightarrow> map_option (Cons n) (fill_pass mk ls (j + 1) rs1 others)))" for ns
    unfolding fill_pass.simps Let_def rs1 ..
  show ?case
  proof (cases "\<exists>r others. rs1 = r # others \<and> rfrom r \<le> j")
    case True
    then obtain r others where r: "rs1 = r # others" "rfrom r \<le> j" by blast
    have rj: "j + 1 \<le> rto r" using d(1) r by (simp add: due_def)
    have later: "rto r \<le> rfrom s" if "s \<in> set others" for s using d(1) r that by (simp add: due_def)
    have "[max j (rfrom r)..rto r - 1] = j # [max (j + 1) (rfrom r)..rto r - 1]"
      using r(2) rj by (simp add: upto_rec1 max_def)
    moreover have "kept_rows R j others = kept_rows R (j + 1) others"
      by (rule kept_rows_cong) (use later rj in fastforce)
    ultimately have "kept_rows R j rs1 = R j # kept_rows R (j + 1) rs1" using r(1) by (simp add: kept_rows_def)
    then show ?thesis using IH r Rj unfolding d(2) unf by simp
  next
    case False
    have "j < rfrom s" if "s \<in> set rs1" for s
    proof (cases rs1)
      case (Cons r others)
      then have "j < rfrom r" "rfrom r < rto r" using False d(1) by (auto simp: due_def)
      moreover have "s = r \<or> rto r \<le> rfrom s" using Cons that d(1) by (auto simp: due_def)
      ultimately show ?thesis by (elim disjE) simp_all
    qed (use that in simp)
    then have "kept_rows R j rs1 = kept_rows R (j + 1) rs1" by (intro kept_rows_cong) fastforce
    moreover have "case rs1 of [] \<Rightarrow> True | r # _ \<Rightarrow> rfrom r > j" using False by (cases rs1) auto
    ultimately show ?thesis using IH unfolding d(2) unf by simp
  qed
qed

text \<open>A second pass that makes no row returns the kept ones.\<close>

lemma fill_pass_none:
  "fill_pass mk ls j rs ns = Some out \<Longrightarrow> length ns \<le> length out \<and> (length ns = length out \<longrightarrow> ns = out)"
proof (induction ls arbitrary: j rs ns out)
  case (Cons l ls)
  obtain rs1 where rs1: "rs1 = (case rs of [] \<Rightarrow> [] | r # others \<Rightarrow> if rto r = j then others else rs)" by blast
  show ?case
  proof (cases "case rs1 of [] \<Rightarrow> True | r # _ \<Rightarrow> rfrom r > j")
    case True
    with Cons.prems rs1 obtain o1 where o1: "fill_pass mk ls (j + 1) rs1 ns = Some o1" "out = mk l # o1"
      by (auto simp: Let_def)
    with Cons.IH [OF o1(1)] show ?thesis by simp
  next
    case False
    with Cons.prems rs1 obtain n others o1 where o1: "ns = n # others" "fill_pass mk ls (j + 1) rs1 others = Some o1" "out = n # o1"
      by (cases ns) (simp_all add: Let_def, blast)
    with Cons.IH [OF o1(2)] show ?thesis by simp
  qed
qed simp


subsection \<open>The patch\<close>

text \<open>
  What the list of changes promises about the rows: a line that no change covers, and that was shown
  before, still has its row.
\<close>

definition rows_match :: "('s line \<Rightarrow> 'c) \<Rightarrow> change_rec list \<Rightarrow> ('g, 's, 'c) display \<Rightarrow> bool" where
  "rows_match content cs d \<longleftrightarrow>
     (\<forall>j i. 0 \<le> j \<and> j < int (length (lines (d_ed d))) \<and> track cs j = Some i \<and>
        int (showingFrom (d_ed d)) \<le> i \<and> i < int (showingTo (d_ed d)) \<longrightarrow>
        lineDiv d ! nat (i - int (showingFrom (d_ed d))) = line_row content (lines (d_ed d) ! nat j))"

lemma kept_stretch:
  assumes "range_ok (int (length ns)) r" "\<And>j. rfrom r \<le> j \<Longrightarrow> j < rto r \<Longrightarrow> ns ! nat (rdom r + (j - rfrom r)) = R j"
  shows "take (rlen r) (drop (nat (rdom r)) ns) = map R [rfrom r..rto r - 1]"
proof (rule nth_equalityI)
  have "nat (rdom r) + rlen r \<le> length ns" using assms(1) unfolding range_ok_def by linarith
  then show "length (take (rlen r) (drop (nat (rdom r)) ns)) = length (map R [rfrom r..rto r - 1])" by simp
  fix k assume "k < length (take (rlen r) (drop (nat (rdom r)) ns))"
  then have k: "int k < rto r - rfrom r" "nat (rdom r) + k < length ns" by auto
  have "nat (rdom r + (rfrom r + int k - rfrom r)) = nat (rdom r) + k"
    using assms(1) by (simp add: range_ok_def nat_add_distrib)
  with assms(2) [of "rfrom r + int k"] k show "take (rlen r) (drop (nat (rdom r)) ns) ! k = map R [rfrom r..rto r - 1] ! k"
    by simp
qed

text \<open>The nodes the first pass keeps are the rows of the lines of the intact ranges.\<close>

lemma kept_nodes:
  assumes ok: "intact_ok sf (int (length ns)) cs rs" and cl: "clipped from to rs"
    and m: "\<And>j i. from \<le> j \<Longrightarrow> j < to \<Longrightarrow> track cs j = Some i \<Longrightarrow> sf \<le> i \<Longrightarrow> i < sf + int (length ns) \<Longrightarrow>
      ns ! nat (i - sf) = R j"
  shows "keep_pass rs 0 ns = Some (kept_rows R from rs)"
    and "length (kept_rows R from rs) = nat (intactLines rs)"
proof -
  have r: "range_ok (int (length ns)) r" "exact sf cs r" "from \<le> rfrom r" "rfrom r < rto r" "rto r \<le> to" if "r \<in> set rs" for r
    using ok cl that by (simp_all add: intact_ok_def clipped_def)
  have st: "take (rlen r) (drop (nat (rdom r)) ns) = map R [max from (rfrom r)..rto r - 1]" if "r \<in> set rs" for r
  proof -
    have "take (rlen r) (drop (nat (rdom r)) ns) = map R [rfrom r..rto r - 1]"
    proof (rule kept_stretch [OF r(1) [OF that]])
      fix j assume j: "rfrom r \<le> j" "j < rto r"
      have "track cs j = Some (sf + rdom r + (j - rfrom r))" using r(2) [OF that] j by (simp add: exact_def)
      moreover have "sf + rdom r + (j - rfrom r) < sf + int (length ns)" "sf \<le> sf + rdom r + (j - rfrom r)"
        using r(1) [OF that] j by (auto simp: range_ok_def)
      moreover have "from \<le> j" "j < to" using r(3,5) [OF that] j by simp_all
      ultimately have "ns ! nat (sf + rdom r + (j - rfrom r) - sf) = R j" by (intro m)
      moreover have "sf + rdom r + (j - rfrom r) - sf = rdom r + (j - rfrom r)" by simp
      ultimately show "ns ! nat (rdom r + (j - rfrom r)) = R j" by simp
    qed
    then show ?thesis using r(3) [OF that] by (simp add: max_def)
  qed
  have "keep_pass rs 0 ns = Some (concat (map (\<lambda>r. take (rlen r) (drop (nat (rdom r - 0)) ns)) rs))"
    by (rule keep_pass_spec) (use ok r(1) in \<open>simp_all add: intact_ok_def range_ok_def\<close>)
  also have "concat (map (\<lambda>r. take (rlen r) (drop (nat (rdom r - 0)) ns)) rs) = kept_rows R from rs"
    unfolding kept_rows_def using st by (intro arg_cong [of _ _ concat] map_cong) simp_all
  finally show "keep_pass rs 0 ns = Some (kept_rows R from rs)" .
  have "int (length (kept_rows R from rs)) = intactLines rs"
    using r(3) less_imp_le [OF r(4)] by (induction rs) (simp_all add: intactLines_def kept_rows_def max_def)
  then show "length (kept_rows R from rs) = nat (intactLines rs)" by simp
qed

lemma patch_rows:
  assumes ok: "intact_ok sf (int (length ns)) cs rs" "clipped from to rs"
    and w: "0 \<le> from" "to \<le> int (length (lines ed))" "from \<le> to" and doc: "doc_ok (doc ed)"
    and m: "\<And>j i. from \<le> j \<Longrightarrow> j < to \<Longrightarrow> track cs j = Some i \<Longrightarrow> sf \<le> i \<Longrightarrow> i < sf + int (length ns) \<Longrightarrow>
      ns ! nat (i - sf) = line_row content (lines ed ! nat j)"
  shows "\<exists>kept. (if rs = [] then Some [] else keep_pass rs 0 ns) = Some kept \<and> length kept = nat (intactLines rs) \<and>
    fill_pass (line_row content) (iter_list ed from to) from rs kept = Some (map (line_row content) (iter_list ed from to))"
proof -
  obtain R where R: "R = (\<lambda>j. line_row content (lines ed ! nat j))" by blast
  have kept: "keep_pass rs 0 ns = Some (kept_rows R from rs)" "length (kept_rows R from rs) = nat (intactLines rs)"
    using kept_nodes [OF ok, of R] m unfolding R by blast+
  then have k: "(if rs = [] then Some [] else keep_pass rs 0 ns) = Some (kept_rows R from rs)"
    by (cases "rs = []") (simp_all add: kept_rows_def)
  have il: "iter_list ed from to = take (nat to - nat from) (drop (nat from) (lines ed))" by (rule iter_list_lines [OF doc])
  have ll: "length (iter_list ed from to) = nat to - nat from" using w unfolding il by simp
  have "fill_pass (line_row content) (iter_list ed from to) from rs (kept_rows R from rs) =
      Some (map (line_row content) (iter_list ed from to))"
  proof (rule fill_pass_rows)
    show "due from rs"
      unfolding due_def using ok sorted_wrt_mono_rel [of rs before "\<lambda>r s. rto r \<le> rfrom s"]
      by (force simp: before_def intact_ok_def clipped_def)
    show "\<forall>r \<in> set rs. rto r \<le> from + int (length (iter_list ed from to))"
      unfolding ll using ok(2) w by (simp add: clipped_def)
    show "\<forall>k < length (iter_list ed from to). R (from + int k) = line_row content (iter_list ed from to ! k)"
    proof (intro allI impI)
      fix k assume "k < length (iter_list ed from to)"
      moreover from this have "nat from + k < length (lines ed)" using ll w by linarith
      moreover have "nat (from + int k) = nat from + k" using w(1) by (simp add: nat_add_distrib)
      ultimately show "R (from + int k) = line_row content (iter_list ed from to ! k)"
        unfolding R using ll unfolding il by simp
    qed
  qed
  with k kept(2) show ?thesis by blast
qed


subsection \<open>The window, and what happens behind the patch\<close>

lemma leafAtHeight_mono: "h \<le> h' \<Longrightarrow> leafAtHeight ls h \<le> leafAtHeight ls h'"
  by (induction ls arbitrary: h h') auto

lemma floor_le_ceiling:
  assumes "a \<le> b" "0 < (lh :: int)"
  shows "a div lh \<le> - ((- b) div lh)"
proof -
  have le: "x div lh * lh \<le> x" for x using minus_mod_eq_div_mult [of x lh] pos_mod_sign [OF assms(2), of x] by linarith
  have "a div lh * lh \<le> a" "(- b) div lh * lh \<le> - b" by (rule le)+
  then have "(a div lh + (- b) div lh) * lh \<le> 0" using assms(1) by (simp add: distrib_right)
  then show ?thesis using assms(2) by (simp add: mult_le_0_iff)
qed

lemma window_ok:
  assumes doc: "doc_ok (doc ed)" "nonneg (lines ed)" and lh: "0 < textHeight (screen ed)"
    and top: "paddingTop (screen ed) \<le> (case st of Some t \<Rightarrow> t | None \<Rightarrow> scrollTop vw) + int (clientHeight (screen ed))"
    and w: "new_window ed (visibleLines ed vw st) = (from, to)"
  shows "0 \<le> from \<and> from \<le> to \<and> to \<le> int (length (lines ed))"
proof -
  let ?lh = "textHeight (screen ed)"
  obtain t where t: "t = (case st of Some t \<Rightarrow> t | None \<Rightarrow> scrollTop vw) - paddingTop (screen ed)" by blast
  obtain a b where ab: "a = max 0 (t div ?lh)" "b = - ((- (t + int (clientHeight (screen ed)))) div ?lh)" by blast
  have "0 div ?lh \<le> b" unfolding ab(2) using top t by (intro floor_le_ceiling lh) simp
  moreover have "t div ?lh \<le> b" unfolding ab(2) by (intro floor_le_ceiling lh) simp
  ultimately have ab2: "0 \<le> a" "a \<le> b" using ab(1) by simp_all
  have v: "visibleLines ed vw st = (int (leafAtHeight (lines ed) a), int (leafAtHeight (lines ed) b))"
    using lineAtHeight_collapse [OF doc, of a] lineAtHeight_collapse [OF doc, of b] ab2
    unfolding visibleLines_def Let_def t [symmetric] ab [symmetric] by simp
  have "leafAtHeight (lines ed) a \<le> leafAtHeight (lines ed) b" by (rule leafAtHeight_mono [OF ab2(2)])
  moreover have "leafAtHeight (lines ed) b \<le> length (lines ed)" by (rule leafAtHeight_le)
  ultimately show ?thesis
    using w unfolding v new_window_def Let_def doc_size_lines [OF doc(1)] by (auto split: if_splits)
qed

lemma check_height_keeps:
  "showingFrom (fst (check_height nh kr st)) = showingFrom (fst st) \<and> showingTo (fst (check_height nh kr st)) = showingTo (fst st)"
  by (auto simp: check_height_def set_height_def Let_def split: prod.splits option.splits)

lemma check_heights_keep:
  "showingFrom (fst (fold (check_height nh) krs st)) = showingFrom (fst st) \<and>
   showingTo (fst (fold (check_height nh) krs st)) = showingTo (fst st)"
  by (induction krs arbitrary: st) (simp_all add: check_height_keeps)

abbreviation shown :: "('g, 's, 'c) display \<Rightarrow> 'c row list \<times> nat \<times> nat" where
  "shown d \<equiv> (lineDiv d, showingFrom (d_ed d), showingTo (d_ed d))"

lemma checkHeights_shown: "shown (fst (checkHeights nh d)) = shown d"
proof -
  let ?krs = "zip [showingFrom (d_ed d) ..< showingTo (d_ed d)] (lineDiv d)"
  obtain e b where e: "fold (check_height nh) ?krs (d_ed d, False) = (e, b)" by (cases "fold (check_height nh) ?krs (d_ed d, False)")
  then have "showingFrom e = showingFrom (d_ed d) \<and> showingTo e = showingTo (d_ed d)"
    using check_heights_keep [of nh ?krs "(d_ed d, False)"] by simp
  then show ?thesis by (simp add: checkHeights_def Let_def e)
qed

lemma updateGutter_shown: "shown (fst (updateGutter gw d)) = shown d"
  by (simp add: updateGutter_def Let_def)

lemma updateVerticalScroll_shown: "shown (updateVerticalScroll st d) = shown d"
  by (simp add: updateVerticalScroll_def Let_def)

lemma startWorker_shown: "showingFrom (startWorker t ed) = showingFrom ed \<and> showingTo (startWorker t ed) = showingTo ed"
  by (simp add: startWorker_def)

lemma remeasure_shown: "shown (remeasure nh gw different d) = shown d"
proof -
  obtain d2 where d2: "d2 = (if lineWrapping (options (d_ed d)) then fst (checkHeights nh d) else d)" by blast
  have e2: "shown d2 = shown d" unfolding d2 using checkHeights_shown [of nh d] by simp
  obtain d3 r where d3: "updateGutter gw d2 = (d3, r)" by (cases "updateGutter gw d2")
  obtain d4 c where d4: "checkHeights nh d3 = (d4, c)" by (cases "checkHeights nh d3")
  have "shown d4 = shown d" "shown d3 = shown d" 
    using checkHeights_shown [of nh d3] updateGutter_shown [of gw d2] e2 unfolding d4 d3 by simp_all
  moreover have "shown (fst (updateGutter gw d4)) = shown d4" by (rule updateGutter_shown)
  moreover have "remeasure nh gw different d =
     (if different \<or> gutterDirty (d_ed d2) then
        if r \<and> lineWrapping (options (d_ed d)) then if c then fst (updateGutter gw d4) else d4 else d3
      else d2)"
    unfolding remeasure_def Let_def d2 [symmetric] d3 prod.case d4 ..
  ultimately show ?thesis using e2 by presburger
qed

lemma after_patch_shown: "shown (after_patch ms nh gw (from, to) suppress st d) = (lineDiv d, nat from, nat to)"
proof -
  obtain d1 different where d1: "record_window (from, to) d = (d1, different)" by (cases "record_window (from, to) d")
  then have "shown d1 = (lineDiv d, nat from, nat to)"
    unfolding record_window_def Let_def prod.case by (auto simp: startWorker_shown)
  then have "shown (updateVerticalScroll st (remeasure nh gw different d1)) = (lineDiv d, nat from, nat to)"
    using updateVerticalScroll_shown remeasure_shown by metis
  then show ?thesis unfolding after_patch_def d1 Let_def prod.case by simp
qed


subsection \<open>The display\<close>

text \<open>The intact ranges of a log that the rows answer to; with no log there are none.\<close>

lemma intact_of_log:
  assumes w: "0 \<le> from" "to \<le> int (length (lines (d_ed d)))"
    and len: "showingFrom (d_ed d) \<le> showingTo (d_ed d)" "length (lineDiv d) = showingTo (d_ed d) - showingFrom (d_ed d)"
    and chs: "case chs of None \<Rightarrow> True | Some cs \<Rightarrow> (\<forall>c \<in> set cs. change_ok c) \<and> rows_match content cs d"
    and intact: "intact = clip_ranges from to (case chs of None \<Rightarrow> []
      | Some cs \<Rightarrow> computeIntact [\<lparr>rfrom = int (showingFrom (d_ed d)), rto = int (showingTo (d_ed d)), rdom = 0\<rparr>] cs)"
  obtains cs where "intact_ok (int (showingFrom (d_ed d))) (int (length (lineDiv d))) cs intact" "clipped from to intact"
    "\<And>j i. from \<le> j \<Longrightarrow> j < to \<Longrightarrow> intact \<noteq> [] \<Longrightarrow> track cs j = Some i \<Longrightarrow> int (showingFrom (d_ed d)) \<le> i \<Longrightarrow>
      i < int (showingFrom (d_ed d)) + int (length (lineDiv d)) \<Longrightarrow>
      lineDiv d ! nat (i - int (showingFrom (d_ed d))) = line_row content (lines (d_ed d) ! nat j)"
proof (cases chs)
  case None
  then have "intact = []" using intact by (simp add: clip_ranges_def)
  then show ?thesis by (intro that [of "[]"]) (simp_all add: intact_ok_def clipped_def)
next
  case (Some cs)
  let ?sf = "int (showingFrom (d_ed d))" and ?n = "int (length (lineDiv d))"
  have "int (showingTo (d_ed d)) = ?sf + ?n" using len by simp
  with Some intact computeIntact_ok [of cs ?n ?sf] chs
  have "intact_ok ?sf ?n cs intact \<and> clipped from to intact" by (simp add: clip_ranges_ok)
  moreover have "lineDiv d ! nat (i - ?sf) = line_row content (lines (d_ed d) ! nat j)"
    if "from \<le> j" "j < to" "track cs j = Some i" "?sf \<le> i" "i < ?sf + ?n" for j i
  proof -
    have "0 \<le> j" "j < int (length (lines (d_ed d)))" "i < int (showingTo (d_ed d))" using that w len by linarith+
    then show ?thesis using chs that(3,4) unfolding Some rows_match_def by simp
  qed
  ultimately show ?thesis by (intro that [of cs]) blast+
qed

text \<open>When the intact ranges make up both the window and the rows, there was nothing to do.\<close>

lemma all_intact:
  assumes "(if intact = [] then Some [] else keep_pass intact 0 ns) = Some kept" "length kept = nat (intactLines intact)"
    and "fill_pass mk ls from intact kept = Some (map mk ls)"
    and "intactLines intact = int (length ls)" "length ls = length ns"
  shows "ns = map mk ls"
proof -
  have l: "length kept = length (map mk ls)" using assms(2,4) by simp
  have "kept = map mk ls" using fill_pass_none [OF assms(3)] l by blast
  moreover have "kept = ns"
  proof (cases "intact = []")
    case False
    then have "keep_pass intact 0 ns = Some kept" using assms(1) by simp
    moreover have "length kept = length ns" using l assms(5) by simp
    ultimately show ?thesis using keep_pass_all by blast
  qed (use assms in \<open>simp add: intactLines_def\<close>)
  ultimately show ?thesis by simp
qed

lemma window_rows:
  assumes doc: "doc_ok (doc (d_ed d))" and w: "0 \<le> from" "from \<le> to" "to \<le> int (length (lines (d_ed d)))"
    and len: "showingFrom (d_ed d) \<le> showingTo (d_ed d)" "length (lineDiv d) = showingTo (d_ed d) - showingFrom (d_ed d)"
    and chs: "case chs of None \<Rightarrow> True | Some cs \<Rightarrow> (\<forall>c \<in> set cs. change_ok c) \<and> rows_match content cs d"
    and intact: "intact = clip_ranges from to (case chs of None \<Rightarrow> []
      | Some cs \<Rightarrow> computeIntact [\<lparr>rfrom = int (showingFrom (d_ed d)), rto = int (showingTo (d_ed d)), rdom = 0\<rparr>] cs)"
  shows "sort_key rdom intact = intact \<and>
    patchDisplay content (d_ed d) from to intact (lineDiv d) = Some (map (line_row content) (iter_list (d_ed d) from to)) \<and>
    (intactLines intact = to - from \<and> to - from = int (length (lineDiv d)) \<longrightarrow>
       lineDiv d = map (line_row content) (iter_list (d_ed d) from to))"
proof -
  let ?ls = "iter_list (d_ed d) from to"
  obtain cs where cs: "intact_ok (int (showingFrom (d_ed d))) (int (length (lineDiv d))) cs intact" "clipped from to intact"
    "\<And>j i. from \<le> j \<Longrightarrow> j < to \<Longrightarrow> intact \<noteq> [] \<Longrightarrow> track cs j = Some i \<Longrightarrow> int (showingFrom (d_ed d)) \<le> i \<Longrightarrow>
      i < int (showingFrom (d_ed d)) + int (length (lineDiv d)) \<Longrightarrow>
      lineDiv d ! nat (i - int (showingFrom (d_ed d))) = line_row content (lines (d_ed d) ! nat j)"
    by (rule intact_of_log [OF w(1,3) len chs intact]) blast
  obtain kept where k: "(if intact = [] then Some [] else keep_pass intact 0 (lineDiv d)) = Some kept"
    "length kept = nat (intactLines intact)"
    "fill_pass (line_row content) ?ls from intact kept = Some (map (line_row content) ?ls)"
  proof (cases "intact = []")
    case True
    have "fill_pass (line_row content) ls j [] [] = Some (map (line_row content) ls)" for ls j
      by (induction ls arbitrary: j) simp_all
    with True show ?thesis by (intro that [of "[]"]) (simp_all add: intactLines_def)
  next
    case False
    from patch_rows [OF cs(1,2) w(1,3,2) doc, of content] cs(3) False that show ?thesis by blast
  qed
  have "patchDisplay content (d_ed d) from to intact (lineDiv d) = Some (map (line_row content) ?ls)"
    using k(1,3) unfolding patchDisplay_def by simp
  moreover have "int (length ?ls) = to - from" using w unfolding iter_list_lines [OF doc] by simp
  with all_intact [OF k] have "intactLines intact = to - from \<and> to - from = int (length (lineDiv d)) \<longrightarrow>
      lineDiv d = map (line_row content) ?ls" by (metis of_nat_eq_iff)
  ultimately show ?thesis using intact_sort [OF cs(1)] by blast
qed

lemma rows_shown:
  assumes "showingTo (d_ed d) \<le> length (lines (d_ed d))" "length (lineDiv d) = showingTo (d_ed d) - showingFrom (d_ed d)"
    and "rows_match content [] d"
  shows "lineDiv d = map (line_row content)
      (take (showingTo (d_ed d) - showingFrom (d_ed d)) (drop (showingFrom (d_ed d)) (lines (d_ed d))))"
proof (rule nth_equalityI)
  let ?sf = "showingFrom (d_ed d)" and ?st = "showingTo (d_ed d)"
  show "length (lineDiv d) = length (map (line_row content) (take (?st - ?sf) (drop ?sf (lines (d_ed d)))))"
    using assms(1,2) by simp
  fix i assume i: "i < length (lineDiv d)"
  then have r: "int (?sf + i) < int (length (lines (d_ed d)))" "int (?sf + i) < int ?st" using assms(1,2) by linarith+
  have "lineDiv d ! nat (int (?sf + i) - int ?sf) = line_row content (lines (d_ed d) ! nat (int (?sf + i)))"
    using assms(3) [unfolded rows_match_def, rule_format, of "int (?sf + i)" "int (?sf + i)"] r by simp
  then have "lineDiv d ! i = line_row content (lines (d_ed d) ! (?sf + i))"
    unfolding nat_int by simp
  then show "lineDiv d ! i = map (line_row content) (take (?st - ?sf) (drop ?sf (lines (d_ed d)))) ! i"
    using i assms(1,2) by simp
qed

text \<open>When nothing is patched, the rows are the window they were.\<close>

lemma rows_kept:
  assumes "showingFrom (d_ed d) \<le> showingTo (d_ed d)" "showingTo (d_ed d) \<le> length ls"
    and "lineDiv d = map (line_row content)
      (take (showingTo (d_ed d) - showingFrom (d_ed d)) (drop (showingFrom (d_ed d)) ls))"
  shows "\<exists>d' patched. Inr (updateVerticalScroll st d, False) = Inr (d', patched) \<and>
    showingFrom (d_ed d') \<le> showingTo (d_ed d') \<and> showingTo (d_ed d') \<le> length ls \<and>
    lineDiv d' = map (line_row content) (take (showingTo (d_ed d') - showingFrom (d_ed d')) (drop (showingFrom (d_ed d')) ls))"
  using assms updateVerticalScroll_shown [of st d] by (intro exI [of _ "updateVerticalScroll st d"] exI [of _ False]) simp

lemma rows_patched:
  assumes "0 \<le> from" "from \<le> to" "to \<le> int (length ls)"
    and "rows = map (line_row content) (take (nat to - nat from) (drop (nat from) ls))"
    and d': "d' = after_patch ms nh gw (from, to) suppress st (d\<lparr>lineDiv := rows\<rparr>)"
  shows "showingFrom (d_ed d') \<le> showingTo (d_ed d') \<and> showingTo (d_ed d') \<le> length ls \<and>
    lineDiv d' = map (line_row content) (take (showingTo (d_ed d') - showingFrom (d_ed d')) (drop (showingFrom (d_ed d')) ls))"
proof -
  have "lineDiv d' = rows" "showingFrom (d_ed d') = nat from" "showingTo (d_ed d') = nat to"
    using after_patch_shown [of ms nh gw "from" to suppress st "d\<lparr>lineDiv := rows\<rparr>"] unfolding d' by simp_all
  moreover have "nat from \<le> nat to" "nat to \<le> length ls" using assms(1-3) by simp_all
  ultimately show ?thesis unfolding assms(4) by simp
qed

lemma updateDisplay_rows:
  assumes "struct_ok k (d_ed d)" and "0 < textHeight (screen (d_ed d))" and "0 < clientWidth (screen (d_ed d))"
    and "paddingTop (screen (d_ed d)) \<le> (case st of Some t \<Rightarrow> t | None \<Rightarrow> scrollTop (d_view d)) + int (clientHeight (screen (d_ed d)))"
    and "showingFrom (d_ed d) \<le> showingTo (d_ed d)" and "length (lineDiv d) = showingTo (d_ed d) - showingFrom (d_ed d)"
    and "case chs of None \<Rightarrow> True | Some cs \<Rightarrow> (\<forall>c \<in> set cs. change_ok c) \<and> rows_match content cs d"
    and "chs = Some [] \<longrightarrow> showingTo (d_ed d) \<le> length (lines (d_ed d))"
  shows "\<exists>d' patched. updateDisplay content ms nh gw chs suppress st d = Inr (d', patched) \<and>
    showingFrom (d_ed d') \<le> showingTo (d_ed d') \<and> showingTo (d_ed d') \<le> length (lines (d_ed d)) \<and>
    lineDiv d' = map (line_row content)
      (take (showingTo (d_ed d') - showingFrom (d_ed d')) (drop (showingFrom (d_ed d')) (lines (d_ed d))))"
proof -
  have doc: "doc_ok (doc (d_ed d))" "nonneg (lines (d_ed d))" using assms(1) by (simp_all add: struct_ok_def)
  obtain vf vt where v: "visibleLines (d_ed d) (d_view d) st = (vf, vt)" by (cases "visibleLines (d_ed d) (d_view d) st")
  obtain "from" to where w: "new_window (d_ed d) (vf, vt) = (from, to)" by (cases "new_window (d_ed d) (vf, vt)")
  have ft: "0 \<le> from" "from \<le> to" "to \<le> int (length (lines (d_ed d)))"
    using window_ok [OF doc assms(2,4) w [folded v]] by blast+
  obtain intact where intact: "intact = clip_ranges from to (case chs of None \<Rightarrow> []
      | Some cs \<Rightarrow> computeIntact [\<lparr>rfrom = int (showingFrom (d_ed d)), rto = int (showingTo (d_ed d)), rdom = 0\<rparr>] cs)" by blast
  note rows = window_rows [OF doc(1) ft assms(5-7) intact]
  have il: "iter_list (d_ed d) from to = take (nat to - nat from) (drop (nat from) (lines (d_ed d)))"
    by (rule iter_list_lines [OF doc(1)])
  have len: "int (length (map (line_row content) (iter_list (d_ed d) from to))) = to - from" using ft unfolding il by simp
  have unf: "updateDisplay content ms nh gw chs suppress st d =
      (if chs = Some [] \<and> vf > int (showingFrom (d_ed d)) \<and> vt < int (showingTo (d_ed d)) then Inr (updateVerticalScroll st d, False)
       else if intactLines intact = to - from \<and> from = int (showingFrom (d_ed d)) \<and> to = int (showingTo (d_ed d))
       then Inr (updateVerticalScroll st d, False)
       else Inr (after_patch ms nh gw (from, to) suppress st
              (d\<lparr>lineDiv := map (line_row content) (iter_list (d_ed d) from to)\<rparr>), True))"
    using assms(3) rows len unfolding updateDisplay_def Let_def v w prod.case fst_conv snd_conv intact [symmetric]
    by (simp del: length_map)
  consider "chs = Some []" "vf > int (showingFrom (d_ed d))" "vt < int (showingTo (d_ed d))"
    | "\<not> (chs = Some [] \<and> vf > int (showingFrom (d_ed d)) \<and> vt < int (showingTo (d_ed d)))"
      "intactLines intact = to - from" "from = int (showingFrom (d_ed d))" "to = int (showingTo (d_ed d))"
    | "\<not> (chs = Some [] \<and> vf > int (showingFrom (d_ed d)) \<and> vt < int (showingTo (d_ed d)))"
      "\<not> (intactLines intact = to - from \<and> from = int (showingFrom (d_ed d)) \<and> to = int (showingTo (d_ed d)))" by blast
  then show ?thesis
  proof cases
    case 1
    have le: "showingTo (d_ed d) \<le> length (lines (d_ed d))" using assms(8) 1(1) by blast
    have "lineDiv d = map (line_row content)
      (take (showingTo (d_ed d) - showingFrom (d_ed d)) (drop (showingFrom (d_ed d)) (lines (d_ed d))))"
      using assms(7) 1(1) by (intro rows_shown le assms(6)) simp
    from rows_kept [OF assms(5) le this] 1 show ?thesis unfolding unf by simp
  next
    case 2
    have "to - from = int (length (lineDiv d))" using 2(3,4) assms(5,6) by simp
    then have "lineDiv d = map (line_row content) (iter_list (d_ed d) from to)" using rows 2(2) by blast
    note this [unfolded il]
    note e = this [unfolded 2(3,4) nat_int]
    have "showingTo (d_ed d) \<le> length (lines (d_ed d))" using ft(3) 2(4) by simp
    from rows_kept [OF assms(5) this e] 2(2-4) show ?thesis unfolding unf if_not_P [OF 2(1)] by simp
  next
    case 3
    note p = rows_patched [OF ft arg_cong [of _ _ "map (line_row content)", OF il] refl, where d = d and ms = ms and nh = nh and gw = gw and suppress = suppress and st = st]
    show ?thesis unfolding unf if_not_P [OF 3(1)] if_not_P [OF 3(2)] by (intro exI conjI refl; use p in blast)
  qed
qed

text \<open>
  C8: The display shows the document: if every row that no change covers is still right, \<open>updateDisplay\<close> fails
  neither with a \<open>TypeError\<close> nor in its assertion, and leaves, for the lines of its window in order, exactly
  one row with their current content, whether it returns early or patches.
\<close>

theorem display_shows_document:
  assumes "struct_ok k (d_ed d)" and "0 < textHeight (screen (d_ed d))" and "0 < clientWidth (screen (d_ed d))"
    and "paddingTop (screen (d_ed d)) \<le> (case st of Some t \<Rightarrow> t | None \<Rightarrow> scrollTop (d_view d)) + int (clientHeight (screen (d_ed d)))"
    and "showingFrom (d_ed d) \<le> showingTo (d_ed d)" and "length (lineDiv d) = showingTo (d_ed d) - showingFrom (d_ed d)"
    and "case chs of None \<Rightarrow> True | Some cs \<Rightarrow> (\<forall>c \<in> set cs. change_ok c) \<and> rows_match content cs d"
    and "chs = Some [] \<longrightarrow> showingTo (d_ed d) \<le> length (lines (d_ed d))"
  shows "\<exists>d' patched. updateDisplay content ms nh gw chs suppress st d = Inr (d', patched) \<and>
    showingFrom (d_ed d') \<le> showingTo (d_ed d') \<and> showingTo (d_ed d') \<le> length (lines (d_ed d)) \<and>
    lineDiv d' = map (line_row content)
      (take (showingTo (d_ed d') - showingFrom (d_ed d')) (drop (showingFrom (d_ed d')) (lines (d_ed d))))"
  by (rule updateDisplay_rows [OF assms])

theorem display_shows_document_witness:
  "\<exists>(d :: (sparql_env, sparql_state, jstring) display) d' patched.
     texts (d_ed d) = [''a'', ''b''] \<and> lineDiv d ! 1 = HiddenRow \<and>
     updateDisplay ltext (\<lambda>l k. (0, 7 * k)) (\<lambda>_. 16) (\<lambda>_. 20) (Some [\<lparr>chfrom = 1, chto = 2, chdiff = 0\<rparr>]) False None d = Inr (d', patched) \<and>
     lineDiv d' = map (line_row ltext)
       (take (showingTo (d_ed d') - showingFrom (d_ed d')) (drop (showingFrom (d_ed d')) (lines (d_ed d))))"
proof -
  let ?e = "demo_editor [CHR ''a'', CHR 0x0A, CHR ''b'']"
  let ?ed = "?e\<lparr>screen := \<lparr>clientWidth = 800, clientHeight = 600, charWidth = 8, textHeight = 16,
      paddingTop = 4, paddingLeft = 4\<rparr>, showingFrom := 0, showingTo := 2\<rparr>"
  let ?vw = "\<lparr>scrollTop = 0, lastScrollTop = 0, scrollLeft = 0, scrollerHeight = 600, scrollerWidth = 800, gutterWidth = 20, fixedGutter = True,
      spaceWidth = 780, spaceHeight = 600, windowHeight = 900, lineOffTop = 0, lineOffLeft = 0\<rparr>"
  obtain d :: "(sparql_env, sparql_state, jstring) display" where d: "d = \<lparr>d_ed = ?ed, d_view = ?vw,
      d_opts = \<lparr>opt_gutter = False, lineNumbers = True, firstLineNumber = 1, lineNumberFormatter = int_str,
        opt_onUpdate = False, onViewportChange = False\<rparr>,
      lineDiv = [line_row ltext (lines ?ed ! 0), HiddenRow], gutterText = [], marginLeft = 0, lastSizeC = 0, barHeight = None,
      moverTop = 0, d_selection = None, viewport_calls = [], update_calls = 0\<rparr>" by blast
  have "ed_ok ?e" by (rule undo_okD(1) [OF reachable_undo_ok [OF demo_reachable]])
  then have s: "struct_ok (next_line ?e) (d_ed d)" by (simp add: d ed_ok_def struct_ok_def known_def)
  have t: "texts (d_ed d) = [''a'', ''b'']"
    using demo_texts [of "[CHR ''a'', CHR 0x0A, CHR ''b'']"] by (simp add: d texts_def)
  have "track [\<lparr>chfrom = 1, chto = 2, chdiff = 0\<rparr>] j = Some i \<Longrightarrow> i < 2 \<Longrightarrow> 0 \<le> i \<Longrightarrow> i = 0 \<and> j = 0" for i j
    by (auto simp: track_def pre_def split: if_splits)
  then have m: "rows_match ltext [\<lparr>chfrom = 1, chto = 2, chdiff = 0\<rparr>] d"
    unfolding rows_match_def by (auto simp: d)
  from display_shows_document [OF s, where st = None and chs = "Some [\<lparr>chfrom = 1, chto = 2, chdiff = 0\<rparr>]" and content = ltext
      and ms = "\<lambda>l k. (0, 7 * k)" and nh = "\<lambda>_. 16" and gw = "\<lambda>_. 20" and suppress = False] m
  obtain d' patched where "updateDisplay ltext (\<lambda>l k. (0, 7 * k)) (\<lambda>_. 16) (\<lambda>_. 20) (Some [\<lparr>chfrom = 1, chto = 2, chdiff = 0\<rparr>]) False None d
        = Inr (d', patched)"
     "lineDiv d' = map (line_row ltext)
       (take (showingTo (d_ed d') - showingFrom (d_ed d')) (drop (showingFrom (d_ed d')) (lines (d_ed d))))"
    by (auto simp: d change_ok_def)
  moreover have "lineDiv d ! 1 = HiddenRow" by (simp add: d)
  ultimately show ?thesis using t by blast
qed

end
