(* ===== verification/CM_Change_Log.thy ===== *)
theory CM_Change_Log
  imports CM_Display_Laws
begin

section \<open>The log of changes is true\<close>

text \<open>
  Between the start and the end of an operation the edits write what they did into \<open>changes\<close>, and the display reads
  from it which of its rows it may keep.  Here every call of the instance is shown to log enough: a line that the
  log carries from an old number to a new one (\<open>track\<close>) is the very line that it was, the parser state kept on it apart.  Together with the law of
  the display this gives: after any calls, the screen shows the document.
\<close>

definition logged :: "change_rec list \<Rightarrow> 'l list \<Rightarrow> 'l list \<Rightarrow> bool" where
  "logged cs xs ys \<longleftrightarrow> (cs = [] \<longrightarrow> ys = xs) \<and>
     (\<forall>j i. 0 \<le> j \<and> j < int (length ys) \<and> track cs j = Some i \<longrightarrow>
        0 \<le> i \<and> i < int (length xs) \<and> ys ! nat j = xs ! nat i)"

lemma logged_map: "logged cs xs ys \<Longrightarrow> logged cs (map f xs) (map f ys)"
  unfolding logged_def by (auto simp: nat_less_iff)

text \<open>A line without the parser state that the highlighter keeps on it, which no row shows.\<close>

definition unstated :: "'s line \<Rightarrow> 's line" where
  "unstated l = l\<lparr>stateAfter := None\<rparr>"

text \<open>What no edit touches.\<close>

definition world :: "('g, 's) editor \<Rightarrow> ('g, 's) mode \<times> options \<times> screen \<times> nat \<times> nat \<times> nat" where
  "world ed = (mode ed, options ed, screen ed, showingFrom ed, showingTo ed, nestedOperation ed)"

definition follows :: "('g, 's) editor \<Rightarrow> ('g, 's) editor \<Rightarrow> bool" where
  "follows ed ed' \<longleftrightarrow> world ed' = world ed \<and>
     (\<exists>cs. changes ed' = changes ed @ cs \<and> (\<forall>c \<in> set cs. change_ok c) \<and>
        logged cs (map unstated (lines ed)) (map unstated (lines ed')))"

lemma world_simps:
  assumes "world ed' = world ed"
  shows "mode ed' = mode ed" "options ed' = options ed" "screen ed' = screen ed" "showingFrom ed' = showingFrom ed"
    "showingTo ed' = showingTo ed" "nestedOperation ed' = nestedOperation ed"
  using assms by (simp_all add: world_def)

lemma track_append: "track (cs @ ds) j = Option.bind (track ds j) (track cs)"
proof -
  have "foldr (\<lambda>c x. Option.bind x (pre c)) cs None = None" by (induction cs) auto
  then show ?thesis by (cases "track ds j") (simp_all add: track_def)
qed

lemma logged_refl: "logged [] xs xs"
  by (simp add: logged_def)

lemma logged_trans:
  assumes "logged cs xs ys" and "logged ds ys zs"
  shows "logged (cs @ ds) xs zs"
  unfolding logged_def
proof (intro conjI allI impI)
  show "cs @ ds = [] \<Longrightarrow> zs = xs" using assms by (simp add: logged_def)
  fix j i assume j: "0 \<le> j \<and> j < int (length zs) \<and> track (cs @ ds) j = Some i"
  then obtain k where k: "track ds j = Some k" "track cs k = Some i"
    by (cases "track ds j") (simp_all add: track_append)
  then have y: "0 \<le> k" "k < int (length ys)" "zs ! nat j = ys ! nat k" using assms(2) j unfolding logged_def by blast+
  then have "0 \<le> i \<and> i < int (length xs) \<and> ys ! nat k = xs ! nat i" using assms(1) k(2) unfolding logged_def by blast
  then show "0 \<le> i" "i < int (length xs)" "zs ! nat j = xs ! nat i" unfolding y(3) by blast+
qed

lemma follows_trans:
  assumes "follows a b" and "follows b c"
  shows "follows a c"
proof -
  obtain cs where cs: "changes b = changes a @ cs" "\<forall>c \<in> set cs. change_ok c" "logged cs (map unstated (lines a)) (map unstated (lines b))"
    using assms(1) unfolding follows_def by blast
  obtain ds where ds: "changes c = changes b @ ds" "\<forall>c \<in> set ds. change_ok c" "logged ds (map unstated (lines b)) (map unstated (lines c))"
    using assms(2) unfolding follows_def by blast
  have "changes c = changes a @ (cs @ ds)" "\<forall>c \<in> set (cs @ ds). change_ok c" using cs(1,2) ds(1,2) by auto
  moreover have "world c = world a" using assms by (simp add: follows_def)
  ultimately show ?thesis unfolding follows_def using logged_trans [OF cs(3) ds(3)] by blast
qed

text \<open>A step that touches neither the lines nor the log nor the display.\<close>

definition quiet :: "('g, 's) editor \<Rightarrow> ('g, 's) editor \<Rightarrow> bool" where
  "quiet ed ed' \<longleftrightarrow> doc ed' = doc ed \<and> changes ed' = changes ed \<and> world ed' = world ed"

lemma quiet_follows: "quiet ed ed' \<Longrightarrow> follows ed ed'"
  by (simp add: quiet_def follows_def logged_refl)

lemma quiet_before: "quiet a b \<Longrightarrow> follows b c \<Longrightarrow> follows a c"
  by (blast intro: quiet_follows follows_trans)

lemma quiet_after: "follows a b \<Longrightarrow> quiet b c \<Longrightarrow> follows a c"
  by (blast intro: quiet_follows follows_trans)

subsection \<open>One edit\<close>

text \<open>The lines outside the new stretch keep their heights, too.\<close>

lemma rewrap_outside:
  assumes "struct_ok (next_line e) e" and "0 < p" and "j < length (lines e)" and "j \<noteq> n"
  shows "lines (rewrap_line p n e) ! j = lines e ! j"
proof -
  have d: "doc_ok (doc e)" using assms(1) by (simp add: struct_ok_def)
  have "lines (set_height n h e) ! j = lines e ! j" if "n < length (lines e)" for h
    using that assms(4) by (simp add: set_height_def updateLineHeight_collapse [OF d that])
  then show ?thesis by (auto simp: rewrap_line_def getLine_lines [OF d] Let_def split: option.split)
qed

lemma rewrap_all_outside:
  assumes "struct_ok (next_line e) e" and "0 < p" and "j < length (lines e)" and "j \<notin> set ns"
  shows "lines (fold (rewrap_line p) ns e) ! j = lines e ! j"
  using assms
proof (induction ns arbitrary: e)
  case (Cons n ns)
  have k: "keeps e (rewrap_line p n e)" by (rule keeps_rewrap [OF Cons.prems(2,1)])
  then have "struct_ok (next_line (rewrap_line p n e)) (rewrap_line p n e)" "length (lines (rewrap_line p n e)) = length (lines e)"
    using Cons.prems(1) unfolding keeps_def by blast+
  then show ?case using Cons.IH [of "rewrap_line p n e"] rewrap_outside [OF Cons.prems(1-3)] Cons.prems by simp
qed simp

lemma fix_widths_outside:
  assumes ok: "struct_ok (next_line e) e" and j: "j < length (lines e)" "j < a \<or> a + n \<le> j"
  shows "lines (fix_widths (int a) n maxLen rc e) ! j = lines e ! j"
proof (cases "lineWrapping (options e)")
  case True
  then show ?thesis using rewrap_all_outside [OF ok _ j(1), of "max 5 (per_line (screen e))" "[a ..< a + n]"] j(2)
    by (auto simp: fix_widths_def)
qed (simp add: fix_widths_def Let_def split: prod.split)

lemma quiet_rewrap: "changes (rewrap_line p n e) = changes e \<and> world (rewrap_line p n e) = world e"
  by (simp add: rewrap_line_def set_height_def world_def Let_def split: option.split)

lemma fix_widths_fields: "changes (fix_widths f n m rc e) = changes e" "world (fix_widths f n m rc e) = world e"
proof -
  have "changes (fold (rewrap_line p) ns e) = changes e \<and> world (fold (rewrap_line p) ns e) = world e" for p ns
    by (induction ns arbitrary: e) (simp_all add: quiet_rewrap)
  then show "changes (fix_widths f n m rc e) = changes e" "world (fix_widths f n m rc e) = world e"
    by (auto simp: fix_widths_def world_def Let_def split: prod.split)
qed

text \<open>The record of an edit of the lines \<open>a\<close> to \<open>b\<close> into \<open>n\<close> lines.\<close>

lemma logged_edit:
  assumes len: "int (length ys) = int (length xs) + d" and ab: "a \<le> b" "b < length xs" and d: "d = int n - (int b - int a) - 1"
    and low: "\<And>j. j < a \<Longrightarrow> ys ! j = xs ! j"
    and high: "\<And>j. a + n \<le> j \<Longrightarrow> j < length ys \<Longrightarrow> ys ! j = xs ! (length xs - (length ys - j))"
  shows "logged [\<lparr>chfrom = int a, chto = int b + 1, chdiff = d\<rparr>] xs ys"
  unfolding logged_def
proof (intro conjI allI impI)
  fix j i :: int
  assume j: "0 \<le> j \<and> j < int (length ys) \<and> track [\<lparr>chfrom = int a, chto = int b + 1, chdiff = d\<rparr>] j = Some i"
  then have cases: "(j < int a \<and> i = j) \<or> (int b + 1 + d \<le> j \<and> i = j - d)"
    by (auto simp: track_def pre_def split: if_splits)
  then have "0 \<le> i \<and> i < int (length xs) \<and> ys ! nat j = xs ! nat i"
  proof
    assume "j < int a \<and> i = j"
    then show ?thesis using j ab low [of "nat j"] by auto
  next
    assume h: "int b + 1 + d \<le> j \<and> i = j - d"
    then have "a + n \<le> nat j" "nat j < length ys" using d j by auto
    moreover have "length xs - (length ys - nat j) = nat i" using h len j d ab by auto
    ultimately show ?thesis using high [of "nat j"] h len j d ab by auto
  qed
  then show "0 \<le> i" "i < int (length xs)" "ys ! nat j = xs ! nat i" by blast+
qed simp

lemma evolves_world: "evolves e e' \<Longrightarrow> world e' = world e"
  unfolding evolves_def world_def by auto

lemma quiet_dirty: "quiet ed (dirty_gutter from to hs ed)"
  by (simp add: quiet_def dirty_gutter_def world_def)

lemma updateLinesNoUndo_follows:
  assumes ok: "ed_ok ed" and su: "\<not> suppressEdits ed"
    and p: "pos_ok (texts ed) from" "pos_ok (texts ed) to" "from \<le> to" and hs: "hs \<noteq> []"
    and run: "updateLinesNoUndo from to hs sf st ed = Some ed'"
  shows "follows ed ed'"
proof -
  obtain maxLen rc ed2 n g i ts sc where
      e2: "step (nat (pline from)) (length (texts ed) - Suc (nat (pline to))) n n (dirty_gutter from to hs ed) ed2
             (text_edit from to (map hlText hs) (texts ed))" "struct_ok (next_line ed2) ed2"
          "keeps ed2 (after_edit from to hs maxLen rc ed2)"
      and ed': "ed' = (after_edit from to hs maxLen rc ed2)\<lparr>sel_from := fst (norm_sel (text_edit from to (map hlText hs) (texts ed)) sf st),
            sel_to := snd (norm_sel (text_edit from to (map hlText hs) (texts ed)) sf st),
            goalColumn := g, sel_inverted := i, timers := ts, selectionChanged := sc\<rparr>"
    by (rule updateLinesNoUndo_parts [OF ok su p hs, of sf st]) (use run in auto)
  obtain a x where f: "from = Pos (int a) (int x)" and a: "a < length (texts ed)" by (rule pos_okE [OF p(1)])
  obtain b y where t: "to = Pos (int b) (int y)" and b: "b < length (texts ed)" by (rule pos_okE [OF p(2)])
  have ab: "a \<le> b" using p(3) by (auto simp: f t pos_le_iff)
  let ?z = "length (lines ed) - Suc b" and ?d = "int (length hs) - (int b - int a) - 1"
  let ?ed3 = "fix_widths (int a) (length hs) maxLen rc ed2"
  let ?c = "\<lparr>chfrom = int a, chto = int b + 1, chdiff = ?d\<rparr>"
  have q: "lines (dirty_gutter from to hs ed) = lines ed" "changes (dirty_gutter from to hs ed) = changes ed"
    by (simp_all add: dirty_gutter_def)
  have en: "ends a ?z (lines ed) (lines ed2)" using e2(1) [unfolded step_def q] by (simp add: f t)
  have "texts ed2 = text_edit from to (map hlText hs) (texts ed)" using e2(1) by (simp add: step_def)
  then have "length (texts ed2) = length (texts ed) - (b - a + 1) + length hs"
    using a b ab hs length_joined [of "map hlText hs"] by (simp add: text_edit_def f t splice_at_def nat_diff_distrib del: length_texts)
  then have len2: "int (length (lines ed2)) = int (length (lines ed)) + ?d" using a b ab by simp
  have l: "lines ed' = lines ?ed3" "changes ed' = changes ed2 @ [?c]" "world ed' = world ed2"
    using fix_widths_fields [of "int a" "length hs" maxLen rc ed2]
    by (simp_all add: ed' after_edit_def log_change_def push_change_def startWorker_def world_def Let_def f t)
  have k3: "length (lines ?ed3) = length (lines ed2)"
    using keeps_fix_widths [OF e2(2), of "int a" "length hs" maxLen rc] e2(2) by (simp add: keeps_def)
  note out = fix_widths_outside [OF e2(2), where maxLen = maxLen and rc = rc and a = a and n = "length hs"]
  have "logged [?c] (lines ed) (lines ed')"
  proof (rule logged_edit [OF _ ab _ refl])
    show "int (length (lines ed')) = int (length (lines ed)) + ?d" using len2 k3 l(1) by simp
    show "b < length (lines ed)" using b by simp
    show "lines ed' ! j = lines ed ! j" if "j < a" for j
      using out [of j] that en ends_nth_low [OF en that] a by (simp add: l(1) ends_def)
    show "lines ed' ! j = lines ed ! (length (lines ed) - (length (lines ed') - j))"
      if j: "a + length hs \<le> j" "j < length (lines ed')" for j
    proof -
      have "length (lines ed2) - ?z \<le> j" using j(1) len2 ab b by simp
      then have "lines ed2 ! j = lines ed ! (length (lines ed) - (length (lines ed2) - j))"
        using ends_nth_high [OF en, of j] j(2) k3 l(1) by simp
      then show ?thesis using out [of j] j k3 by (simp add: l(1))
    qed
  qed
  moreover have "change_ok ?c" using ab hs by (simp add: change_ok_def)
  moreover have "world ed2 = world ed" "changes ed2 = changes ed"
    using e2(1) quiet_dirty [of ed "from" to hs] by (auto simp: step_def evolves_fields(13) evolves_world quiet_def)
  ultimately show ?thesis
    unfolding follows_def using l(2,3) logged_map by (intro conjI exI [of _ "[?c]"]) simp_all
qed

lemma updateLines_follows:
  assumes ok: "ed_ok ed" and su: "\<not> suppressEdits ed"
    and p: "pos_ok (texts ed) from" "pos_ok (texts ed) to" "from \<le> to" and ls: "ls \<noteq> []"
    and run: "updateLines from to ls sf st ed = Some ed'"
  shows "follows ed ed'"
proof -
  obtain old hs where old: "old = map line_hl (iter_list ed (pline from) (pline to + 1))"
      and hs: "hs = updateMarkedSpans (markers ed) (hlSpans (hd old)) (hlSpans (last old)) (pch from) (pch to) ls" by blast
  let ?ed1 = "record_change from (length ls) old ed"
  have r: "texts ?ed1 = texts ed" "ed_ok ?ed1" "\<not> suppressEdits ?ed1" "quiet ed ?ed1"
    using ok su by (simp_all add: record_change_def texts_def ed_ok_def struct_ok_def known_def all_visible_def quiet_def world_def)
  have "updateLinesNoUndo from to hs sf st ?ed1 = Some ed'"
    using run su unfolding updateLines_def Let_def old [symmetric] hs [symmetric] by (simp split: if_splits)
  moreover have "hs \<noteq> []" unfolding hs using updateMarkedSpans_text [OF ls] ls by (metis list.map_disc_iff)
  ultimately have "follows ?ed1 ed'" using updateLinesNoUndo_follows [OF r(2,3)] p unfolding r(1) by blast
  with r(4) show ?thesis by (rule quiet_before)
qed

subsection \<open>The calls of the instance\<close>

lemma setSelection_quiet:
  assumes ok: "ed_ok ed" and p: "pos_ok (texts ed) p" "pos_ok (texts ed) q" and run: "setSelection p q old ed = Some ed'"
  shows "quiet ed ed'"
proof -
  note d = ed_okD [OF ok]
  have s: "0 \<le> pline (sel_from ed)" using d(6) by (simp add: pos_ok_def)
  show ?thesis using setSelection_visible [OF d(4,2) p s d(8), of old] run by (auto simp: quiet_def world_def)
qed

lemma setSelectionUser_quiet:
  assumes ok: "ed_ok ed" and p: "pos_ok (texts ed) p" "pos_ok (texts ed) q" and run: "setSelectionUser p q ed = Some ed'"
  shows "quiet ed ed'"
proof -
  note d = ed_okD [OF ok]
  obtain sh where sh: "(case shiftSelecting ed of None \<Rightarrow> Some None | Some p \<Rightarrow> map_option Some (clip ed p)) = Some sh"
      "\<forall>s. sh = Some s \<longrightarrow> pos_ok (texts ed) s"
    using clipPos_text [OF d(2,3)] clip_text_ok [OF d(3)] by (cases "shiftSelecting ed") auto
  obtain f t where ft: "(case sh of None \<Rightarrow> (p, q)
      | Some s \<Rightarrow> if posLess s p then (s, q) else if posLess q s then (p, s) else (p, q)) = (f, t)" by fastforce
  then have ok2: "pos_ok (texts ed) f" "pos_ok (texts ed) t" using p sh(2) by (auto split: option.splits if_splits)
  obtain ed1 where e: "setSelection f t None ed = Some ed1" "ed' = ed1\<lparr>userSelChange := True\<rparr>"
    using run sh(1) ft unfolding setSelectionUser_def Let_def by (auto simp: bind_eq_Some_conv)
  from setSelection_quiet [OF ok ok2 e(1)] show ?thesis by (simp add: quiet_def world_def e(2))
qed

lemma unredo_change_follows:
  assumes ok: "ed_ok ed" and su: "\<not> suppressEdits ed" and c: "in_range c (length (texts ed))" "live c"
    and run: "unredo_change c ed = Some (c', ed')"
  shows "follows ed ed'"
proof -
  note d = ed_okD [OF ok]
  obtain s a where sa: "cstart c = int s" "cadded c = int a" and le: "s + a \<le> length (texts ed)" using c(1) by (rule in_rangeE)
  let ?m = "cstart c + cadded c - 1"
  have m: "int s \<le> ?m" "?m < int (length (texts ed))" using sa le c(2) by simp_all
  obtain t p where u: "line_text ed ?m = Some t"
      "updateLinesNoUndo (Pos (cstart c) 0) (Pos ?m (int (length t))) (cold c) p p ed = Some ed'"
    using run unfolding unredo_change_def Let_def by (auto simp: bind_eq_Some_conv)
  have "t = texts ed ! nat ?m" using u(1) m by (simp add: line_text_texts [OF d(2)])
  then have "pos_ok (texts ed) (Pos (cstart c) 0)" "pos_ok (texts ed) (Pos ?m (int (length t)))"
    "Pos (cstart c) 0 \<le> Pos ?m (int (length t))"
    using m sa by (auto simp: pos_ok_def pos_le_iff)
  then show ?thesis using updateLinesNoUndo_follows [OF ok su] c(2) u(2) by blast
qed

lemma unredo_changes_follows:
  "ed_ok ed \<Longrightarrow> \<not> suppressEdits ed \<Longrightarrow> revertible cs (length (texts ed)) \<Longrightarrow> \<forall>c \<in> set cs. live c \<Longrightarrow>
     unredo_changes cs out ed = Some (o', ed') \<Longrightarrow> follows ed ed'"
proof (induction cs arbitrary: ed out)
  case Nil
  then show ?case by (simp add: quiet_follows quiet_def world_def)
next
  case (Cons c cs)
  from Cons.prems have c: "in_range c (length (texts ed))" "live c" by simp_all
  obtain c' ed1 where u: "unredo_change c ed = Some (c', ed1)" "ed_ok ed1" "texts ed1 = revert (map_change hlText c) (texts ed)"
      "suppressEdits ed1 = suppressEdits ed"
    using unredo_change_ok [OF Cons.prems(1,2) c] by blast
  have "length (texts ed1) = length (texts ed) - nat (cadded c) + length (cold c)"
    unfolding u(3) using length_revert [of "map_change hlText c" "texts ed"] c(1) by (simp add: in_range_def)
  then have r: "revertible cs (length (texts ed1))" using Cons.prems(3) by simp
  have "unredo_changes cs (out @ [c']) ed1 = Some (o', ed')" using Cons.prems(5) u(1) by simp
  then have "follows ed1 ed'" using Cons.IH [OF u(2) _ r] Cons.prems(2,4) u(4) by simp
  with unredo_change_follows [OF Cons.prems(1,2) c u(1)] show ?case by (rule follows_trans)
qed

lemma undo_redo_follows:
  assumes ok: "undo_ok ed" and run: "undo ed = Some ed' \<or> redo ed = Some ed'"
  shows "follows ed ed'"
proof -
  obtain h where h: "history ed = Some h" using ok by (auto simp: undo_ok_def)
  have ok1: "ed_ok (ed\<lparr>history := k\<rparr>)" "\<not> suppressEdits (ed\<lparr>history := k\<rparr>)" "texts (ed\<lparr>history := k\<rparr>) = texts ed"
      "quiet ed (ed\<lparr>history := k\<rparr>)" for k
    using ok by (simp_all add: undo_ok_def ed_ok_def struct_ok_def known_def texts_def all_visible_def quiet_def world_def)
  have live: "\<forall>c \<in> set (concat (hdone h @ hundone h)). live c"
    and rev: "revertible (rev (concat (hdone h))) (length (texts ed))" "revertible (concat (map rev (rev (hundone h)))) (length (texts ed))"
    using ok h unfolding undo_ok_def hist_ok_abs by simp_all
  have go: "follows ed (ed1\<lparr>updateInput := ui, history := hh\<rparr>)"
    if "unredo_changes (rev cs) [] (ed\<lparr>history := k\<rparr>) = Some (o', ed1)" "revertible (rev cs @ ds) (length (texts ed))"
       "\<forall>c \<in> set cs. live c" for cs ds k o' ed1 ui hh
  proof -
    have "follows (ed\<lparr>history := k\<rparr>) ed1"
      using unredo_changes_follows [OF ok1(1,2) _ _ that(1)] that(2,3) revertible_append unfolding ok1(3) by auto
    then have "follows ed ed1" using ok1(4) by (rule quiet_before [rotated])
    then show ?thesis by (rule quiet_after) (simp add: quiet_def world_def)
  qed
  from run show ?thesis
  proof
    assume run: "undo ed = Some ed'"
    show ?thesis
    proof (cases "hdone h" rule: rev_cases)
      case Nil
      with run h show ?thesis by (simp add: undo_def quiet_follows quiet_def world_def)
    next
      case (snoc A cs)
      obtain o' ed1 where u: "unredo_changes (rev cs) [] (ed\<lparr>history := Some (h\<lparr>hdone := A\<rparr>)\<rparr>) = Some (o', ed1)"
          "ed' = ed1\<lparr>updateInput := Some True, history := map_option (\<lambda>h. h\<lparr>hundone := hundone h @ [o']\<rparr>) (history ed1)\<rparr>"
        using run h snoc by (auto simp: undo_def bind_eq_Some_conv)
      show ?thesis unfolding u(2) using go [OF u(1), of "rev (concat A)"] rev(1) live snoc by auto
    qed
  next
    assume run: "redo ed = Some ed'"
    show ?thesis
    proof (cases "hundone h" rule: rev_cases)
      case Nil
      with run h show ?thesis by (simp add: redo_def quiet_follows quiet_def world_def)
    next
      case (snoc A cs)
      obtain o' ed1 where u: "unredo_changes (rev cs) [] (ed\<lparr>history := Some (h\<lparr>hundone := A\<rparr>)\<rparr>) = Some (o', ed1)"
          "ed' = ed1\<lparr>updateInput := Some True, history := map_option (\<lambda>h. h\<lparr>hdone := hdone h @ [o']\<rparr>) (history ed1)\<rparr>"
        using run h snoc by (auto simp: redo_def bind_eq_Some_conv)
      show ?thesis unfolding u(2) using go [OF u(1), of "concat (map rev (rev A))"] rev(2) live snoc by auto
    qed
  qed
qed

lemma setValue_follows:
  assumes ok: "undo_ok ed" and run: "setValue v ed = Some ed'"
  shows "follows ed ed'"
proof -
  let ?n = "int (length (lines ed)) - 1"
  note d = undo_okD(2,3) [OF ok]
  have su: "\<not> suppressEdits ed" using ok by (simp add: undo_ok_def)
  have ne: "lines ed \<noteq> []" using d(2) by (simp add: texts_def)
  have lt: "line_text ed ?n = Some (texts ed ! nat ?n)" using ne by (simp add: line_text_texts [OF d(1)])
  let ?to = "Pos ?n (int (length (texts ed ! nat ?n)))"
  have p: "pos_ok (texts ed) (Pos 0 0)" "pos_ok (texts ed) ?to" "Pos 0 0 \<le> ?to"
    using last_pos_ok [OF d(2)] ne by (cases "lines ed"; auto simp: pos_ok_def pos_le_iff)+
  obtain ed1 where u: "updateLines (Pos 0 0) ?to (splitLines v) (Pos 0 0) (Pos 0 0) ed = Some ed1" "ed' = ed1\<lparr>updateInput := Some True\<rparr>"
    using run lt by (auto simp: setValue_def doc_size_lines [OF d(1)] bind_eq_Some_conv)
  from updateLines_follows [OF undo_okD(1) [OF ok] su p splitLines_nonempty u(1)] show ?thesis
    by (rule quiet_after) (simp add: quiet_def world_def u(2))
qed

lemma run_api_follows:
  assumes ok: "undo_ok ed" and a: "api_ok a ed" and run: "run_api a ed = Some ed'"
  shows "follows ed ed'"
proof -
  note e = undo_okD(1) [OF ok] and d = undo_okD(2,3) [OF ok]
  have su: "\<not> suppressEdits ed" using ok by (simp add: undo_ok_def)
  note sel = ed_okD(6-8) [OF e]
  let ?c = "\<lambda>p. clip_text (texts ed) (pline p) (Some (pch p))"
  have cl: "clip ed p = Some (?c p)" and pc: "pos_ok (texts ed) (?c p)" for p
    by (simp_all add: clipPos_text [OF d] clip_text_ok [OF d(2)])
  show ?thesis
  proof (cases a)
    case (SetValue v)
    with setValue_follows [OF ok] run show ?thesis by simp
  next
    case (ReplaceSelection v c)
    then obtain f t where "updateLines (sel_from ed) (sel_to ed) (splitLines v) f t ed = Some ed'"
      using run by (auto simp: replaceSelection_def replaceRange1_def split: prod.splits)
    from updateLines_follows [OF e su sel splitLines_nonempty this] show ?thesis .
  next
    case (ReplaceRange v f t)
    then have le: "?c f \<le> ?c t" using a by (simp add: cl)
    obtain sf st where "updateLines (?c f) (?c t) (splitLines v) sf st ed = Some ed'"
      using run ReplaceRange by (auto simp: replaceRange_def cl replaceRange1_def Let_def bind_eq_Some_conv)
    from updateLines_follows [OF e su pc pc le splitLines_nonempty this] show ?thesis .
  next
    case Undo
    with undo_redo_follows [OF ok] run show ?thesis by simp
  next
    case Redo
    with undo_redo_follows [OF ok] run show ?thesis by simp
  next
    case (SetSelection f t)
    with run have "setSelection (?c f) (?c t) None ed = Some ed'" by (simp add: cl)
    from quiet_follows [OF setSelection_quiet [OF e pc pc this]] show ?thesis .
  next
    case (SetCursor l c user)
    let ?p = "clip_text (texts ed) l (Some (case c of None \<Rightarrow> 0 | Some c \<Rightarrow> c))"
    have "pos_ok (texts ed) ?p" by (rule clip_text_ok [OF d(2)])
    moreover have "(if user then setSelectionUser ?p ?p ed else setSelection ?p ?p None ed) = Some ed'"
      using run SetCursor by (simp add: setCursor_def clipPos_text [OF d])
    ultimately have "quiet ed ed'"
      using setSelectionUser_quiet [OF e] setSelection_quiet [OF e] by (cases user) auto
    then show ?thesis by (rule quiet_follows)
  qed
qed

end
