(* ===== verification/CM_Interface_Laws.thy ===== *)
theory CM_Interface_Laws
  imports CM_Interface
begin

section \<open>Typed text and saved histories\<close>

text \<open>
  What \<open>readInput\<close> does to the text when the content of the hidden input has changed, and that a history
  taken with \<open>getHistory\<close> and given back with \<open>setHistory\<close>, also to another editor with the same text, undoes
  and redoes as before.
\<close>

subsection \<open>Typed text\<close>

lemma undo_ok_input:
  "undo_ok ed \<Longrightarrow> undo_ok (ed\<lparr>input := t\<rparr>)" "undo_ok ed \<Longrightarrow> undo_ok (ed\<lparr>prevInput := t\<rparr>)"
  "undo_ok ed \<Longrightarrow> undo_ok (ed\<lparr>shiftSelecting := sh\<rparr>)"
  "undo_ok ed \<Longrightarrow> pos_ok (texts ed) p \<Longrightarrow> p \<le> sel_to ed \<Longrightarrow> undo_ok (ed\<lparr>sel_from := p\<rparr>)"
  "undo_ok ed \<Longrightarrow> pos_ok (texts ed) q \<Longrightarrow> sel_from ed \<le> q \<Longrightarrow> undo_ok (ed\<lparr>sel_to := q\<rparr>)"
  by (simp_all add: undo_ok_def ed_ok_def struct_ok_def known_def texts_def all_visible_def abs_ed_def)

lemma offset_left: "0 \<le> c - int k \<Longrightarrow> offset d (Pos l (c - int k)) = offset d (Pos l c) - k"
  by (simp add: offset_def nat_diff_distrib)

lemma offset_right: "0 \<le> c \<Longrightarrow> offset d (Pos l (c + int k)) = offset d (Pos l c) + k"
  by (simp add: offset_def nat_add_distrib)

text \<open>The part of the text that the typed text replaces.\<close>

definition typed_from :: "nat \<Rightarrow> ('g, 's) editor \<Rightarrow> nat" where
  "typed_from same ed = offset (texts ed) (sel_from ed) - (length (prevInput ed) - same)"

definition typed_to :: "nat \<Rightarrow> ('g, 's) editor \<Rightarrow> nat" where
  "typed_to same ed =
     (if length (prevInput ed) \<le> same \<and> overwrite ed \<and> posEq (sel_from ed) (sel_to ed)
      then offset (texts ed) (Pos (pline (sel_to ed))
             (min (int (length (texts ed ! nat (pline (sel_to ed))))) (pch (sel_to ed) + int (length (input ed) - same))))
      else offset (texts ed) (sel_to ed))"

lemma common_prefix_le: "common_prefix a b \<le> length a"
  by (induction a b rule: common_prefix.induct) auto

lemma typed_selection:
  assumes ok: "undo_ok ed" and room: "int (length (prevInput ed) - same) \<le> pch (sel_from ed)"
  shows "\<exists>ed1. input_selection same ed = Some ed1 \<and> undo_ok ed1 \<and> texts ed1 = texts ed \<and>
     offset (texts ed) (sel_from ed1) = typed_from same ed \<and> offset (texts ed) (sel_to ed1) = typed_to same ed"
proof -
  note d = ed_okD [OF undo_okD(1) [OF ok]]
  obtain l c where f: "sel_from ed = Pos l c" by (cases "sel_from ed")
  obtain l2 c2 where t: "sel_to ed = Pos l2 c2" by (cases "sel_to ed")
  consider (A) "same < length (prevInput ed)" | (B) "\<not> same < length (prevInput ed)" "overwrite ed \<and> posEq (sel_from ed) (sel_to ed)"
    | (C) "\<not> same < length (prevInput ed)" "\<not> (overwrite ed \<and> posEq (sel_from ed) (sel_to ed))" by blast
  then show ?thesis
  proof cases
    case A
    let ?p = "Pos l (c - int (length (prevInput ed) - same))"
    have "pos_ok (texts ed) ?p" using d(6) room unfolding f by (simp add: pos_ok_def)
    moreover have "?p \<le> sel_to ed" using d(8) unfolding f t by (auto simp: pos_le_iff)
    ultimately have "undo_ok (ed\<lparr>sel_from := ?p\<rparr>)" by (rule undo_ok_input(4) [OF ok])
    moreover have "offset (texts ed) ?p = typed_from same ed"
      using room unfolding typed_from_def f by (intro offset_left) simp
    ultimately show ?thesis using A by (simp add: input_selection_def f typed_to_def texts_def)
  next
    case B
    let ?len = "int (length (texts ed ! nat l2))" and ?k = "int (length (input ed) - same)"
    let ?q = "Pos l2 (min ?len (c2 + ?k))"
    have p: "0 \<le> l2" "l2 < int (length (texts ed))" "0 \<le> c2" "c2 \<le> ?len" using d(7) unfolding t by (simp_all add: pos_ok_def)
    then have "pos_ok (texts ed) ?q" by (simp add: pos_ok_def)
    moreover have "sel_from ed \<le> ?q" using B(2) p unfolding f t by (auto simp: pos_le_iff posEq_def)
    ultimately have "undo_ok (ed\<lparr>sel_to := ?q\<rparr>)" by (rule undo_ok_input(5) [OF ok])
    moreover have "line_text ed l2 = Some (texts ed ! nat l2)" using p line_text_texts [OF d(2)] by simp
    ultimately show ?thesis using B by (simp add: input_selection_def t typed_from_def typed_to_def texts_def)
  next
    case C
    then show ?thesis using ok by (auto simp: input_selection_def typed_from_def typed_to_def)
  qed
qed

lemma apply_input_ok:
  assumes ok: "undo_ok ed" and room: "int (length (prevInput ed) - same) \<le> pch (sel_from ed)"
    and same: "same = common_prefix (prevInput ed) (input ed)"
  shows "\<exists>ed'. apply_input ed = Some ed' \<and> undo_ok ed' \<and>
     flat (texts ed') = take (typed_from same ed) (flat (texts ed)) @ norm_nl (drop same (input ed)) @
       drop (typed_to same ed) (flat (texts ed)) \<and>
     sel_from ed' = sel_to ed' \<and> offset (texts ed') (sel_to ed') = typed_from same ed + length (norm_nl (drop same (input ed)))"
proof -
  let ?ed = "ed\<lparr>shiftSelecting := None\<rparr>"
  have sh: "texts ?ed = texts ed" "typed_from same ?ed = typed_from same ed" "typed_to same ?ed = typed_to same ed"
    by (simp_all add: texts_def typed_from_def typed_to_def)
  obtain ed1 where e1: "undo_ok ed1" "texts ed1 = texts ed"
      "offset (texts ed) (sel_from ed1) = typed_from same ed" "offset (texts ed) (sel_to ed1) = typed_to same ed"
      "input_selection same ?ed = Some ed1"
    using typed_selection [OF undo_ok_input(3) [OF ok, of None], of same] room unfolding sh by auto
  obtain ed2 where e2: "replaceSelection (drop same (input ed)) CollapseEnd ed1 = Some ed2" "undo_ok ed2"
      "flat (texts ed2) = take (typed_from same ed) (flat (texts ed)) @ norm_nl (drop same (input ed)) @ drop (typed_to same ed) (flat (texts ed))"
      "sel_from ed2 = sel_to ed2" "offset (texts ed2) (sel_to ed2) = typed_from same ed + length (norm_nl (drop same (input ed)))"
    using replaceSelection_ok [OF e1(1), of "drop same (input ed)"] unfolding e1(2-4) by blast
  let ?r = "if length (input ed) > 1000 then ed2\<lparr>input := [], prevInput := []\<rparr> else ed2\<lparr>prevInput := input ed\<rparr>"
  have r: "apply_input ed = Some ?r"
    using e1(5) e2(1) same by (simp add: apply_input_def Let_def)
  have "undo_ok ?r" "texts ?r = texts ed2" "sel_from ?r = sel_from ed2" "sel_to ?r = sel_to ed2"
    using e2(2) by (simp_all add: undo_ok_input texts_def)
  then show ?thesis unfolding r using e2(3-5) by (intro exI [of _ ?r]) simp
qed

subsection \<open>Saved histories\<close>

text \<open>\<open>undo\<close> (\<open>True\<close>) and \<open>redo\<close> (\<open>False\<close>) calls one after the other.\<close>

fun undo_redo :: "bool list \<Rightarrow> ('g, 's) editor \<Rightarrow> ('g, 's) editor option" where
  "undo_redo [] ed = Some ed"
| "undo_redo (b # bs) ed = do { ed1 \<leftarrow> (if b then undo ed else redo ed); undo_redo bs ed1 }"

fun undo_redo_lines :: "bool list \<Rightarrow> 'l history \<times> 'l list \<Rightarrow> 'l history \<times> 'l list" where
  "undo_redo_lines [] st = st"
| "undo_redo_lines (b # bs) st = undo_redo_lines bs (if b then undo_lines st else redo_lines st)"

lemma undo_redo_refines:
  "undo_ok ed \<Longrightarrow> \<exists>ed'. undo_redo bs ed = Some ed' \<and> undo_ok ed' \<and> abs_ed ed' = undo_redo_lines bs (abs_ed ed)"
proof (induction bs arbitrary: ed)
  case (Cons b bs)
  obtain ed1 where e: "(if b then undo ed else redo ed) = Some ed1" "undo_ok ed1"
      "abs_ed ed1 = (if b then undo_lines (abs_ed ed) else redo_lines (abs_ed ed))"
    using undo_refines [OF Cons.prems] redo_refines [OF Cons.prems] by (cases b) auto
  from Cons.IH [OF e(2)] show ?case by (simp add: e)
qed simp

text \<open>Undo and redo look at the two stacks only.\<close>

definition same_stacks :: "'l history \<times> 'l list \<Rightarrow> 'l history \<times> 'l list \<Rightarrow> bool" where
  "same_stacks a b \<longleftrightarrow> hdone (fst a) = hdone (fst b) \<and> hundone (fst a) = hundone (fst b) \<and> snd a = snd b"

lemma same_stacks_step:
  "same_stacks a b \<Longrightarrow> same_stacks (undo_lines a) (undo_lines b)"
  "same_stacks a b \<Longrightarrow> same_stacks (redo_lines a) (redo_lines b)"
  by (auto simp: same_stacks_def undo_lines_def redo_lines_def case_prod_beta Let_def)

lemma same_stacks_run: "same_stacks a b \<Longrightarrow> same_stacks (undo_redo_lines bs a) (undo_redo_lines bs b)"
  by (induction bs arbitrary: a b) (simp_all add: same_stacks_step)

lemma setHistory_stacks:
  assumes "history ed = Some h" and "texts ed' = texts ed"
  shows "same_stacks (abs_ed (setHistory (the (getHistory ed)) ed')) (abs_ed ed)"
proof -
  have "map_change hlText \<lparr>cstart = cstart c, cadded = cadded c, cold = map HL (map hlText (cold c))\<rparr> = map_change hlText c" for c
    by (simp add: map_change_def)
  then have "map (map (map_change hlText)) (as_lines (cp_changes arr)) = map (map (map_change hlText)) arr" for arr
    by (simp add: as_lines_def cp_changes_def)
  then show ?thesis
    using assms by (simp add: same_stacks_def setHistory_def getHistory_def abs_ed_def texts_def)
qed

lemma hist_ok_stacks: "same_stacks a b \<Longrightarrow> hist_ok a \<longleftrightarrow> hist_ok b"
  by (cases a; cases b) (simp add: same_stacks_def hist_ok_def all_done_def)

lemma set_concat_lines:
  assumes "\<forall>c\<in>set (concat arr). cold c \<noteq> [] \<and> 0 < cadded c" and "c \<in> set (concat (as_lines (cp_changes arr)))"
  shows "cold c \<noteq> [] \<and> 0 < cadded c"
  using assms by (auto simp: as_lines_def cp_changes_def)

lemma undo_ok_setHistory:
  assumes ok: "undo_ok ed" "undo_ok ed'" and "texts ed' = texts ed"
  shows "undo_ok (setHistory (the (getHistory ed)) ed')"
proof -
  from ok(1) obtain h where h: "history ed = Some h" by (auto simp: undo_ok_def)
  have "hist_ok (abs_ed (setHistory (the (getHistory ed)) ed'))"
    using hist_ok_stacks [OF setHistory_stacks [OF h assms(3)]] ok(1) by (simp add: undo_ok_def)
  moreover have "\<forall>c\<in>set (concat (as_lines (cp_changes (hdone h)) @ as_lines (cp_changes (hundone h)))). cold c \<noteq> [] \<and> 0 < cadded c"
  proof -
    have "\<forall>c\<in>set (concat (hdone h @ hundone h)). cold c \<noteq> [] \<and> 0 < cadded c"
      using ok(1) h by (simp add: undo_ok_def)
    moreover have "as_lines (cp_changes (hdone h)) @ as_lines (cp_changes (hundone h)) = as_lines (cp_changes (hdone h @ hundone h))"
      by (simp add: as_lines_def cp_changes_def)
    ultimately show ?thesis using set_concat_lines by metis
  qed
  ultimately show ?thesis
    using ok(2) h
    by (simp add: undo_ok_def setHistory_def getHistory_def ed_ok_def struct_ok_def known_def texts_def all_visible_def)
qed

lemma saved_history_ok:
  assumes ok: "undo_ok ed" "undo_ok ed'" and same: "texts ed' = texts ed"
  shows "\<exists>hs e1 e2. getHistory ed = Some hs \<and> undo_redo bs ed = Some e1 \<and>
     undo_redo bs (setHistory hs ed') = Some e2 \<and> texts e2 = texts e1 \<and> undo_ok e1 \<and> undo_ok e2"
proof -
  from ok(1) obtain h where h: "history ed = Some h" by (auto simp: undo_ok_def)
  let ?hs = "the (getHistory ed)"
  have hs: "getHistory ed = Some ?hs" by (simp add: getHistory_def h)
  obtain e1 where e1: "undo_redo bs ed = Some e1" "undo_ok e1" "abs_ed e1 = undo_redo_lines bs (abs_ed ed)"
    using undo_redo_refines [OF ok(1)] by blast
  obtain e2 where e2: "undo_redo bs (setHistory ?hs ed') = Some e2" "undo_ok e2"
      "abs_ed e2 = undo_redo_lines bs (abs_ed (setHistory ?hs ed'))"
    using undo_redo_refines [OF undo_ok_setHistory [OF ok same]] by blast
  have "same_stacks (abs_ed e2) (abs_ed e1)"
    unfolding e1(3) e2(3) by (rule same_stacks_run [OF setHistory_stacks [OF h same]])
  then have "texts e2 = texts e1" by (simp add: same_stacks_def abs_ed_def)
  with hs e1 e2 show ?thesis by blast
qed

subsection \<open>The properties\<close>

text \<open>Reading the hidden input: what stands behind the part of it that was there at the last poll goes into the
  text, normalised, in place of the selection, of the characters in front of it that the input lost, and, when
  overwriting, of as many characters behind the cursor as the line has; the cursor ends up behind it.\<close>

theorem typed_text:
  assumes "reachable ed0" and "int (length p - common_prefix p t) \<le> pch (sel_from ed0)"
  shows "let ed = ed0\<lparr>prevInput := p, input := t\<rparr>; same = common_prefix p t; new = norm_nl (drop same t) in
     \<exists>ed'. apply_input ed = Some ed' \<and>
       getValue ed' [nl] = take (typed_from same ed) (getValue ed0 [nl]) @ new @ drop (typed_to same ed) (getValue ed0 [nl]) \<and>
       sel_from ed' = sel_to ed' \<and>
       indexFromPos ed' (pline (sel_to ed')) (pch (sel_to ed')) = int (typed_from same ed + length new)"
proof -
  let ?ed = "ed0\<lparr>prevInput := p, input := t\<rparr>" and ?same = "common_prefix p t"
  have ok: "undo_ok ?ed" by (intro undo_ok_input reachable_undo_ok [OF assms(1)])
  have tx: "texts ?ed = texts ed0" by (simp add: texts_def)
  have inp: "input ?ed = t" by simp
  have room: "int (length (prevInput ?ed) - ?same) \<le> pch (sel_from ?ed)" using assms(2) by simp
  have same: "?same = common_prefix (prevInput ?ed) (input ?ed)" by simp
  obtain ed' where e: "apply_input ?ed = Some ed'" "undo_ok ed'"
      "flat (texts ed') = take (typed_from ?same ?ed) (flat (texts ed0)) @ norm_nl (drop ?same t) @ drop (typed_to ?same ?ed) (flat (texts ed0))"
      "sel_from ed' = sel_to ed'" "offset (texts ed') (sel_to ed') = typed_from ?same ?ed + length (norm_nl (drop ?same t))"
    using apply_input_ok [OF ok room same] unfolding tx inp by blast
  note d = undo_okD(2) [OF reachable_undo_ok [OF assms(1)]] undo_okD(2) [OF e(2)] ed_okD(7) [OF undo_okD(1) [OF e(2)]]
  show ?thesis
    unfolding Let_def using e(1,3-5) indexFromPos_offset [OF d(2,3)]
    by (intro exI [of _ ed']) (simp add: getValue_texts d(1,2) flat_def [symmetric])
qed

theorem typed_text_witness:
  "\<exists>ed'. apply_input ((demo_editor ''abc'')\<lparr>prevInput := ''x'', input := ''xyz''\<rparr>) = Some ed' \<and> sel_from ed' = sel_to ed'"
proof -
  have "int (length ''x'' - common_prefix ''x'' ''xyz'') \<le> pch (sel_from (demo_editor ''abc''))" by code_simp
  from typed_text [OF demo_reachable this] show ?thesis unfolding Let_def by blast
qed

text \<open>C7: A history taken with \<open>getHistory\<close> and given with \<open>setHistory\<close> to any editor that shows the same text
  undoes and redoes there as it does here, whatever the sequence of calls.\<close>

theorem saved_history:
  assumes "reachable ed" and "reachable ed'" and "texts ed' = texts ed"
  shows "\<exists>hs e1 e2. getHistory ed = Some hs \<and> undo_redo bs ed = Some e1 \<and>
     undo_redo bs (setHistory hs ed') = Some e2 \<and> getValue e2 [nl] = getValue e1 [nl]"
  using saved_history_ok [OF reachable_undo_ok [OF assms(1)] reachable_undo_ok [OF assms(2)] assms(3), of bs]
  by (auto simp: getValue_texts undo_okD(2))

theorem saved_history_witness:
  "\<exists>hs e1 e2. getHistory (the (replaceSelection ''x'' CollapseEnd (demo_editor ''abc''))) = Some hs \<and>
     undo_redo [True, False, True] (the (replaceSelection ''x'' CollapseEnd (demo_editor ''abc''))) = Some e1 \<and>
     undo_redo [True, False, True] (setHistory hs (demo_editor ''xabc'')) = Some e2 \<and>
     getValue e2 [nl] = getValue e1 [nl]"
proof -
  let ?ed = "the (replaceSelection ''x'' CollapseEnd (demo_editor ''abc''))"
  have "run_api (ReplaceSelection ''x'' CollapseEnd) (demo_editor ''abc'') = Some ?ed"
    using replaceSelection_total [OF reachable_undo_ok [OF demo_reachable]] by (metis option.sel run_api.simps(2))
  from reach_step [OF demo_reachable _ this] have r: "reachable ?ed" by simp
  have "texts (demo_editor ''xabc'') = texts ?ed" by code_simp
  from saved_history [OF r demo_reachable this] show ?thesis .
qed

subsection \<open>Dropped files\<close>

lemma files_loaded_append:
  "files_loaded br (rs @ qs) st = do { st1 \<leftarrow> files_loaded br rs st; files_loaded br qs st1 }"
  by (induction br rs st rule: files_loaded.induct) (simp_all split: bind_splits)

abbreviation arrived :: "(nat \<times> jstring) list \<Rightarrow> jstring option list \<Rightarrow> jstring option list" where
  "arrived rs ts \<equiv> fold (\<lambda>(i, r) t. t[i := Some r]) rs ts"

lemma length_arrived [simp]: "length (arrived rs ts) = length ts"
  by (induction rs arbitrary: ts) auto

lemma files_loaded_early:
  "fd_read fd + length rs < length (fd_text fd) \<Longrightarrow>
   files_loaded br rs (fd, s) =
     Some (fd\<lparr>fd_text := arrived rs (fd_text fd), fd_read := fd_read fd + length rs\<rparr>, s)"
  by (induction rs arbitrary: fd) (auto simp: file_loaded_def Let_def)

lemma arrived_nth:
  "j < length ts \<Longrightarrow> arrived (map (\<lambda>i. (i, cs ! i)) ks) ts ! j = (if j \<in> set ks then Some (cs ! j) else ts ! j)"
  by (induction ks arbitrary: ts) (auto simp: nth_list_update)

lemma arrived_all:
  assumes "set ks = {..<length cs}" and "length ts = length cs"
  shows "arrived (map (\<lambda>i. (i, cs ! i)) ks) ts = map Some cs"
  using assms by (intro nth_equalityI) (simp_all add: arrived_nth)

lemma dropped_text_all [simp]: "dropped_text (map Some cs) = concat cs"
  by (simp add: dropped_text_def o_def)

text \<open>C23: Dropping files: in whatever order the files of a drop have been read, the callbacks insert once,
  at the place of the drop, what inserting the contents one behind the other in the order of the files does.\<close>

theorem dropped_files:
  assumes "cs \<noteq> []" and "distinct ks" and "set ks = {..<length cs}"
  shows "files_loaded br (map (\<lambda>i. (i, cs ! i)) ks) (newDrop p (length cs), s) =
    do { q \<leftarrow> clip (s_ed s) p;
         s1 \<leftarrow> insert_files br q (concat cs) s;
         Some (\<lparr>fd_pos = q, fd_text = map Some cs, fd_read = length cs\<rparr>, s1) }"
proof -
  have len: "length ks = length cs" using distinct_card [OF assms(2)] assms(3) by simp
  then have "ks \<noteq> []" using assms(1) by auto
  then obtain js k where ks: "ks = js @ [k]" by (cases ks rule: rev_cases) auto
  let ?f = "\<lambda>i. (i, cs ! i)" and ?t0 = "replicate (length cs) None"
  let ?fd = "\<lparr>fd_pos = p, fd_text = arrived (map ?f js) ?t0, fd_read = length js\<rparr>"
  have early: "files_loaded br (map ?f js) (newDrop p (length cs), s) = Some (?fd, s)"
    using files_loaded_early [of "newDrop p (length cs)" "map ?f js" br s] len ks by (simp add: newDrop_def)
  have "arrived (map ?f ks) ?t0 = map Some cs"
    by (rule arrived_all [OF assms(3)]) simp
  then have all: "(arrived (map ?f js) ?t0)[k := Some (cs ! k)] = map Some cs"
    by (simp add: ks)
  have "Suc (length js) = length cs" using len ks by simp
  then show ?thesis
    using early all by (simp add: ks files_loaded_append file_loaded_def Let_def)
qed

theorem dropped_files_witness:
  "\<forall>(br :: ('s, 'c) browser) (s :: ('g, 's, 'c) session). files_loaded br [(1, ''b''), (0, ''a'')] (newDrop (Pos 0 0) 2, s) =
     do { q \<leftarrow> clip (s_ed s) (Pos 0 0); s1 \<leftarrow> insert_files br q ''ab'' s;
          Some (\<lparr>fd_pos = q, fd_text = [Some ''a'', Some ''b''], fd_read = 2\<rparr>, s1) }"
proof (intro allI)
  fix br :: "('s, 'c) browser" and s :: "('g, 's, 'c) session"
  have "[''a'', ''b''] \<noteq> []" "distinct [1, 0 :: nat]" "set [1, 0] = {..<length [''a'', ''b'']}" by auto
  from dropped_files [OF this, of br "Pos 0 0" s]
  show "files_loaded br [(1, ''b''), (0, ''a'')] (newDrop (Pos 0 0) 2, s) =
     do { q \<leftarrow> clip (s_ed s) (Pos 0 0); s1 \<leftarrow> insert_files br q ''ab'' s;
          Some (\<lparr>fd_pos = q, fd_text = [Some ''a'', Some ''b''], fd_read = 2\<rparr>, s1) }"
    by (simp add: numeral_2_eq_2 del: files_loaded.simps)
qed

end
