(* ===== verification/CM_Session_Laws.thy ===== *)
theory CM_Session_Laws
  imports CM_Change_Log CM_Interface_Laws
begin

section \<open>After every operation the screen shows the document\<close>

text \<open>
  Edits, history, log of changes and display together: \<open>operation\<close> around any call of the instance returns, and what
  held of the session before holds after it, in particular that the rows on the screen are the lines of the
  document that they stand for.
\<close>

subsection \<open>Steps that change heights and flags only\<close>

definition base :: "'s line \<Rightarrow> 's line" where
  "base l = l\<lparr>lheight := 0, stateAfter := None\<rparr>"

definition calm :: "('g, 's) editor \<Rightarrow> ('g, 's) editor \<Rightarrow> bool" where
  "calm e e' \<longleftrightarrow> keeps e e' \<and> nestedOperation e' = nestedOperation e \<and>
     (struct_ok (next_line e) e \<longrightarrow> map base (lines e') = map base (lines e))"

lemma calm_refl [simp]: "calm e e"
  by (simp add: calm_def)

lemma keeps_struct: "keeps e e' \<Longrightarrow> struct_ok (next_line e) e \<Longrightarrow> struct_ok (next_line e') e'"
  unfolding keeps_def by blast

lemma calm_trans:
  assumes "calm a b" and "calm b c"
  shows "calm a c"
proof -
  have k: "keeps a b" "keeps b c" using assms unfolding calm_def by blast+
  have "map base (lines c) = map base (lines a)" if "struct_ok (next_line a) a"
    using that keeps_struct [OF k(1) that] assms unfolding calm_def by simp
  then show ?thesis using keeps_trans [OF k] assms unfolding calm_def by simp
qed

lemma calmI:
  "frame e e' \<Longrightarrow> doc e' = doc e \<Longrightarrow> gone e' = gone e \<Longrightarrow> next_line e' = next_line e \<Longrightarrow>
     nestedOperation e' = nestedOperation e \<Longrightarrow> (maxLine e \<in> known e \<Longrightarrow> maxLine e' \<in> known e) \<Longrightarrow> calm e e'"
  by (simp add: calm_def keepsI)

lemma calm_struct: "calm e e' \<Longrightarrow> struct_ok (next_line e) e \<Longrightarrow> struct_ok (next_line e') e'"
  using keeps_struct unfolding calm_def by blast

lemma calm_screen: "calm e e' \<Longrightarrow> screen e' = screen e"
  unfolding calm_def keeps_def frame_def by (elim conjE)

lemma calm_undo_ok:
  assumes "calm e e'" and ok: "undo_ok e"
  shows "undo_ok e' \<and> abs_ed e' = abs_ed e \<and> nestedOperation e' = nestedOperation e \<and> map base (lines e') = map base (lines e)"
proof -
  note d = ed_okD [OF undo_okD(1) [OF ok]]
  have f: "frame e e'" and k: "struct_ok (next_line e') e'" "texts e' = texts e" "known e' = known e" "all_visible e'"
      "length (lines e') = length (lines e)" "maxLine e' \<in> known e"
    using assms(1) d(1,4,5) unfolding calm_def keeps_def by metis+
  have "lines e' \<noteq> []" using k(5) d(3) by (auto simp: texts_def)
  then have "ed_ok e'" using f k d by (simp add: ed_ok_def frame_def)
  moreover have "abs_ed e' = abs_ed e" using f k(2) by (simp add: abs_ed_def frame_def)
  ultimately have "undo_ok e'" "abs_ed e' = abs_ed e" using ok f by (simp_all add: undo_ok_def frame_def)
  then show ?thesis using assms(1) d(1) by (simp add: calm_def)
qed

lemma calm_set_height:
  assumes "n < length (lines e)" "0 \<le> h"
  shows "calm e (set_height n h e)"
proof -
  have "map base (lines (set_height n h e)) = map base (lines e)" if "struct_ok (next_line e) e"
  proof -
    have "doc_ok (doc e)" using that by (simp add: struct_ok_def)
    then have "lines (set_height n h e) = (lines e)[n := (lines e ! n)\<lparr>lheight := h\<rparr>]"
      by (simp add: set_height_def updateLineHeight_collapse [OF _ assms(1)])
    moreover have "base ((lines e ! n)\<lparr>lheight := h\<rparr>) = map base (lines e) ! n" using assms(1) by (simp add: base_def)
    ultimately show ?thesis by (simp only: map_update list_update_id)
  qed
  then show ?thesis using keeps_set_height [OF assms] by (simp add: calm_def set_height_def)
qed

lemma js_round_nonneg: "0 \<le> a \<Longrightarrow> 0 < b \<Longrightarrow> 0 \<le> js_round a b"
  by (simp add: js_round_def pos_imp_zdiv_nonneg_iff)

lemma calm_check_height:
  assumes "struct_ok (next_line (fst st)) (fst st)" and "\<forall>r. 0 \<le> nh r" and "0 < textHeight (screen (fst st))"
  shows "calm (fst st) (fst (check_height nh kr st))"
proof -
  obtain k r e b where st: "kr = (k, r)" "st = (e, b)" by (cases kr; cases st)
  have d: "doc_ok (doc e)" using assms(1) by (simp add: struct_ok_def st)
  have "calm e (set_height k h e)" if "getLineAt (doc e) k = Some l" "0 \<le> h" for l h
    using calm_set_height [of k e h] that getLineAt_collapse [OF d, of k] by (simp split: if_splits)
  then show ?thesis
    using assms(2,3) js_round_nonneg by (auto simp: check_height_def st Let_def split: option.split)
qed

lemma calm_check_heights:
  assumes "struct_ok (next_line (fst st)) (fst st)" and "\<forall>r. 0 \<le> nh r" and "0 < textHeight (screen (fst st))"
  shows "calm (fst st) (fst (fold (check_height nh) krs st))"
  using assms
proof (induction krs arbitrary: st)
  case (Cons kr krs)
  note c = calm_check_height [OF Cons.prems, of kr]
  have "calm (fst (check_height nh kr st)) (fst (fold (check_height nh) krs (check_height nh kr st)))"
    using Cons.IH [of "check_height nh kr st"] calm_struct [OF c] calm_screen [OF c] Cons.prems by simp
  from calm_trans [OF c this] show ?case by simp
qed simp

subsection \<open>The display\<close>

definition dcalm :: "('g, 's, 'c) display \<Rightarrow> ('g, 's, 'c) display \<Rightarrow> bool" where
  "dcalm d d' \<longleftrightarrow> calm (d_ed d) (d_ed d') \<and> d_view d' = d_view d"

lemma dcalm_trans: "dcalm a b \<Longrightarrow> dcalm b c \<Longrightarrow> dcalm a c"
  unfolding dcalm_def by (auto intro: calm_trans)

lemma dcalm_checkHeights:
  assumes "struct_ok (next_line (d_ed d)) (d_ed d)" and "\<forall>r. 0 \<le> nh r" and "0 < textHeight (screen (d_ed d))"
  shows "dcalm d (fst (checkHeights nh d))"
  using calm_check_heights [of "(d_ed d, False)" nh "zip [showingFrom (d_ed d) ..< showingTo (d_ed d)] (lineDiv d)"] assms
  by (auto simp: dcalm_def checkHeights_def Let_def split: prod.split)

lemma dcalm_updateGutter: "dcalm d (fst (updateGutter gw d))"
  by (auto simp: dcalm_def updateGutter_def Let_def frame_def intro!: calmI)

lemma dcalm_record_window: "dcalm d (fst (record_window w d))"
  by (auto simp: dcalm_def record_window_def Let_def startWorker_def frame_def intro!: calmI split: prod.split)

lemma dcalm_remeasure:
  assumes "struct_ok (next_line (d_ed d)) (d_ed d)" and nh: "\<forall>r. 0 \<le> nh r" and "0 < textHeight (screen (d_ed d))"
  shows "dcalm d (remeasure nh gw different d)"
proof -
  have keep: "struct_ok (next_line (d_ed x)) (d_ed x)" "0 < textHeight (screen (d_ed x))" if "dcalm d x" for x
    using that assms(1,3) calm_struct calm_screen unfolding dcalm_def by metis+
  obtain d2 where d2: "d2 = (if lineWrapping (options (d_ed d)) then fst (checkHeights nh d) else d)" by blast
  have c2: "dcalm d d2" unfolding d2 using dcalm_checkHeights [OF assms] by (simp add: dcalm_def)
  obtain d3 r where d3: "updateGutter gw d2 = (d3, r)" by (cases "updateGutter gw d2")
  have c3: "dcalm d d3" using dcalm_trans [OF c2] dcalm_updateGutter [of d2 gw] by (simp add: d3)
  obtain d4 c where d4: "checkHeights nh d3 = (d4, c)" by (cases "checkHeights nh d3")
  have c4: "dcalm d d4" using dcalm_trans [OF c3] dcalm_checkHeights [OF keep(1) [OF c3] nh keep(2) [OF c3]] by (simp add: d4)
  have c5: "dcalm d (fst (updateGutter gw d4))" by (rule dcalm_trans [OF c4 dcalm_updateGutter])
  have "remeasure nh gw different d =
     (if different \<or> gutterDirty (d_ed d2) then
        if r \<and> lineWrapping (options (d_ed d)) then if c then fst (updateGutter gw d4) else d4 else d3
      else d2)"
    unfolding remeasure_def Let_def d2 [symmetric] d3 prod.case d4 ..
  then show ?thesis using c2 c3 c4 c5 by simp
qed

definition scrolled :: "int option \<Rightarrow> view \<Rightarrow> view \<Rightarrow> bool" where
  "scrolled st vw vw' \<longleftrightarrow> vw' = vw \<or> (\<exists>t. st = Some t \<and> vw' = vw\<lparr>scrollTop := t\<rparr>)"

lemma updateVerticalScroll_scrolled:
  "d_ed (updateVerticalScroll st d) = d_ed d" "scrolled st (d_view d) (d_view (updateVerticalScroll st d))"
  by (auto simp: updateVerticalScroll_def scrolled_def Let_def split: option.split)

lemma after_patch_calm:
  assumes "struct_ok (next_line (d_ed d)) (d_ed d)" and nh: "\<forall>r. 0 \<le> nh r" and "0 < textHeight (screen (d_ed d))"
  shows "calm (d_ed d) (d_ed (after_patch ms nh gw w suppress st d)) \<and>
    scrolled st (d_view d) (d_view (after_patch ms nh gw w suppress st d))"
proof -
  obtain d1 different where d1: "record_window w d = (d1, different)" by (cases "record_window w d")
  have c1: "dcalm d d1" using dcalm_record_window [of d w] by (simp add: d1)
  then have "struct_ok (next_line (d_ed d1)) (d_ed d1)" "0 < textHeight (screen (d_ed d1))"
    using assms(1,3) calm_struct calm_screen unfolding dcalm_def by metis+
  from dcalm_trans [OF c1 dcalm_remeasure [OF this(1) nh this(2), of gw different]]
  have "calm (d_ed d) (d_ed (remeasure nh gw different d1))" "d_view (remeasure nh gw different d1) = d_view d"
    by (simp_all add: dcalm_def)
  then show ?thesis
    using updateVerticalScroll_scrolled [where d = "remeasure nh gw different d1" and st = st]
    by (simp add: after_patch_def d1 Let_def)
qed

lemma updateDisplay_calm:
  assumes run: "updateDisplay content ms nh gw chs suppress st d = Inr (d', b)"
    and s: "struct_ok (next_line (d_ed d)) (d_ed d)" and nh: "\<forall>r. 0 \<le> nh r" and th: "0 < textHeight (screen (d_ed d))"
    and cw: "0 < clientWidth (screen (d_ed d))"
  shows "calm (d_ed d) (d_ed d') \<and> scrolled st (d_view d) (d_view d')"
proof -
  obtain w rows where "d' = updateVerticalScroll st d \<or> d' = after_patch ms nh gw w suppress st (d\<lparr>lineDiv := rows\<rparr>)"
    using run cw unfolding updateDisplay_def Let_def by (auto split: if_splits option.splits prod.splits)
  then show ?thesis
    using updateVerticalScroll_scrolled [where d = d and st = st] s nh th
      after_patch_calm [where d = "d\<lparr>lineDiv := rows\<rparr>" and nh = nh and w = w and ms = ms and gw = gw and suppress = suppress and st = st]
    by auto
qed

text \<open>Rows show lines whatever their heights and the parser states kept on them.\<close>

definition browser_ok :: "('s, 'c) browser \<Rightarrow> bool" where
  "browser_ok br \<longleftrightarrow> (\<forall>r. 0 \<le> br_height br r) \<and> (\<forall>l h st. br_content br (l\<lparr>lheight := h, stateAfter := st\<rparr>) = br_content br l)"

definition rows_ok :: "('s line \<Rightarrow> 'c) \<Rightarrow> 's line list \<Rightarrow> ('g, 's, 'c) display \<Rightarrow> bool" where
  "rows_ok content ls d \<longleftrightarrow> showingFrom (d_ed d) \<le> showingTo (d_ed d) \<and> showingTo (d_ed d) \<le> length ls \<and>
     lineDiv d = map (line_row content) (take (showingTo (d_ed d) - showingFrom (d_ed d)) (drop (showingFrom (d_ed d)) ls))"

lemma line_row_base: "browser_ok br \<Longrightarrow> line_row (br_content br) (base l) = line_row (br_content br) l"
  by (simp add: browser_ok_def line_row_def base_def)

lemma rows_ok_base:
  assumes "browser_ok br" and eq: "map base ls' = map base ls" and "rows_ok (br_content br) ls d"
  shows "rows_ok (br_content br) ls' d"
proof -
  have "map (line_row (br_content br)) xs = map (line_row (br_content br)) (map base xs)" for xs
    by (simp add: o_def line_row_base [OF assms(1)])
  then have "map (line_row (br_content br)) ls' = map (line_row (br_content br)) ls" using eq by metis
  moreover have "length ls' = length ls" using eq by (metis length_map)
  ultimately show ?thesis using assms(3) unfolding rows_ok_def by (simp flip: take_map drop_map)
qed

lemma rows_ok_match:
  assumes br: "browser_ok br" and r: "rows_ok (br_content br) ls d" and cs: "logged cs (map base ls) (map base (lines (d_ed d)))"
  shows "rows_match (br_content br) cs d"
  unfolding rows_match_def
proof (intro allI impI)
  let ?f = "showingFrom (d_ed d)" and ?t = "showingTo (d_ed d)" and ?row = "line_row (br_content br)"
  fix j i assume a: "0 \<le> j \<and> j < int (length (lines (d_ed d))) \<and> track cs j = Some i \<and> int ?f \<le> i \<and> i < int ?t"
  then have l: "0 \<le> i" "i < int (length ls)" "map base (lines (d_ed d)) ! nat j = map base ls ! nat i"
    using cs unfolding logged_def by auto
  have k: "nat (i - int ?f) < ?t - ?f" "?f + nat (i - int ?f) = nat i" "?t \<le> length ls"
    using a r unfolding rows_ok_def by auto
  have "lineDiv d ! nat (i - int ?f) = ?row (ls ! nat i)" using r k unfolding rows_ok_def by simp
  also have "\<dots> = ?row (base (ls ! nat i))" by (rule line_row_base [OF br, symmetric])
  also have "base (ls ! nat i) = base (lines (d_ed d) ! nat j)"
  proof -
    have "nat j < length (lines (d_ed d))" "nat i < length ls" using a l(1,2) by auto
    then show ?thesis using l(3) by simp
  qed
  also have "?row \<dots> = ?row (lines (d_ed d) ! nat j)" by (rule line_row_base [OF br])
  finally show "lineDiv d ! nat (i - int ?f) = ?row (lines (d_ed d) ! nat j)" .
qed

text \<open>The sizes of the window.\<close>

definition geometry :: "screen \<Rightarrow> view \<Rightarrow> bool" where
  "geometry sc vw \<longleftrightarrow> 0 < textHeight sc \<and> 0 < charWidth sc \<and> 0 < clientWidth sc \<and> paddingTop sc \<le> int (clientHeight sc) \<and>
     0 \<le> scrollTop vw \<and> int (clientHeight sc) \<le> scrollerHeight vw"

lemma scroll_pos_nonneg:
  assumes "geometry (screen ed) vw" and "snd (calculateScrollPos ed vw x1 y1 x2 y2) = Some t"
  shows "0 \<le> t"
proof -
  have "int (clientHeight (screen ed)) \<le> b" if "needsScrollbar ed vw = Some b" for b
    using that assms(1) by (auto simp: needsScrollbar_def Let_def geometry_def split: if_splits)
  then show ?thesis
    using assms unfolding calculateScrollPos_def Let_def geometry_def by (auto split: if_splits option.splits)
qed

lemma geometry_scrolled:
  "geometry sc vw \<Longrightarrow> scrolled st vw vw' \<Longrightarrow> (\<And>t. st = Some t \<Longrightarrow> 0 \<le> t) \<Longrightarrow> geometry sc vw'"
  by (auto simp: geometry_def scrolled_def)

lemma geometry_scrollIntoView:
  assumes "geometry (screen ed) vw"
  shows "geometry (screen ed) (scrollIntoView ed x1 y1 x2 y2 vw)"
proof -
  obtain l t where lt: "calculateScrollPos ed vw x1 y1 x2 y2 = (l, t)" by (cases "calculateScrollPos ed vw x1 y1 x2 y2")
  then show ?thesis
    using assms scroll_pos_nonneg [OF assms, of x1 y1 x2 y2]
    by (auto simp: scrollIntoView_def geometry_def split: option.split)
qed

subsection \<open>The parts of \<open>endOperation\<close>\<close>

lemma calm_width:
  assumes ok: "undo_ok ed"
  shows "\<exists>e. computeMaxLength ed = Some e \<and> calm ed e \<and> doc e = doc ed \<and> quiet ed e \<and> maxLine e \<in> known e \<and>
    selectionChanged e = selectionChanged ed"
proof -
  note d = ed_okD [OF undo_okD(1) [OF ok]]
  have ne: "lines ed \<noteq> []" using d(3) by (simp add: texts_def)
  then have l0: "getLine ed 0 = Some (lines ed ! 0)" by (simp add: getLine_lines [OF d(2)])
  obtain i len ch rc where g: "grow_max (iter_list ed 1 (doc_size ed)) (lid (lines ed ! 0), length (ltext (lines ed ! 0)), False, False) = (i, len, ch, rc)"
    by (cases "grow_max (iter_list ed 1 (doc_size ed)) (lid (lines ed ! 0), length (ltext (lines ed ! 0)), False, False)") auto
  have "lid (lines ed ! 0) \<in> known ed" using ne by (simp add: known_def)
  moreover have "lid ` set (iter_list ed 1 (doc_size ed)) \<subseteq> known ed"
    by (auto simp: iter_list_lines [OF d(2)] known_def dest!: in_set_takeD in_set_dropD)
  ultimately have "i \<in> known ed"
    using grow_max_known [of "lid (lines ed ! 0)" "known ed"] g by (metis fst_conv)
  then show ?thesis
    by (simp add: computeMaxLength_def l0 g quiet_def world_def known_def) (auto simp: frame_def known_def intro!: calmI)
qed

lemma settle_width_ok:
  assumes ok: "undo_ok (s_ed s)"
  shows "\<exists>e w. settle_width br s = Some ((with_ed e s)\<lparr>minWidth := w\<rparr>) \<and> calm (s_ed s) e \<and> quiet (s_ed s) e"
proof -
  obtain e where e: "(if updateMaxLine (s_ed s) then computeMaxLength (s_ed s) else Some (s_ed s)) = Some e"
      "calm (s_ed s) e" "quiet (s_ed s) e" "maxLine e \<in> known e" "struct_ok (next_line e) e"
    using calm_width [OF ok] ed_okD(1,5) [OF undo_okD(1) [OF ok]] calm_struct
    by (cases "updateMaxLine (s_ed s)") (auto simp: quiet_def world_def)
  obtain l where l: "line_obj e (maxLine e) = Some l" using line_obj_known [OF e(5,4)] by blast
  have "calm e (e\<lparr>maxLineChanged := False\<rparr>)" by (rule calmI) (simp_all add: frame_def)
  from calm_trans [OF e(2) this] have c: "calm (s_ed s) (e\<lparr>maxLineChanged := False\<rparr>)" .
  have q: "quiet (s_ed s) (e\<lparr>maxLineChanged := False\<rparr>)" using e(3) by (simp add: quiet_def world_def)
  show ?thesis
  proof (cases "maxLineChanged e \<and> \<not> lineWrapping (options e)")
    case True
    then show ?thesis using c q e(1) l
      by (intro exI [of _ "e\<lparr>maxLineChanged := False\<rparr>"]
            exI [of _ "snd (measureLine (br_measure br) l (int (length (ltext l)))) + br_cursorWidth br"])
         (simp add: settle_width_def Let_def)
  next
    case False
    then show ?thesis using e(1-3)
      by (intro exI [of _ e] exI [of _ "minWidth s"]) (auto simp: settle_width_def Let_def with_ed_def)
  qed
qed

lemma cursor_coords_total:
  assumes "undo_ok ed"
  shows "\<exists>x y b. calculateCursorCoords ms ed vw = Some (x, y, b)"
proof -
  note d = ed_okD [OF undo_okD(1) [OF assms]]
  have "\<exists>x y b. localCoords ms ed p w = Some (x, y, b)" if "pos_ok (texts ed) p" for p w
  proof -
    obtain l where "getLine ed (pline p) = Some l" using \<open>pos_ok (texts ed) p\<close> by (simp add: getLine_lines [OF d(2)] pos_ok_def)
    then show ?thesis by (cases "measureLine ms l (pch p)") (simp add: localCoords_def Let_def)
  qed
  then obtain x y b where "localCoords ms ed (if sel_inverted ed then sel_from ed else sel_to ed) False = Some (x, y, b)"
    using d(6,7) by (metis (full_types))
  then show ?thesis by (simp add: calculateCursorCoords_def)
qed

lemma resetInput_calm:
  assumes ok: "undo_ok ed"
  shows "\<exists>e. resetInput user ed = Some e \<and> calm ed e \<and> doc e = doc ed \<and> showingFrom e = showingFrom ed \<and> showingTo e = showingTo ed"
proof -
  note d = ed_okD [OF undo_okD(1) [OF ok]]
  have "\<exists>t. getSelection ed sep = Some t" for sep
    using d(6,7) unfolding getSelection_def getRange_def by (auto simp: line_text_texts [OF d(2)] pos_ok_def)
  then obtain t where t: "getSelection ed [CHR 0x0A] = Some t" by blast
  have "calm ed (ed\<lparr>prevInput := a, input := b\<rparr>)" for a b by (rule calmI) (simp_all add: frame_def)
  then show ?thesis by (auto simp: resetInput_def t)
qed

lemma rows_ok_shown: "shown d' = shown d \<Longrightarrow> rows_ok content ls d' = rows_ok content ls d"
  by (simp add: rows_ok_def)

text \<open>The drawing at the end of an operation, from the log of changes or at a new height.\<close>

lemma settle_patch_ok:
  assumes ok: "undo_ok (d_ed d)" and br: "browser_ok br" and geo: "geometry (screen (d_ed d)) (d_view d)"
    and rows: "rows_ok (br_content br) ls0 d" and log: "logged (changes (d_ed d)) (map base ls0) (map base (lines (d_ed d)))"
    and ch: "\<forall>c \<in> set (changes (d_ed d)). change_ok c" and top: "\<And>t. newTop = Some t \<Longrightarrow> 0 \<le> t"
  shows "\<exists>d1 u. (if changes (d_ed d) \<noteq> [] \<or> newTop \<noteq> None
        then (case updateDisplay (br_content br) (br_measure br) (br_height br) (br_gutter br)
                 (Some (changes (d_ed d))) True newTop d of Inl e \<Rightarrow> None | Inr r \<Rightarrow> Some r)
        else Some (d, False)) = Some (d1, u) \<and>
    calm (d_ed d) (d_ed d1) \<and> geometry (screen (d_ed d)) (d_view d1) \<and> rows_ok (br_content br) (lines (d_ed d)) d1"
proof -
  let ?ed = "d_ed d" and ?c = "br_content br"
  have s: "struct_ok (next_line ?ed) ?ed" by (rule ed_okD(1) [OF undo_okD(1) [OF ok]])
  have nh: "\<forall>r. 0 \<le> br_height br r" using br by (simp add: browser_ok_def)
  have lb: "rows_ok ?c (lines ?ed) d" if "changes ?ed = []"
    using rows_ok_base [OF br _ rows, of "lines ?ed"] log that by (simp add: logged_def)
  show ?thesis
  proof (cases "changes ?ed \<noteq> [] \<or> newTop \<noteq> None")
    case True
    have geo2: "0 < textHeight (screen ?ed)" "0 < clientWidth (screen ?ed)"
      "paddingTop (screen ?ed) \<le> (case newTop of Some t \<Rightarrow> t | None \<Rightarrow> scrollTop (d_view d)) + int (clientHeight (screen ?ed))"
      using geo top by (auto simp: geometry_def split: option.split)
    have r: "showingFrom ?ed \<le> showingTo ?ed" "length (lineDiv d) = showingTo ?ed - showingFrom ?ed"
      using rows by (auto simp: rows_ok_def)
    have m: "rows_match ?c (changes ?ed) d" by (rule rows_ok_match [OF br rows log])
    have e: "Some (changes ?ed) = Some [] \<longrightarrow> showingTo ?ed \<le> length (lines ?ed)" using lb by (auto simp: rows_ok_def)
    obtain d1 u where d1: "updateDisplay ?c (br_measure br) (br_height br) (br_gutter br) (Some (changes ?ed)) True newTop d = Inr (d1, u)"
        "rows_ok ?c (lines ?ed) d1"
      using updateDisplay_rows [OF s geo2 r, where chs = "Some (changes ?ed)" and content = ?c and ms = "br_measure br"
          and nh = "br_height br" and gw = "br_gutter br" and suppress = True] m ch e
      by (auto simp: rows_ok_def)
    from updateDisplay_calm [OF d1(1) s nh geo2(1,2)]
    have "calm ?ed (d_ed d1)" "geometry (screen ?ed) (d_view d1)" using geometry_scrolled [OF geo] top by blast+
    then show ?thesis using True d1 by (intro exI [of _ d1] exI [of _ u]) simp
  next
    case False
    then show ?thesis using geo lb by (intro exI [of _ d] exI [of _ False]) simp
  qed
qed

lemma settle_display_ok:
  assumes ok: "undo_ok (d_ed d)" and br: "browser_ok br" and geo: "geometry (screen (d_ed d)) (d_view d)"
    and rows: "rows_ok (br_content br) ls0 d" and log: "logged (changes (d_ed d)) (map base ls0) (map base (lines (d_ed d)))"
    and ch: "\<forall>c \<in> set (changes (d_ed d)). change_ok c" and top: "\<And>t. newTop = Some t \<Longrightarrow> 0 \<le> t"
  shows "\<exists>d' u. settle_display br newTop d = Some (d', u) \<and> calm (d_ed d) (d_ed d') \<and>
    geometry (screen (d_ed d)) (d_view d') \<and> rows_ok (br_content br) (lines (d_ed d)) d'"
proof -
  let ?ed = "d_ed d" and ?c = "br_content br"
  obtain d1 u where d1: "(if changes ?ed \<noteq> [] \<or> newTop \<noteq> None
        then (case updateDisplay ?c (br_measure br) (br_height br) (br_gutter br)
                 (Some (changes ?ed)) True newTop d of Inl e \<Rightarrow> None | Inr r \<Rightarrow> Some r)
        else Some (d, False)) = Some (d1, u)" "calm ?ed (d_ed d1)" "geometry (screen ?ed) (d_view d1)" "rows_ok ?c (lines ?ed) d1"
    using settle_patch_ok [OF assms] by blast
  obtain d2 where d2: "d2 = (if selectionChanged (d_ed d1)
      then d1\<lparr>d_selection := updateSelection (br_measure br) (d_ed d1) (d_view d1)\<rparr> else d1)" by blast
  obtain d3 where d3: "d3 = (if gutterDirty (d_ed d2) then fst (updateGutter (br_gutter br) d2) else d2)" by blast
  have two: "d_ed d2 = d_ed d1" "d_view d2 = d_view d1" "shown d2 = shown d1" by (simp_all add: d2)
  have "dcalm d2 d3 \<and> shown d3 = shown d2"
    using dcalm_updateGutter [of d2 "br_gutter br"] updateGutter_shown [of "br_gutter br" d2] by (auto simp: d3 dcalm_def)
  then have three: "calm ?ed (d_ed d3)" "d_view d3 = d_view d1" "shown d3 = shown d1"
    using calm_trans [OF d1(2)] two by (simp_all add: dcalm_def)
  have "settle_display br newTop d = Some (if u then d1 else d3, u)"
    unfolding settle_display_def d1(1) by (simp add: Let_def d2 [symmetric] d3 [symmetric])
  then show ?thesis using d1(2-4) three rows_ok_shown [OF three(3)] by (cases u) auto
qed

subsection \<open>Operations\<close>

lemma flags_calm:
  "calm e (e\<lparr>timers := ts\<rparr>)" "doc (e\<lparr>timers := ts\<rparr>) = doc e"
  by (rule calmI) (simp_all add: frame_def)

lemma new_scroll_ok:
  assumes ok: "undo_ok e" and geo: "geometry (screen e) vw"
  shows "\<exists>nsp. (if selectionChanged e
       then map_option (\<lambda>(x, y, yBot). Some (calculateScrollPos e vw x y x yBot)) (calculateCursorCoords ms e vw)
       else Some None) = Some nsp \<and> (\<forall>t. Option.bind nsp snd = Some t \<longrightarrow> 0 \<le> t)"
proof -
  obtain x y b where xy: "calculateCursorCoords ms e vw = Some (x, y, b)" using cursor_coords_total [OF ok] by blast
  show ?thesis using scroll_pos_nonneg [OF geo, of x y x b] by (cases "selectionChanged e") (simp_all add: xy)
qed

lemma scroll_cursor_ok:
  assumes ok: "undo_ok (d_ed d)" and geo: "geometry (screen (d_ed d)) (d_view d)"
  shows "\<exists>vw. (if still then Some d
       else map_option (\<lambda>(vw, doScroll). d\<lparr>d_view := vw\<rparr>)
              (scrollCursorIntoView (br_measure br) (d_ed d) (br_boxTop br) (d_view d))) = Some (d\<lparr>d_view := vw\<rparr>) \<and>
     geometry (screen (d_ed d)) vw"
proof (cases still)
  case True
  then show ?thesis using geo by (intro exI [of _ "d_view d"]) simp
next
  case False
  obtain x y b where "calculateCursorCoords (br_measure br) (d_ed d) (d_view d) = Some (x, y, b)"
    using cursor_coords_total [OF ok] by blast
  then show ?thesis using False geometry_scrollIntoView [of "d_ed d" "d_view d" x y x b] geo
    by (intro exI [of _ "scrollIntoView (d_ed d) x y x b (d_view d)"]) (simp add: scrollCursorIntoView_def Let_def)
qed

lemma input_after_ok:
  assumes ok: "undo_ok ed"
  shows "\<exists>e. (if focused ed \<and> (updateInput ed = Some True \<or> (updateInput ed \<noteq> Some False \<and> selectionChanged ed))
       then resetInput (userSelChange ed) ed else Some ed) = Some e \<and> calm ed e \<and> showingFrom e = showingFrom ed \<and> showingTo e = showingTo ed"
proof -
  obtain r where r: "resetInput (userSelChange ed) ed = Some r" "calm ed r" "showingFrom r = showingFrom ed" "showingTo r = showingTo ed"
    using resetInput_calm [OF ok] by blast
  show ?thesis
  proof (cases "focused ed \<and> (updateInput ed = Some True \<or> (updateInput ed \<noteq> Some False \<and> selectionChanged ed))")
    case True
    show ?thesis unfolding if_P [OF True] using r by blast
  next
    case False
    show ?thesis unfolding if_not_P [OF False] using calm_refl by blast
  qed
qed

lemma endOperation_ok:
  assumes ok: "undo_ok (s_ed s)" and br: "browser_ok br" and geo: "geometry (screen (s_ed s)) (d_view (s_disp s))"
    and rows: "rows_ok (br_content br) ls0 (s_disp s)" and log: "logged (changes (s_ed s)) (map base ls0) (map base (lines (s_ed s)))"
    and ch: "\<forall>c \<in> set (changes (s_ed s)). change_ok c"
  shows "\<exists>s'. endOperation br s = Some s' \<and> calm (s_ed s) (s_ed s') \<and> geometry (screen (s_ed s)) (d_view (s_disp s')) \<and>
    rows_ok (br_content br) (lines (s_ed s)) (s_disp s')"
proof -
  let ?c = "br_content br"
  obtain e w where w: "settle_width br s = Some ((with_ed e s)\<lparr>minWidth := w\<rparr>)" "calm (s_ed s) e" "quiet (s_ed s) e"
    using settle_width_ok [OF ok] by blast
  let ?d = "(s_disp s)\<lparr>d_ed := e\<rparr>"
  have oke: "undo_ok e" using calm_undo_ok [OF w(2) ok] by blast
  have sc: "screen e = screen (s_ed s)" by (rule calm_screen [OF w(2)])
  have le: "lines e = lines (s_ed s)" "changes e = changes (s_ed s)" using w(3) by (simp_all add: quiet_def world_def)
  have geo1: "geometry (screen e) (d_view ?d)" using geo sc by simp
  have rows1: "rows_ok ?c ls0 ?d" using rows w(3) by (simp add: rows_ok_def quiet_def world_def)
  obtain nsp where nsp: "(if selectionChanged e
       then map_option (\<lambda>(x, y, yBot). Some (calculateScrollPos e (d_view ?d) x y x yBot))
              (calculateCursorCoords (br_measure br) e (d_view ?d))
       else Some None) = Some nsp" "\<And>t. Option.bind nsp snd = Some t \<Longrightarrow> 0 \<le> t"
    using new_scroll_ok [OF oke geo1] by blast
  obtain d u where d: "settle_display br (Option.bind nsp snd) ?d = Some (d, u)" "calm e (d_ed d)" "geometry (screen e) (d_view d)"
      "rows_ok ?c (lines e) d"
    using settle_display_ok [of ?d br ls0 "Option.bind nsp snd"] oke br geo1 rows1 log ch nsp(2) le by auto
  have okd: "undo_ok (d_ed d)" and scd: "screen (d_ed d) = screen e"
    using calm_undo_ok [OF d(2) oke] calm_screen [OF d(2)] by blast+
  obtain vw where vw: "(if nsp = None then Some d
             else map_option (\<lambda>(vw, doScroll). d\<lparr>d_view := vw\<rparr>)
                    (scrollCursorIntoView (br_measure br) (d_ed d) (br_boxTop br) (d_view d))) = Some (d\<lparr>d_view := vw\<rparr>)"
      "geometry (screen e) vw"
    using scroll_cursor_ok [where still = "nsp = None" and br = br, OF okd] d(3) unfolding scd by blast
  obtain e2 where e2: "(if focused (d_ed d) \<and> (updateInput (d_ed d) = Some True \<or> (updateInput (d_ed d) \<noteq> Some False \<and> selectionChanged (d_ed d)))
              then resetInput (userSelChange (d_ed d)) (d_ed d) else Some (d_ed d)) = Some e2"
      "calm (d_ed d) e2" "showingFrom e2 = showingFrom (d_ed d)" "showingTo e2 = showingTo (d_ed d)"
    using input_after_ok [OF okd] by blast
  obtain e3 where e3: "e3 = (if selectionChanged e2 \<and> opt_matchBrackets (options e2)
                then e2\<lparr>timers := timers e2 @ [RunMatchBrackets]\<rparr> else e2)" by blast
  have c3: "calm e e3" using calm_trans [OF calm_trans [OF d(2) e2(2)] flags_calm(1)] calm_trans [OF d(2) e2(2)]
    by (auto simp: e3)
  have f: "d_ed ?d = e" "s_disp ((with_ed e s)\<lparr>minWidth := w\<rparr>) = ?d" "d_ed (d\<lparr>d_view := vw\<rparr>) = d_ed d"
    by (simp_all add: with_ed_def)
  have "\<exists>ns. endOperation br s = Some (notify_page ns ((with_ed e s)\<lparr>minWidth := w, s_disp := d\<lparr>d_view := vw, d_ed := e3\<rparr>\<rparr>))"
    by (simp only: endOperation_def w(1) Let_def Option.bind.simps f nsp(1) d(1) vw(1) e2(1) prod.case e3 [symmetric])
      (rule exI, rule refl)
  moreover have "rows_ok ?c (lines (s_ed s)) (d\<lparr>d_view := vw, d_ed := e3\<rparr>)"
    using d(4) e2(3,4) unfolding le(1) [symmetric] rows_ok_def by (simp add: e3)
  moreover have "calm (s_ed s) e3" by (rule calm_trans [OF w(2) c3])
  ultimately show ?thesis using vw(2) sc by (auto simp: notify_page_def with_ed_def)
qed

text \<open>The state of a session between two operations.\<close>

definition session_ok :: "('s, 'c) browser \<Rightarrow> ('g, 's, 'c) session \<Rightarrow> bool" where
  "session_ok br s \<longleftrightarrow> undo_ok (s_ed s) \<and> nestedOperation (s_ed s) = 0 \<and> geometry (screen (s_ed s)) (d_view (s_disp s)) \<and>
     rows_ok (br_content br) (lines (s_ed s)) (s_disp s)"

text \<open>The editor as an operation finds it.\<close>

definition opened :: "('g, 's) editor \<Rightarrow> ('g, 's) editor" where
  "opened ed = (startOperation ed)\<lparr>nestedOperation := 1\<rparr>"

lemma opened_ok:
  "undo_ok (opened ed) = undo_ok ed" "abs_ed (opened ed) = abs_ed ed" "lines (opened ed) = lines ed"
  "changes (opened ed) = []" "nestedOperation (opened ed) = 1" "screen (opened ed) = screen ed"
  "showingFrom (opened ed) = showingFrom ed" "showingTo (opened ed) = showingTo ed"
  "mode (opened ed) = mode ed" "options (opened ed) = options ed" "focused (opened ed) = focused ed"
  by (simp_all add: opened_def startOperation_def undo_ok_def ed_ok_def struct_ok_def known_def texts_def all_visible_def abs_ed_def)

lemma undo_ok_nested: "undo_ok (ed\<lparr>nestedOperation := n\<rparr>) = undo_ok ed" "abs_ed (ed\<lparr>nestedOperation := n\<rparr>) = abs_ed ed"
  by (simp_all add: undo_ok_def ed_ok_def struct_ok_def known_def texts_def all_visible_def abs_ed_def)

text \<open>An operation around any steps that return with a true log of what they did to the lines on the screen.\<close>

lemma operation_closes:
  assumes br: "browser_ok br" and n: "nestedOperation (s_ed s) = 0" and run: "f (with_ed (opened (s_ed s)) s) = Some s1"
    and e: "undo_ok (s_ed s1)" "nestedOperation (s_ed s1) = 1" "geometry (screen (s_ed s1)) (d_view (s_disp s1))"
    and rows: "rows_ok (br_content br) old (s_disp s1)"
    and log: "logged (changes (s_ed s1)) (map base old) (map base (lines (s_ed s1)))" "\<forall>c \<in> set (changes (s_ed s1)). change_ok c"
  shows "\<exists>s'. operation br f s = Some s' \<and> session_ok br s' \<and> abs_ed (s_ed s') = abs_ed (s_ed s1) \<and> frame (s_ed s1) (s_ed s')"
proof -
  let ?s2 = "with_ed ((s_ed s1)\<lparr>nestedOperation := 0\<rparr>) s1"
  have op: "operation br f s = endOperation br ?s2"
    using n run e(2) by (simp add: operation_def opened_def Let_def with_ed_def)
  have u: "undo_ok (s_ed ?s2)" "abs_ed (s_ed ?s2) = abs_ed (s_ed s1)" using e(1) by (simp_all add: with_ed_def undo_ok_nested)
  have "geometry (screen (s_ed ?s2)) (d_view (s_disp ?s2))" "rows_ok (br_content br) old (s_disp ?s2)"
    "logged (changes (s_ed ?s2)) (map base old) (map base (lines (s_ed ?s2)))" "\<forall>c \<in> set (changes (s_ed ?s2)). change_ok c"
    using e(3) rows log by (simp_all add: with_ed_def rows_ok_def)
  from endOperation_ok [OF u(1) br this] obtain s' where s': "endOperation br ?s2 = Some s'" "calm (s_ed ?s2) (s_ed s')"
      "geometry (screen (s_ed ?s2)) (d_view (s_disp s'))" "rows_ok (br_content br) (lines (s_ed ?s2)) (s_disp s')"
    by blast
  note c = calm_undo_ok [OF s'(2) u(1)] calm_screen [OF s'(2)]
  have "rows_ok (br_content br) (lines (s_ed s')) (s_disp s')" using rows_ok_base [OF br _ s'(4)] c by blast
  moreover have "nestedOperation (s_ed s') = 0" using c(1) by (simp add: with_ed_def)
  ultimately have "session_ok br s'" using c s'(3) by (simp add: session_ok_def)
  moreover have "frame (s_ed ?s2) (s_ed s')" using s'(2) unfolding calm_def keeps_def by blast
  then have "frame (s_ed s1) (s_ed s')" by (simp add: frame_def with_ed_def)
  ultimately show ?thesis using op s'(1) c(1) u(2) by auto
qed

text \<open>What the steps inside an operation may do to the session.\<close>

definition advances :: "('g, 's, 'c) session \<Rightarrow> ('g, 's, 'c) session \<Rightarrow> bool" where
  "advances s s' \<longleftrightarrow> undo_ok (s_ed s') \<and> follows (s_ed s) (s_ed s') \<and> lineDiv (s_disp s') = lineDiv (s_disp s) \<and>
     geometry (screen (s_ed s)) (d_view (s_disp s'))"

lemma follows_world: "follows a b \<Longrightarrow> world b = world a"
  unfolding follows_def by blast

lemma advances_trans:
  assumes "advances a b" and "advances b c"
  shows "advances a c"
proof -
  have f: "follows (s_ed a) (s_ed b)" "follows (s_ed b) (s_ed c)" using assms by (simp_all add: advances_def)
  from world_simps(3) [OF follows_world [OF f(1)]] follows_trans [OF f] show ?thesis
    using assms by (simp add: advances_def)
qed

lemma logged_base: "logged cs (map unstated xs) (map unstated ys) \<Longrightarrow> logged cs (map base xs) (map base ys)"
proof -
  have b: "map base zs = map base (map unstated zs)" for zs :: "'a line list" by (simp add: base_def unstated_def)
  show "logged cs (map unstated xs) (map unstated ys) \<Longrightarrow> logged cs (map base xs) (map base ys)"
    by (subst (1 2) b) (rule logged_map)
qed

lemma operation_advances:
  assumes br: "browser_ok br" and s: "session_ok br s" and f: "f (with_ed (opened (s_ed s)) s) = Some s1"
    and a: "advances (with_ed (opened (s_ed s)) s) s1"
  shows "\<exists>s'. operation br f s = Some s' \<and> session_ok br s' \<and> abs_ed (s_ed s') = abs_ed (s_ed s1) \<and> frame (s_ed s1) (s_ed s')"
proof -
  let ?e = "opened (s_ed s)"
  have so: "nestedOperation (s_ed s) = 0" "rows_ok (br_content br) (lines (s_ed s)) (s_disp s)" using s by (simp_all add: session_ok_def)
  have a1: "undo_ok (s_ed s1)" "follows ?e (s_ed s1)" "lineDiv (s_disp s1) = lineDiv (s_disp s)"
    "geometry (screen (s_ed s)) (d_view (s_disp s1))"
    using a by (simp_all add: advances_def with_ed_def opened_ok)
  obtain cs where cs: "world (s_ed s1) = world ?e" "changes (s_ed s1) = changes ?e @ cs" "\<forall>c \<in> set cs. change_ok c"
      "logged cs (map unstated (lines ?e)) (map unstated (lines (s_ed s1)))"
    using a1(2) unfolding follows_def by blast
  note w = world_simps [OF cs(1)]
  show ?thesis
  proof (rule operation_closes [where f = f and s = s and old = "lines (s_ed s)", OF br so(1) f a1(1)])
    show "nestedOperation (s_ed s1) = 1" "geometry (screen (s_ed s1)) (d_view (s_disp s1))"
      using w(3,6) a1(4) by (simp_all add: opened_ok)
    show "rows_ok (br_content br) (lines (s_ed s)) (s_disp s1)" using so(2) a1(3) w(4,5) by (simp add: rows_ok_def opened_ok)
    show "logged (changes (s_ed s1)) (map base (lines (s_ed s))) (map base (lines (s_ed s1)))" "\<forall>c \<in> set (changes (s_ed s1)). change_ok c"
      using cs(2-4) logged_base by (auto simp: opened_ok)
  qed
qed

lemma advances_ed:
  "undo_ok e1 \<Longrightarrow> follows (s_ed s) e1 \<Longrightarrow> geometry (screen (s_ed s)) (d_view (s_disp s)) \<Longrightarrow> advances s (with_ed e1 s)"
  by (simp add: advances_def with_ed_def)

lemma operation_ok:
  assumes br: "browser_ok br" and s: "session_ok br s" and f: "f (opened (s_ed s)) = Some e1" "undo_ok e1" "follows (opened (s_ed s)) e1"
  shows "\<exists>s'. operation br (lift_ed f) s = Some s' \<and> session_ok br s' \<and> abs_ed (s_ed s') = abs_ed e1 \<and> frame e1 (s_ed s')"
proof -
  let ?s0 = "with_ed (opened (s_ed s)) s"
  have "advances ?s0 (with_ed e1 ?s0)"
    using f s by (intro advances_ed) (simp_all add: with_ed_def session_ok_def opened_ok)
  moreover have "lift_ed f ?s0 = Some (with_ed e1 ?s0)" using f(1) by (simp add: lift_ed_def with_ed_def)
  ultimately show ?thesis using operation_advances [OF br s, of "lift_ed f" "with_ed e1 ?s0"] by (simp add: with_ed_def)
qed

lemma api_ok_opened: "api_ok a (opened ed) = api_ok a ed"
proof -
  have "clipPos (opened ed) l c = clipPos ed l c" for l c
    by (simp add: clipPos_def opened_def startOperation_def doc_size_def line_text_def getLine_def)
  then show ?thesis by (cases a) simp_all
qed

text \<open>The screen shows the document: around every call of the instance that edits, selects, undoes or redoes,
  \<open>operation\<close> returns without an exception and leaves the text and the history as the call does, the editor well
  formed, no operation open, and on the screen, for the lines of its window in order, one row each with their
  current content.  So it stays through any number of operations.\<close>

lemma operation_shows_document:
  assumes "browser_ok br" and "session_ok br s" and "api_ok a (s_ed s)"
  shows "\<exists>s' e1. run_api a (opened (s_ed s)) = Some e1 \<and> operation br (lift_ed (run_api a)) s = Some s' \<and>
    abs_ed (s_ed s') = abs_ed e1 \<and> session_ok br s' \<and>
    lineDiv (s_disp s') = map (line_row (br_content br))
      (take (showingTo (s_ed s') - showingFrom (s_ed s')) (drop (showingFrom (s_ed s')) (lines (s_ed s'))))"
proof -
  have ok: "undo_ok (opened (s_ed s))" "api_ok a (opened (s_ed s))"
    using assms(2,3) by (simp_all add: session_ok_def opened_ok api_ok_opened)
  obtain e1 where e1: "run_api a (opened (s_ed s)) = Some e1" "undo_ok e1" using run_api_total [OF ok] by blast
  from operation_ok [where f = "run_api a", OF assms(1,2) e1 run_api_follows [OF ok e1(1)]] e1(1)
  show ?thesis by (auto simp: session_ok_def rows_ok_def)
qed

definition demo_browser :: "(sparql_state, jstring) browser" where
  "demo_browser = \<lparr>br_content = ltext, br_measure = (\<lambda>l k. (0, 7 * k)), br_height = (\<lambda>_. 16), br_gutter = (\<lambda>_. 20),
     br_boxTop = 0, br_cursorWidth = 1, br_hasSelection = False\<rparr>"

definition demo_session :: "jstring \<Rightarrow> (sparql_env, sparql_state, jstring) session" where
  "demo_session v = \<lparr>s_disp = \<lparr>d_ed = demo_editor v,
     d_view = \<lparr>scrollTop = 0, lastScrollTop = 0, scrollLeft = 0, scrollerHeight = 600, scrollerWidth = 800, gutterWidth = 20, fixedGutter = True,
       spaceWidth = 780, spaceHeight = 600, windowHeight = 900, lineOffTop = 0, lineOffLeft = 0\<rparr>,
     d_opts = \<lparr>opt_gutter = False, lineNumbers = True, firstLineNumber = 1, lineNumberFormatter = int_str,
       opt_onUpdate = False, onViewportChange = False\<rparr>,
     lineDiv = [], gutterText = [], marginLeft = 0, lastSizeC = 0, barHeight = None,
     moverTop = 0, d_selection = None, viewport_calls = [], update_calls = 0\<rparr>, minWidth = 0, notices = [], poll = None\<rparr>"

lemma demo_session_ok:
  "session_ok demo_browser (with_ed ((demo_editor ''abc'')\<lparr>focused := b, input := t\<rparr>) (demo_session ''abc''))" "browser_ok demo_browser"
proof -
  have "undo_ok ((demo_editor ''abc'')\<lparr>focused := b, input := t\<rparr>)"
    using reachable_undo_ok [OF demo_reachable [of "''abc''"]]
    by (simp add: undo_ok_def ed_ok_def struct_ok_def known_def texts_def all_visible_def abs_ed_def)
  moreover have "nestedOperation (demo_editor ''abc'') = 0" "showingFrom (demo_editor ''abc'') = 0" "showingTo (demo_editor ''abc'') = 0"
    "textHeight (screen (demo_editor ''abc'')) = 16" "clientWidth (screen (demo_editor ''abc'')) = 800"
    "paddingTop (screen (demo_editor ''abc'')) = 4" "clientHeight (screen (demo_editor ''abc'')) = 600" "charWidth (screen (demo_editor ''abc'')) = 8"
    by code_simp+
  ultimately show "session_ok demo_browser (with_ed ((demo_editor ''abc'')\<lparr>focused := b, input := t\<rparr>) (demo_session ''abc''))"
    by (simp add: session_ok_def demo_session_def with_ed_def geometry_def rows_ok_def)
  show "browser_ok demo_browser" by (simp add: browser_ok_def demo_browser_def)
qed

subsection \<open>Typing\<close>

lemma apply_input_follows:
  assumes ok: "undo_ok ed" and room: "int (length (prevInput ed) - common_prefix (prevInput ed) (input ed)) \<le> pch (sel_from ed)"
    and run: "apply_input ed = Some ed'"
  shows "follows ed ed'"
proof -
  let ?same = "common_prefix (prevInput ed) (input ed)" and ?ed = "ed\<lparr>shiftSelecting := None\<rparr>"
  obtain ed1 where e1: "input_selection ?same ?ed = Some ed1" "undo_ok ed1"
    using typed_selection [OF undo_ok_input(3) [OF ok, of None], of ?same] room by auto
  have "quiet ed ed1" using e1(1) by (auto simp: input_selection_def quiet_def world_def split: if_splits)
  obtain ed2 where e2: "replaceSelection (drop ?same (input ed)) CollapseEnd ed1 = Some ed2"
      "ed' = (if length (input ed) > 1000 then ed2\<lparr>input := [], prevInput := []\<rparr> else ed2\<lparr>prevInput := input ed\<rparr>)"
    using run e1(1) by (auto simp: apply_input_def Let_def bind_eq_Some_conv)
  have "follows ed1 ed2"
    using run_api_follows [OF e1(2), of "ReplaceSelection (drop ?same (input ed)) CollapseEnd"] e2(1) by simp
  from quiet_before [OF \<open>quiet ed ed1\<close> this] show ?thesis by (rule quiet_after) (simp add: quiet_def world_def e2(2))
qed

lemma readInput_ok:
  assumes br: "browser_ok br" and s: "session_ok br s" and ed: "ed = s_ed s" "same = common_prefix (prevInput ed) (input ed)"
    and in1: "focused ed" "\<not> br_hasSelection br" "readOnly (options ed) = Editable" "input ed \<noteq> prevInput ed"
    and room: "int (length (prevInput ed) - same) \<le> pch (sel_from ed)"
  shows "\<exists>s'. readInput br s = Some (s', True) \<and> session_ok br s' \<and>
     flat (texts (s_ed s')) = take (typed_from same ed) (flat (texts ed)) @ norm_nl (drop same (input ed)) @
       drop (typed_to same ed) (flat (texts ed)) \<and>
     sel_from (s_ed s') = sel_to (s_ed s') \<and>
     offset (texts (s_ed s')) (sel_to (s_ed s')) = typed_from same ed + length (norm_nl (drop same (input ed))) \<and>
     mode (s_ed s') = mode ed \<and> options (s_ed s') = options ed"
proof -
  let ?ed = "startOperation ed"
  have so: "undo_ok ed" "nestedOperation ed = 0" "geometry (screen ed) (d_view (s_disp s))" "rows_ok (br_content br) (lines ed) (s_disp s)"
    using s ed by (simp_all add: session_ok_def)
  have st: "undo_ok ?ed" "texts ?ed = texts ed" "lines ?ed = lines ed" "typed_from same ?ed = typed_from same ed"
    "typed_to same ?ed = typed_to same ed" "changes ?ed = []" "nestedOperation ?ed = 0" "screen ?ed = screen ed"
    "input ?ed = input ed" "prevInput ?ed = prevInput ed" "sel_from ?ed = sel_from ed"
    "showingFrom ?ed = showingFrom ed" "showingTo ?ed = showingTo ed" "mode ?ed = mode ed" "options ?ed = options ed"
    using so by (simp_all add: startOperation_def undo_ok_def ed_ok_def struct_ok_def known_def texts_def all_visible_def abs_ed_def
      typed_from_def typed_to_def)
  have room1: "int (length (prevInput ?ed) - same) \<le> pch (sel_from ?ed)" "same = common_prefix (prevInput ?ed) (input ?ed)"
    using room ed(2) st by simp_all
  obtain e1 where e1: "apply_input ?ed = Some e1" "undo_ok e1"
      "flat (texts e1) = take (typed_from same ed) (flat (texts ed)) @ norm_nl (drop same (input ed)) @ drop (typed_to same ed) (flat (texts ed))"
      "sel_from e1 = sel_to e1" "offset (texts e1) (sel_to e1) = typed_from same ed + length (norm_nl (drop same (input ed)))"
    using apply_input_ok [OF st(1) room1] unfolding st by blast
  have f: "follows ?ed e1" using apply_input_follows [OF st(1) _ e1(1)] room1 by simp
  have e2: "nestedOperation e1 = 0" "screen e1 = screen ed" "showingFrom e1 = showingFrom ed" "showingTo e1 = showingTo ed"
    "mode e1 = mode ed" "options e1 = options ed"
    "\<forall>c \<in> set (changes e1). change_ok c" "logged (changes e1) (map base (lines ed)) (map base (lines e1))"
    using f st logged_base by (auto simp: follows_def world_def)
  let ?s1 = "with_ed e1 s"
  have d1: "s_ed ?s1 = e1" "d_view (s_disp ?s1) = d_view (s_disp s)" by (simp_all add: with_ed_def)
  have "rows_ok (br_content br) (lines ed) (s_disp ?s1)" using so(4) e2(3,4) ed(1) by (simp add: with_ed_def rows_ok_def)
  then obtain s' where s': "endOperation br ?s1 = Some s'" "calm e1 (s_ed s')" "geometry (screen e1) (d_view (s_disp s'))"
      "rows_ok (br_content br) (lines e1) (s_disp s')"
    using endOperation_ok [of ?s1 br "lines ed"] e1(2) br so(3) e2(2,7,8) unfolding d1 by auto
  note c = calm_undo_ok [OF s'(2) e1(2)] calm_screen [OF s'(2)]
  have run: "readInput br s = Some (s', True)"
    using in1 so(2) e1(1) e2(1) s'(1) unfolding readInput_def Let_def ed(1) [symmetric] by simp
  have "rows_ok (br_content br) (lines (s_ed s')) (s_disp s')" using rows_ok_base [OF br _ s'(4)] c by blast
  then have ok: "session_ok br s'" using c s'(3) e2(1) by (simp add: session_ok_def)
  have "frame e1 (s_ed s')" using s'(2) unfolding calm_def keeps_def by blast
  then have "sel_from (s_ed s') = sel_from e1" "sel_to (s_ed s') = sel_to e1" "texts (s_ed s') = texts e1"
    "mode (s_ed s') = mode ed" "options (s_ed s') = options ed"
    using c e2(5,6) by (simp_all add: frame_def abs_ed_def)
  then show ?thesis using run ok e1(3-5) by auto
qed

text \<open>C4: Typing: when the hidden input has changed, reading it returns, puts what stands behind the part of it that was
  there at the last poll into the text, normalised, in place of the selection, of the characters in front of it that
  the input lost, and, when overwriting, of as many characters behind the cursor as the line has; the cursor ends
  up behind it, and the screen shows the document.\<close>

theorem typing_shows:
  assumes "browser_ok br" and "session_ok br s" and "ed = s_ed s" and "same = common_prefix (prevInput ed) (input ed)"
    and "focused ed" and "\<not> br_hasSelection br" and "readOnly (options ed) = Editable" and "input ed \<noteq> prevInput ed"
    and "int (length (prevInput ed) - same) \<le> pch (sel_from ed)"
  shows "\<exists>s'. readInput br s = Some (s', True) \<and> session_ok br s' \<and>
     getValue (s_ed s') [nl] = take (typed_from same ed) (getValue ed [nl]) @ norm_nl (drop same (input ed)) @
       drop (typed_to same ed) (getValue ed [nl]) \<and>
     sel_from (s_ed s') = sel_to (s_ed s') \<and>
     indexFromPos (s_ed s') (pline (sel_to (s_ed s'))) (pch (sel_to (s_ed s'))) =
       int (typed_from same ed + length (norm_nl (drop same (input ed))))"
proof -
  obtain s' where s': "readInput br s = Some (s', True)" "session_ok br s'"
      "flat (texts (s_ed s')) = take (typed_from same ed) (flat (texts ed)) @ norm_nl (drop same (input ed)) @
         drop (typed_to same ed) (flat (texts ed))" "sel_from (s_ed s') = sel_to (s_ed s')"
      "offset (texts (s_ed s')) (sel_to (s_ed s')) = typed_from same ed + length (norm_nl (drop same (input ed)))"
    using readInput_ok [OF assms] by blast
  have ok: "undo_ok ed" "undo_ok (s_ed s')" using assms(2,3) s'(2) by (simp_all add: session_ok_def)
  note d = undo_okD(2) [OF ok(1)] undo_okD(2) [OF ok(2)] ed_okD(7) [OF undo_okD(1) [OF ok(2)]]
  show ?thesis
    using s' indexFromPos_offset [OF d(2,3)]
    by (intro exI [of _ s']) (simp add: getValue_texts d(1,2) flat_def [symmetric])
qed

theorem typing_shows_witness:
  "\<exists>s'. readInput demo_browser (with_ed ((demo_editor ''abc'')\<lparr>focused := True, input := ''xy''\<rparr>) (demo_session ''abc'')) = Some (s', True) \<and>
     getValue (s_ed s') [nl] = ''xyabc''"
proof -
  let ?ed = "(demo_editor ''abc'')\<lparr>focused := True, input := ''xy''\<rparr>" and ?s = "with_ed ((demo_editor ''abc'')\<lparr>focused := True, input := ''xy''\<rparr>) (demo_session ''abc'')"
  have e: "?ed = s_ed ?s" by (simp add: with_ed_def)
  have h: "focused ?ed" "\<not> br_hasSelection demo_browser" "readOnly (options ?ed) = Editable" "input ?ed \<noteq> prevInput ?ed"
    "int (length (prevInput ?ed) - common_prefix (prevInput ?ed) (input ?ed)) \<le> pch (sel_from ?ed)"
    by code_simp+
  have v: "take (typed_from (common_prefix (prevInput ?ed) (input ?ed)) ?ed) (getValue ?ed [nl]) @
      norm_nl (drop (common_prefix (prevInput ?ed) (input ?ed)) (input ?ed)) @
      drop (typed_to (common_prefix (prevInput ?ed) (input ?ed)) ?ed) (getValue ?ed [nl]) = ''xyabc''" by code_simp
  from typing_shows [OF demo_session_ok(2,1) e refl h] show ?thesis unfolding v by blast
qed

end
