(* ===== verification/CM_Command_Laws.thy ===== *)
theory CM_Command_Laws
  imports CM_Session_Laws CM_Keys_Laws CM_Motion_Laws
begin

section \<open>The commands are steps of the editor\<close>

text \<open>
  Every command of \<open>CodeMirror.commands\<close>, run on a well-formed editor in the SPARQL mode, returns without an
  exception, leaves the editor well formed and logs what it did to the lines.  So does a key that is looked up
  in key maps that bind such commands.
\<close>

definition goes :: "('g, 's) editor \<Rightarrow> ('g, 's) editor \<Rightarrow> bool" where
  "goes a b \<longleftrightarrow> undo_ok b \<and> follows a b"

lemma goes_refl: "undo_ok a \<Longrightarrow> goes a a"
  by (simp add: goes_def quiet_follows quiet_def world_def)

lemma goes_trans: "goes a b \<Longrightarrow> goes b c \<Longrightarrow> goes a c"
  unfolding goes_def using follows_trans by blast

lemma goes_world: "goes a b \<Longrightarrow> world b = world a"
  by (simp add: goes_def follows_def)

lemma goes_quiet: "undo_ok b \<Longrightarrow> quiet a b \<Longrightarrow> goes a b"
  by (simp add: goes_def quiet_follows)

text \<open>Fields that no invariant mentions.\<close>

lemma undo_ok_fields:
  "undo_ok (ed\<lparr>userSelChange := b\<rparr>) = undo_ok ed" "undo_ok (ed\<lparr>goalColumn := g\<rparr>) = undo_ok ed"
  "undo_ok (ed\<lparr>shiftSelecting := sh\<rparr>) = undo_ok ed" "undo_ok (ed\<lparr>overwrite := b\<rparr>) = undo_ok ed"
  "undo_ok (ed\<lparr>updateInput := u\<rparr>) = undo_ok ed" "undo_ok (ed\<lparr>timers := ts\<rparr>) = undo_ok ed"
  "undo_ok (ed\<lparr>focused := b\<rparr>) = undo_ok ed" "undo_ok (ed\<lparr>pollingFast := b\<rparr>) = undo_ok ed"
  "undo_ok (ed\<lparr>input := t\<rparr>) = undo_ok ed" "undo_ok (ed\<lparr>prevInput := t\<rparr>) = undo_ok ed"
  "undo_ok (ed\<lparr>worker := w\<rparr>) = undo_ok ed" "undo_ok (ed\<lparr>clock := now\<rparr>) = undo_ok ed"
  by (simp_all add: undo_ok_def ed_ok_def struct_ok_def known_def texts_def all_visible_def abs_ed_def)

lemma undo_ok_suppress: "undo_ok ed \<Longrightarrow> undo_ok (ed\<lparr>suppressEdits := False\<rparr>)"
  by (simp add: undo_ok_def ed_ok_def struct_ok_def known_def texts_def all_visible_def abs_ed_def)

lemma goes_fields:
  assumes "goes a b"
  shows "goes a (b\<lparr>userSelChange := x\<rparr>)" "goes a (b\<lparr>goalColumn := g\<rparr>)" "goes a (b\<lparr>shiftSelecting := sh\<rparr>)"
    "goes a (b\<lparr>overwrite := x\<rparr>)" "goes a (b\<lparr>updateInput := u\<rparr>)" "goes a (b\<lparr>suppressEdits := False\<rparr>)"
  using assms undo_ok_suppress [of b] by (auto simp: goes_def undo_ok_fields quiet_def world_def intro: quiet_after)

subsection \<open>Calls of the instance\<close>

lemma api_goes: "undo_ok ed \<Longrightarrow> api_ok a ed \<Longrightarrow> \<exists>e. run_api a ed = Some e \<and> goes ed e"
  using run_api_total run_api_follows unfolding goes_def by blast

lemma clip_text_mono:
  assumes "d \<noteq> []" "p \<le> q"
  shows "clip_text d (pline p) (Some (pch p)) \<le> clip_text d (pline q) (Some (pch q))"
proof -
  have l: "d ! nat l = last d" if "\<not> l < int (length d) - 1" "\<not> int (length d) \<le> l" for l
  proof -
    have "nat l = length d - 1" using that by linarith
    then show ?thesis by (simp only: last_conv_nth [OF assms(1)])
  qed
  have "length d = Suc 0 \<or> Suc 0 < length d" using assms(1) by (cases d) auto
  then show ?thesis using assms l by (cases p; cases q) (auto simp: clip_text_def pos_le_iff Let_def)
qed

lemma replaceRange_goes:
  assumes ok: "undo_ok ed" and le: "p \<le> q"
  shows "\<exists>e x. replaceRange v p (Some q) ed = Some (e, x) \<and> goes ed e"
proof -
  have "api_ok (ReplaceRange v p q) ed"
    using clip_text_mono [OF undo_okD(3) [OF ok] le] by (simp add: clipPos_text [OF undo_okD(2,3) [OF ok]])
  from api_goes [OF ok this] show ?thesis by auto
qed

lemma replaceSelection_goes: "undo_ok ed \<Longrightarrow> \<exists>e. replaceSelection v c ed = Some e \<and> goes ed e"
  using api_goes [of ed "ReplaceSelection v c"] by simp

lemma setCursor_goes: "undo_ok ed \<Longrightarrow> \<exists>e. setCursor l c user ed = Some e \<and> goes ed e"
  using api_goes [of ed "SetCursor l c user"] by simp

lemma setSelectionUser_goes:
  assumes "undo_ok ed" "pos_ok (texts ed) p" "pos_ok (texts ed) q"
  shows "\<exists>e. setSelectionUser p q ed = Some e \<and> goes ed e"
proof -
  obtain e where e: "setSelectionUser p q ed = Some e" "undo_ok e" using setSelectionUser_total [OF assms] by blast
  with goes_quiet [OF e(2) setSelectionUser_quiet [OF undo_okD(1) [OF assms(1)] assms(2,3) e(1)]] show ?thesis by blast
qed

lemma setSelection_goes:
  assumes "undo_ok ed" "pos_ok (texts ed) p" "pos_ok (texts ed) q"
  shows "\<exists>e. setSelection p q old ed = Some e \<and> goes ed e"
proof -
  obtain e where e: "setSelection p q old ed = Some e" "undo_ok e" using setSelection_total [OF assms] by blast
  with goes_quiet [OF e(2) setSelection_quiet [OF undo_okD(1) [OF assms(1)] assms(2,3) e(1)]] show ?thesis by blast
qed

lemma clip_ok: "undo_ok ed \<Longrightarrow> \<exists>p. clipPos ed l c = Some p \<and> pos_ok (texts ed) p"
  using clipPos_text [OF undo_okD(2,3)] clip_text_ok [OF undo_okD(3)] by blast

lemma api_setSelection_goes:
  assumes "undo_ok ed"
  shows "\<exists>e. api_setSelection f t user ed = Some e \<and> goes ed e"
proof -
  obtain p where p: "clipPos ed (fst f) (snd f) = Some p" "pos_ok (texts ed) p" using clip_ok [OF assms] by blast
  obtain q where q: "(let t1 = (case t of Some x \<Rightarrow> x | None \<Rightarrow> f) in clipPos ed (fst t1) (snd t1)) = Some q" "pos_ok (texts ed) q"
    using clip_ok [OF assms] unfolding Let_def by blast
  show ?thesis
    using setSelectionUser_goes [OF assms p(2) q(2)] setSelection_goes [OF assms p(2) q(2), of None]
    by (simp add: api_setSelection_def p(1) q(1))
qed

lemma cursor_ok: "undo_ok ed \<Longrightarrow> pos_ok (texts ed) (getCursor b ed)"
  using ed_okD(6,7) [OF undo_okD(1)] by (auto simp: getCursor_def)

lemma line_text_cursor:
  assumes "undo_ok ed" "pos_ok (texts ed) p"
  shows "line_text ed (pline p) = Some (texts ed ! nat (pline p))" "pch p \<le> int (length (texts ed ! nat (pline p)))" "0 \<le> pch p"
  using assms(2) by (auto simp: line_text_texts [OF undo_okD(2) [OF assms(1)]] pos_ok_def)

subsection \<open>Deleting lines and characters\<close>

lemma clip_line_end:
  assumes "undo_ok ed" "pos_ok (texts ed) p"
  shows "clipPos ed (pline p) None = Some (Pos (pline p) (int (length (texts ed ! nat (pline p)))))"
  using assms(2) by (auto simp: clipPos_text [OF undo_okD(2,3) [OF assms(1)]] clip_text_def pos_ok_def)

lemma killLine_goes:
  assumes ok: "undo_ok ed"
  shows "\<exists>e. killLine ed = Some e \<and> goes ed e"
proof -
  let ?from = "getCursor (Some True) ed" and ?to = "getCursor (Some False) ed"
  have f: "?from = sel_from ed" "?to = sel_to ed" by (simp_all add: getCursor_def)
  note d = ed_okD [OF undo_okD(1) [OF ok]]
  note l = line_text_cursor [OF ok d(6)]
  have next_line: "sel_from ed \<le> Pos (pline (sel_from ed) + 1) 0" by (cases "sel_from ed") (simp add: pos_le_iff)
  have line_end: "sel_from ed \<le> Pos (pline (sel_from ed)) (int (length (texts ed ! nat (pline (sel_from ed)))))"
    using l(2) by (cases "sel_from ed") (simp add: pos_le_iff)
  have r: "\<exists>e. map_option fst (replaceRange v p (Some q) ed) = Some e \<and> goes ed e" if "p \<le> q" for v p q
    using replaceRange_goes [OF ok that] by fastforce
  show ?thesis
  proof (cases "posEq (sel_from ed) (sel_to ed)")
    case True
    have "killLine ed =
        (if int (length (texts ed ! nat (pline (sel_from ed)))) = pch (sel_from ed)
         then map_option fst (replaceRange [] (sel_from ed) (Some (Pos (pline (sel_from ed) + 1) 0)) ed)
         else map_option fst (replaceRange [] (sel_from ed)
           (Some (Pos (pline (sel_from ed)) (int (length (texts ed ! nat (pline (sel_from ed))))))) ed))"
      unfolding killLine_def Let_def f l(1) clip_line_end [OF ok d(6)] using True by simp
    then show ?thesis using r [OF next_line, of "[]"] r [OF line_end, of "[]"] by (simp only: split: if_split) blast
  next
    case False
    then have "killLine ed = map_option fst (replaceRange [] (sel_from ed) (Some (sel_to ed)) ed)"
      unfolding killLine_def Let_def f l(1) by simp
    then show ?thesis using r [OF d(8), of "[]"] by simp
  qed
qed

lemma deleteLine_goes:
  assumes ok: "undo_ok ed"
  shows "\<exists>e. deleteLine ed = Some e \<and> goes ed e"
proof -
  let ?c = "getCursor None ed"
  have "Pos (pline ?c) 0 \<le> Pos (pline ?c) (int (length (texts ed ! nat (pline ?c))))" by (simp add: pos_le_iff)
  from replaceRange_goes [OF ok this, of "[]"] show ?thesis
    using clip_line_end [OF ok cursor_ok [OF ok, of None]] by (auto simp: deleteLine_def Let_def)
qed

lemma transposeChars_goes:
  assumes ok: "undo_ok ed"
  shows "\<exists>e. transposeChars ed = Some e \<and> goes ed e"
proof -
  let ?c = "getCursor None ed"
  have "Pos (pline ?c) (pch ?c - 1) \<le> Pos (pline ?c) (pch ?c + 1)" by (simp add: pos_le_iff)
  from replaceRange_goes [OF ok this] show ?thesis
    using line_text_cursor(1) [OF ok cursor_ok [OF ok, of None]] goes_refl [OF ok]
    unfolding transposeChars_def Let_def by fastforce
qed

lemma goLineStartSmart_goes:
  assumes ok: "undo_ok ed"
  shows "\<exists>e. goLineStartSmart ed = Some e \<and> goes ed e"
  using line_text_cursor(1) [OF ok cursor_ok [OF ok, of None]] setCursor_goes [OF ok]
  unfolding goLineStartSmart_def Let_def by simp

subsection \<open>Moving and deleting by characters and words\<close>

lemma before_line_mono: "a \<le> b \<Longrightarrow> length (before_line d a) \<le> length (before_line d b)"
proof -
  assume "a \<le> b"
  then have "take b d = take a d @ take (b - a) (drop a d)" by (metis take_add le_add_diff_inverse)
  then show ?thesis by (simp add: before_line_def)
qed

lemma offset_order:
  assumes p: "pos_ok d p" and q: "pos_ok d q" and le: "offset d p \<le> offset d q"
  shows "p \<le> q"
proof (rule ccontr)
  assume "\<not> p \<le> q"
  then have "pline q < pline p \<or> (pline q = pline p \<and> pch q < pch p)" by (cases p; cases q) (auto simp: pos_le_iff)
  then show False
  proof
    assume l: "pline q < pline p"
    have b: "nat (pline q) < length d" "0 \<le> pch q" "nat (pch q) \<le> length (d ! nat (pline q))" using q by (auto simp: pos_ok_def)
    have "length (before_line d (Suc (nat (pline q)))) \<le> length (before_line d (nat (pline p)))"
      using l q by (intro before_line_mono) (auto simp: pos_ok_def)
    with le b show False by (simp add: offset_def before_line_Suc)
  next
    assume a: "pline q = pline p \<and> pch q < pch p"
    then have "nat (pch q) < nat (pch p)" using q by (simp add: pos_ok_def)
    with a le show False by (simp add: offset_def)
  qed
qed

abbreviation head :: "('g, 's) editor \<Rightarrow> pos" where
  "head ed \<equiv> (if sel_inverted ed then sel_from ed else sel_to ed)"

lemma findPosH_order:
  assumes ok: "undo_ok ed" and dir: "dir = 1 \<or> dir = - 1"
  shows "\<exists>p. findPosH dir unit ed = Some p \<and> (if dir < 0 then p \<le> head ed else head ed \<le> p)"
proof -
  note d = ed_okD [OF undo_okD(1) [OF ok]]
  have h: "pos_ok (texts ed) (head ed)" using d(6,7) by simp
  have g: "getLine ed (pline (head ed)) = Some (lines ed ! nat (pline (head ed)))"
    using h getLine_lines [OF d(2)] by (simp add: pos_ok_def)
  have column: "\<exists>p. findPosH dir Column ed = Some p \<and> (if dir < 0 then p \<le> head ed else head ed \<le> p)"
    using dir unfolding findPosH_def Let_def g by (cases "head ed") (auto simp: moveOnce_def pos_le_iff)
  from findPosH_offsets [OF undo_okD(1) [OF ok] refl refl refl] show ?thesis
  proof (elim exE conjE, goal_cases)
    case (1 r l R L)
    have "head ed \<le> r" using 1(6) offset_le [OF h] by (intro offset_order [OF h 1(5)]) simp
    moreover have "l \<le> head ed" using 1(8) by (intro offset_order [OF 1(7) h]) simp
    moreover have "head ed \<le> R" using 1(10) by (intro offset_order [OF h 1(9)]) simp
    moreover have "L \<le> head ed" using 1(12) by (intro offset_order [OF 1(11) h]) simp
    ultimately show ?thesis using dir 1(1-4) column by (cases unit) auto
  qed
qed

lemma moveH_goes:
  assumes ok: "undo_ok ed" and dir: "dir = 1 \<or> dir = - 1"
  shows "\<exists>e. moveH dir unit ed = Some e \<and> goes ed e"
proof -
  obtain p where "findPosH dir unit ed = Some p" using findPosH_order [OF assms] by blast
  then show ?thesis using setCursor_goes [OF ok] by (simp add: moveH_def)
qed

lemma deleteH_goes:
  assumes ok: "undo_ok ed" and dir: "dir = 1 \<or> dir = - 1"
  shows "\<exists>e. deleteH dir unit ed = Some e \<and> goes ed e"
proof -
  note d = ed_okD [OF undo_okD(1) [OF ok]]
  have r: "\<exists>e. do { (ed1, e) \<leftarrow> replaceRange [] p (Some q) ed; Some (ed1\<lparr>userSelChange := True\<rparr>) } = Some e \<and> goes ed e"
    if "p \<le> q" for p q
    using replaceRange_goes [OF ok that, of "[]"] goes_fields(1) [of ed _ True] by fastforce
  obtain p where p: "findPosH dir unit ed = Some p" "if dir < 0 then p \<le> head ed else head ed \<le> p"
    using findPosH_order [OF assms] by blast
  show ?thesis
  proof (cases "posEq (sel_from ed) (sel_to ed)")
    case True
    then have e: "sel_from ed = sel_to ed" by (simp add: posEq_def pos.expand)
    then have "head ed = sel_to ed" by simp
    then show ?thesis using True p e r [of p "sel_to ed"] r [of "sel_from ed" p] by (cases "dir < 0") (simp_all add: deleteH_def)
  next
    case False
    then show ?thesis using r [OF d(8)] by (simp add: deleteH_def)
  qed
qed

subsection \<open>Moving by lines and pages\<close>

lemma localCoords_total:
  assumes "undo_ok ed" "pos_ok (texts ed) p"
  shows "\<exists>x y b. localCoords ms ed p w = Some (x, y, b)"
proof -
  obtain l where "getLine ed (pline p) = Some l"
    using assms(2) getLine_lines [OF undo_okD(2) [OF assms(1)]] by (simp add: pos_ok_def)
  then show ?thesis by (cases "measureLine ms l (pch p)") (simp add: localCoords_def Let_def)
qed

lemma moveV_goes:
  assumes ok: "undo_ok ed" and geo: "geometry (screen ed) vw"
  shows "\<exists>e v. moveV ms dir unit (ed, vw) = Some (e, v) \<and> goes ed e \<and> geometry (screen ed) v"
proof -
  note d = ed_okD [OF undo_okD(1) [OF ok]]
  have g: "0 < clientWidth (screen ed)" "0 < charWidth (screen ed)" using geo by (simp_all add: geometry_def)
  have "pos_ok (texts ed) (head ed)" using d(6,7) by simp
  then obtain x0 y yb where h: "localCoords ms ed (head ed) True = Some (x0, y, yb)"
    using localCoords_total [OF ok] by blast
  let ?x = "case goalColumn ed of Some g \<Rightarrow> g | None \<Rightarrow> x0"
  let ?y = "case unit of ByPage \<Rightarrow> y + min (int (clientHeight (screen ed))) (windowHeight vw) * dir
         | v_unit.ByLine \<Rightarrow> y + textHeight (screen ed) div 2 + dir * textHeight (screen ed)"
  obtain t after where t: "coordsChar ms ed ?x ?y = Some (t, after)" "pos_ok (texts ed) t"
    using coordsChar_ok [OF undo_okD(1) [OF ok] g] by blast
  obtain tx ty tb where c: "localCoords ms ed t True = Some (tx, ty, tb)" using localCoords_total [OF ok t(2)] by blast
  obtain e where e: "setCursor (pline t) (Some (pch t)) True ed = Some e" "goes ed e" using setCursor_goes [OF ok] by blast
  have "geometry (screen ed) (vw\<lparr>scrollTop := max 0 n\<rparr>)" for n using geo by (simp add: geometry_def)
  then show ?thesis
    using geo goes_fields(2) [OF e(2)] t(1) e(1) c unfolding moveV_def prod.case h Let_def
    by (cases unit) simp_all
qed

subsection \<open>Indentation\<close>

definition restated :: "('g, 's) editor \<Rightarrow> ('g, 's) editor \<Rightarrow> bool" where
  "restated ed ed' \<longleftrightarrow> recached ed ed' \<and> map unstated (lines ed') = map unstated (lines ed)"

lemma restated_refl: "doc_ok (doc ed) \<Longrightarrow> restated ed ed"
  by (simp add: restated_def recached_refl)

lemma restated_trans: "restated a b \<Longrightarrow> restated b c \<Longrightarrow> restated a c"
  unfolding restated_def using recached_trans by auto

lemma restated_set_state:
  assumes "doc_ok (doc ed)" "k < length (lines ed)"
  shows "restated ed (set_state_after k s (ed\<lparr>mode_env := g\<rparr>))"
proof -
  have "map unstated ((lines ed)[k := (lines ed ! k)\<lparr>stateAfter := s\<rparr>]) = map unstated (lines ed)"
    using assms(2) by (simp add: map_update unstated_def) (metis list_update_id nth_map unstated_def)
  then show ?thesis
    using recached_set_state [OF assms] by (simp add: restated_def set_state_after_def map_line_collapse [OF assms])
qed

lemma process_lines_restated:
  "process_lines ks keep s ed = Some (s1, ed1) \<Longrightarrow> doc_ok (doc ed) \<Longrightarrow> \<forall>k \<in> set ks. k < length (lines ed) \<Longrightarrow> restated ed ed1"
proof (induction ks arbitrary: s ed)
  case Nil
  then show ?case by (simp add: restated_refl)
next
  case (Cons k ks)
  obtain s2 ed2 where p: "process_line k keep s ed = Some (s2, ed2)" "process_lines ks keep s2 ed2 = Some (s1, ed1)"
    using Cons.prems(1) by (auto simp: bind_eq_Some_conv)
  have r: "restated ed ed2"
    using p(1) Cons.prems(2,3) restated_set_state by (auto simp: process_line_def bind_eq_Some_conv)
  then have "restated ed2 ed1"
    using Cons.IH [OF p(2)] Cons.prems(3) recachedD(1,2) unfolding restated_def by fastforce
  with r show ?case by (rule restated_trans)
qed

lemma getStateBefore_restated:
  assumes "getStateBefore n ed = Some (s, ed1)" "doc_ok (doc ed)" "n \<le> length (lines ed)"
  shows "restated ed ed1"
  using assms process_lines_restated [OF _ assms(2)] by (auto simp: getStateBefore_def bind_eq_Some_conv)

text \<open>The highlighter, in whatever it does, leaves the editor well formed.\<close>

lemma worked_undo_ok:
  fixes ed :: "('a, 'b) editor"
  assumes ok: "undo_ok ed" and w: "worked k ed ed'"
  shows "undo_ok ed'"
proof -
  obtain d g f v where ed': "ed' = ed\<lparr>doc := d, mode_env := g, frontier := f, worker := v\<rparr>" using w by (auto simp: worked_def)
  have m: "map core (lines ed') = map core (lines ed)" "doc_ok (doc ed')" using w by (simp_all add: worked_def)
  have c: "p ` set (lines ed') = p ` set (lines ed)" if "\<And>l. p l = q (core l)" for p :: "'b line \<Rightarrow> 'c" and q
  proof -
    have "map q (map core (lines ed')) = map q (map core (lines ed))" by (simp only: m(1))
    moreover have "p = q \<circ> core" using that by auto
    ultimately have "map p (lines ed') = map p (lines ed)" by simp
    from arg_cong [OF this, of set] show ?thesis by simp
  qed
  have hid: "lhidden ` set (lines ed') = lhidden ` set (lines ed)"
    by (rule c [of _ "fst \<circ> snd \<circ> snd \<circ> snd"]) (simp add: core_def)
  have hei: "lheight ` set (lines ed') = lheight ` set (lines ed)"
    by (rule c [of _ "fst \<circ> snd \<circ> snd"]) (simp add: core_def)
  have i: "ids ed' = ids ed" using arg_cong [OF m(1), of "map fst"] by (simp add: core_def comp_def)
  have "nonneg ls = (\<forall>h \<in> lheight ` set ls. 0 \<le> h)" for ls :: "'b line list" by (auto simp: nonneg_def)
  then have nn: "nonneg (lines ed') = nonneg (lines ed)" by (simp only: hei)
  have "all_visible e = (\<forall>h \<in> lhidden ` set (lines e). \<not> h)" for e :: "('a, 'b) editor" by (auto simp: all_visible_def)
  then have av: "all_visible ed' = all_visible ed" by (simp only: hid)
  have "known ed' = known ed" using i by (simp add: known_def ed')
  moreover have "texts ed' = texts ed" by (rule workedD(3) [OF w])
  moreover have "lines ed' \<noteq> []" using workedD(2) [OF w] ed_okD(3) [OF undo_okD(1) [OF ok]] by (auto simp: texts_def)
  ultimately have "ed_ok ed'"
    using undo_okD(1) [OF ok] m(2) i nn av by (simp add: ed_ok_def struct_ok_def ed')
  then show ?thesis using ok \<open>texts ed' = texts ed\<close> by (simp add: undo_ok_def abs_ed_def ed')
qed

lemma restated_goes:
  assumes ok: "undo_ok ed" and r: "restated ed ed'"
  shows "goes ed ed'"
proof -
  have rc: "recached ed ed'" and u: "map unstated (lines ed') = map unstated (lines ed)" using r by (simp_all add: restated_def)
  obtain d g where ed': "ed' = ed\<lparr>doc := d, mode_env := g\<rparr>" using rc by (auto simp: recached_def)
  have "worked 0 ed (ed'\<lparr>frontier := frontier ed'\<rparr>)" by (rule worked_recached(1) [OF rc]) simp
  then have "undo_ok ed'" using worked_undo_ok [OF ok, of 0 ed'] by simp
  moreover have "follows ed ed'" using u by (simp add: follows_def world_def logged_def ed')
  ultimately show ?thesis by (simp add: goes_def)
qed

lemma prev_indent_total:
  assumes "undo_ok ed" "n < length (lines ed)"
  shows "\<exists>i. prev_indent n ed = Some i"
  using assms(2) getLine_lines [OF undo_okD(2) [OF assms(1)], of "int n - 1"] by (auto simp: prev_indent_def)

lemma indent_target_goes:
  assumes ok: "undo_ok ed" and m: "mode ed = sparql_mode u" and n: "n < length (lines ed)"
  shows "\<exists>i e. indent_target n how l ed = Some (i, e) \<and> goes ed e \<and> texts e = texts ed"
proof -
  obtain i where i: "prev_indent n ed = Some i" using prev_indent_total [OF ok n] by blast
  obtain s e where g: "getStateBefore n ed = Some (s, e)"
    using sparql.getStateBefore_total [OF m undo_okD(2) [OF ok], of n] n by auto
  have r: "restated ed e" using getStateBefore_restated [OF g undo_okD(2) [OF ok]] n by simp
  have e: "goes ed e" "texts e = texts ed" "length (lines e) = length (lines ed)"
    using restated_goes [OF ok r] recachedD(2,3) r by (auto simp: restated_def)
  obtain i2 where i2: "prev_indent n e = Some i2"
    using prev_indent_total [of e n] e(1,3) n by (auto simp: goes_def)
  show ?thesis
    using i i2 g e(1,2) goes_refl [OF ok]
    by (cases how) (auto simp: indent_target_def Let_def split: option.splits)
qed

lemma indent_string_line: "no_break (indent_string opts k)"
  by (auto simp: no_break_def indent_string_def Let_def)

lemma indentLine_goes:
  assumes ok: "undo_ok ed" and m: "mode ed = sparql_mode u" and n: "n < length (lines ed)"
  shows "\<exists>e. indentLine n how ed = Some e \<and> goes ed e \<and> length (lines e) = length (lines ed)"
proof -
  let ?l = "lines ed ! n"
  have l: "getLine ed (int n) = Some ?l" using n by (simp add: getLine_lines [OF undo_okD(2) [OF ok]])
  obtain i e1 where t: "indent_target n how ?l ed = Some (i, e1)" "goes ed e1" "texts e1 = texts ed"
    using indent_target_goes [OF ok m n] by blast
  let ?s = "indent_string (options ed) (nat (max 0 i))" and ?cur = "takeWhile re_space (ltext ?l)"
  let ?p = "Pos (int n) 0" and ?q = "Pos (int n) (int (length ?cur))"
  have ok1: "undo_ok e1" using t(2) by (simp add: goes_def)
  have p: "pos_ok (texts e1) ?p" "pos_ok (texts e1) ?q" "?p \<le> ?q"
    using n length_takeWhile_le [of re_space "ltext ?l"] unfolding t(3) by (simp_all add: pos_ok_def texts_def pos_le_iff)
  have cl: "clip_text (texts e1) (pline ?p) (Some (pch ?p)) = ?p" "clip_text (texts e1) (pline ?q) (Some (pch ?q)) = ?q"
    by (rule clip_text_id [OF p(1)], rule clip_text_id [OF p(2)])
  obtain e2 where e2: "replaceRange ?s ?p (Some ?q) e1 = Some (e2, code_end (splitLines ?s) ?p)" "undo_ok e2"
      "texts e2 = text_edit ?p ?q (splitLines ?s) (texts e1)"
    using replaceRange_ok [OF ok1, of ?p ?q ?s] p(3) unfolding cl by blast
  have "goes e1 e2" using replaceRange_goes [OF ok1 p(3), of ?s] e2(1) by auto
  then have g2: "goes ed e2" using goes_trans [OF t(2)] by blast
  have "length (texts e2) = length (texts ed)"
    unfolding e2(3) t(3) splitLines_line [OF indent_string_line] using n
    by (simp add: text_edit_def splice_at_def joined_def texts_def)
  then have "length (lines e2) = length (lines ed)" "length (lines e1) = length (lines ed)"
    using arg_cong [OF t(3), of length] by simp_all
  then show ?thesis using l t(1,2) e2(1) g2 by (simp add: indentLine_def Let_def)
qed

lemma indent_lines_goes:
  "undo_ok ed \<Longrightarrow> mode ed = sparql_mode u \<Longrightarrow> \<forall>n \<in> set ns. n < length (lines ed) \<Longrightarrow> \<exists>e. indent_lines ns how ed = Some e \<and> goes ed e"
proof (induction ns arbitrary: ed)
  case Nil
  then show ?case by (simp add: goes_refl)
next
  case (Cons n ns)
  obtain e1 where e1: "indentLine n how ed = Some e1" "goes ed e1" "length (lines e1) = length (lines ed)"
    using indentLine_goes [OF Cons.prems(1,2), of n how] Cons.prems(3) by auto
  have "undo_ok e1" "mode e1 = sparql_mode u"
    using e1(2) Cons.prems(2) world_simps(1) [OF goes_world [OF e1(2)]] by (simp_all add: goes_def)
  then obtain e where "indent_lines ns how e1 = Some e" "goes e1 e" using Cons.IH [of e1] Cons.prems(3) e1(3) by auto
  then show ?case using e1(1) goes_trans [OF e1(2)] by auto
qed

lemma indentSelected_goes:
  assumes ok: "undo_ok ed" and m: "mode ed = sparql_mode u"
  shows "\<exists>e. indentSelected how ed = Some e \<and> goes ed e"
proof -
  note d = ed_okD [OF undo_okD(1) [OF ok]]
  have f: "nat (pline (sel_from ed)) < length (lines ed)" and t: "nat (pline (sel_to ed)) < length (lines ed)" "0 \<le> pline (sel_to ed)"
    using d(6,7) by (auto simp: pos_ok_def)
  have "\<forall>n \<in> set [nat (pline (sel_from ed)) ..< nat (pline (sel_to ed) - (if pch (sel_to ed) \<noteq> 0 then 0 else 1) + 1)]. n < length (lines ed)"
    using t by auto
  from indent_lines_goes [OF ok m this] indentLine_goes [OF ok m f]
  show ?thesis unfolding indentSelected_def Let_def by (cases "posEq (sel_from ed) (sel_to ed)") auto
qed

lemma api_indentLine_goes:
  assumes ok: "undo_ok ed" and m: "mode ed = sparql_mode u"
  shows "\<exists>e. api_indentLine n dir ed = Some e \<and> goes ed e"
proof (cases "isLine ed n")
  case True
  then have "nat n < length (lines ed)" by (auto simp: isLine_def doc_size_lines [OF undo_okD(2) [OF ok]])
  from indentLine_goes [OF ok m this] True show ?thesis unfolding api_indentLine_def Let_def by auto
qed (use goes_refl [OF ok] in \<open>simp add: api_indentLine_def\<close>)

lemma newlineAndIndent_goes:
  assumes ok: "undo_ok ed" and m: "mode ed = sparql_mode u"
  shows "\<exists>e. newlineAndIndent ed = Some e \<and> goes ed e"
proof -
  obtain e1 where e1: "replaceSelection [CHR 0x0A] CollapseEnd ed = Some e1" "goes ed e1" using replaceSelection_goes [OF ok] by blast
  have "undo_ok e1" "mode e1 = sparql_mode u"
    using e1(2) m world_simps(1) [OF goes_world [OF e1(2)]] by (simp_all add: goes_def)
  from api_indentLine_goes [OF this] goes_trans [OF e1(2)] e1(1) show ?thesis
    unfolding newlineAndIndent_def by fastforce
qed

subsection \<open>The table of commands\<close>

type_synonym sparql_ui = "(sparql_env, sparql_state) ui"

definition ui_ok :: "sparql_ui \<Rightarrow> bool" where
  "ui_ok st \<longleftrightarrow> undo_ok (fst st) \<and> geometry (screen (fst st)) (snd st) \<and> (\<exists>u. mode (fst st) = sparql_mode u) \<and>
     readOnly (options (fst st)) = Editable"

definition ui_goes :: "sparql_ui \<Rightarrow> sparql_ui \<Rightarrow> bool" where
  "ui_goes st st' \<longleftrightarrow> goes (fst st) (fst st') \<and> geometry (screen (fst st)) (snd st')"

lemma ui_goes_refl: "ui_ok st \<Longrightarrow> ui_goes st st"
  by (simp add: ui_ok_def ui_goes_def goes_refl)

lemma ui_goes_ok:
  assumes "ui_ok a" "ui_goes a b"
  shows "ui_ok b"
proof -
  have g: "goes (fst a) (fst b)" using assms(2) by (simp add: ui_goes_def)
  from world_simps(1-3) [OF goes_world [OF g]] show ?thesis using assms g by (simp add: ui_ok_def ui_goes_def goes_def)
qed

lemma ui_goes_trans:
  assumes "ui_goes a b" "ui_goes b c"
  shows "ui_goes a c"
proof -
  have g: "goes (fst a) (fst b)" using assms(1) by (simp add: ui_goes_def)
  then show ?thesis using assms goes_trans world_simps(3) [OF goes_world [OF g]] by (auto simp: ui_goes_def)
qed

definition cmd_ok :: "(sparql_env, sparql_state) command \<Rightarrow> bool" where
  "cmd_ok f \<longleftrightarrow> (\<forall>st. ui_ok st \<longrightarrow> (\<exists>st'. f st = Some st' \<and> ui_goes st st'))"

lemma cmd_ok_on_ed:
  assumes "\<And>ed u. undo_ok ed \<Longrightarrow> mode ed = sparql_mode u \<Longrightarrow> \<exists>e. f ed = Some e \<and> goes ed e"
  shows "cmd_ok (on_ed f)"
  unfolding cmd_ok_def
proof (intro allI impI)
  fix st :: sparql_ui assume a: "ui_ok st"
  then obtain e where "f (fst st) = Some e" "goes (fst st) e" using assms by (auto simp: ui_ok_def)
  with a show "\<exists>st'. on_ed f st = Some st' \<and> ui_goes st st'"
    by (cases st) (simp add: on_ed_def ui_goes_def ui_ok_def)
qed

lemma cmd_ok_moveV: "cmd_ok (moveV ms dir unit)"
  unfolding cmd_ok_def using moveV_goes by (auto simp: ui_ok_def ui_goes_def) blast

lemma plain_commands_ok:
  "cmd_ok (on_ed selectAll)" "cmd_ok (on_ed killLine)" "cmd_ok (on_ed deleteLine)" "cmd_ok (on_ed undo)" "cmd_ok (on_ed redo)"
  "cmd_ok (on_ed (setCursor l c user))" "cmd_ok (on_ed goDocEnd)" "cmd_ok (on_ed goLineStart)" "cmd_ok (on_ed goLineStartSmart)"
  "cmd_ok (on_ed goLineEnd)" "cmd_ok (on_ed transposeChars)" "cmd_ok (on_ed (replaceSelection v cl))"
  "cmd_ok (on_ed (\<lambda>ed. Some (toggleOverwrite ed)))"
  using api_goes [of _ Undo] api_goes [of _ Redo] goes_fields(4) [OF goes_refl]
  by (auto intro!: cmd_ok_on_ed killLine_goes deleteLine_goes goLineStartSmart_goes transposeChars_goes replaceSelection_goes
      simp: selectAll_def goDocEnd_def goLineStart_def goLineEnd_def toggleOverwrite_def api_setSelection_goes setCursor_goes)

lemma motion_commands_ok:
  "cmd_ok (on_ed (moveH 1 unit))" "cmd_ok (on_ed (moveH (- 1) unit))" "cmd_ok (on_ed (deleteH 1 unit))" "cmd_ok (on_ed (deleteH (- 1) unit))"
  by (auto intro!: cmd_ok_on_ed moveH_goes deleteH_goes)

lemma indent_commands_ok:
  "cmd_ok (on_ed (indentSelected how))" "cmd_ok (on_ed defaultTab)" "cmd_ok (on_ed newlineAndIndent)"
  by (auto intro!: cmd_ok_on_ed indentSelected_goes newlineAndIndent_goes simp: defaultTab_def replaceSelection_goes)

lemma commands_ok: "\<forall>c \<in> set (commands ms). cmd_ok (snd c)"
  unfolding commands_def list.set ball_simps snd_conv
  by (intro conjI plain_commands_ok motion_commands_ok indent_commands_ok cmd_ok_moveV TrueI)

subsection \<open>Bound keys\<close>

definition bound_ok :: "(sparql_ui \<Rightarrow> (sparql_ui \<times> bool) option) \<Rightarrow> bool" where
  "bound_ok f \<longleftrightarrow> (\<forall>st. ui_ok st \<longrightarrow> (\<exists>st' passed. f st = Some (st', passed) \<and> ui_goes st st'))"

lemma run_bound_goes:
  assumes st: "ui_ok st" and f: "bound_ok f"
  shows "\<exists>h st'. run_bound dropShift f st = Some (h, st') \<and> ui_goes st st'"
proof -
  obtain ed vw where s: "st = (ed, vw)" by (cases st)
  let ?ed2 = "if dropShift then ed\<lparr>shiftSelecting := None\<rparr> else ed"
  have g1: "ui_goes st (?ed2, vw)" using st goes_fields(3) goes_refl by (auto simp: ui_goes_def ui_ok_def s)
  obtain ed3 vw3 passed where r: "f (?ed2, vw) = Some ((ed3, vw3), passed)" "ui_goes (?ed2, vw) (ed3, vw3)"
    using f ui_goes_ok [OF st g1] unfolding bound_ok_def by fastforce
  have "ui_goes st (ed3, vw3)" by (rule ui_goes_trans [OF g1 r(2)])
  then have "goes (fst st) ed3" "geometry (screen (fst st)) vw3" by (simp_all add: ui_goes_def)
  from goes_fields(6) [OF goes_fields(3) [OF this(1)]] this(2)
  have "ui_goes st (ed3\<lparr>shiftSelecting := shiftSelecting ed, suppressEdits := False\<rparr>, vw3)" by (simp add: ui_goes_def)
  moreover have "readOnly (options ed) = Editable" using st by (simp add: ui_ok_def s)
  ultimately show ?thesis using r(1) by (auto simp: run_bound_def s Let_def)
qed

definition handler_ok :: "(bound \<Rightarrow> sparql_ui \<Rightarrow> (bool \<times> sparql_ui) option) \<Rightarrow> bool" where
  "handler_ok handle \<longleftrightarrow> (\<forall>b st. ui_ok st \<longrightarrow> (\<exists>h st'. handle b st = Some (h, st') \<and> ui_goes st st'))"

lemma doHandleBinding_ok:
  assumes c: "\<forall>c \<in> set cmds. cmd_ok (snd c)" and f: "\<forall>k. bound_ok (funcs k)"
  shows "handler_ok (doHandleBinding cmds funcs dropShift)"
  unfolding handler_ok_def
proof (intro allI impI)
  fix b and st :: sparql_ui assume st: "ui_ok st"
  have cmd: "bound_ok (\<lambda>s. map_option (\<lambda>s1. (s1, False)) (g s))" if "cmd_ok g" for g
    using that unfolding cmd_ok_def bound_ok_def by (metis option.map(2))
  have "cmd_ok g" if "map_of cmds n = Some g" for n g using c map_of_SomeD [OF that] by fastforce
  note run = run_bound_goes [OF st cmd [OF this]] run_bound_goes [OF st f [rule_format]] ui_goes_refl [OF st]
  show "\<exists>h st'. doHandleBinding cmds funcs dropShift b st = Some (h, st') \<and> ui_goes st st'"
  proof (cases b)
    case (Command n)
    then show ?thesis
    proof (cases "map_of cmds n")
      case None
      then have "doHandleBinding cmds funcs dropShift b st = Some (False, st)" by (simp add: doHandleBinding_def Command)
      with run(3) show ?thesis by blast
    next
      case (Some g)
      then have "doHandleBinding cmds funcs dropShift b st = run_bound dropShift (\<lambda>s. map_option (\<lambda>s1. (s1, False)) (g s)) st"
        by (simp add: doHandleBinding_def Command)
      with run(1) [OF Some] show ?thesis by simp
    qed
  next
    case (Func k)
    with run(2) show ?thesis by (simp add: doHandleBinding_def)
  next
    case Off
    then have "doHandleBinding cmds funcs dropShift b st = Some (False, st)" by (simp add: doHandleBinding_def)
    with run(3) show ?thesis by blast
  qed
qed

lemma scan_goes:
  assumes h: "handler_ok handle" and st: "ui_ok st"
  shows "\<exists>ok stopped st'. scan name handle ms st = Some (ok, stopped, st') \<and> ui_goes st st'"
  using st
proof (induction ms arbitrary: st)
  case Nil
  then show ?case using ui_goes_refl by (simp only: scan.simps) blast
next
  case (Cons m ms)
  show ?case
  proof (cases "map_of (bindings m) name")
    case None
    then show ?thesis using Cons.IH [OF Cons.prems] ui_goes_refl [OF Cons.prems] by (auto simp del: split_paired_Ex)
  next
    case (Some b)
    obtain ok st1 where r: "handle b st = Some (ok, st1)" "ui_goes st st1"
      using h Cons.prems unfolding handler_ok_def by blast
    obtain ok2 stopped st2 where r2: "scan name handle ms st1 = Some (ok2, stopped, st2)" "ui_goes st1 st2"
      using Cons.IH [OF ui_goes_ok [OF Cons.prems r(2)]] by blast
    show ?thesis
      using r r2 Some ui_goes_trans [OF r(2) r2(2)] ui_goes_refl [OF Cons.prems] by (cases b) (auto simp del: split_paired_Ex)
  qed
qed

definition keyboard_ok :: "(sparql_env, sparql_state) keyboard \<Rightarrow> bool" where
  "keyboard_ok kb \<longleftrightarrow> chain (kb_fuel kb) (kb_table kb) (kb_map kb) \<noteq> None \<and>
     (case kb_extra kb of None \<Rightarrow> True | Some x \<Rightarrow> chain (kb_fuel kb) (kb_table kb) x \<noteq> None) \<and>
     (\<forall>c \<in> set (kb_commands kb). cmd_ok (snd c)) \<and> (\<forall>k. bound_ok (kb_funcs kb k))"

lemma lookupKey_goes:
  assumes kb: "keyboard_ok kb" and h: "handler_ok handle" and st: "ui_ok st"
  shows "\<exists>ok stopped st'. lookupKey (kb_fuel kb) (kb_table kb) name (kb_extra kb) (kb_map kb) handle st = Some (ok, stopped, st') \<and> ui_goes st st'"
proof -
  obtain ms where ms: "chain (kb_fuel kb) (kb_table kb) (kb_map kb) = Some ms" using kb by (auto simp: keyboard_ok_def)
  obtain xs where xs: "(case kb_extra kb of None \<Rightarrow> Some [] | Some x \<Rightarrow> chain (kb_fuel kb) (kb_table kb) x) = Some xs"
    using kb by (cases "kb_extra kb") (auto simp: keyboard_ok_def)
  show ?thesis unfolding key_lookup [OF ms xs] by (rule scan_goes [OF h st])
qed

lemma keyboard_handler: "keyboard_ok kb \<Longrightarrow> handler_ok (doHandleBinding (kb_commands kb) (kb_funcs kb) dropShift)"
  by (rule doHandleBinding_ok) (simp_all add: keyboard_ok_def)

lemma handleKeyBinding_goes:
  assumes kb: "keyboard_ok kb" and st: "ui_ok st"
  shows "\<exists>h st'. handleKeyBinding (kb_fuel kb) (kb_table kb) (kb_extra kb) (kb_map kb) (kb_commands kb) (kb_funcs kb) flip e st =
      Some (h, st') \<and> ui_goes st st'"
proof (cases "key_name flip e")
  case None
  then have "handleKeyBinding (kb_fuel kb) (kb_table kb) (kb_extra kb) (kb_map kb) (kb_commands kb) (kb_funcs kb) flip e st = Some (False, st)"
    by (simp add: handleKeyBinding_def)
  then show ?thesis using ui_goes_refl [OF st] by blast
next
  case (Some name)
  let ?h = "\<lambda>d. doHandleBinding (kb_commands kb) (kb_funcs kb) d"
  let ?go = "\<lambda>b s. if is_go b then ?h False b s else Some (False, s)"
  have go: "handler_ok ?go"
    using keyboard_handler [OF kb, of False] ui_goes_refl unfolding handler_ok_def by auto
  note find = lookupKey_goes [OF kb]
  obtain h1 s1 st1 where l1: "lookupKey (kb_fuel kb) (kb_table kb) (''Shift-'' @ name) (kb_extra kb) (kb_map kb) (?h True) st = Some (h1, s1, st1)"
      "ui_goes st st1"
    using find [OF keyboard_handler [OF kb] st] by blast
  obtain h2 s2 st2 where l2: "lookupKey (kb_fuel kb) (kb_table kb) name (kb_extra kb) (kb_map kb) ?go st1 = Some (h2, s2, st2)" "ui_goes st1 st2"
    using find [OF go ui_goes_ok [OF st l1(2)]] by blast
  obtain h3 s3 st3 where l3: "lookupKey (kb_fuel kb) (kb_table kb) name (kb_extra kb) (kb_map kb) (?h False) st = Some (h3, s3, st3)" "ui_goes st st3"
    using find [OF keyboard_handler [OF kb] st] by blast
  show ?thesis
    using Some l1 l2 l3 ui_goes_trans [OF l1(2) l2(2)] unfolding handleKeyBinding_def
    by (cases "shiftKey e"; cases h1) simp_all
qed

lemma handleCharBinding_goes:
  assumes "keyboard_ok kb" "ui_ok st"
  shows "\<exists>h st'. handleCharBinding (kb_fuel kb) (kb_table kb) (kb_extra kb) (kb_map kb) (kb_commands kb) (kb_funcs kb) ch st =
      Some (h, st') \<and> ui_goes st st'"
  using lookupKey_goes [OF assms(1) keyboard_handler [OF assms(1)] assms(2), of "[CHR 0x27, ch, CHR 0x27]" True]
  by (auto simp: handleCharBinding_def)

end
