(* ===== verification/CM_Event_Laws.thy ===== *)
theory CM_Event_Laws
  imports CM_Events CM_Command_Laws
begin

section \<open>The handlers of events are steps of the editor\<close>

text \<open>
  Keyboard, mouse and the methods of the instance, inside the operation that \<open>connect\<close> wraps around them: no handler
  makes the editor throw, and each logs what it did to the lines (\<open>advances\<close>).
\<close>

subsection \<open>Steps inside an operation\<close>

definition inside :: "(sparql_env, sparql_state, 'c) session \<Rightarrow> bool" where
  "inside s \<longleftrightarrow> ui_ok (s_ed s, d_view (s_disp s)) \<and> nestedOperation (s_ed s) \<noteq> 0"

lemma insideD:
  assumes "inside s"
  shows "undo_ok (s_ed s)" "geometry (screen (s_ed s)) (d_view (s_disp s))" "readOnly (options (s_ed s)) = Editable"
    "nestedOperation (s_ed s) \<noteq> 0" "\<exists>u. mode (s_ed s) = sparql_mode u" "ui_ok (s_ed s, d_view (s_disp s))"
  using assms by (auto simp: inside_def ui_ok_def)

lemma advances_inside:
  assumes i: "inside s" and a: "advances s s'"
  shows "inside s'"
proof -
  have f: "follows (s_ed s) (s_ed s')" using a by (simp add: advances_def)
  from world_simps [OF follows_world [OF f]] show ?thesis
    using i a by (simp add: inside_def ui_ok_def advances_def)
qed

lemma advances_goes:
  assumes "goes (s_ed s) e" and "geometry (screen (s_ed s)) v"
  shows "advances s (s\<lparr>s_disp := (s_disp s)\<lparr>d_ed := e, d_view := v\<rparr>\<rparr>)"
  using assms by (simp add: advances_def goes_def)

lemma advances_with_ed: "inside s \<Longrightarrow> goes (s_ed s) e \<Longrightarrow> advances s (with_ed e s)"
  using insideD(2) by (simp add: advances_def goes_def with_ed_def)

lemma advances_refl: "inside s \<Longrightarrow> advances s s"
  using insideD(1,2) goes_refl by (fastforce simp: advances_def goes_def)

lemma advances_page:
  assumes "advances s s'"
  shows "advances s (s'\<lparr>poll := p\<rparr>)" "advances s (s'\<lparr>notices := ns\<rparr>)"
  using assms by (simp_all add: advances_def)

text \<open>Flags and fields of the hidden input.\<close>

lemma goes_flags:
  assumes "goes a b"
  shows "goes a (b\<lparr>focused := x\<rparr>)" "goes a (b\<lparr>pollingFast := x\<rparr>)" "goes a (b\<lparr>timers := ts\<rparr>)" "goes a (b\<lparr>input := t\<rparr>)"
    "goes a (b\<lparr>prevInput := t\<rparr>)"
  using assms by (auto simp: goes_def undo_ok_fields quiet_def world_def intro: quiet_after)

lemma onFocus_advances:
  assumes i: "inside s"
  shows "advances s (onFocus s)" "input (s_ed (onFocus s)) = input (s_ed s)" "prevInput (s_ed (onFocus s)) = prevInput (s_ed s)"
    "sel_from (s_ed (onFocus s)) = sel_from (s_ed s)"
proof -
  have "advances s (with_ed ((s_ed s)\<lparr>focused := True\<rparr>) s)"
    by (rule advances_with_ed [OF i goes_flags(1) [OF goes_refl [OF insideD(1) [OF i]]]])
  then show "advances s (onFocus s)"
    using advances_refl [OF i] by (simp add: onFocus_def slowPoll_def notify_page_def advances_def)
qed (simp_all add: onFocus_def slowPoll_def notify_page_def with_ed_def)

lemma readInput_advances:
  assumes i: "inside s" and room: "input_room (s_ed s)"
  shows "\<exists>s1 b. readInput br s = Some (s1, b) \<and> advances s s1"
proof (cases "\<not> focused (s_ed s) \<or> br_hasSelection br \<or> readOnly (options (s_ed s)) \<noteq> Editable \<or> input (s_ed s) = prevInput (s_ed s)")
  case True
  then show ?thesis using advances_refl [OF i] by (auto simp: readInput_def Let_def)
next
  case False
  note ok = insideD(1) [OF i]
  obtain e where e: "apply_input (s_ed s) = Some e" "undo_ok e"
    using apply_input_ok [OF ok _ refl] room by (auto simp: input_room_def)
  have g: "goes (s_ed s) e" using apply_input_follows [OF ok _ e(1)] room e(2) by (simp add: goes_def input_room_def)
  have "nestedOperation e \<noteq> 0" using world_simps(6) [OF goes_world [OF g]] insideD(4) [OF i] by simp
  then have "readInput br s = Some (with_ed e s, True)"
    using False e(1) insideD(4) [OF i] by (simp add: readInput_def Let_def)
  with advances_with_ed [OF i g] show ?thesis by blast
qed

subsection \<open>The keyboard\<close>

lemma lift_ui_advances:
  assumes i: "inside s" and f: "f (s_ed s, d_view (s_disp s)) = Some (h, st)" "ui_goes (s_ed s, d_view (s_disp s)) st"
  shows "\<exists>s1. lift_ui f s = Some (s1, h) \<and> advances s s1"
  using f advances_goes [of s "fst st" "snd st"] by (cases st) (simp add: lift_ui_def ui_goes_def)

lemma setShift_goes:
  assumes "undo_ok ed"
  shows "goes ed (setShift v ed)"
proof -
  have "goes ed (ed\<lparr>shiftSelecting := sh\<rparr>)" for sh by (rule goes_fields(3) [OF goes_refl [OF assms]])
  then show ?thesis unfolding setShift_def by (cases v) (simp_all only: if_True if_False)
qed

lemma onKeyDown_advances:
  assumes i: "inside s" and kb: "keyboard_ok kb" and room: "input_room (s_ed s)"
  shows "\<exists>s'. onKeyDown br kb e s = Some s' \<and> advances s s'"
proof -
  obtain s0 where s0: "s0 = (if focused (s_ed s) then s else onFocus s)" by blast
  have a0: "advances s s0" "input_room (s_ed s0)"
    using onFocus_advances [OF i] advances_refl [OF i] room by (simp_all add: s0 input_room_def)
  have i0: "inside s0" by (rule advances_inside [OF i a0(1)])
  obtain s1 where s1: "(if pollingFast (s_ed s0)
             then map_option (\<lambda>(s1, changed). if changed then with_ed ((s_ed s1)\<lparr>pollingFast := False\<rparr>) s1 else s1) (readInput br s0)
             else Some s0) = Some s1" "advances s0 s1"
  proof (cases "pollingFast (s_ed s0)")
    case True
    obtain s1 b where r: "readInput br s0 = Some (s1, b)" "advances s0 s1" using readInput_advances [OF i0 a0(2)] by blast
    have i1: "inside s1" by (rule advances_inside [OF i0 r(2)])
    have "advances s1 (with_ed ((s_ed s1)\<lparr>pollingFast := False\<rparr>) s1)"
      by (rule advances_with_ed [OF i1 goes_flags(2) [OF goes_refl [OF insideD(1) [OF i1]]]])
    with advances_trans [OF r(2)] have "advances s0 (with_ed ((s_ed s1)\<lparr>pollingFast := False\<rparr>) s1)" by blast
    then show thesis using True r by (intro that [of "if b then with_ed ((s_ed s1)\<lparr>pollingFast := False\<rparr>) s1 else s1"]) auto
  next
    case False
    then show thesis using advances_refl [OF i0] by (intro that) auto
  qed
  have a1: "advances s s1" by (rule advances_trans [OF a0(1) s1(2)])
  have i1: "inside s1" by (rule advances_inside [OF i a1])
  let ?s2 = "with_ed (setShift (keyCode e = 16 \<or> shiftKey e) (s_ed s1)) s1"
  have a2: "advances s ?s2"
    by (rule advances_trans [OF a1 advances_with_ed [OF i1 setShift_goes [OF insideD(1) [OF i1]]]])
  have i2: "inside ?s2" by (rule advances_inside [OF i a2])
  obtain h st where h: "handleKeyBinding (kb_fuel kb) (kb_table kb) (kb_extra kb) (kb_map kb) (kb_commands kb) (kb_funcs kb) False e
      (s_ed ?s2, d_view (s_disp ?s2)) = Some (h, st)" "ui_goes (s_ed ?s2, d_view (s_disp ?s2)) st"
    using handleKeyBinding_goes [OF kb insideD(6) [OF i2]] by blast
  obtain s3 where s3: "lift_ui (handleKeyBinding (kb_fuel kb) (kb_table kb) (kb_extra kb) (kb_map kb) (kb_commands kb) (kb_funcs kb) False e) ?s2
      = Some (s3, h)" "advances ?s2 s3"
    using lift_ui_advances [where f = "handleKeyBinding (kb_fuel kb) (kb_table kb) (kb_extra kb) (kb_map kb) (kb_commands kb) (kb_funcs kb) False e", OF i2 h] by blast
  show ?thesis
    using a1 advances_trans [OF a2 s3(2)] unfolding onKeyDown_def Let_def s0 [symmetric] s1(1) by (simp add: s3(1))
qed

lemma onKeyPress_advances:
  assumes i: "inside s" and kb: "keyboard_ok kb" and room: "input_room (s_ed s)"
  shows "\<exists>s'. onKeyPress br kb ch s = Some s' \<and> advances s s'"
proof -
  obtain s1 where s1: "(if pollingFast (s_ed s) then map_option fst (readInput br s) else Some s) = Some s1" "advances s s1"
    using readInput_advances [OF i room, of br] advances_refl [OF i] by (cases "pollingFast (s_ed s)") auto
  have i1: "inside s1" by (rule advances_inside [OF i s1(2)])
  obtain s2 where s2: "s2 = (if electricChars (options (s_ed s1)) \<and> smartIndent (options (s_ed s1)) \<and> readOnly (options (s_ed s1)) = Editable \<and>
      (case m_electric (mode (s_ed s1)) of None \<Rightarrow> False | Some cs \<Rightarrow> ch \<in> set cs)
      then with_ed ((s_ed s1)\<lparr>timers := timers (s_ed s1) @ [ElectricIndent]\<rparr>) s1 else s1)" by blast
  have "advances s1 s2"
    using advances_with_ed [OF i1 goes_flags(3) [OF goes_refl [OF insideD(1) [OF i1]]]] advances_refl [OF i1] by (simp add: s2)
  then have a2: "advances s s2" by (rule advances_trans [OF s1(2)])
  have i2: "inside s2" by (rule advances_inside [OF i a2])
  obtain h st where h: "handleCharBinding (kb_fuel kb) (kb_table kb) (kb_extra kb) (kb_map kb) (kb_commands kb) (kb_funcs kb) ch
      (s_ed s2, d_view (s_disp s2)) = Some (h, st)" "ui_goes (s_ed s2, d_view (s_disp s2)) st"
    using handleCharBinding_goes [OF kb insideD(6) [OF i2]] by blast
  obtain s3 where s3: "lift_ui (handleCharBinding (kb_fuel kb) (kb_table kb) (kb_extra kb) (kb_map kb) (kb_commands kb) (kb_funcs kb) ch) s2
      = Some (s3, h)" "advances s2 s3"
    using lift_ui_advances [where f = "handleCharBinding (kb_fuel kb) (kb_table kb) (kb_extra kb) (kb_map kb) (kb_commands kb) (kb_funcs kb) ch", OF i2 h] by blast
  have a3: "advances s s3" by (rule advances_trans [OF a2 s3(2)])
  have i3: "inside s3" by (rule advances_inside [OF i a3])
  have "advances s3 (with_ed ((s_ed s3)\<lparr>pollingFast := True\<rparr>) s3)"
    by (rule advances_with_ed [OF i3 goes_flags(2) [OF goes_refl [OF insideD(1) [OF i3]]]])
  then have "advances s (fastPoll s3)"
    unfolding fastPoll_def by (intro advances_page(1)) (rule advances_trans [OF a3])
  then show ?thesis using a3 s1 s3(1) unfolding onKeyPress_def Let_def s1(1) by (simp add: s2 [symmetric])
qed

lemma onKeyUp_advances:
  assumes i: "inside s"
  shows "advances s (onKeyUp kb e s)"
proof -
  have "advances s (with_ed ((s_ed s)\<lparr>shiftSelecting := None\<rparr>) s)"
    by (rule advances_with_ed [OF i goes_fields(3) [OF goes_refl [OF insideD(1) [OF i]]]])
  then show ?thesis using advances_refl [OF i] by (simp add: onKeyUp_def)
qed

subsection \<open>The mouse\<close>

text \<open>When the search says that it found the place behind a character, there is a character in front of it.\<close>

lemma bin_search_after:
  "from < to \<Longrightarrow> bin_search gx x from fromX to toX = (ch, False) \<Longrightarrow> from < ch"
proof (induction gx x "from" fromX to toX rule: bin_search.induct)
  case (1 gx x "from" fromX to toX)
  show ?case
  proof (cases "to - from \<le> 1")
    case True
    with 1(3,4) show ?thesis by (simp add: bin_search.simps [of gx x "from"] Let_def split: if_splits)
  next
    case False
    let ?m = "(from + to + 1) div 2"
    obtain mx w where m: "gx ?m = (mx, w)" by fastforce
    have b: "from < ?m" "?m < to" using False by auto
    note IH1 = 1(1) [OF False refl m [symmetric] refl] and IH2 = 1(2) [OF False refl m [symmetric] refl]
    show ?thesis
    proof (cases "x < mx")
      case True
      have "bin_search gx x from fromX ?m (if w then mx + 1000 else mx) = (ch, False)"
        using 1(4) False m True by (simp add: bin_search.simps [of gx x "from" fromX to] Let_def)
      with IH1 True b show ?thesis by simp
    next
      case gr: False
      have "bin_search gx x ?m mx to toX = (ch, False)"
        using 1(4) False m gr by (simp add: bin_search.simps [of gx x "from" fromX to] Let_def)
      with IH2 gr b show ?thesis by simp
    qed
  qed
qed

lemma find_char_after:
  assumes e: "1 \<le> e \<and> e \<le> len \<or> e \<le> 0 \<and> x < 0 \<and> (\<forall>k. 0 \<le> fst (gx k))" and run: "find_char gx x len e = Some (ch, Some False)"
  shows "0 < ch"
  using e
proof (elim disjE conjE)
  assume a: "1 \<le> e" "e \<le> len"
  then obtain u where u: "upper_bound (nat len) (\<lambda>k. fst (gx k)) x len e = Some (u, fst (gx u))" "e \<le> u"
    using upper_bound_total [of e len "nat len" "\<lambda>k. fst (gx k)" x] by auto
  let ?est = "\<lfloor>(of_int u * 4 / 5 :: rat)\<rfloor>"
  have est: "0 \<le> ?est" "?est < u" using shrink_guess [of u] a u(2) by (auto simp: floor_less_iff)
  obtain fr frX where fr: "(if fst (gx ?est) < x then (?est, fst (gx ?est)) else (0, 0)) = (fr, frX)" by fastforce
  then have b: "0 \<le> fr" "fr < u" using est a(1) u(2) by (auto split: if_splits)
  have "bin_search gx x fr frX u (fst (gx u)) = (ch, False)"
    using run u(1) fr by (auto simp: find_char_def Let_def split: if_splits prod.splits)
  from bin_search_after [OF b(2) this] b(1) show ?thesis by simp
next
  assume a: "e \<le> 0" "x < 0" "\<forall>k. 0 \<le> fst (gx k)"
  then have g: "\<not> fst (gx k) \<le> x" "\<not> fst (gx k) < x" "x < fst (gx k) - x" for k by (smt (verit))+
  have u: "upper_bound (nat len) (\<lambda>k. fst (gx k)) x len e = Some (e, fst (gx e))"
    using g(1) by (subst upper_bound.simps) (simp add: Let_def)
  have "\<not> x > fst (gx e)" using g(1) [of e] by linarith
  then have "find_char gx x len e = Some (0, Some True)"
    using a(1) g by (simp add: find_char_def u Let_def bin_search.simps [of gx x 0 0 e])
  with run show ?thesis by simp
qed

lemma coordsChar_after:
  assumes ok: "ed_ok ed" and sc: "0 < clientWidth (screen ed)" "0 < charWidth (screen ed)"
    and run: "coordsChar ms ed x y = Some (p, Some False)" and t: "texts ed ! nat (pline p) \<noteq> []"
  shows "0 < pch p"
proof -
  let ?h = "displayOffset ed + y div textHeight (screen ed)"
  let ?n = "lineAtHeight (doc ed) ?h"
  note d = ed_okD [OF ok]
  have non: "nonneg (lines ed)" using d(1) by (simp add: struct_ok_def)
  have in1: "0 \<le> ?h" "int ?n < doc_size ed" using run by (auto simp: coordsChar_def Let_def bind_eq_Some_conv split: if_splits)
  note l = line_at_point [OF d(2) non in1]
  let ?l = "lines ed ! ?n"
  obtain inner guess where ig: "inner = (if lineWrapping (options ed) then ?h - heightAtLine (doc ed) ?n else 0)"
      "guess = \<lceil>(of_int x + of_int (inner * int (clientWidth (screen ed))) * 9 / 10) / (of_int (int (charWidth (screen ed))) :: rat)\<rceil>" by blast
  have out: "\<not> (x \<le> 0 \<and> inner = 0)" and f: "find_char (getX ms ed ?l inner) x (int (length (ltext ?l))) (min (int (length (ltext ?l))) guess)
      = Some (pch p, Some False)" and pl: "pline p = int ?n"
  proof -
    show out: "\<not> (x \<le> 0 \<and> inner = 0)"
    proof
      assume "x \<le> 0 \<and> inner = 0"
      then have "coordsChar ms ed x y = Some (Pos (int ?n) 0, None)"
        using in1 l(2) unfolding ig coordsChar_def Let_def by (cases "lineWrapping (options ed)") auto
      with run show False by simp
    qed
    have "do { (ch, after) \<leftarrow> find_char (getX ms ed ?l inner) x (int (length (ltext ?l))) (min (int (length (ltext ?l))) guess);
         Some (Pos (int ?n) ch, after) } = Some (p, Some False)"
      using run in1 l(2) out unfolding ig coordsChar_def Let_def by (cases "lineWrapping (options ed)") auto
    then show "pline p = int ?n"
      "find_char (getX ms ed ?l inner) x (int (length (ltext ?l))) (min (int (length (ltext ?l))) guess) = Some (pch p, Some False)"
      by (auto simp: bind_eq_Some_conv split: if_splits)
  qed
  have len: "1 \<le> int (length (ltext ?l))" using t l(1) pl by (cases "ltext ?l") (simp_all add: texts_def)
  show ?thesis
  proof (rule find_char_after [OF _ f], cases "0 < guess")
    case False
    have "0 \<le> inner" using l(3) ig(1) by simp
    from guess_positive [OF out this, of "int (clientWidth (screen ed))" "int (charWidth (screen ed))"] have x: "x < 0"
      using False sc ig(2) by force
    then have "lineWrapping (options ed)" using out ig(1) by (cases "lineWrapping (options ed)") auto
    then show "1 \<le> min (int (length (ltext ?l))) guess \<and> min (int (length (ltext ?l))) guess \<le> int (length (ltext ?l)) \<or>
        min (int (length (ltext ?l))) guess \<le> 0 \<and> x < 0 \<and> (\<forall>k. 0 \<le> fst (getX ms ed ?l inner k))"
      using False x by (simp add: getX_wrapped)
  qed (use len in auto)
qed

text \<open>A position that the mouse hit.\<close>

definition hit_ok :: "jstring list \<Rightarrow> pos \<times> bool option \<Rightarrow> bool" where
  "hit_ok d c \<longleftrightarrow> pos_ok d (fst c) \<and> (snd c = Some False \<longrightarrow> d ! nat (pline (fst c)) \<noteq> [] \<longrightarrow> 0 < pch (fst c))"

lemma posFromMouse_ok:
  assumes "undo_ok ed" "geometry (screen ed) vw"
  shows "\<exists>h. posFromMouse ms liberal e ed = Some h \<and> (\<forall>c. h = Some c \<longrightarrow> hit_ok (texts ed) c)"
proof -
  note ok = undo_okD(1) [OF assms(1)]
  have sc: "0 < clientWidth (screen ed)" "0 < charWidth (screen ed)" using assms(2) by (simp_all add: geometry_def)
  obtain p after where c: "coordsChar ms ed (m_left e) (m_top e) = Some (p, after)" "pos_ok (texts ed) p"
    using coordsChar_ok [OF ok sc] by blast
  have "hit_ok (texts ed) (p, after)"
    using c coordsChar_after [OF ok sc, of ms "m_left e" "m_top e" p] by (auto simp: hit_ok_def)
  with c(1) show ?thesis by (simp add: posFromMouse_def)
qed

lemma word_start_le: "word_start check line k \<le> k"
  by (induction k) (auto intro: le_SucI)

lemma word_end_le: "e \<le> length line \<Longrightarrow> word_end check line e \<le> length line"
  using length_takeWhile_le [of check "drop e line"] by (auto simp: word_end_def)

lemma findWordAt_ok:
  assumes ok: "undo_ok ed" and c: "hit_ok (texts ed) (p, after)"
  shows "\<exists>a b. findWordAt p after ed = Some (a, b) \<and> pos_ok (texts ed) a \<and> pos_ok (texts ed) b"
proof -
  let ?t = "texts ed ! nat (pline p)"
  have p: "pos_ok (texts ed) p" using c by (simp add: hit_ok_def)
  note l = line_text_cursor [OF ok p]
  show ?thesis
  proof (cases "?t = []")
    case True
    then show ?thesis using l(1) p by (simp add: findWordAt_def)
  next
    case False
    obtain s e where se: "(if after = Some False \<or> pch p = int (length ?t) then (pch p - 1, pch p) else (pch p, pch p + 1)) = (s, e)"
      by fastforce
    have b: "0 \<le> s" "s \<le> int (length ?t)" "0 \<le> e" "e \<le> int (length ?t)"
      using se l(2,3) c False by (auto simp: hit_ok_def split: if_splits)
    obtain check where check_def: "check = (case charAt ?t s of Some c \<Rightarrow> char_class c | None \<Rightarrow> (\<lambda>d. \<not> re_space d \<and> \<not> isWordChar d))" by blast
    have "findWordAt p after ed = Some (Pos (pline p) (if s > 0 then int (word_start check ?t (nat s)) else s),
        Pos (pline p) (int (word_end check ?t (nat e))))"
      using l(1) False se by (simp add: findWordAt_def Let_def check_def)
    moreover have "pos_ok (texts ed) (Pos (pline p) (if s > 0 then int (word_start check ?t (nat s)) else s))"
      using p b word_start_le [of check ?t "nat s"] by (auto simp: pos_ok_def)
    moreover have "pos_ok (texts ed) (Pos (pline p) (int (word_end check ?t (nat e))))"
      using p b word_end_le [of "nat e" ?t check] by (auto simp: pos_ok_def)
    ultimately show ?thesis by blast
  qed
qed

text \<open>What a click selects, what a drag selects.\<close>

lemma line_below:
  assumes "undo_ok ed" "pos_ok (texts ed) p"
  shows "pos_ok (texts ed) (Pos (pline p) 0)"
  using assms(2) by (simp add: pos_ok_def)

lemma click_select_goes:
  assumes ok: "undo_ok ed" and c: "hit_ok (texts ed) (p, after)"
  shows "\<exists>kind ck1 e. click_select now (p, after) ck ed = Some (kind, ck1, e) \<and> goes ed e"
proof -
  have p: "pos_ok (texts ed) p" using c by (simp add: hit_ok_def)
  obtain q where q: "clipPos ed (pline p + 1) (Some 0) = Some q" "pos_ok (texts ed) q" using clip_ok [OF ok] by blast
  obtain e1 where e1: "setSelectionUser (Pos (pline p) 0) q ed = Some e1" "goes ed e1"
    using setSelectionUser_goes [OF ok line_below [OF ok p] q(2)] by blast
  obtain a b where ab: "findWordAt p after ed = Some (a, b)" "pos_ok (texts ed) a" "pos_ok (texts ed) b"
    using findWordAt_ok [OF ok c] by blast
  obtain e2 where e2: "setSelectionUser a b ed = Some e2" "goes ed e2" using setSelectionUser_goes [OF ok ab(2,3)] by blast
  consider (triple) "recent now p (lastDoubleClick ck)" | (double) "\<not> recent now p (lastDoubleClick ck)" "recent now p (lastClick ck)"
    | (single) "\<not> recent now p (lastDoubleClick ck)" "\<not> recent now p (lastClick ck)" by blast
  then show ?thesis
  proof cases
    case triple
    then show ?thesis using e1 q(1) by (simp add: click_select_def selectLine_def)
  next
    case double
    then show ?thesis using e2 ab(1) by (simp add: click_select_def)
  next
    case single
    then show ?thesis using goes_refl [OF ok] by (simp add: click_select_def)
  qed
qed

lemma doSelect_goes:
  assumes ok: "undo_ok ed" and c: "hit_ok (texts ed) (p, after)"
    and d: "pos_ok (texts ed) (dr_start dr)" "pos_ok (texts ed) (startstart dr)" "pos_ok (texts ed) (startend dr)"
  shows "\<exists>e. doSelect dr (p, after) ed = Some e \<and> goes ed e"
proof -
  have p: "pos_ok (texts ed) p" using c by (simp add: hit_ok_def)
  have cl: "\<exists>r. clip ed q = Some r \<and> pos_ok (texts ed) r" for q using clip_ok [OF ok, of "pline q" "Some (pch q)"] by simp
  obtain a b where ab: "findWordAt p after ed = Some (a, b)" "pos_ok (texts ed) a" "pos_ok (texts ed) b"
    using findWordAt_ok [OF ok c] by blast
  obtain q r where q: "clip ed (Pos (pline p) 0) = Some q" "pos_ok (texts ed) q" "clip ed (Pos (pline p + 1) 0) = Some r" "pos_ok (texts ed) r"
    using cl by metis
  note sel = setSelectionUser_goes [OF ok]
  show ?thesis
    using sel [OF d(1) p] sel [OF ab(2) d(3)] sel [OF d(2) ab(3)] sel [OF d(3) q(2)] sel [OF d(2) q(4)] ab(1) q(1,3)
    by (cases "dr_type dr"; cases "posLess p (startstart dr)") (simp_all add: doSelect_def)
qed

lemma focus_advances:
  assumes i: "inside s"
  shows "advances s (if focused (s_ed s) then s else onFocus s)" "texts (s_ed (if focused (s_ed s) then s else onFocus s)) = texts (s_ed s)"
  using onFocus_advances(1) [OF i] advances_refl [OF i]
  by (simp_all add: onFocus_def slowPoll_def notify_page_def with_ed_def texts_def)

lemma onMouseDown_advances:
  assumes i: "inside s"
  shows "\<exists>s' r. onMouseDown ms dd e ck s = Some (s', r) \<and> advances s s'"
proof -
  obtain s1 where s1: "s1 = with_ed (setShift (m_shift e) (s_ed s)) s" by blast
  have a1: "advances s s1" unfolding s1 by (rule advances_with_ed [OF i setShift_goes [OF insideD(1) [OF i]]])
  have i1: "inside s1" by (rule advances_inside [OF i a1])
  obtain hit where h: "posFromMouse ms False e (s_ed s1) = Some hit" "\<forall>c. hit = Some c \<longrightarrow> hit_ok (texts (s_ed s1)) c"
    using posFromMouse_ok [OF insideD(1,2) [OF i1]] by blast
  note run = onMouseDown_def Let_def s1 [symmetric] h(1) Option.bind.simps
  consider (away) "m_target e = InWidget \<or> (\<exists>k. m_target e = InGutter k) \<or> m_button e = 3 \<or> hit = None"
    | (hit) p after where "hit = Some (p, after)" "m_target e = InText \<or> m_target e = InScroller" "m_button e \<noteq> 3"
    by (cases hit; cases "m_target e") auto
  then show ?thesis
  proof cases
    case away
    have "\<exists>r. onMouseDown ms dd e ck s = Some (s1, r)" unfolding run using away by (auto split: target.split option.split)
    then show ?thesis using a1 by blast
  next
    case hit
    have hp: "hit_ok (texts (s_ed s1)) (p, after)" using h(2) hit(1) by blast
    show ?thesis
    proof (cases "m_button e = 2")
      case True
      obtain e1 where e1: "setCursor (pline p) (Some (pch p)) True (s_ed s1) = Some e1" "goes (s_ed s1) e1"
        using setCursor_goes [OF insideD(1) [OF i1]] by blast
      have "\<exists>r. onMouseDown ms dd e ck s = Some (with_ed e1 s1, r)"
        unfolding run using hit True e1(1) by (auto simp: lift_ed_def)
      then show ?thesis using advances_trans [OF a1 advances_with_ed [OF i1 e1(2)]] by blast
    next
      case False
      obtain s2 where s2: "s2 = (if focused (s_ed s1) then s1 else onFocus s1)" by blast
      have a2: "advances s s2" "texts (s_ed s2) = texts (s_ed s1)"
        using focus_advances [OF i1] advances_trans [OF a1] by (simp_all add: s2)
      have i2: "inside s2" by (rule advances_inside [OF i a2(1)])
      obtain kind ck1 ed1 where c: "click_select (m_time e) (p, after) ck (s_ed s2) = Some (kind, ck1, ed1)" "goes (s_ed s2) ed1"
        using click_select_goes [OF insideD(1) [OF i2]] hp unfolding a2(2) [symmetric] by blast
      have a3: "advances s (with_ed ed1 s2)" by (rule advances_trans [OF a2(1) advances_with_ed [OF i2 c(2)]])
      have u1: "undo_ok ed1" using c(2) by (simp add: goes_def)
      then obtain ed2 where d: "(if kind = Single then setCursor (pline p) (Some (pch p)) True ed1 else Some ed1) = Some ed2" "goes ed1 ed2"
        using setCursor_goes [OF u1, of "pline p" "Some (pch p)" True] goes_refl [OF u1] by (cases "kind = Single") auto
      have a4: "advances s (with_ed ed2 (with_ed ed1 s2))"
        using advances_trans [OF a2(1) advances_with_ed [OF i2 goes_trans [OF c(2) d(2)]]] by (simp add: with_ed_def)
      have "\<exists>s' r. onMouseDown ms dd e ck s = Some (s', r) \<and> (s' = with_ed ed1 s2 \<or> s' = with_ed ed2 (with_ed ed1 s2))"
        unfolding run using hit False
        by (elim disjE) (simp_all add: s2 [symmetric] c(1) d(1) del: split_paired_Ex)
      then show ?thesis using a3 a4 by blast
    qed
  qed
qed

lemma drag_positions:
  assumes "undo_ok ed" "drag_in_text ed (Selecting dr)"
  shows "pos_ok (texts ed) (dr_start dr)" "pos_ok (texts ed) (startstart dr)" "pos_ok (texts ed) (startend dr)"
proof -
  have "pos_ok (texts ed) q" if "in_text ed q" for q
  proof -
    have "clip ed q = Some q" using that by (simp add: in_text_def)
    then show ?thesis using clip_ok [OF assms(1), of "pline q" "Some (pch q)"] by simp
  qed
  then show "pos_ok (texts ed) (dr_start dr)" "pos_ok (texts ed) (startstart dr)" "pos_ok (texts ed) (startend dr)"
    using assms(2) by (simp_all add: drag_in_text_def)
qed

lemma extend_drag_advances:
  assumes i: "inside s" and dr: "drag_in_text (s_ed s) (Selecting dr)"
  shows "\<exists>s' dr' again. extend_drag ms e dr s = Some (s', dr', again) \<and> advances s s'"
proof -
  obtain hit where h: "posFromMouse ms True e (s_ed s) = Some hit" "\<forall>c. hit = Some c \<longrightarrow> hit_ok (texts (s_ed s)) c"
    using posFromMouse_ok [OF insideD(1,2) [OF i]] by blast
  consider (none) "hit = None" | (same) p after where "hit = Some (p, after)" "posEq p (dr_last dr)"
    | (move) p after where "hit = Some (p, after)" "\<not> posEq p (dr_last dr)" by (cases hit) auto
  then show ?thesis
  proof cases
    case move
    have hp: "hit_ok (texts (s_ed s)) (p, after)" using h(2) move(1) by blast
    obtain s1 where s1: "s1 = (if focused (s_ed s) then s else onFocus s)" by blast
    have a1: "advances s s1" "texts (s_ed s1) = texts (s_ed s)" using focus_advances [OF i] by (simp_all add: s1)
    have i1: "inside s1" by (rule advances_inside [OF i a1(1)])
    note d = drag_positions [OF insideD(1) [OF i] dr]
    obtain ed1 where e: "doSelect dr (p, after) (s_ed s1) = Some ed1" "goes (s_ed s1) ed1"
      using doSelect_goes [OF insideD(1) [OF i1]] hp d unfolding a1(2) [symmetric] by blast
    have "advances s (with_ed (ed1\<lparr>updateInput := Some False\<rparr>) s1)"
      by (rule advances_trans [OF a1(1) advances_with_ed [OF i1 goes_fields(5) [OF e(2)]]])
    moreover have "\<exists>dr' again. extend_drag ms e dr s = Some (with_ed (ed1\<lparr>updateInput := Some False\<rparr>) s1, dr', again)"
      using move h(1) e(1) by (auto simp: extend_drag_def Let_def s1 [symmetric] split: prod.split)
    ultimately show ?thesis by blast
  next
    case none
    then have "extend_drag ms e dr s = Some (s, dr, False)" using h(1) by (simp add: extend_drag_def)
    then show ?thesis using advances_refl [OF i] by blast
  next
    case same
    then have "extend_drag ms e dr s = Some (s, dr, False)" using h(1) by (simp add: extend_drag_def)
    then show ?thesis using advances_refl [OF i] by blast
  qed
qed

lemma end_drag_goes:
  assumes i: "inside s" and dr: "drag_in_text (s_ed s) (Selecting dr)"
  shows "\<exists>ed. end_drag ms e dr (s_ed s) = Some ed \<and> goes (s_ed s) ed"
proof -
  obtain hit where h: "posFromMouse ms False e (s_ed s) = Some hit" "\<forall>c. hit = Some c \<longrightarrow> hit_ok (texts (s_ed s)) c"
    using posFromMouse_ok [OF insideD(1,2) [OF i]] by blast
  note d = drag_positions [OF insideD(1) [OF i] dr]
  obtain ed1 where "(case hit of None \<Rightarrow> Some (s_ed s) | Some c \<Rightarrow> doSelect dr c (s_ed s)) = Some ed1" "goes (s_ed s) ed1"
  proof (cases hit)
    case None
    then show thesis using that goes_refl [OF insideD(1) [OF i]] by simp
  next
    case (Some c)
    then show thesis using that doSelect_goes [OF insideD(1) [OF i], of "fst c" "snd c"] h(2) d by auto
  qed
  then show ?thesis using h(1) goes_fields(5) by (simp add: end_drag_def)
qed

lemma focusInput_advances:
  assumes i: "inside s" and a: "advances s s1"
  shows "advances s (focusInput s1)"
proof -
  have "advances s1 (onFocus s1)" by (rule onFocus_advances(1) [OF advances_inside [OF i a]])
  with advances_trans [OF a] a show ?thesis by (simp add: focusInput_def)
qed

lemma dragEnd_advances:
  assumes i: "inside s"
  shows "\<exists>s' ck'. dragEnd e e2 p ck s = Some (s', ck') \<and> advances s s'"
proof -
  obtain ed where ed: "setCursor (pline p) (Some (pch p)) True (s_ed s) = Some ed" "goes (s_ed s) ed"
    using setCursor_goes [OF insideD(1) [OF i]] by blast
  show ?thesis
    using ed(1) focusInput_advances [OF i advances_with_ed [OF i ed(2)]] advances_refl [OF i]
    by (simp add: dragEnd_def lift_ed_def)
qed

text \<open>A compound change is a change.\<close>

lemma undo_ok_compound:
  "undo_ok (ed\<lparr>history := map_option startCompound (history ed)\<rparr>) = undo_ok ed"
  "undo_ok (ed\<lparr>history := map_option endCompound (history ed)\<rparr>) = undo_ok ed"
  by (cases "history ed"; simp add: undo_ok_def ed_ok_def struct_ok_def known_def texts_def all_visible_def abs_ed_def hist_ok_def
      all_done_def map_history_def startCompound_def endCompound_def)+

lemma goes_compound:
  assumes "goes a b"
  shows "goes a (b\<lparr>history := map_option startCompound (history b)\<rparr>)" "goes a (b\<lparr>history := map_option endCompound (history b)\<rparr>)"
  using assms by (auto simp: goes_def undo_ok_compound quiet_def world_def intro: quiet_after)

lemma compoundChange_goes:
  assumes ok: "undo_ok ed" and f: "\<And>e. undo_ok e \<Longrightarrow> texts e = texts ed \<Longrightarrow> \<exists>e1. f e = Some e1 \<and> goes e e1"
  shows "\<exists>e. compoundChange f ed = Some e \<and> goes ed e"
proof -
  let ?e = "ed\<lparr>history := map_option startCompound (history ed)\<rparr>"
  have g: "goes ed ?e" by (rule goes_compound(1) [OF goes_refl [OF ok]])
  have "undo_ok ?e" "texts ?e = texts ed" using g by (simp_all add: goes_def texts_def)
  then obtain e1 where "f ?e = Some e1" "goes ?e e1" using f by blast
  with goes_compound(2) [OF goes_trans [OF g this(2)]] show ?thesis by (simp add: compoundChange_def)
qed

lemma drop_change_goes:
  assumes ok: "undo_ok ed" and p: "pos_ok (texts ed) p"
  shows "\<exists>e. drop_change p dragging t ed = Some e \<and> goes ed e"
proof -
  obtain e1 where e1: "setSelectionUser p p ed = Some e1" "goes ed e1" using setSelectionUser_goes [OF ok p p] by blast
  have ok1: "undo_ok e1" using e1(2) by (simp add: goes_def)
  obtain e2 where e2: "(if dragging then map_option fst (replaceRange [] (sel_from ed) (Some (sel_to ed)) e1) else Some e1) = Some e2"
      "goes e1 e2"
    using replaceRange_goes [OF ok1 ed_okD(8) [OF undo_okD(1) [OF ok]], of "[]"] goes_refl [OF ok1] by (cases dragging) auto
  have "undo_ok e2" using e2(2) by (simp add: goes_def)
  then obtain e3 where e3: "replaceSelection t NoCollapse e2 = Some e3" "goes e2 e3" using replaceSelection_goes by blast
  have "goes ed e3" by (rule goes_trans [OF goes_trans [OF e1(2) e2(2)] e3(2)])
  then show ?thesis using e1(1) e2(1) e3(1) by (simp add: drop_change_def Let_def)
qed

lemma onDrop_advances:
  assumes i: "inside s"
  shows "\<exists>s'. onDrop ms e t ck s = Some s' \<and> advances s s'"
proof -
  obtain hit where h: "posFromMouse ms True e (s_ed s) = Some hit" "\<forall>c. hit = Some c \<longrightarrow> hit_ok (texts (s_ed s)) c"
    using posFromMouse_ok [OF insideD(1,2) [OF i]] by blast
  show ?thesis
  proof (cases hit)
    case None
    then have "onDrop ms e t ck s = Some s" by (simp add: onDrop_def Let_def h(1))
    then show ?thesis using advances_refl [OF i] by blast
  next
    case (Some c)
    obtain p after where c: "c = (p, after)" by (cases c)
    have p: "pos_ok (texts (s_ed s)) p" using h(2) Some by (simp add: hit_ok_def c)
    obtain ed where ed: "compoundChange (drop_change p (draggingText ck) t) (s_ed s) = Some ed" "goes (s_ed s) ed"
      using compoundChange_goes [OF insideD(1) [OF i], of "drop_change p (draggingText ck) t"] drop_change_goes p by metis
    have "onDrop ms e t ck s = Some s \<or> onDrop ms e t ck s = Some (focusInput (with_ed ed s))"
      by (simp add: onDrop_def Let_def h(1) Some c lift_ed_def ed(1))
    then show ?thesis using advances_refl [OF i] focusInput_advances [OF i advances_with_ed [OF i ed(2)]] by blast
  qed
qed

lemma onCut_advances:
  assumes i: "inside s"
  shows "\<exists>s'. onCut s = Some s' \<and> advances s s'"
proof -
  obtain ed where "replaceSelection [] NoCollapse (s_ed s) = Some ed" "goes (s_ed s) ed" using replaceSelection_goes [OF insideD(1) [OF i]] by blast
  then show ?thesis using insideD(3) [OF i] advances_with_ed [OF i] by (simp add: onCut_def lift_ed_def)
qed

subsection \<open>The methods of the instance\<close>

fun method_ok :: "motion \<Rightarrow> bool" where
  "method_ok (MoveH dir unit) = one_step dir"
| "method_ok (DeleteH dir unit) = one_step dir"
| "method_ok _ = True"

lemma run_method_goes:
  assumes st: "ui_ok st" and m: "method_ok m"
  shows "\<exists>st'. run_method br m st = Some st' \<and> ui_goes st st'"
proof -
  have "cmd_ok (run_method br m)"
  proof (cases m)
    case (MoveH dir unit)
    then have "run_method br m = (on_ed (moveH dir unit) :: sparql_ui \<Rightarrow> sparql_ui option)" "one_step dir" using m by auto
    with motion_commands_ok(1,2) [of unit] show ?thesis by (auto simp: one_step_def)
  next
    case (DeleteH dir unit)
    then have "run_method br m = (on_ed (deleteH dir unit) :: sparql_ui \<Rightarrow> sparql_ui option)" "one_step dir" using m by auto
    with motion_commands_ok(3,4) [of unit] show ?thesis by (auto simp: one_step_def)
  next
    case (MoveV dir unit)
    then have "run_method br m = (moveV (br_measure br) dir unit :: sparql_ui \<Rightarrow> sparql_ui option)" by auto
    with cmd_ok_moveV show ?thesis by simp
  next
    case (IndentSelection how)
    then have "run_method br m = (on_ed (indentSelected how) :: sparql_ui \<Rightarrow> sparql_ui option)" by auto
    with indent_commands_ok(1) show ?thesis by simp
  qed
  with st show ?thesis unfolding cmd_ok_def by blast
qed

lemma call_method_advances:
  assumes i: "inside s" and m: "method_ok m"
  shows "\<exists>s'. call_method br m s = Some s' \<and> advances s s'"
proof -
  obtain st where st: "run_method br m (s_ed s, d_view (s_disp s)) = Some st" "ui_goes (s_ed s, d_view (s_disp s)) st"
    using run_method_goes [OF insideD(6) [OF i] m] by blast
  have "map_option (Pair True) (run_method br m (s_ed s, d_view (s_disp s))) = Some (True, st)" by (simp add: st(1))
  from lift_ui_advances [where f = "\<lambda>st. map_option (Pair True) (run_method br m st)", OF i this st(2)]
  show ?thesis by (auto simp: call_method_def)
qed

end
