(* ===== verification/CM_Page_Laws.thy ===== *)
theory CM_Page_Laws
  imports CM_Event_Laws
begin

section \<open>After every event the screen shows the document\<close>

text \<open>
  Keyboard, mouse, timers, the hidden input, scrolling, the context menu and the calls of the instance: no event makes
  the editor throw, and each leaves the editor well formed and on the screen one row for each line of the window.
\<close>

subsection \<open>Sessions between events\<close>

definition live :: "(sparql_state, 'c) browser \<Rightarrow> (sparql_env, sparql_state, 'c) session \<Rightarrow> bool" where
  "live br s \<longleftrightarrow> session_ok br s \<and> (\<exists>u. mode (s_ed s) = sparql_mode u) \<and> readOnly (options (s_ed s)) = Editable"

lemma liveD:
  assumes "live br s"
  shows "session_ok br s" "undo_ok (s_ed s)" "nestedOperation (s_ed s) = 0" "geometry (screen (s_ed s)) (d_view (s_disp s))"
    "rows_ok (br_content br) (lines (s_ed s)) (s_disp s)" "\<exists>u. mode (s_ed s) = sparql_mode u" "readOnly (options (s_ed s)) = Editable"
  using assms by (simp_all add: live_def session_ok_def)

text \<open>Fields that neither the rows nor the rest of the invariant depend on.\<close>

lemma live_fields:
  "live br (s\<lparr>poll := p\<rparr>) = live br s" "live br (s\<lparr>notices := ns\<rparr>) = live br s"
  "live br (with_ed ((s_ed s)\<lparr>pollingFast := b\<rparr>) s) = live br s" "live br (with_ed ((s_ed s)\<lparr>focused := b\<rparr>) s) = live br s"
  "live br (with_ed ((s_ed s)\<lparr>timers := ts\<rparr>) s) = live br s" "live br (with_ed ((s_ed s)\<lparr>input := t\<rparr>) s) = live br s"
  "live br (with_ed ((s_ed s)\<lparr>prevInput := u, input := t\<rparr>) s) = live br s"
  "live br (with_ed ((s_ed s)\<lparr>shiftSelecting := sh\<rparr>) s) = live br s" "live br (with_ed ((s_ed s)\<lparr>worker := w\<rparr>) s) = live br s"
  by (simp_all add: live_def session_ok_def with_ed_def undo_ok_fields rows_ok_def)

lemma opened_inside:
  assumes "live br s"
  shows "inside (with_ed (opened (s_ed s)) s)"
  using liveD [OF assms] by (simp add: inside_def ui_ok_def with_ed_def opened_ok)

lemma operation_live:
  assumes br: "browser_ok br" and s: "live br s" and f: "f (with_ed (opened (s_ed s)) s) = Some s1"
    and a: "advances (with_ed (opened (s_ed s)) s) s1"
  shows "\<exists>s'. operation br f s = Some s' \<and> live br s'"
proof -
  obtain s' where s': "operation br f s = Some s'" "session_ok br s'" "frame (s_ed s1) (s_ed s')"
    using operation_advances [where f = f, OF br liveD(1) [OF s] f a] by blast
  have "follows (opened (s_ed s)) (s_ed s1)" using a by (simp add: advances_def with_ed_def)
  from world_simps [OF follows_world [OF this]] have "mode (s_ed s') = mode (s_ed s)" "options (s_ed s') = options (s_ed s)"
    using s'(3) by (simp_all add: frame_def opened_ok)
  then show ?thesis using s' liveD(6,7) [OF s] by (simp add: live_def)
qed

lemma operation_with_fst:
  fixes s :: "('a, 'b, 'c) session"
  assumes "nestedOperation (s_ed s) = 0" and "f (with_ed (opened (s_ed s)) s) = Some (s1, r)"
  shows "operation_with br f s = map_option (\<lambda>s'. (s', r)) (operation br (\<lambda>s. map_option fst (f s)) s)"
proof -
  have "f (with_ed ((startOperation (s_ed s))\<lparr>nestedOperation := 1\<rparr>) s) = Some (s1, r)"
    using assms(2) by (simp add: opened_def)
  moreover have "Option.bind x (\<lambda>s3. Some (s3, r)) = map_option (\<lambda>s'. (s', r)) x" for x :: "('a, 'b, 'c) session option"
    by (cases x) simp_all
  ultimately show ?thesis using assms(1) by (simp add: operation_def operation_with_def Let_def)
qed

lemma operation_with_live:
  assumes br: "browser_ok br" and s: "live br s" and f: "f (with_ed (opened (s_ed s)) s) = Some (s1, r)"
    and a: "advances (with_ed (opened (s_ed s)) s) s1"
  shows "\<exists>s'. operation_with br f s = Some (s', r) \<and> live br s'"
proof -
  have "map_option fst (f (with_ed (opened (s_ed s)) s)) = Some s1" by (simp add: f)
  from operation_live [where f = "\<lambda>s. map_option fst (f s)", OF br s this a]
  show ?thesis using operation_with_fst [where f = f, OF liveD(3) [OF s] f, of br] by auto
qed

lemma operation_ed_live:
  assumes br: "browser_ok br" and s: "live br s" and f: "f (opened (s_ed s)) = Some e" "goes (opened (s_ed s)) e"
  shows "\<exists>s'. operation br (lift_ed f) s = Some s' \<and> live br s'"
proof -
  let ?o = "with_ed (opened (s_ed s)) s"
  have o: "s_ed ?o = opened (s_ed s)" by (simp add: with_ed_def)
  show ?thesis
  proof (rule operation_live [where f = "lift_ed f", OF br s])
    show "lift_ed f ?o = Some (with_ed e ?o)" using f(1) by (simp add: lift_ed_def o)
    show "advances ?o (with_ed e ?o)" by (rule advances_with_ed [OF opened_inside [OF s]]) (simp add: o f(2))
  qed
qed

text \<open>The hidden input, outside every operation.\<close>

lemma readInput_live:
  assumes br: "browser_ok br" and s: "live br s" and room: "input_room (s_ed s)"
  shows "\<exists>s' b. readInput br s = Some (s', b) \<and> live br s'"
proof (cases "\<not> focused (s_ed s) \<or> br_hasSelection br \<or> readOnly (options (s_ed s)) \<noteq> Editable \<or> input (s_ed s) = prevInput (s_ed s)")
  case True
  then have "readInput br s = Some (s, False)" by (simp add: readInput_def Let_def)
  with s show ?thesis by blast
next
  case False
  then obtain s' where "readInput br s = Some (s', True)" "session_ok br s'" "mode (s_ed s') = mode (s_ed s)" "options (s_ed s') = options (s_ed s)"
    using readInput_ok [OF br liveD(1) [OF s] refl refl] room by (auto simp: input_room_def)
  then show ?thesis using liveD(6,7) [OF s] by (auto simp: live_def)
qed

lemma slowPoll_live: "live br s \<Longrightarrow> live br (slowPoll s)"
  by (simp add: slowPoll_def live_fields)

lemma run_poll_live:
  assumes br: "browser_ok br" and s: "live br s" and room: "input_room (s_ed s)"
  shows "\<exists>s'. run_poll br s = Some s' \<and> live br s'"
proof -
  have "live br (s\<lparr>poll := None\<rparr>)" "input_room (s_ed (s\<lparr>poll := None\<rparr>))" using s room by (simp_all add: live_fields)
  then obtain s1 b where r: "readInput br (s\<lparr>poll := None\<rparr>) = Some (s1, b)" "live br s1" using readInput_live [OF br] by blast
  then show ?thesis using s
    by (auto simp: run_poll_def live_fields slowPoll_live split: option.split polling.split)
qed

subsection \<open>The highlighter\<close>

lemma work_step:
  assumes run: "(if showingFrom ed \<le> k then highlight_line k s ed else process_line k keep s ed) = Some (s1, ed1)"
    and d: "doc_ok (doc ed)" "k < length (lines ed)"
  shows "recached ed ed1 \<and> (\<forall>j < length (lines ed). j \<noteq> k \<or> j < showingFrom ed \<longrightarrow> unstated (lines ed1 ! j) = unstated (lines ed ! j))"
proof (cases "showingFrom ed \<le> k")
  case True
  obtain g st where ed1: "ed1 = ed\<lparr>mode_env := g,
      doc := map_line k (\<lambda>l. l\<lparr>lstyles := Some st, stateAfter := Some (copyState (mode ed) s1)\<rparr>) (doc ed)\<rparr>"
    using run True by (auto simp: highlight_line_def bind_eq_Some_conv)
  have "recached ed ed1" unfolding ed1 by (rule recached_map_line [OF d]) (simp add: core_def)
  moreover have "lines ed1 ! j = lines ed ! j" if "j \<noteq> k" for j using that by (simp add: ed1 map_line_collapse [OF d])
  ultimately show ?thesis using True by auto
next
  case False
  then obtain g keep1 where "ed1 = set_state_after k keep1 (ed\<lparr>mode_env := g\<rparr>)"
    using run by (auto simp: process_line_def bind_eq_Some_conv)
  then have r: "restated ed ed1" using restated_set_state [OF d] by simp
  then have "map unstated (lines ed1) = map unstated (lines ed)" "recached ed ed1" by (simp_all add: restated_def)
  moreover have "length (lines ed1) = length (lines ed)" by (rule recachedD(2) [OF calculation(2)])
  ultimately show ?thesis by (metis nth_map)
qed

text \<open>Behind the new frontier, and above the window, a line changes at most in the parser state kept on it.\<close>

lemma work_lines_rest:
  "work_lines [k ..< K] late delay s ed = Some ed' \<Longrightarrow> frontier ed = k \<Longrightarrow> doc_ok (doc ed) \<Longrightarrow> K \<le> length (lines ed) \<Longrightarrow>
     k \<le> frontier ed' \<and> (\<forall>j < length (lines ed). j < k \<or> frontier ed' \<le> j \<or> j < showingFrom ed \<longrightarrow>
       unstated (lines ed' ! j) = unstated (lines ed ! j))"
proof (induction "K - k" arbitrary: k s ed)
  case 0
  then show ?case by simp
next
  case (Suc n)
  then have k: "k < K" "k < length (lines ed)" by auto
  have upt: "[k ..< K] = k # [Suc k ..< K]" using k(1) by (rule upt_conv_Cons)
  obtain s1 ed1 where e: "(if showingFrom ed \<le> k then highlight_line k s ed else process_line k (k mod 5 = 0) s ed) = Some (s1, ed1)"
      "(if late k then Some (startWorker delay (ed1\<lparr>frontier := Suc k\<rparr>)) else work_lines [Suc k ..< K] late delay s1 (ed1\<lparr>frontier := Suc k\<rparr>)) = Some ed'"
    using Suc.prems(1) by (auto simp: upt Let_def bind_eq_Some_conv)
  note w = work_step [OF e(1) Suc.prems(3) k(2)]
  note r = recachedD [OF conjunct1 [OF w]]
  show ?case
  proof (cases "late k")
    case True
    then have "lines ed' = lines ed1" "frontier ed' = Suc k" using e(2) by auto
    then show ?thesis using w by auto
  next
    case False
    then have run: "work_lines [Suc k ..< K] late delay s1 (ed1\<lparr>frontier := Suc k\<rparr>) = Some ed'" using e(2) by simp
    have "Suc k \<le> frontier ed' \<and> (\<forall>j < length (lines (ed1\<lparr>frontier := Suc k\<rparr>)). j < Suc k \<or> frontier ed' \<le> j \<or> j < showingFrom (ed1\<lparr>frontier := Suc k\<rparr>) \<longrightarrow>
       unstated (lines ed' ! j) = unstated (lines (ed1\<lparr>frontier := Suc k\<rparr>) ! j))"
      by (rule Suc.hyps(1) [OF _ run]) (use Suc.hyps(2) Suc.prems(4) r(1,2) in simp_all)
    note i = conjunct1 [OF this] and rest = conjunct2 [OF this]
    have "unstated (lines ed' ! j) = unstated (lines ed ! j)"
      if j: "j < length (lines ed)" "j < k \<or> frontier ed' \<le> j \<or> j < showingFrom ed" for j
    proof -
      have "j < Suc k \<or> frontier ed' \<le> j \<or> j < showingFrom ed" "j \<noteq> k \<or> j < showingFrom ed" using j(2) i by auto
      then have "unstated (lines ed' ! j) = unstated (lines (ed1\<lparr>frontier := Suc k\<rparr>) ! j)"
        using j(1) r(2,8) by (intro rest [rule_format]) simp_all
      then show ?thesis using w j(1) \<open>j \<noteq> k \<or> j < showingFrom ed\<close> by simp
    qed
    then show ?thesis using i by simp
  qed
qed

lemma worker_pass_ok:
  assumes ok: "undo_ok ed" and m: "mode ed = sparql_mode u" and w: "frontier ed < showingTo ed" "showingTo ed \<le> length (lines ed)"
  shows "\<exists>ed'. worker_pass late delay ed = Some ed' \<and> undo_ok ed' \<and> world ed' = world ed \<and> changes ed' = changes ed \<and>
    length (lines ed') = length (lines ed) \<and> frontier ed < frontier ed' \<and> frontier ed' \<le> length (lines ed) \<and>
    (\<forall>j < length (lines ed). j < frontier ed \<or> frontier ed' \<le> j \<or> j < showingFrom ed \<longrightarrow> unstated (lines ed' ! j) = unstated (lines ed ! j))"
proof -
  note d = undo_okD(2) [OF ok]
  obtain s ed1 where g: "getStateBefore (frontier ed) ed = Some (s, ed1)" using sparql.getStateBefore_total [OF m d, of "frontier ed"] w by auto
  have r: "restated ed ed1" using getStateBefore_restated [OF g d] w by simp
  then have rc: "recached ed ed1" and u: "map unstated (lines ed1) = map unstated (lines ed)" by (simp_all add: restated_def)
  note c = recachedD [OF rc]
  have ok1: "undo_ok ed1" "world ed1 = world ed" using restated_goes [OF ok r] goes_world by (auto simp: goes_def)
  have "int (chunkSize (doc ed)) = int (length (lines ed))" using doc_size_lines [OF d] by (simp add: doc_size_def)
  then have K: "min (showingTo ed) (chunkSize (doc ed)) = showingTo ed" using w(2) by simp
  obtain ed2 where e: "work_lines [frontier ed ..< showingTo ed] late delay (copyState (mode ed) s) ed1 = Some ed2" "worked (frontier ed) ed1 ed2"
      "frontier ed < frontier ed2" "frontier ed2 \<le> showingTo ed"
    using sparql.work_lines_total [of ed1 u "frontier ed" "showingTo ed" late delay "copyState (mode ed) s"] m w c by auto
  have rest: "frontier ed \<le> frontier ed2 \<and> (\<forall>j < length (lines ed1). j < frontier ed \<or> frontier ed2 \<le> j \<or> j < showingFrom ed1 \<longrightarrow>
      unstated (lines ed2 ! j) = unstated (lines ed1 ! j))"
    by (rule work_lines_rest [OF e(1) c(7,1)]) (use w(2) c(2) in simp)
  have un: "unstated (lines ed1 ! j) = unstated (lines ed ! j)" if "j < length (lines ed)" for j
    using that u c(2) by (metis nth_map)
  have run: "worker_pass late delay ed = Some ed2" using g e(1) by (simp add: worker_pass_def K)
  moreover have "undo_ok ed2" by (rule worked_undo_ok [OF ok1(1) e(2)])
  moreover have "world ed2 = world ed1" "changes ed2 = changes ed1" using e(2) by (auto simp: worked_def world_def)
  moreover have "length (lines ed2) = length (lines ed)" using workedD(2) [OF e(2)] c(2) by simp
  moreover have "unstated (lines ed2 ! j) = unstated (lines ed ! j)"
    if "j < length (lines ed)" "j < frontier ed \<or> frontier ed2 \<le> j \<or> j < showingFrom ed" for j
  proof -
    have "unstated (lines ed2 ! j) = unstated (lines ed1 ! j)"
      using that c(2,8) by (intro conjunct2 [OF rest, rule_format]) simp_all
    with un [OF that(1)] show ?thesis by simp
  qed
  ultimately show ?thesis using e(3,4) w(2) ok1(2) c(10) by (intro exI [of _ ed2]) simp
qed

text \<open>What the worker logs is true: behind its frontier nothing on the screen has changed.\<close>

lemma worker_logged:
  assumes len: "length ys = length xs" and f: "a < b" "b \<le> length xs" and j: "\<And>j. j < length xs \<Longrightarrow> j < a \<or> b \<le> j \<Longrightarrow> ys ! j = xs ! j"
  shows "logged [\<lparr>chfrom = int a, chto = int b, chdiff = 0\<rparr>] xs ys"
proof -
  obtain k where k: "b = Suc k" using f(1) by (cases b) auto
  have "logged [\<lparr>chfrom = int a, chto = int k + 1, chdiff = 0\<rparr>] xs ys"
    by (rule logged_edit [where n = "b - a"]) (use len f j k in auto)
  then show ?thesis by (simp add: k add.commute)
qed

lemma worker_entry_live:
  assumes br: "browser_ok br" and ok: "undo_ok ed2" and n: "nestedOperation ed2 = 0" and geo: "geometry (screen ed2) (d_view (s_disp s))"
    and rows: "rows_ok (br_content br) ls (s_disp (with_ed ed2 s))"
    and len: "length (lines ed2) = length ls" and ab: "a < b" "b \<le> length ls"
    and eq: "\<And>j. j < length ls \<Longrightarrow> j < a \<or> b \<le> j \<Longrightarrow> base (lines ed2 ! j) = base (ls ! j)"
    and m: "\<exists>u. mode ed2 = sparql_mode u" "readOnly (options ed2) = Editable"
  shows "\<exists>s'. operation br (lift_ed (\<lambda>e. Some (push_change (int a) (int b) 0 e))) (with_ed ed2 s) = Some s' \<and> live br s'"
proof -
  let ?f = "\<lambda>e. Some (push_change (int a) (int b) 0 e)" and ?s2 = "with_ed ed2 s"
  let ?p = "push_change (int a) (int b) 0 (opened ed2)"
  have p: "undo_ok ?p" "nestedOperation ?p = 1" "screen ?p = screen ed2" "lines ?p = lines ed2" "showingFrom ?p = showingFrom ed2"
    "showingTo ?p = showingTo ed2" "mode ?p = mode ed2" "options ?p = options ed2"
    "changes ?p = [\<lparr>chfrom = int a, chto = int b, chdiff = 0\<rparr>]"
    using ok by (simp_all add: push_change_def opened_def startOperation_def undo_ok_def ed_ok_def struct_ok_def known_def
      texts_def all_visible_def abs_ed_def)
  have "logged (changes ?p) (map base ls) (map base (lines ?p))"
    unfolding p(4,9) by (rule worker_logged) (use len ab eq in auto)
  moreover have "\<forall>c \<in> set (changes ?p). change_ok c" unfolding p(9) using ab by (simp add: change_ok_def)
  moreover have "lift_ed ?f (with_ed (opened (s_ed ?s2)) ?s2) = Some (with_ed ?p ?s2)" by (simp add: lift_ed_def with_ed_def)
  moreover have "rows_ok (br_content br) ls (s_disp (with_ed ?p ?s2))" using rows p(5,6) by (simp add: rows_ok_def with_ed_def)
  moreover have "geometry (screen (s_ed (with_ed ?p ?s2))) (d_view (s_disp (with_ed ?p ?s2)))" using geo p(3) by (simp add: with_ed_def)
  moreover have "nestedOperation (s_ed ?s2) = 0" using n by (simp add: with_ed_def)
  ultimately obtain s' where "operation br (lift_ed ?f) ?s2 = Some s'" "session_ok br s'" "frame ?p (s_ed s')"
    using operation_closes [where f = "lift_ed ?f" and s = ?s2 and old = ls and ?s1.0 = "with_ed ?p ?s2", OF br] p(1,2)
    by (auto simp: with_ed_def)
  then show ?thesis using m p(7,8) by (auto simp: live_def frame_def)
qed

lemma run_worker_live:
  assumes br: "browser_ok br" and s: "live br s"
  shows "\<exists>s'. run_worker br late delay s = Some s' \<and> live br s'"
proof -
  obtain ed where ed: "ed = (s_ed s)\<lparr>worker := None\<rparr>" by blast
  have l0: "live br (with_ed ed s)" using s by (simp add: ed live_fields)
  have e0: "s_ed (with_ed ed s) = ed" "lines ed = lines (s_ed s)" "d_view (s_disp (with_ed ed s)) = d_view (s_disp s)"
    by (simp_all add: ed with_ed_def)
  note L = liveD [OF l0, unfolded e0(1,3)]
  have rows: "showingTo ed \<le> length (lines ed)" using L(5) by (simp add: rows_ok_def e0)
  show ?thesis
  proof (cases "showingTo ed \<le> frontier ed")
    case True
    then have "run_worker br late delay s = Some (with_ed ed s)" by (simp add: run_worker_def Let_def ed)
    with l0 show ?thesis by blast
  next
    case False
    then have fr: "frontier ed < showingTo ed" by simp
    obtain u where u: "mode ed = sparql_mode u" using L(6) by blast
    obtain ed2 where w: "worker_pass late delay ed = Some ed2" "undo_ok ed2" "world ed2 = world ed" "changes ed2 = changes ed"
        "length (lines ed2) = length (lines ed)" "frontier ed < frontier ed2" "frontier ed2 \<le> length (lines ed)"
        "\<And>j. j < length (lines ed) \<Longrightarrow> j < frontier ed \<or> frontier ed2 \<le> j \<or> j < showingFrom ed \<Longrightarrow> unstated (lines ed2 ! j) = unstated (lines ed ! j)"
      using worker_pass_ok [OF L(2) u fr rows, of late delay] by blast
    note W = world_simps [OF w(3)]
    let ?s2 = "with_ed ed2 s"
    have e2: "s_ed ?s2 = ed2" "d_view (s_disp ?s2) = d_view (s_disp s)" by (simp_all add: with_ed_def)
    have bs: "base l = base (unstated l)" for l :: "sparql_state line" by (simp add: base_def unstated_def)
    have base_eq: "base (lines ed2 ! j) = base (lines ed ! j)"
      if "j < length (lines ed)" "j < frontier ed \<or> frontier ed2 \<le> j \<or> j < showingFrom ed" for j
      using w(8) [OF that] bs by metis
    have rows2: "rows_ok (br_content br) (lines ed) (s_disp ?s2)" using L(5) W(4,5) by (simp add: rows_ok_def with_ed_def)
    have ml: "\<exists>v. mode ed2 = sparql_mode v" "readOnly (options ed2) = Editable" using W(1,2) L(6,7) by simp_all
    show ?thesis
    proof (cases "frontier ed < showingTo ed2 \<and> showingFrom ed2 \<le> frontier ed2")
      case True
      obtain s' where s': "operation br (lift_ed (\<lambda>e. Some (push_change (int (frontier ed)) (int (frontier ed2)) 0 e))) ?s2 = Some s'" "live br s'"
        using worker_entry_live [OF br w(2) _ _ rows2 w(5-7) _ ml] base_eq L(3,4) W(3,6) by auto
      then show ?thesis using s'(1) fr True w(1) unfolding run_worker_def ed [symmetric] Let_def by simp
    next
      case False
      then have "frontier ed2 < showingFrom ed" using fr W(4,5) by auto
      then have "base (lines ed2 ! j) = base (lines ed ! j)" if "j < length (lines ed)" for j
        by (intro base_eq [OF that]) linarith
      then have "map base (lines ed2) = map base (lines ed)" using w(5) by (intro nth_equalityI) simp_all
      from rows_ok_base [OF br this rows2] have "live br ?s2"
        using w(2) W(3,6) L(3,4) ml by (simp add: live_def session_ok_def e2)
      then show ?thesis using fr False w(1) unfolding run_worker_def ed [symmetric] Let_def by auto
    qed
  qed
qed

subsection \<open>Timers, focus and scrolling\<close>

lemma clear_empty_line_goes:
  assumes ok: "undo_ok ed"
  shows "\<exists>e. clear_empty_line i ed = Some e \<and> goes ed e"
proof (cases "lineNo i (doc ed)")
  case None
  then show ?thesis using goes_refl [OF ok] by (simp add: clear_empty_line_def)
next
  case (Some n)
  note d = ed_okD [OF undo_okD(1) [OF ok]]
  have "distinct (map lid (collapse (doc ed)))" using d(1) by (simp add: struct_ok_def)
  from lineNo_collapse [OF d(2) this, of i] have "n < length (lines ed)"
    using Some index_of_Some [of i "ids ed" n] by simp
  then have l: "getLineAt (doc ed) n = Some (lines ed ! n)" by (simp add: getLineAt_collapse [OF d(2)])
  have "Pos (int n) 0 \<le> Pos (int n) (int (length (ltext (lines ed ! n))))" by (simp add: pos_le_iff)
  from replaceRange_goes [OF ok this, of "[]"] show ?thesis
    using Some l goes_refl [OF ok] by (auto simp: clear_empty_line_def)
qed

lemma run_timer_live:
  assumes br: "browser_ok br" and s: "live br s" and t: "plain_timer t"
  shows "\<exists>s'. run_timer br t s = Some s' \<and> live br s'"
proof -
  have o: "undo_ok (opened (s_ed s))" "\<exists>u. mode (opened (s_ed s)) = sparql_mode u" using liveD [OF s] by (simp_all add: opened_ok)
  show ?thesis
  proof (cases t)
    case (ClearEmptyLine i)
    obtain e where "clear_empty_line i (opened (s_ed s)) = Some e" "goes (opened (s_ed s)) e" using clear_empty_line_goes [OF o(1)] by blast
    from operation_ed_live [where f = "clear_empty_line i", OF br s this] ClearEmptyLine show ?thesis by (simp add: run_timer_def)
  next
    case ElectricIndent
    let ?o = "opened (s_ed s)"
    have "nat (pline (sel_to ?o)) < length (lines ?o)"
      using ed_okD(7) [OF undo_okD(1) [OF o(1)]] by (auto simp: pos_ok_def)
    then obtain e where e: "indentLine (nat (pline (sel_to ?o))) Smart ?o = Some e" "goes ?o e" using indentLine_goes [OF o(1)] o(2) by blast
    from operation_ed_live [where f = "\<lambda>ed. indentLine (nat (pline (sel_to ed))) Smart ed", OF br s e] ElectricIndent
    show ?thesis by (simp add: run_timer_def)
  next
    case RehideShift
    then show ?thesis using s by (simp add: run_timer_def live_fields)
  qed (use t in \<open>simp_all add: plain_timer_def\<close>)
qed

lemma onFocus_live: "live br s \<Longrightarrow> live br (onFocus s)"
  by (simp add: onFocus_def notify_page_def slowPoll_live live_fields)

lemma onBlur_live:
  assumes s: "live br s" and b: "bracketHighlighted (s_ed s) = None"
  shows "\<exists>s'. onBlur br s = Some s' \<and> live br s'"
proof -
  obtain s1 where s1: "s1 = (if focused (s_ed s) then notify_page [Blurred] (with_ed ((s_ed s)\<lparr>focused := False\<rparr>) s) else s)" by blast
  have "live br s1" using s by (simp add: s1 notify_page_def live_fields)
  moreover have "onBlur br s = Some (with_ed ((s_ed s1)\<lparr>timers := timers (s_ed s1) @ [RehideShift]\<rparr>) s1)"
    using b by (simp add: onBlur_def s1 notify_page_def with_ed_def)
  ultimately show ?thesis by (simp add: live_fields)
qed

text \<open>Drawing the screen anew, or as far as the window has moved.\<close>

lemma redisplay_live:
  assumes br: "browser_ok br" and s: "live br s" and chs: "chs = None \<or> chs = Some []"
  shows "\<exists>d u. updateDisplay (br_content br) (br_measure br) (br_height br) (br_gutter br) chs suppress None (s_disp s) = Inr (d, u) \<and>
    live br (s\<lparr>s_disp := d\<rparr>)"
proof -
  let ?d = "s_disp s" and ?c = "br_content br" and ?ed = "s_ed s"
  note L = liveD [OF s]
  have st: "struct_ok (next_line ?ed) ?ed" by (rule ed_okD(1) [OF undo_okD(1) [OF L(2)]])
  have nh: "\<forall>r. 0 \<le> br_height br r" using br by (simp add: browser_ok_def)
  have geo: "0 < textHeight (screen ?ed)" "0 < clientWidth (screen ?ed)"
    "paddingTop (screen ?ed) \<le> (case None of Some t \<Rightarrow> t | None \<Rightarrow> scrollTop (d_view ?d)) + int (clientHeight (screen ?ed))"
    using L(4) by (simp_all add: geometry_def)
  have r: "showingFrom ?ed \<le> showingTo ?ed" "length (lineDiv ?d) = showingTo ?ed - showingFrom ?ed"
    "chs = Some [] \<longrightarrow> showingTo ?ed \<le> length (lines ?ed)"
    using L(5) by (auto simp: rows_ok_def)
  have m: "case chs of None \<Rightarrow> True | Some cs \<Rightarrow> (\<forall>c \<in> set cs. change_ok c) \<and> rows_match ?c cs ?d"
    using rows_ok_match [OF br L(5), of "[]"] chs by (auto simp: logged_refl)
  obtain d1 u where d1: "updateDisplay ?c (br_measure br) (br_height br) (br_gutter br) chs suppress None ?d = Inr (d1, u)"
      "rows_ok ?c (lines ?ed) d1"
    using updateDisplay_rows [OF st geo(1-3) r(1,2) m r(3), where ms = "br_measure br" and nh = "br_height br" and gw = "br_gutter br" and suppress = suppress]
    by (auto simp: rows_ok_def)
  have c: "calm ?ed (d_ed d1)" "geometry (screen ?ed) (d_view d1)"
    using updateDisplay_calm [OF d1(1) st nh geo(1,2)] geometry_scrolled [OF L(4), of None] by auto
  note k = calm_undo_ok [OF c(1) L(2)] calm_screen [OF c(1)]
  have "rows_ok ?c (lines (d_ed d1)) d1" using rows_ok_base [OF br _ d1(2)] k by blast
  moreover have "frame ?ed (d_ed d1)" using c(1) unfolding calm_def keeps_def by blast
  ultimately have "live br (s\<lparr>s_disp := d1\<rparr>)" using k c(2) L(3,6,7) by (simp add: live_def session_ok_def frame_def)
  then show ?thesis using d1(1) by blast
qed

lemma onScroll_live:
  assumes br: "browser_ok br" and s: "live br s" and t: "0 \<le> t"
  shows "\<exists>d. onScroll br t (s_disp s) = Some d \<and> live br (s\<lparr>s_disp := d\<rparr>)"
proof (cases "t = lastScrollTop (d_view (s_disp s))")
  case True
  have "live br (s\<lparr>s_disp := (s_disp s)\<lparr>d_view := (d_view (s_disp s))\<lparr>scrollTop := t\<rparr>\<rparr>\<rparr>)"
    using s t by (simp add: live_def session_ok_def geometry_def rows_ok_def)
  then show ?thesis using True by (simp add: onScroll_def)
next
  case False
  have "live br (s\<lparr>s_disp := (s_disp s)\<lparr>d_view := (d_view (s_disp s))\<lparr>scrollTop := t, lastScrollTop := t\<rparr>\<rparr>\<rparr>)"
    using s t by (simp add: live_def session_ok_def geometry_def rows_ok_def)
  from redisplay_live [OF br this, of "Some []" False] False show ?thesis by (auto simp: onScroll_def)
qed

lemma onResize_live:
  assumes br: "browser_ok br" and s: "live br s"
    and wh: "0 < w" "paddingTop (screen (s_ed s)) \<le> int h" "int h \<le> scrollerHeight (d_view (s_disp s))"
  shows "\<exists>s'. onResize br w h s = Some s' \<and> live br s'"
proof -
  let ?s = "with_ed ((s_ed s)\<lparr>screen := (screen (s_ed s))\<lparr>clientWidth := w, clientHeight := h\<rparr>\<rparr>) s"
  have "undo_ok (s_ed ?s) = undo_ok (s_ed s)"
    by (simp add: with_ed_def undo_ok_def ed_ok_def struct_ok_def known_def texts_def all_visible_def abs_ed_def)
  then have "live br ?s" using s wh by (simp add: live_def session_ok_def with_ed_def geometry_def rows_ok_def)
  from redisplay_live [OF br this, of None False] show ?thesis by (auto simp: onResize_def redraw_def)
qed

subsection \<open>The context menu\<close>

lemma focusInput_live: "live br s \<Longrightarrow> live br (focusInput s)"
  by (simp add: focusInput_def onFocus_live)

lemma resetInput_live:
  assumes s: "live br s"
  shows "\<exists>s'. lift_ed (resetInput user) s = Some s' \<and> live br s'"
proof -
  obtain e where e: "resetInput user (s_ed s) = Some e" using resetInput_calm [OF liveD(2) [OF s]] by blast
  then obtain a b where "e = (s_ed s)\<lparr>prevInput := a, input := b\<rparr> \<or> e = s_ed s" by (auto simp: resetInput_def split: if_splits)
  then have "live br (with_ed e s)" using s by (auto simp: live_fields) (auto simp: with_ed_def)
  with e show ?thesis by (simp add: lift_ed_def)
qed

lemma onContextMenu_live:
  assumes br: "browser_ok br" and s: "live br s"
  shows "\<exists>s' b. onContextMenu br opera e s = Some (s', b) \<and> live br s'"
proof -
  obtain hit where h: "posFromMouse (br_measure br) False e (s_ed s) = Some hit"
    using posFromMouse_ok [OF liveD(2,4) [OF s]] by blast
  show ?thesis
  proof (cases "hit = None \<or> opera")
    case True
    then have "onContextMenu br opera e s = Some (s, False)" using h by (auto simp: onContextMenu_def split: option.split)
    with s show ?thesis by blast
  next
    case False
    then obtain p after where hit: "hit = Some (p, after)" by (cases hit) auto
    have o: "undo_ok (opened (s_ed s))" using liveD(2) [OF s] by (simp add: opened_ok)
    obtain ed where ed: "setCursor (pline p) (Some (pch p)) False (opened (s_ed s)) = Some ed" "goes (opened (s_ed s)) ed"
      using setCursor_goes [OF o] by blast
    obtain s1 where s1: "(if posEq (sel_from (s_ed s)) (sel_to (s_ed s)) \<or> posLess p (sel_from (s_ed s)) \<or> \<not> posLess p (sel_to (s_ed s))
         then operation br (lift_ed (setCursor (pline p) (Some (pch p)) False)) s else Some s) = Some s1" "live br s1"
    proof (cases "posEq (sel_from (s_ed s)) (sel_to (s_ed s)) \<or> posLess p (sel_from (s_ed s)) \<or> \<not> posLess p (sel_to (s_ed s))")
      case True
      with operation_ed_live [where f = "setCursor (pline p) (Some (pch p)) False", OF br s ed] that show thesis by auto
    next
      case False
      with s that show thesis by auto
    qed
    obtain s2 where s2: "lift_ed (resetInput True) (focusInput s1) = Some s2" "live br s2"
      using resetInput_live [OF focusInput_live [OF s1(2)]] by blast
    have "live br (with_ed ((s_ed s2)\<lparr>input := '' '', prevInput := '' ''\<rparr>) s2)"
      using s2(2) by (simp add: live_def session_ok_def with_ed_def undo_ok_fields rows_ok_def)
    moreover have "\<exists>s'. onContextMenu br opera e s = Some (s', True) \<and>
        (s' = s2 \<or> s' = with_ed ((s_ed s2)\<lparr>input := '' '', prevInput := '' ''\<rparr>) s2)"
      using False h hit s1(1) s2(1) unfolding onContextMenu_def Let_def by simp
    ultimately show ?thesis using s2(2) by blast
  qed
qed

lemma rehide_live: "live br s \<Longrightarrow> live br (rehide s)"
proof -
  assume s: "live br s"
  have "live br (with_ed ((s_ed (slowPoll s))\<lparr>input := t, prevInput := u\<rparr>) (slowPoll s))" for t u
    using slowPoll_live [OF s] by (simp add: live_def session_ok_def with_ed_def undo_ok_fields rows_ok_def)
  then show ?thesis by (simp add: rehide_def Let_def)
qed

lemma poll_menu_live:
  assumes br: "browser_ok br" and s: "live br s"
  shows "\<exists>s' again. poll_menu br a i s = Some (s', again) \<and> live br s'"
proof -
  have "undo_ok (opened (s_ed s))" using liveD(2) [OF s] by (simp add: opened_ok)
  then obtain e where e: "selectAll (opened (s_ed s)) = Some e" "goes (opened (s_ed s)) e"
    using api_setSelection_goes unfolding selectAll_def by blast
  obtain s1 where s1: "operation br (lift_ed selectAll) s = Some s1" "live br s1"
    using operation_ed_live [where f = selectAll, OF br s e] by blast
  obtain s2 where s2: "lift_ed (resetInput False) s = Some s2" "live br s2" using resetInput_live [OF s] by blast
  show ?thesis using s s1 s2 unfolding poll_menu_def by simp
qed

text \<open>After eleven answers the poll gives up, and a deletion through the menu is not noticed.\<close>

lemma poll_menus_end:
  assumes br: "browser_ok br"
  shows "live br s \<Longrightarrow> 10 - i < length as \<Longrightarrow> i \<le> 10 \<Longrightarrow> \<exists>s'. poll_menus br as i s = Some (s', False) \<and> live br s'"
proof (induction as arbitrary: i s)
  case (Cons a as)
  obtain s1 again where p: "poll_menu br a i s = Some (s1, again)" "live br s1" using poll_menu_live [OF br Cons.prems(1)] by blast
  show ?case
  proof (cases again)
    case None
    with p show ?thesis by simp
  next
    case (Some k)
    then have k: "k = Suc i" "i < 10" using p(1) by (auto simp: poll_menu_def split: if_splits)
    have "\<exists>s'. poll_menus br as k s1 = Some (s', False) \<and> live br s'"
      using k Cons.prems(2,3) by (intro Cons.IH [OF p(2)]) simp_all
    then show ?thesis using p(1) Some by simp
  qed
qed simp

lemma menu_deletion_unnoticed:
  "readInput br (with_ed ((s_ed (rehide s))\<lparr>input := '' ''\<rparr>) (rehide s)) = Some (with_ed ((s_ed (rehide s))\<lparr>input := '' ''\<rparr>) (rehide s), False)"
  by (simp add: readInput_def Let_def rehide_def with_ed_def)

subsection \<open>Events\<close>

lemma opened_clip: "clip (opened ed) p = clip ed p"
  by (simp add: clipPos_def opened_def startOperation_def doc_size_def line_text_def getLine_def)

lemma opened_room: "input_room (opened ed) = input_room ed" "drag_in_text (opened ed) g = drag_in_text ed g"
  by (simp add: input_room_def opened_def startOperation_def) (cases g, simp_all add: drag_in_text_def in_text_def opened_clip)

lemma finish_drag_live:
  assumes br: "browser_ok br" and s: "live br (pg_session pg)" and d: "drag_in_text (s_ed (pg_session pg)) (Selecting dr)"
  shows "\<exists>pg'. finish_drag br e dr pg = Some pg' \<and> live br (pg_session pg')"
proof -
  let ?s = "pg_session pg" and ?f = "\<lambda>s. map_option focusInput (lift_ed (end_drag (br_measure br) e dr) s)"
  let ?o = "with_ed (opened (s_ed ?s)) ?s"
  have i: "inside ?o" by (rule opened_inside [OF s])
  have "drag_in_text (s_ed ?o) (Selecting dr)" using d by (simp add: with_ed_def opened_room)
  then obtain ed where ed: "end_drag (br_measure br) e dr (s_ed ?o) = Some ed" "goes (s_ed ?o) ed" using end_drag_goes [OF i] by blast
  have "advances ?o (focusInput (with_ed ed ?o))" by (rule focusInput_advances [OF i advances_with_ed [OF i ed(2)]])
  moreover have "?f ?o = Some (focusInput (with_ed ed ?o))" using ed(1) by (simp add: lift_ed_def)
  ultimately obtain s' where "operation br ?f ?s = Some s'" "live br s'" using operation_live [where f = ?f, OF br s] by blast
  then show ?thesis by (simp add: finish_drag_def on_session_def)
qed

lemma move_drag_live:
  assumes br: "browser_ok br" and s: "live br (pg_session pg)" and d: "drag_in_text (s_ed (pg_session pg)) (Selecting dr)"
  shows "\<exists>pg'. move_drag br e dr pg = Some pg' \<and> live br (pg_session pg')"
proof (cases "m_button e = 0")
  case True
  with finish_drag_live [OF assms] show ?thesis by (simp add: move_drag_def)
next
  case False
  let ?s = "pg_session pg" and ?f = "extend_drag (br_measure br) e dr"
  let ?o = "with_ed (opened (s_ed ?s)) ?s"
  have "drag_in_text (s_ed ?o) (Selecting dr)" using d by (simp add: with_ed_def opened_room)
  then obtain s1 dr1 again where x: "?f ?o = Some (s1, dr1, again)" "advances ?o s1"
    using extend_drag_advances [OF opened_inside [OF s]] by blast
  from operation_with_live [where f = ?f, OF br s x] False show ?thesis by (auto simp: move_drag_def)
qed

lemma press_live:
  assumes br: "browser_ok br" and s: "live br (pg_session pg)"
  shows "\<exists>pg'. press br dd e pg = Some pg' \<and> live br (pg_session pg')"
proof -
  let ?s = "pg_session pg" and ?f = "onMouseDown (br_measure br) dd e (pg_clicks pg)"
  let ?o = "with_ed (opened (s_ed ?s)) ?s"
  obtain s1 ck g dr where x: "?f ?o = Some (s1, ck, g, dr)" "advances ?o s1"
    using onMouseDown_advances [OF opened_inside [OF s]] by (metis prod.collapse)
  from operation_with_live [where f = ?f, OF br s x] show ?thesis by (auto simp: press_def)
qed

lemma end_text_drag_live:
  assumes br: "browser_ok br" and s: "live br (pg_session pg)"
  shows "\<exists>pg'. end_text_drag br e2 e p pg = Some pg' \<and> live br (pg_session pg')"
proof -
  let ?s = "pg_session pg" and ?f = "dragEnd e e2 p (pg_clicks pg)"
  let ?o = "with_ed (opened (s_ed ?s)) ?s"
  obtain s1 ck where x: "?f ?o = Some (s1, ck)" "advances ?o s1" using dragEnd_advances [OF opened_inside [OF s]] by blast
  from operation_with_live [where f = ?f, OF br s x] show ?thesis by (auto simp: end_text_drag_def)
qed

text \<open>An event that is one operation of the session.\<close>

lemma on_operation_live:
  assumes br: "browser_ok br" and s: "live br (pg_session pg)"
    and f: "\<And>o1. inside o1 \<Longrightarrow> s_ed o1 = opened (s_ed (pg_session pg)) \<Longrightarrow> \<exists>s1. f o1 = Some s1 \<and> advances o1 s1"
  shows "\<exists>pg'. on_session (operation br f) pg = Some pg' \<and> live br (pg_session pg')"
proof -
  let ?s = "pg_session pg"
  have "s_ed (with_ed (opened (s_ed ?s)) ?s) = opened (s_ed ?s)" by (simp add: with_ed_def)
  with f [OF opened_inside [OF s]] obtain s1 where "f (with_ed (opened (s_ed ?s)) ?s) = Some s1" "advances (with_ed (opened (s_ed ?s)) ?s) s1"
    by blast
  from operation_live [where f = f, OF br s this] show ?thesis by (auto simp: on_session_def)
qed

lemma drop_text_live:
  assumes br: "browser_ok br" and s: "live br (pg_session pg)"
  shows "\<exists>pg'. drop_text br e t pg = Some pg' \<and> live br (pg_session pg')"
proof -
  obtain pg1 where p: "on_session (operation br (onDrop (br_measure br) e t (pg_clicks pg))) pg = Some pg1" "live br (pg_session pg1)"
    using on_operation_live [OF br s, of "onDrop (br_measure br) e t (pg_clicks pg)"] onDrop_advances by blast
  then show ?thesis using end_text_drag_live [OF br p(2)] by (simp add: drop_text_def split: gesture.split)
qed

lemma on_session_live:
  "\<exists>s'. f (pg_session pg) = Some s' \<and> live br s' \<Longrightarrow> \<exists>pg'. on_session f pg = Some pg' \<and> live br (pg_session pg')"
  by (auto simp: on_session_def)

text \<open>The events, one by one.\<close>

lemma api_event_live:
  assumes br: "browser_ok br" and s: "live br (pg_session pg)" and ok: "api_ok a (s_ed (pg_session pg))"
  shows "\<exists>pg'. on_session (operation br (lift_ed (run_api a))) pg = Some pg' \<and> live br (pg_session pg')"
proof (rule on_operation_live [OF br s])
  fix o1 :: "(sparql_env, sparql_state, 'a) session"
  assume o: "inside o1" "s_ed o1 = opened (s_ed (pg_session pg))"
  have "api_ok a (s_ed o1)" using ok by (simp add: o(2) api_ok_opened)
  then obtain e where "run_api a (s_ed o1) = Some e" "goes (s_ed o1) e" using api_goes [OF insideD(1) [OF o(1)]] by blast
  then show "\<exists>s1. lift_ed (run_api a) o1 = Some s1 \<and> advances o1 s1" using advances_with_ed [OF o(1)] by (simp add: lift_ed_def)
qed

lemma method_event_live:
  assumes br: "browser_ok br" and s: "live br (pg_session pg)" and ok: "event_ok (CallMethod m) pg"
  shows "\<exists>pg'. on_session (operation br (call_method br m)) pg = Some pg' \<and> live br (pg_session pg')"
proof (rule on_operation_live [OF br s])
  have "method_ok m" using ok by (cases m) simp_all
  then show "\<exists>s1. call_method br m o1 = Some s1 \<and> advances o1 s1" if "inside o1" for o1 using call_method_advances [OF that] by blast
qed

lemma key_events_live:
  assumes br: "browser_ok br" and kb: "keyboard_ok kb" and s: "live br (pg_session pg)"
  shows "input_room (s_ed (pg_session pg)) \<Longrightarrow>
      \<exists>pg'. on_session (operation br (onKeyDown br kb e)) pg = Some pg' \<and> live br (pg_session pg')"
    "input_room (s_ed (pg_session pg)) \<Longrightarrow>
      \<exists>pg'. on_session (operation br (onKeyPress br kb ch)) pg = Some pg' \<and> live br (pg_session pg')"
    "\<exists>pg'. on_session (operation br (\<lambda>s. Some (onKeyUp kb e s))) pg = Some pg' \<and> live br (pg_session pg')"
  by (rule on_operation_live [OF br s], simp add: onKeyDown_advances kb opened_room onKeyPress_advances onKeyUp_advances)+

lemma input_events_live:
  assumes "live br s"
  shows "live br (fastPoll (with_ed ((s_ed s)\<lparr>input := t\<rparr>) s))" "live br (fastPoll (focusInput s))"
    "live br (with_ed ((s_ed s)\<lparr>timers := ts\<rparr>) s)"
  using assms focusInput_live [OF assms] by (simp_all add: fastPoll_def live_fields)

lemma ask_menu_live:
  assumes br: "browser_ok br" and s: "live br (pg_session pg)"
  shows "\<exists>pg'. ask_menu br a pg = Some pg' \<and> live br (pg_session pg')"
proof (cases "pg_menu pg")
  case (MenuPolled i)
  obtain s' again where "poll_menu br a i (pg_session pg) = Some (s', again)" "live br s'" using poll_menu_live [OF br s] by blast
  then show ?thesis using MenuPolled by (simp add: ask_menu_def)
qed (use s in \<open>simp_all add: ask_menu_def\<close>)

lemma open_menu_live:
  assumes br: "browser_ok br" and s: "live br (pg_session pg)"
  shows "\<exists>pg'. open_menu br opera e pg = Some pg' \<and> live br (pg_session pg')"
proof -
  obtain s' b where c: "onContextMenu br opera e (pg_session pg) = Some (s', b)" "live br s'" using onContextMenu_live [OF br s] by blast
  then have "open_menu br opera e pg = Some (pg\<lparr>pg_session := s', pg_menu := (if b then MenuOpen else pg_menu pg)\<rparr>)"
    by (simp add: open_menu_def)
  then show ?thesis using c(2) by simp
qed

lemma scroll_event_live:
  assumes br: "browser_ok br" and s: "live br (pg_session pg)" and t: "0 \<le> t"
  shows "\<exists>pg'. on_session (\<lambda>s. map_option (\<lambda>d. s\<lparr>s_disp := d\<rparr>) (onScroll br t (s_disp s))) pg = Some pg' \<and> live br (pg_session pg')"
  using onScroll_live [OF br s t] by (auto simp: on_session_def)

lemmas events_live = api_event_live method_event_live key_events_live ask_menu_live open_menu_live scroll_event_live
  drop_text_live press_live

lemma run_event_live:
  assumes br: "browser_ok br" and kb: "keyboard_ok kb" and s: "live br (pg_session pg)" and ok: "event_ok ev pg"
  shows "\<exists>pg'. run_event br kb ev pg = Some pg' \<and> live br (pg_session pg')"
proof -
  note L = on_session_live [where pg = pg and br = br]
  have cut: "\<exists>pg'. on_session (operation br onCut) pg = Some pg' \<and> live br (pg_session pg')"
    by (rule on_operation_live [OF br s onCut_advances])
  have timer: "\<exists>pg'. on_session (\<lambda>s. run_timer br t (with_ed ((s_ed s)\<lparr>timers := remove1 t (timers (s_ed s))\<rparr>) s)) pg = Some pg' \<and>
      live br (pg_session pg')" if "plain_timer t" for t
    by (rule L) (rule run_timer_live [OF br input_events_live(3) [OF s] that])
  have plain: "\<exists>pg'. on_session (\<lambda>s. Some (g s)) q = Some pg' \<and> live br (pg_session pg')" if "live br (g (pg_session q))" for g q
    using that by (simp add: on_session_def)
  show ?thesis
  proof (cases ev)
    case (Move e)
    then show ?thesis using move_drag_live [OF br s] ok s by (cases "pg_gesture pg") auto
  next
    case (Release e)
    then show ?thesis using finish_drag_live [OF br s] end_text_drag_live [OF br s] ok s by (cases "pg_gesture pg") auto
  next
    case Poll
    then show ?thesis using L [where f = "run_poll br", OF run_poll_live [OF br s]] ok by simp
  next
    case (Work late delay)
    then show ?thesis using L [where f = "run_worker br late delay", OF run_worker_live [OF br s]] by simp
  next
    case Blur
    then show ?thesis using L [where f = "onBlur br", OF onBlur_live [OF s]] ok by simp
  next
    case (Resize w h)
    then show ?thesis using L [where f = "onResize br w h", OF onResize_live [OF br s]] ok by simp
  next
    case (CallMethod m)
    then show ?thesis using method_event_live [OF br s] ok by simp
  qed (use ok s kb in \<open>simp_all add: cut timer plain events_live br input_events_live onFocus_live rehide_live\<close>)
qed

lemma visited_live:
  "visited br kb pg0 pg \<Longrightarrow> browser_ok br \<Longrightarrow> keyboard_ok kb \<Longrightarrow> live br (pg_session pg0) \<Longrightarrow> live br (pg_session pg)"
proof (induction rule: visited.induct)
  case (visit_event pg ev pg')
  then show ?case using run_event_live [of br kb pg ev] by auto
qed simp

text \<open>C2: The screen shows the document after any sequence of admitted events.  The page begins with a well-formed
  session between two operations, with an editor that is not read-only and is in the SPARQL mode; the browser measures no
  negative height, and the content of a row depends neither on the measured height of its line nor on the saved parser
  state (\<open>browser_ok\<close>); the chains of key maps end, and the commands and functions that keys are bound to return and
  keep the editor well formed (\<open>keyboard_ok\<close>, which the key maps and commands of the code satisfy).
  The events are key presses, typed and pasted text, clicks, drags and drops, scrolling, resizing, timers, runs of the
  highlighter, focus and blur, the context menu and calls of the instance, admitted (\<open>event_ok\<close>) under these conditions: the
  ends given to \<open>replaceRange\<close> are in order and directions are 1 or -1; at a key down, a key press or a poll the hidden input has
  not lost more characters than stand in front of the cursor; at a move or the release of the mouse the start of the
  selection by mouse is still a position of the text; a timer that fires is set, and is not one of the bracket matcher;
  the worker runs only when it is set; no brackets are highlighted at a blur; scroll offsets are not negative,
  a resized window has room for its padding, and the question after the context menu follows an open menu.  After every such
  sequence the editor is well formed, no operation is open, the screen has for the lines of its window, in order,
  one row each with their current content, and every admitted event is handled without an exception.  The bracket
  timers and the blur with highlighted brackets are left out because \<open>matchBrackets\<close> may throw (codemirror.js:1834).\<close>

theorem screen_shows_document:
  assumes "browser_ok br" and "keyboard_ok kb" and "live br (pg_session pg0)" and "visited br kb pg0 pg"
  shows "(\<exists>s. s = pg_session pg \<and> undo_ok (s_ed s) \<and> nestedOperation (s_ed s) = 0 \<and> showingTo (s_ed s) \<le> length (lines (s_ed s)) \<and>
      lineDiv (s_disp s) = map (line_row (br_content br))
        (take (showingTo (s_ed s) - showingFrom (s_ed s)) (drop (showingFrom (s_ed s)) (lines (s_ed s))))) \<and>
    (\<forall>ev. event_ok ev pg \<longrightarrow> (\<exists>pg'. run_event br kb ev pg = Some pg'))"
proof -
  have l: "live br (pg_session pg)" by (rule visited_live [OF assms(4,1-3)])
  with run_event_live [OF assms(1,2) l] liveD [OF l] show ?thesis by (auto simp: rows_ok_def)
qed

definition demo_keyboard :: "(sparql_env, sparql_state) keyboard" where
  "demo_keyboard = \<lparr>kb_table = keyMap False, kb_extra = None, kb_map = Named ''default'', kb_commands = commands (br_measure demo_browser),
     kb_funcs = (\<lambda>n st. Some (st, True)), kb_fuel = 3, onKeyEvent = False\<rparr>"

lemma demo_keyboard_ok: "keyboard_ok demo_keyboard"
proof -
  have "bound_ok (\<lambda>st. Some (st, True))" unfolding bound_ok_def using ui_goes_refl by blast
  then show ?thesis using commands_ok by (simp add: keyboard_ok_def demo_keyboard_def default_chain)
qed

definition demo_page :: "(sparql_env, sparql_state, jstring) page" where
  "demo_page = \<lparr>pg_session = with_ed ((demo_editor ''abc'')\<lparr>mode := sparql_mode 2\<rparr>) (demo_session ''abc''),
     pg_clicks = \<lparr>lastClick = None, lastDoubleClick = None, draggingText = False\<rparr>, pg_gesture = Idle, pg_menu = NoMenu\<rparr>"

lemma demo_page_live: "live demo_browser (pg_session demo_page)"
proof -
  have "session_ok demo_browser (with_ed ((demo_editor ''abc'')\<lparr>focused := False, input := []\<rparr>) (demo_session ''abc''))"
    by (rule demo_session_ok)
  then have "session_ok demo_browser (with_ed ((demo_editor ''abc'')\<lparr>mode := sparql_mode 2\<rparr>) (demo_session ''abc''))"
    by (simp add: session_ok_def with_ed_def rows_ok_def undo_ok_def ed_ok_def struct_ok_def known_def texts_def all_visible_def abs_ed_def)
  moreover have "readOnly (options (demo_editor ''abc'')) = Editable" by code_simp
  ultimately show ?thesis by (auto simp: live_def demo_page_def with_ed_def)
qed

theorem screen_shows_document_witness:
  "\<exists>pg pg'. run_event demo_browser demo_keyboard (TypeInto ''x'') demo_page = Some pg \<and>
     run_event demo_browser demo_keyboard (KeyDown \<lparr>keyCode = 8, altKey = False, ctrlKey = False, metaKey = False, shiftKey = False, altGraphKey = False\<rparr>) pg = Some pg' \<and>
     undo_ok (s_ed (pg_session pg))"
proof -
  let ?k = "KeyDown \<lparr>keyCode = 8, altKey = False, ctrlKey = False, metaKey = False, shiftKey = False, altGraphKey = False\<rparr>"
  obtain pg where pg: "run_event demo_browser demo_keyboard (TypeInto ''x'') demo_page = Some pg"
      "s_ed (pg_session pg) = (demo_editor ''abc'')\<lparr>mode := sparql_mode 2, input := ''x'', pollingFast := True\<rparr>"
    by (simp add: on_session_def fastPoll_def demo_page_def with_ed_def)
  have "visited demo_browser demo_keyboard demo_page pg"
    by (rule visit_event [OF visit_start _ pg(1)]) simp
  note t = screen_shows_document [OF demo_session_ok(2) demo_keyboard_ok demo_page_live this]
  have "prevInput (demo_editor ''abc'') = []" "0 \<le> pch (sel_from (demo_editor ''abc''))" by code_simp+
  then have "event_ok ?k pg" by (simp add: pg(2) input_room_def)
  with t pg(1) show ?thesis by blast
qed

end
