(* ===== verification/CM_Registry.thy ===== *)
theory CM_Registry
  imports CM_Sparql
begin

section \<open>The registry of modes\<close>

text \<open>
  \<open>defineMode\<close>, \<open>defineMIME\<close>, \<open>extendMode\<close>, \<open>resolveMode\<close> and \<open>getMode\<close> of \<open>codemirror.js\<close>.  An object
  of the code is a map from property names to values of a type \<open>'v\<close>; a mode is asked for by a name or by an
  object with a name, and a factory makes the mode from the object that the request resolves to.  The tables
  \<open>modes\<close>, \<open>mimeModes\<close> and \<open>modeExtensions\<close> are association lists, the newest entry first; the names that a
  JavaScript object inherits (\<open>toString\<close>) are not in them.
\<close>

type_synonym 'v object = "jstring \<Rightarrow> 'v option"
type_synonym 'v mode_object = "jstring \<times> 'v object"

datatype 'v spec = SpecName jstring | SpecObject jstring "'v object"

text \<open>A factory is a function with a property, the modes that it depends on.\<close>

record 'v factory =
  f_make :: "'v mode_object \<Rightarrow> 'v object"
  dependencies :: "jstring list option"

record 'v registry =
  modes :: "(jstring \<times> 'v factory) list"
  mimeModes :: "(jstring \<times> 'v spec) list"
  modeExtensions :: "(jstring \<times> 'v object) list"
  defaultMode :: "jstring option"

definition defineMode :: "jstring \<Rightarrow> 'v factory \<Rightarrow> jstring list \<Rightarrow> 'v registry \<Rightarrow> 'v registry" where
  "defineMode name f deps r =
     r\<lparr>defaultMode := (if (defaultMode r = None \<or> defaultMode r = Some '''') \<and> name \<noteq> ''null'' then Some name else defaultMode r),
       modes := (name, if deps = [] then f else f\<lparr>dependencies := Some deps\<rparr>) # modes r\<rparr>"

definition defineMIME :: "jstring \<Rightarrow> 'v spec \<Rightarrow> 'v registry \<Rightarrow> 'v registry" where
  "defineMIME mime sp r = r\<lparr>mimeModes := (mime, sp) # mimeModes r\<rparr>"

definition extendMode :: "jstring \<Rightarrow> 'v object \<Rightarrow> 'v registry \<Rightarrow> 'v registry" where
  "extendMode name props r =
     (let exts = (case map_of (modeExtensions r) name of None \<Rightarrow> Map.empty | Some e \<Rightarrow> e)
      in r\<lparr>modeExtensions := (name, exts ++ props) # modeExtensions r\<rparr>)"

text \<open>\<open>/^[\w\-]+\/[\w\-]+\+xml$/\<close>: neither class contains the separators, so that the parts are determined.\<close>

definition mime_char :: "char \<Rightarrow> bool" where
  "mime_char c \<longleftrightarrow> re_word c \<or> c = CHR ''-''"

definition xml_mime :: "jstring \<Rightarrow> bool" where
  "xml_mime s \<longleftrightarrow>
     takeWhile mime_char s \<noteq> [] \<and>
     (case dropWhile mime_char s of
        [] \<Rightarrow> False
      | c # t \<Rightarrow> c = CHR ''/'' \<and> takeWhile mime_char t \<noteq> [] \<and> dropWhile mime_char t = ''+xml'')"

lemma application_xml [simp]: "\<not> xml_mime ''application/xml''"
  by code_simp

text \<open>\<open>resolveMode\<close>: \<open>None\<close> is a request that is not given.\<close>

function resolveMode :: "'v registry \<Rightarrow> 'v spec option \<Rightarrow> 'v mode_object" where
  "resolveMode r None = (''null'', Map.empty)"
| "resolveMode r (Some (SpecObject n c)) = (n, c)"
| "resolveMode r (Some (SpecName s)) =
     (case map_of (mimeModes r) s of
        Some (SpecName n) \<Rightarrow> (n, Map.empty)
      | Some (SpecObject n c) \<Rightarrow> (n, c)
      | None \<Rightarrow> (if xml_mime s then resolveMode r (Some (SpecName ''application/xml'')) else (s, Map.empty)))"
  by pat_completeness auto
termination
  by (relation "measure (\<lambda>(r, sp). case sp of Some (SpecName s) \<Rightarrow> if xml_mime s then 1 else 0 | _ \<Rightarrow> 0)") auto

definition build_mode :: "'v registry \<Rightarrow> 'v factory \<Rightarrow> 'v mode_object \<Rightarrow> 'v mode_object" where
  "build_mode r f sp =
     (fst sp, f_make f sp ++ (case map_of (modeExtensions r) (fst sp) of None \<Rightarrow> Map.empty | Some e \<Rightarrow> e))"

text \<open>\<open>getMode\<close> asks again for plain text where no mode has the name; without a mode for that it does not end.\<close>

partial_function (option) getMode :: "'v registry \<Rightarrow> 'v spec option \<Rightarrow> 'v mode_object option" where
  [code]: "getMode r sp =
     (case map_of (modes r) (fst (resolveMode r sp)) of
        None \<Rightarrow> getMode r (Some (SpecName ''text/plain''))
      | Some f \<Rightarrow> Some (build_mode r f (resolveMode r sp)))"

definition listModes :: "'v registry \<Rightarrow> jstring list" where
  "listModes r = rev (remdups (map fst (modes r)))"

definition listMIMEs :: "'v registry \<Rightarrow> (jstring \<times> 'v spec option) list" where
  "listMIMEs r = map (\<lambda>m. (m, map_of (mimeModes r) m)) (rev (remdups (map fst (mimeModes r))))"

text \<open>What the script itself registers: the mode \<open>null\<close>, whose one property is its tokenizer, and plain text
  as a MIME type for it.\<close>

definition null_factory :: "'v \<Rightarrow> 'v factory" where
  "null_factory tok = \<lparr>f_make = (\<lambda>sp. [''token'' \<mapsto> tok]), dependencies = None\<rparr>"

definition base_registry :: "'v \<Rightarrow> 'v registry" where
  "base_registry tok = defineMIME ''text/plain'' (SpecName ''null'')
     (defineMode ''null'' (null_factory tok) [] \<lparr>modes = [], mimeModes = [], modeExtensions = [], defaultMode = None\<rparr>)"

subsection \<open>Requests are answered\<close>

datatype 'v registration =
    Mode jstring "'v factory" "jstring list"
  | MIME jstring "'v spec"
  | Extension jstring "'v object"

primrec registered :: "'v registration \<Rightarrow> 'v registry \<Rightarrow> 'v registry" where
  "registered (Mode n f deps) r = defineMode n f deps r"
| "registered (MIME m sp) r = defineMIME m sp r"
| "registered (Extension n ps) r = extendMode n ps r"

fun plain_text :: "'v registration \<Rightarrow> bool" where
  "plain_text (MIME m sp) = (m = ''text/plain'')"
| "plain_text op1 = False"

definition answers :: "'v registry \<Rightarrow> bool" where
  "answers r \<longleftrightarrow> map_of (mimeModes r) ''text/plain'' = Some (SpecName ''null'') \<and> map_of (modes r) ''null'' \<noteq> None"

lemma answers_base: "answers (base_registry tok)"
  by (simp add: answers_def base_registry_def defineMIME_def defineMode_def)

lemma answers_register:
  assumes "answers r" and "\<not> plain_text op1"
  shows "answers (registered op1 r)"
  using assms by (cases op1) (auto simp: answers_def defineMIME_def defineMode_def extendMode_def Let_def)

lemma answers_fold: "answers r \<Longrightarrow> \<forall>op1\<in>set regs. \<not> plain_text op1 \<Longrightarrow> answers (fold registered regs r)"
  by (induction regs arbitrary: r) (auto simp: answers_register)

lemma getMode_answers:
  assumes "answers r"
  shows "getMode r sp =
           Some (case map_of (modes r) (fst (resolveMode r sp)) of
                   Some f \<Rightarrow> build_mode r f (resolveMode r sp)
                 | None \<Rightarrow> build_mode r (the (map_of (modes r) ''null'')) (''null'', Map.empty))"
proof (cases "map_of (modes r) (fst (resolveMode r sp))")
  case None
  obtain f where f: "map_of (modes r) ''null'' = Some f"
    using assms by (auto simp: answers_def)
  have "resolveMode r (Some (SpecName ''text/plain'')) = (''null'', Map.empty)"
    using assms by (simp add: answers_def)
  then have "getMode r (Some (SpecName ''text/plain'')) = Some (build_mode r f (''null'', Map.empty))"
    using f by (simp add: getMode.simps [of r "Some (SpecName ''text/plain'')"])
  then show ?thesis
    using None f by (simp add: getMode.simps [of r sp])
qed (simp add: getMode.simps [of r sp])

text \<open>C22: Once the script has run, and whatever modes, MIME types (other than plain text) and extensions are registered
  after that, a request for a mode is answered: \<open>getMode\<close> returns, with the mode of the name that the request
  resolves to, made by the factory last registered under it and carrying the extensions of that name; where
  no mode has the name, the mode \<open>null\<close>.\<close>

theorem mode_requests_answered:
  assumes "\<forall>op1\<in>set regs. \<not> plain_text op1"
  shows "getMode (fold registered regs (base_registry tok)) sp =
           Some (let r = fold registered regs (base_registry tok)
                 in case map_of (modes r) (fst (resolveMode r sp)) of
                      Some f \<Rightarrow> build_mode r f (resolveMode r sp)
                    | None \<Rightarrow> build_mode r (the (map_of (modes r) ''null'')) (''null'', Map.empty))"
  unfolding Let_def by (rule getMode_answers [OF answers_fold [OF answers_base assms]])

definition sample_factory :: "jstring factory" where
  "sample_factory = \<lparr>f_make = (\<lambda>sp. [''fold'' \<mapsto> ''tag'', ''from'' \<mapsto> fst sp]), dependencies = None\<rparr>"

definition sample_registrations :: "jstring registration list" where
  "sample_registrations =
     [Mode ''xml'' sample_factory [''null''], MIME ''application/xml'' (SpecName ''xml''),
      Extension ''xml'' [''fold'' \<mapsto> ''xml'']]"

theorem mode_requests_answered_witness:
  "\<exists>m. getMode (fold registered sample_registrations (base_registry [])) (Some (SpecName ''image/svg+xml'')) = Some m \<and>
       fst m = ''xml'' \<and> snd m ''fold'' = Some ''xml'' \<and> snd m ''from'' = Some ''xml''"
proof -
  let ?r = "fold registered sample_registrations (base_registry [])"
  have "\<forall>op1\<in>set sample_registrations. \<not> plain_text op1"
    by (simp add: sample_registrations_def)
  note g = mode_requests_answered [OF this, where sp = "Some (SpecName ''image/svg+xml'')" and tok = "[]", unfolded Let_def]
  have x: "xml_mime ''image/svg+xml''" by code_simp
  have m: "map_of (mimeModes ?r) = [''text/plain'' \<mapsto> SpecName ''null'', ''application/xml'' \<mapsto> SpecName ''xml'']"
    by (auto simp: sample_registrations_def base_registry_def defineMIME_def defineMode_def extendMode_def fun_upd_def)
  have r: "resolveMode ?r (Some (SpecName ''image/svg+xml'')) = (''xml'', Map.empty)"
    using x by (simp add: m)
  have f: "map_of (modes ?r) ''xml'' = Some (sample_factory\<lparr>dependencies := Some [''null'']\<rparr>)"
    by (simp add: sample_registrations_def base_registry_def defineMIME_def defineMode_def extendMode_def)
  have e: "map_of (modeExtensions ?r) ''xml'' = Some [''fold'' \<mapsto> ''xml'']"
    by (simp add: sample_registrations_def base_registry_def defineMIME_def defineMode_def extendMode_def)
  show ?thesis
    by (rule exI, rule conjI, rule g) (simp add: r f e build_mode_def sample_factory_def del: resolveMode.simps)
qed

end
