(* ===== verification/CM_Embed.thy ===== *)
theory CM_Embed
  imports CM_Operation CM_Split CM_Demo
begin

section \<open>An editor in place of a text area\<close>

text \<open>
  \<open>CodeMirror.fromTextArea\<close> with \<open>save\<close>, \<open>toTextArea\<close> and the wrapper that it puts around the method \<open>submit\<close> of the form;
  what the constructor does with the given options, the extensions and the focus; \<open>setSize\<close> and the caches of
  \<open>textHeight\<close> and \<open>charWidth\<close>.  The text areas of a form, and the editors in place of them, are numbered.
\<close>

subsection \<open>Options, extensions and focus\<close>

text \<open>A given option counts when it is an own property of the given object.\<close>

definition merge_options :: "(jstring \<rightharpoonup> 'v) option \<Rightarrow> (jstring \<rightharpoonup> 'v) \<Rightarrow> jstring \<rightharpoonup> 'v" where
  "merge_options given defs opt =
     (if defs opt = None then None
      else case given of None \<Rightarrow> defs opt | Some g \<Rightarrow> (if g opt \<noteq> None then g opt else defs opt))"

definition defineExtension :: "jstring \<Rightarrow> 'f \<Rightarrow> (jstring \<rightharpoonup> 'f) \<Rightarrow> jstring \<rightharpoonup> 'f" where
  "defineExtension name f exts = exts(name \<mapsto> f)"

definition add_extensions :: "(jstring \<times> 'f) list \<Rightarrow> (jstring \<rightharpoonup> 'f) \<Rightarrow> jstring \<rightharpoonup> 'f" where
  "add_extensions exts inst = fold (\<lambda>(name, f) t. if t name = None then t(name \<mapsto> f) else t) exts inst"

datatype active = OnArea | OnBody | OnOther

definition autofocus_option :: "bool option \<Rightarrow> bool \<Rightarrow> active \<Rightarrow> bool" where
  "autofocus_option opt attribute hasFocus =
     (case opt of Some b \<Rightarrow> b | None \<Rightarrow> hasFocus = OnArea \<or> (attribute \<and> hasFocus = OnBody))"

text \<open>The end of the constructor; the delayed \<open>onFocus\<close> is run at once.\<close>

definition init_focus :: "('s, 'c) browser \<Rightarrow> bool \<Rightarrow> bool \<Rightarrow> ('g, 's, 'c) session \<Rightarrow> ('g, 's, 'c) session option" where
  "init_focus br hasFocus autofocus s = (if hasFocus \<or> autofocus then Some (onFocus s) else onBlur br s)"

subsection \<open>Sizes\<close>

text \<open>\<open>interpret\<close> of \<open>setSize\<close>.\<close>

definition css_size :: "jstring \<Rightarrow> jstring" where
  "css_size val = (if val \<noteq> [] \<and> list_all is_digit val then val @ ''px'' else val)"

text \<open>
  The caches of the sizes of a character, each valid for one size of its element; \<open>None\<close> is \<open>undefined\<close>.  The
  measured height is that of 50 lines.
\<close>

record size_cache =
  cachedHeight :: "rat option"
  cachedHeightFor :: "nat option"
  cachedWidth :: "nat option"
  cachedWidthFor :: nat

definition newCache :: size_cache where
  "newCache = \<lparr>cachedHeight = None, cachedHeightFor = None, cachedWidth = None, cachedWidthFor = 0\<rparr>"

definition cm_textHeight :: "nat \<Rightarrow> nat \<Rightarrow> size_cache \<Rightarrow> rat option \<times> size_cache" where
  "cm_textHeight offsetHeight measured c =
     (if cachedHeightFor c = Some offsetHeight then (cachedHeight c, c)
      else let h = (if measured = 0 then 1 else of_nat measured / 50)
           in (Some h, c\<lparr>cachedHeightFor := Some offsetHeight, cachedHeight := Some h\<rparr>))"

definition cm_charWidth :: "nat \<Rightarrow> nat \<Rightarrow> size_cache \<Rightarrow> nat option \<times> size_cache" where
  "cm_charWidth client measured c =
     (if cachedWidthFor c = client then (cachedWidth c, c)
      else let w = (if measured = 0 then 10 else measured)
           in (Some w, c\<lparr>cachedWidthFor := client, cachedWidth := Some w\<rparr>))"

text \<open>
  What the caches answer is what would be measured, \<open>h\<close> and \<open>w\<close> for each size of the elements; only in an editor that
  is hidden from the start is the width of a character undefined.
\<close>

definition cache_ok :: "(nat \<Rightarrow> nat) \<Rightarrow> (nat \<Rightarrow> nat) \<Rightarrow> size_cache \<Rightarrow> bool" where
  "cache_ok h w c \<longleftrightarrow>
     (\<forall>k. cachedHeightFor c = Some k \<longrightarrow> cachedHeight c = Some (if h k = 0 then 1 else of_nat (h k) / 50)) \<and>
     (cachedWidthFor c = 0 \<longrightarrow> cachedWidth c = None \<or> cachedWidth c = Some (if w 0 = 0 then 10 else w 0)) \<and>
     (cachedWidthFor c \<noteq> 0 \<longrightarrow> cachedWidth c = Some (if w (cachedWidthFor c) = 0 then 10 else w (cachedWidthFor c)))"

lemma caches_coherent:
  assumes "cache_ok h w c"
  shows "cache_ok h w (snd (cm_textHeight k (h k) c))" "cache_ok h w (snd (cm_charWidth k (w k) c))"
    "fst (cm_textHeight k (h k) c) = Some (if h k = 0 then 1 else of_nat (h k) / 50)"
    "0 < k \<Longrightarrow> fst (cm_charWidth k (w k) c) = Some (if w k = 0 then 10 else w k)"
  using assms by (auto simp: cache_ok_def cm_textHeight_def cm_charWidth_def Let_def)

lemma hidden_width: "cache_ok h w newCache" "fst (cm_charWidth 0 (w 0) newCache) = None"
  by (simp_all add: cache_ok_def newCache_def cm_charWidth_def)

subsection \<open>The form\<close>

text \<open>The method \<open>submit\<close> of the form: its own one, or the wrapper of an editor.\<close>

datatype submit_fun = RealSubmit | WrappedSubmit nat

record ('g, 's) form =
  areas :: "nat \<Rightarrow> jstring"
  editors :: "nat \<Rightarrow> ('g, 's) editor option"
  submit_of :: submit_fun
  realSubmit :: "nat \<Rightarrow> submit_fun"
  on_submit :: "nat list"
  sent :: "(nat \<Rightarrow> jstring) list"

definition save :: "nat \<Rightarrow> ('g, 's) form \<Rightarrow> ('g, 's) form" where
  "save i fm = (case editors fm i of None \<Rightarrow> fm | Some ed \<Rightarrow> fm\<lparr>areas := (areas fm)(i := getValue ed [nl])\<rparr>)"

definition fromTextArea ::
    "('g, 's) mode \<Rightarrow> 'g \<Rightarrow> options \<Rightarrow> screen \<Rightarrow> nat \<Rightarrow> ('g, 's) form \<Rightarrow> ('g, 's) form option" where
  "fromTextArea m g opts scr i fm = do {
     ed \<leftarrow> newEditor m g opts scr (areas fm i);
     Some (fm\<lparr>on_submit := on_submit fm @ [i], realSubmit := (realSubmit fm)(i := submit_of fm),
       submit_of := WrappedSubmit i, editors := (editors fm)(i \<mapsto> ed)\<rparr>) }"

text \<open>A call of a method \<open>submit\<close>; each wrapper calls the one that it found, so their number is enough fuel.\<close>

fun run_submit :: "nat \<Rightarrow> submit_fun \<Rightarrow> ('g, 's) form \<Rightarrow> ('g, 's) form option" where
  "run_submit fuel RealSubmit fm = Some (fm\<lparr>sent := sent fm @ [areas fm]\<rparr>)"
| "run_submit 0 (WrappedSubmit i) fm = None"
| "run_submit (Suc fuel) (WrappedSubmit i) fm = do {
     let fm1 = save i fm;
     let fm2 = fm1\<lparr>submit_of := realSubmit fm i\<rparr>;
     fm3 \<leftarrow> run_submit fuel (submit_of fm2) fm2;
     Some (fm3\<lparr>submit_of := WrappedSubmit i\<rparr>) }"

text \<open>The user presses the button: the listeners, and then the browser sends the form.\<close>

definition press_submit :: "('g, 's) form \<Rightarrow> ('g, 's) form" where
  "press_submit fm = (let fm1 = fold save (on_submit fm) fm in fm1\<lparr>sent := sent fm1 @ [areas fm1]\<rparr>)"

definition toTextArea :: "nat \<Rightarrow> ('g, 's) form \<Rightarrow> ('g, 's) form" where
  "toTextArea i fm = (let fm1 = save i fm in
     fm1\<lparr>on_submit := remove1 i (on_submit fm1), submit_of := realSubmit fm1 i, editors := (editors fm1)(i := None)\<rparr>)"

subsection \<open>What is sent\<close>

text \<open>The editors in the order in which they wrapped the method, the last one first.\<close>

fun wrapper :: "nat list \<Rightarrow> submit_fun" where
  "wrapper [] = RealSubmit"
| "wrapper (i # is) = WrappedSubmit i"

fun wrapped :: "('g, 's) form \<Rightarrow> nat list \<Rightarrow> bool" where
  "wrapped fm [] = True"
| "wrapped fm (i # is) = (realSubmit fm i = wrapper is \<and> i \<notin> set is \<and> editors fm i \<noteq> None \<and> wrapped fm is)"

definition stacked :: "('g, 's) form \<Rightarrow> nat list \<Rightarrow> bool" where
  "stacked fm is \<longleftrightarrow> submit_of fm = wrapper is \<and> wrapped fm is \<and> set (on_submit fm) = set is"

definition form_current :: "('g, 's) form \<Rightarrow> nat set \<Rightarrow> nat \<Rightarrow> jstring" where
  "form_current fm I i = (if i \<in> I then case editors fm i of None \<Rightarrow> areas fm i | Some ed \<Rightarrow> getValue ed [nl] else areas fm i)"

lemma save_simps [simp]:
  "editors (save i fm) = editors fm" "submit_of (save i fm) = submit_of fm" "realSubmit (save i fm) = realSubmit fm"
  "on_submit (save i fm) = on_submit fm" "sent (save i fm) = sent fm"
  by (simp_all add: save_def split: option.split)

lemma save_areas: "areas (save i fm) = form_current fm {i}"
  by (rule ext) (simp add: save_def form_current_def split: option.split)

lemma form_current_save: "form_current (save i fm) I = form_current fm (insert i I)"
  by (rule ext) (auto simp: form_current_def save_areas split: option.split)

lemma form_current_submit [simp]: "form_current (fm\<lparr>submit_of := w\<rparr>) I = form_current fm I"
  by (rule ext) (auto simp: form_current_def split: option.split)

lemma wrapped_same: "realSubmit fm' = realSubmit fm \<Longrightarrow> editors fm' = editors fm \<Longrightarrow> wrapped fm' is = wrapped fm is"
  by (induction "is") auto

lemma run_submit_wrapped:
  "wrapped fm is \<Longrightarrow> \<exists>fm'. run_submit (length is) (wrapper is) fm = Some fm' \<and> sent fm' = sent fm @ [form_current fm (set is)] \<and>
     editors fm' = editors fm \<and> realSubmit fm' = realSubmit fm \<and> on_submit fm' = on_submit fm \<and>
     areas fm' = form_current fm (set is) \<and> (is \<noteq> [] \<longrightarrow> submit_of fm' = wrapper is)"
proof (induction "is" arbitrary: fm)
  case Nil
  have "areas fm = form_current fm {}" by (rule ext) (simp add: form_current_def)
  then show ?case by simp
next
  case (Cons i "is")
  let ?fm = "(save i fm)\<lparr>submit_of := wrapper is\<rparr>"
  have "wrapped ?fm is" using Cons.prems wrapped_same [of ?fm fm "is"] by simp
  then obtain fm3 where f: "run_submit (length is) (wrapper is) ?fm = Some fm3" "sent fm3 = sent ?fm @ [form_current ?fm (set is)]"
      "editors fm3 = editors ?fm" "realSubmit fm3 = realSubmit ?fm" "on_submit fm3 = on_submit ?fm" "areas fm3 = form_current ?fm (set is)"
    using Cons.IH by blast
  have c: "form_current ?fm (set is) = form_current fm (set (i # is))"
    by (simp add: form_current_save)
  have "run_submit (length (i # is)) (wrapper (i # is)) fm = Some (fm3\<lparr>submit_of := WrappedSubmit i\<rparr>)"
    using Cons.prems f(1) by (simp add: Let_def)
  with f(2-) c show ?case by simp
qed

lemma fold_save:
  "areas (fold save is fm) = form_current fm (set is) \<and> editors (fold save is fm) = editors fm \<and> sent (fold save is fm) = sent fm"
proof (induction "is" arbitrary: fm)
  case Nil
  show ?case by (auto simp: form_current_def)
next
  case (Cons i "is")
  show ?case using Cons [of "save i fm"] by (simp add: form_current_save)
qed

lemma stacked_embed:
  assumes "stacked fm is" and "i \<notin> set is"
  shows "\<exists>fm'. fromTextArea m g opts scr i fm = Some fm' \<and> stacked fm' (i # is) \<and> areas fm' = areas fm \<and>
    (\<exists>ed. editors fm' = (editors fm)(i \<mapsto> ed) \<and> undo_ok ed \<and> getValue ed [nl] = norm_nl (areas fm i))"
proof -
  obtain ed where ed: "newEditor m g opts scr (areas fm i) = Some ed" "undo_ok ed" "texts ed = splitLines (areas fm i)"
    using newEditor_ok [of m g opts scr "areas fm i"] by blast
  let ?fm = "fm\<lparr>on_submit := on_submit fm @ [i], realSubmit := (realSubmit fm)(i := submit_of fm),
     submit_of := WrappedSubmit i, editors := (editors fm)(i \<mapsto> ed)\<rparr>"
  have w: "i \<notin> set js \<Longrightarrow> wrapped fm js \<Longrightarrow> wrapped ?fm js" for js by (induction js) auto
  have "stacked ?fm (i # is)" using assms w [of "is"] by (auto simp: stacked_def)
  moreover have "getValue ed [nl] = norm_nl (areas fm i)"
    using ed(3) undo_okD(2) [OF ed(2)] by (simp add: getValue_texts flat_splitLines [symmetric] flat_def)
  ultimately show ?thesis using ed(1,2) by (simp add: fromTextArea_def) blast
qed

lemma wrapped_close: "wrapped fm js \<Longrightarrow> i \<notin> set js \<Longrightarrow> wrapped (toTextArea i fm) js"
  by (induction js) (auto simp: toTextArea_def Let_def)

lemma stacked_closed:
  assumes "stacked fm is" and i: "i \<notin> set is"
  shows "\<exists>fm1. fromTextArea m g opts scr i fm = Some fm1 \<and> stacked fm1 (i # is) \<and>
    areas (toTextArea i fm1) = (areas fm)(i := norm_nl (areas fm i)) \<and>
    submit_of (toTextArea i fm1) = submit_of fm \<and> set (on_submit (toTextArea i fm1)) = set (on_submit fm)"
proof -
  obtain fm1 ed where f: "fromTextArea m g opts scr i fm = Some fm1" "stacked fm1 (i # is)" "areas fm1 = areas fm"
      "editors fm1 = (editors fm)(i \<mapsto> ed)" "getValue ed [nl] = norm_nl (areas fm i)"
    using stacked_embed [OF assms] by blast
  have o: "on_submit fm1 = on_submit fm @ [i]" "realSubmit fm1 i = submit_of fm" using f(1) by (auto simp: fromTextArea_def bind_eq_Some_conv)
  have "i \<notin> set (on_submit fm)" using assms by (simp add: stacked_def)
  then have "remove1 i (on_submit fm1) = on_submit fm" by (simp add: o(1) remove1_append)
  moreover have "areas (toTextArea i fm1) = (areas fm)(i := norm_nl (areas fm i))"
    by (rule ext) (simp add: toTextArea_def Let_def save_areas form_current_def f(3-5))
  ultimately show ?thesis using f(1,2) o(2) by (simp add: toTextArea_def Let_def)
qed

text \<open>
  C20: Editors in a form: however many text areas of a form have been replaced, a call of \<open>submit\<close> and a press of the
  button both send the form once, with the content of every editor in its text area, and the call leaves the
  method as it was.  A text area that is replaced and put back gets its own text, with normalised line ends, and the
  form is as before.  But only the editor that came last may be closed: closing the one before it takes both wrappers
  off, and what is then sent of the last one is the old content of its text area.
\<close>

theorem form_sends_editors:
  assumes "stacked fm is"
  shows "(\<exists>fm'. run_submit (length is) (submit_of fm) fm = Some fm' \<and> sent fm' = sent fm @ [form_current fm (set is)] \<and>
      (is \<noteq> [] \<longrightarrow> submit_of fm' = submit_of fm) \<and> editors fm' = editors fm) \<and>
    sent (press_submit fm) = sent fm @ [form_current fm (set is)] \<and>
    (\<forall>i. i \<notin> set is \<longrightarrow> (\<exists>fm1. fromTextArea m g opts scr i fm = Some fm1 \<and> stacked fm1 (i # is) \<and>
      areas (toTextArea i fm1) = (areas fm)(i := norm_nl (areas fm i)) \<and>
      submit_of (toTextArea i fm1) = submit_of fm \<and> set (on_submit (toTextArea i fm1)) = set (on_submit fm))) \<and>
    (\<forall>j i js. is = j # i # js \<longrightarrow> submit_of (toTextArea i fm) = wrapper js \<and>
      (\<exists>fm'. run_submit (length js) (submit_of (toTextArea i fm)) (toTextArea i fm) = Some fm' \<and> areas fm' j = areas fm j))"
proof (intro conjI allI impI)
  have w: "submit_of fm = wrapper is" "wrapped fm is" "set (on_submit fm) = set is" using assms by (simp_all add: stacked_def)
  show "\<exists>fm'. run_submit (length is) (submit_of fm) fm = Some fm' \<and> sent fm' = sent fm @ [form_current fm (set is)] \<and>
      (is \<noteq> [] \<longrightarrow> submit_of fm' = submit_of fm) \<and> editors fm' = editors fm"
    using run_submit_wrapped [OF w(2)] w(1) by auto
  show "sent (press_submit fm) = sent fm @ [form_current fm (set is)]"
    using fold_save [of "on_submit fm" fm] w(3) by (simp add: press_submit_def Let_def)
  fix i assume i: "i \<notin> set is"
  show "\<exists>fm1. fromTextArea m g opts scr i fm = Some fm1 \<and> stacked fm1 (i # is) \<and>
      areas (toTextArea i fm1) = (areas fm)(i := norm_nl (areas fm i)) \<and>
      submit_of (toTextArea i fm1) = submit_of fm \<and> set (on_submit (toTextArea i fm1)) = set (on_submit fm)"
    using stacked_closed [OF assms i] by blast
next
  fix j i js assume e: "is = j # i # js"
  then have w: "realSubmit fm i = wrapper js" "wrapped fm js" "j \<noteq> i" "i \<notin> set js" "j \<notin> set js" using assms by (auto simp: stacked_def)
  show s: "submit_of (toTextArea i fm) = wrapper js" using w(1) by (simp add: toTextArea_def Let_def)
  have "wrapped (toTextArea i fm) js" using wrapped_close [OF w(2,4)] .
  then obtain fm' where f: "run_submit (length js) (wrapper js) (toTextArea i fm) = Some fm'" "areas fm' = form_current (toTextArea i fm) (set js)"
    using run_submit_wrapped by blast
  have "areas fm' j = areas (save i fm) j" using w(5) by (simp add: f(2) form_current_def toTextArea_def Let_def)
  also have "\<dots> = areas fm j" using w(3) by (simp add: save_areas form_current_def)
  finally show "\<exists>fm'. run_submit (length js) (submit_of (toTextArea i fm)) (toTextArea i fm) = Some fm' \<and> areas fm' j = areas fm j"
    using f(1) s by simp
qed

text \<open>A form with two text areas, of which the first has been replaced.\<close>

definition demo_form :: "(sparql_env, sparql_state) form" where
  "demo_form = \<lparr>areas = (\<lambda>i. if i = 0 then ''a'' else ''b''), editors = (\<lambda>_. None), submit_of = RealSubmit,
     realSubmit = (\<lambda>_. RealSubmit), on_submit = [], sent = []\<rparr>"

theorem form_sends_editors_witness:
  "\<exists>(fm :: (sparql_env, sparql_state) form) fm'. stacked fm [0] \<and> run_submit 1 (submit_of fm) fm = Some fm' \<and> sent fm' = [form_current fm {0}]"
proof -
  let ?scr = "\<lparr>clientWidth = 800, clientHeight = 600, charWidth = 8, textHeight = 16, paddingTop = 4, paddingLeft = 4\<rparr> :: screen"
  have "stacked demo_form []" by (simp add: stacked_def demo_form_def)
  then obtain fm where f: "fromTextArea (sparql_mode 2) sparql_env0 defaults ?scr 0 demo_form = Some fm" "stacked fm [0]"
    using stacked_embed [of demo_form "[]" 0] by fastforce
  then have fm: "stacked fm [0]" "sent fm = []" by (auto simp: fromTextArea_def demo_form_def bind_eq_Some_conv)
  obtain fm' where "run_submit 1 (submit_of fm) fm = Some fm'" "sent fm' = [form_current fm {0}]"
    using conjunct1 [OF form_sends_editors [OF fm(1), of "sparql_mode 2" sparql_env0 defaults ?scr]] fm(2) by auto
  with fm(1) show ?thesis by blast
qed

end
