(* ===== verification/Js_Numbers.thy ===== *)
theory Js_Numbers
  imports Js_Prelude
begin

text \<open>
  Decimal numerals as the scripts write and read them: the value of a string of digits, and the facts
  on \<open>nat_digits\<close> that the tables keyed by numbers and the format strings share.
\<close>

definition digits_nat :: "jstring \<Rightarrow> nat" where
  "digits_nat s = fold (\<lambda>c n. 10 * n + (code c - 48)) s 0"

lemma code_digit: "d < 10 \<Longrightarrow> code (char_of (48 + d :: nat)) = 48 + d \<and> is_digit (char_of (48 + d))"
  by (simp add: code_def is_digit_def)

lemma nat_digits_digits: "c \<in> set (nat_digits n) \<Longrightarrow> is_digit c"
proof (induction n rule: nat_digits.induct)
  case (1 n)
  then show ?case using code_digit[of "n mod 10"] code_digit[of n]
    by (subst (asm) nat_digits.simps) (auto split: if_splits)
qed

lemma nat_digits_not_Nil [simp]: "nat_digits n \<noteq> []"
  by (subst nat_digits.simps) simp

lemma digits_nat_snoc: "digits_nat (s @ [c]) = 10 * digits_nat s + (code c - 48)"
  by (simp add: digits_nat_def)

text \<open>Reading a numeral back.\<close>

lemma digits_nat_digits [simp]: "digits_nat (nat_digits n) = n"
proof (induction n rule: nat_digits.induct)
  case (1 n)
  show ?case
  proof (cases "n < 10")
    case True
    then show ?thesis using code_digit[of n] by (subst nat_digits.simps) (simp add: digits_nat_def)
  next
    case False
    then show ?thesis using 1 code_digit[of "n mod 10"]
      by (subst nat_digits.simps) (simp add: digits_nat_snoc)
  qed
qed

lemma hd_nat_digits: "0 < n \<Longrightarrow> hd (nat_digits n) \<noteq> CHR ''0''"
proof (induction n rule: nat_digits.induct)
  case (1 n)
  show ?case
  proof (cases "n < 10")
    case True
    have "code (char_of (48 + n)) = 48 + n" using code_digit True by blast
    moreover have "code (CHR ''0'') = 48" by (simp add: code_def)
    ultimately have "char_of (48 + n) \<noteq> CHR ''0''" using 1(2) by (metis add_cancel_left_right less_irrefl)
    then show ?thesis using True by (subst nat_digits.simps) simp
  next
    case False
    then have "hd (nat_digits (n div 10)) \<noteq> CHR ''0''" using 1 by auto
    then show ?thesis using False by (subst nat_digits.simps) simp
  qed
qed

lemma takeWhile_digits:
  "r = [] \<or> \<not> is_digit (hd r) \<Longrightarrow> takeWhile is_digit (nat_digits n @ r) = nat_digits n
     \<and> dropWhile is_digit (nat_digits n @ r) = r"
  using nat_digits_digits[of _ n] by (cases r) (auto simp: takeWhile_tail dropWhile_append)

end
