(* ===== verification/Springy_Graph.thy ===== *)
theory Springy_Graph
  imports Complex_Main "HOL-Library.AList" Js_Numbers
begin

text \<open>
  The graph of \<open>springy.js\<close>: \<open>Node\<close>, \<open>Edge\<close> and \<open>Graph\<close> with all its operations.

  A JavaScript object that is used as a table is an association list from property names to
  values. Property names are strings: a numeric id is turned into its decimal string by every
  \<open>id in table\<close> and \<open>table[id]\<close>, while \<open>id === id\<close> compares the ids themselves. The \<open>in\<close> operator also
  sees the members that every object inherits from \<open>Object.prototype\<close>; reading such a member as an
  entry of the table is an exception of the model. (The legacy members with underscores in their
  names are left out.)
\<close>

section \<open>Tables\<close>

type_synonym 'v obj = "(jstring \<times> 'v) list"

definition object_proto :: "jstring list" where
  "object_proto = [''constructor'', ''hasOwnProperty'', ''isPrototypeOf'', ''propertyIsEnumerable'',
     ''toLocaleString'', ''toString'', ''valueOf'']"

definition in_obj :: "jstring \<Rightarrow> 'v obj \<Rightarrow> bool" where
  "in_obj k m \<longleftrightarrow> k \<in> set (map fst m) \<or> k \<in> set object_proto"

text \<open>The function \<open>isEmpty\<close> looks for own properties only.\<close>

definition isEmpty :: "'v obj \<Rightarrow> bool" where
  "isEmpty m \<longleftrightarrow> m = []"

section \<open>Nodes and edges\<close>

datatype gid = NumId int | StrId jstring

fun id_key :: "gid \<Rightarrow> jstring" where
  "id_key (NumId i) = int_str i"
| "id_key (StrId s) = s"

text \<open>The data of a node and of an edge: the fields that the layout and the renderer read.\<close>

record node_data =
  mass :: "real option"
  label :: "jstring option"

record edge_data =
  rest_length :: "real option"
  etype :: "jstring option"

definition no_node_data :: node_data where
  "no_node_data = \<lparr>mass = None, label = None\<rparr>"

definition no_edge_data :: edge_data where
  "no_edge_data = \<lparr>rest_length = None, etype = None\<rparr>"

record node =
  nid :: gid
  ndata :: node_data

record edge =
  eid :: gid
  source :: node
  target :: node
  edata :: edge_data

definition newNodeObj :: "gid \<Rightarrow> node_data option \<Rightarrow> node" where
  "newNodeObj i d = \<lparr>nid = i, ndata = (case d of Some x \<Rightarrow> x | None \<Rightarrow> no_node_data)\<rparr>"

definition newEdgeObj :: "gid \<Rightarrow> node \<Rightarrow> node \<Rightarrow> edge_data option \<Rightarrow> edge" where
  "newEdgeObj i s t d =
     \<lparr>eid = i, source = s, target = t, edata = (case d of Some x \<Rightarrow> x | None \<Rightarrow> no_edge_data)\<rparr>"

definition src_key :: "edge \<Rightarrow> jstring" where "src_key e = id_key (nid (source e))"
definition tgt_key :: "edge \<Rightarrow> jstring" where "tgt_key e = id_key (nid (target e))"

section \<open>The graph\<close>

record graph =
  nodeSet :: "node obj"
  nodes :: "node list"
  edges :: "edge list"
  adjacency :: "edge list obj obj"
  nextNodeId :: int
  nextEdgeId :: int
  eventListeners :: "nat list"
  changed :: "nat list"

text \<open>
  A listener is a number, and \<open>changed\<close> is the sequence of the \<open>graphChanged\<close> calls made so far. An
  operation that may throw returns the exception, if any, with the graph it leaves behind.
\<close>

datatype exn = TypeError jstring | Inherited jstring

type_synonym 'a throws = "exn option \<times> 'a"

definition newGraph :: graph where
  "newGraph = \<lparr>nodeSet = [], nodes = [], edges = [], adjacency = [], nextNodeId = 0, nextEdgeId = 0,
     eventListeners = [], changed = []\<rparr>"

definition notify :: "graph \<Rightarrow> graph" where
  "notify g = g\<lparr>changed := changed g @ eventListeners g\<rparr>"

definition addGraphListener :: "nat \<Rightarrow> graph \<Rightarrow> graph" where
  "addGraphListener obj g = g\<lparr>eventListeners := eventListeners g @ [obj]\<rparr>"

definition addNode :: "node \<Rightarrow> graph \<Rightarrow> graph" where
  "addNode n g =
     (let k = id_key (nid n);
          g1 = (if in_obj k (nodeSet g) then g else g\<lparr>nodes := nodes g @ [n]\<rparr>)
      in notify (g1\<lparr>nodeSet := AList.update k n (nodeSet g1)\<rparr>))"

definition addNodes :: "jstring list \<Rightarrow> graph \<Rightarrow> graph" where
  "addNodes names =
     fold (\<lambda>name. addNode (newNodeObj (StrId name) (Some (no_node_data\<lparr>label := Some name\<rparr>)))) names"

text \<open>
  \<open>addEdge\<close>: the row of the source and the cell of the target are created when they are missing. A
  source that names an inherited member would write into that member; a target that does finds a
  function instead of an array and fails at its \<open>forEach\<close>.
\<close>

definition row_of :: "jstring \<Rightarrow> edge list obj obj \<Rightarrow> exn + edge list obj" where
  "row_of s adj =
     (case map_of adj s of
        Some row \<Rightarrow> Inr row
      | None \<Rightarrow> if s \<in> set object_proto then Inl (Inherited s) else Inr [])"

definition cell_of :: "jstring \<Rightarrow> edge list obj \<Rightarrow> exn + edge list" where
  "cell_of t row =
     (case map_of row t of
        Some es \<Rightarrow> Inr es
      | None \<Rightarrow> if t \<in> set object_proto then Inl (TypeError ''forEach is not a function'') else Inr [])"

definition push_new :: "edge \<Rightarrow> edge list \<Rightarrow> edge list" where
  "push_new e es = (if \<exists>e' \<in> set es. eid e = eid e' then es else es @ [e])"

definition addEdge :: "edge \<Rightarrow> graph \<Rightarrow> graph throws" where
  "addEdge e g =
     (let g1 = g\<lparr>edges := push_new e (edges g)\<rparr>; s = src_key e; t = tgt_key e in
      case row_of s (adjacency g1) of
        Inl x \<Rightarrow> (Some x, g1)
      | Inr row \<Rightarrow>
          (case cell_of t row of
             Inl x \<Rightarrow> (Some x, g1\<lparr>adjacency := AList.update s row (adjacency g1)\<rparr>)
           | Inr es \<Rightarrow>
               (None, notify (g1\<lparr>adjacency :=
                  AList.update s (AList.update t (push_new e es) row) (adjacency g1)\<rparr>))))"

definition newNode :: "node_data option \<Rightarrow> graph \<Rightarrow> node \<times> graph" where
  "newNode d g =
     (let n = newNodeObj (NumId (nextNodeId g)) d
      in (n, addNode n (g\<lparr>nextNodeId := nextNodeId g + 1\<rparr>)))"

definition newEdge :: "node \<Rightarrow> node \<Rightarrow> edge_data option \<Rightarrow> graph \<Rightarrow> graph throws" where
  "newEdge s t d g =
     addEdge (newEdgeObj (NumId (nextEdgeId g)) s t d) (g\<lparr>nextEdgeId := nextEdgeId g + 1\<rparr>)"

definition node_named :: "jstring \<Rightarrow> graph \<Rightarrow> exn + node" where
  "node_named name g =
     (case map_of (nodeSet g) name of
        Some n \<Rightarrow> Inr n
      | None \<Rightarrow> if name \<in> set object_proto then Inl (Inherited name)
                else Inl (TypeError (''invalid node name: '' @ name)))"

fun addEdges :: "(jstring \<times> jstring \<times> edge_data option) list \<Rightarrow> graph \<Rightarrow> graph throws" where
  "addEdges [] g = (None, g)"
| "addEdges ((a, b, attr) # es) g =
     (case node_named a g of
        Inl x \<Rightarrow> (Some x, g)
      | Inr n1 \<Rightarrow>
          (case node_named b g of
             Inl x \<Rightarrow> (Some x, g)
           | Inr n2 \<Rightarrow>
               (case newEdge n1 n2 attr g of
                  (Some x, g') \<Rightarrow> (Some x, g')
                | (None, g') \<Rightarrow> addEdges es g')))"

text \<open>
  \<open>loadJSON\<close> takes an object or a text that \<open>JSON.parse\<close> turns into one. A missing list is \<open>undefined\<close>,
  for which \<open>apply\<close> passes no arguments.
\<close>

record json_graph =
  json_nodes :: "jstring list option"
  json_edges :: "(jstring \<times> jstring \<times> edge_data option) list option"

datatype json_arg = JsonObject json_graph | JsonText jstring

definition or_nil :: "'a list option \<Rightarrow> 'a list" where
  "or_nil xs = (case xs of Some l \<Rightarrow> l | None \<Rightarrow> [])"

definition loadJSON :: "(jstring \<Rightarrow> exn + json_graph) \<Rightarrow> json_arg \<Rightarrow> graph \<Rightarrow> graph throws" where
  "loadJSON parse arg g =
     (case (case arg of JsonObject j \<Rightarrow> Inr j | JsonText s \<Rightarrow> parse s) of
        Inl x \<Rightarrow> (Some x, g)
      | Inr j \<Rightarrow>
          if json_nodes j \<noteq> None \<or> json_edges j \<noteq> None
          then addEdges (or_nil (json_edges j)) (addNodes (or_nil (json_nodes j)) g)
          else (None, g))"

definition getEdges :: "node \<Rightarrow> node \<Rightarrow> graph \<Rightarrow> exn + edge list" where
  "getEdges n1 n2 g =
     (let s = id_key (nid n1); t = id_key (nid n2) in
      if in_obj s (adjacency g)
      then (case map_of (adjacency g) s of
              None \<Rightarrow> Inl (Inherited s)
            | Some row \<Rightarrow>
                if in_obj t row
                then (case map_of row t of None \<Rightarrow> Inl (Inherited t) | Some es \<Rightarrow> Inr es)
                else Inr [])
      else Inr [])"

definition drop_id :: "gid \<Rightarrow> edge list \<Rightarrow> edge list" where
  "drop_id i = filter (\<lambda>e. eid e \<noteq> i)"

definition clean_row :: "gid \<Rightarrow> edge list obj \<Rightarrow> edge list obj" where
  "clean_row i row = filter (\<lambda>(y, es). length es \<noteq> 0) (map (\<lambda>(y, es). (y, drop_id i es)) row)"

definition clean_adjacency :: "gid \<Rightarrow> edge list obj obj \<Rightarrow> edge list obj obj" where
  "clean_adjacency i adj =
     filter (\<lambda>(x, row). \<not> isEmpty row) (map (\<lambda>(x, row). (x, clean_row i row)) adj)"

definition removeEdge :: "edge \<Rightarrow> graph \<Rightarrow> graph" where
  "removeEdge e g =
     notify (g\<lparr>edges := drop_id (eid e) (edges g), adjacency := clean_adjacency (eid e) (adjacency g)\<rparr>)"

definition touches :: "node \<Rightarrow> edge \<Rightarrow> bool" where
  "touches n e \<longleftrightarrow> nid (source e) = nid n \<or> nid (target e) = nid n"

definition remove_if :: "(edge \<Rightarrow> bool) \<Rightarrow> edge list \<Rightarrow> graph \<Rightarrow> graph" where
  "remove_if P es = fold (\<lambda>e g. if P e then removeEdge e g else g) es"

definition detachNode :: "node \<Rightarrow> graph \<Rightarrow> graph" where
  "detachNode n g = notify (remove_if (touches n) (edges g) g)"

definition removeNode :: "node \<Rightarrow> graph \<Rightarrow> graph" where
  "removeNode n g =
     (let k = id_key (nid n);
          g1 = (if in_obj k (nodeSet g) then g\<lparr>nodeSet := AList.delete k (nodeSet g)\<rparr> else g);
          g2 = g1\<lparr>nodes := filter (\<lambda>n'. nid n' \<noteq> nid n) (nodes g1)\<rparr>
      in detachNode n g2)"

definition filterNodes :: "(node \<Rightarrow> bool) \<Rightarrow> graph \<Rightarrow> graph" where
  "filterNodes fn g = fold (\<lambda>n g. if \<not> fn n then removeNode n g else g) (nodes g) g"

definition filterEdges :: "(edge \<Rightarrow> bool) \<Rightarrow> graph \<Rightarrow> graph" where
  "filterEdges fn g = remove_if (\<lambda>e. \<not> fn e) (edges g) g"

text \<open>
  \<open>merge\<close>. The ends of an edge are positions in the list of merged nodes; an undirected edge takes its
  id from its ends in their order under \<open><\<close>: numbers by value, strings by their characters, and a
  number with a string by the number the string denotes (plain decimal strings only, every other
  string counts as not a number).
\<close>

fun str_less :: "jstring \<Rightarrow> jstring \<Rightarrow> bool" where
  "str_less xs [] \<longleftrightarrow> False"
| "str_less [] (y # ys) \<longleftrightarrow> True"
| "str_less (x # xs) (y # ys) \<longleftrightarrow> code x < code y \<or> (code x = code y \<and> str_less xs ys)"

definition str_num :: "jstring \<Rightarrow> int option" where
  "str_num s =
     (if s \<noteq> [] \<and> (\<forall>c \<in> set s. is_digit c) then Some (int (digits_nat s)) else None)"

fun id_less :: "gid \<Rightarrow> gid \<Rightarrow> bool" where
  "id_less (NumId a) (NumId b) \<longleftrightarrow> a < b"
| "id_less (StrId a) (StrId b) \<longleftrightarrow> str_less a b"
| "id_less (NumId a) (StrId b) \<longleftrightarrow> (case str_num b of Some n \<Rightarrow> a < n | None \<Rightarrow> False)"
| "id_less (StrId a) (NumId b) \<longleftrightarrow> (case str_num a of Some n \<Rightarrow> n < b | None \<Rightarrow> False)"

record merge_spec_node =
  m_id :: gid
  m_data :: "node_data option"

record merge_spec_edge =
  m_from :: nat
  m_to :: nat
  m_type :: jstring
  m_directed :: bool
  m_edata :: "edge_data option"

definition merge_id :: "merge_spec_edge \<Rightarrow> node \<Rightarrow> node \<Rightarrow> jstring" where
  "merge_id e a b =
     (if m_directed e then m_type e @ ''-'' @ id_key (nid a) @ ''-'' @ id_key (nid b)
      else if id_less (nid a) (nid b) then m_type e @ ''-'' @ id_key (nid a) @ ''-'' @ id_key (nid b)
      else m_type e @ ''-'' @ id_key (nid b) @ ''-'' @ id_key (nid a))"

definition merge_edge :: "merge_spec_edge \<Rightarrow> node \<Rightarrow> node \<Rightarrow> edge" where
  "merge_edge e a b =
     (let x = newEdgeObj (StrId (merge_id e a b)) a b (m_edata e)
      in x\<lparr>edata := (edata x)\<lparr>etype := Some (m_type e)\<rparr>\<rparr>)"

fun merge_edges :: "node list \<Rightarrow> merge_spec_edge list \<Rightarrow> graph \<Rightarrow> graph throws" where
  "merge_edges ns [] g = (None, g)"
| "merge_edges ns (e # es) g =
     (if m_from e < length ns \<and> m_to e < length ns
      then (case addEdge (merge_edge e (ns ! m_from e) (ns ! m_to e)) g of
              (Some x, g') \<Rightarrow> (Some x, g')
            | (None, g') \<Rightarrow> merge_edges ns es g')
      else (Some (TypeError ''id of undefined''), g))"

definition merge_graph :: "merge_spec_node list \<Rightarrow> merge_spec_edge list \<Rightarrow> graph \<Rightarrow> graph throws" where
  "merge_graph ns es g =
     (let objs = map (\<lambda>n. newNodeObj (m_id n) (m_data n)) ns
      in merge_edges objs es (fold addNode objs g))"

end
