(* ===== verification/Springy_Graph_Laws.thy ===== *)
theory Springy_Graph_Laws
  imports Springy_Graph
begin

text \<open>
  The laws of the graph: the adjacency table is an index of the list of edges, and the table of
  nodes one of the list of nodes. The locale \<open>edge_index\<close> is what the layout relies on.
\<close>

section \<open>The contract of an indexed set of edges\<close>

locale edge_index =
  fixes edges_of :: "'g \<Rightarrow> 'e list"
    and between :: "'k \<Rightarrow> 'k \<Rightarrow> 'g \<Rightarrow> 'e list"
    and ends_of :: "'e \<Rightarrow> 'k \<times> 'k"
    and ident :: "'e \<Rightarrow> 'i"
    and del :: "'e \<Rightarrow> 'g \<Rightarrow> 'g"
    and inv :: "'g \<Rightarrow> bool"
  assumes between_edges: "inv g \<Longrightarrow> between x y g = filter (\<lambda>e. ends_of e = (x, y)) (edges_of g)"
    and del_edges: "edges_of (del e g) = filter (\<lambda>e'. ident e' \<noteq> ident e) (edges_of g)"
    and del_inv: "inv g \<Longrightarrow> inv (del e g)"
    and inv_distinct: "inv g \<Longrightarrow> distinct (map ident (edges_of g))"
begin

definition del_if :: "('e \<Rightarrow> bool) \<Rightarrow> 'e list \<Rightarrow> 'g \<Rightarrow> 'g" where
  "del_if P es = fold (\<lambda>e g. if P e then del e g else g) es"

lemma del_if_edges:
  "edges_of (del_if P es g) = filter (\<lambda>e. \<forall>e' \<in> set es. P e' \<longrightarrow> ident e \<noteq> ident e') (edges_of g)"
proof (induction es arbitrary: g)
  case (Cons a es)
  have "del_if P (a # es) g = del_if P es (if P a then del a g else g)" by (simp add: del_if_def)
  then show ?case by (auto simp: Cons.IH del_edges intro: filter_cong)
qed (simp add: del_if_def)

lemma del_if_inv: "inv g \<Longrightarrow> inv (del_if P es g)"
  by (induction es arbitrary: g) (auto simp: del_if_def del_inv)

lemma del_if_all:
  assumes "inv g"
  shows "edges_of (del_if P (edges_of g) g) = filter (\<lambda>e. \<not> P e) (edges_of g)"
proof -
  have "inj_on ident (set (edges_of g))" using inv_distinct[OF assms] by (simp add: distinct_map)
  then show ?thesis by (auto simp: del_if_edges inj_on_def intro!: filter_cong)
qed

lemma between_del_if:
  "inv g \<Longrightarrow> between x y (del_if P (edges_of g) g) = filter (\<lambda>e. \<not> P e) (between x y g)"
  using del_if_inv[of g P "edges_of g"] by (auto simp: between_edges del_if_all intro: filter_cong)

end

section \<open>The adjacency table\<close>

definition ends :: "edge \<Rightarrow> jstring \<times> jstring" where
  "ends e = (src_key e, tgt_key e)"

definition cell :: "edge list obj obj \<Rightarrow> jstring \<Rightarrow> jstring \<Rightarrow> edge list" where
  "cell adj x y =
     (case map_of adj x of None \<Rightarrow> [] | Some row \<Rightarrow> (case map_of row y of None \<Rightarrow> [] | Some es \<Rightarrow> es))"

definition row_wf :: "edge list obj \<Rightarrow> bool" where
  "row_wf row \<longleftrightarrow> row \<noteq> [] \<and> distinct (map fst row) \<and> (\<forall>c \<in> set row. snd c \<noteq> [])"

definition adj_wf :: "edge list obj obj \<Rightarrow> bool" where
  "adj_wf adj \<longleftrightarrow> distinct (map fst adj) \<and> (\<forall>r \<in> set adj. row_wf (snd r))"

definition indexed :: "graph \<Rightarrow> bool" where
  "indexed g \<longleftrightarrow> adj_wf (adjacency g) \<and> distinct (map eid (edges g))
     \<and> (\<forall>x y. cell (adjacency g) x y = filter (\<lambda>e. ends e = (x, y)) (edges g))"

definition compatible :: "edge \<Rightarrow> graph \<Rightarrow> bool" where
  "compatible e g \<longleftrightarrow> (\<forall>e' \<in> set (edges g). eid e' = eid e \<longrightarrow> ends e' = ends e)"

lemma notify_simps [simp]:
  "nodeSet (notify g) = nodeSet g" "nodes (notify g) = nodes g" "edges (notify g) = edges g"
  "adjacency (notify g) = adjacency g" "nextNodeId (notify g) = nextNodeId g"
  "nextEdgeId (notify g) = nextEdgeId g" "eventListeners (notify g) = eventListeners g"
  by (simp_all add: notify_def)

lemma indexed_notify [simp]: "indexed (notify g) = indexed g"
  by (simp add: indexed_def)

lemma indexed_new [simp]: "indexed newGraph"
  by (simp add: indexed_def newGraph_def adj_wf_def cell_def)

lemma cell_update:
  "cell (AList.update s (AList.update t es row) adj) x y =
     (if x = s then if y = t then es else (case map_of row y of None \<Rightarrow> [] | Some c \<Rightarrow> c)
      else cell adj x y)"
  by (simp add: cell_def update_conv')

lemma row_of_cell: "row_of s adj = Inr row \<Longrightarrow> (case map_of row y of None \<Rightarrow> [] | Some c \<Rightarrow> c) = cell adj s y"
  by (auto simp: row_of_def cell_def split: option.splits if_splits)

lemma cell_of_cell: "row_of s adj = Inr row \<Longrightarrow> cell_of t row = Inr es \<Longrightarrow> es = cell adj s t"
  by (auto simp: row_of_def cell_of_def cell_def split: option.splits if_splits)

lemma set_update_snd: "c \<in> set (AList.update k v al) \<Longrightarrow> c = (k, v) \<or> c \<in> set al"
  by (induction al) (auto split: if_splits)

lemma update_not_Nil [simp]: "AList.update k v al \<noteq> []"
  by (cases al) auto

lemma row_wf_update:
  "distinct (map fst row) \<Longrightarrow> (\<forall>c \<in> set row. snd c \<noteq> []) \<Longrightarrow> es \<noteq> [] \<Longrightarrow> row_wf (AList.update t es row)"
  by (auto simp: row_wf_def distinct_update dest!: set_update_snd)

lemma row_of_wf:
  "adj_wf adj \<Longrightarrow> row_of s adj = Inr row \<Longrightarrow> distinct (map fst row) \<and> (\<forall>c \<in> set row. snd c \<noteq> [])"
  by (auto simp: adj_wf_def row_wf_def row_of_def dest!: map_of_SomeD split: option.splits if_splits)

lemma adj_wf_update:
  assumes "adj_wf adj" "row_of s adj = Inr row" "es \<noteq> []"
  shows "adj_wf (AList.update s (AList.update t es row) adj)"
  using row_of_wf[OF assms(1,2)] assms(1,3)
  by (auto simp: adj_wf_def distinct_update row_wf_update dest!: set_update_snd)

lemma push_new_not_Nil [simp]: "push_new e es \<noteq> []"
  by (auto simp: push_new_def)

lemma push_new_distinct: "distinct (map eid es) \<Longrightarrow> distinct (map eid (push_new e es))"
  by (auto simp: push_new_def)

lemma push_new_filter:
  assumes "\<forall>e' \<in> set es. eid e' = eid e \<longrightarrow> ends e' = ends e"
  shows "filter (\<lambda>e'. ends e' = p) (push_new e es) =
    (if p = ends e then push_new e (filter (\<lambda>e'. ends e' = p) es) else filter (\<lambda>e'. ends e' = p) es)"
  using assms by (auto simp: push_new_def)

text \<open>An edge whose id is new, or known with the same ends, keeps the index.\<close>

lemma addEdge_indexed:
  assumes ok: "indexed g" and new: "compatible e g" and add: "addEdge e g = (None, g')"
  shows "indexed g' \<and> edges g' = push_new e (edges g)"
proof -
  obtain row es where row: "row_of (src_key e) (adjacency g) = Inr row" and es: "cell_of (tgt_key e) row = Inr es"
    and g': "g' = notify (g\<lparr>edges := push_new e (edges g), adjacency :=
        AList.update (src_key e) (AList.update (tgt_key e) (push_new e es) row) (adjacency g)\<rparr>)"
    using add by (auto simp: addEdge_def Let_def split: sum.splits)
  have cells: "cell (adjacency g) x y = filter (\<lambda>e. ends e = (x, y)) (edges g)" for x y
    using ok by (simp add: indexed_def)
  have es': "es = filter (\<lambda>e'. ends e' = ends e) (edges g)"
    using cell_of_cell[OF row es] by (simp add: cells ends_def)
  have "cell (adjacency g') x y = filter (\<lambda>e. ends e = (x, y)) (edges g')" for x y
    using new unfolding g'
    by (simp add: cell_update row_of_cell[OF row] cells es' push_new_filter compatible_def)
       (auto simp: ends_def)
  then show ?thesis using ok adj_wf_update[OF _ row]
    by (auto simp: indexed_def g' push_new_distinct)
qed

lemma addEdge_returns:
  assumes "src_key e \<notin> set object_proto" "tgt_key e \<notin> set object_proto"
  shows "fst (addEdge e g) = None"
  using assms by (auto simp: addEdge_def Let_def row_of_def cell_of_def split: option.splits)

text \<open>Removing an edge.\<close>

lemma map_of_clean:
  assumes "distinct (map fst al)"
  shows "map_of (filter (\<lambda>(x, r). P r) (map (\<lambda>(x, r). (x, f r)) al)) k =
     (case map_of al k of None \<Rightarrow> None | Some r \<Rightarrow> if P (f r) then Some (f r) else None)"
  using assms
proof (induction al)
  case (Cons a al)
  obtain k0 r0 where a: "a = (k0, r0)" by (cases a)
  have "map_of al k0 = None" using Cons.prems by (simp add: a map_of_eq_None_iff)
  then show ?case using Cons by (cases "k = k0") (simp_all add: a)
qed simp

lemma distinct_clean:
  "distinct (map fst al) \<Longrightarrow> distinct (map fst (filter (\<lambda>(x, r). P r) (map (\<lambda>(x, r). (x, f r)) al)))"
  by (induction al) (auto simp: image_iff)

lemma cell_clean:
  assumes "adj_wf adj"
  shows "cell (clean_adjacency i adj) x y = drop_id i (cell adj x y)"
proof (cases "map_of adj x")
  case None
  then show ?thesis using assms map_of_clean[of adj "\<lambda>r. \<not> isEmpty r" "clean_row i" x]
    by (simp add: cell_def clean_adjacency_def adj_wf_def drop_id_def)
next
  case (Some row)
  then have "row_wf row" using assms by (auto simp: adj_wf_def dest!: map_of_SomeD)
  then have r: "map_of (clean_row i row) y =
      (case map_of row y of None \<Rightarrow> None | Some es \<Rightarrow> if length (drop_id i es) \<noteq> 0 then Some (drop_id i es) else None)"
    using map_of_clean[of row "\<lambda>es. length es \<noteq> 0" "drop_id i" y]
    by (simp add: clean_row_def row_wf_def)
  have "map_of (clean_adjacency i adj) x = (if isEmpty (clean_row i row) then None else Some (clean_row i row))"
    using assms Some map_of_clean[of adj "\<lambda>r. \<not> isEmpty r" "clean_row i" x]
    by (simp add: clean_adjacency_def adj_wf_def)
  then show ?thesis using Some r
    by (auto simp: cell_def isEmpty_def drop_id_def split: option.splits if_splits)
qed

lemma adj_wf_clean:
  assumes "adj_wf adj" shows "adj_wf (clean_adjacency i adj)"
proof -
  have "distinct (map fst (clean_row i r))" if "r \<in> snd ` set adj" for r
    using that assms unfolding clean_row_def by (intro distinct_clean) (auto simp: adj_wf_def row_wf_def)
  then show ?thesis using assms distinct_clean[of adj]
    by (fastforce simp: adj_wf_def row_wf_def clean_adjacency_def isEmpty_def clean_row_def)
qed

lemma removeEdge_simps [simp]:
  "edges (removeEdge e g) = drop_id (eid e) (edges g)" "nodes (removeEdge e g) = nodes g"
  "nodeSet (removeEdge e g) = nodeSet g" "nextNodeId (removeEdge e g) = nextNodeId g"
  "nextEdgeId (removeEdge e g) = nextEdgeId g"
  by (simp_all add: removeEdge_def)

lemma removeEdge_indexed: "indexed g \<Longrightarrow> indexed (removeEdge e g)"
  by (simp add: indexed_def removeEdge_def adj_wf_clean cell_clean drop_id_def distinct_map_filter conj_commute)

interpretation ei: edge_index edges "\<lambda>x y g. cell (adjacency g) x y" ends eid removeEdge indexed
  by unfold_locales (auto simp: drop_id_def removeEdge_indexed, auto simp: indexed_def)

lemma remove_if_del_if: "remove_if P es = ei.del_if P es"
  by (simp add: remove_if_def ei.del_if_def)

lemmas remove_if_laws = ei.del_if_edges[folded remove_if_del_if] ei.del_if_inv[folded remove_if_del_if]
  ei.del_if_all[folded remove_if_del_if] ei.between_del_if[folded remove_if_del_if]

lemma remove_if_simps [simp]:
  "nodes (remove_if P es g) = nodes g" "nodeSet (remove_if P es g) = nodeSet g"
  "nextNodeId (remove_if P es g) = nextNodeId g" "nextEdgeId (remove_if P es g) = nextEdgeId g"
  by (induction es arbitrary: g) (simp_all add: remove_if_def)

lemma getEdges_cell:
  assumes "id_key (nid a) \<notin> set object_proto" "id_key (nid b) \<notin> set object_proto"
  shows "getEdges a b g = Inr (cell (adjacency g) (id_key (nid a)) (id_key (nid b)))"
  using assms
  by (auto simp: getEdges_def in_obj_def cell_def Let_def map_of_eq_None_iff split: option.splits
      dest: map_of_SomeD intro: rev_image_eqI)

lemma detachNode_edges:
  "indexed g \<Longrightarrow> indexed (detachNode n g) \<and> edges (detachNode n g) = filter (\<lambda>e. \<not> touches n e) (edges g)"
  by (simp add: detachNode_def remove_if_laws(2,3))

lemma filterEdges_edges:
  "indexed g \<Longrightarrow> indexed (filterEdges fn g) \<and> edges (filterEdges fn g) = filter fn (edges g)"
  by (simp add: filterEdges_def remove_if_laws(2,3))


section \<open>Numeric ids\<close>

text \<open>The decimal string of an integer can be read back.\<close>

lemma str_num_int_str:
  assumes "0 \<le> i" shows "str_num (int_str i) = Some i"
proof -
  have "int_str i = nat_digits (nat i)" using assms by (simp add: int_str_def)
  moreover have "\<forall>c \<in> set (nat_digits (nat i)). is_digit c" using nat_digits_digits by blast
  ultimately show ?thesis using assms by (simp add: str_num_def)
qed

lemma int_str_inj: "0 \<le> i \<Longrightarrow> 0 \<le> j \<Longrightarrow> int_str i = int_str j \<Longrightarrow> i = j"
  by (metis str_num_int_str option.inject)

lemma proto_not_numeric: "list_all (\<lambda>s. str_num s = None) object_proto"
  by (simp add: object_proto_def str_num_def is_digit_def code_def)

lemma int_str_not_proto: "0 \<le> i \<Longrightarrow> int_str i \<notin> set object_proto"
  using str_num_int_str[of i] proto_not_numeric by (auto simp: list_all_iff)

section \<open>Graphs with numbered nodes and edges\<close>

text \<open>The graphs that a program can build from the empty one by the operations that choose the ids.\<close>

inductive numbered :: "graph \<Rightarrow> bool" where
  numbered_new: "numbered newGraph"
| numbered_node: "numbered g \<Longrightarrow> numbered (snd (newNode d g))"
| numbered_edge: "numbered g \<Longrightarrow> a \<in> set (nodes g) \<Longrightarrow> b \<in> set (nodes g) \<Longrightarrow> numbered (snd (newEdge a b d g))"
| numbered_removeNode: "numbered g \<Longrightarrow> n \<in> set (nodes g) \<Longrightarrow> numbered (removeNode n g)"
| numbered_removeEdge: "numbered g \<Longrightarrow> numbered (removeEdge e g)"
| numbered_detachNode: "numbered g \<Longrightarrow> numbered (detachNode n g)"
| numbered_filterNodes: "numbered g \<Longrightarrow> numbered (filterNodes fn g)"
| numbered_filterEdges: "numbered g \<Longrightarrow> numbered (filterEdges fn g)"
| numbered_listener: "numbered g \<Longrightarrow> numbered (addGraphListener l g)"

definition node_ids_ok :: "graph \<Rightarrow> bool" where
  "node_ids_ok g \<longleftrightarrow> 0 \<le> nextNodeId g \<and> distinct (map nid (nodes g))
     \<and> (\<forall>n \<in> set (nodes g). \<exists>i. nid n = NumId i \<and> 0 \<le> i \<and> i < nextNodeId g)
     \<and> nodeSet g = map (\<lambda>n. (id_key (nid n), n)) (nodes g)"

definition edge_ids_ok :: "graph \<Rightarrow> bool" where
  "edge_ids_ok g \<longleftrightarrow> indexed g
     \<and> (\<forall>e \<in> set (edges g). \<exists>i. eid e = NumId i \<and> i < nextEdgeId g)
     \<and> (\<forall>e \<in> set (edges g). source e \<in> set (nodes g) \<and> target e \<in> set (nodes g))"

lemma update_fresh: "k \<notin> fst ` set al \<Longrightarrow> AList.update k v al = al @ [(k, v)]"
  by (induction al) auto

lemma node_key_inj:
  assumes "node_ids_ok g" "a \<in> set (nodes g)" "b \<in> set (nodes g)" "id_key (nid a) = id_key (nid b)"
  shows "a = b"
proof -
  have "nid a = nid b" using assms int_str_inj unfolding node_ids_ok_def by (metis id_key.simps(1))
  then show ?thesis using assms by (auto simp: node_ids_ok_def distinct_map inj_on_def)
qed

lemma node_key_not_proto: "node_ids_ok g \<Longrightarrow> a \<in> set (nodes g) \<Longrightarrow> id_key (nid a) \<notin> set object_proto"
  by (auto simp: node_ids_ok_def dest!: bspec int_str_not_proto)

lemma newNode_ok:
  assumes ok: "node_ids_ok g"
  shows "node_ids_ok (snd (newNode d g)) \<and> nodes (snd (newNode d g)) = nodes g @ [fst (newNode d g)]"
proof -
  define n where "n = newNodeObj (NumId (nextNodeId g)) d"
  have key: "int_str (nextNodeId g) \<notin> (\<lambda>n. id_key (nid n)) ` set (nodes g)"
    using ok int_str_inj[of _ "nextNodeId g"] unfolding node_ids_ok_def by fastforce
  have dom: "fst ` set (nodeSet g) = (\<lambda>n. id_key (nid n)) ` set (nodes g)"
    using ok by (auto simp: node_ids_ok_def image_image)
  have nin: "nid n = NumId (nextNodeId g)" by (simp add: n_def newNodeObj_def)
  have new: "\<not> in_obj (int_str (nextNodeId g)) (nodeSet g)"
    using key dom ok by (auto simp: in_obj_def node_ids_ok_def int_str_not_proto)
  have "snd (newNode d g) = notify (g\<lparr>nextNodeId := nextNodeId g + 1, nodes := nodes g @ [n],
      nodeSet := nodeSet g @ [(int_str (nextNodeId g), n)]\<rparr>)"
    using new key dom by (simp add: newNode_def Let_def addNode_def nin update_fresh n_def[symmetric])
  moreover have "fst (newNode d g) = n" by (simp add: newNode_def n_def Let_def)
  moreover have "NumId (nextNodeId g) \<notin> nid ` set (nodes g)"
    using ok by (fastforce simp: node_ids_ok_def)
  moreover have "0 \<le> nextNodeId g" "\<forall>n \<in> set (nodes g). \<exists>i. nid n = NumId i \<and> 0 \<le> i \<and> i < nextNodeId g + 1"
    using ok by (force simp: node_ids_ok_def)+
  ultimately show ?thesis using ok by (simp add: node_ids_ok_def nin)
qed

lemma newNode_edges [simp]:
  "edges (snd (newNode d g)) = edges g" "adjacency (snd (newNode d g)) = adjacency g"
  "nextEdgeId (snd (newNode d g)) = nextEdgeId g"
  by (simp_all add: newNode_def addNode_def Let_def)

lemma addEdge_simps [simp]:
  "nodes (snd (addEdge e g)) = nodes g" "nodeSet (snd (addEdge e g)) = nodeSet g"
  "nextNodeId (snd (addEdge e g)) = nextNodeId g" "nextEdgeId (snd (addEdge e g)) = nextEdgeId g"
  by (auto simp: addEdge_def Let_def split: sum.splits)

lemma newEdge_ok:
  assumes nodes: "node_ids_ok g" and ok: "edge_ids_ok g" and ends: "a \<in> set (nodes g)" "b \<in> set (nodes g)"
  shows "fst (newEdge a b d g) = None \<and> edge_ids_ok (snd (newEdge a b d g))
    \<and> edges (snd (newEdge a b d g)) = edges g @ [newEdgeObj (NumId (nextEdgeId g)) a b d]"
proof -
  define e where "e = newEdgeObj (NumId (nextEdgeId g)) a b d"
  define h where "h = g\<lparr>nextEdgeId := nextEdgeId g + 1\<rparr>"
  have fresh: "eid e \<noteq> eid e'" if "e' \<in> set (edges g)" for e'
    using that ok by (auto simp: edge_ids_ok_def e_def newEdgeObj_def)
  have ix: "indexed h" using ok by (simp add: edge_ids_ok_def h_def indexed_def)
  have none: "fst (addEdge e h) = None"
    using node_key_not_proto[OF nodes] ends
    by (intro addEdge_returns) (simp_all add: src_key_def tgt_key_def e_def newEdgeObj_def)
  obtain g' where g': "addEdge e h = (None, g')" using none by (cases "addEdge e h") simp
  have "compatible e h" using fresh by (fastforce simp: compatible_def h_def)
  from addEdge_indexed[OF ix this g'] have *: "indexed g'" "edges g' = edges g @ [e]"
    using fresh by (auto simp: push_new_def h_def)
  have "nodes g' = nodes g" "nextEdgeId g' = nextEdgeId g + 1"
    using addEdge_simps(1,4)[of e h] unfolding g' by (simp_all add: h_def)
  with * g' ok ends show ?thesis
    by (fastforce simp: newEdge_def edge_ids_ok_def e_def newEdgeObj_def h_def)
qed

lemma detachNode_simps [simp]:
  "nodes (detachNode n g) = nodes g" "nodeSet (detachNode n g) = nodeSet g"
  "nextNodeId (detachNode n g) = nextNodeId g" "nextEdgeId (detachNode n g) = nextEdgeId g"
  by (simp_all add: detachNode_def)

lemma edge_ids_ok_shrink:
  assumes "edge_ids_ok g" "indexed g'" "set (edges g') \<subseteq> set (edges g)" "nextEdgeId g' = nextEdgeId g"
    "\<And>e. e \<in> set (edges g') \<Longrightarrow> source e \<in> set (nodes g') \<and> target e \<in> set (nodes g')"
  shows "edge_ids_ok g'"
  using assms by (auto simp: edge_ids_ok_def)

lemma removeNode_parts:
  assumes "indexed g"
  shows "nodes (removeNode n g) = filter (\<lambda>n'. nid n' \<noteq> nid n) (nodes g)"
    "edges (removeNode n g) = filter (\<lambda>e. \<not> touches n e) (edges g)"
    "indexed (removeNode n g)"
    "nextNodeId (removeNode n g) = nextNodeId g" "nextEdgeId (removeNode n g) = nextEdgeId g"
proof -
  define g2 where "g2 = (if in_obj (id_key (nid n)) (nodeSet g) then g\<lparr>nodeSet := AList.delete (id_key (nid n)) (nodeSet g)\<rparr> else g)
     \<lparr>nodes := filter (\<lambda>n'. nid n' \<noteq> nid n) (nodes g)\<rparr>"
  have rn: "removeNode n g = detachNode n g2" by (simp add: removeNode_def Let_def g2_def)
  have ix: "indexed g2" "edges g2 = edges g" using assms by (auto simp: g2_def indexed_def)
  show "nodes (removeNode n g) = filter (\<lambda>n'. nid n' \<noteq> nid n) (nodes g)"
    "nextNodeId (removeNode n g) = nextNodeId g" "nextEdgeId (removeNode n g) = nextEdgeId g"
    by (simp_all add: rn g2_def)
  show "edges (removeNode n g) = filter (\<lambda>e. \<not> touches n e) (edges g)" "indexed (removeNode n g)"
    using detachNode_edges[OF ix(1)] by (simp_all add: rn ix(2))
qed

lemma removeNode_ok:
  assumes nodes: "node_ids_ok g" and edges: "edge_ids_ok g" and n: "n \<in> set (nodes g)"
  shows "node_ids_ok (removeNode n g) \<and> edge_ids_ok (removeNode n g)"
proof
  have ix: "indexed g" using edges by (simp add: edge_ids_ok_def)
  note parts = removeNode_parts[OF ix, of n]
  have key: "id_key (nid n') \<noteq> id_key (nid n) \<longleftrightarrow> nid n' \<noteq> nid n" if "n' \<in> set (nodes g)" for n'
    using node_key_inj[OF nodes that n] by auto
  have "nodeSet (removeNode n g) = AList.delete (id_key (nid n)) (nodeSet g)"
    by (auto simp: removeNode_def Let_def in_obj_def delete_id)
  also have "\<dots> = map (\<lambda>n. (id_key (nid n), n)) (filter (\<lambda>n'. nid n' \<noteq> nid n) (nodes g))"
    using nodes key by (auto simp: node_ids_ok_def AList.delete_eq filter_map o_def intro!: arg_cong[of _ _ "map _"] filter_cong dest: key)
  finally show "node_ids_ok (removeNode n g)"
    using nodes by (auto simp: node_ids_ok_def parts distinct_map_filter)
  show "edge_ids_ok (removeNode n g)"
    using edges by (intro edge_ids_ok_shrink[OF edges]) (auto simp: parts edge_ids_ok_def touches_def)
qed


lemma detach_ok: "node_ids_ok g \<Longrightarrow> edge_ids_ok g \<Longrightarrow> node_ids_ok (detachNode n g) \<and> edge_ids_ok (detachNode n g)"
  using detachNode_edges[of g n] by (auto simp: node_ids_ok_def edge_ids_ok_def)

lemma filterEdges_ok: "node_ids_ok g \<Longrightarrow> edge_ids_ok g \<Longrightarrow> node_ids_ok (filterEdges fn g) \<and> edge_ids_ok (filterEdges fn g)"
  using filterEdges_edges[of g fn] by (auto simp: filterEdges_def node_ids_ok_def edge_ids_ok_def)

lemma removeEdge_ok: "node_ids_ok g \<Longrightarrow> edge_ids_ok g \<Longrightarrow> node_ids_ok (removeEdge e g) \<and> edge_ids_ok (removeEdge e g)"
  by (auto simp: node_ids_ok_def edge_ids_ok_def removeEdge_indexed drop_id_def)

lemma touches_node:
  assumes "node_ids_ok g" "edge_ids_ok g" "e \<in> set (edges g)" "n \<in> set (nodes g)"
  shows "touches n e \<longleftrightarrow> source e = n \<or> target e = n"
  using assms node_key_inj[OF assms(1)] by (auto simp: touches_def edge_ids_ok_def)

lemma filterNodes_loop:
  assumes "node_ids_ok g" "edge_ids_ok g" "distinct (map nid ns)" "set ns \<subseteq> set (nodes g)"
  shows "node_ids_ok (fold (\<lambda>n g. if \<not> fn n then removeNode n g else g) ns g)
    \<and> edge_ids_ok (fold (\<lambda>n g. if \<not> fn n then removeNode n g else g) ns g)
    \<and> nodes (fold (\<lambda>n g. if \<not> fn n then removeNode n g else g) ns g) =
        filter (\<lambda>n. n \<in> set ns \<longrightarrow> fn n) (nodes g)
    \<and> edges (fold (\<lambda>n g. if \<not> fn n then removeNode n g else g) ns g) =
        filter (\<lambda>e. \<forall>n \<in> set ns. touches n e \<longrightarrow> fn n) (edges g)"
  using assms
proof (induction ns arbitrary: g)
  case (Cons n ns)
  show ?case
  proof (cases "fn n")
    case True
    then show ?thesis using Cons.IH[of g] Cons.prems by (auto intro!: filter_cong)
  next
    case False
    let ?g = "removeNode n g"
    have n: "n \<in> set (nodes g)" and ix: "indexed g" using Cons.prems by (auto simp: edge_ids_ok_def)
    note ok = removeNode_ok[OF Cons.prems(1,2) n]
    note parts = removeNode_parts[OF ix, of n]
    have uniq: "nid n' = nid n \<longleftrightarrow> n' = n" if "n' \<in> set (nodes g)" for n'
      using node_key_inj[OF Cons.prems(1) that n] by auto
    have "set ns \<subseteq> set (nodes ?g)" using Cons.prems(3,4) unfolding parts by auto (metis image_eqI)
    note IH = Cons.IH[OF conjunct1[OF ok] conjunct2[OF ok] _ this]
    show ?thesis using IH Cons.prems(3) False uniq
      by (auto simp: parts intro!: filter_cong)
  qed
qed simp

lemma filterNodes_ok:
  assumes "node_ids_ok g" "edge_ids_ok g"
  shows "node_ids_ok (filterNodes fn g) \<and> edge_ids_ok (filterNodes fn g)
    \<and> nodes (filterNodes fn g) = filter fn (nodes g)
    \<and> edges (filterNodes fn g) = filter (\<lambda>e. fn (source e) \<and> fn (target e)) (edges g)"
proof -
  have "distinct (map nid (nodes g))" using assms(1) by (simp add: node_ids_ok_def)
  note l = filterNodes_loop[OF assms this subset_refl, of fn]
  have "(\<forall>n \<in> set (nodes g). touches n e \<longrightarrow> fn n) \<longleftrightarrow> fn (source e) \<and> fn (target e)"
    if e: "e \<in> set (edges g)" for e
    using assms(2) touches_node[OF assms e] e by (auto simp: edge_ids_ok_def)
  then show ?thesis using l by (auto simp: filterNodes_def intro!: filter_cong)
qed

lemma numbered_ok: "numbered g \<Longrightarrow> node_ids_ok g \<and> edge_ids_ok g"
proof (induction rule: numbered.induct)
  case numbered_new
  then show ?case by (simp add: node_ids_ok_def edge_ids_ok_def) (simp add: newGraph_def)
next
  case (numbered_node g d)
  then show ?case using newNode_ok[of g d]
    by (auto simp: edge_ids_ok_def indexed_def)
next
  case (numbered_edge g a b d)
  have "node_ids_ok (snd (newEdge a b d g))"
    using numbered_edge.IH by (simp add: newEdge_def node_ids_ok_def)
  then show ?case using numbered_edge newEdge_ok[of g a b d] by blast
next
  case (numbered_listener g l)
  then show ?case by (simp add: addGraphListener_def node_ids_ok_def edge_ids_ok_def indexed_def)
qed (simp_all add: removeNode_ok removeEdge_ok detach_ok filterNodes_ok filterEdges_ok)

lemmas numbered_nodes = conjunct1[OF numbered_ok] and numbered_edges = conjunct2[OF numbered_ok]


section \<open>Properties\<close>

definition demo_node :: "int \<Rightarrow> node" where
  "demo_node i = newNodeObj (NumId i) None"

definition demo_graph :: graph where
  "demo_graph =
     snd (newEdge (demo_node 1) (demo_node 0) None
       (snd (newEdge (demo_node 0) (demo_node 1) None (snd (newNode None (snd (newNode None newGraph)))))))"

lemma demo_graph_parts:
  "nodes demo_graph = [demo_node 0, demo_node 1]"
  "edges demo_graph = [newEdgeObj (NumId 0) (demo_node 0) (demo_node 1) None,
     newEdgeObj (NumId 1) (demo_node 1) (demo_node 0) None]"
  by code_simp+

lemma demo_graph_numbered: "numbered demo_graph"
proof -
  define g2 where "g2 = snd (newNode None (snd (newNode None newGraph)))"
  have n: "numbered g2" unfolding g2_def by (intro numbered.intros)
  have nodes: "nodes g2 = [demo_node 0, demo_node 1]" unfolding g2_def by code_simp
  define g3 where "g3 = snd (newEdge (demo_node 0) (demo_node 1) None g2)"
  have n3: "numbered g3" unfolding g3_def using nodes by (intro numbered_edge[OF n]) simp_all
  have "nodes g3 = [demo_node 0, demo_node 1]" by (simp add: g3_def newEdge_def nodes)
  then have "numbered (snd (newEdge (demo_node 1) (demo_node 0) None g3))"
    by (intro numbered_edge[OF n3]) simp_all
  then show ?thesis by (simp add: demo_graph_def g3_def g2_def)
qed

text \<open>C26: Springy graph index. In every graph built by the operations that choose the ids, \<open>getEdges\<close>
  returns, in order of insertion, exactly the edges that run from the first node to the second: the
  adjacency table of \<open>springy.js\<close> is an index of its list of edges.\<close>

theorem springy_get_edges:
  assumes "numbered g" "a \<in> set (nodes g)" "b \<in> set (nodes g)"
  shows "getEdges a b g = Inr (filter (\<lambda>e. source e = a \<and> target e = b) (edges g))"
proof -
  have ids: "node_ids_ok g" and ok: "edge_ids_ok g" using numbered_ok[OF assms(1)] by auto
  have "(ends e = (id_key (nid a), id_key (nid b))) = (source e = a \<and> target e = b)" if "e \<in> set (edges g)" for e
    using that ok node_key_inj[OF ids _ assms(2)] node_key_inj[OF ids _ assms(3)]
    by (auto simp: ends_def src_key_def tgt_key_def edge_ids_ok_def)
  then have "cell (adjacency g) (id_key (nid a)) (id_key (nid b)) =
      filter (\<lambda>e. source e = a \<and> target e = b) (edges g)"
    using ok by (simp add: edge_ids_ok_def ei.between_edges cong: filter_cong)
  then show ?thesis using node_key_not_proto[OF ids] assms(2,3) by (simp add: getEdges_cell)
qed

theorem springy_get_edges_witness:
  "getEdges (demo_node 1) (demo_node 0) demo_graph =
     Inr [newEdgeObj (NumId 1) (demo_node 1) (demo_node 0) None]"
  using springy_get_edges[OF demo_graph_numbered, of "demo_node 1" "demo_node 0"]
  by (simp add: demo_graph_parts demo_node_def newNodeObj_def newEdgeObj_def)

text \<open>C27: Springy graph operations. In every such graph a new edge between two of its nodes is
  accepted and appended, removing a node removes it with exactly the edges that touch it, filtering
  the nodes keeps the edges between kept nodes only, and no edge ever refers to a node that is not
  in the graph.\<close>

theorem springy_graph_operations:
  assumes "numbered g" "a \<in> set (nodes g)" "b \<in> set (nodes g)"
  shows "fst (newEdge a b d g) = None
    \<and> edges (snd (newEdge a b d g)) = edges g @ [newEdgeObj (NumId (nextEdgeId g)) a b d]
    \<and> nodes (removeNode a g) = filter (\<lambda>n. n \<noteq> a) (nodes g)
    \<and> edges (removeNode a g) = filter (\<lambda>e. source e \<noteq> a \<and> target e \<noteq> a) (edges g)
    \<and> nodes (filterNodes fn g) = filter fn (nodes g)
    \<and> edges (filterNodes fn g) = filter (\<lambda>e. fn (source e) \<and> fn (target e)) (edges g)
    \<and> (\<forall>e \<in> set (edges g). source e \<in> set (nodes g) \<and> target e \<in> set (nodes g))"
proof -
  have ids: "node_ids_ok g" and ok: "edge_ids_ok g" using numbered_ok[OF assms(1)] by auto
  have "nid n = nid a \<longleftrightarrow> n = a" if "n \<in> set (nodes g)" for n
    using node_key_inj[OF ids that assms(2)] by auto
  then show ?thesis
    using newEdge_ok[OF ids ok assms(2,3), of d] filterNodes_ok[OF ids ok, of fn] ok
      removeNode_parts(1,2)[of g a] touches_node[OF ids ok _ assms(2)]
    by (auto simp: edge_ids_ok_def intro!: filter_cong)
qed

theorem springy_graph_operations_witness:
  "edges (removeNode (demo_node 0) demo_graph) = []
    \<and> length (edges (snd (newEdge (demo_node 0) (demo_node 1) None demo_graph))) = 3"
  using springy_graph_operations[OF demo_graph_numbered, of "demo_node 0" "demo_node 1" None "\<lambda>n. True"]
  by (simp add: demo_graph_parts demo_node_def newNodeObj_def newEdgeObj_def)

text \<open>Springy edges with chosen ids. An edge whose id is new, or is already used for an edge with
  the same ends, keeps the adjacency table an index of the edges, and the edge is appended at most
  once; removing edges by a predicate keeps the index too and removes exactly those edges.\<close>

theorem springy_index_kept:
  assumes "indexed g" "compatible e g" "addEdge e g = (None, g')"
  shows "indexed g' \<and> edges g' = push_new e (edges g) \<and> indexed (filterEdges fn g')
    \<and> edges (filterEdges fn g') = filter fn (edges g')"
  using addEdge_indexed[OF assms] filterEdges_edges[of g' fn] by simp

definition demo_edge :: edge where
  "demo_edge = newEdgeObj (StrId ''friend-0-1'') (demo_node 0) (demo_node 1) None"

theorem springy_index_kept_witness:
  "edges (snd (addEdge demo_edge newGraph)) = [demo_edge] \<and> indexed (snd (addEdge demo_edge newGraph))"
proof -
  have "addEdge demo_edge newGraph = (None, snd (addEdge demo_edge newGraph))" by code_simp
  moreover have "compatible demo_edge newGraph" by (simp add: compatible_def newGraph_def)
  ultimately show ?thesis
    using springy_index_kept[OF indexed_new, of demo_edge "snd (addEdge demo_edge newGraph)" "\<lambda>e. True"]
    by (auto simp: push_new_def newGraph_def)
qed

definition merged_both_ways :: "graph throws" where
  "merged_both_ways =
     merge_graph [\<lparr>m_id = NumId 1, m_data = None\<rparr>, \<lparr>m_id = NumId 2, m_data = None\<rparr>]
       [\<lparr>m_from = 0, m_to = 1, m_type = ''friend'', m_directed = False, m_edata = None\<rparr>,
        \<lparr>m_from = 1, m_to = 0, m_type = ''friend'', m_directed = False, m_edata = None\<rparr>] newGraph"

text \<open>Springy merge of undirected edges. The id of an undirected edge does not depend on the
  order of its ends, so merging the same undirected edge in both directions lists it once, but both
  directions enter the adjacency table: \<open>getEdges\<close> then returns an edge that the graph does not list,
  although the two calls speak of one edge.\<close>

theorem springy_merge_undirected:
  "fst merged_both_ways = None
    \<and> map (\<lambda>e. (eid e, nid (source e), nid (target e))) (edges (snd merged_both_ways)) =
        [(StrId ''friend-1-2'', NumId 1, NumId 2)]
    \<and> (case getEdges (demo_node 2) (demo_node 1) (snd merged_both_ways) of
         Inr [e] \<Rightarrow> eid e = StrId ''friend-1-2'' \<and> e \<notin> set (edges (snd merged_both_ways))
       | _ \<Rightarrow> False)"
  by code_simp

text \<open>Springy node names. A node whose name is a member of \<open>Object.prototype\<close> is never listed in
  the nodes of the graph: the test for a known id sees the inherited member.\<close>

theorem springy_inherited_name:
  "nodes (addNodes [''alpha'', ''constructor'', ''omega''] newGraph)
      = map (\<lambda>s. newNodeObj (StrId s) (Some (no_node_data\<lparr>label := Some s\<rparr>))) [''alpha'', ''omega'']
    \<and> map fst (nodeSet (addNodes [''alpha'', ''constructor'', ''omega''] newGraph))
      = [''alpha'', ''constructor'', ''omega'']"
  by code_simp

end
