(* ===== verification/Springy_Layout.thy ===== *)
theory Springy_Layout
  imports Springy_Graph_Laws
begin

text \<open>
  The force-directed layout of \<open>springy.js\<close>: \<open>Vector\<close>, \<open>Point\<close>, \<open>Spring\<close>, the physics of one frame,
  \<open>nearest\<close>, \<open>getBoundingBox\<close>, the animation loop and the \<open>Renderer\<close>.

  Numbers are reals. JavaScript divides by zero where HOL returns 0; the code divides by the mass of a
  point, by a positive distance, and by the length of a vector that is zero only when the vector is.
  The points are shared objects: a spring and the table \<open>nodePoints\<close> refer to the same point, which is
  why a point is named here by its key in that table. Node and edge ids are no names of inherited
  members. \<open>Math.random\<close> is a stream \<open>rnd\<close> of numbers.
\<close>

section \<open>Vectors\<close>

record vector =
  vx :: real
  vy :: real

definition Vector :: "real \<Rightarrow> real \<Rightarrow> vector" where
  "Vector x y = \<lparr>vx = x, vy = y\<rparr>"

definition vadd :: "vector \<Rightarrow> vector \<Rightarrow> vector" where
  "vadd v w = Vector (vx v + vx w) (vy v + vy w)"

definition vsubtract :: "vector \<Rightarrow> vector \<Rightarrow> vector" where
  "vsubtract v w = Vector (vx v - vx w) (vy v - vy w)"

definition vmultiply :: "vector \<Rightarrow> real \<Rightarrow> vector" where
  "vmultiply v n = Vector (vx v * n) (vy v * n)"

definition vdivide :: "vector \<Rightarrow> real \<Rightarrow> vector" where
  "vdivide v n = Vector (vx v / n) (vy v / n)"

definition magnitude :: "vector \<Rightarrow> real" where
  "magnitude v = sqrt (vx v * vx v + vy v * vy v)"

definition normal :: "vector \<Rightarrow> vector" where
  "normal v = Vector (- vy v) (vx v)"

definition normalise :: "vector \<Rightarrow> vector" where
  "normalise v = vdivide v (magnitude v)"

definition random_vector :: "(nat \<Rightarrow> real) \<Rightarrow> nat \<Rightarrow> vector" where
  "random_vector rnd i = Vector (10 * (rnd i - 1/2)) (10 * (rnd (i + 1) - 1/2))"

section \<open>Points and springs\<close>

record point =
  position :: vector
  pmass :: real
  velocity :: vector
  accel :: vector

definition newPoint :: "vector \<Rightarrow> real \<Rightarrow> point" where
  "newPoint pos m = \<lparr>position = pos, pmass = m, velocity = Vector 0 0, accel = Vector 0 0\<rparr>"

definition applyForce :: "vector \<Rightarrow> point \<Rightarrow> point" where
  "applyForce force q = q\<lparr>accel := vadd (accel q) (vdivide force (pmass q))\<rparr>"

record spring =
  point1 :: jstring
  point2 :: jstring
  slength :: real
  spring_k :: real

record layout =
  graph_of :: graph
  stiffness :: real
  repulsion :: real
  damping :: real
  nodePoints :: "point obj"
  edgeSprings :: "spring obj"
  drawn_numbers :: nat

definition newLayout :: "graph \<Rightarrow> real \<Rightarrow> real \<Rightarrow> real \<Rightarrow> layout" where
  "newLayout g s r d = \<lparr>graph_of = g, stiffness = s, repulsion = r, damping = d,
     nodePoints = [], edgeSprings = [], drawn_numbers = 0\<rparr>"

definition nkey :: "node \<Rightarrow> jstring" where "nkey n = id_key (nid n)"
definition ekey :: "edge \<Rightarrow> jstring" where "ekey e = id_key (eid e)"

definition with_point :: "jstring \<Rightarrow> (point \<Rightarrow> point) \<Rightarrow> layout \<Rightarrow> layout" where
  "with_point k f L = L\<lparr>nodePoints := AList.map_entry k f (nodePoints L)\<rparr>"

definition point_at :: "jstring \<Rightarrow> layout \<Rightarrow> point" where
  "point_at k L = (case map_of (nodePoints L) k of Some q \<Rightarrow> q | None \<Rightarrow> newPoint (Vector 0 0) 1)"

text \<open>\<open>point(node)\<close> makes the point of the node when it is asked for it first.\<close>

definition point_of :: "(nat \<Rightarrow> real) \<Rightarrow> node \<Rightarrow> layout \<Rightarrow> layout" where
  "point_of rnd n L =
     (if nkey n \<in> fst ` set (nodePoints L) then L
      else L\<lparr>nodePoints := AList.update (nkey n)
               (newPoint (random_vector rnd (drawn_numbers L))
                  (case mass (ndata n) of Some m \<Rightarrow> m | None \<Rightarrow> 1)) (nodePoints L),
             drawn_numbers := drawn_numbers L + 2\<rparr>)"

text \<open>
  \<open>spring(edge)\<close>: an edge without a spring first looks for a spring between the same ends. The second
  search of the code runs over the same list \<open>from\<close> again, so it finds nothing new.
\<close>

definition existing_spring :: "edge list \<Rightarrow> spring obj \<Rightarrow> spring option" where
  "existing_spring es springs =
     fold (\<lambda>e found. case found of Some s \<Rightarrow> Some s | None \<Rightarrow> map_of springs (ekey e)) es None"

definition or_empty :: "exn + edge list \<Rightarrow> edge list" where
  "or_empty r = (case r of Inr es \<Rightarrow> es | Inl _ \<Rightarrow> [])"

definition spring_of :: "(nat \<Rightarrow> real) \<Rightarrow> edge \<Rightarrow> layout \<Rightarrow> spring \<times> layout" where
  "spring_of rnd e L =
     (case map_of (edgeSprings L) (ekey e) of
        Some s \<Rightarrow> (s, L)
      | None \<Rightarrow>
          (let len = (case rest_length (edata e) of Some l \<Rightarrow> l | None \<Rightarrow> 1);
               from = or_empty (getEdges (source e) (target e) (graph_of L))
           in case existing_spring from (edgeSprings L) of
                Some s \<Rightarrow> (\<lparr>point1 = point1 s, point2 = point2 s, slength = 0, spring_k = 0\<rparr>, L)
              | None \<Rightarrow>
                  (case existing_spring from (edgeSprings L) of
                     Some s \<Rightarrow> (\<lparr>point1 = point2 s, point2 = point1 s, slength = 0, spring_k = 0\<rparr>, L)
                   | None \<Rightarrow>
                       (let L1 = point_of rnd (target e) (point_of rnd (source e) L);
                            s = \<lparr>point1 = nkey (source e), point2 = nkey (target e), slength = len,
                                 spring_k = stiffness L\<rparr>
                        in (s, L1\<lparr>edgeSprings := AList.update (ekey e) s (edgeSprings L1)\<rparr>)))))"

definition eachNode :: "(nat \<Rightarrow> real) \<Rightarrow> (node \<Rightarrow> jstring \<Rightarrow> layout \<Rightarrow> layout) \<Rightarrow> layout \<Rightarrow> layout" where
  "eachNode rnd callback L =
     fold (\<lambda>n L. callback n (nkey n) (point_of rnd n L)) (nodes (graph_of L)) L"

definition eachEdge :: "(nat \<Rightarrow> real) \<Rightarrow> (edge \<Rightarrow> spring \<Rightarrow> layout \<Rightarrow> layout) \<Rightarrow> layout \<Rightarrow> layout" where
  "eachEdge rnd callback L =
     fold (\<lambda>e L. let (s, L') = spring_of rnd e L in callback e s L') (edges (graph_of L)) L"

definition eachSpring :: "(nat \<Rightarrow> real) \<Rightarrow> (spring \<Rightarrow> layout \<Rightarrow> layout) \<Rightarrow> layout \<Rightarrow> layout" where
  "eachSpring rnd callback L =
     fold (\<lambda>e L. let (s, L') = spring_of rnd e L in callback s L') (edges (graph_of L)) L"

section \<open>The physics of a frame\<close>

definition repel :: "jstring \<Rightarrow> jstring \<Rightarrow> layout \<Rightarrow> layout" where
  "repel k1 k2 L =
     (if k1 = k2 then L
      else
        (let d = vsubtract (position (point_at k1 L)) (position (point_at k2 L));
             dist = magnitude d + 1/10;
             direction = normalise d;
             L1 = with_point k1 (applyForce (vdivide (vmultiply direction (repulsion L)) (dist * dist * (1/2)))) L
         in with_point k2 (applyForce (vdivide (vmultiply direction (repulsion L)) (dist * dist * (- (1/2))))) L1))"

definition applyCoulombsLaw :: "(nat \<Rightarrow> real) \<Rightarrow> layout \<Rightarrow> layout" where
  "applyCoulombsLaw rnd = eachNode rnd (\<lambda>n1 k1. eachNode rnd (\<lambda>n2 k2. repel k1 k2))"

definition hooke :: "spring \<Rightarrow> layout \<Rightarrow> layout" where
  "hooke s L =
     (let d = vsubtract (position (point_at (point2 s) L)) (position (point_at (point1 s) L));
          displacement = slength s - magnitude d;
          direction = normalise d;
          L1 = with_point (point1 s) (applyForce (vmultiply direction (spring_k s * displacement * (- (1/2))))) L
      in with_point (point2 s) (applyForce (vmultiply direction (spring_k s * displacement * (1/2)))) L1)"

definition applyHookesLaw :: "(nat \<Rightarrow> real) \<Rightarrow> layout \<Rightarrow> layout" where
  "applyHookesLaw rnd = eachSpring rnd hooke"

definition attractToCentre :: "(nat \<Rightarrow> real) \<Rightarrow> layout \<Rightarrow> layout" where
  "attractToCentre rnd L =
     eachNode rnd (\<lambda>n k L.
       with_point k (\<lambda>q. applyForce (vmultiply (vmultiply (position q) (- 1)) (repulsion L / 50)) q) L) L"

definition updateVelocity :: "(nat \<Rightarrow> real) \<Rightarrow> real \<Rightarrow> layout \<Rightarrow> layout" where
  "updateVelocity rnd timestep =
     eachNode rnd (\<lambda>n k L. with_point k (\<lambda>q. q\<lparr>
       velocity := vmultiply (vadd (velocity q) (vmultiply (accel q) timestep)) (damping L),
       accel := Vector 0 0\<rparr>) L)"

definition updatePosition :: "(nat \<Rightarrow> real) \<Rightarrow> real \<Rightarrow> layout \<Rightarrow> layout" where
  "updatePosition rnd timestep =
     eachNode rnd (\<lambda>n k. with_point k (\<lambda>q. q\<lparr>
       position := vadd (position q) (vmultiply (velocity q) timestep)\<rparr>))"

definition point_energy :: "point \<Rightarrow> real" where
  "point_energy q = 1/2 * pmass q * magnitude (velocity q) * magnitude (velocity q)"

fun energy_loop :: "(nat \<Rightarrow> real) \<Rightarrow> node list \<Rightarrow> real \<Rightarrow> layout \<Rightarrow> real \<times> layout" where
  "energy_loop rnd [] energy L = (energy, L)"
| "energy_loop rnd (n # ns) energy L =
     (let L' = point_of rnd n L in energy_loop rnd ns (energy + point_energy (point_at (nkey n) L')) L')"

definition totalEnergy :: "(nat \<Rightarrow> real) \<Rightarrow> layout \<Rightarrow> real \<times> layout" where
  "totalEnergy rnd L = energy_loop rnd (nodes (graph_of L)) 0 L"

definition physics :: "(nat \<Rightarrow> real) \<Rightarrow> layout \<Rightarrow> layout" where
  "physics rnd L =
     updatePosition rnd (3/100) (updateVelocity rnd (3/100) (attractToCentre rnd
       (applyHookesLaw rnd (applyCoulombsLaw rnd L))))"

section \<open>Queries\<close>

fun nearest_loop :: "(nat \<Rightarrow> real) \<Rightarrow> vector \<Rightarrow> node list \<Rightarrow> (node \<times> real) option \<Rightarrow> layout
    \<Rightarrow> (node \<times> real) option \<times> layout" where
  "nearest_loop rnd pos [] best L = (best, L)"
| "nearest_loop rnd pos (n # ns) best L =
     (let L' = point_of rnd n L;
          d = magnitude (vsubtract (position (point_at (nkey n) L')) pos);
          best' = (case best of None \<Rightarrow> Some (n, d) | Some (b, d0) \<Rightarrow> if d < d0 then Some (n, d) else best)
      in nearest_loop rnd pos ns best' L')"

definition nearest :: "(nat \<Rightarrow> real) \<Rightarrow> vector \<Rightarrow> layout \<Rightarrow> (node \<times> real) option \<times> layout" where
  "nearest rnd pos L = nearest_loop rnd pos (nodes (graph_of L)) None L"

definition widen :: "vector \<Rightarrow> vector \<times> vector \<Rightarrow> vector \<times> vector" where
  "widen q box =
     (let (bl, tr) = box;
          bl1 = (if vx q < vx bl then bl\<lparr>vx := vx q\<rparr> else bl);
          bl2 = (if vy q < vy bl1 then bl1\<lparr>vy := vy q\<rparr> else bl1);
          tr1 = (if vx q > vx tr then tr\<lparr>vx := vx q\<rparr> else tr);
          tr2 = (if vy q > vy tr1 then tr1\<lparr>vy := vy q\<rparr> else tr1)
      in (bl2, tr2))"

fun box_loop :: "(nat \<Rightarrow> real) \<Rightarrow> node list \<Rightarrow> vector \<times> vector \<Rightarrow> layout \<Rightarrow> (vector \<times> vector) \<times> layout" where
  "box_loop rnd [] box L = (box, L)"
| "box_loop rnd (n # ns) box L =
     (let L' = point_of rnd n L in box_loop rnd ns (widen (position (point_at (nkey n) L')) box) L')"

definition getBoundingBox :: "(nat \<Rightarrow> real) \<Rightarrow> layout \<Rightarrow> (vector \<times> vector) \<times> layout" where
  "getBoundingBox rnd L =
     (let ((bl, tr), L') = box_loop rnd (nodes (graph_of L)) (Vector (- 2) (- 2), Vector 2 2) L;
          padding = vmultiply (vsubtract tr bl) (7/100)
      in ((vsubtract bl padding, vadd tr padding), L'))"

section \<open>The renderer\<close>

datatype drawing = Clear | DrawEdge edge vector vector | DrawNode node vector

fun draw_edges :: "(nat \<Rightarrow> real) \<Rightarrow> edge list \<Rightarrow> layout \<Rightarrow> drawing list \<times> layout" where
  "draw_edges rnd [] L = ([], L)"
| "draw_edges rnd (e # es) L =
     (let (s, L1) = spring_of rnd e L;
          (ds, L2) = draw_edges rnd es L1
      in (DrawEdge e (position (point_at (point1 s) L1)) (position (point_at (point2 s) L1)) # ds, L2))"

fun draw_nodes :: "(nat \<Rightarrow> real) \<Rightarrow> node list \<Rightarrow> layout \<Rightarrow> drawing list \<times> layout" where
  "draw_nodes rnd [] L = ([], L)"
| "draw_nodes rnd (n # ns) L =
     (let L1 = point_of rnd n L;
          (ds, L2) = draw_nodes rnd ns L1
      in (DrawNode n (position (point_at (nkey n) L1)) # ds, L2))"

definition render :: "(nat \<Rightarrow> real) \<Rightarrow> layout \<Rightarrow> drawing list \<times> layout" where
  "render rnd L =
     (let (d1, L1) = draw_edges rnd (edges (graph_of L)) L;
          (d2, L2) = draw_nodes rnd (nodes (graph_of L1)) L1
      in (Clear # d1 @ d2, L2))"

section \<open>The animation loop\<close>

text \<open>
  The simulation: the layout with its two flags, the frame callbacks that were requested and have not
  run (each with the answer to whether \<open>start\<close> was given a \<open>render\<close> and which \<open>done\<close>), what was drawn,
  and the \<open>done\<close> callbacks that were called.
\<close>

type_synonym callback = "bool \<times> nat option"

record sim =
  lay :: layout
  started :: bool
  stop_flag :: bool
  pending :: "callback list"
  drawn :: "drawing list"
  done_calls :: "nat list"

definition newSim :: "layout \<Rightarrow> sim" where
  "newSim L = \<lparr>lay = L, started = False, stop_flag = False, pending = [], drawn = [], done_calls = []\<rparr>"

definition sim_start :: "callback \<Rightarrow> sim \<Rightarrow> sim" where
  "sim_start cb s =
     (if started s then s
      else s\<lparr>started := True, stop_flag := False, pending := pending s @ [cb]\<rparr>)"

definition sim_stop :: "sim \<Rightarrow> sim" where
  "sim_stop s = s\<lparr>stop_flag := True\<rparr>"

text \<open>One call of the function \<open>step\<close> in \<open>start\<close>.\<close>

definition frame_step :: "(nat \<Rightarrow> real) \<Rightarrow> callback \<Rightarrow> sim \<Rightarrow> sim" where
  "frame_step rnd cb s =
     (let s1 = s\<lparr>lay := physics rnd (lay s)\<rparr>;
          s2 = (if fst cb then (let (ds, L) = render rnd (lay s1) in s1\<lparr>lay := L, drawn := drawn s1 @ ds\<rparr>)
                else s1)
      in if stop_flag s2
         then s2\<lparr>started := False, done_calls := done_calls s2 @ (case snd cb of Some d \<Rightarrow> [d] | None \<Rightarrow> [])\<rparr>
         else
           (let (energy, L) = totalEnergy rnd (lay s2); s3 = s2\<lparr>lay := L\<rparr> in
            if energy < 1/100
            then s3\<lparr>started := False, done_calls := done_calls s3 @ (case snd cb of Some d \<Rightarrow> [d] | None \<Rightarrow> [])\<rparr>
            else s3\<lparr>pending := pending s3 @ [cb]\<rparr>))"

definition run_frame :: "(nat \<Rightarrow> real) \<Rightarrow> sim \<Rightarrow> sim" where
  "run_frame rnd s =
     (case pending s of [] \<Rightarrow> s | cb # cbs \<Rightarrow> frame_step rnd cb (s\<lparr>pending := cbs\<rparr>))"

text \<open>
  A \<open>Renderer\<close> adds itself to the listeners of the graph (as number \<open>r\<close>) and starts the simulation
  with its own \<open>render\<close> at every change that is announced to it.
\<close>

definition newRenderer :: "nat \<Rightarrow> sim \<Rightarrow> sim" where
  "newRenderer r s = s\<lparr>lay := (lay s)\<lparr>graph_of := addGraphListener r (graph_of (lay s))\<rparr>\<rparr>"

definition renderer_start :: "sim \<Rightarrow> sim" where
  "renderer_start = sim_start (True, None)"

definition renderer_stop :: "sim \<Rightarrow> sim" where
  "renderer_stop = sim_stop"

definition graph_change :: "(graph \<Rightarrow> graph) \<Rightarrow> sim \<Rightarrow> sim" where
  "graph_change f s =
     (let g = graph_of (lay s); g' = f g;
          calls = drop (length (changed g)) (changed g')
      in fold (\<lambda>r. renderer_start) calls (s\<lparr>lay := (lay s)\<lparr>graph_of := g'\<rparr>\<rparr>))"

end
