(* ===== verification/Springy_Layout_Laws.thy ===== *)
theory Springy_Layout_Laws
  imports Springy_Layout
begin

text \<open>
  The laws of the layout: the points are made once, forces come in opposite pairs, the queries see
  every node, and the animation loop never has two frames in flight.
\<close>

section \<open>Vectors and points\<close>

lemma vector_simps [simp]:
  "vx (Vector x y) = x" "vy (Vector x y) = y"
  "vx (vadd v w) = vx v + vx w" "vy (vadd v w) = vy v + vy w"
  "vx (vsubtract v w) = vx v - vx w" "vy (vsubtract v w) = vy v - vy w"
  "vx (vmultiply v n) = vx v * n" "vy (vmultiply v n) = vy v * n"
  "vx (vdivide v n) = vx v / n" "vy (vdivide v n) = vy v / n"
  by (simp_all add: Vector_def vadd_def vsubtract_def vmultiply_def vdivide_def)

lemma magnitude_nonneg [simp]: "0 \<le> magnitude v"
  by (simp add: magnitude_def)

definition keys :: "layout \<Rightarrow> jstring set" where
  "keys L = fst ` set (nodePoints L)"

definition points_ok :: "layout \<Rightarrow> bool" where
  "points_ok L \<longleftrightarrow> distinct (map fst (nodePoints L)) \<and> (\<forall>e \<in> set (nodePoints L). pmass (snd e) \<noteq> 0)"

definition springs_ok :: "layout \<Rightarrow> bool" where
  "springs_ok L \<longleftrightarrow> (\<forall>e \<in> set (edgeSprings L). point1 (snd e) \<in> keys L \<and> point2 (snd e) \<in> keys L)"

definition data_ok :: "graph \<Rightarrow> bool" where
  "data_ok g \<longleftrightarrow> (\<forall>n \<in> set (nodes g). mass (ndata n) \<noteq> Some 0)
     \<and> (\<forall>e \<in> set (edges g). mass (ndata (source e)) \<noteq> Some 0 \<and> mass (ndata (target e)) \<noteq> Some 0)"

lemma point_of_simps [simp]:
  "graph_of (point_of rnd n L) = graph_of L" "edgeSprings (point_of rnd n L) = edgeSprings L"
  "repulsion (point_of rnd n L) = repulsion L" "damping (point_of rnd n L) = damping L"
  "stiffness (point_of rnd n L) = stiffness L"
  by (simp_all add: point_of_def)

lemma point_of_new:
  assumes "nkey n \<notin> keys L"
  shows "nodePoints (point_of rnd n L) = nodePoints L @ [(nkey n,
    newPoint (random_vector rnd (drawn_numbers L)) (case mass (ndata n) of Some m \<Rightarrow> m | None \<Rightarrow> 1))]"
  using assms by (simp add: point_of_def keys_def update_fresh)

lemma point_of_old: "nkey n \<in> keys L \<Longrightarrow> point_of rnd n L = L"
  by (simp add: point_of_def keys_def)

lemma keys_point_of [simp]: "keys (point_of rnd n L) = insert (nkey n) (keys L)"
  by (cases "nkey n \<in> keys L") (auto simp: point_of_old keys_def point_of_new[unfolded keys_def])

lemma point_at_point_of: "k \<in> keys L \<Longrightarrow> point_at k (point_of rnd n L) = point_at k L"
  by (cases "nkey n \<in> keys L")
    (auto simp: point_of_old point_at_def point_of_new map_add_def keys_def map_of_eq_None_iff split: option.splits)

lemma with_point_simps [simp]:
  "graph_of (with_point k f L) = graph_of L" "edgeSprings (with_point k f L) = edgeSprings L"
  "repulsion (with_point k f L) = repulsion L" "damping (with_point k f L) = damping L"
  "stiffness (with_point k f L) = stiffness L"
  by (simp_all add: with_point_def)

lemma map_fst_map_entry [simp]: "map fst (AList.map_entry k f al) = map fst al"
  by (induction al) auto

lemma nodePoints_with_point: "nodePoints (with_point k f L) = AList.map_entry k f (nodePoints L)"
  by (simp add: with_point_def)

lemma keys_with_point [simp]: "keys (with_point k f L) = keys L"
  unfolding keys_def nodePoints_with_point set_map[symmetric] map_fst_map_entry ..

section \<open>Momentum\<close>

text \<open>The sum of mass times acceleration over all points: what the forces of a frame add up to.\<close>

definition sum_points :: "(point \<Rightarrow> real) \<Rightarrow> layout \<Rightarrow> real" where
  "sum_points \<phi> L = sum_list (map (\<phi> \<circ> snd) (nodePoints L))"

definition momentum :: "layout \<Rightarrow> real \<times> real" where
  "momentum L = (sum_points (\<lambda>q. pmass q * vx (accel q)) L, sum_points (\<lambda>q. pmass q * vy (accel q)) L)"

lemma sum_points_with_point:
  assumes "distinct (map fst (nodePoints L))" "k \<in> keys L"
    and "\<And>q. q \<in> snd ` set (nodePoints L) \<Longrightarrow> \<phi> (f q) = \<phi> q + c"
  shows "sum_points \<phi> (with_point k f L) = sum_points \<phi> L + c"
proof -
  have "sum_list (map (\<phi> \<circ> snd) (AList.map_entry k f al)) = sum_list (map (\<phi> \<circ> snd) al) + c"
    if "distinct (map fst al)" "k \<in> fst ` set al" "\<And>q. q \<in> snd ` set al \<Longrightarrow> \<phi> (f q) = \<phi> q + c" for al
    using that
  proof (induction al)
    case (Cons a al)
    have "AList.map_entry k f al = al" if "k \<notin> fst ` set al" using that by (induction al) auto
    then show ?case using Cons by (cases "fst a = k") (auto simp: split_beta)
  qed simp
  then show ?thesis using assms by (simp add: sum_points_def with_point_def keys_def)
qed

lemma points_ok_with_point:
  assumes "points_ok L" "\<And>q. pmass (f q) = pmass q"
  shows "points_ok (with_point k f L)"
proof -
  have "\<forall>e \<in> set (AList.map_entry k f al). pmass (snd e) \<noteq> 0" if "\<forall>e \<in> set al. pmass (snd e) \<noteq> 0" for al
    using that assms(2) by (induction al) (auto split: if_splits)
  from this[of "nodePoints L"] show ?thesis using assms(1) by (simp add: points_ok_def with_point_def)
qed

lemma applyForce_pmass [simp]: "pmass (applyForce f q) = pmass q"
  by (simp add: applyForce_def)

lemma momentum_force:
  assumes "points_ok L" "k \<in> keys L"
  shows "momentum (with_point k (applyForce f) L) = (fst (momentum L) + vx f, snd (momentum L) + vy f)"
proof -
  have d: "distinct (map fst (nodePoints L))" using assms(1) by (simp add: points_ok_def)
  have m: "pmass q \<noteq> 0" if "q \<in> snd ` set (nodePoints L)" for q using that assms(1) by (auto simp: points_ok_def)
  have "pmass (applyForce f q) * vx (accel (applyForce f q)) = pmass q * vx (accel q) + vx f"
    "pmass (applyForce f q) * vy (accel (applyForce f q)) = pmass q * vy (accel q) + vy f"
    if "q \<in> snd ` set (nodePoints L)" for q
    using m[OF that] by (simp_all add: applyForce_def distrib_left)
  then show ?thesis unfolding momentum_def fst_conv snd_conv
    by (intro arg_cong2[of _ _ _ _ Pair] sum_points_with_point[OF d assms(2)])
qed

text \<open>What every force keeps: the invariant of the points, the graph and the total momentum.\<close>

definition balanced :: "graph \<Rightarrow> real \<times> real \<Rightarrow> layout \<Rightarrow> bool" where
  "balanced g M L \<longleftrightarrow> points_ok L \<and> springs_ok L \<and> graph_of L = g \<and> momentum L = M"

lemma balanced_point_of:
  assumes "balanced g M L" "mass (ndata n) \<noteq> Some 0"
  shows "balanced g M (point_of rnd n L)"
proof (cases "nkey n \<in> keys L")
  case False
  then show ?thesis using assms
    by (auto simp: balanced_def points_ok_def springs_ok_def momentum_def sum_points_def point_of_new newPoint_def
        keys_def split: option.splits)
qed (use assms in \<open>simp add: point_of_old\<close>)

lemma balanced_pair:
  assumes "balanced g M L" "k1 \<in> keys L" "k2 \<in> keys L" "vx f2 = - vx f1" "vy f2 = - vy f1"
  shows "balanced g M (with_point k2 (applyForce f2) (with_point k1 (applyForce f1) L))"
proof -
  let ?L = "with_point k1 (applyForce f1) L"
  have ok: "points_ok ?L" using assms(1) by (simp add: balanced_def points_ok_with_point)
  show ?thesis
    using assms momentum_force[OF ok, of k2 f2] momentum_force[of L k1 f1] points_ok_with_point[OF ok]
    by (auto simp: balanced_def springs_ok_def)
qed

lemma balanced_repel:
  assumes "balanced g M L" "k1 \<in> keys L" "k2 \<in> keys L"
  shows "balanced g M (repel k1 k2 L)"
  using assms by (auto simp: repel_def Let_def intro!: balanced_pair)

lemma balanced_hooke:
  assumes "balanced g M L" "point1 s \<in> keys L" "point2 s \<in> keys L"
  shows "balanced g M (hooke s L)"
  using assms by (auto simp: hooke_def Let_def intro!: balanced_pair)

lemma keys_repel [simp]: "keys (repel k1 k2 L) = keys L"
  by (simp add: repel_def Let_def)

lemma keys_hooke [simp]: "keys (hooke s L) = keys L"
  by (simp add: hooke_def Let_def)

text \<open>An invariant of the callback is one of the loop over the nodes.\<close>

lemma eachNode_inv:
  assumes "I L" "\<And>n L. I L \<Longrightarrow> n \<in> set (nodes (graph_of L0)) \<Longrightarrow> I (point_of rnd n L)"
    "\<And>n L. I L \<Longrightarrow> n \<in> set (nodes (graph_of L0)) \<Longrightarrow> nkey n \<in> keys L \<Longrightarrow> I (cb n (nkey n) L)"
    "graph_of L = graph_of L0"
  shows "I (eachNode rnd cb L)"
proof -
  have "set ns \<subseteq> set (nodes (graph_of L0)) \<Longrightarrow> I L \<Longrightarrow> I (fold (\<lambda>n L. cb n (nkey n) (point_of rnd n L)) ns L)" for ns L
    by (induction ns arbitrary: L) (simp_all add: assms(2,3))
  then show ?thesis using assms(1,4) by (simp add: eachNode_def)
qed

lemma coulomb_balanced:
  assumes "balanced g M L" "data_ok g"
  shows "balanced g M (applyCoulombsLaw rnd L)"
proof -
  have mass: "mass (ndata n) \<noteq> Some 0" if "n \<in> set (nodes (graph_of L))" for n
    using assms that by (simp add: balanced_def data_ok_def)
  have gr: "graph_of L' = graph_of L" if "balanced g M L'" for L' using that assms(1) by (simp add: balanced_def)
  have inner: "balanced g M L' \<and> nkey n \<in> keys L' \<Longrightarrow> balanced g M (eachNode rnd (\<lambda>n2. repel (nkey n)) L')" for n L'
    by (rule conjunct1, rule eachNode_inv[where ?L0.0 = L and I = "\<lambda>L. balanced g M L \<and> nkey n \<in> keys L"])
      (simp_all add: balanced_point_of mass balanced_repel gr)
  show ?thesis unfolding applyCoulombsLaw_def
    by (rule eachNode_inv[where ?L0.0 = L]) (simp_all add: assms balanced_point_of mass inner)
qed

lemma existing_spring_mem: "existing_spring es springs = Some s \<Longrightarrow> s \<in> snd ` set springs"
proof -
  have "fold (\<lambda>e found. case found of Some s \<Rightarrow> Some s | None \<Rightarrow> map_of springs (ekey e)) es a = Some s \<Longrightarrow>
      a = Some s \<or> s \<in> snd ` set springs" for a
    by (induction es arbitrary: a) (force dest: map_of_SomeD split: option.splits)+
  then show "existing_spring es springs = Some s \<Longrightarrow> s \<in> snd ` set springs"
    unfolding existing_spring_def by blast
qed

lemma spring_of_balanced:
  assumes "balanced g M L" "data_ok g" "e \<in> set (edges g)" "spring_of rnd e L = (s, L')"
  shows "balanced g M L' \<and> point1 s \<in> keys L' \<and> point2 s \<in> keys L'"
proof (cases "map_of (edgeSprings L) (ekey e)")
  case (Some s')
  then show ?thesis using assms by (auto simp: spring_of_def balanced_def springs_ok_def dest!: map_of_SomeD)
next
  case None
  let ?from = "or_empty (getEdges (source e) (target e) (graph_of L))"
  show ?thesis
  proof (cases "existing_spring ?from (edgeSprings L)")
    case (Some s')
    then show ?thesis using assms None existing_spring_mem[OF Some]
      by (auto simp: spring_of_def balanced_def springs_ok_def Let_def)
  next
    case no: None
    let ?L1 = "point_of rnd (target e) (point_of rnd (source e) L)"
    have b: "balanced g M ?L1" using assms(1-3) by (intro balanced_point_of) (auto simp: data_ok_def)
    have "balanced g M (?L1\<lparr>edgeSprings := AList.update (ekey e)
        \<lparr>point1 = nkey (source e), point2 = nkey (target e), slength = l, spring_k = st\<rparr> (edgeSprings ?L1)\<rparr>)" for l st
      using b by (auto simp: balanced_def points_ok_def momentum_def sum_points_def springs_ok_def keys_def[of "_\<lparr>edgeSprings := _\<rparr>"]
          keys_def[symmetric] dest!: set_update_snd)
    then show ?thesis using assms(4) None no
      by (auto simp: spring_of_def Let_def keys_def[of "_\<lparr>edgeSprings := _\<rparr>"] keys_def[symmetric])
  qed
qed

lemma hooke_law_balanced:
  assumes "balanced g M L" "data_ok g"
  shows "balanced g M (applyHookesLaw rnd L)"
proof -
  have "set es \<subseteq> set (edges g) \<Longrightarrow> balanced g M L \<Longrightarrow>
      balanced g M (fold (\<lambda>e L. let (s, L') = spring_of rnd e L in hooke s L') es L)" for es L
  proof (induction es arbitrary: L)
    case (Cons e es)
    obtain s L' where s: "spring_of rnd e L = (s, L')" by (cases "spring_of rnd e L")
    have "balanced g M (hooke s L')"
      using spring_of_balanced[OF Cons.prems(2) assms(2) _ s] Cons.prems(1) by (auto intro: balanced_hooke)
    then show ?case using Cons s by simp
  qed simp
  then show ?thesis using assms(1) by (simp add: applyHookesLaw_def eachSpring_def balanced_def)
qed

end
