(* ===== verification/Springy_Loop.thy ===== *)
theory Springy_Loop
  imports Springy_Layout_Laws
begin

text \<open>
  What the queries of the layout return, the animation loop as a step relation, and the properties
  of the layout.
\<close>

section \<open>Loops over the points\<close>

definition all_points :: "(nat \<Rightarrow> real) \<Rightarrow> node list \<Rightarrow> layout \<Rightarrow> layout" where
  "all_points rnd = fold (point_of rnd)"

lemma all_points_Cons: "all_points rnd (n # ns) L = all_points rnd ns (point_of rnd n L)"
  by (simp add: all_points_def)

lemma keys_all_points [simp]: "keys (all_points rnd ns L) = keys L \<union> nkey ` set ns"
  by (induction ns arbitrary: L) (auto simp: all_points_def)

lemma point_at_all_points: "k \<in> keys L \<Longrightarrow> point_at k (all_points rnd ns L) = point_at k L"
  by (induction ns arbitrary: L) (simp_all add: all_points_def point_at_point_of)

text \<open>A loop that asks for the point of each node reads what the layout holds when it ends.\<close>

lemma point_loop:
  assumes "\<And>b L. loop [] b L = (b, L)"
    and "\<And>n ns b L. loop (n # ns) b L = loop ns (h n (point_at (nkey n) (point_of rnd n L)) b) (point_of rnd n L)"
  shows "loop ns b L =
    (fold (\<lambda>n. h n (point_at (nkey n) (all_points rnd ns L))) ns b, all_points rnd ns L)"
proof (induction ns arbitrary: b L)
  case (Cons n ns)
  have "point_at (nkey n) (all_points rnd ns (point_of rnd n L)) = point_at (nkey n) (point_of rnd n L)"
    by (rule point_at_all_points) simp
  then show ?case by (simp add: assms(2) Cons.IH all_points_Cons)
qed (simp add: assms(1) all_points_def)

lemmas box_loop_eq = point_loop[of "box_loop rnd" "\<lambda>n q. widen (position q)" rnd for rnd,
    OF box_loop.simps(1) box_loop.simps(2)[unfolded Let_def]]

lemmas energy_loop_eq = point_loop[of "energy_loop rnd" "\<lambda>n q e. e + point_energy q" rnd for rnd,
    OF energy_loop.simps(1) energy_loop.simps(2)[unfolded Let_def]]

definition nearer :: "vector \<Rightarrow> node \<Rightarrow> point \<Rightarrow> (node \<times> real) option \<Rightarrow> (node \<times> real) option" where
  "nearer pos n q best =
     (let d = magnitude (vsubtract (position q) pos)
      in case best of None \<Rightarrow> Some (n, d) | Some (b, d0) \<Rightarrow> if d < d0 then Some (n, d) else best)"

lemmas nearest_loop_eq = point_loop[of "nearest_loop rnd pos" "nearer pos" rnd for rnd pos,
    OF nearest_loop.simps(1) nearest_loop.simps(2)[unfolded Let_def, folded nearer_def[unfolded Let_def]]]

section \<open>The bounding box\<close>

definition inside :: "vector \<Rightarrow> vector \<times> vector \<Rightarrow> bool" where
  "inside q box \<longleftrightarrow> vx (fst box) \<le> vx q \<and> vx q \<le> vx (snd box) \<and> vy (fst box) \<le> vy q \<and> vy q \<le> vy (snd box)"

lemma inside_widen: "inside q box \<Longrightarrow> inside q (widen p box)"
  by (cases box) (auto simp: inside_def widen_def Let_def)

lemma widen_inside:
  assumes "inside o0 box" shows "inside p (widen p box)"
  using assms by (cases box) (auto simp: inside_def widen_def Let_def)

lemma fold_widen:
  assumes "inside o0 box"
  shows "inside o0 (fold (\<lambda>n. widen (f n)) ns box) \<and> (\<forall>n \<in> set ns. inside (f n) (fold (\<lambda>n. widen (f n)) ns box))"
proof -
  have keep: "inside q b \<Longrightarrow> inside q (fold (\<lambda>n. widen (f n)) ns b)" for q b ns
    by (induction ns arbitrary: b) (simp_all add: inside_widen)
  show ?thesis using assms
  proof (induction ns arbitrary: box)
    case (Cons n ns)
    then show ?case using keep[OF widen_inside] inside_widen by auto
  qed simp
qed

lemma inside_padding:
  assumes "inside q (bl, tr)"
  shows "inside q (vsubtract bl (vmultiply (vsubtract tr bl) (7/100)), vadd tr (vmultiply (vsubtract tr bl) (7/100)))"
proof -
  have "0 \<le> (vx tr - vx bl) * (7/100)" "0 \<le> (vy tr - vy bl) * (7/100)"
    using assms by (auto simp: inside_def)
  then show ?thesis using assms
    unfolding inside_def fst_conv snd_conv vector_simps by linarith
qed

section \<open>The nearest node\<close>

definition closer :: "(node \<Rightarrow> real) \<Rightarrow> node \<Rightarrow> (node \<times> real) option \<Rightarrow> (node \<times> real) option" where
  "closer f n best =
     (case best of None \<Rightarrow> Some (n, f n) | Some (b, d0) \<Rightarrow> if f n < d0 then Some (n, f n) else best)"

lemma closer_fold:
  "\<exists>m. fold (closer f) ns (Some (b, f b)) = Some (m, f m) \<and> m \<in> insert b (set ns)
     \<and> f m \<le> f b \<and> (\<forall>n \<in> set ns. f m \<le> f n)"
proof (induction ns arbitrary: b)
  case (Cons n ns)
  show ?case
  proof (cases "f n < f b")
    case True
    then show ?thesis using Cons.IH[of n] by (auto simp: closer_def)
  next
    case False
    then show ?thesis using Cons.IH[of b] by (auto simp: closer_def)
  qed
qed simp

section \<open>The animation loop\<close>

text \<open>The events that can reach a simulation; the callbacks of the program are among them.\<close>

inductive sim_step :: "(nat \<Rightarrow> real) \<Rightarrow> sim \<Rightarrow> sim \<Rightarrow> bool" for rnd where
  step_start: "sim_step rnd s (sim_start cb s)"
| step_stop: "sim_step rnd s (sim_stop s)"
| step_frame: "pending s \<noteq> [] \<Longrightarrow> sim_step rnd s (run_frame rnd s)"
| step_change: "sim_step rnd s (graph_change f s)"
| step_renderer: "sim_step rnd s (newRenderer r s)"

inductive sim_reachable :: "(nat \<Rightarrow> real) \<Rightarrow> sim \<Rightarrow> bool" for rnd where
  sim_init: "sim_reachable rnd (newSim L)"
| sim_next: "sim_reachable rnd s \<Longrightarrow> sim_step rnd s s' \<Longrightarrow> sim_reachable rnd s'"

inductive_cases sim_stepE: "sim_step rnd s s'"

definition one_frame :: "sim \<Rightarrow> bool" where
  "one_frame s \<longleftrightarrow> length (pending s) = (if started s then 1 else 0)"

lemma one_frame_start: "one_frame s \<Longrightarrow> one_frame (sim_start cb s) \<and> started (sim_start cb s)"
  by (simp add: one_frame_def sim_start_def)

lemma started_sim_start: "started (sim_start cb s)"
  by (simp add: sim_start_def)

lemma one_frame_start_loop: "one_frame s \<Longrightarrow> one_frame (fold (\<lambda>r. renderer_start) rs s)"
  by (induction rs arbitrary: s) (simp_all add: renderer_start_def one_frame_start)

lemma frame_step_cases:
  "(\<not> started (frame_step rnd cb s) \<and> pending (frame_step rnd cb s) = pending s)
    \<or> (started (frame_step rnd cb s) = started s \<and> pending (frame_step rnd cb s) = pending s @ [cb])"
  by (simp add: frame_step_def Let_def split_beta)

lemma one_frame_run: "one_frame s \<Longrightarrow> pending s \<noteq> [] \<Longrightarrow> one_frame (run_frame rnd s)"
proof -
  assume one: "one_frame s" and p: "pending s \<noteq> []"
  then obtain cb where cb: "pending s = [cb]" and st: "started s"
    by (cases "pending s") (auto simp: one_frame_def split: if_splits)
  have r: "run_frame rnd s = frame_step rnd cb (s\<lparr>pending := []\<rparr>)" by (simp add: run_frame_def cb)
  show "one_frame (run_frame rnd s)"
    unfolding r one_frame_def
    using frame_step_cases[of rnd cb "s\<lparr>pending := []\<rparr>"] st by auto
qed

lemma one_frame_change: "one_frame s \<Longrightarrow> one_frame (graph_change f s)"
  unfolding graph_change_def Let_def by (rule one_frame_start_loop) (simp add: one_frame_def)

lemma one_frame_step:
  assumes "sim_step rnd s s'" "one_frame s" shows "one_frame s'"
  using assms(1)
proof cases
  case step_stop
  then show ?thesis using assms(2) by (simp add: one_frame_def sim_stop_def)
next
  case step_renderer
  then show ?thesis using assms(2) by (simp add: one_frame_def newRenderer_def)
qed (use assms(2) in \<open>simp_all add: one_frame_start one_frame_run one_frame_change\<close>)

lemma one_frame_reachable: "sim_reachable rnd s \<Longrightarrow> one_frame s"
proof (induction rule: sim_reachable.induct)
  case (sim_init L)
  show ?case by (simp add: one_frame_def newSim_def)
qed (rule one_frame_step)

section \<open>Properties\<close>

definition demo_layout :: layout where
  "demo_layout = newLayout demo_graph 400 400 (1/2)"

lemma demo_layout_ok: "balanced demo_graph (0, 0) demo_layout \<and> data_ok demo_graph"
  by (simp add: balanced_def demo_layout_def newLayout_def points_ok_def springs_ok_def momentum_def sum_points_def
      data_ok_def demo_graph_parts demo_node_def newNodeObj_def newEdgeObj_def no_node_data_def)

text \<open>C28: Springy forces balance. When no mass is zero, the repulsion between all points and the
  springs along all edges leave the sum of mass times acceleration as it was: every force on one end
  comes with the opposite force on the other. \<open>points_ok\<close> and \<open>springs_ok\<close> (the springs refer to points
  of the layout) hold in a new layout and are kept.\<close>

theorem springy_forces_balance:
  assumes "points_ok L" "springs_ok L" "data_ok (graph_of L)"
  shows "momentum (applyCoulombsLaw rnd L) = momentum L
    \<and> momentum (applyHookesLaw rnd (applyCoulombsLaw rnd L)) = momentum L
    \<and> points_ok (applyHookesLaw rnd (applyCoulombsLaw rnd L))
    \<and> springs_ok (applyHookesLaw rnd (applyCoulombsLaw rnd L))"
proof -
  have "balanced (graph_of L) (momentum L) L" using assms by (simp add: balanced_def)
  from coulomb_balanced[OF this assms(3), of rnd] hooke_law_balanced[OF coulomb_balanced[OF this assms(3)] assms(3), of rnd rnd]
  show ?thesis by (simp add: balanced_def)
qed

theorem springy_forces_balance_witness:
  "momentum (applyHookesLaw (\<lambda>i. 1/4) (applyCoulombsLaw (\<lambda>i. 1/4) demo_layout)) = (0, 0)"
  using springy_forces_balance[of demo_layout "\<lambda>i. 1/4"] demo_layout_ok by (auto simp: balanced_def)

text \<open>C29: Springy bounding box. The box that \<open>getBoundingBox\<close> returns contains the point of every node
  and the square from \<open>(-2, -2)\<close> to \<open>(2, 2)\<close>.\<close>

theorem springy_bounding_box:
  "(\<forall>n \<in> set (nodes (graph_of L)).
      inside (position (point_at (nkey n) (snd (getBoundingBox rnd L)))) (fst (getBoundingBox rnd L)))
    \<and> inside (Vector 2 2) (fst (getBoundingBox rnd L)) \<and> inside (Vector (- 2) (- 2)) (fst (getBoundingBox rnd L))"
proof -
  define ns where "ns = nodes (graph_of L)"
  define f where "f n = position (point_at (nkey n) (all_points rnd ns L))" for n
  define box where "box = fold (\<lambda>n. widen (f n)) ns (Vector (- 2) (- 2), Vector 2 2)"
  have eq: "fst (getBoundingBox rnd L) =
      (vsubtract (fst box) (vmultiply (vsubtract (snd box) (fst box)) (7/100)),
       vadd (snd box) (vmultiply (vsubtract (snd box) (fst box)) (7/100)))"
    "snd (getBoundingBox rnd L) = all_points rnd ns L"
    by (simp_all add: getBoundingBox_def box_loop_eq Let_def split_beta f_def box_def ns_def)
  have all: "inside p box \<Longrightarrow> inside p (fst (getBoundingBox rnd L))" for p
    unfolding eq by (rule inside_padding) simp
  have start: "inside (Vector 2 2) (Vector (- 2) (- 2), Vector 2 2)"
    "inside (Vector (- 2) (- 2)) (Vector (- 2) (- 2), Vector 2 2)" by (simp_all add: inside_def)
  show ?thesis
    using fold_widen[OF start(1), of f ns] fold_widen[OF start(2), of f ns]
    by (auto simp: box_def[symmetric] eq(2) f_def[symmetric] ns_def[symmetric] intro!: all)
qed

theorem springy_bounding_box_witness:
  "inside (position (point_at ''0'' (snd (getBoundingBox (\<lambda>i. 1/4) demo_layout))))
     (fst (getBoundingBox (\<lambda>i. 1/4) demo_layout))"
proof -
  have "nkey (demo_node 0) = ''0''" by code_simp
  then show ?thesis using springy_bounding_box[of demo_layout "\<lambda>i. 1/4"]
    by (simp add: demo_layout_def newLayout_def demo_graph_parts)
qed

text \<open>Springy nearest node. On a graph with nodes, \<open>nearest\<close> returns a node of the graph and its
  distance from the given position, and no node is nearer; without nodes it returns none.\<close>

theorem springy_nearest:
  "(nodes (graph_of L) = [] \<longleftrightarrow> fst (nearest rnd pos L) = None)
    \<and> (\<forall>m d. fst (nearest rnd pos L) = Some (m, d) \<longrightarrow> m \<in> set (nodes (graph_of L))
        \<and> d = magnitude (vsubtract (position (point_at (nkey m) (snd (nearest rnd pos L)))) pos)
        \<and> (\<forall>n \<in> set (nodes (graph_of L)).
             d \<le> magnitude (vsubtract (position (point_at (nkey n) (snd (nearest rnd pos L)))) pos)))"
proof -
  define ns where "ns = nodes (graph_of L)"
  define dist where "dist n = magnitude (vsubtract (position (point_at (nkey n) (all_points rnd ns L))) pos)" for n
  have "nearer pos n (point_at (nkey n) (all_points rnd ns L)) = closer dist n" for n
    by (rule ext) (simp add: nearer_def closer_def dist_def Let_def split: option.split)
  then have eq: "nearest rnd pos L = (fold (closer dist) ns None, all_points rnd ns L)"
    by (simp add: nearest_def nearest_loop_eq ns_def)
  show ?thesis
  proof (cases ns)
    case Nil
    then show ?thesis by (simp add: eq ns_def[symmetric])
  next
    case (Cons n ms)
    from closer_fold[of dist ms n]
    obtain m where "fst (nearest rnd pos L) = Some (m, dist m)" "m \<in> set ns" "\<forall>k \<in> set ns. dist m \<le> dist k"
      by (auto simp: eq Cons closer_def)
    then show ?thesis using Cons by (simp add: ns_def[symmetric] eq dist_def)
  qed
qed

theorem springy_nearest_witness:
  "fst (nearest (\<lambda>i. 1/4) (Vector 0 0) demo_layout) \<noteq> None"
  using springy_nearest[of demo_layout "\<lambda>i. 1/4" "Vector 0 0"]
  by (simp add: demo_layout_def newLayout_def demo_graph_parts)

text \<open>C30: Springy animation frames. Whatever starts, stops, frames, graph changes and renderers a
  simulation sees, it has exactly one frame callback in flight while it is started and none while it
  is not; and a change of the graph that is announced to a renderer leaves it started.\<close>

theorem springy_one_frame:
  assumes "sim_reachable rnd s"
  shows "length (pending s) = (if started s then 1 else 0)
    \<and> (eventListeners (graph_of (lay s)) \<noteq> [] \<longrightarrow>
         (let s' = graph_change (addNode n) s in started s' \<and> length (pending s') = 1))"
proof -
  have one: "one_frame s" by (rule one_frame_reachable[OF assms])
  have started_loop: "rs \<noteq> [] \<Longrightarrow> one_frame t \<Longrightarrow> started (fold (\<lambda>r. renderer_start) rs t)" for rs :: "nat list" and t
  proof (induction rs arbitrary: t rule: rev_induct)
    case (snoc r rs)
    show ?case by (simp add: renderer_start_def started_sim_start)
  qed simp
  have "started (graph_change (addNode n) s)" if "eventListeners (graph_of (lay s)) \<noteq> []"
    unfolding graph_change_def Let_def
  proof (rule started_loop)
    show "drop (length (changed (graph_of (lay s)))) (changed (addNode n (graph_of (lay s)))) \<noteq> []"
      using that by (simp add: addNode_def Let_def notify_def)
    show "one_frame (s\<lparr>lay := lay s\<lparr>graph_of := addNode n (graph_of (lay s))\<rparr>\<rparr>)"
      using one by (simp add: one_frame_def)
  qed
  then show ?thesis using one one_frame_change[OF one, of "addNode n"] by (simp add: one_frame_def Let_def)
qed

definition demo_sim :: sim where
  "demo_sim = graph_change (addNode (demo_node 0)) (newRenderer 7 (newSim (newLayout newGraph 400 400 (1/2))))"

lemma demo_sim_reachable: "sim_reachable rnd demo_sim"
  unfolding demo_sim_def by (rule sim_next[OF sim_next[OF sim_init step_renderer] step_change])

lemma demo_sim_started: "started demo_sim"
  by (simp add: demo_sim_def graph_change_def newRenderer_def newSim_def newLayout_def addNode_def notify_def
        addGraphListener_def newGraph_def renderer_start_def sim_start_def Let_def)

theorem springy_one_frame_witness: "length (pending demo_sim) = 1"
  using springy_one_frame[OF demo_sim_reachable] demo_sim_started by simp

text \<open>C31: Springy stop. In every reachable simulation that is started, the first frame after \<open>stop\<close>
  ends it: no callback is left and \<open>done\<close> is called. That stays so when \<open>start\<close> is called between the
  two: the call returns at once because the old frame has not run yet, and the restart is lost.\<close>

theorem springy_stop:
  assumes "sim_reachable rnd s" "started s"
  shows "started (run_frame rnd (sim_stop s)) = False \<and> pending (run_frame rnd (sim_stop s)) = []
    \<and> length (done_calls (run_frame rnd (sim_stop s)))
        = length (done_calls s) + (if snd (hd (pending s)) = None then 0 else 1)
    \<and> run_frame rnd (sim_start cb (sim_stop s)) = run_frame rnd (sim_stop s)"
proof -
  obtain c where c: "pending s = [c]"
    using one_frame_reachable[OF assms(1)] assms(2) by (cases "pending s") (auto simp: one_frame_def)
  then show ?thesis using assms(2)
    by (auto simp: run_frame_def sim_stop_def sim_start_def frame_step_def Let_def split_beta split: option.splits)
qed

theorem springy_stop_witness: "\<not> started (run_frame (\<lambda>i. 1/4) (sim_start (True, None) (sim_stop demo_sim)))"
  using springy_stop[OF demo_sim_reachable, of "\<lambda>i. 1/4" "(True, None)"] demo_sim_started by simp

end
