(* ===== verification/Sprintf.thy ===== *)
theory Sprintf
  imports Js_Numbers
begin

text \<open>
  \<open>sprintf-0.7-beta1.js\<close>: the parser of format strings, the formatter, the cache of parsed formats.

  Numbers are integers. A character code above 255 is outside the strings of the model and is an
  error of its own; \<open>toExponential\<close> is a parameter. The regular expression of a placeholder has no two
  ways to match a text, so it is read here group by group from left to right.
\<close>

section \<open>Values\<close>

datatype jval = JUndefined | JNull | JNum int | JStr jstring | JObj "(jstring \<times> jval) list"

fun get_type :: "jval \<Rightarrow> jstring" where
  "get_type JUndefined = ''undefined''"
| "get_type JNull = ''null''"
| "get_type (JNum i) = ''number''"
| "get_type (JStr s) = ''string''"
| "get_type (JObj fs) = ''object''"

fun js_String :: "jval \<Rightarrow> jstring" where
  "js_String JUndefined = ''undefined''"
| "js_String JNull = ''null''"
| "js_String (JNum i) = int_str i"
| "js_String (JStr s) = s"
| "js_String (JObj fs) = ''[object Object]''"

type_synonym 'a thrown = "jstring + 'a"

text \<open>\<open>arg.hasOwnProperty(k)\<close> and \<open>arg[k]\<close>: a string has its length and its characters.\<close>

definition own_property :: "jval \<Rightarrow> jstring \<Rightarrow> jval option thrown" where
  "own_property v k =
     (case v of
        JObj fs \<Rightarrow> Inr (map_of fs k)
      | JStr s \<Rightarrow> Inr (if k = ''length'' then Some (JNum (int (length s)))
                       else if k \<noteq> [] \<and> list_all is_digit k \<and> nat_digits (digits_nat k) = k \<and> digits_nat k < length s
                       then Some (JStr [s ! digits_nat k]) else None)
      | JNum i \<Rightarrow> Inr None
      | _ \<Rightarrow> Inl ''TypeError'')"

section \<open>Format strings\<close>

datatype padding = PadZero | PadChar char

record spec =
  arg_index :: "nat option"
  keyword :: "jstring list option"
  plus_sign :: bool
  padder :: "padding option"
  left_adjust :: bool
  width :: "nat option"
  precision :: "nat option"
  conv :: char

datatype piece = Lit jstring | Place spec

datatype arg_ref = NoRef | IndexRef nat | NameRef jstring

definition p_ref :: "jstring \<Rightarrow> arg_ref \<times> jstring" where
  "p_ref s =
     (let ds = takeWhile is_digit s; r = dropWhile is_digit s in
      if ds \<noteq> [] \<and> hd ds \<noteq> CHR ''0'' \<and> r \<noteq> [] \<and> hd r = CHR ''$'' then (IndexRef (digits_nat ds), tl r)
      else if s \<noteq> [] \<and> hd s = CHR ''(''
      then (let n = takeWhile (\<lambda>c. c \<noteq> CHR '')'') (tl s); q = dropWhile (\<lambda>c. c \<noteq> CHR '')'') (tl s)
            in if n \<noteq> [] \<and> q \<noteq> [] then (NameRef n, tl q) else (NoRef, s))
      else (NoRef, s))"

definition p_flag :: "char \<Rightarrow> jstring \<Rightarrow> bool \<times> jstring" where
  "p_flag c s = (if s \<noteq> [] \<and> hd s = c then (True, tl s) else (False, s))"

fun p_pad :: "jstring \<Rightarrow> padding option \<times> jstring" where
  "p_pad (a # c # s) =
     (if a = CHR ''0'' then (Some PadZero, c # s)
      else if a = CHR 0x27 \<and> c \<noteq> CHR ''$'' then (Some (PadChar c), s)
      else (None, a # c # s))"
| "p_pad s = (if s \<noteq> [] \<and> hd s = CHR ''0'' then (Some PadZero, tl s) else (None, s))"

definition p_digits :: "jstring \<Rightarrow> nat option \<times> jstring" where
  "p_digits s =
     (let ds = takeWhile is_digit s in if ds = [] then (None, s) else (Some (digits_nat ds), dropWhile is_digit s))"

definition p_prec :: "jstring \<Rightarrow> nat option \<times> jstring" where
  "p_prec s =
     (if s \<noteq> [] \<and> hd s = CHR ''.''
      then (case p_digits (tl s) of (Some n, r) \<Rightarrow> (Some n, r) | (None, _) \<Rightarrow> (None, s))
      else (None, s))"

definition conversions :: "char list" where "conversions = ''bcdefosuxX''"

text \<open>A placeholder behind its percent sign: the reference, the rest of the placeholder, what follows.\<close>

definition p_place :: "jstring \<Rightarrow> (arg_ref \<times> spec \<times> jstring) option" where
  "p_place s =
     (let (ref, s1) = p_ref s; (plus, s2) = p_flag (CHR ''+'') s1; (pad, s3) = p_pad s2;
          (left, s4) = p_flag (CHR ''-'') s3; (w, s5) = p_digits s4; (p, s6) = p_prec s5
      in if s6 \<noteq> [] \<and> hd s6 \<in> set conversions
         then Some (ref, \<lparr>arg_index = None, keyword = None, plus_sign = plus, padder = pad,
                          left_adjust = left, width = w, precision = p, conv = hd s6\<rparr>, tl s6)
         else None)"

definition ident_start :: "char \<Rightarrow> bool" where "ident_start c \<longleftrightarrow> is_alpha c \<or> c = CHR ''_''"
definition ident_char :: "char \<Rightarrow> bool" where "ident_char c \<longleftrightarrow> ident_start c \<or> is_digit c"

text \<open>The keys of a named placeholder: a name, then \<open>.name\<close> and \<open>[digits]\<close>.\<close>

function p_fields :: "jstring \<Rightarrow> jstring list thrown" where
  "p_fields s =
     (if s = [] then Inr []
      else if length s > 1 \<and> hd s = CHR ''.'' \<and> ident_start (hd (tl s))
      then map_sum id (Cons (takeWhile ident_char (tl s))) (p_fields (dropWhile ident_char (tl s)))
      else if hd s = CHR ''['' \<and> takeWhile is_digit (tl s) \<noteq> []
          \<and> dropWhile is_digit (tl s) \<noteq> [] \<and> hd (dropWhile is_digit (tl s)) = CHR '']''
      then map_sum id (Cons (takeWhile is_digit (tl s))) (p_fields (tl (dropWhile is_digit (tl s))))
      else Inl ''[sprintf] huh?'')"
  by pat_completeness auto

lemma dropWhile_tl_less: "s \<noteq> [] \<Longrightarrow> length (dropWhile P (tl s)) < length s"
  using length_dropWhile_le[of P "tl s"] by (cases s) auto

lemma tl_dropWhile_tl_less: "s \<noteq> [] \<Longrightarrow> length (tl (dropWhile P (tl s))) < length s"
  using dropWhile_tl_less[of s P] by simp

termination p_fields
  by (relation "measure length") (auto intro: dropWhile_tl_less tl_dropWhile_tl_less simp del: length_tl)

definition p_name :: "jstring \<Rightarrow> jstring list thrown" where
  "p_name s =
     (if s \<noteq> [] \<and> ident_start (hd s)
      then map_sum id (Cons (takeWhile ident_char s)) (p_fields (dropWhile ident_char s))
      else Inl ''[sprintf] huh?'')"

text \<open>\<open>parse\<close>: the two flags say whether a named and a positional placeholder were seen.\<close>

definition resolve_ref :: "arg_ref \<Rightarrow> spec \<Rightarrow> spec thrown" where
  "resolve_ref ref sp =
     (case ref of
        NoRef \<Rightarrow> Inr sp
      | IndexRef n \<Rightarrow> Inr (sp\<lparr>arg_index := Some n\<rparr>)
      | NameRef s \<Rightarrow> map_sum id (\<lambda>ks. sp\<lparr>keyword := Some ks\<rparr>) (p_name s))"

definition is_named :: "arg_ref \<Rightarrow> bool" where
  "is_named ref = (case ref of NameRef s \<Rightarrow> True | _ \<Rightarrow> False)"

lemma p_flag_length: "length (snd (p_flag c s)) \<le> length s"
  by (simp add: p_flag_def)

lemma p_pad_length: "length (snd (p_pad s)) \<le> length s"
  by (cases s rule: p_pad.cases) auto

lemma p_digits_length: "length (snd (p_digits s)) \<le> length s"
  by (simp add: p_digits_def Let_def length_dropWhile_le)

lemma p_prec_length: "length (snd (p_prec s)) \<le> length s"
  using p_digits_length[of "tl s"] by (auto simp: p_prec_def split: prod.split option.split)

lemma p_ref_length: "length (snd (p_ref s)) \<le> length s"
  using length_dropWhile_le[of is_digit s] length_dropWhile_le[of "\<lambda>c. c \<noteq> CHR '')''" "tl s"]
  by (auto simp: p_ref_def Let_def split: if_splits)

lemma p_place_length: "p_place s = Some (ref, sp, r) \<Longrightarrow> length r < length s"
proof -
  assume p: "p_place s = Some (ref, sp, r)"
  obtain a1 s1 a2 s2 a3 s3 a4 s4 a5 s5 a6 s6 where
    eqs: "p_ref s = (a1, s1)" "p_flag (CHR ''+'') s1 = (a2, s2)" "p_pad s2 = (a3, s3)"
      "p_flag (CHR ''-'') s3 = (a4, s4)" "p_digits s4 = (a5, s5)" "p_prec s5 = (a6, s6)"
    by (meson surj_pair)
  have "length s6 \<le> length s"
    using p_ref_length[of s] p_flag_length[of "CHR ''+''" s1] p_pad_length[of s2]
      p_flag_length[of "CHR ''-''" s3] p_digits_length[of s4] p_prec_length[of s5] by (simp add: eqs)
  moreover have "s6 \<noteq> [] \<and> r = tl s6" using p by (simp add: p_place_def eqs split: if_splits)
  ultimately show "length r < length s" by (cases s6) auto
qed

function parse_loop :: "bool \<Rightarrow> bool \<Rightarrow> jstring \<Rightarrow> piece list thrown" where
  "parse_loop named positional s =
     (if s = [] then Inr []
      else if hd s \<noteq> CHR ''%''
      then map_sum id (Cons (Lit (takeWhile (\<lambda>c. c \<noteq> CHR ''%'') s)))
             (parse_loop named positional (dropWhile (\<lambda>c. c \<noteq> CHR ''%'') s))
      else if take 2 s = ''%%''
      then map_sum id (Cons (Lit ''%'')) (parse_loop named positional (drop 2 s))
      else (case p_place (tl s) of
              None \<Rightarrow> Inl ''[sprintf] huh?''
            | Some (ref, sp, r) \<Rightarrow>
                (case resolve_ref ref sp of
                   Inl x \<Rightarrow> Inl x
                 | Inr sp' \<Rightarrow>
                     if (named \<or> is_named ref) \<and> (positional \<or> \<not> is_named ref)
                     then Inl ''[sprintf] mixing positional and named placeholders is not (yet) supported''
                     else map_sum id (Cons (Place sp'))
                            (parse_loop (named \<or> is_named ref) (positional \<or> \<not> is_named ref) r))))"
  by pat_completeness auto

termination
proof (relation "measure (\<lambda>(n, p, s). length s)", goal_cases)
  case (2 n p s)
  then show ?case by (cases s) (auto simp: less_Suc_eq_le length_dropWhile_le)
next
  case (3 n p s)
  then show ?case by (cases s) auto
next
  case (4 n p s)
  then show ?case using p_place_length[of "tl s"] by (cases s) fastforce+
qed simp

declare p_fields.simps [simp del] parse_loop.simps [simp del]

definition parse :: "jstring \<Rightarrow> piece list thrown" where
  "parse fmt = parse_loop False False fmt"

section \<open>Formatting\<close>

definition hex_digit :: "nat \<Rightarrow> char" where
  "hex_digit d = (if d < 10 then char_of (48 + d) else char_of (87 + d))"

fun nat_base :: "nat \<Rightarrow> nat \<Rightarrow> jstring" where
  "nat_base b n = (if b < 2 \<or> n < b then [hex_digit n] else nat_base b (n div b) @ [hex_digit (n mod b)])"

declare nat_base.simps [simp del]

text \<open>\<open>toString(b)\<close> of an integer.\<close>

definition int_base :: "nat \<Rightarrow> int \<Rightarrow> jstring" where
  "int_base b i = (if i < 0 then CHR ''-'' # nat_base b (nat (- i)) else nat_base b (nat i))"

definition to_upper :: "char \<Rightarrow> char" where
  "to_upper c = (if is_lower c then char_of (code c - 32) else c)"

definition toFixed :: "int \<Rightarrow> nat \<Rightarrow> jstring" where
  "toFixed i p = int_str i @ (if p = 0 then [] else CHR ''.'' # replicate p (CHR ''0''))"

text \<open>The loop of \<open>str_repeat\<close> fills an array from its end; a negative multiplier gives nothing.\<close>

definition str_repeat :: "char \<Rightarrow> int \<Rightarrow> jstring" where
  "str_repeat c n = replicate (nat n) c"

fun walk_keys :: "jval \<Rightarrow> jstring list \<Rightarrow> jval thrown" where
  "walk_keys v [] = Inr v"
| "walk_keys v (k # ks) =
     (case own_property v k of
        Inl x \<Rightarrow> Inl x
      | Inr None \<Rightarrow> Inl (''[sprintf] property '' @ CHR 0x22 # k @ CHR 0x22 # '' does not exist'')
      | Inr (Some w) \<Rightarrow> walk_keys w ks)"

definition argument :: "jval list \<Rightarrow> nat \<Rightarrow> jval" where
  "argument argv i = (if i < length argv then argv ! i else JUndefined)"

text \<open>The argument of a placeholder and the next position of the cursor; position 0 is the format.\<close>

definition pick :: "spec \<Rightarrow> jval list \<Rightarrow> nat \<Rightarrow> (jval \<times> nat) thrown" where
  "pick sp argv cursor =
     (case keyword sp of
        Some ks \<Rightarrow> map_sum id (\<lambda>v. (v, cursor)) (walk_keys (argument argv cursor) ks)
      | None \<Rightarrow>
          (case arg_index sp of
             Some i \<Rightarrow> Inr (argument argv i, cursor)
           | None \<Rightarrow> Inr (argument argv cursor, cursor + 1)))"

definition convert_num :: "(int \<Rightarrow> nat option \<Rightarrow> jstring) \<Rightarrow> spec \<Rightarrow> int \<Rightarrow> jstring thrown" where
  "convert_num toExponential sp i =
     (if conv sp = CHR ''b'' then Inr (int_base 2 i)
      else if conv sp = CHR ''c''
      then (let c = i mod 65536 in if c < 256 then Inr [char_of (nat c)] else Inl ''character outside the model'')
      else if conv sp = CHR ''d'' then Inr (int_str i)
      else if conv sp = CHR ''e'' then Inr (toExponential i (precision sp))
      else if conv sp = CHR ''f''
      then (case precision sp of
              Some p \<Rightarrow> if p \<le> 20 then Inr (toFixed i p) else Inl ''RangeError''
            | None \<Rightarrow> Inr (int_str i))
      else if conv sp = CHR ''o'' then Inr (int_base 8 i)
      else if conv sp = CHR ''u'' then Inr (int_str (abs i))
      else if conv sp = CHR ''x'' then Inr (int_base 16 i)
      else Inr (map to_upper (int_base 16 i)))"

definition convert :: "(int \<Rightarrow> nat option \<Rightarrow> jstring) \<Rightarrow> spec \<Rightarrow> jval \<Rightarrow> jstring thrown" where
  "convert toExponential sp v =
     (if conv sp = CHR ''s''
      then Inr (case precision sp of Some p \<Rightarrow> take p (js_String v) | None \<Rightarrow> js_String v)
      else (case v of
              JNum i \<Rightarrow>
                map_sum id (\<lambda>s. if conv sp \<in> set ''def'' \<and> plus_sign sp \<and> 0 \<le> i then CHR ''+'' # s else s)
                  (convert_num toExponential sp i)
            | _ \<Rightarrow> Inl (''[sprintf] expecting number but found '' @ get_type v)))"

definition pad_text :: "spec \<Rightarrow> jstring \<Rightarrow> jstring" where
  "pad_text sp s =
     (let c = (case padder sp of None \<Rightarrow> CHR '' '' | Some PadZero \<Rightarrow> CHR ''0'' | Some (PadChar c) \<Rightarrow> c);
          pad = (case width sp of None \<Rightarrow> [] | Some w \<Rightarrow> str_repeat c (int w - int (length s)))
      in if left_adjust sp then s @ pad else pad @ s)"

fun format_loop :: "(int \<Rightarrow> nat option \<Rightarrow> jstring) \<Rightarrow> piece list \<Rightarrow> jval list \<Rightarrow> nat \<Rightarrow> jstring thrown" where
  "format_loop toExponential [] argv cursor = Inr []"
| "format_loop toExponential (Lit s # ps) argv cursor =
     map_sum id (append s) (format_loop toExponential ps argv cursor)"
| "format_loop toExponential (Place sp # ps) argv cursor =
     (case pick sp argv cursor of
        Inl x \<Rightarrow> Inl x
      | Inr (v, cursor') \<Rightarrow>
          (case convert toExponential sp v of
             Inl x \<Rightarrow> Inl x
           | Inr s \<Rightarrow> map_sum id (append (pad_text sp s)) (format_loop toExponential ps argv cursor')))"

text \<open>\<open>format\<close> gets the arguments of \<open>sprintf\<close>, the format string first.\<close>

definition format_tree :: "(int \<Rightarrow> nat option \<Rightarrow> jstring) \<Rightarrow> piece list \<Rightarrow> jval list \<Rightarrow> jstring thrown" where
  "format_tree toExponential tree argv = format_loop toExponential tree argv 1"

text \<open>
  The cache is an object whose own properties are the formats seen so far.  It is asked with its method
  \<open>hasOwnProperty\<close>, which the format of that name hides: a call finds an array there, no function.
\<close>

type_synonym cache = "(jstring \<times> piece list) list"

definition str_format :: "(int \<Rightarrow> nat option \<Rightarrow> jstring) \<Rightarrow> cache \<Rightarrow> jstring \<Rightarrow> jval list \<Rightarrow> jstring thrown \<times> cache" where
  "str_format toExponential c fmt args =
     (if map_of c ''hasOwnProperty'' \<noteq> None then (Inl ''TypeError'', c)
      else case map_of c fmt of
        Some tree \<Rightarrow> (format_tree toExponential tree (JStr fmt # args), c)
      | None \<Rightarrow>
          (case parse fmt of
             Inl x \<Rightarrow> (Inl x, c)
           | Inr tree \<Rightarrow> (format_tree toExponential tree (JStr fmt # args), (fmt, tree) # c)))"

text \<open>\<open>vsprintf\<close> puts the format in front of the array it is given, which stays changed.\<close>

definition vsprintf :: "(int \<Rightarrow> nat option \<Rightarrow> jstring) \<Rightarrow> cache \<Rightarrow> jstring \<Rightarrow> jval list
    \<Rightarrow> (jstring thrown \<times> cache) \<times> jval list" where
  "vsprintf toExponential c fmt argv = (str_format toExponential c fmt argv, JStr fmt # argv)"

text \<open>The result alone, without the cache.\<close>

definition sprintf :: "(int \<Rightarrow> nat option \<Rightarrow> jstring) \<Rightarrow> jstring \<Rightarrow> jval list \<Rightarrow> jstring thrown" where
  "sprintf toExponential fmt args =
     (case parse fmt of Inl x \<Rightarrow> Inl x | Inr tree \<Rightarrow> format_tree toExponential tree (JStr fmt # args))"

end
