(* ===== verification/Sprintf_Laws.thy ===== *)
theory Sprintf_Laws
  imports Sprintf
begin

text \<open>
  The laws of \<open>sprintf\<close>: a format string that is written from its pieces is parsed back to them, what
  a placeholder prints is at least as wide as it asks for, and the cache does not change any result.
\<close>

section \<open>Writing format strings\<close>

datatype template = TText jstring | TPercent | TPlace spec

definition show_opt :: "('a \<Rightarrow> jstring) \<Rightarrow> 'a option \<Rightarrow> jstring" where
  "show_opt f x = (case x of None \<Rightarrow> [] | Some y \<Rightarrow> f y)"

fun show_padding :: "padding \<Rightarrow> jstring" where
  "show_padding PadZero = ''0''"
| "show_padding (PadChar c) = [CHR 0x27, c]"

definition show_prec :: "spec \<Rightarrow> jstring" where
  "show_prec sp = show_opt (\<lambda>n. CHR ''.'' # nat_digits n) (precision sp) @ [conv sp]"

definition show_width :: "spec \<Rightarrow> jstring" where
  "show_width sp = show_opt nat_digits (width sp) @ show_prec sp"

definition show_left :: "spec \<Rightarrow> jstring" where
  "show_left sp = (if left_adjust sp then ''-'' else []) @ show_width sp"

definition show_pad :: "spec \<Rightarrow> jstring" where
  "show_pad sp = show_opt show_padding (padder sp) @ show_left sp"

definition show_plus :: "spec \<Rightarrow> jstring" where
  "show_plus sp = (if plus_sign sp then ''+'' else []) @ show_pad sp"

definition show_spec :: "spec \<Rightarrow> jstring" where
  "show_spec sp = show_opt (\<lambda>n. nat_digits n @ ''$'') (arg_index sp) @ show_plus sp"

fun show_piece :: "template \<Rightarrow> jstring" where
  "show_piece (TText s) = s"
| "show_piece TPercent = ''%%''"
| "show_piece (TPlace sp) = CHR ''%'' # show_spec sp"

fun piece_of :: "template \<Rightarrow> piece" where
  "piece_of (TText s) = Lit s"
| "piece_of TPercent = Lit ''%''"
| "piece_of (TPlace sp) = Place sp"

definition spec_ok :: "spec \<Rightarrow> bool" where
  "spec_ok sp \<longleftrightarrow> keyword sp = None \<and> arg_index sp \<noteq> Some 0 \<and> width sp \<noteq> Some 0
     \<and> padder sp \<noteq> Some (PadChar (CHR ''$'')) \<and> conv sp \<in> set conversions"

fun template_ok :: "template list \<Rightarrow> bool" where
  "template_ok [] = True"
| "template_ok (TText s # ts) =
     (s \<noteq> [] \<and> CHR ''%'' \<notin> set s \<and> (case ts of TText _ # _ \<Rightarrow> False | _ \<Rightarrow> True) \<and> template_ok ts)"
| "template_ok (TPercent # ts) = template_ok ts"
| "template_ok (TPlace sp # ts) = (spec_ok sp \<and> template_ok ts)"

section \<open>Reading them back\<close>

lemma conversions_cases:
  "c \<in> set conversions \<Longrightarrow> \<not> is_digit c \<and> c \<notin> set [CHR ''+'', CHR ''-'', CHR ''.'', CHR ''$'', CHR ''('', CHR 0x27, CHR ''0'', CHR ''%'']"
  by (auto simp: conversions_def is_digit_def code_def)

lemma hd_digits: "is_digit (hd (nat_digits n @ r))"
  using nat_digits_digits[of "hd (nat_digits n)" n] by (simp add: hd_append)

lemma digit_not: "is_digit c \<Longrightarrow> c \<notin> set [CHR ''+'', CHR ''-'', CHR ''.'', CHR ''$'', CHR ''('', CHR 0x27, CHR ''%'']"
  by (auto simp: is_digit_def code_def)

lemma p_prec_show:
  assumes "conv sp \<in> set conversions"
  shows "p_prec (show_prec sp @ r) = (precision sp, conv sp # r)"
proof (cases "precision sp")
  case None
  then show ?thesis using conversions_cases[OF assms] by (simp add: show_prec_def show_opt_def p_prec_def)
next
  case (Some n)
  then show ?thesis using conversions_cases[OF assms] takeWhile_digits[of "conv sp # r" n]
    by (simp add: show_prec_def show_opt_def p_prec_def p_digits_def Let_def)
qed

lemma hd_show_prec:
  assumes "conv sp \<in> set conversions"
  shows "\<not> is_digit (hd (show_prec sp)) \<and> hd (show_prec sp) \<notin> set [CHR ''+'', CHR ''-'', CHR ''$'', CHR ''('', CHR 0x27, CHR ''0'']
    \<and> show_prec sp \<noteq> []"
  using conversions_cases[OF assms]
  by (auto simp: show_prec_def show_opt_def is_digit_def code_def split: option.splits)

lemma p_digits_show:
  assumes "conv sp \<in> set conversions"
  shows "p_digits (show_width sp @ r) = (width sp, show_prec sp @ r)"
proof -
  have h: "\<not> is_digit (hd (show_prec sp @ r))" "show_prec sp @ r \<noteq> []"
    using hd_show_prec[OF assms] by (auto simp: hd_append)
  show ?thesis
  proof (cases "width sp")
    case None
    then show ?thesis using h by (cases "show_prec sp @ r") (auto simp: show_width_def show_opt_def p_digits_def)
  next
    case (Some n)
    then show ?thesis using h takeWhile_digits[of "show_prec sp @ r" n]
      by (simp add: show_width_def show_opt_def p_digits_def Let_def)
  qed
qed

lemma hd_show_width:
  assumes "conv sp \<in> set conversions" "width sp \<noteq> Some 0"
  shows "hd (show_width sp) \<notin> set [CHR ''+'', CHR ''-'', CHR ''('', CHR 0x27, CHR ''0''] \<and> show_width sp \<noteq> []"
  using hd_show_prec[OF assms(1)] digit_not[OF hd_digits] hd_nat_digits assms(2)
  by (auto simp: show_width_def show_opt_def hd_append split: option.splits)

lemma p_left_show:
  assumes "conv sp \<in> set conversions" "width sp \<noteq> Some 0"
  shows "p_flag (CHR ''-'') (show_left sp @ r) = (left_adjust sp, show_width sp @ r)"
  using hd_show_width[OF assms] by (auto simp: p_flag_def show_left_def)

lemma hd_show_left:
  assumes "conv sp \<in> set conversions" "width sp \<noteq> Some 0"
  shows "hd (show_left sp) \<notin> set [CHR ''+'', CHR ''('', CHR 0x27, CHR ''0''] \<and> show_left sp \<noteq> []"
  using hd_show_width[OF assms] by (auto simp: show_left_def)

lemma p_pad_none: "hd s \<noteq> CHR ''0'' \<Longrightarrow> hd s \<noteq> CHR 0x27 \<Longrightarrow> p_pad s = (None, s)"
  by (cases s rule: p_pad.cases) auto

lemma p_pad_show:
  assumes "conv sp \<in> set conversions" "width sp \<noteq> Some 0" "padder sp \<noteq> Some (PadChar (CHR ''$''))"
  shows "p_pad (show_pad sp @ r) = (padder sp, show_left sp @ r)"
proof (cases "padder sp")
  case None
  then show ?thesis using hd_show_left[OF assms(1,2)] by (simp add: show_pad_def show_opt_def p_pad_none hd_append)
next
  case (Some p)
  obtain c t where ct: "show_left sp @ r = c # t" using hd_show_left[OF assms(1,2)] by (cases "show_left sp @ r") auto
  show ?thesis using assms(3) Some ct by (cases p) (auto simp: show_pad_def show_opt_def)
qed

lemma hd_show_pad:
  assumes "conv sp \<in> set conversions" "width sp \<noteq> Some 0"
  shows "hd (show_pad sp) \<notin> set [CHR ''+'', CHR ''('' ] \<and> show_pad sp \<noteq> []"
proof (cases "padder sp")
  case (Some p)
  then show ?thesis by (cases p) (auto simp: show_pad_def show_opt_def)
qed (use hd_show_left[OF assms] in \<open>simp add: show_pad_def show_opt_def\<close>)

lemma p_plus_show:
  assumes "conv sp \<in> set conversions" "width sp \<noteq> Some 0"
  shows "p_flag (CHR ''+'') (show_plus sp @ r) = (plus_sign sp, show_pad sp @ r)"
  using hd_show_pad[OF assms] by (auto simp: p_flag_def show_plus_def)

text \<open>The digits of a width are not taken for the number of an argument: no dollar sign follows them.\<close>

lemma dropWhile_digits_plus:
  assumes "conv sp \<in> set conversions" "width sp \<noteq> Some 0" "padder sp \<noteq> Some (PadChar (CHR ''$''))"
  shows "takeWhile is_digit (show_plus sp @ r) = [] \<or> hd (takeWhile is_digit (show_plus sp @ r)) = CHR ''0''
    \<or> hd (dropWhile is_digit (show_plus sp @ r)) \<noteq> CHR ''$''"
proof (cases "plus_sign sp \<or> padder sp \<noteq> None \<or> left_adjust sp")
  case True
  have "is_digit (CHR ''0'')" "\<not> is_digit (CHR ''+'')" "\<not> is_digit (CHR ''-'')" "\<not> is_digit (CHR 0x27)"
    by (simp_all add: is_digit_def code_def)
  then show ?thesis using True
    by (cases "padder sp"; cases "the (padder sp)")
      (auto simp: show_plus_def show_pad_def show_left_def show_opt_def)
next
  case False
  have h: "\<not> is_digit (hd (show_prec sp @ r))" "hd (show_prec sp @ r) \<noteq> CHR ''$''" "show_prec sp @ r \<noteq> []"
    using hd_show_prec[OF assms(1)] by (auto simp: hd_append)
  have s: "show_plus sp @ r = show_opt nat_digits (width sp) @ show_prec sp @ r"
    using False by (simp add: show_plus_def show_pad_def show_left_def show_opt_def show_width_def)
  show ?thesis unfolding s
  proof (cases "width sp")
    case None
    then show "takeWhile is_digit (show_opt nat_digits (width sp) @ show_prec sp @ r) = [] \<or>
      hd (takeWhile is_digit (show_opt nat_digits (width sp) @ show_prec sp @ r)) = CHR ''0'' \<or>
      hd (dropWhile is_digit (show_opt nat_digits (width sp) @ show_prec sp @ r)) \<noteq> CHR ''$''"
      using h by (cases "show_prec sp @ r") (auto simp: show_opt_def)
  next
    case (Some n)
    then show "takeWhile is_digit (show_opt nat_digits (width sp) @ show_prec sp @ r) = [] \<or>
      hd (takeWhile is_digit (show_opt nat_digits (width sp) @ show_prec sp @ r)) = CHR ''0'' \<or>
      hd (dropWhile is_digit (show_opt nat_digits (width sp) @ show_prec sp @ r)) \<noteq> CHR ''$''"
      using h takeWhile_digits[of "show_prec sp @ r" n] by (simp add: show_opt_def)
  qed
qed

lemma p_ref_show:
  assumes "spec_ok sp"
  shows "p_ref (show_spec sp @ r) =
    (case arg_index sp of None \<Rightarrow> NoRef | Some n \<Rightarrow> IndexRef n, show_plus sp @ r)"
proof (cases "arg_index sp")
  case None
  have c: "conv sp \<in> set conversions" "width sp \<noteq> Some 0" "padder sp \<noteq> Some (PadChar (CHR ''$''))"
    using assms by (auto simp: spec_ok_def)
  have "hd (show_plus sp @ r) \<noteq> CHR ''(''"
    using hd_show_pad[OF c(1,2)] by (auto simp: show_plus_def hd_append)
  then show ?thesis using None dropWhile_digits_plus[OF c]
    by (auto simp: show_spec_def show_opt_def p_ref_def Let_def)
next
  case (Some n)
  have "\<not> is_digit (CHR ''$'')" by (simp add: is_digit_def code_def)
  then have "takeWhile is_digit (nat_digits n @ CHR ''$'' # show_plus sp @ r) = nat_digits n"
    "dropWhile is_digit (nat_digits n @ CHR ''$'' # show_plus sp @ r) = CHR ''$'' # show_plus sp @ r"
    using takeWhile_digits[of "CHR ''$'' # show_plus sp @ r" n] by auto
  moreover have "hd (nat_digits n) \<noteq> CHR ''0''" using assms Some by (intro hd_nat_digits) (auto simp: spec_ok_def)
  ultimately show ?thesis using Some by (simp add: show_spec_def show_opt_def p_ref_def Let_def)
qed

lemma p_place_show:
  assumes "spec_ok sp"
  shows "p_place (show_spec sp @ r) =
    Some (case arg_index sp of None \<Rightarrow> NoRef | Some n \<Rightarrow> IndexRef n, sp\<lparr>arg_index := None\<rparr>, r)"
proof -
  have c: "conv sp \<in> set conversions" "width sp \<noteq> Some 0" "padder sp \<noteq> Some (PadChar (CHR ''$''))"
    and k: "keyword sp = None"
    using assms by (auto simp: spec_ok_def)
  show ?thesis using c(1) k
    by (simp add: p_place_def p_ref_show[OF assms] p_plus_show[OF c(1,2)] p_pad_show[OF c] p_left_show[OF c(1,2)]
        p_digits_show[OF c(1)] p_prec_show[OF c(1)] Let_def)
qed

lemma resolve_show:
  "resolve_ref (case arg_index sp of None \<Rightarrow> NoRef | Some n \<Rightarrow> IndexRef n) (sp\<lparr>arg_index := None\<rparr>) = Inr sp"
  by (cases "arg_index sp") (simp_all add: resolve_ref_def)

lemma takeWhile_stop:
  "\<forall>x \<in> set s. P x \<Longrightarrow> r = [] \<or> \<not> P (hd r) \<Longrightarrow> takeWhile P (s @ r) = s \<and> dropWhile P (s @ r) = r"
  by (induction s) (cases r; auto)+

lemma parse_loop_show:
  "template_ok ts \<Longrightarrow> parse_loop False p (concat (map show_piece ts)) = Inr (map piece_of ts)"
proof (induction ts arbitrary: p rule: template_ok.induct)
  case 1
  then show ?case by (simp add: parse_loop.simps)
next
  case (2 s ts)
  let ?r = "concat (map show_piece ts)"
  have "?r = [] \<or> hd ?r = CHR ''%''" using "2.prems"
    by (cases ts; cases "hd ts") auto
  then have tw: "takeWhile (\<lambda>c. c \<noteq> CHR ''%'') (s @ ?r) = s \<and> dropWhile (\<lambda>c. c \<noteq> CHR ''%'') (s @ ?r) = ?r"
    using "2.prems" by (intro takeWhile_stop) auto
  have "s @ ?r \<noteq> [] \<and> hd (s @ ?r) \<noteq> CHR ''%''" using "2.prems" by (cases s) auto
  then show ?case using 2 tw by (subst parse_loop.simps) simp
next
  case (3 ts)
  then show ?case by (subst parse_loop.simps) simp
next
  case (4 sp ts)
  have ok: "spec_ok sp" using "4.prems" by simp
  have "take 2 (CHR ''%'' # show_spec sp @ concat (map show_piece ts)) \<noteq> ''%%''"
  proof
    assume "take 2 (CHR ''%'' # show_spec sp @ concat (map show_piece ts)) = ''%%''"
    then obtain t where "show_spec sp @ concat (map show_piece ts) = CHR ''%'' # t"
      by (cases "show_spec sp @ concat (map show_piece ts)") auto
    then show False using p_place_show[OF ok, of "concat (map show_piece ts)"]
      by (simp add: p_place_def p_ref_def p_flag_def p_digits_def p_prec_def p_pad_none conversions_def is_digit_def code_def Let_def)
  qed
  moreover have "is_named (case arg_index sp of None \<Rightarrow> NoRef | Some n \<Rightarrow> IndexRef n) = False"
    by (cases "arg_index sp") (simp_all add: is_named_def)
  ultimately show ?case using 4 p_place_show[OF ok] resolve_show[of sp]
    by (subst parse_loop.simps) simp
qed

section \<open>Padding and the cache\<close>

lemma pad_text_length: "length (pad_text sp s) = max (length s) (case width sp of None \<Rightarrow> 0 | Some w \<Rightarrow> w)"
  by (auto simp: pad_text_def str_repeat_def Let_def split: option.split)

definition cache_ok :: "cache \<Rightarrow> bool" where
  "cache_ok c \<longleftrightarrow>
     map_of c ''hasOwnProperty'' = None \<and> (\<forall>fmt tree. map_of c fmt = Some tree \<longrightarrow> parse fmt = Inr tree)"

lemma str_format_sprintf:
  assumes "cache_ok c"
  shows "fst (str_format e c fmt args) = sprintf e fmt args"
    and "fmt \<noteq> ''hasOwnProperty'' \<Longrightarrow> cache_ok (snd (str_format e c fmt args))"
    and "parse ''hasOwnProperty'' = Inr tree \<Longrightarrow> map_of (snd (str_format e c ''hasOwnProperty'' args)) ''hasOwnProperty'' \<noteq> None"
  using assms by (auto simp: str_format_def sprintf_def cache_ok_def split: option.split sum.split)

lemma str_format_hidden: "map_of c ''hasOwnProperty'' \<noteq> None \<Longrightarrow> str_format e c fmt args = (Inl ''TypeError'', c)"
  by (simp add: str_format_def)


text \<open>Formatting with \<open>%s\<close> placeholders puts the arguments in their places.\<close>

definition plain_s :: spec where
  "plain_s = \<lparr>arg_index = None, keyword = None, plus_sign = False, padder = None, left_adjust = False,
     width = None, precision = None, conv = CHR ''s''\<rparr>"

fun fill :: "template list \<Rightarrow> jstring list \<Rightarrow> jstring" where
  "fill [] args = []"
| "fill (TText s # ts) args = s @ fill ts args"
| "fill (TPercent # ts) args = CHR ''%'' # fill ts args"
| "fill (TPlace sp # ts) args = (case args of [] \<Rightarrow> ''undefined'' @ fill ts [] | a # as \<Rightarrow> a @ fill ts as)"

lemma format_fill:
  assumes "\<forall>sp. TPlace sp \<in> set ts \<longrightarrow> sp = plain_s"
  shows "format_loop e (map piece_of ts) argv k =
    Inr (fill ts (map js_String (drop k argv)))"
  using assms
proof (induction ts arbitrary: k)
  case (Cons t ts)
  show ?case
  proof (cases t)
    case (TPlace sp)
    then have "sp = plain_s" using Cons.prems by simp
    moreover have "drop k argv = (if k < length argv then argv ! k # drop (Suc k) argv else [])"
      by (simp add: Cons_nth_drop_Suc)
    ultimately show ?thesis using Cons TPlace
      by (simp add: pick_def plain_s_def argument_def convert_def pad_text_def)
  qed (use Cons in simp_all)
qed simp

section \<open>Properties\<close>

text \<open>C32: sprintf round trip. Every format string that is written from literal texts, escaped percent
  signs and positional placeholders with any combination of sign, padding, alignment, width and
  precision is parsed back into exactly these pieces.\<close>

theorem sprintf_parse_show:
  assumes "template_ok ts"
  shows "parse (concat (map show_piece ts)) = Inr (map piece_of ts)"
  unfolding parse_def by (rule parse_loop_show[OF assms])

definition demo_template :: "template list" where
  "demo_template = [TText ''prefix '', TPlace (plain_s\<lparr>width := Some 12, left_adjust := True\<rparr>), TPercent,
     TPlace (plain_s\<lparr>arg_index := Some 2, padder := Some PadZero, conv := CHR ''d''\<rparr>)]"

theorem sprintf_parse_show_witness:
  "parse ''prefix %-12s%%%2$0d'' = Inr (map piece_of demo_template)"
proof -
  have "concat (map show_piece demo_template) = ''prefix %-12s%%%2$0d''" by code_simp
  moreover have "template_ok demo_template" by code_simp
  ultimately show ?thesis using sprintf_parse_show[of demo_template] by simp
qed

text \<open>C33: sprintf substitution and cache. With any consistent cache, formatting a template whose
  placeholders are plain \<open>%s\<close> gives the texts with the arguments in order (and \<open>undefined\<close> for a
  missing one), and leaves a consistent cache. The one exception is the template \<open>hasOwnProperty\<close>: its entry hides
  the method by which the cache is asked, and every later call throws.\<close>

theorem sprintf_fill:
  assumes "cache_ok c" "template_ok ts" "\<forall>sp. TPlace sp \<in> set ts \<longrightarrow> sp = plain_s"
  shows "fst (str_format e c (concat (map show_piece ts)) args) = Inr (fill ts (map js_String args))
    \<and> (if concat (map show_piece ts) = ''hasOwnProperty''
       then \<forall>f as. fst (str_format e (snd (str_format e c (concat (map show_piece ts)) args)) f as) = Inl ''TypeError''
       else cache_ok (snd (str_format e c (concat (map show_piece ts)) args)))"
proof -
  let ?f = "concat (map show_piece ts)"
  have p: "parse ?f = Inr (map piece_of ts)" unfolding parse_def by (rule parse_loop_show[OF assms(2)])
  have "fst (str_format e c ?f args) = Inr (fill ts (map js_String args))"
    unfolding str_format_sprintf(1)[OF assms(1)] by (simp add: sprintf_def p format_tree_def format_fill[OF assms(3)])
  moreover have "fst (str_format e (snd (str_format e c ?f args)) f as) = Inl ''TypeError''" if "?f = ''hasOwnProperty''" for f as
    using str_format_hidden[OF str_format_sprintf(3)[OF assms(1) p[unfolded that]], of e e args f as] unfolding that by simp
  ultimately show ?thesis using str_format_sprintf(2)[OF assms(1), of ?f e args] by presburger
qed

theorem sprintf_fill_witness:
  "fst (str_format (\<lambda>i p. []) [] ''prefix %s: <%s>'' [JStr ''rdf'', JStr ''http://example.org/'']) =
     Inr ''prefix rdf: <http://example.org/>''"
proof -
  let ?ts = "[TText ''prefix '', TPlace plain_s, TText '': <'', TPlace plain_s, TText ''>'']"
  have shown: "concat (map show_piece ?ts) = ''prefix %s: <%s>''" by code_simp
  have "template_ok ?ts" by code_simp
  moreover have "cache_ok []" by (simp add: cache_ok_def)
  ultimately show ?thesis
    using sprintf_fill[of "[]" ?ts "\<lambda>i p. []" "[JStr ''rdf'', JStr ''http://example.org/'']"]
    unfolding shown by simp
qed

text \<open>sprintf zero padding of a negative number. The zeros are put in front of the sign.\<close>

theorem sprintf_zero_pad_sign:
  "sprintf e ''%05d'' [JNum (- 42)] = Inr ''00-42'' \<and> sprintf e ''%+05d'' [JNum 42] = Inr ''00+42''"
proof -
  have "parse ''%05d'' = Inr [Place (plain_s\<lparr>padder := Some PadZero, width := Some 5, conv := CHR ''d''\<rparr>)]"
    "parse ''%+05d'' = Inr [Place (plain_s\<lparr>plus_sign := True, padder := Some PadZero, width := Some 5, conv := CHR ''d''\<rparr>)]"
    "int_str (- 42) = ''-42''" "int_str 42 = ''42''"
    by code_simp+
  then show ?thesis
    by (simp add: sprintf_def format_tree_def pick_def argument_def convert_def convert_num_def pad_text_def
        str_repeat_def plain_s_def numeral_eq_Suc Let_def)
qed

end
