(* ===== verification/Js_Regexp.thy ===== *)
theory Js_Regexp
  imports Js_Numbers
begin

section \<open>Regular expressions made at run time\<close>

text \<open>
  \<open>new RegExp(source)\<close> without flags, and whether an expression matches somewhere in a string, as the scripts use
  them on patterns put together from data.  The parser follows the grammar of ECMAScript with the extensions that
  browsers implement (a brace that begins no quantifier and a lone closing bracket are literal); it fails with a
  \<open>SyntaxError\<close> where theirs does.  References to groups (a backslash and a digit other than 0) and control
  escapes are not modelled, and say so.  A character is one of the 256 that a \<open>char\<close> of HOL has.  Without such references a match exists whatever the order in which the
  alternatives are tried, so a lazy quantifier is as good as a greedy one and an expression is read as
  the list of the columns where a match that begins at a given column may end.
\<close>

subsection \<open>Expressions\<close>

datatype class_item = CharRange char char | DigitClass bool | WordClass bool | SpaceClass bool

datatype regexp =
    Empty
  | AnyChar
  | CharClass bool "class_item list"
  | LineStart
  | LineEnd
  | WordEdge bool
  | LookAhead bool regexp
  | Cat regexp regexp
  | Alt regexp regexp
  | Repeat regexp nat "nat option"

abbreviation Literal :: "char \<Rightarrow> regexp" where
  "Literal c \<equiv> CharClass True [CharRange c c]"

fun item_has :: "char \<Rightarrow> class_item \<Rightarrow> bool" where
  "item_has c (CharRange a b) \<longleftrightarrow> code a \<le> code c \<and> code c \<le> code b"
| "item_has c (DigitClass b) \<longleftrightarrow> is_digit c = b"
| "item_has c (WordClass b) \<longleftrightarrow> re_word c = b"
| "item_has c (SpaceClass b) \<longleftrightarrow> re_space c = b"

definition word_here :: "jstring \<Rightarrow> nat \<Rightarrow> bool" where
  "word_here s i \<longleftrightarrow> i < length s \<and> re_word (s ! i)"

definition at_edge :: "jstring \<Rightarrow> nat \<Rightarrow> bool" where
  "at_edge s i \<longleftrightarrow> (0 < i \<and> word_here s (i - 1)) \<noteq> word_here s i"

subsection \<open>Matching\<close>

text \<open>\<open>n\<close> rounds from each of the columns, and the columns that any number of rounds up to \<open>n\<close> reaches.\<close>

fun rounds :: "(nat \<Rightarrow> nat list) \<Rightarrow> nat \<Rightarrow> nat list \<Rightarrow> nat list" where
  "rounds f 0 js = js"
| "rounds f (Suc n) js = rounds f n (remdups (concat (map f js)))"

fun rounds_upto :: "(nat \<Rightarrow> nat list) \<Rightarrow> nat \<Rightarrow> nat list \<Rightarrow> nat list" where
  "rounds_upto f 0 js = js"
| "rounds_upto f (Suc n) js = rounds_upto f n (remdups (js @ concat (map f js)))"

text \<open>As many rounds as the string has characters reach every column that any number of rounds does.\<close>

fun ends :: "regexp \<Rightarrow> jstring \<Rightarrow> nat \<Rightarrow> nat list" where
  "ends Empty s i = [i]"
| "ends AnyChar s i = (if i < length s \<and> s ! i \<noteq> CHR 0x0A \<and> s ! i \<noteq> CHR 0x0D then [Suc i] else [])"
| "ends (CharClass b items) s i = (if i < length s \<and> list_ex (item_has (s ! i)) items = b then [Suc i] else [])"
| "ends LineStart s i = (if i = 0 then [i] else [])"
| "ends LineEnd s i = (if i = length s then [i] else [])"
| "ends (WordEdge b) s i = (if at_edge s i = b then [i] else [])"
| "ends (LookAhead b r) s i = (if (ends r s i \<noteq> []) = b then [i] else [])"
| "ends (Cat r q) s i = remdups (concat (map (ends q s) (ends r s i)))"
| "ends (Alt r q) s i = remdups (ends r s i @ ends q s i)"
| "ends (Repeat r n m) s i =
     rounds_upto (ends r s) (case m of None \<Rightarrow> Suc (length s) | Some k \<Rightarrow> k - n) (rounds (ends r s) n [i])"

definition matches :: "regexp \<Rightarrow> jstring \<Rightarrow> bool" where
  "matches r s \<longleftrightarrow> list_ex (\<lambda>i. ends r s i \<noteq> []) [0 ..< Suc (length s)]"

subsection \<open>The parser\<close>

datatype regexp_error = SyntaxError | NotModelled

type_synonym 'a parsed = "regexp_error + 'a \<times> jstring"

definition and_parse :: "'a parsed \<Rightarrow> ('a \<Rightarrow> jstring \<Rightarrow> 'b parsed) \<Rightarrow> 'b parsed" where
  "and_parse p f = (case p of Inl x \<Rightarrow> Inl x | Inr (a, s) \<Rightarrow> f a s)"

definition hex_value :: "char \<Rightarrow> nat option" where
  "hex_value c =
     (if is_digit c then Some (code c - 48)
      else if 65 \<le> code c \<and> code c \<le> 70 then Some (code c - 55)
      else if 97 \<le> code c \<and> code c \<le> 102 then Some (code c - 87) else None)"

text \<open>The character behind a backslash; \<open>x\<close> and \<open>u\<close> without their digits stand for themselves.\<close>

definition hex_escape :: "nat \<Rightarrow> char \<Rightarrow> jstring \<Rightarrow> char parsed" where
  "hex_escape n c s =
     (let ds = map hex_value (take n s); v = fold (\<lambda>d k. 16 * k + the d) ds 0 in
      if length ds < n \<or> None \<in> set ds then Inr (c, s)
      else if v < 256 then Inr (char_of v, drop n s) else Inl NotModelled)"

definition char_escape :: "jstring \<Rightarrow> char parsed" where
  "char_escape s =
     (case s of
        [] \<Rightarrow> Inl SyntaxError
      | c # t \<Rightarrow>
          if c = CHR ''n'' then Inr (CHR 0x0A, t) else if c = CHR ''r'' then Inr (CHR 0x0D, t)
          else if c = CHR ''t'' then Inr (CHR 0x09, t) else if c = CHR ''f'' then Inr (CHR 0x0C, t)
          else if c = CHR ''v'' then Inr (CHR 0x0B, t)
          else if c = CHR ''0'' then (case t of d # _ \<Rightarrow> if is_digit d then Inl NotModelled else Inr (CHR 0x00, t) | [] \<Rightarrow> Inr (CHR 0x00, t))
          else if is_digit c \<or> c = CHR ''c'' then Inl NotModelled
          else if c = CHR ''x'' then hex_escape 2 c t else if c = CHR ''u'' then hex_escape 4 c t
          else Inr (c, t))"

definition class_escape :: "char \<Rightarrow> class_item option" where
  "class_escape c = map_of [(CHR ''d'', DigitClass True), (CHR ''D'', DigitClass False), (CHR ''w'', WordClass True),
     (CHR ''W'', WordClass False), (CHR ''s'', SpaceClass True), (CHR ''S'', SpaceClass False)] c"

text \<open>One member of a class in brackets: a character or one of the classes.\<close>

definition class_atom :: "jstring \<Rightarrow> class_item parsed" where
  "class_atom s =
     (case s of
        [] \<Rightarrow> Inl SyntaxError
      | c # t \<Rightarrow>
          if c \<noteq> CHR 0x5C then Inr (CharRange c c, t)
          else (case t of
              [] \<Rightarrow> Inl SyntaxError
            | d # u \<Rightarrow>
                (case class_escape d of
                   Some k \<Rightarrow> Inr (k, u)
                 | None \<Rightarrow> if d = CHR ''b'' then Inr (CharRange (CHR 0x08) (CHR 0x08), u)
                           else and_parse (char_escape t) (\<lambda>e u. Inr (CharRange e e, u)))))"

fun class_range :: "class_item \<Rightarrow> class_item \<Rightarrow> regexp_error + class_item list" where
  "class_range (CharRange a x) (CharRange b y) = (if code b < code a then Inl SyntaxError else Inr [CharRange a b])"
| "class_range k l = Inr [k, CharRange (CHR ''-'') (CHR ''-''), l]"

text \<open>The members of a class, to its closing bracket; the fuel is the length of what is left.\<close>

fun class_items :: "nat \<Rightarrow> jstring \<Rightarrow> class_item list parsed" where
  "class_items 0 s = Inl SyntaxError"
| "class_items (Suc n) s =
     (case s of
        [] \<Rightarrow> Inl SyntaxError
      | c # t \<Rightarrow>
          if c = CHR '']'' then Inr ([], t)
          else and_parse (class_atom s) (\<lambda>k u.
            case u of
              d # e # v \<Rightarrow>
                if d = CHR ''-'' \<and> e \<noteq> CHR '']'' then
                  and_parse (class_atom (e # v)) (\<lambda>l w.
                    case class_range k l of
                      Inl x \<Rightarrow> Inl x
                    | Inr ks \<Rightarrow> and_parse (class_items n w) (\<lambda>ls w. Inr (ks @ ls, w)))
                else and_parse (class_items n u) (\<lambda>ls w. Inr (k # ls, w))
            | _ \<Rightarrow> and_parse (class_items n u) (\<lambda>ls w. Inr (k # ls, w))))"

text \<open>\<open>{n}\<close>, \<open>{n,}\<close> and \<open>{n,m}\<close>; anything else in braces is no quantifier.\<close>

definition braces :: "jstring \<Rightarrow> ((nat \<times> nat option) \<times> jstring) option" where
  "braces s =
     (case s of
        c # t \<Rightarrow>
          if c = CHR ''{'' \<and> takeWhile is_digit t \<noteq> [] then
            let n = digits_nat (takeWhile is_digit t); u = dropWhile is_digit t in
            (case u of
               d # v \<Rightarrow>
                 if d = CHR ''}'' then Some ((n, Some n), v)
                 else if d = CHR '','' then
                   let m = takeWhile is_digit v in
                   (case dropWhile is_digit v of
                      e # w \<Rightarrow> if e = CHR ''}'' then Some ((n, if m = [] then None else Some (digits_nat m)), w) else None
                    | [] \<Rightarrow> None)
                 else None
             | [] \<Rightarrow> None)
          else None
      | [] \<Rightarrow> None)"

definition quantifier :: "jstring \<Rightarrow> ((nat \<times> nat option) \<times> jstring) option" where
  "quantifier s =
     (case s of
        c # t \<Rightarrow> if c = CHR ''*'' then Some ((0, None), t) else if c = CHR ''+'' then Some ((1, None), t)
          else if c = CHR ''?'' then Some ((0, Some 1), t) else braces s
      | [] \<Rightarrow> None)"

definition drop_lazy :: "jstring \<Rightarrow> jstring" where
  "drop_lazy s = (case s of c # t \<Rightarrow> if c = CHR ''?'' then t else s | [] \<Rightarrow> [])"

text \<open>An atom with the quantifier behind it, if there is one.\<close>

definition quantified :: "regexp \<Rightarrow> jstring \<Rightarrow> regexp parsed" where
  "quantified r s =
     (case quantifier s of
        None \<Rightarrow> Inr (r, s)
      | Some ((n, m), t) \<Rightarrow>
          (case m of
             Some k \<Rightarrow> if k < n then Inl SyntaxError else Inr (Repeat r n m, drop_lazy t)
           | None \<Rightarrow> Inr (Repeat r n m, drop_lazy t)))"

text \<open>
  Alternatives, a sequence of terms, and what an open parenthesis begins, up to the end or an unmatched closing
  parenthesis.  Each call uses one unit of the fuel, and a character makes at most three calls deep.
\<close>

fun alternatives :: "nat \<Rightarrow> jstring \<Rightarrow> regexp parsed"
and terms :: "nat \<Rightarrow> jstring \<Rightarrow> regexp parsed"
and group :: "nat \<Rightarrow> jstring \<Rightarrow> regexp parsed" where
  "alternatives 0 s = Inl NotModelled"
| "alternatives (Suc n) s =
     and_parse (terms n s) (\<lambda>r t.
       case t of
         c # u \<Rightarrow> if c = CHR ''|'' then and_parse (alternatives n u) (\<lambda>q v. Inr (Alt r q, v)) else Inr (r, t)
       | [] \<Rightarrow> Inr (r, t))"
| "terms 0 s = Inl NotModelled"
| "terms (Suc n) s =
     (case s of
        [] \<Rightarrow> Inr (Empty, [])
      | c # t \<Rightarrow>
          if c = CHR ''|'' \<or> c = CHR '')'' then Inr (Empty, s)
          else if quantifier s \<noteq> None then Inl SyntaxError
          else and_parse
            (if c = CHR ''^'' then Inr (LineStart, t)
             else if c = CHR ''$'' then Inr (LineEnd, t)
             else if c = CHR ''.'' then quantified AnyChar t
             else if c = CHR ''('' then group n t
             else if c = CHR ''['' then
               (case t of
                  d # u \<Rightarrow>
                    if d = CHR ''^'' then and_parse (class_items (Suc (length u)) u) (\<lambda>ks v. quantified (CharClass False ks) v)
                    else and_parse (class_items (Suc (length t)) t) (\<lambda>ks v. quantified (CharClass True ks) v)
                | [] \<Rightarrow> Inl SyntaxError)
             else if c = CHR 0x5C then
               (case t of
                  d # u \<Rightarrow>
                    if d = CHR ''b'' then Inr (WordEdge True, u)
                    else if d = CHR ''B'' then Inr (WordEdge False, u)
                    else (case class_escape d of
                        Some k \<Rightarrow> quantified (CharClass True [k]) u
                      | None \<Rightarrow> and_parse (char_escape t) (\<lambda>e v. quantified (Literal e) v))
                | [] \<Rightarrow> Inl SyntaxError)
             else quantified (Literal c) t)
            (\<lambda>r u. and_parse (terms n u) (\<lambda>q v. Inr (Cat r q, v))))"
| "group 0 s = Inl NotModelled"
| "group (Suc n) s =
     (let (wrap, body) =
            (if take 2 s = ''?:'' then (Inr id, drop 2 s) else if take 2 s = ''?='' then (Inr (LookAhead True), drop 2 s)
             else if take 2 s = ''?!'' then (Inr (LookAhead False), drop 2 s)
             else if take 1 s = ''?'' then (Inl SyntaxError, s) else (Inr id, s))
      in (case wrap of
            Inl x \<Rightarrow> Inl x
          | Inr f \<Rightarrow>
              and_parse (alternatives n body) (\<lambda>r t.
                case t of c # u \<Rightarrow> quantified (f r) u | [] \<Rightarrow> Inl SyntaxError)))"

text \<open>An expression is read to the end of its source: an unmatched closing parenthesis is an error.\<close>

definition new_regexp :: "jstring \<Rightarrow> regexp_error + regexp" where
  "new_regexp source =
     (case alternatives (3 * length source + 3) source of
        Inl x \<Rightarrow> Inl x
      | Inr (r, t) \<Rightarrow> if t = [] then Inr r else Inl SyntaxError)"

subsection \<open>Patterns of plain characters\<close>

text \<open>Characters that stand for themselves in a pattern, and the dot.\<close>

definition pattern_char :: "char \<Rightarrow> bool" where
  "pattern_char c \<longleftrightarrow> c \<notin> set (CHR 0x5C # ''^$*+?()[]{}|'')"

definition char_pattern :: "char \<Rightarrow> regexp" where
  "char_pattern c = (if c = CHR ''.'' then AnyChar else Literal c)"

definition chars_then :: "jstring \<Rightarrow> regexp \<Rightarrow> regexp" where
  "chars_then w q = foldr (\<lambda>c. Cat (char_pattern c)) w q"

lemma chars_then_simps [simp]:
  "chars_then [] q = q" "chars_then (c # w) q = Cat (char_pattern c) (chars_then w q)"
  by (simp_all add: chars_then_def)

declare ends.simps [simp del] alternatives.simps [simp del] terms.simps [simp del] group.simps [simp del]

lemma quantifier_plain: "t = [] \<or> pattern_char (hd t) \<Longrightarrow> quantifier t = None"
  by (cases t) (auto simp: quantifier_def braces_def pattern_char_def)

lemma terms_char:
  assumes "pattern_char c" "t = [] \<or> pattern_char (hd t)"
  shows "terms (Suc n) (c # t) = and_parse (terms n t) (\<lambda>q v. Inr (Cat (char_pattern c) q, v))"
  using assms quantifier_plain [of "c # t"] quantifier_plain [OF assms(2)]
  by (simp add: terms.simps pattern_char_def quantified_def char_pattern_def and_parse_def)

lemma terms_chars:
  "\<forall>c \<in> set w. pattern_char c \<Longrightarrow> length w < n \<Longrightarrow> terms n w = Inr (chars_then w Empty, [])"
proof (induction w arbitrary: n)
  case Nil
  then obtain k where "n = Suc k" by (cases n) auto
  then show ?case by (simp add: terms.simps)
next
  case (Cons c w)
  obtain k where k: "n = Suc k" "length w < k" using Cons.prems(2) by (cases n) auto
  have "w = [] \<or> pattern_char (hd w)" using Cons.prems(1) by (cases w) simp_all
  with Cons.prems(1) have "terms (Suc k) (c # w) = and_parse (terms k w) (\<lambda>q v. Inr (Cat (char_pattern c) q, v))"
    by (intro terms_char) simp_all
  then show ?case using Cons.IH [OF _ k(2)] Cons.prems(1) k(1) by (simp add: and_parse_def)
qed

lemma chars_end:
  assumes "drop i s = w @ v" "CHR 0x0A \<notin> set w" "CHR 0x0D \<notin> set w" "j \<in> set (ends q s (i + length w))"
  shows "j \<in> set (ends (chars_then w q) s i)"
  using assms
proof (induction w arbitrary: i)
  case (Cons c w)
  have i: "i < length s" using Cons.prems(1) by (metis append_is_Nil_conv drop_all list.distinct(1) not_le)
  have c: "s ! i = c" "drop (Suc i) s = w @ v"
    using Cons.prems(1) Cons_nth_drop_Suc [OF i] by simp_all
  have "j \<in> set (ends (chars_then w q) s (Suc i))" using Cons.prems c(2) by (intro Cons.IH) auto
  moreover have "ends (char_pattern c) s i = [Suc i]" using i c(1) Cons.prems(2,3) by (auto simp: char_pattern_def ends.simps)
  ultimately show ?case by (simp add: ends.simps)
qed simp

lemma rounds_upto_keeps: "j \<in> set js \<Longrightarrow> j \<in> set (rounds_upto f n js)"
  by (induction f n js rule: rounds_upto.induct) auto

lemma repeat_once: "j \<in> set (ends r s i) \<Longrightarrow> j \<in> set (ends (Repeat r 1 None) s i)"
  by (simp add: ends.simps rounds_upto_keeps del: rounds_upto.simps)

end
