(* ===== verification/Qonsole.thy ===== *)
theory Qonsole
  imports Sprintf_Laws CM_Instance Js_Regexp
begin

text \<open>
  The query console \<open>qonsole.js\<close>: loading the configuration, choosing an example query, the prefix
  declarations in the query text, running a query and showing its results.

  The query editor is the CodeMirror editor of \<open>CM_Edits\<close>. The page is the part of the console that
  the script reads and writes: the radio buttons, the prefix check boxes with the text and the value
  that the browser gives them (for names and URIs without HTML markup), the result panes. A call that
  throws returns the state it leaves behind. Times are milliseconds.
\<close>

datatype 'c outcome = Done 'c | Thrown jstring 'c

fun and_then :: "'c outcome \<Rightarrow> ('c \<Rightarrow> 'c outcome) \<Rightarrow> 'c outcome" where
  "and_then (Done c) f = f c"
| "and_then (Thrown x c) f = Thrown x c"

section \<open>Configuration and page\<close>

record query_config =
  cname :: "jstring option"
  cdesc :: "jstring option"
  csummary :: "jstring option"
  cquery :: "jstring option"
  cprefixes :: "(jstring \<times> jstring) list option"
  cendpoint :: "jstring option"

definition no_config :: query_config where
  "no_config = \<lparr>cname = None, cdesc = None, csummary = None, cquery = None, cprefixes = None, cendpoint = None\<rparr>"

record radio =
  radio_html :: jstring
  radio_id :: nat
  radio_checked :: bool

record prefix_box =
  box_html :: jstring
  box_text :: jstring
  box_uri :: jstring
  box_checked :: bool

datatype result = NoResult | PreHtml jstring | PreText jstring jstring "jstring list"
  | ResultTable "jstring list" "jstring list list"

record request =
  req_url :: jstring
  req_query :: jstring
  req_output :: "jstring option"
  req_force :: bool

record ('g, 's) console =
  config :: "query_config list"
  defaults_of :: query_config
  current_query :: "query_config option"
  query_editor :: "('g, 's) editor option"
  fresh_editor :: "('g, 's) editor option"
  is_ie :: bool
  radios :: "radio list"
  boxes :: "prefix_box list"
  desc_html :: jstring
  endpoint_field :: jstring
  query_block :: "jstring set"
  results_block :: "jstring set"
  results_inner :: "jstring set"
  selected_format :: "jstring option"
  results :: result
  time_html :: jstring
  time_hidden :: bool
  spinner :: bool
  requests :: "request list"
  alerts :: "jstring list"

definition undef :: "jstring option \<Rightarrow> jval" where
  "undef x = (case x of Some s \<Rightarrow> JStr s | None \<Rightarrow> JUndefined)"

text \<open>A call of \<open>sprintf\<close>. The formats of the script are well formed and use \<open>%s\<close> and \<open>%d\<close> only.\<close>

definition fmt :: "jstring \<Rightarrow> jval list \<Rightarrow> jstring" where
  "fmt f args = (case sprintf (\<lambda>i p. []) f args of Inr s \<Rightarrow> s | Inl x \<Rightarrow> x)"

section \<open>The query editor\<close>

definition queryEditor :: "('g, 's) console \<Rightarrow> ('g, 's) editor option" where
  "queryEditor c = (case query_editor c of Some e \<Rightarrow> Some e | None \<Rightarrow> fresh_editor c)"

definition currentQueryText :: "('g, 's) console \<Rightarrow> jstring" where
  "currentQueryText c = (case queryEditor c of Some e \<Rightarrow> getValue e [nl] | None \<Rightarrow> [])"

definition setCurrentQueryText :: "jstring \<Rightarrow> ('g, 's) console \<Rightarrow> ('g, 's) console outcome" where
  "setCurrentQueryText s c =
     (case queryEditor c of
        None \<Rightarrow> Thrown ''no editor'' c
      | Some e \<Rightarrow>
          (case setValue s e of
             None \<Rightarrow> Thrown ''editor error'' (c\<lparr>query_editor := Some e\<rparr>)
           | Some e' \<Rightarrow> Done (c\<lparr>query_editor := Some e'\<rparr>)))"

definition onSelectLayout :: "bool \<Rightarrow> ('g, 's) console \<Rightarrow> ('g, 's) console" where
  "onSelectLayout vertical c =
     (if vertical
      then c\<lparr>query_block := insert ''span12'' (query_block c - {''span6''}),
             results_block := insert ''row-fluid'' (results_block c - {''span6''}),
             results_inner := insert ''span12'' (results_inner c)\<rparr>
      else c\<lparr>query_block := insert ''span6'' (query_block c - {''span12''}),
             results_block := insert ''span6'' (results_block c - {''row-fluid''}),
             results_inner := results_inner c - {''span12''}\<rparr>)"

section \<open>Prefix declarations\<close>

definition loadPrefix :: "jstring \<Rightarrow> jstring \<Rightarrow> ('g, 's) console \<Rightarrow> ('g, 's) console" where
  "loadPrefix prefix uri c =
     c\<lparr>boxes := boxes c @ [\<lparr>
         box_html = fmt ''<li><label><input type='checkbox' checked='true' value='%s'></input> %s:</label></li>''
           [JStr uri, JStr prefix],
         box_text = '' '' @ prefix @ '':'', box_uri = uri, box_checked = True\<rparr>]\<rparr>"

definition load_all :: "(jstring \<times> jstring) list option \<Rightarrow> ('g, 's) console \<Rightarrow> ('g, 's) console" where
  "load_all ps c = (case ps of None \<Rightarrow> c | Some l \<Rightarrow> fold (\<lambda>(k, v). loadPrefix k v) l c)"

definition loadPrefixes :: "('g, 's) console \<Rightarrow> ('g, 's) console" where
  "loadPrefixes c =
     (let c1 = load_all (cprefixes (defaults_of c)) (c\<lparr>boxes := []\<rparr>)
      in case current_query c of None \<Rightarrow> c1 | Some q \<Rightarrow> load_all (cprefixes q) c1)"

definition renderAllPrefixes :: "('g, 's) console \<Rightarrow> jstring" where
  "renderAllPrefixes c =
     fold (\<lambda>b d. d @ fmt (''prefix %s <%s>'' @ [nl]) [JStr (js_trim (box_text b)), JStr (box_uri b)])
       (filter box_checked (boxes c)) []"

text \<open>
  The pattern of a declaration: \<open>"^prefix +"\<close>, the prefix, a colon.  The prefix is not escaped, so what it has of the
  syntax of regular expressions is part of the pattern, and making the pattern may fail.
\<close>

definition declaration_pattern :: "jstring \<Rightarrow> regexp_error + regexp" where
  "declaration_pattern pref = new_regexp (''^prefix +'' @ pref @ '':'')"

text \<open>The two loops of \<open>addPrefixDeclaration\<close>.\<close>

fun find_declaration :: "regexp \<Rightarrow> bool \<Rightarrow> jstring list \<Rightarrow> bool \<times> jstring list" where
  "find_declaration r add [] = (False, [])"
| "find_declaration r add (l # ls) =
     (if matches r l then (True, if add then l # ls else ls)
      else (let (found, ls') = find_declaration r add ls in (found, l # ls')))"

definition prefix_decl :: "jstring \<Rightarrow> jstring \<Rightarrow> jstring" where
  "prefix_decl pref uri = fmt ''prefix %s: <%s>'' [JStr pref, JStr uri]"

fun insert_declaration :: "jstring \<Rightarrow> jstring list \<Rightarrow> jstring list" where
  "insert_declaration d [] = []"
| "insert_declaration d (l # ls) =
     (if take 6 l \<noteq> ''prefix'' then d # l # ls else l # insert_declaration d ls)"

definition prefix_lines :: "regexp \<Rightarrow> jstring \<Rightarrow> jstring \<Rightarrow> bool \<Rightarrow> jstring list \<Rightarrow> jstring list" where
  "prefix_lines r pref uri add ls =
     (let (found, ls') = find_declaration r add ls
      in if \<not> found \<and> add then insert_declaration (prefix_decl pref uri) ls' else ls')"

text \<open>Reading the query makes the editor when there is none yet.\<close>

definition addPrefixDeclaration :: "jstring \<Rightarrow> jstring \<Rightarrow> bool \<Rightarrow> ('g, 's) console \<Rightarrow> ('g, 's) console outcome" where
  "addPrefixDeclaration pref uri add c =
     (case queryEditor c of
        None \<Rightarrow> Thrown ''no editor'' c
      | Some e \<Rightarrow>
          (let query = currentQueryText c; c1 = c\<lparr>query_editor := Some e\<rparr> in
           case declaration_pattern pref of
             Inl SyntaxError \<Rightarrow> Thrown ''SyntaxError'' c1
           | Inl NotModelled \<Rightarrow> Thrown ''pattern not modelled'' c1
           | Inr r \<Rightarrow> setCurrentQueryText (js_join [nl] (prefix_lines r pref uri add (js_split nl query))) c1))"

text \<open>The first colon is taken out of the text of the label. The event comes after the box has changed.\<close>

definition drop_colon :: "jstring \<Rightarrow> jstring" where
  "drop_colon s = takeWhile (\<lambda>c. c \<noteq> CHR '':'') s @ tl (dropWhile (\<lambda>c. c \<noteq> CHR '':'') s)"

definition addOrRemovePrefix :: "nat \<Rightarrow> ('g, 's) console \<Rightarrow> ('g, 's) console outcome" where
  "addOrRemovePrefix i c =
     (if i < length (boxes c)
      then (let b = (boxes c ! i)\<lparr>box_checked := \<not> box_checked (boxes c ! i)\<rparr>
            in addPrefixDeclaration (drop_colon (js_trim (box_text b))) (box_uri b) (box_checked b)
                 (c\<lparr>boxes := (boxes c)[i := b]\<rparr>))
      else Done c)"

section \<open>Choosing a query\<close>

definition truthy :: "jstring option \<Rightarrow> jstring option" where
  "truthy x = (case x of Some s \<Rightarrow> if s = [] then None else Some s | None \<Rightarrow> None)"

definition endpointURL :: "('g, 's) console \<Rightarrow> jstring" where
  "endpointURL c =
     (let ep = (case current_query c of Some q \<Rightarrow> cendpoint q | None \<Rightarrow> None) in
      case truthy ep of
        Some s \<Rightarrow> s
      | None \<Rightarrow> (case truthy (cendpoint (defaults_of c)) of Some s \<Rightarrow> s | None \<Rightarrow> ''/sparql''))"

definition loadQuery :: "('g, 's) console \<Rightarrow> ('g, 's) console outcome" where
  "loadQuery c =
     (case current_query c of
        None \<Rightarrow> Thrown ''TypeError'' c
      | Some q \<Rightarrow>
          and_then (setCurrentQueryText (renderAllPrefixes c @ [nl] @ js_String (undef (cquery q))) c)
            (\<lambda>c. Done (c\<lparr>desc_html := fmt ''<em>%s</em>'' [undef (cdesc q)], endpoint_field := endpointURL c\<rparr>)))"

definition clearResults :: "('g, 's) console \<Rightarrow> ('g, 's) console" where
  "clearResults c = c\<lparr>results := NoResult, spinner := False, time_hidden := True\<rparr>"

text \<open>\<open>selectQuery\<close> of the radio button with the given id, or of none when there is none.\<close>

definition selectQuery :: "nat option \<Rightarrow> ('g, 's) console \<Rightarrow> ('g, 's) console outcome" where
  "selectQuery qid c =
     (let q = (case qid of Some i \<Rightarrow> if i < length (config c) then Some (config c ! i) else None | None \<Rightarrow> None);
          c1 = c\<lparr>current_query := q,
                 radios := (case qid of
                              Some i \<Rightarrow> if i < length (radios c)
                                then map (\<lambda>r. r\<lparr>radio_checked := (radio_id r = radio_id (radios c ! i))\<rparr>) (radios c)
                                else radios c
                            | None \<Rightarrow> radios c)\<rparr>
      in and_then (loadQuery (loadPrefixes c1)) (\<lambda>c. Done (clearResults c)))"

definition query_radio :: "nat \<Rightarrow> query_config \<Rightarrow> radio" where
  "query_radio i q =
     \<lparr>radio_html = fmt (''<label class='radio'><input type='radio' value='%s' name='query' title='%s' ''
          @ ''data-query-id='%s'/>%s</label>'') [undef (cname q), undef (cdesc q), JNum (int i), undef (csummary q)],
      radio_id = i, radio_checked = False\<rparr>"

definition showQueries :: "('g, 's) console \<Rightarrow> ('g, 's) console outcome" where
  "showQueries c =
     (let rs = radios c @ map (\<lambda>i. query_radio i (config c ! i)) [0 ..< length (config c)]
      in selectQuery (case rs of r # _ \<Rightarrow> Some (radio_id r) | [] \<Rightarrow> None) (c\<lparr>radios := rs\<rparr>))"

section \<open>Loading the configuration\<close>

text \<open>
  The loop of \<open>onConfigLoaded\<close> keeps the last configuration with the name \<open>default\<close> and its position \<open>j\<close>.
\<close>

fun find_default :: "nat \<Rightarrow> query_config list \<Rightarrow> (nat \<times> query_config) option \<Rightarrow> (nat \<times> query_config) option" where
  "find_default i [] r = r"
| "find_default i (d # ds) r =
     find_default (i + 1) ds (if cname d = Some ''default'' then Some (i, d) else r)"

text \<open>
  \<open>_config.splice(_config, 1)\<close> gives the array where a number belongs, so it is made a string, the texts of its
  objects between commas, and the string a number: none for a text that is no numeral, and 0 for the
  empty one.  The other numerals are not needed here, as the text is empty or begins with a bracket.
\<close>

definition array_text :: "'a list \<Rightarrow> jstring" where
  "array_text xs = js_join '','' (map (\<lambda>x. ''[object Object]'') xs)"

definition text_number :: "jstring \<Rightarrow> int option" where
  "text_number s =
     (let t = js_trim s in
      if t = [] then Some 0 else if list_all is_digit t then Some (int (digits_nat t)) else None)"

definition js_integer :: "int option \<Rightarrow> int" where
  "js_integer x = (case x of None \<Rightarrow> 0 | Some i \<Rightarrow> i)"

definition splice_config :: "query_config list \<Rightarrow> query_config list" where
  "splice_config data = splice_at (js_index (js_integer (text_number (array_text data))) (length data)) 1 [] data"

definition onConfigLoaded :: "query_config list \<Rightarrow> ('g, 's) console \<Rightarrow> ('g, 's) console outcome" where
  "onConfigLoaded data c =
     (case find_default 0 data None of
        None \<Rightarrow> showQueries (c\<lparr>config := data\<rparr>)
      | Some (j, d) \<Rightarrow> showQueries (c\<lparr>defaults_of := d, config := splice_config data\<rparr>))"

definition onConfigFail :: "('g, 's) console \<Rightarrow> ('g, 's) console" where
  "onConfigFail c = c\<lparr>alerts := alerts c @ [''Failed to load qonfig.json'']\<rparr>"

section \<open>Running a query\<close>

definition hideTimeTaken :: "('g, 's) console \<Rightarrow> ('g, 's) console" where
  "hideTimeTaken c = c\<lparr>time_hidden := True\<rparr>"

definition runQuery :: "('g, 's) console \<Rightarrow> ('g, 's) console" where
  "runQuery c =
     (let c1 = hideTimeTaken c
      in c1\<lparr>requests := requests c1 @ [\<lparr>req_url = endpoint_field c1, req_query = currentQueryText c1,
             req_output = selected_format c1,
             req_force = (selected_format c1 = Some ''xml'' \<or> selected_format c1 = Some ''json'')\<rparr>]\<rparr>)"

section \<open>Results\<close>

definition time_parts :: "int \<Rightarrow> int \<times> int \<times> int" where
  "time_parts d = (let ms = d mod 1000; s = d div 1000 in (s div 60, s mod 60, ms))"

definition showTimeTaken :: "jval \<Rightarrow> int \<Rightarrow> int \<Rightarrow> ('g, 's) console \<Rightarrow> ('g, 's) console" where
  "showTimeTaken count earlier now c =
     (let (m, s, ms) = time_parts (now - earlier);
          html = (if count = JNum 1 then ''1 row in: '' else js_String count @ '' rows in: '')
      in c\<lparr>time_html := html @ int_str m @ ''min '' @ int_str s @ ''s '' @ int_str ms @ ''ms.'',
           time_hidden := False\<rparr>)"

lemma index_from_bounds: "index_from c k s = Some n \<Longrightarrow> k \<le> n \<and> n < length s"
  unfolding index_from_def by (drule find_from_Some) auto

text \<open>The counting loop: the number of line ends, and the length of the longest ended line.\<close>

function count_lines :: "jstring \<Rightarrow> nat \<Rightarrow> nat \<times> nat \<Rightarrow> nat \<times> nat" where
  "count_lines data k (lineCount, lineLength) =
     (case index_from nl k data of
        None \<Rightarrow> (lineCount, lineLength)
      | Some n \<Rightarrow>
          count_lines data (n + 1) (lineCount + 1, if n - k > lineLength then n - k else lineLength))"
  by pat_completeness auto

termination
  by (relation "measure (\<lambda>(data, k, p). length data - k)") (auto dest!: index_from_bounds)

declare count_lines.simps [simp del]

fun escape_lt :: "jstring \<Rightarrow> jstring" where
  "escape_lt [] = []"
| "escape_lt (c # s) = (if c = CHR ''<'' then ''&lt;'' else [c]) @ escape_lt s"

definition showPlainTextResult :: "jstring \<Rightarrow> int \<Rightarrow> int \<Rightarrow> jval \<Rightarrow> jstring option \<Rightarrow> jstring option
    \<Rightarrow> ('g, 's) console \<Rightarrow> ('g, 's) console" where
  "showPlainTextResult data earlier now count addClass removeClass c =
     (let (lineCount, lineLength) = count_lines data 0 (0, 0);
          c1 = showTimeTaken (if count = JNull then JNum (int lineCount - 4) else count) earlier now c;
          open_tag = fmt ''<pre class='span12 results-plain' style='min-width: %dpx'>'' [JNum (int lineLength * 8)];
          style = fmt ''<pre class='span12 results-plain' style='min-width: %dpx'></pre>'' [JNum (int lineLength * 8)];
          base = [''span12'', ''results-plain''];
          added = (case addClass of Some k \<Rightarrow> base @ [k] | None \<Rightarrow> base);
          classes = (case removeClass of Some k \<Rightarrow> filter (\<lambda>x. x \<noteq> k) added | None \<Rightarrow> added)
      in c1\<lparr>results := (if is_ie c then PreHtml (open_tag @ escape_lt data @ ''</pre>'')
                        else PreText style data classes)\<rparr>)"

definition table_rows :: "jstring list \<Rightarrow> jstring list list" where
  "table_rows ls = map (js_split (CHR 0x09)) (filter (\<lambda>l. l \<noteq> []) ls)"

definition showTableResult :: "jstring \<Rightarrow> int \<Rightarrow> int \<Rightarrow> ('g, 's) console \<Rightarrow> ('g, 's) console" where
  "showTableResult data earlier now c =
     (let ls = js_split nl data; rows = table_rows (tl ls)
      in (showTimeTaken (JNum (int (length rows))) earlier now c)
           \<lparr>results := ResultTable (js_split (CHR 0x09) (hd ls)) rows\<rparr>)"

definition onQueryFail :: "jstring \<Rightarrow> jstring \<Rightarrow> int \<Rightarrow> int \<Rightarrow> ('g, 's) console \<Rightarrow> ('g, 's) console" where
  "onQueryFail responseText statusText earlier now =
     showPlainTextResult (if responseText \<noteq> [] then responseText else statusText) earlier now (JNum 0)
       (Some ''errorText'') None"

definition onQuerySuccess :: "jstring \<Rightarrow> int \<Rightarrow> int \<Rightarrow> ('g, 's) console \<Rightarrow> ('g, 's) console" where
  "onQuerySuccess data earlier now c =
     (if selected_format c = Some ''text'' then showPlainTextResult data earlier now JNull None (Some ''errorText'') c
      else if selected_format c = Some ''json'' then showPlainTextResult data earlier now (JStr ''errorText'') None None c
      else if selected_format c = Some ''xml'' then showPlainTextResult data earlier now (JStr ''errorText'') None None c
      else if selected_format c = Some ''tsv'' then showTableResult data earlier now c
      else c)"

end
