(* ===== verification/Qonsole_Laws.thy ===== *)
theory Qonsole_Laws
  imports Qonsole CM_Demo
begin

text \<open>
  The laws of the query console. What it needs of its editor is stated as the locale \<open>text_box\<close> and
  discharged for the reachable CodeMirror editors.
\<close>

section \<open>A box with a text\<close>

locale text_box =
  fixes getv :: "'e \<Rightarrow> jstring"
    and setv :: "jstring \<Rightarrow> 'e \<Rightarrow> 'e option"
    and ok :: "'e \<Rightarrow> bool"
  assumes set_returns: "ok e \<Longrightarrow> \<exists>e'. setv s e = Some e' \<and> ok e' \<and> getv e' = norm_nl s"
begin

lemma set_clean: "ok e \<Longrightarrow> cr \<notin> set s \<Longrightarrow> \<exists>e'. setv s e = Some e' \<and> ok e' \<and> getv e' = s"
  using set_returns[of e s] by (simp add: norm_nl_id)

lemma edit_and_back:
  assumes "ok e" "cr \<notin> set (getv e)" "cr \<notin> set (f (getv e))" "g (f (getv e)) = getv e"
  shows "\<exists>e1 e2. setv (f (getv e)) e = Some e1 \<and> ok e1 \<and> getv e1 = f (getv e)
    \<and> setv (g (getv e1)) e1 = Some e2 \<and> ok e2 \<and> getv e2 = getv e"
proof -
  obtain e1 where e1: "setv (f (getv e)) e = Some e1" "ok e1" "getv e1 = f (getv e)"
    using set_clean[OF assms(1,3)] by blast
  obtain e2 where "setv (getv e) e1 = Some e2" "ok e2" "getv e2 = getv e"
    using set_clean[OF e1(2) assms(2)] by blast
  then show ?thesis using e1 assms(4) by auto
qed

end

interpretation query_box: text_box "\<lambda>e. getValue e [nl]" setValue reachable
proof
  fix e :: "('g, 's) editor" and s
  assume e: "reachable e"
  then show "\<exists>e'. setValue s e = Some e' \<and> reachable e' \<and> getValue e' [nl] = norm_nl s"
    using setValue_ok[OF reachable_undo_ok[OF e], of s] reach_step[OF e, of "SetValue s"] by fastforce
qed

section \<open>Prefix declarations\<close>

lemma fmt_two: "parse f = Inr [Lit a, Place plain_s, Lit b, Place plain_s, Lit d] \<Longrightarrow>
    fmt f [JStr x, JStr y] = a @ x @ b @ y @ d"
  by (simp add: fmt_def sprintf_def format_tree_def pick_def plain_s_def argument_def convert_def pad_text_def)


text \<open>The pattern of a prefix of plain characters and dots is as it looks, and finds the declaration of the prefix.\<close>

definition prefix_pattern :: "jstring \<Rightarrow> regexp" where
  "prefix_pattern pref =
     Cat LineStart (chars_then ''prefix'' (Cat (Repeat (Literal (CHR '' '')) 1 None) (chars_then (pref @ '':'') Empty)))"

lemma terms_start:
  assumes "terms n t = Inr (r, [])" "pattern_char c" "t = [] \<or> pattern_char (hd t)"
  shows "terms (Suc n) (c # t) = Inr (Cat (char_pattern c) r, [])"
  unfolding terms_char [OF assms(2,3)] by (simp add: assms(1) and_parse_def)

lemma declaration_pattern_plain:
  assumes "\<forall>c \<in> set pref. pattern_char c"
  shows "declaration_pattern pref = Inr (prefix_pattern pref)"
proof -
  obtain w where w: "w = pref @ '':''" by blast
  obtain n where n: "n = 3 * length pref + 24" by blast
  have p: "\<forall>c \<in> set w. pattern_char c" using assms by (auto simp: pattern_char_def w)
  have lazy: "drop_lazy w = w" using p by (cases w) (auto simp: drop_lazy_def pattern_char_def)
  have "terms n w = Inr (chars_then w Empty, [])" by (rule terms_chars [OF p]) (simp add: w n)
  moreover have "quantifier (CHR ''+'' # w) = Some ((1, None), w)" by (simp add: quantifier_def)
  moreover have "quantifier (CHR '' '' # CHR ''+'' # w) = None" by (simp add: quantifier_def braces_def)
  ultimately have "terms (Suc n) (CHR '' '' # CHR ''+'' # w) =
      Inr (Cat (Repeat (Literal (CHR '' '')) 1 None) (chars_then w Empty), [])"
    by (simp add: terms.simps quantified_def lazy and_parse_def)
  then have "terms (Suc (Suc (Suc (Suc (Suc (Suc (Suc n))))))) (''prefix +'' @ w) =
      Inr (chars_then ''prefix'' (Cat (Repeat (Literal (CHR '' '')) 1 None) (chars_then w Empty)), [])"
    unfolding append_Cons append_Nil chars_then_simps
    by (intro terms_start) (simp_all add: pattern_char_def)
  moreover have "quantifier (''^prefix +'' @ w) = None" by (simp add: quantifier_def braces_def)
  ultimately have "terms (Suc (Suc (Suc (Suc (Suc (Suc (Suc (Suc n)))))))) (''^prefix +'' @ w) = Inr (prefix_pattern pref, [])"
    by (simp add: terms.simps and_parse_def prefix_pattern_def w)
  moreover have "3 * length (''^prefix +'' @ w) + 3 = Suc (Suc (Suc (Suc (Suc (Suc (Suc (Suc (Suc n))))))))"
    by (simp add: w n)
  ultimately show ?thesis unfolding declaration_pattern_def new_regexp_def w [symmetric]
    by (simp only: alternatives.simps) (simp add: and_parse_def)
qed


lemma find_none: "\<forall>l \<in> set ls. \<not> matches r l \<Longrightarrow> find_declaration r add ls = (False, ls)"
  by (induction ls) auto


lemma insert_all_prefix: "\<forall>l \<in> set ls. take 6 l = ''prefix'' \<Longrightarrow> insert_declaration d ls = ls"
  by (induction ls) auto







lemma setCurrentQueryText_Done:
  assumes "queryEditor c = Some e" "setValue s e = Some e'"
  shows "setCurrentQueryText s c = Done (c\<lparr>query_editor := Some e'\<rparr>)"
  using assms by (simp add: setCurrentQueryText_def)

lemma queryEditor_set [simp]: "queryEditor (c\<lparr>query_editor := Some e\<rparr>) = Some e"
  by (simp add: queryEditor_def)

section \<open>Line counting\<close>

lemma js_split_at_nl:
  assumes "index_from nl k data = Some n"
  shows "js_split nl (drop k data) = take (n - k) (drop k data) # js_split nl (drop (n + 1) data)"
proof -
  have *: "find_from (\<lambda>x. x = nl) j xs = Some n \<Longrightarrow>
      xs = take (n - j) xs @ nl # drop (Suc (n - j)) xs \<and> nl \<notin> set (take (n - j) xs) \<and> j \<le> n" for j xs
  proof (induction "\<lambda>x. x = nl" j xs rule: find_from.induct)
    case (2 j x xs)
    then show ?case
    proof (cases "x = nl")
      case False
      then have "find_from (\<lambda>x. x = nl) (Suc j) xs = Some n" using 2 by simp
      moreover have "Suc j \<le> n" using 2(1)[OF False] calculation by simp
      ultimately show ?thesis using 2(1)[OF False] False by (auto simp: take_Cons' Suc_le_eq Suc_diff_Suc)
    qed simp
  qed simp
  from assms have "find_from (\<lambda>x. x = nl) k (drop k data) = Some n"
    by (simp add: index_from_def)
  note d = *[OF this]
  have "js_split nl (drop k data) = js_split nl (take (n - k) (drop k data) @ nl # drop (Suc (n - k)) (drop k data))"
    using d by metis
  also have "\<dots> = take (n - k) (drop k data) # js_split nl (drop (Suc (n - k)) (drop k data))"
    using d by (simp add: js_split_append)
  finally show ?thesis using d by simp
qed

lemma count_lines_split:
  "count_lines data k (a, b) =
     (a + length (butlast (js_split nl (drop k data))),
      fold max (map length (butlast (js_split nl (drop k data)))) b)"
proof (induction data k "(a, b)" arbitrary: a b rule: count_lines.induct)
  case (1 data k a b)
  show ?case
  proof (cases "index_from nl k data")
    case None
    then have "nl \<notin> set (drop k data)" by (auto simp: index_from_def find_from_None)
    then show ?thesis using None by (simp add: count_lines.simps js_split_noncontaining)
  next
    case (Some n)
    have l: "length (take (n - k) (drop k data)) = n - k" using index_from_bounds[OF Some] by (auto simp: min_def)
    show ?thesis using Some "1.hyps"[OF Some] js_split_at_nl[OF Some] l
      by (subst count_lines.simps) (auto simp: max_def)
  qed
qed


lemma time_parts_bounds:
  assumes "0 \<le> d" "time_parts d = (m, s, ms)"
  shows "0 \<le> ms \<and> ms < 1000 \<and> 0 \<le> s \<and> s < 60 \<and> 0 \<le> m \<and> d = m * 60000 + s * 1000 + ms"
proof -
  have p: "m = d div 1000 div 60" "s = d div 1000 mod 60" "ms = d mod 1000"
    using assms(2) by (auto simp: time_parts_def Let_def)
  have "d = 1000 * (d div 1000) + d mod 1000" "d div 1000 = 60 * (d div 1000 div 60) + d div 1000 mod 60"
    by simp_all
  moreover have "0 \<le> d div 1000 div 60" using assms(1) by (simp add: div_int_pos_iff)
  moreover have "0 \<le> d mod 1000" "d mod 1000 < 1000" "0 \<le> d div 1000 mod 60" "d div 1000 mod 60 < 60" by simp_all
  ultimately show ?thesis unfolding p by linarith
qed

section \<open>Loading the configuration\<close>

text \<open>The array that is taken for an index becomes 0, so that the first element is removed.\<close>

lemma js_trim_Cons:
  "re_space c \<Longrightarrow> js_trim (c # t) = js_trim t"
  "\<not> re_space c \<Longrightarrow> js_trim (c # t) = c # rev (dropWhile re_space (rev t))"
  by (simp_all add: js_trim_def dropWhile_append3)

lemma array_index:
  "js_index (js_integer (text_number (array_text xs))) (length xs) = 0"
proof (cases xs)
  case (Cons x ys)
  obtain t where t: "array_text xs = CHR ''['' # t" by (cases ys) (simp_all add: array_text_def Cons)
  have "text_number (array_text xs) = None"
    by (simp add: text_number_def t js_trim_Cons(2) re_space_def code_def is_digit_def Let_def)
  then show ?thesis by (simp add: js_integer_def js_index_def)
qed (simp add: js_index_def)

lemma splice_config_tl: "splice_config data = tl data"
  by (simp add: splice_config_def array_index splice_at_def drop_Suc)

definition is_default :: "query_config \<Rightarrow> bool" where
  "is_default d \<longleftrightarrow> cname d = Some ''default''"

lemma find_default_last:
  "map_option snd (find_default i ds r) =
     (if \<exists>d \<in> set ds. is_default d then Some (last (filter is_default ds)) else map_option snd r)"
proof (induction i ds r rule: find_default.induct)
  case (2 i d ds r)
  then show ?case by (auto simp: is_default_def [symmetric] filter_empty_conv)
qed simp

subsection \<open>The boxes and the text of the chosen query\<close>

definition prefix_list :: "query_config \<Rightarrow> (jstring \<times> jstring) list" where
  "prefix_list q = (case cprefixes q of None \<Rightarrow> [] | Some l \<Rightarrow> l)"

definition box_shows :: "jstring \<times> jstring \<Rightarrow> prefix_box \<Rightarrow> bool" where
  "box_shows p b \<longleftrightarrow> box_text b = '' '' @ fst p @ '':'' \<and> box_uri b = snd p \<and> box_checked b"

lemma load_all_boxes:
  "\<exists>bs. load_all (cprefixes q) c = c\<lparr>boxes := boxes c @ bs\<rparr> \<and> list_all2 box_shows (prefix_list q) bs"
proof -
  have "\<exists>bs. fold (\<lambda>(k, v). loadPrefix k v) l c = c\<lparr>boxes := boxes c @ bs\<rparr> \<and> list_all2 box_shows l bs" for l
  proof (induction l arbitrary: c)
    case Nil
    show ?case by (intro exI[of _ "[]"]) simp
  next
    case (Cons p l)
    obtain k v where p: "p = (k, v)" by (cases p)
    obtain b where b: "loadPrefix k v c = c\<lparr>boxes := boxes c @ [b]\<rparr>" "box_shows p b"
      by (simp add: loadPrefix_def box_shows_def p)
    obtain bs where "fold (\<lambda>(k, v). loadPrefix k v) l (c\<lparr>boxes := boxes c @ [b]\<rparr>) = c\<lparr>boxes := boxes c @ b # bs\<rparr>"
      "list_all2 box_shows l bs" using Cons[of "c\<lparr>boxes := boxes c @ [b]\<rparr>"] by auto
    then show ?case using b by (intro exI[of _ "b # bs"]) (simp add: p)
  qed
  then show ?thesis by (cases "cprefixes q") (auto simp: load_all_def prefix_list_def intro: exI[of _ "[]"])
qed

definition prefix_line :: "jstring \<times> jstring \<Rightarrow> jstring" where
  "prefix_line p = ''prefix '' @ js_trim (fst p @ '':'') @ '' <'' @ snd p @ ''>'' @ [nl]"

lemma render_box: "box_shows p b \<Longrightarrow> fmt (''prefix %s <%s>'' @ [nl]) [JStr (js_trim (box_text b)), JStr (box_uri b)] = prefix_line p"
proof -
  assume b: "box_shows p b"
  have "parse (''prefix %s <%s>'' @ [nl]) = Inr [Lit ''prefix '', Place plain_s, Lit '' <'', Place plain_s, Lit (''>'' @ [nl])]"
    by code_simp
  from fmt_two[OF this] b show ?thesis
    by (simp add: box_shows_def prefix_line_def js_trim_Cons(1) re_space_def code_def)
qed

lemma render_boxes:
  assumes "list_all2 box_shows ps (boxes c)"
  shows "renderAllPrefixes c = concat (map prefix_line ps)"
proof -
  have f: "fold (\<lambda>b d. d @ f b) bs d = d @ concat (map f bs)" for f :: "prefix_box \<Rightarrow> jstring" and bs d
    by (induction bs arbitrary: d) simp_all
  have "filter box_checked bs = bs \<and>
      map (\<lambda>b. fmt (''prefix %s <%s>'' @ [nl]) [JStr (js_trim (box_text b)), JStr (box_uri b)]) bs = map prefix_line ps"
    if "list_all2 box_shows ps bs" for ps bs
    using that render_box by (induction rule: list_all2_induct) (simp_all add: box_shows_def)
  with assms show ?thesis by (simp add: renderAllPrefixes_def f del: fold.simps)
qed

section \<open>Properties\<close>

definition demo_console :: "jstring \<Rightarrow> (sparql_env, sparql_state) console" where
  "demo_console v =
     \<lparr>config = [], defaults_of = no_config, current_query = None, query_editor = Some (demo_editor v),
      fresh_editor = Some (demo_editor []), is_ie = False, radios = [], boxes = [], desc_html = [],
      endpoint_field = ''/sparql'', query_block = {''span12''}, results_block = {''row-fluid''}, results_inner = {},
      selected_format = Some ''text'', results = NoResult, time_html = [], time_hidden = True, spinner = False,
      requests = [], alerts = []\<rparr>"

lemma demo_text: "getValue (demo_editor v) [nl] = flat (splitLines v)"
  using getValue_texts[OF undo_okD(2)[OF reachable_undo_ok[OF demo_reachable]], of v "[nl]"]
  by (simp add: demo_texts flat_def)


lemma demo_console_editor: "queryEditor (demo_console v) = Some (demo_editor v)"
  by (simp add: queryEditor_def demo_console_def)

text \<open>
  The lines that declare a prefix in the eyes of the code, and the two patterns that are not what they look like: an
  unescaped plus sign repeats the character before it, and two of them are an error.
\<close>

definition declares :: "jstring \<Rightarrow> jstring \<Rightarrow> bool" where
  "declares pref line \<longleftrightarrow> (case declaration_pattern pref of Inl x \<Rightarrow> False | Inr r \<Rightarrow> matches r line)"

lemma unescaped_prefix:
  "declaration_pattern ''c++'' = Inl SyntaxError"
  "declares ''a+b'' ''prefix aab: <u>''" "\<not> declares ''a+b'' ''prefix a+b: <u>''"
  by code_simp+

lemma unescaped_prefix_throws:
  assumes "queryEditor c = Some e"
  shows "addPrefixDeclaration ''c++'' uri add c = Thrown ''SyntaxError'' (c\<lparr>query_editor := Some e\<rparr>)"
  using assms by (simp add: addPrefixDeclaration_def unescaped_prefix(1))



text \<open>A prefix that is not added. When every line of the query begins with \<open>prefix\<close> and none declares
  the prefix, ticking its box changes nothing: the loop finds no line to put the declaration in front
  of, although a declaration could be appended.\<close>

theorem qonsole_prefix_lost:
  assumes "queryEditor c = Some e" "reachable e" "cr \<notin> set (currentQueryText c)" "\<forall>x \<in> set pref. pattern_char x"
    and "\<forall>l \<in> set (js_split nl (currentQueryText c)). \<not> declares pref l \<and> take 6 l = ''prefix''"
  shows "\<exists>c1. addPrefixDeclaration pref uri True c = Done c1 \<and> currentQueryText c1 = currentQueryText c"
proof -
  let ?s = "currentQueryText c" and ?r = "prefix_pattern pref"
  have s: "getValue e [nl] = ?s" using assms(1) by (simp add: currentQueryText_def)
  note r = declaration_pattern_plain[OF assms(4)]
  have "find_declaration ?r True (js_split nl ?s) = (False, js_split nl ?s)"
    using assms(5) by (intro find_none) (simp add: declares_def r)
  then have same: "js_join [nl] (prefix_lines ?r pref uri True (js_split nl ?s)) = ?s"
    using assms(5) by (simp add: prefix_lines_def insert_all_prefix js_join_split)
  obtain e' where "setValue ?s e = Some e'" "getValue e' [nl] = ?s"
    using query_box.set_clean[OF assms(2,3)] by blast
  then show ?thesis using assms(1) same
    by (simp add: addPrefixDeclaration_def r setCurrentQueryText_def currentQueryText_def[of "c\<lparr>query_editor := Some e'\<rparr>"])
qed

theorem qonsole_prefix_lost_witness:
  "\<exists>c1. addPrefixDeclaration ''rdf'' ''u'' True (demo_console ''prefix a: <b>'') = Done c1
    \<and> currentQueryText c1 = ''prefix a: <b>''"
proof -
  have t: "currentQueryText (demo_console ''prefix a: <b>'') = ''prefix a: <b>''"
    by (simp add: currentQueryText_def demo_console_editor demo_text)
  have sp: "js_split nl ''prefix a: <b>'' = [''prefix a: <b>'']" by code_simp
  have d: "\<not> declares ''rdf'' ''prefix a: <b>''" by code_simp
  have p: "\<forall>x \<in> set ''rdf''. pattern_char x" by code_simp
  from qonsole_prefix_lost[OF demo_console_editor demo_reachable _ p, of "''prefix a: <b>''" "''u''"] t sp d
  show ?thesis by simp
qed

text \<open>C35: Loading the configuration. The last configuration of the file that is named \<open>default\<close> becomes the
  defaults, and then the first configuration, whichever it is, is taken out of the list (the code gives the list
  where its index belongs); without one the old defaults stay and nothing is taken out.  When a query is left, the
  page, which had no query so far, offers one radio button for each of them in order, with the first one chosen; the boxes of
  the prefixes are those of the defaults and then of the query, all ticked; the editor shows, with line ends
  normalised, a declaration for each box, an empty line, and the text of the query (\<open>undefined\<close> when it has none); and the field of the endpoint has the one of the
  query, else of the defaults, else \<open>/sparql\<close>.\<close>

theorem qonsole_config_loaded:
  assumes "queryEditor c = Some e" "reachable e" "radios c = []"
    and qs: "qs = (if \<exists>d \<in> set data. is_default d then tl data else data)" "qs \<noteq> []"
    and df: "df = (if \<exists>d \<in> set data. is_default d then last (filter is_default data) else defaults_of c)"
  shows "\<exists>c'. onConfigLoaded data c = Done c' \<and> config c' = qs \<and> defaults_of c' = df
    \<and> current_query c' = Some (hd qs) \<and> map radio_id (radios c') = [0 ..< length qs]
    \<and> map radio_checked (radios c') = True # replicate (length qs - 1) False
    \<and> list_all2 box_shows (prefix_list df @ prefix_list (hd qs)) (boxes c')
    \<and> currentQueryText c' =
        norm_nl (concat (map prefix_line (prefix_list df @ prefix_list (hd qs))) @ [nl] @ js_String (undef (cquery (hd qs))))
    \<and> endpoint_field c' =
        (case truthy (cendpoint (hd qs)) of Some u \<Rightarrow> u
         | None \<Rightarrow> (case truthy (cendpoint df) of Some u \<Rightarrow> u | None \<Rightarrow> ''/sparql''))"
proof -
  obtain q rest where q: "qs = q # rest" using qs(2) by (cases qs) auto
  have swap: "c\<lparr>defaults_of := x, config := y\<rparr> = c\<lparr>config := y, defaults_of := x\<rparr>" for x y by simp
  have loaded: "onConfigLoaded data c = showQueries (c\<lparr>config := qs, defaults_of := df\<rparr>)"
    using find_default_last[of 0 data None] qs(1) df
    by (auto simp: onConfigLoaded_def splice_config_tl swap split: option.splits if_splits)
  let ?rs = "map (\<lambda>i. query_radio i (qs ! i)) [0 ..< length qs]"
  have n: "0 < length qs" "qs ! 0 = q" "0 < length ?rs" by (simp_all add: q)
  have first: "(case ?rs of r # _ \<Rightarrow> Some (radio_id r) | [] \<Rightarrow> None) = Some 0" "radio_id (?rs ! 0) = 0"
    using n(1) by (simp_all add: upt_conv_Cons query_radio_def)
  define rs where "rs = map (\<lambda>r. r\<lparr>radio_checked := (radio_id r = 0)\<rparr>) ?rs"
  have rs: "map radio_id rs = [0 ..< length qs]" "map radio_checked rs = True # replicate (length qs - 1) False"
    by (rule nth_equalityI; simp add: rs_def q query_radio_def nth_Cons' del: upt_Suc)+
  let ?c1 = "c\<lparr>config := qs, defaults_of := df, current_query := Some q, radios := rs\<rparr>"
  obtain bs1 where b1: "load_all (cprefixes df) (?c1\<lparr>boxes := []\<rparr>) = ?c1\<lparr>boxes := bs1\<rparr>" "list_all2 box_shows (prefix_list df) bs1"
    using load_all_boxes[of df "?c1\<lparr>boxes := []\<rparr>"] by auto
  obtain bs2 where b2: "load_all (cprefixes q) (?c1\<lparr>boxes := bs1\<rparr>) = ?c1\<lparr>boxes := bs1 @ bs2\<rparr>" "list_all2 box_shows (prefix_list q) bs2"
    using load_all_boxes[of q "?c1\<lparr>boxes := bs1\<rparr>"] by auto
  have bs: "list_all2 box_shows (prefix_list df @ prefix_list q) (bs1 @ bs2)" using b1(2) b2(2) by (rule list_all2_appendI)
  let ?c2 = "?c1\<lparr>boxes := bs1 @ bs2\<rparr>"
  have lp: "loadPrefixes ?c1 = ?c2" using b1(1) b2(1) by (simp add: loadPrefixes_def)
  have sel: "showQueries (c\<lparr>config := qs, defaults_of := df\<rparr>) = and_then (loadQuery ?c2) (\<lambda>c. Done (clearResults c))"
    using assms(3) n first lp by (simp add: showQueries_def selectQuery_def rs_def cong: list.case_cong)
  have ed: "queryEditor ?c2 = Some e" using assms(1) by (simp add: queryEditor_def split: option.splits)
  let ?t = "concat (map prefix_line (prefix_list df @ prefix_list q)) @ [nl] @ js_String (undef (cquery q))"
  have ren: "renderAllPrefixes ?c2 = concat (map prefix_line (prefix_list df @ prefix_list q))"
    using bs by (intro render_boxes) simp
  obtain e' where e': "setValue ?t e = Some e'" "getValue e' [nl] = norm_nl ?t"
    using query_box.set_returns[OF assms(2)] by blast
  have "loadQuery ?c2 = Done (?c2\<lparr>query_editor := Some e', desc_html := fmt ''<em>%s</em>'' [undef (cdesc q)],
      endpoint_field := endpointURL (?c2\<lparr>query_editor := Some e'\<rparr>)\<rparr>)"
    using e'(1) setCurrentQueryText_Done[OF ed, of ?t e'] by (simp add: loadQuery_def ren)
  then show ?thesis unfolding loaded sel
    using rs bs e'(2) by (simp add: clearResults_def q currentQueryText_def queryEditor_def endpointURL_def cong: option.case_cong)
qed

definition demo_config :: "query_config list" where
  "demo_config = [no_config\<lparr>cname := Some ''default'', cprefixes := Some [(''rdf'', ''u'')]\<rparr>, no_config\<lparr>cname := Some ''all'', cquery := Some ''SELECT''\<rparr>]"

theorem qonsole_config_loaded_witness:
  "\<exists>c'. onConfigLoaded demo_config (demo_console []) = Done c' \<and> length (radios c') = 1
    \<and> currentQueryText c' = ''prefix rdf: <u>'' @ [nl] @ [nl] @ ''SELECT'' \<and> endpoint_field c' = ''/sparql''"
proof -
  let ?q = "no_config\<lparr>cname := Some ''all'', cquery := Some ''SELECT''\<rparr>"
  let ?d = "no_config\<lparr>cname := Some ''default'', cprefixes := Some [(''rdf'', ''u'')]\<rparr>"
  have r: "radios (demo_console []) = []" by (simp add: demo_console_def)
  have q: "[?q] = (if \<exists>d \<in> set demo_config. is_default d then tl demo_config else demo_config)"
    and d: "?d = (if \<exists>d \<in> set demo_config. is_default d then last (filter is_default demo_config) else defaults_of (demo_console []))"
    by (simp_all add: demo_config_def is_default_def no_config_def)
  have t: "norm_nl (concat (map prefix_line (prefix_list ?d @ prefix_list (hd [?q]))) @ [nl] @ js_String (undef (cquery (hd [?q])))) =
      ''prefix rdf: <u>'' @ [nl] @ [nl] @ ''SELECT''"
    by code_simp
  obtain c' where c: "onConfigLoaded demo_config (demo_console []) = Done c'" "map radio_id (radios c') = [0 ..< 1]"
    "currentQueryText c' = ''prefix rdf: <u>'' @ [nl] @ [nl] @ ''SELECT''" "endpoint_field c' = ''/sparql''"
    using qonsole_config_loaded[OF demo_console_editor demo_reachable r q _ d] unfolding t
    by (auto simp: no_config_def truthy_def)
  from c(2) have "length (radios c') = 1" by (metis length_map length_upt diff_zero)
  with c show ?thesis by blast
qed

text \<open>C36: The counts shown with a result. The loop over the text counts its line ends and finds its
  longest ended line, as splitting the text into lines does; a plain text result shows that count less
  the four lines of decoration, a table the number of its rows that are not empty; but for the formats
  json and xml the class name is passed where the count belongs, and \<open>errorText rows\<close> is shown.\<close>

theorem qonsole_result_count:
  "count_lines data 0 (0, 0) = (length (js_split nl data) - 1, fold max (map length (butlast (js_split nl data))) 0)
    \<and> (selected_format c = Some ''text'' \<and> length (js_split nl data) \<noteq> 6 \<longrightarrow>
         take (length (int_str (int (length (js_split nl data)) - 5)) + 6) (time_html (onQuerySuccess data t n c)) =
           int_str (int (length (js_split nl data)) - 5) @ '' rows '')
    \<and> (selected_format c = Some ''json'' \<or> selected_format c = Some ''xml'' \<longrightarrow>
         take 18 (time_html (onQuerySuccess data t n c)) = ''errorText rows in:'')"
proof -
  have len: "int (length (js_split nl data) - 1) - 4 = int (length (js_split nl data)) - 5"
    using js_split_nonempty[of nl data] by (cases "js_split nl data") auto
  show ?thesis using count_lines_split[of data 0 0 0] len
    by (auto simp: onQuerySuccess_def showPlainTextResult_def showTimeTaken_def Let_def split_beta)
qed

definition json_console :: "(sparql_env, sparql_state) console" where
  "json_console = (demo_console [])\<lparr>selected_format := Some ''json''\<rparr>"

theorem qonsole_result_count_witness:
  "take 18 (time_html (onQuerySuccess ''{}'' 0 1500 json_console)) = ''errorText rows in:''"
  using qonsole_result_count[of "''{}''" json_console 0 1500]
  by (simp add: json_console_def)

text \<open>The time shown with a result. The elapsed time is split into minutes, seconds and milliseconds
  within their bounds, and without loss.\<close>

theorem qonsole_time_shown:
  assumes "earlier \<le> now" "time_parts (now - earlier) = (m, s, ms)"
  shows "0 \<le> ms \<and> ms < 1000 \<and> 0 \<le> s \<and> s < 60 \<and> 0 \<le> m \<and> now = earlier + m * 60000 + s * 1000 + ms
    \<and> time_html (showTimeTaken (JNum 1) earlier now c) =
        ''1 row in: '' @ int_str m @ ''min '' @ int_str s @ ''s '' @ int_str ms @ ''ms.''"
  using time_parts_bounds[of "now - earlier" m s ms] assms by (simp add: showTimeTaken_def)

theorem qonsole_time_shown_witness:
  "time_html (showTimeTaken (JNum 1) 0 61500 json_console) = ''1 row in: 1min 1s 500ms.''"
proof -
  have p: "time_parts (61500 - 0) = (1, 1, 500)" by code_simp
  have "int_str 1 = ''1''" "int_str 500 = ''500''" by code_simp+
  then show ?thesis using qonsole_time_shown[OF _ p, of json_console] by simp
qed

end
