(* ===== verification/Explorer.thy ===== *)
theory Explorer
  imports Springy_Loop
begin

text \<open>
  The data set explorer \<open>ds-explore.js\<close>: the nodes and links it knows, the connections it has drawn with
  jsPlumb, the requests for further nodes, and the layout of the visible part with Springy.

  A link object is shared between \<open>linkState\<close> and \<open>invLinkState\<close>; it is a position in \<open>link_store\<close>. The
  element of a node is named by the id of the node. jsPlumb draws a connection between two elements
  and takes away all connections of an element; it ignores a connection without an element. The
  keys of the tables are URIs, no names of inherited members.
\<close>

section \<open>State\<close>

record link =
  names :: "jstring list"
  link_visible :: bool

record nstate =
  node_visible :: bool
  node_label :: jstring
  springyNode :: "node option"

record explorer =
  nodeState :: "nstate obj"
  linkState :: "nat obj obj"
  invLinkState :: "nat obj obj"
  link_store :: "link list"
  conns :: "(jstring \<times> jstring \<times> jstring) list"
  offsets :: "jstring \<Rightarrow> real \<times> real"
  awaiting :: "(bool \<times> jstring \<times> jstring) list"

definition newExplorer :: explorer where
  "newExplorer = \<lparr>nodeState = [], linkState = [], invLinkState = [], link_store = [], conns = [],
     offsets = (\<lambda>_. (0, 0)), awaiting = []\<rparr>"

section \<open>Links\<close>

definition dests_of :: "jstring \<Rightarrow> nat obj obj \<Rightarrow> nat obj" where
  "dests_of src st = (case map_of st src of Some d \<Rightarrow> d | None \<Rightarrow> [])"

definition touch_row :: "jstring \<Rightarrow> nat obj obj \<Rightarrow> nat obj obj" where
  "touch_row src st = (if src \<in> fst ` set st then st else AList.update src [] st)"

definition linksFor :: "jstring \<Rightarrow> explorer \<Rightarrow> nat obj \<times> explorer" where
  "linksFor src e = (dests_of src (linkState e), e\<lparr>linkState := touch_row src (linkState e)\<rparr>)"

definition invLinksFor :: "jstring \<Rightarrow> explorer \<Rightarrow> nat obj \<times> explorer" where
  "invLinksFor src e = (dests_of src (invLinkState e), e\<lparr>invLinkState := touch_row src (invLinkState e)\<rparr>)"

definition set_link :: "jstring \<Rightarrow> jstring \<Rightarrow> nat \<Rightarrow> nat obj obj \<Rightarrow> nat obj obj" where
  "set_link a b l st = AList.update a (AList.update b l (dests_of a st)) st"

definition register :: "jstring \<Rightarrow> jstring \<Rightarrow> jstring \<Rightarrow> explorer \<Rightarrow> explorer" where
  "register src dest name e =
     (let (links, e1) = linksFor src e;
          (l, e2) =
            (case map_of links dest of
               None \<Rightarrow>
                 (length (link_store e1),
                  e1\<lparr>link_store := link_store e1 @ [\<lparr>names = [name], link_visible = False\<rparr>],
                     linkState := set_link src dest (length (link_store e1)) (linkState e1)\<rparr>)
             | Some l \<Rightarrow>
                 (l, if name \<in> set (names (link_store e1 ! l)) then e1
                     else e1\<lparr>link_store := (link_store e1)[l :=
                            (link_store e1 ! l)\<lparr>names := names (link_store e1 ! l) @ [name]\<rparr>]\<rparr>));
          (inv, e3) = invLinksFor dest e2
      in e3\<lparr>invLinkState := set_link dest src l (invLinkState e3)\<rparr>)"

section \<open>Nodes\<close>

definition registerNode :: "jstring \<Rightarrow> jstring \<Rightarrow> explorer \<Rightarrow> explorer" where
  "registerNode nodeid lab e =
     e\<lparr>nodeState := AList.update nodeid \<lparr>node_visible = True, node_label = lab, springyNode = None\<rparr> (nodeState e)\<rparr>"

definition nodeFor :: "jstring \<Rightarrow> explorer \<Rightarrow> bool" where
  "nodeFor i e \<longleftrightarrow> map_of (nodeState e) i \<noteq> None"

definition set_visible :: "bool \<Rightarrow> jstring \<Rightarrow> explorer \<Rightarrow> explorer throws" where
  "set_visible b nodeid e =
     (case map_of (nodeState e) nodeid of
        None \<Rightarrow> (Some (TypeError ''element of undefined''), e)
      | Some st \<Rightarrow> (None, e\<lparr>nodeState := AList.update nodeid (st\<lparr>node_visible := b\<rparr>) (nodeState e)\<rparr>))"

definition hideNode :: "jstring \<Rightarrow> explorer \<Rightarrow> explorer throws" where "hideNode = set_visible False"
definition showNode :: "jstring \<Rightarrow> explorer \<Rightarrow> explorer throws" where "showNode = set_visible True"

text \<open>\<open>randomPlacement\<close>; \<open>r\<close> is the result of \<open>Math.random\<close>.\<close>

definition randomPlacement :: "real \<Rightarrow> jstring \<Rightarrow> jstring \<Rightarrow> explorer \<Rightarrow> explorer throws" where
  "randomPlacement r current toplace e =
     (let angle = r * 2 * pi; yoffset = 180 * sin angle; xoffset = 180 * cos angle in
      if \<not> nodeFor current e \<or> \<not> nodeFor toplace e then (Some (TypeError ''offset of undefined''), e)
      else (None, e\<lparr>offsets := (offsets e)(toplace :=
              (fst (offsets e current) + xoffset, snd (offsets e current) + yoffset))\<rparr>))"

section \<open>Connections\<close>

definition js_connect :: "jstring \<Rightarrow> jstring \<Rightarrow> jstring \<Rightarrow> explorer \<Rightarrow> explorer" where
  "js_connect src tgt lab e =
     (if nodeFor src e \<and> nodeFor tgt e then e\<lparr>conns := conns e @ [(src, tgt, lab)]\<rparr> else e)"

definition detachAllConnections :: "jstring \<Rightarrow> explorer \<Rightarrow> explorer" where
  "detachAllConnections n e = e\<lparr>conns := filter (\<lambda>(s, t, l). s \<noteq> n \<and> t \<noteq> n) (conns e)\<rparr>"

definition mark :: "bool \<Rightarrow> nat \<Rightarrow> explorer \<Rightarrow> explorer" where
  "mark b l e = e\<lparr>link_store := (link_store e)[l := (link_store e ! l)\<lparr>link_visible := b\<rparr>]\<rparr>"

definition addConnection :: "jstring \<Rightarrow> jstring \<Rightarrow> explorer \<Rightarrow> explorer" where
  "addConnection src tgt e =
     (let (links, e1) = linksFor src e in
      case map_of links tgt of
        None \<Rightarrow> e1
      | Some l \<Rightarrow>
          if link_visible (link_store e1 ! l) then e1
          else mark True l (js_connect src tgt (js_join '','' (names (link_store e1 ! l))) e1))"

definition addConnections :: "jstring \<Rightarrow> jstring \<Rightarrow> explorer \<Rightarrow> explorer" where
  "addConnections src tgt e = addConnection tgt src (addConnection src tgt e)"

definition addDirectionalConnections :: "bool \<Rightarrow> jstring \<Rightarrow> jstring \<Rightarrow> explorer \<Rightarrow> explorer" where
  "addDirectionalConnections outbound src tgt =
     (if outbound then addConnection src tgt else addConnection tgt src)"

definition removeConnections :: "jstring \<Rightarrow> explorer \<Rightarrow> explorer" where
  "removeConnections src e =
     (let e1 = (if nodeFor src e then detachAllConnections src e else e);
          (links, e2) = linksFor src e1;
          e3 = fold (\<lambda>(t, l). mark False l) links e2;
          (inv, e4) = invLinksFor src e3
      in fold (\<lambda>(t, l). mark False l) inv e4)"

section \<open>Events\<close>

text \<open>The click handler that \<open>addNodeFn(outbound)\<close> makes, one linked data set after the other.\<close>

definition visit_link :: "bool \<Rightarrow> jstring \<Rightarrow> jstring \<Rightarrow> explorer \<Rightarrow> explorer" where
  "visit_link outbound n linked e =
     (if \<not> nodeFor linked e then e\<lparr>awaiting := awaiting e @ [(outbound, n, linked)]\<rparr>
      else addDirectionalConnections outbound n linked (snd (showNode linked e)))"

definition addNodeFn :: "bool \<Rightarrow> jstring \<Rightarrow> explorer \<Rightarrow> explorer" where
  "addNodeFn outbound n e =
     (let (links, e1) = (if outbound then linksFor n e else invLinksFor n e)
      in fold (\<lambda>(linked, l). visit_link outbound n linked) links e1)"

text \<open>
  The answer to the \<open>k\<close>-th open request: the element is appended, and the script that comes with it registers the
  node and its links before the callback goes on.
\<close>

datatype page_call = RegisterNode jstring jstring | RegisterLink jstring jstring jstring

fun run_call :: "page_call \<Rightarrow> explorer \<Rightarrow> explorer" where
  "run_call (RegisterNode n lab) = registerNode n lab"
| "run_call (RegisterLink s d name) = register s d name"

definition response :: "nat \<Rightarrow> real \<Rightarrow> page_call list \<Rightarrow> explorer \<Rightarrow> explorer throws" where
  "response k r calls e =
     (if k < length (awaiting e)
      then (let (outbound, n, linked) = awaiting e ! k;
                e1 = fold run_call calls (e\<lparr>awaiting := take k (awaiting e) @ drop (Suc k) (awaiting e)\<rparr>)
            in case randomPlacement r n linked e1 of
                 (Some x, e') \<Rightarrow> (Some x, e')
               | (None, e') \<Rightarrow> (None, addDirectionalConnections outbound n linked e'))
      else (None, e))"

definition closeNode :: "jstring \<Rightarrow> explorer \<Rightarrow> explorer throws" where
  "closeNode n e = hideNode n (removeConnections n e)"

section \<open>Layout\<close>

text \<open>\<open>relayout\<close>: a Springy clone of the visible nodes and links.\<close>

fun clone_nodes :: "(jstring \<times> nstate) list \<Rightarrow> graph \<Rightarrow> (jstring \<times> nstate) list \<times> graph" where
  "clone_nodes [] g = ([], g)"
| "clone_nodes ((i, st) # sts) g =
     (if node_visible st
      then (let (n, g1) = newNode (Some \<lparr>mass = None, label = Some (node_label st)\<rparr>) g;
                (rest, g2) = clone_nodes sts g1
            in ((i, st\<lparr>springyNode := Some n\<rparr>) # rest, g2))
      else (let (rest, g2) = clone_nodes sts g in ((i, st) # rest, g2)))"

definition spring_node :: "jstring \<Rightarrow> (jstring \<times> nstate) list \<Rightarrow> exn + node" where
  "spring_node i sts =
     (case map_of sts i of
        None \<Rightarrow> Inl (TypeError ''springyNode of undefined'')
      | Some st \<Rightarrow> (case springyNode st of None \<Rightarrow> Inl (TypeError ''id of undefined'') | Some n \<Rightarrow> Inr n))"

fun clone_edges :: "(jstring \<times> jstring) list \<Rightarrow> (jstring \<times> nstate) list \<Rightarrow> graph \<Rightarrow> graph throws" where
  "clone_edges [] sts g = (None, g)"
| "clone_edges ((s, t) # es) sts g =
     (case spring_node s sts of
        Inl x \<Rightarrow> (Some x, g)
      | Inr a \<Rightarrow>
          (case spring_node t sts of
             Inl x \<Rightarrow> (Some x, g)
           | Inr b \<Rightarrow>
               (case newEdge a b None g of
                  (Some x, g') \<Rightarrow> (Some x, g')
                | (None, g') \<Rightarrow> clone_edges es sts g')))"

definition visible_links :: "explorer \<Rightarrow> (jstring \<times> jstring) list" where
  "visible_links e =
     concat (map (\<lambda>(s, row). map (\<lambda>(t, l). (s, t)) (filter (\<lambda>(t, l). link_visible (link_store e ! l)) row))
       (linkState e))"

definition clone_graph :: "explorer \<Rightarrow> explorer \<times> graph throws" where
  "clone_graph e =
     (let (sts, g) = clone_nodes (nodeState e) newGraph
      in (e\<lparr>nodeState := sts\<rparr>, clone_edges (visible_links e) sts g))"

text \<open>The view of a layout: the simulation, the count of its frames, the moving box, the canvas.\<close>

definition maxIter :: nat where "maxIter = 200"
definition iterStep :: nat where "iterStep = 2"

record view =
  vsim :: sim
  iter :: nat
  currentBB :: "vector \<times> vector"
  targetBB :: "vector \<times> vector"
  vwidth :: real
  vheight :: real
  placed :: "(node \<times> real \<times> real) list"

definition toScreen :: "view \<Rightarrow> vector \<Rightarrow> real \<times> real" where
  "toScreen v p =
     (let size = vsubtract (snd (currentBB v)) (fst (currentBB v));
          sx = vx (vdivide (vsubtract p (fst (currentBB v))) (vx size)) * vwidth v;
          sy = vy (vdivide (vsubtract p (fst (currentBB v))) (vy size)) * vheight v
      in (sx, sy))"

definition fromScreen :: "view \<Rightarrow> real \<times> real \<Rightarrow> vector" where
  "fromScreen v s =
     (let size = vsubtract (snd (currentBB v)) (fst (currentBB v));
          px = fst s / vwidth v * vx size + vx (fst (currentBB v));
          py = snd s / vheight v * vy size + vy (fst (currentBB v))
      in Vector px py)"

definition closer_box :: "vector \<times> vector \<Rightarrow> vector \<times> vector \<Rightarrow> vector \<times> vector" where
  "closer_box cur tgt =
     (vadd (fst cur) (vdivide (vsubtract (fst tgt) (fst cur)) 10),
      vadd (snd cur) (vdivide (vsubtract (snd tgt) (snd cur)) 10))"

text \<open>The callback \<open>adjust\<close>, which always requests itself again.\<close>

definition adjust :: "(nat \<Rightarrow> real) \<Rightarrow> view \<Rightarrow> view" where
  "adjust rnd v =
     (let (box, L) = getBoundingBox rnd (lay (vsim v))
      in v\<lparr>vsim := (vsim v)\<lparr>lay := L\<rparr>, targetBB := box, currentBB := closer_box (currentBB v) box\<rparr>)"

text \<open>
  A frame of the layout. \<open>clear\<close> counts the frame and stops the simulation after \<open>maxIter\<close> of them (the
  flag is read only after the drawing), \<open>drawNode\<close> moves the elements in every \<open>iterStep\<close>-th frame.
\<close>

fun placements :: "(vector \<Rightarrow> real \<times> real) \<Rightarrow> drawing list \<Rightarrow> (node \<times> real \<times> real) list" where
  "placements f [] = []"
| "placements f (DrawNode n p # ds) = (n, f p) # placements f ds"
| "placements f (d # ds) = placements f ds"

definition view_frame :: "(nat \<Rightarrow> real) \<Rightarrow> view \<Rightarrow> view" where
  "view_frame rnd v =
     (if pending (vsim v) = [] then v
      else
        (let i = iter v + 1;
             s = (if i > maxIter then sim_stop (vsim v) else vsim v);
             s' = run_frame rnd s;
             ds = drop (length (drawn s)) (drawn s')
         in v\<lparr>vsim := s', iter := i,
              placed := placed v @ (if i mod iterStep = 0 then placements (toScreen v) ds else [])\<rparr>))"

definition new_view :: "(nat \<Rightarrow> real) \<Rightarrow> real \<Rightarrow> real \<Rightarrow> graph \<Rightarrow> view" where
  "new_view rnd w h g =
     (let (box, L) = getBoundingBox rnd (newLayout g 400 400 (1/4))
      in \<lparr>vsim = renderer_start (newRenderer 0 (newSim L)), iter = 0, currentBB = box,
          targetBB = (Vector (- 2) (- 2), Vector 2 2), vwidth = w, vheight = h, placed = []\<rparr>)"

definition relayout :: "(nat \<Rightarrow> real) \<Rightarrow> real \<Rightarrow> real \<Rightarrow> explorer \<Rightarrow> explorer \<times> (exn + view)" where
  "relayout rnd w h e =
     (case clone_graph e of
        (e', Some x, g) \<Rightarrow> (e', Inl x)
      | (e', None, g) \<Rightarrow> (e', Inr (new_view rnd w h g)))"

end
