(* ===== verification/Explorer_Laws.thy ===== *)
theory Explorer_Laws
  imports Explorer
begin

text \<open>
  The laws of the explorer: in every state that its events reach, the connections on the page are
  exactly the visible links, and both tables share the same link objects.
\<close>

section \<open>Tables of links\<close>

definition link_at :: "jstring \<Rightarrow> jstring \<Rightarrow> nat obj obj \<Rightarrow> nat option" where
  "link_at s t st = map_of (dests_of s st) t"

definition table_ok :: "nat obj obj \<Rightarrow> bool" where
  "table_ok st \<longleftrightarrow> distinct (map fst st) \<and> (\<forall>r \<in> set st. distinct (map fst (snd r)))"

lemma dests_touch [simp]: "dests_of a (touch_row b st) = dests_of a st"
proof (cases "b \<in> fst ` set st")
  case False
  then have "map_of st b = None" by (simp add: map_of_eq_None_iff)
  then show ?thesis using False by (simp add: dests_of_def touch_row_def update_conv')
qed (simp add: touch_row_def)

lemma link_touch [simp]: "link_at s t (touch_row b st) = link_at s t st"
  by (simp add: link_at_def)

lemma table_touch: "table_ok st \<Longrightarrow> table_ok (touch_row b st)"
  by (auto simp: table_ok_def touch_row_def distinct_update dest!: set_update_snd)

lemma link_set: "link_at s t (set_link a b l st) = (if s = a \<and> t = b then Some l else link_at s t st)"
  by (simp add: link_at_def set_link_def dests_of_def update_conv')

lemma dests_distinct: "table_ok st \<Longrightarrow> distinct (map fst (dests_of a st))"
  by (auto simp: table_ok_def dests_of_def dest!: map_of_SomeD split: option.split)

lemma table_set: "table_ok st \<Longrightarrow> table_ok (set_link a b l st)"
  using dests_distinct[of st a]
  by (auto simp: table_ok_def set_link_def distinct_update dest!: set_update_snd)

lemma link_in_dests: "table_ok st \<Longrightarrow> (t, l) \<in> set (dests_of s st) \<longleftrightarrow> link_at s t st = Some l"
  using dests_distinct[of st s] by (simp add: link_at_def map_of_eq_Some_iff)

section \<open>The invariant\<close>

definition linked :: "explorer \<Rightarrow> jstring \<Rightarrow> jstring \<Rightarrow> nat option" where
  "linked e s t = link_at s t (linkState e)"

definition shown :: "explorer \<Rightarrow> jstring \<Rightarrow> jstring \<Rightarrow> bool" where
  "shown e s t \<longleftrightarrow> (case linked e s t of None \<Rightarrow> False | Some l \<Rightarrow> link_visible (link_store e ! l))"

definition drawn_between :: "explorer \<Rightarrow> jstring \<Rightarrow> jstring \<Rightarrow> nat" where
  "drawn_between e s t = length (filter (\<lambda>(a, b, l). a = s \<and> b = t) (conns e))"

definition links_ok :: "explorer \<Rightarrow> bool" where
  "links_ok e \<longleftrightarrow> table_ok (linkState e) \<and> table_ok (invLinkState e)
     \<and> (\<forall>s t. link_at t s (invLinkState e) = linked e s t)
     \<and> (\<forall>s t l. linked e s t = Some l \<longrightarrow> l < length (link_store e))
     \<and> (\<forall>s t s' t' l. linked e s t = Some l \<longrightarrow> linked e s' t' = Some l \<longrightarrow> s = s' \<and> t = t')"

definition drawn_ok :: "explorer \<Rightarrow> bool" where
  "drawn_ok e \<longleftrightarrow> (\<forall>s t. drawn_between e s t = (if shown e s t then 1 else 0))
     \<and> (\<forall>c \<in> set (conns e). nodeFor (fst c) e \<and> nodeFor (fst (snd c)) e)"

definition ex_ok :: "explorer \<Rightarrow> bool" where
  "ex_ok e \<longleftrightarrow> links_ok e \<and> drawn_ok e"

lemma ex_ok_cong:
  assumes "ex_ok e" "table_ok (linkState e')" "table_ok (invLinkState e')"
    "\<And>s t. linked e' s t = linked e s t" "\<And>s t. link_at s t (invLinkState e') = link_at s t (invLinkState e)"
    "link_store e' = link_store e" "conns e' = conns e" "\<And>n. nodeFor n e \<Longrightarrow> nodeFor n e'"
  shows "ex_ok e'"
proof -
  have s: "shown e' a b = shown e a b" for a b unfolding shown_def assms(4,6) ..
  have d: "drawn_between e' a b = drawn_between e a b" for a b by (simp add: drawn_between_def assms(7))
  show ?thesis using assms(1-3) unfolding ex_ok_def links_ok_def drawn_ok_def s d assms(4-7)
    using assms(8) by auto
qed

lemma ex_ok_tables: "ex_ok e \<Longrightarrow> table_ok (linkState e) \<and> table_ok (invLinkState e)"
  by (simp add: ex_ok_def links_ok_def)

lemma linksFor_simps: "fst (linksFor s e) = dests_of s (linkState e)"
  "snd (linksFor s e) = e\<lparr>linkState := touch_row s (linkState e)\<rparr>"
  by (simp_all add: linksFor_def)

lemma linksFor_ok: "ex_ok e \<Longrightarrow> ex_ok (snd (linksFor s e))"
  by (frule ex_ok_tables, erule ex_ok_cong) (auto simp: linksFor_def linked_def nodeFor_def intro: table_touch)

lemma invLinksFor_ok: "ex_ok e \<Longrightarrow> ex_ok (snd (invLinksFor s e))"
  by (frule ex_ok_tables, erule ex_ok_cong) (auto simp: invLinksFor_def linked_def nodeFor_def intro: table_touch)

lemma new_ok: "ex_ok newExplorer"
  by (simp add: newExplorer_def ex_ok_def links_ok_def drawn_ok_def linked_def shown_def drawn_between_def table_ok_def
      link_at_def dests_of_def)

lemma visible_update:
  "k < length st \<Longrightarrow> link_visible (st[l := (st ! l)\<lparr>link_visible := b\<rparr>] ! k) = (if k = l then b else link_visible (st ! k))"
  by (cases "l < length st") (auto simp: nth_list_update list_update_beyond)

lemma names_update: "link_visible (st[l := (st ! l)\<lparr>names := x\<rparr>] ! k) = link_visible (st ! k)"
  by (cases "l < length st") (auto simp: nth_list_update list_update_beyond)

text \<open>Registering.\<close>

lemma register_ok:
  assumes ok: "ex_ok e" shows "ex_ok (register s d name e)"
proof (cases "linked e s d")
  case None
  let ?n = "length (link_store e)"
  have eq: "register s d name e = e\<lparr>linkState := set_link s d ?n (touch_row s (linkState e)),
      invLinkState := set_link d s ?n (touch_row d (invLinkState e)),
      link_store := link_store e @ [\<lparr>names = [name], link_visible = False\<rparr>]\<rparr>"
    using None by (simp add: register_def linksFor_def invLinksFor_def linked_def link_at_def Let_def)
  have bound: "linked e a b = Some l \<Longrightarrow> l < ?n" for a b l using ok by (simp add: ex_ok_def links_ok_def)
  have lk: "linked (register s d name e) a b = (if a = s \<and> b = d then Some ?n else linked e a b)" for a b
    by (simp add: eq linked_def link_set)
  have sh: "shown (register s d name e) a b = shown e a b" for a b
    unfolding shown_def lk using None bound[of a b] by (auto simp: eq nth_append split: option.split)
  have "drawn_ok (register s d name e)"
    using ok by (simp add: ex_ok_def drawn_ok_def sh) (simp add: eq drawn_between_def nodeFor_def)
  moreover have "links_ok (register s d name e)"
    using ok bound unfolding links_ok_def lk ex_ok_def
    by (auto simp: eq table_set table_touch link_set linked_def less_SucI dest!: bound split: if_splits)
  ultimately show ?thesis by (simp add: ex_ok_def)
next
  case (Some l)
  define st where "st = (if name \<in> set (names (link_store e ! l)) then link_store e
     else (link_store e)[l := (link_store e ! l)\<lparr>names := names (link_store e ! l) @ [name]\<rparr>])"
  have eq: "register s d name e = e\<lparr>linkState := touch_row s (linkState e),
      invLinkState := set_link d s l (touch_row d (invLinkState e)), link_store := st\<rparr>"
    using Some by (simp add: register_def linksFor_def invLinksFor_def linked_def link_at_def Let_def st_def)
  have inv: "link_at d s (invLinkState e) = Some l" using ok Some by (simp add: ex_ok_def links_ok_def)
  have vis: "link_visible (st ! k) = link_visible (link_store e ! k)" "length st = length (link_store e)" for k
    by (simp_all add: st_def names_update)
  have lk: "linked (register s d name e) a b = linked e a b" for a b by (simp add: eq linked_def)
  have sh: "shown (register s d name e) a b = shown e a b" for a b
    unfolding shown_def lk by (simp add: eq vis split: option.split)
  have "drawn_ok (register s d name e)"
    using ok by (simp add: ex_ok_def drawn_ok_def sh) (simp add: eq drawn_between_def nodeFor_def)
  moreover have "links_ok (register s d name e)"
    using ok inv Some unfolding links_ok_def lk ex_ok_def
    by (auto simp: eq table_set table_touch link_set vis)
  ultimately show ?thesis by (simp add: ex_ok_def)
qed

lemma registerNode_ok: "ex_ok e \<Longrightarrow> ex_ok (registerNode n lab e)"
  by (frule ex_ok_tables, erule ex_ok_cong) (auto simp: registerNode_def nodeFor_def linked_def update_conv')

lemma set_visible_ok: "ex_ok e \<Longrightarrow> ex_ok (snd (set_visible b n e))"
  by (frule ex_ok_tables, erule ex_ok_cong)
    (auto simp: set_visible_def nodeFor_def linked_def update_conv' split: option.split)

text \<open>Adding a connection between registered nodes.\<close>

lemma links_okD:
  assumes "links_ok e" "linked e s t = Some l"
  shows "l < length (link_store e)" "linked e a c = Some l \<Longrightarrow> a = s \<and> c = t"
  using assms unfolding links_ok_def by blast+

lemma snd_image_iff: "l \<in> snd ` S \<longleftrightarrow> (\<exists>t. (t, l) \<in> S)"
  by force

lemma outgoing:
  assumes "links_ok e"
  shows "l \<in> snd ` set (dests_of n (linkState e)) \<longleftrightarrow> (\<exists>t. linked e n t = Some l)"
proof -
  have "table_ok (linkState e)" using assms by (simp add: links_ok_def)
  then show ?thesis by (simp add: snd_image_iff link_in_dests linked_def)
qed

lemma incoming:
  assumes "links_ok e"
  shows "l \<in> snd ` set (dests_of n (invLinkState e)) \<longleftrightarrow> (\<exists>s. linked e s n = Some l)"
proof -
  have "table_ok (invLinkState e)" "\<And>s t. link_at t s (invLinkState e) = linked e s t"
    using assms by (simp_all add: links_ok_def)
  then show ?thesis by (simp add: snd_image_iff link_in_dests)
qed

lemma shown_mark:
  assumes "links_ok e" "linked e s t = Some l"
  shows "shown (mark b l e) a c = (if a = s \<and> c = t then b else shown e a c)"
proof (cases "linked e a c")
  case None
  have "linked (mark b l e) a c = None" using None by (simp add: linked_def mark_def)
  then show ?thesis using None assms(2) by (auto simp: shown_def)
next
  case (Some k)
  have k: "linked (mark b l e) a c = Some k" using Some by (simp add: linked_def mark_def)
  have len: "k < length (link_store e)" by (rule links_okD(1)[OF assms(1) Some])
  have kl: "k = l \<longleftrightarrow> a = s \<and> c = t"
  proof
    assume "k = l" then show "a = s \<and> c = t" using links_okD(2)[OF assms] Some by blast
  next
    assume "a = s \<and> c = t" then show "k = l" using Some assms(2) by simp
  qed
  have "link_store (mark b l e) ! k = (link_store e)[l := (link_store e ! l)\<lparr>link_visible := b\<rparr>] ! k"
    by (simp add: mark_def)
  then have "link_visible (link_store (mark b l e) ! k) = (if k = l then b else link_visible (link_store e ! k))"
    using visible_update[OF len, of l b] by presburger
  then show ?thesis unfolding shown_def Some k option.case kl .
qed

lemma links_ok_mark: "links_ok e \<Longrightarrow> links_ok (mark b l e)"
  by (simp add: links_ok_def mark_def linked_def)

lemma addConnection_ok:
  assumes ok: "ex_ok e" and nodes: "nodeFor s e" "nodeFor t e"
  shows "ex_ok (addConnection s t e) \<and> nodeState (addConnection s t e) = nodeState e"
proof -
  let ?e1 = "snd (linksFor s e)"
  have ok1: "ex_ok ?e1" by (rule linksFor_ok[OF ok])
  have lk: "map_of (fst (linksFor s e)) t = linked ?e1 s t"
    by (simp add: linksFor_def linked_def link_at_def)
  have n1: "nodeFor s ?e1" "nodeFor t ?e1" "nodeState ?e1 = nodeState e"
    using nodes by (simp_all add: linksFor_def nodeFor_def)
  show ?thesis
  proof (cases "linked ?e1 s t")
    case None
    then show ?thesis using lk ok1 n1 by (simp add: addConnection_def split_beta)
  next
    case (Some l)
    show ?thesis
    proof (cases "link_visible (link_store ?e1 ! l)")
      case True
      then show ?thesis using lk ok1 n1 Some by (simp add: addConnection_def split_beta)
    next
      case False
      define lab where "lab = js_join '','' (names (link_store ?e1 ! l))"
      let ?e2 = "?e1\<lparr>conns := conns ?e1 @ [(s, t, lab)]\<rparr>"
      have eq: "addConnection s t e = mark True l ?e2"
        using lk n1 Some False by (simp add: addConnection_def split_beta js_connect_def lab_def)
      have l2: "links_ok ?e2" "linked ?e2 s t = Some l"
        using ok1 Some by (simp_all add: ex_ok_def links_ok_def linked_def)
      have sh: "shown (mark True l ?e2) a c = (if a = s \<and> c = t then True else shown ?e1 a c)" for a c
      proof -
        have "shown ?e2 a c = shown ?e1 a c" unfolding shown_def linked_def by (simp split: option.split)
        then show ?thesis using shown_mark[OF l2, of True a c] by simp
      qed
      have "\<not> shown ?e1 s t" using Some False by (simp add: shown_def)
      then have "drawn_ok (mark True l ?e2)"
        using ok1 n1 unfolding drawn_ok_def sh ex_ok_def
        by (auto simp: mark_def drawn_between_def nodeFor_def)
      then show ?thesis using links_ok_mark[OF l2(1)] n1(3) by (simp add: eq ex_ok_def) (simp add: mark_def)
    qed
  qed
qed

lemma addDirectional_ok:
  assumes "ex_ok e" "nodeFor s e" "nodeFor t e"
  shows "ex_ok (addDirectionalConnections b s t e) \<and> nodeState (addDirectionalConnections b s t e) = nodeState e"
  using addConnection_ok assms by (simp add: addDirectionalConnections_def)

text \<open>Removing the connections of a node.\<close>

lemma mark_fold_simps:
  "linkState (fold (\<lambda>(t, l). mark b l) ls e) = linkState e" "invLinkState (fold (\<lambda>(t, l). mark b l) ls e) = invLinkState e"
  "conns (fold (\<lambda>(t, l). mark b l) ls e) = conns e" "nodeState (fold (\<lambda>(t, l). mark b l) ls e) = nodeState e"
  "length (link_store (fold (\<lambda>(t, l). mark b l) ls e)) = length (link_store e)"
  by (induction ls arbitrary: e) (auto simp: mark_def)

lemma mark_fold_store:
  "k < length (link_store e) \<Longrightarrow> link_visible (link_store (fold (\<lambda>(t, l). mark False l) ls e) ! k)
     \<longleftrightarrow> link_visible (link_store e ! k) \<and> k \<notin> snd ` set ls"
proof (induction ls arbitrary: e)
  case (Cons p ls)
  obtain t l where p: "p = (t, l)" by (cases p)
  have "k < length (link_store (mark False l e))" using Cons.prems by (simp add: mark_def)
  from Cons.IH[OF this] show ?case using Cons.prems by (auto simp: p mark_def visible_update)
qed simp

lemma removeConnections_ok:
  assumes ok: "ex_ok e"
  shows "ex_ok (removeConnections n e) \<and> conns (removeConnections n e) = filter (\<lambda>(s, t, l). s \<noteq> n \<and> t \<noteq> n) (conns e)
    \<and> nodeState (removeConnections n e) = nodeState e
    \<and> (\<forall>s t. shown (removeConnections n e) s t \<longleftrightarrow> shown e s t \<and> s \<noteq> n \<and> t \<noteq> n)"
proof -
  define e1 where "e1 = (if nodeFor n e then detachAllConnections n e else e)"
  define outs where "outs = dests_of n (linkState e)"
  define ins where "ins = dests_of n (invLinkState e)"
  define e2 where "e2 = e1\<lparr>linkState := touch_row n (linkState e)\<rparr>"
  define e3 where "e3 = (fold (\<lambda>(t, l). mark False l) outs e2)\<lparr>invLinkState := touch_row n (invLinkState e)\<rparr>"
  have e1: "linkState e1 = linkState e" "invLinkState e1 = invLinkState e" "link_store e1 = link_store e"
    "nodeState e1 = nodeState e" by (simp_all add: e1_def detachAllConnections_def)
  have r: "removeConnections n e = fold (\<lambda>(t, l). mark False l) ins e3"
    by (simp add: removeConnections_def e1_def[symmetric] linksFor_def invLinksFor_def e2_def e3_def outs_def ins_def
        mark_fold_simps e1 Let_def)
  have keep: "conns e1 = filter (\<lambda>(s, t, l). s \<noteq> n \<and> t \<noteq> n) (conns e)"
  proof (cases "nodeFor n e")
    case False
    then have "\<forall>c \<in> set (conns e). fst c \<noteq> n \<and> fst (snd c) \<noteq> n" using ok by (auto simp: ex_ok_def drawn_ok_def)
    then show ?thesis using False by (auto simp: e1_def intro!: filter_True[symmetric])
  qed (simp add: e1_def detachAllConnections_def)
  have parts: "linkState (removeConnections n e) = touch_row n (linkState e)"
    "invLinkState (removeConnections n e) = touch_row n (invLinkState e)"
    "conns (removeConnections n e) = conns e1" "nodeState (removeConnections n e) = nodeState e"
    "length (link_store (removeConnections n e)) = length (link_store e)"
    by (simp_all add: r mark_fold_simps e3_def e2_def e1)
  have lk: "linked (removeConnections n e) s t = linked e s t" for s t by (simp add: linked_def parts)
  have tab: "table_ok (linkState e)" "table_ok (invLinkState e)" using ok by (simp_all add: ex_ok_def links_ok_def)
  have vis: "link_visible (link_store (removeConnections n e) ! l) \<longleftrightarrow>
      link_visible (link_store e ! l) \<and> s \<noteq> n \<and> t \<noteq> n" if "linked e s t = Some l" for s t l
  proof -
    have l: "l < length (link_store e)" using ok that by (simp add: ex_ok_def links_ok_def)
    have uniq: "linked e s' t' = Some l \<Longrightarrow> s' = s \<and> t' = t" for s' t'
      using ok that unfolding ex_ok_def links_ok_def by blast
    have lo: "links_ok e" using ok by (simp add: ex_ok_def)
    have "l \<in> snd ` set outs \<longleftrightarrow> s = n" unfolding outs_def outgoing[OF lo] using that uniq by blast
    moreover have "l \<in> snd ` set ins \<longleftrightarrow> t = n" unfolding ins_def incoming[OF lo] using that uniq by blast
    ultimately show ?thesis using l
      by (simp add: r e3_def mark_fold_store mark_fold_simps e2_def e1)
  qed
  have sh: "shown (removeConnections n e) s t \<longleftrightarrow> shown e s t \<and> s \<noteq> n \<and> t \<noteq> n" for s t
    unfolding shown_def lk using vis[of s t] by (auto split: option.split)
  have dr: "drawn_between (removeConnections n e) s t = (if s = n \<or> t = n then 0 else drawn_between e s t)" for s t
    unfolding drawn_between_def parts keep filter_filter
    by (auto intro!: arg_cong[of _ _ length] filter_cong simp: filter_empty_conv)
  have "links_ok (removeConnections n e)"
    using ok unfolding ex_ok_def links_ok_def lk parts by (simp add: table_touch)
  moreover have "drawn_ok (removeConnections n e)"
    using ok unfolding drawn_ok_def ex_ok_def dr sh by (auto simp: parts keep nodeFor_def)
  ultimately show ?thesis using sh by (simp add: ex_ok_def parts keep)
qed


section \<open>Reachable states\<close>

inductive ex_reachable :: "explorer \<Rightarrow> bool" where
  ex_new: "ex_reachable newExplorer"
| ex_call: "ex_reachable e \<Longrightarrow> ex_reachable (run_call c e)"
| ex_click: "ex_reachable e \<Longrightarrow> nodeFor n e \<Longrightarrow> ex_reachable (addNodeFn b n e)"
| ex_response: "ex_reachable e \<Longrightarrow> ex_reachable (snd (response k r calls e))"
| ex_close: "ex_reachable e \<Longrightarrow> ex_reachable (snd (closeNode n e))"
| ex_layout: "ex_reachable e \<Longrightarrow> ex_reachable (fst (relayout rnd w h e))"

lemma run_call_ok: "ex_ok e \<Longrightarrow> ex_ok (run_call c e)"
  by (cases c) (simp_all add: registerNode_ok register_ok)

lemma run_calls_ok: "ex_ok e \<Longrightarrow> ex_ok (fold run_call cs e)"
  by (induction cs arbitrary: e) (simp_all add: run_call_ok)

lemma other_fields_ok:
  assumes "ex_ok e" "linkState e' = linkState e" "invLinkState e' = invLinkState e"
    "link_store e' = link_store e" "conns e' = conns e" "nodeState e' = nodeState e"
  shows "ex_ok e'"
  using ex_ok_tables[OF assms(1)] assms(2-)
  by (intro ex_ok_cong[OF assms(1)]) (simp_all add: linked_def nodeFor_def)

lemma visit_link_ok:
  assumes "ex_ok e" "nodeFor n e"
  shows "ex_ok (visit_link b n d e) \<and> nodeFor n (visit_link b n d e)"
proof (cases "nodeFor d e")
  case False
  have "ex_ok (e\<lparr>awaiting := awaiting e @ [(b, n, d)]\<rparr>)" by (rule other_fields_ok[OF assms(1)]) simp_all
  then show ?thesis using False assms(2) by (simp add: visit_link_def nodeFor_def)
next
  case True
  let ?e = "snd (showNode d e)"
  have e: "ex_ok ?e" using set_visible_ok[OF assms(1)] by (simp add: showNode_def)
  have n: "nodeFor n ?e" "nodeFor d ?e"
    using assms(2) True by (auto simp: showNode_def set_visible_def nodeFor_def update_conv' split: option.split)
  show ?thesis using addDirectional_ok[OF e n, of b] True n(1) by (simp add: visit_link_def nodeFor_def)
qed

lemma addNodeFn_ok:
  assumes "ex_ok e" "nodeFor n e"
  shows "ex_ok (addNodeFn b n e)"
proof -
  have loop: "ex_ok e \<and> nodeFor n e \<Longrightarrow> ex_ok (fold (\<lambda>(d, l). visit_link b n d) ls e)" for ls :: "nat obj" and e
    by (induction ls arbitrary: e) (auto simp: visit_link_ok)
  show ?thesis
  proof (cases b)
    case True
    have "nodeFor n (snd (linksFor n e))" using assms(2) by (simp add: linksFor_def nodeFor_def)
    then show ?thesis using True loop linksFor_ok[OF assms(1), of n] by (simp add: addNodeFn_def split_beta)
  next
    case False
    have "nodeFor n (snd (invLinksFor n e))" using assms(2) by (simp add: invLinksFor_def nodeFor_def)
    then show ?thesis using False loop invLinksFor_ok[OF assms(1), of n] by (simp add: addNodeFn_def split_beta)
  qed
qed

lemma response_ok:
  assumes "ex_ok e"
  shows "ex_ok (snd (response k r calls e))"
proof (cases "k < length (awaiting e)")
  case True
  obtain b n d where a: "awaiting e ! k = (b, n, d)" by (cases "awaiting e ! k")
  let ?e1 = "fold run_call calls (e\<lparr>awaiting := take k (awaiting e) @ drop (Suc k) (awaiting e)\<rparr>)"
  have "ex_ok (e\<lparr>awaiting := take k (awaiting e) @ drop (Suc k) (awaiting e)\<rparr>)"
    by (rule other_fields_ok[OF assms]) simp_all
  then have e1: "ex_ok ?e1" by (rule run_calls_ok)
  obtain x e2 where p: "randomPlacement r n d ?e1 = (x, e2)" by (cases "randomPlacement r n d ?e1")
  have e2: "ex_ok e2" using p by (intro other_fields_ok[OF e1]) (auto simp: randomPlacement_def Let_def split: if_splits)
  have "x = None \<Longrightarrow> nodeFor n e2 \<and> nodeFor d e2"
    using p by (auto simp: randomPlacement_def Let_def nodeFor_def split: if_splits)
  then show ?thesis using True a p e2 addDirectional_ok[OF e2] by (cases x) (simp_all add: response_def)
qed (simp add: response_def assms)

lemma closeNode_ok: "ex_ok e \<Longrightarrow> ex_ok (snd (closeNode n e))"
  using set_visible_ok[of "removeConnections n e"] removeConnections_ok[of e n]
  by (simp add: closeNode_def hideNode_def)

text \<open>A layout gives clones to the visible nodes and changes nothing else of the explorer.\<close>

lemma clone_nodes_keys: "map fst (fst (clone_nodes xs g)) = map fst xs"
  by (induction xs g rule: clone_nodes.induct) (auto simp: Let_def split: prod.splits)

lemma relayout_state: "fst (relayout rnd w h e) = e\<lparr>nodeState := fst (clone_nodes (nodeState e) newGraph)\<rparr>"
  by (simp add: relayout_def clone_graph_def split_beta Let_def split: option.split)

lemma relayout_ok: "ex_ok e \<Longrightarrow> ex_ok (fst (relayout rnd w h e))"
proof -
  assume e: "ex_ok e"
  have "fst ` set (fst (clone_nodes (nodeState e) newGraph)) = fst ` set (nodeState e)"
    using arg_cong[OF clone_nodes_keys[of "nodeState e" newGraph], of set] by simp
  then have "nodeFor n (fst (relayout rnd w h e)) = nodeFor n e" for n
    unfolding nodeFor_def relayout_state by (simp add: map_of_eq_None_iff)
  then show ?thesis using ex_ok_tables[OF e] by (intro ex_ok_cong[OF e]) (simp_all add: relayout_state linked_def)
qed

lemma ex_reachable_ok: "ex_reachable e \<Longrightarrow> ex_ok e"
  by (induction rule: ex_reachable.induct)
    (simp_all add: new_ok run_call_ok addNodeFn_ok response_ok closeNode_ok relayout_ok)

section \<open>The layout of the view\<close>

lemma frame_step_stop: "stop_flag s \<Longrightarrow> \<not> started (frame_step rnd cb s)"
  by (simp add: frame_step_def Let_def split_beta)

lemma view_frame_count:
  assumes "one_frame (vsim v)"
  shows "one_frame (vsim (view_frame rnd v))
    \<and> (started (vsim (view_frame rnd v)) \<longrightarrow> started (vsim v) \<and> iter (view_frame rnd v) = iter v + 1 \<and> iter v < maxIter)"
proof (cases "pending (vsim v) = []")
  case True
  then have "view_frame rnd v = v" "\<not> started (vsim v)" using assms
    by (auto simp: view_frame_def one_frame_def split: if_splits)
  then show ?thesis using assms by auto
next
  case False
  define s where "s = (if iter v + 1 > maxIter then sim_stop (vsim v) else vsim v)"
  have eq: "vsim (view_frame rnd v) = run_frame rnd s" "iter (view_frame rnd v) = iter v + 1"
    using False by (simp_all add: view_frame_def Let_def s_def)
  have s: "one_frame s" "pending s = pending (vsim v)" "started s = started (vsim v)"
    using assms by (auto simp: s_def one_frame_def sim_stop_def split: if_splits)
  have st: "started (vsim v)" using False assms by (auto simp: one_frame_def split: if_splits)
  have "\<not> started (run_frame rnd s)" if "maxIter \<le> iter v"
  proof -
    have "stop_flag s" using that by (simp add: s_def sim_stop_def)
    moreover obtain cb cbs where p: "pending s = cb # cbs" using False s(2) by (metis list.exhaust)
    ultimately show ?thesis by (simp add: run_frame_def p frame_step_stop)
  qed
  then show ?thesis using one_frame_run[OF s(1)] s(2) False st by (auto simp: eq not_le[symmetric])
qed

lemma view_frames_count:
  assumes "one_frame (vsim v)" "iter v = 0"
  shows "one_frame (vsim ((view_frame rnd ^^ n) v))
    \<and> (started (vsim ((view_frame rnd ^^ n) v)) \<longrightarrow> iter ((view_frame rnd ^^ n) v) = n \<and> n \<le> maxIter)"
proof (induction n)
  case (Suc n)
  then show ?case using view_frame_count[of "(view_frame rnd ^^ n) v" rnd] by auto
qed (use assms in simp)

lemma scale_bounds:
  fixes x :: real
  assumes "0 \<le> x" "x \<le> d" "0 < d" "0 < w"
  shows "0 \<le> x * w / d" "x * w / d \<le> w" "0 \<le> x / d * w" "x / d * w \<le> w"
proof -
  have "0 \<le> x / d" "x / d \<le> 1" using assms by auto
  then show "0 \<le> x / d * w" "x / d * w \<le> w" using assms(4) by (simp_all only: mult_nonneg_nonneg mult_left_le_one_le less_imp_le)
  moreover have "x * w / d = x / d * w" by simp
  ultimately show "0 \<le> x * w / d" "x * w / d \<le> w" by metis+
qed

section \<open>Properties\<close>

text \<open>C37: Explorer connections. In every state that registrations, clicks, answers, closings and layouts reach, in
  any order, there is exactly one drawn connection from a node to another when the link between them is
  marked visible and none otherwise, each drawn connection joins registered nodes, and the inverse table
  refers to the same link objects as the table of links.\<close>

theorem explorer_connections:
  assumes "ex_reachable e"
  shows "drawn_between e s t = (if shown e s t then 1 else 0)
    \<and> link_at t s (invLinkState e) = link_at s t (linkState e)
    \<and> (\<forall>c \<in> set (conns e). nodeFor (fst c) e \<and> nodeFor (fst (snd c)) e)"
  using ex_reachable_ok[OF assms] by (simp add: ex_ok_def links_ok_def drawn_ok_def linked_def)

definition demo_explorer :: explorer where
  "demo_explorer = addNodeFn True ''a'' (run_call (RegisterLink ''a'' ''b'' ''p'')
     (run_call (RegisterNode ''b'' ''B'') (run_call (RegisterNode ''a'' ''A'') newExplorer)))"

lemmas ex_eval = registerNode_def register_def linksFor_def invLinksFor_def set_link_def dests_of_def touch_row_def
  newExplorer_def nodeFor_def addNodeFn_def visit_link_def showNode_def hideNode_def set_visible_def
  addDirectionalConnections_def addConnection_def js_connect_def mark_def removeConnections_def
  detachAllConnections_def closeNode_def Let_def

lemma demo_nodes: "nodeFor ''a'' (run_call (RegisterLink ''a'' ''b'' ''p'')
     (run_call (RegisterNode ''b'' ''B'') (run_call (RegisterNode ''a'' ''A'') newExplorer)))"
  by (simp add: ex_eval)

lemma demo_explorer_reachable: "ex_reachable demo_explorer"
  unfolding demo_explorer_def by (intro ex_click ex_call ex_new demo_nodes)

lemma demo_explorer_conns: "conns demo_explorer = [(''a'', ''b'', ''p'')]" "nodeFor ''b'' demo_explorer"
  by (simp_all add: demo_explorer_def ex_eval)

theorem explorer_connections_witness: "drawn_between demo_explorer ''a'' ''b'' = 1 \<and> shown demo_explorer ''a'' ''b''"
proof -
  have "drawn_between demo_explorer ''a'' ''b'' = 1" by (simp add: drawn_between_def demo_explorer_conns)
  then show ?thesis
    using conjunct1[OF explorer_connections[OF demo_explorer_reachable, of "''a''" "''b''"]] by (metis zero_neq_one)
qed

text \<open>C38: Explorer closing. Closing a registered node of a reachable state returns, hides it, takes away
  exactly the connections that begin or end at it, and leaves no link of it marked visible, so that the
  node can be opened again.\<close>

theorem explorer_close:
  assumes "ex_reachable e" "nodeFor n e"
  shows "fst (closeNode n e) = None
    \<and> map_option node_visible (map_of (nodeState (snd (closeNode n e))) n) = Some False
    \<and> conns (snd (closeNode n e)) = filter (\<lambda>(s, t, l). s \<noteq> n \<and> t \<noteq> n) (conns e)
    \<and> (\<forall>s t. shown (snd (closeNode n e)) s t \<longleftrightarrow> shown e s t \<and> s \<noteq> n \<and> t \<noteq> n)"
proof -
  note r = removeConnections_ok[OF ex_reachable_ok[OF assms(1)], of n]
  obtain st where st: "map_of (nodeState e) n = Some st" using assms(2) by (auto simp: nodeFor_def)
  then have c: "closeNode n e = (None, (removeConnections n e)\<lparr>nodeState :=
      AList.update n (st\<lparr>node_visible := False\<rparr>) (nodeState (removeConnections n e))\<rparr>)"
    using r by (simp add: closeNode_def hideNode_def set_visible_def)
  have "shown (snd (closeNode n e)) s t = shown (removeConnections n e) s t" for s t
    unfolding c snd_conv shown_def linked_def by (simp split: option.split)
  then show ?thesis using r by (simp add: c update_conv')
qed

theorem explorer_close_witness: "conns (snd (closeNode ''b'' demo_explorer)) = []"
proof -
  show ?thesis using explorer_close[OF demo_explorer_reachable demo_explorer_conns(2)] by (simp add: demo_explorer_conns(1))
qed

text \<open>C40: Explorer layout ends. Every layout that \<open>relayout\<close> starts has stopped after at most 201 frames,
  whatever the random numbers are and however slowly the energy falls.\<close>

theorem explorer_layout_ends:
  "\<not> started (vsim ((view_frame rnd ^^ 201) (new_view rnd w h g)))"
proof -
  have "one_frame (vsim (new_view rnd w h g)) \<and> iter (new_view rnd w h g) = 0"
    by (simp add: new_view_def split_beta Let_def renderer_start_def sim_start_def newRenderer_def newSim_def one_frame_def)
  then show ?thesis using view_frames_count[of "new_view rnd w h g" 201 rnd] by (auto simp: maxIter_def)
qed

text \<open>Explorer coordinates. On a canvas with an area and a box with an area, \<open>fromScreen\<close> is the
  inverse of \<open>toScreen\<close>, the corners of the box are mapped to the corners of the canvas, and every point
  inside the box lands on the canvas.\<close>

theorem explorer_coordinates:
  assumes "0 < vwidth v" "0 < vheight v"
    and "vx (fst (currentBB v)) < vx (snd (currentBB v))" "vy (fst (currentBB v)) < vy (snd (currentBB v))"
  shows "fromScreen v (toScreen v p) = p
    \<and> toScreen v (fst (currentBB v)) = (0, 0) \<and> toScreen v (snd (currentBB v)) = (vwidth v, vheight v)
    \<and> (inside p (currentBB v) \<longrightarrow> 0 \<le> fst (toScreen v p) \<and> fst (toScreen v p) \<le> vwidth v
         \<and> 0 \<le> snd (toScreen v p) \<and> snd (toScreen v p) \<le> vheight v)"
proof -
  have "vector.more p = ()" by simp
  then have p: "p = Vector (vx p) (vy p)" by (simp add: Vector_def)
  have "fromScreen v (toScreen v p) = Vector (vx p) (vy p)"
    using assms by (simp add: fromScreen_def toScreen_def Let_def)
  moreover have "toScreen v (fst (currentBB v)) = (0, 0)" "toScreen v (snd (currentBB v)) = (vwidth v, vheight v)"
    using assms by (simp_all add: toScreen_def Let_def)
  moreover have "0 \<le> fst (toScreen v p) \<and> fst (toScreen v p) \<le> vwidth v
      \<and> 0 \<le> snd (toScreen v p) \<and> snd (toScreen v p) \<le> vheight v" if "inside p (currentBB v)"
    using that assms by (auto simp: inside_def toScreen_def Let_def intro!: scale_bounds)
  ultimately show ?thesis using p by simp
qed

theorem explorer_coordinates_witness:
  "toScreen \<lparr>vsim = newSim demo_layout, iter = 0, currentBB = (Vector 0 0, Vector 2 4), targetBB = (Vector 0 0, Vector 2 4),
     vwidth = 100, vheight = 80, placed = []\<rparr> (Vector 2 4) = (100, 80)"
  using explorer_coordinates[of "\<lparr>vsim = newSim demo_layout, iter = 0, currentBB = (Vector 0 0, Vector 2 4),
     targetBB = (Vector 0 0, Vector 2 4), vwidth = 100, vheight = 80, placed = []\<rparr>"] by simp

end
