(* ===== verification/Explorer_Clones.thy ===== *)
theory Explorer_Clones
  imports Explorer_Laws
begin

text \<open>
  The clones that \<open>relayout\<close> makes of the nodes of the explorer, which outlive their layout: when a layout throws, and
  what an answer that arrives too late has to do with it.
\<close>

section \<open>The clones of a state\<close>

definition clones :: "explorer \<Rightarrow> node set" where
  "clones e = {n. \<exists>st \<in> snd ` set (nodeState e). springyNode st = Some n}"

definition good_node :: "node \<Rightarrow> bool" where
  "good_node n \<longleftrightarrow> id_key (nid n) \<notin> set object_proto"

definition clones_ok :: "explorer \<Rightarrow> bool" where
  "clones_ok e \<longleftrightarrow> (\<forall>n \<in> clones e. good_node n)"

lemma set_update_subset: "set (AList.update k v al) \<subseteq> insert (k, v) (set al)"
  by (induction al) auto

lemma clones_update:
  assumes "springyNode st \<noteq> None \<Longrightarrow> the (springyNode st) \<in> clones e"
    and "nodeState e' = AList.update k st (nodeState e)"
  shows "clones e' \<subseteq> clones e"
proof
  fix n assume "n \<in> clones e'"
  then obtain x where x: "x \<in> set (AList.update k st (nodeState e))" "springyNode (snd x) = Some n"
    by (auto simp: clones_def assms(2))
  from subsetD[OF set_update_subset x(1)] consider "x = (k, st)" | "x \<in> set (nodeState e)" by auto
  then show "n \<in> clones e"
  proof cases
    case 1
    then show ?thesis using assms(1) x(2) by simp
  next
    case 2
    then show ?thesis using x(2) by (auto simp: clones_def)
  qed
qed

lemma clones_register: "clones (register s d name e) = clones e"
  by (simp add: clones_def register_def linksFor_def invLinksFor_def Let_def split: option.split)

lemma clones_run_calls: "clones (fold run_call cs e) \<subseteq> clones e"
proof (induction cs arbitrary: e)
  case (Cons c cs)
  have "clones (registerNode i lab e) \<subseteq> clones e" for i lab
    by (rule clones_update[where st = "\<lparr>node_visible = True, node_label = lab, springyNode = None\<rparr>" and k = i])
      (simp_all add: registerNode_def)
  then have "clones (run_call c e) \<subseteq> clones e" by (cases c) (simp_all add: clones_register)
  with Cons[of "run_call c e"] show ?case by (simp del: run_call.simps)
qed simp

lemma clones_set_visible: "clones (snd (set_visible b n e)) \<subseteq> clones e"
proof (cases "map_of (nodeState e) n")
  case (Some st)
  have "springyNode st \<noteq> None \<Longrightarrow> the (springyNode st) \<in> clones e"
    using map_of_SomeD[OF Some] by (force simp: clones_def)
  then show ?thesis using Some by (intro clones_update[of "st\<lparr>node_visible := b\<rparr>"]) (simp_all add: set_visible_def)
qed (simp add: set_visible_def)

lemma nodeState_connection [simp]: "nodeState (addDirectionalConnections b s t e) = nodeState e"
  by (simp add: addDirectionalConnections_def addConnection_def linksFor_def js_connect_def mark_def Let_def split: option.split)

lemma clones_visit_link: "clones (visit_link b n d e) \<subseteq> clones e"
  using clones_set_visible[of True d e] by (simp add: visit_link_def showNode_def clones_def)

lemma clones_addNodeFn: "clones (addNodeFn b n e) \<subseteq> clones e"
proof -
  have loop: "clones (fold (\<lambda>(d, l). visit_link b n d) ls e) \<subseteq> clones e" for ls :: "nat obj" and e
  proof (induction ls arbitrary: e)
    case (Cons p ls)
    obtain d l where p: "p = (d, l)" by (cases p)
    from Cons[of "visit_link b n d e"] clones_visit_link[of b n d e] show ?case unfolding p by simp
  qed simp
  have "clones (snd (linksFor n e)) = clones e" "clones (snd (invLinksFor n e)) = clones e"
    by (simp_all add: linksFor_def invLinksFor_def clones_def)
  with loop[of "fst (linksFor n e)" "snd (linksFor n e)"] loop[of "fst (invLinksFor n e)" "snd (invLinksFor n e)"]
  show ?thesis by (cases b) (simp_all add: addNodeFn_def case_prod_beta)
qed

lemma clones_response: "clones (snd (response k r calls e)) \<subseteq> clones e"
proof -
  let ?e = "e\<lparr>awaiting := take k (awaiting e) @ drop (Suc k) (awaiting e)\<rparr>"
  have p: "nodeState (snd (randomPlacement r n d x)) = nodeState x" for n d x
    by (simp add: randomPlacement_def Let_def)
  have "nodeState (snd (response k r calls e)) = (if k < length (awaiting e) then nodeState (fold run_call calls ?e) else nodeState e)"
    by (simp add: response_def Let_def p split: prod.split option.split) (metis p snd_conv)
  then have "clones (snd (response k r calls e)) = (if k < length (awaiting e) then clones (fold run_call calls ?e) else clones e)"
    by (simp add: clones_def)
  moreover have "clones ?e = clones e" by (simp add: clones_def)
  ultimately show ?thesis using clones_run_calls[of calls ?e] by simp
qed

lemma clones_closeNode: "clones (snd (closeNode n e)) \<subseteq> clones e"
proof -
  have "nodeState (removeConnections n e) = nodeState e"
    by (simp add: removeConnections_def linksFor_def invLinksFor_def mark_fold_simps detachAllConnections_def Let_def)
  then have "clones (removeConnections n e) = clones e" by (simp add: clones_def)
  with clones_set_visible[of False n "removeConnections n e"] show ?thesis by (simp add: closeNode_def hideNode_def)
qed

section \<open>Making clones\<close>

text \<open>What \<open>clone_nodes\<close> makes of the state of a node.\<close>

definition cloned :: "jstring \<times> nstate \<Rightarrow> jstring \<times> nstate \<Rightarrow> bool" where
  "cloned p q \<longleftrightarrow> fst q = fst p \<and>
     (if node_visible (snd p) then \<exists>n. springyNode (snd q) = Some n \<and> good_node n else snd q = snd p)"

lemma newNode_clone:
  assumes "0 \<le> nextNodeId g" "newNode d g = (n, g')"
  shows "good_node n" "0 \<le> nextNodeId g'"
proof -
  have "n = newNodeObj (NumId (nextNodeId g)) d" "nextNodeId g' = nextNodeId g + 1"
    using assms(2) by (auto simp: newNode_def addNode_def notify_def Let_def)
  then show "good_node n" "0 \<le> nextNodeId g'"
    using assms(1) int_str_not_proto by (simp_all add: good_node_def newNodeObj_def)
qed

lemma clone_nodes_cloned:
  "0 \<le> nextNodeId g \<Longrightarrow> list_all2 cloned xs (fst (clone_nodes xs g))"
proof (induction xs g rule: clone_nodes.induct)
  case (2 i st sts g)
  show ?case
  proof (cases "node_visible st")
    case True
    obtain n g1 where n: "newNode (Some \<lparr>mass = None, label = Some (node_label st)\<rparr>) g = (n, g1)" by fastforce
    from newNode_clone[OF 2(3) n] 2(1)[OF True n[symmetric] refl] True show ?thesis
      by (simp add: n cloned_def split_beta Let_def)
  next
    case False
    with 2(2)[OF False 2(3)] show ?thesis by (simp add: cloned_def split_beta Let_def)
  qed
qed simp

text \<open>A node that a layout can use: visible, or with a clone from an earlier layout.\<close>

definition usable :: "explorer \<Rightarrow> jstring \<Rightarrow> bool" where
  "usable e i \<longleftrightarrow> (\<exists>st. map_of (nodeState e) i = Some st \<and> (node_visible st \<or> springyNode st \<noteq> None))"

lemma cloned_lookup:
  assumes "list_all2 cloned xs ys"
  shows "map_of ys i = None \<longleftrightarrow> map_of xs i = None"
    and "(\<exists>st. map_of xs i = Some st \<and> (node_visible st \<or> springyNode st \<noteq> None)) \<longleftrightarrow>
      (\<exists>st n. map_of ys i = Some st \<and> springyNode st = Some n)"
  using assms by (induction rule: list_all2_induct) (auto simp: cloned_def split: if_splits)

lemma cloned_good:
  assumes "list_all2 cloned xs ys" "\<forall>x \<in> set xs. \<forall>n. springyNode (snd x) = Some n \<longrightarrow> good_node n"
  shows "\<forall>y \<in> set ys. \<forall>n. springyNode (snd y) = Some n \<longrightarrow> good_node n"
  using assms by (induction rule: list_all2_induct) (auto simp: cloned_def split: if_splits)

lemma clones_ok_iff: "clones_ok e \<longleftrightarrow> (\<forall>x \<in> set (nodeState e). \<forall>n. springyNode (snd x) = Some n \<longrightarrow> good_node n)"
  by (fastforce simp: clones_ok_def clones_def)

lemma clones_ok_mono: "clones_ok e \<Longrightarrow> clones e' \<subseteq> clones e \<Longrightarrow> clones_ok e'"
  by (auto simp: clones_ok_def)

lemma newGraph_next: "0 \<le> nextNodeId newGraph"
  by (simp add: newGraph_def)

lemma ex_reachable_clones: "ex_reachable e \<Longrightarrow> clones_ok e"
proof (induction rule: ex_reachable.induct)
  case ex_new
  then show ?case by (simp add: clones_ok_def clones_def newExplorer_def)
next
  case (ex_call e c)
  then show ?case using clones_run_calls[of "[c]" e] by (auto intro: clones_ok_mono)
next
  case (ex_layout e rnd w h)
  then show ?case
    using cloned_good[OF clone_nodes_cloned[OF newGraph_next], of "nodeState e"] by (simp add: clones_ok_iff relayout_state)
next
  case (ex_click e n b)
  then show ?case using clones_ok_mono[OF _ clones_addNodeFn] by blast
next
  case (ex_response e k r calls)
  then show ?case using clones_ok_mono[OF _ clones_response] by blast
next
  case (ex_close e n)
  then show ?case using clones_ok_mono[OF _ clones_closeNode] by blast
qed

section \<open>The links of a layout\<close>

lemma visible_links_shown:
  assumes "ex_ok e"
  shows "(s, t) \<in> set (visible_links e) \<longleftrightarrow> shown e s t"
proof -
  have t: "table_ok (linkState e)" using ex_ok_tables[OF assms] by simp
  then have d: "(s, row) \<in> set (linkState e) \<Longrightarrow> dests_of s (linkState e) = row" for row
    by (simp add: table_ok_def dests_of_def)
  have "(s, t) \<in> set (visible_links e) \<longleftrightarrow>
      (\<exists>row l. (s, row) \<in> set (linkState e) \<and> (t, l) \<in> set row \<and> link_visible (link_store e ! l))"
    by (force simp: visible_links_def)
  also have "\<dots> \<longleftrightarrow> (\<exists>l. (t, l) \<in> set (dests_of s (linkState e)) \<and> link_visible (link_store e ! l))"
  proof
    assume "\<exists>l. (t, l) \<in> set (dests_of s (linkState e)) \<and> link_visible (link_store e ! l)"
    then obtain l where l: "(t, l) \<in> set (dests_of s (linkState e))" "link_visible (link_store e ! l)" by blast
    then obtain row where "map_of (linkState e) s = Some row" by (cases "map_of (linkState e) s") (auto simp: dests_of_def)
    then show "\<exists>row l. (s, row) \<in> set (linkState e) \<and> (t, l) \<in> set row \<and> link_visible (link_store e ! l)"
      using l by (auto simp: dests_of_def dest: map_of_SomeD)
  qed (use d in blast)
  also have "\<dots> \<longleftrightarrow> shown e s t"
    by (auto simp: link_in_dests[OF t] shown_def linked_def split: option.split)
  finally show ?thesis .
qed

lemma clone_edges_spec:
  assumes "\<forall>y \<in> set sts. \<forall>n. springyNode (snd y) = Some n \<longrightarrow> good_node n"
    and "\<forall>(s, t) \<in> set es. map_of sts s \<noteq> None \<and> map_of sts t \<noteq> None"
  shows "fst (clone_edges es sts g) =
    (if \<forall>(s, t) \<in> set es. (\<exists>st n. map_of sts s = Some st \<and> springyNode st = Some n) \<and>
        (\<exists>st n. map_of sts t = Some st \<and> springyNode st = Some n)
     then None else Some (TypeError ''id of undefined''))"
  using assms(2)
proof (induction es arbitrary: g)
  case (Cons x es)
  obtain s t where x: "x = (s, t)" by (cases x)
  then obtain a b where ab: "map_of sts s = Some a" "map_of sts t = Some b" using Cons.prems by auto
  have IH: "fst (clone_edges es sts g') =
      (if \<forall>(s, t) \<in> set es. (\<exists>st n. map_of sts s = Some st \<and> springyNode st = Some n) \<and>
          (\<exists>st n. map_of sts t = Some st \<and> springyNode st = Some n)
       then None else Some (TypeError ''id of undefined''))" for g'
    using Cons by simp
  show ?case
  proof (cases "springyNode a = None \<or> springyNode b = None")
    case True
    then show ?thesis using ab by (auto simp: x spring_node_def split: option.split)
  next
    case False
    then obtain m n where mn: "springyNode a = Some m" "springyNode b = Some n" by auto
    have "good_node m" "good_node n" using assms(1) ab mn by (auto dest!: map_of_SomeD)
    then have "fst (newEdge m n None g) = None"
      unfolding newEdge_def good_node_def by (intro addEdge_returns) (simp_all add: src_key_def tgt_key_def newEdgeObj_def)
    then obtain g' where "newEdge m n None g = (None, g')" by (cases "newEdge m n None g") simp
    then show ?thesis using IH[of g'] ab mn by (simp add: x spring_node_def)
  qed
qed simp

lemma shown_ends:
  assumes "ex_ok e" "shown e s t"
  shows "nodeFor s e" "nodeFor t e"
proof -
  have d: "drawn_between e s t = 1" using assms by (simp add: ex_ok_def drawn_ok_def)
  then have "filter (\<lambda>(a, b, l). a = s \<and> b = t) (conns e) \<noteq> []" by (auto simp: drawn_between_def)
  then obtain l where "(s, t, l) \<in> set (conns e)" by (auto simp: filter_empty_conv)
  then show "nodeFor s e" "nodeFor t e" using assms(1) unfolding ex_ok_def drawn_ok_def by fastforce+
qed

lemma relayout_throws:
  assumes "ex_reachable e"
  shows "snd (relayout rnd w h e) =
    (if \<forall>s t. shown e s t \<longrightarrow> usable e s \<and> usable e t
     then Inr (new_view rnd w h (snd (snd (clone_graph e)))) else Inl (TypeError ''id of undefined''))"
proof -
  note ok = ex_reachable_ok[OF assms]
  let ?sts = "fst (clone_nodes (nodeState e) newGraph)"
  note cl = clone_nodes_cloned[OF newGraph_next, of "nodeState e"]
  have good: "\<forall>y \<in> set ?sts. \<forall>n. springyNode (snd y) = Some n \<longrightarrow> good_node n"
    using cloned_good[OF cl] ex_reachable_clones[OF assms] by (simp add: clones_ok_iff)
  have ends: "\<forall>(s, t) \<in> set (visible_links e). map_of ?sts s \<noteq> None \<and> map_of ?sts t \<noteq> None"
    using shown_ends[OF ok] by (auto simp: visible_links_shown[OF ok] cloned_lookup(1)[OF cl] nodeFor_def)
  have all: "(\<forall>s t. (s, t) \<in> A \<longrightarrow> P s t) \<longleftrightarrow> (\<forall>(s, t) \<in> A. P s t)" for A :: "(jstring \<times> jstring) set" and P
    by auto
  define P where "P \<longleftrightarrow> (\<forall>s t. shown e s t \<longrightarrow> usable e s \<and> usable e t)"
  have "fst (snd (clone_graph e)) = (if P then None else Some (TypeError ''id of undefined''))"
    unfolding P_def usable_def cloned_lookup(2)[OF cl] visible_links_shown[OF ok, symmetric] all
    unfolding clone_edges_spec[OF good ends, of "snd (clone_nodes (nodeState e) newGraph)", symmetric]
    by (simp add: clone_graph_def case_prod_beta Let_def)
  then show ?thesis unfolding P_def[symmetric] by (cases P) (auto simp: relayout_def split: prod.splits option.splits)
qed

section \<open>Late answers\<close>

lemma addConnection_shows:
  assumes "links_ok e" "linked e s t = Some l"
  shows "shown (addConnection s t e) s t"
proof -
  have l: "l < length (link_store e)" "map_of (dests_of s (linkState e)) t = Some l"
    using assms by (auto simp: links_ok_def linked_def link_at_def)
  then show ?thesis
    by (simp add: addConnection_def linksFor_def js_connect_def mark_def shown_def linked_def link_at_def)
qed

text \<open>
  The answer to a request for the target \<open>d\<close> of a link from \<open>n\<close>, with the calls of the script that comes with it: when \<open>n\<close>
  has been closed and was in no layout, the answer returns, and every layout after it throws.
\<close>

lemma late_answer:
  assumes e: "ex_reachable e" and k: "k < length (awaiting e)" "awaiting e ! k = (True, n, d)"
    and e1: "e1 = fold run_call calls (e\<lparr>awaiting := take k (awaiting e) @ drop (Suc k) (awaiting e)\<rparr>)"
    and d: "nodeFor d e1" "linked e1 n d \<noteq> None"
    and n: "map_of (nodeState e1) n = Some st" "\<not> node_visible st" "springyNode st = None"
  shows "fst (response k r calls e) = None"
    and "snd (relayout rnd w h (snd (response k r calls e))) = Inl (TypeError ''id of undefined'')"
proof -
  let ?e3 = "snd (response k r calls e)"
  have nn: "nodeFor n e1" using n(1) by (simp add: nodeFor_def)
  obtain e2 where p: "randomPlacement r n d e1 = (None, e2)" using nn d(1) by (simp add: randomPlacement_def Let_def)
  then have e2: "nodeState e2 = nodeState e1" "linkState e2 = linkState e1" "ex_ok e1 \<Longrightarrow> ex_ok e2"
    using nn d(1) by (auto simp: randomPlacement_def Let_def elim: other_fields_ok)
  have res: "response k r calls e = (None, addConnection n d e2)"
    using k by (simp add: response_def e1[symmetric] p addDirectionalConnections_def)
  then show "fst (response k r calls e) = None" by simp
  have "ex_ok (e\<lparr>awaiting := take k (awaiting e) @ drop (Suc k) (awaiting e)\<rparr>)"
    by (rule other_fields_ok[OF ex_reachable_ok[OF e]]) simp_all
  then have "ex_ok e1" unfolding e1 by (rule run_calls_ok)
  then have "links_ok e2" using e2(3) by (simp add: ex_ok_def)
  moreover obtain l where "linked e2 n d = Some l" using d(2) e2(2) by (auto simp: linked_def)
  ultimately have "shown ?e3 n d" using addConnection_shows res by simp
  moreover have "nodeState ?e3 = nodeState e1"
    using res e2(1) nodeState_connection[of True n d e2] by (simp add: addDirectionalConnections_def)
  then have "\<not> usable ?e3 n" using n by (simp add: usable_def)
  ultimately show "snd (relayout rnd w h ?e3) = Inl (TypeError ''id of undefined'')"
    using relayout_throws[OF ex_response[OF e]] by auto
qed

section \<open>Property\<close>

text \<open>C39: Explorer layouts that throw. In every state that registrations, clicks, answers, closings and layouts
  reach, a layout returns a view exactly when each end of every visible link is a node that is visible now or was in a
  layout since its last registration, whose clone is then used again; otherwise it throws the \<open>TypeError\<close> of an edge
  without a node.  The witness is an answer that arrives after its node was closed and before any layout.\<close>

theorem explorer_layout_throws:
  assumes "ex_reachable e"
  shows "case snd (relayout rnd w h e) of
      Inr v \<Rightarrow> \<forall>s t. shown e s t \<longrightarrow> usable e s \<and> usable e t
    | Inl x \<Rightarrow> x = TypeError ''id of undefined'' \<and> (\<exists>s t. shown e s t \<and> (\<not> usable e s \<or> \<not> usable e t))"
  using relayout_throws[OF assms, of rnd w h] by (auto split: if_splits)

definition opened_a :: explorer where
  "opened_a = run_call (RegisterLink ''a'' ''b'' ''p'') (run_call (RegisterNode ''a'' ''A'') newExplorer)"

definition early_close :: explorer where
  "early_close = snd (closeNode ''a'' (addNodeFn True ''a'' opened_a))"

definition late_answer_state :: explorer where
  "late_answer_state = snd (response 0 0 [RegisterNode ''b'' ''B''] early_close)"

lemma late_answer_reachable: "ex_reachable late_answer_state"
  unfolding late_answer_state_def early_close_def opened_a_def
  by (intro ex_response ex_close ex_click ex_call ex_new) (simp add: ex_eval)

theorem explorer_layout_throws_witness:
  "snd (relayout (\<lambda>i. 0) 800 600 late_answer_state) = Inl (TypeError ''id of undefined'')"
proof -
  have "shown late_answer_state ''a'' ''b''" "\<not> usable late_answer_state ''a''"
    by (simp_all add: late_answer_state_def early_close_def opened_a_def response_def randomPlacement_def shown_def
        linked_def link_at_def usable_def ex_eval)
  then show ?thesis
    using explorer_layout_throws[OF late_answer_reachable, of "\<lambda>i. 0" 800 600] by (auto split: sum.splits)
qed

end
