(* ===== verification/Ui.thy ===== *)
theory Ui
  imports Js_Numbers
begin

text \<open>
  The page actions of \<open>ui.js\<close>: query forms, tabs that load their content, forms sent by Ajax, and the
  table editor with its new rows, its Turtle output and its request.

  The page is the part of it that the actions read and write; the bodies of requests and the texts of
  rows are strings. The editable widgets of the rows are not modelled.
\<close>

section \<open>Regular expressions\<close>

definition has_prefix :: "jstring \<Rightarrow> jstring \<Rightarrow> bool" where
  "has_prefix p s \<longleftrightarrow> take (length p) s = p"

text \<open>\<open>/^https?:/\<close>\<close>

definition is_http :: "jstring \<Rightarrow> bool" where
  "is_http s \<longleftrightarrow> has_prefix ''http:'' s \<or> has_prefix ''https:'' s"

text \<open>\<open>/^[+-]?[0-9]*(\.[0-9]+)?$/\<close>\<close>

definition drop_sign :: "jstring \<Rightarrow> jstring" where
  "drop_sign s = (if s \<noteq> [] \<and> hd s \<in> set ''+-'' then tl s else s)"

definition is_number :: "jstring \<Rightarrow> bool" where
  "is_number s \<longleftrightarrow>
     (let r = dropWhile is_digit (drop_sign s)
      in r = [] \<or> (hd r = CHR ''.'' \<and> tl r \<noteq> [] \<and> list_all is_digit (tl r)))"

text \<open>\<open>/^[a-zA-Z][\w\d\.]*:[\w\d\.:]*$/\<close>\<close>

definition is_prefixed :: "jstring \<Rightarrow> bool" where
  "is_prefixed s \<longleftrightarrow> s \<noteq> [] \<and> is_alpha (hd s)
     \<and> (let r = dropWhile (\<lambda>c. re_word c \<or> c = CHR ''.'') (tl s)
        in r \<noteq> [] \<and> hd r = CHR '':'' \<and> list_all (\<lambda>c. re_word c \<or> c = CHR ''.'' \<or> c = CHR '':'') (tl r))"

section \<open>Writing Turtle\<close>

definition triple_quote :: jstring where "triple_quote = replicate 3 (CHR 0x22)"

definition emit :: "jstring \<Rightarrow> jstring" where
  "emit valin =
     (let val = js_trim valin in
      if val \<noteq> [] \<and> hd val \<in> {CHR ''['', CHR ''<'', CHR 0x22, CHR 0x27} then val
      else if is_http val then ''<'' @ val @ ''>''
      else if is_number val then val
      else if is_prefixed val then val
      else triple_quote @ val @ triple_quote)"

section \<open>The table editor\<close>

record edit_table =
  prefix_text :: jstring
  data_target :: jstring
  data_root :: jstring
  rows :: "(jstring \<times> jstring) list"

record ajax =
  ajax_type :: jstring
  ajax_url :: jstring
  ajax_data :: jstring

definition row_line :: "jstring \<times> jstring \<Rightarrow> jstring" where
  "row_line r = ''    '' @ emit (fst r) @ '' '' @ emit (snd r) @ '' ;'' @ [CHR 0x0A]"

definition save_data :: "edit_table \<Rightarrow> jstring" where
  "save_data t =
     fold (\<lambda>r d. d @ row_line r) (rows t)
       (prefix_text t @ [CHR 0x0A] @ ''<'' @ data_root t @ ''>'' @ [CHR 0x0A])"

text \<open>The attribute \<open>data-isitem\<close> may be missing; an empty one counts as missing.\<close>

definition save_request :: "jstring option \<Rightarrow> edit_table \<Rightarrow> ajax" where
  "save_request isItem t =
     (let item = (case isItem of None \<Rightarrow> False | Some s \<Rightarrow> s \<noteq> [] \<and> map to_lower s = ''true'')
      in \<lparr>ajax_type = (if item then ''PATCH'' else ''PUT''), ajax_url = data_target t, ajax_data = save_data t\<rparr>)"

definition makeEditCell :: "jstring \<Rightarrow> jstring \<Rightarrow> jstring" where
  "makeEditCell name val =
     (let q = [CHR 0x22] in
      ''<td><a href='' @ q @ ''#'' @ q @ '' class='' @ q @ ''ui-editable'' @ q @ '' data-type='' @ q @ ''text'' @ q
        @ '' data-inputclass='' @ q @ ''input-large'' @ q @ '' data-name='' @ q @ name @ q @ ''>'' @ val @ ''</a></td>'')"

text \<open>\<open>row.replace(/\$id/g, id)\<close> for an id without dollar signs.\<close>

fun replace_id :: "jstring \<Rightarrow> jstring \<Rightarrow> jstring" where
  "replace_id i [] = []"
| "replace_id i (a # s) =
     (case s of
        b # c # s' \<Rightarrow> if [a, b, c] = ''$id'' then i @ replace_id i s' else a # replace_id i s
      | _ \<Rightarrow> a # replace_id i s)"

definition makeEditRow :: "jstring \<Rightarrow> jstring \<Rightarrow> jstring \<Rightarrow> jstring" where
  "makeEditRow i prop val =
     (let q = [CHR 0x22] in
      replace_id i
        (''<tr id='' @ q @ ''$id'' @ q @ ''>'' @ makeEditCell ''prop'' prop @ makeEditCell prop val
          @ ''<td><a class='' @ q @ ''edit-remove-row'' @ q @ ''><i data-target='' @ q @ ''#$id'' @ q @ ''  class='' @ q
          @ ''icon-minus-sign'' @ q @ ''></i></a>   '' @ [CHR 0x0A]
          @ ''<a class='' @ q @ ''edit-add-row'' @ q @ ''><i data-target='' @ q @ ''#$id'' @ q @ ''  class='' @ q
          @ ''icon-plus-sign'' @ q @ ''></i></a></td></tr>''))"

text \<open>The rows of the page in order, by their ids, with their text; and the counter \<open>idcount\<close>.\<close>

record row_page =
  page_rows :: "(jstring \<times> jstring) list"
  idcount :: nat

definition first_page :: "(jstring \<times> jstring) list \<Rightarrow> row_page" where
  "first_page rs = \<lparr>page_rows = rs, idcount = 1\<rparr>"

text \<open>\<open>installEditRow\<close> puts the new row behind the given one; its value is not used.\<close>

fun insert_after :: "jstring \<Rightarrow> jstring \<times> jstring \<Rightarrow> (jstring \<times> jstring) list \<Rightarrow> (jstring \<times> jstring) list" where
  "insert_after i r [] = []"
| "insert_after i r ((j, s) # rs) = (if j = i then (j, s) # r # rs else (j, s) # insert_after i r rs)"

definition installEditRow :: "jstring \<Rightarrow> jstring \<Rightarrow> jstring \<Rightarrow> jstring \<Rightarrow> row_page \<Rightarrow> row_page" where
  "installEditRow pos i prop val p =
     p\<lparr>page_rows := insert_after pos (i, makeEditRow i prop []) (page_rows p)\<rparr>"

definition editRemoveAction :: "jstring \<Rightarrow> row_page \<Rightarrow> row_page" where
  "editRemoveAction i p = p\<lparr>page_rows := filter (\<lambda>r. fst r \<noteq> i) (page_rows p)\<rparr>"

definition new_row_id :: "jstring \<Rightarrow> nat \<Rightarrow> jstring" where
  "new_row_id row n = row @ nat_digits n"

definition editAddAction :: "jstring \<Rightarrow> jstring \<Rightarrow> row_page \<Rightarrow> row_page" where
  "editAddAction row prop p =
     installEditRow row (new_row_id row (idcount p)) prop [CHR 0x22, CHR 0x22] (p\<lparr>idcount := idcount p + 1\<rparr>)"

definition new_table_row_id :: "jstring \<Rightarrow> nat \<Rightarrow> jstring" where
  "new_table_row_id tableid n =
     (if has_prefix ''#'' tableid then tl tableid else tableid) @ ''-newrow-'' @ nat_digits n"

definition editAddNewAction :: "jstring \<Rightarrow> row_page \<Rightarrow> row_page" where
  "editAddNewAction tableid p =
     (case rev (page_rows p) of
        [] \<Rightarrow> p\<lparr>idcount := idcount p + 1\<rparr>
      | r # _ \<Rightarrow> installEditRow (fst r) (new_table_row_id tableid (idcount p)) [] [] (p\<lparr>idcount := idcount p + 1\<rparr>))"

section \<open>Forms and tabs\<close>

text \<open>
  A query form with the submit handlers that were bound to it so far. Every handler loads the result,
  and each load of a tab binds one more handler to every form of the page.
\<close>

record query_form =
  form_target :: jstring
  form_result :: jstring
  handlers :: nat

record ui_page =
  forms :: "query_form list"
  loads :: "(jstring \<times> jstring) list"
  location :: jstring
  error_html :: jstring

definition processQueryForms :: "ui_page \<Rightarrow> ui_page" where
  "processQueryForms u = u\<lparr>forms := map (\<lambda>f. f\<lparr>handlers := handlers f + 1\<rparr>) (forms u)\<rparr>"

definition submit_form :: "nat \<Rightarrow> jstring \<Rightarrow> ui_page \<Rightarrow> ui_page" where
  "submit_form i val u =
     (if i < length (forms u)
      then u\<lparr>loads := loads u @ replicate (handlers (forms u ! i))
                        (form_result (forms u ! i), form_target (forms u ! i) @ val)\<rparr>
      else u)"

text \<open>\<open>e.target.toString().match(/#.+/gi)[0]\<close>: from a hash sign with something behind it to the line end.\<close>

definition is_terminator :: "char \<Rightarrow> bool" where
  "is_terminator c \<longleftrightarrow> c = CHR 0x0A \<or> c = CHR 0x0D"

fun content_id :: "jstring \<Rightarrow> jstring option" where
  "content_id [] = None"
| "content_id (c # s) =
     (if c = CHR ''#'' \<and> s \<noteq> [] \<and> \<not> is_terminator (hd s) then Some (c # takeWhile (\<lambda>x. \<not> is_terminator x) s)
      else content_id s)"

definition tab_url :: "jstring \<Rightarrow> jstring option \<Rightarrow> jstring option \<Rightarrow> jstring" where
  "tab_url action uri args =
     (let url = ''/ui/'' @ action @ ''?uri='' @ (case uri of Some u \<Rightarrow> u | None \<Rightarrow> ''undefined'')
      in case args of Some a \<Rightarrow> if a \<noteq> [] then url @ ''&'' @ a else url | None \<Rightarrow> url)"

text \<open>
  Showing a tab whose content element has the given attributes; None when the link has no content id,
  which is an exception. The callback of the load is \<open>tab_loaded\<close>.
\<close>

definition show_tab :: "jstring \<Rightarrow> jstring option \<Rightarrow> jstring option \<Rightarrow> jstring option \<Rightarrow> ui_page \<Rightarrow> ui_page option" where
  "show_tab href action uri args u =
     (case content_id href of
        None \<Rightarrow> None
      | Some cid \<Rightarrow>
          (case action of
             None \<Rightarrow> Some u
           | Some a \<Rightarrow> if a = [] then Some u else Some (u\<lparr>loads := loads u @ [(cid, tab_url a uri args)]\<rparr>)))"

definition tab_loaded :: "query_form list \<Rightarrow> ui_page \<Rightarrow> ui_page" where
  "tab_loaded new u = processQueryForms (u\<lparr>forms := forms u @ new\<rparr>)"

definition ajax_form_success :: "jstring option \<Rightarrow> ui_page \<Rightarrow> ui_page" where
  "ajax_form_success returnURL u =
     (case returnURL of Some r \<Rightarrow> if r \<noteq> [] then u\<lparr>location := r\<rparr> else u | None \<Rightarrow> u)"

definition ajax_form_error :: "jstring \<Rightarrow> jstring \<Rightarrow> ui_page \<Rightarrow> ui_page" where
  "ajax_form_error err responseText u =
     u\<lparr>error_html := ''<div class='alert'> <button type='button' class='close' data-dismiss='alert'>&times;</button>''
        @ ''Action failed: '' @ err @ '' - '' @ responseText @ ''</div>''\<rparr>"

section \<open>What Turtle the editor writes\<close>

lemma js_trim_ends: "js_trim s \<noteq> [] \<Longrightarrow> \<not> re_space (hd (js_trim s)) \<and> \<not> re_space (last (js_trim s))"
proof -
  assume ne: "js_trim s \<noteq> []"
  define a where "a = dropWhile re_space s"
  define b where "b = dropWhile re_space (rev a)"
  have t: "js_trim s = rev b" by (simp add: js_trim_def a_def b_def)
  have b: "b \<noteq> []" using ne t by simp
  have "\<not> re_space (hd b)" using b unfolding b_def by (rule hd_dropWhile)
  moreover have "\<not> re_space (hd (rev b))"
  proof -
    obtain p where "rev a = p @ b" unfolding b_def by (metis takeWhile_dropWhile_id)
    then have "a = rev b @ rev p" by (metis rev_append rev_rev_ident)
    then have "hd (rev b) = hd a" "a \<noteq> []" using b by auto
    then show ?thesis unfolding a_def by (metis hd_dropWhile)
  qed
  ultimately show ?thesis using b by (simp add: t last_rev)
qed

lemma js_trim_id: "s = [] \<or> (\<not> re_space (hd s) \<and> \<not> re_space (last s)) \<Longrightarrow> js_trim s = s"
proof (cases s rule: rev_cases)
  case (snoc t x)
  assume "s = [] \<or> (\<not> re_space (hd s) \<and> \<not> re_space (last s))"
  then have *: "\<not> re_space (hd s)" "\<not> re_space x" using snoc by auto
  then have "dropWhile re_space s = s" by (cases s) simp_all
  then show ?thesis using snoc * by (simp add: js_trim_def)
qed (simp add: js_trim_def)

lemma js_trim_trim: "js_trim (js_trim s) = js_trim s"
  using js_trim_ends[of s] by (intro js_trim_id) blast

lemma delimiters: "\<not> re_space (CHR ''<'')" "\<not> re_space (CHR ''>'')" "\<not> re_space (CHR 0x22)"
  by (simp_all add: re_space_def code_def)

text \<open>Turtle terms. Emitting is idempotent: a term that the editor wrote, edited and saved again, is
  not quoted a second time. The term is the trimmed input, the input as an IRI, or the input as a long
  string; and the empty input is emitted as nothing at all, because the pattern of numbers matches it.\<close>

theorem ui_emit:
  "emit (emit v) = emit v
    \<and> (emit v = js_trim v \<or> emit v = ''<'' @ js_trim v @ ''>'' \<or> emit v = triple_quote @ js_trim v @ triple_quote)
    \<and> (emit v = [] \<longleftrightarrow> js_trim v = [])"
proof -
  have q: "triple_quote = [CHR 0x22, CHR 0x22, CHR 0x22]" by (simp add: triple_quote_def numeral_3_eq_3)
  have t1: "js_trim (''<'' @ s @ ''>'') = ''<'' @ s @ ''>''" for s
    using delimiters by (intro js_trim_id) auto
  have t2: "js_trim (triple_quote @ s @ triple_quote) = triple_quote @ s @ triple_quote" for s
    using delimiters by (intro js_trim_id) (auto simp: q)
  have e1: "emit (''<'' @ s @ ''>'') = ''<'' @ s @ ''>''" for s
    unfolding emit_def t1 by simp
  have e2: "emit (triple_quote @ s @ triple_quote) = triple_quote @ s @ triple_quote" for s
    unfolding emit_def t2 by (simp add: q)
  have e0: "emit (js_trim v) = emit v" by (simp add: emit_def js_trim_trim)
  have shape: "emit v = js_trim v \<or> emit v = ''<'' @ js_trim v @ ''>'' \<or> emit v = triple_quote @ js_trim v @ triple_quote"
    unfolding emit_def Let_def by simp
  have "emit [] = []" by (simp add: emit_def js_trim_def is_http_def has_prefix_def is_number_def drop_sign_def)
  then have "js_trim v = [] \<Longrightarrow> emit v = []" using e0 by simp
  moreover have "js_trim v \<noteq> [] \<Longrightarrow> emit v \<noteq> []" using shape by auto
  moreover have "emit (emit v) = emit v" using shape e0 e1 e2 by metis
  ultimately show ?thesis using shape by blast
qed

text \<open>Row ids. The ids of rows added to a table are distinct, but a row added behind an existing one
  takes the id of that row with the counter behind it: two such rows can get the same id, and removing
  one of them removes both.\<close>

theorem ui_row_ids:
  "(new_table_row_id t m = new_table_row_id t n \<longleftrightarrow> m = n)
    \<and> new_row_id ''r1'' 1 = new_row_id ''r'' 11
    \<and> page_rows (editRemoveAction ''r11'' (p\<lparr>page_rows := [(new_row_id ''r1'' 1, a), (new_row_id ''r'' 11, b)]\<rparr>)) = []"
proof -
  have "nat_digits m = nat_digits n \<longleftrightarrow> m = n" by (metis digits_nat_digits)
  moreover have "nat_digits 1 = ''1''" "nat_digits 11 = ''11''" by code_simp+
  ultimately show ?thesis by (simp add: new_table_row_id_def new_row_id_def editRemoveAction_def)
qed

text \<open>After \<open>n\<close> tabs every form of the page has \<open>n\<close> handlers too many: one submission loads \<open>n + 1\<close> times.\<close>

lemma ui_form_handlers:
  assumes "i < length (forms u)"
  shows "handlers (forms ((tab_loaded [] ^^ n) (processQueryForms u)) ! i) = handlers (forms u ! i) + n + 1"
proof -
  have "length (forms ((tab_loaded [] ^^ n) (processQueryForms u))) = length (forms u)
    \<and> handlers (forms ((tab_loaded [] ^^ n) (processQueryForms u)) ! i) = handlers (forms u ! i) + n + 1"
    using assms by (induction n) (auto simp: tab_loaded_def processQueryForms_def)
  then show ?thesis by simp
qed

end
