(* ===== verification/Spec2Isabelle.thy ===== *)
theory Spec2Isabelle
  imports CM_Content_Laws CM_Motion_Laws CM_Keys_Laws CM_Marking_Laws CM_Page_Laws CM_Registry CM_Embed
    Springy_Loop Qonsole_Laws Explorer_Clones Ui
begin

text \<open>
  The scripts of the registry's user interface (\<open>src/src/main/webapp/ui/js\<close>), as Isabelle definitions, with the
  theorems that make them correct.

  The program.  The pages of the linked data registry load five scripts that are modelled here: \<open>qonsole.js\<close> (the SPARQL console: prefixes, example queries, running a query, showing
  its result), \<open>ds-explore.js\<close> (a graph of data sets that grows by clicks and lays itself out), \<open>ui.js\<close> (forms,
  tabs, editable rows, Turtle output), \<open>springy.js\<close> (the force directed layout that the explorer runs) and
  \<open>sprintf-0.7-beta1.js\<close> (the strings that the console shows).  The console edits its query in \<open>codemirror.js\<close>
  with the mode \<open>sparql.js\<close>; the editor is by far the largest part.

  How the model reads.  A function of the code is a function of the same name; the variables of a closure are a
  record that the function takes and returns (\<open>editor\<close>, \<open>display\<close>, \<open>session\<close>, \<open>graph\<close>, \<open>layout\<close>, \<open>sim\<close>,
  \<open>console\<close>, \<open>explorer\<close>); an exception (a \<open>TypeError\<close> of \<open>undefined\<close>) is \<open>None\<close> or an error value; objects that are
  shared and mutated (lines, marks, the contexts of the SPARQL mode) have an identity and live in a store or a
  tree that is searched by it.  Strings are lists of characters.  What the browser answers (widths, offsets, the
  clock, random numbers, \<open>JSON.parse\<close>, the plug-ins) is an argument.  Numbers are \<open>int\<close>, \<open>nat\<close> or, for forces,
  \<open>real\<close>: the indices of the code stay far below the bound where a double is no longer an exact integer, and
  rounding of the forces is not modelled.

  Prelude.
    \<^item> \<open>Js_Prelude\<close>, \<open>Js_Numbers\<close>: string slices, splitting and joining, character classes, decimal digits; the
      collection \<open>js_simps\<close>.
    \<^item> \<open>Js_Regexp\<close>: regular expressions that are made at run time, with their parser and its syntax errors.
    \<^item> \<open>Line_Store\<close>: the interface \<open>line_store\<close> between the document and its users, a sequence with insertion,
      removal and access; \<open>CM_Chunks_Laws\<close> interprets it on the tree of \<open>codemirror.js\<close>.

  The editor (\<open>codemirror.js\<close>).
    \<^item> \<open>CM_Line\<close>, \<open>CM_Marks\<close>: \<open>Line\<close>, \<open>TextMarker\<close>, history lines, and what an edit does to the marks of a line
      (\<open>updateMarkedSpans\<close> and its helpers).
    \<^item> \<open>CM_Chunks\<close>, \<open>CM_Chunks_Laws\<close>: \<open>LeafChunk\<close> and \<open>BranchChunk\<close>, with splitting, collapsing, the cached sizes and
      heights, and the search by number, by height and for the number of a line.  The abstraction is the list of
      lines; every operation is shown to do to it what its name says and to keep the caches and bounds.
    \<^item> \<open>CM_Stream\<close>, \<open>CM_Mode\<close>, \<open>CM_Sparql\<close>, \<open>CM_Highlight\<close>: \<open>StringStream\<close>, the loops that run a mode over a line
      (\<open>highlight\<close>, \<open>process\<close>, \<open>getTokenAt\<close>), the SPARQL mode, and the worker that highlights in the background.
      The locale \<open>cm_mode\<close> says what a mode must do (move the stream forward); the SPARQL mode interprets it.
    \<^item> \<open>CM_History\<close>, \<open>CM_Undo\<close>: \<open>History\<close> with the merging of changes, undo and redo on lists of lines, and the proof
      that undo and redo of the editor are those (\<open>abs_ed\<close>).
    \<^item> \<open>CM_Editor\<close>, \<open>CM_Edits\<close>, \<open>CM_Edits_Laws\<close>, \<open>CM_Text\<close>: positions, clipping, reading, \<open>updateLinesNoUndo\<close> with
      its five cases, selection, hidden lines, \<open>setValue\<close>, \<open>replaceRange\<close>, \<open>replaceSelection\<close>; each case is shown to be
      one splice of the list of lines (\<open>text_edit\<close>), and \<open>ed_ok\<close> to be kept.
    \<^item> \<open>CM_Api\<close>, \<open>CM_Split\<close>, \<open>CM_Instance\<close>, \<open>CM_Demo\<close>: offsets into the flat text, \<open>splitLines\<close> in both variants, the
      start of an editor, the edits a page may call (\<open>run_api\<close>), the editors that they reach (\<open>reachable\<close>), and an
      editor for examples.
    \<^item> \<open>CM_Content\<close>, \<open>CM_Coords\<close>, \<open>CM_Display\<close> and their laws: the nodes of a line, positions on the screen and back,
      scrolling, the selection, and \<open>updateDisplay\<close> with the rows it keeps, kills and makes.
    \<^item> \<open>CM_Motion\<close>, \<open>CM_Keys\<close> and their laws: motion, deletion, indentation, commands, key maps and their lookup.
    \<^item> \<open>CM_Marking\<close> and its laws: \<open>markText\<close>, bookmarks, \<open>find\<close> and \<open>clear\<close>, gutter markers, line classes, brackets.
    \<^item> \<open>CM_Operation\<close>, \<open>CM_Mouse\<close>, \<open>CM_Interface\<close>, \<open>CM_Context\<close>, \<open>CM_Interface_Laws\<close>: operations and what their end does
      to the display, the hidden input and its polling, timers, focus, key and mouse events, drag and drop, the
      context menu, and the remaining methods of the instance.
    \<^item> \<open>CM_Change_Log\<close>, \<open>CM_Session_Laws\<close>: all of these together.  Every call is shown to write into \<open>changes\<close> enough for
      the display to know which rows it may keep (\<open>follows\<close>), and \<open>operation\<close> around any steps that do so
      (\<open>advances\<close>), or \<open>readInput\<close>, to return and to leave a screen that shows the document (\<open>session_ok\<close>).  The
      browser must measure rows with heights of at least 0 and render a line whatever its height and the parser
      state kept on it (\<open>browser_ok\<close>); the window must have a width and be at least as high as its padding
      (\<open>geometry\<close>).
    \<^item> \<open>CM_Events\<close>, \<open>CM_Command_Laws\<close>, \<open>CM_Event_Laws\<close>, \<open>CM_Page_Laws\<close>: the page.  \<open>run_event\<close> runs one event, as the
      constructor connects it, \<open>visited\<close> are the pages that events lead to.  Every command, every key that is bound to
      commands (\<open>keyboard_ok\<close>), every handler of the mouse, every timer and every run of the highlighter is shown to be
      such a step, so that the screen shows the document after any sequence of admitted events, in an editable editor
      in the SPARQL mode.  The conditions on the events are \<open>event_ok\<close>: some are what the page and the browser are relied
      on for, the others leave out where the code computes outside the text or throws (the bracket matcher on lines without styles,
      an input that lost more than the line has in front of the cursor, a selection by mouse whose start was removed).
    \<^item> \<open>CM_Embed\<close>: editors in place of the text areas of a form, with what the form sends, options, extensions of the
      instance, and the caches of character sizes.
    \<^item> \<open>CM_Registry\<close>: modes, MIME types, extensions.

  The other scripts.
    \<^item> \<open>Sprintf\<close>, \<open>Sprintf_Laws\<close>: the parser of formats, with its cache, and the formatter.
    \<^item> \<open>Qonsole\<close>, \<open>Qonsole_Laws\<close>: the console on top of an editor; the locale \<open>text_box\<close> is what it needs of one (what
      was set is what is read), interpreted on \<open>getValue\<close> and \<open>setValue\<close>.  A prefix goes into a pattern unescaped: it
      may be a syntax error, or not find its own declaration; the round trip is for prefixes of plain characters.
    \<^item> \<open>Springy_Graph\<close>, \<open>Springy_Layout\<close>, their laws, and \<open>Springy_Loop\<close>: the graph with its adjacency table (the
      locale \<open>edge_index\<close>), points, springs and forces, and the loop of animation frames as a step relation.
    \<^item> \<open>Explorer\<close>, \<open>Explorer_Laws\<close>: nodes, links, requests on their way and their answers in any order, drawn
      connections, and the layout through Springy; \<open>ex_reachable\<close> are the states that any order of events reaches, layouts
      among them.
    \<^item> \<open>Explorer_Clones\<close>: the clones that nodes keep from their layouts, and exactly when a layout throws.
    \<^item> \<open>Ui\<close>: Turtle terms, ids of rows, tabs and forms.

  What is shown.  For the editor: every edit of a reachable editor returns and keeps the invariants of document and
  selection; edits, typing and dropping of files have exactly their effect on the text; undo, redo and saved
  histories refine the abstract history; marks follow the text and are found where they were put; the screen
  shows the document after every admitted event; reading and writing of text, index and position are inverse; highlighting ends and agrees
  with the plain parse; motion, coordinates, key lookup and mode lookup meet their specifications.  For the other
  scripts: the adjacency table is an index of the edges, forces balance, one frame is in flight, formats are read
  back, plain prefixes are inserted and removed without trace, a configuration fills the page, connections are the visible links; and where the code
  goes wrong, the theorem states what it does.

  Bounds and fuel.  Loops on a shrinking argument are recursive functions with their measure.  A loop that the
  code does not bound takes fuel, and \<open>None\<close> is what it is without enough of it: the loops of \<open>CM_Mode\<close> over a line
  (a mode that does not move the stream would not end; the fuel is the length of the line, which is enough by the
  law of \<open>cm_mode\<close>), the loop of \<open>getContent\<close> over marks (the length of the line, one character at least for each
  round), the doubling of \<open>coordsChar\<close> (the length of the line, enough when the first guess is positive), and
  the lookup of keys (the depth of fall-through, at most the number of key maps when it is not cyclic).
  \<open>getMode\<close> is a \<open>partial_function\<close> into \<open>option\<close>; it ends because plain text resolves to a mode.  Theorems about
  these state that there is a result.

  Not modelled.  jQuery, Bootstrap, jsPlumb, \<open>jquery.form.js\<close> and the minified plug-ins are third-party libraries that
  the pages load unchanged; the scripts of the registry only call them, and their calls are arguments or, where
  the script reads back what they did, a reduced state (the list of connections of jsPlumb, the fields of a
  page).  Of \<open>codemirror.js\<close>: the construction of elements, feature tests and work-arounds for old
  browsers, class names and the blinking cursor; as events of a page, the
  highlighting of brackets with its timers, dropped files (\<open>files_loaded\<close> has them as steps of their own), and the
  handlers that only stop what the browser would do.  The Java server of the repository is in another language.
\<close>

section \<open>Properties of the text editor\<close>

lemma api_ok_ordered:
  "undo_ok ed \<Longrightarrow> api_ok (ReplaceRange v f t) ed \<longleftrightarrow>
     clip_text (texts ed) (pline f) (Some (pch f)) \<le> clip_text (texts ed) (pline t) (Some (pch t))"
  by (simp add: clipPos_text [OF undo_okD(2,3)])

text \<open>
  C1: In an editor that any sequence of edits, selections, undos and redos can reach, the next such call
  returns (no line is missing, no \<open>TypeError\<close>), the document tree keeps its invariant, and the selection
  is an ordered pair of positions of the text.
\<close>

theorem editor_calls_return:
  assumes "reachable ed" and "api_ok a ed"
  shows "\<exists>ed'. run_api a ed = Some ed' \<and> reachable ed' \<and> doc_ok (doc ed') \<and>
     pos_ok (texts ed') (sel_from ed') \<and> pos_ok (texts ed') (sel_to ed') \<and> sel_from ed' \<le> sel_to ed'"
proof -
  obtain ed' where e: "run_api a ed = Some ed'" "undo_ok ed'"
    using run_api_total [OF reachable_undo_ok [OF assms(1)] assms(2)] by blast
  show ?thesis
    using e reach_step [OF assms e(1)] ed_okD [OF undo_okD(1) [OF e(2)]] by auto
qed

theorem editor_calls_return_witness:
  "\<exists>ed'. run_api (ReplaceRange ''x'' (Pos 0 1) (Pos 0 2)) (demo_editor ''abc'') = Some ed' \<and> reachable ed'"
proof -
  have "api_ok (ReplaceRange ''x'' (Pos 0 1) (Pos 0 2)) (demo_editor ''abc'')"
    unfolding api_ok_ordered [OF reachable_undo_ok [OF demo_reachable]] demo_texts
    by (simp add: clip_text_def pos_le_iff)
  from editor_calls_return [OF demo_reachable this] show ?thesis by blast
qed

text \<open>
  C3: Typing: \<open>replaceSelection(code, "end")\<close> replaces exactly the selected stretch of the text by the
  code, its line ends normalised, and puts the cursor behind it.
\<close>

theorem replace_selection_text:
  assumes "reachable ed"
  defines "i \<equiv> offset (texts ed) (sel_from ed)" and "j \<equiv> offset (texts ed) (sel_to ed)"
  shows "\<exists>ed'. replaceSelection v CollapseEnd ed = Some ed' \<and>
     getValue ed' [nl] = take i (getValue ed [nl]) @ norm_nl v @ drop j (getValue ed [nl]) \<and>
     sel_from ed' = sel_to ed' \<and> indexFromPos ed' (pline (sel_to ed')) (pch (sel_to ed')) = int i + int (length (norm_nl v))"
proof -
  note ok = reachable_undo_ok [OF assms(1)]
  obtain ed' where e: "replaceSelection v CollapseEnd ed = Some ed'" "undo_ok ed'"
      "flat (texts ed') = take i (flat (texts ed)) @ norm_nl v @ drop j (flat (texts ed))"
      "sel_from ed' = sel_to ed'" "offset (texts ed') (sel_to ed') = i + length (norm_nl v)"
    using replaceSelection_ok [OF ok, of v] unfolding i_def j_def by blast
  note d = undo_okD(2) [OF ok] undo_okD(2) [OF e(2)] ed_okD(7) [OF undo_okD(1) [OF e(2)]]
  show ?thesis
    using e d indexFromPos_offset [OF d(2,3)] by (auto simp: getValue_texts flat_def)
qed

theorem replace_selection_text_witness:
  "\<exists>ed'. replaceSelection ''x'' CollapseEnd (demo_editor ''abc'') = Some ed' \<and> sel_from ed' = sel_to ed'"
  using replace_selection_text [OF demo_reachable [of "''abc''"], of "''x''"] by blast

text \<open>
  C5: Undo and redo return in every reachable editor, do to the text and the history what the abstract
  history does, and cancel each other when there is something to undo.
\<close>

theorem undo_redo_inverse:
  assumes "reachable ed" and "fst (historySize (the (history ed))) > 0"
  shows "\<exists>ed1 ed2. undo ed = Some ed1 \<and> abs_ed ed1 = undo_lines (abs_ed ed) \<and>
     redo ed1 = Some ed2 \<and> abs_ed ed2 = abs_ed ed"
proof -
  note ok = reachable_undo_ok [OF assms(1)]
  obtain ed1 where u: "undo ed = Some ed1" "undo_ok ed1" "abs_ed ed1 = undo_lines (abs_ed ed)"
    using undo_refines [OF ok] by blast
  obtain ed2 where r: "redo ed1 = Some ed2" "abs_ed ed2 = redo_lines (abs_ed ed1)"
    using redo_refines [OF u(2)] by blast
  have "hist_ok (fst (abs_ed ed), snd (abs_ed ed))" "hdone (fst (abs_ed ed)) \<noteq> []"
    using ok assms(2) by (simp_all add: undo_ok_def historySize_def abs_ed_def)
  from redo_undo [OF this] u r show ?thesis by simp
qed


theorem undo_redo_inverse_witness:
  "let ed = the (replaceSelection ''x'' CollapseEnd (demo_editor ''abc'')) in
   \<exists>ed1 ed2. undo ed = Some ed1 \<and> redo ed1 = Some ed2 \<and> abs_ed ed2 = abs_ed ed"
proof -
  let ?ed = "the (replaceSelection ''x'' CollapseEnd (demo_editor ''abc''))"
  have "run_api (ReplaceSelection ''x'' CollapseEnd) (demo_editor ''abc'') = Some ?ed"
    using replaceSelection_total [OF reachable_undo_ok [OF demo_reachable]] by (metis option.sel run_api.simps(2))
  from reach_step [OF demo_reachable _ this] have "reachable ?ed" by simp
  moreover have "fst (historySize (the (history ?ed))) > 0" by code_simp
  ultimately show ?thesis using undo_redo_inverse [of ?ed] by (auto simp: Let_def)
qed


text \<open>
  C6: Merging loses nothing: whatever the clock and the compounds, after a replacement of lines has been
  recorded, reverting the whole history gives the text it gave before.
\<close>

theorem undo_all_unchanged:
  assumes "revertible (all_done h) (length d)" and "s + n \<le> length d"
  shows "revert_all (all_done (addChange now (int s) (int (length new)) (take n (drop s d)) h)) (splice_at s n new d) =
     revert_all (all_done h) d \<and>
     revertible (all_done (addChange now (int s) (int (length new)) (take n (drop s d)) h)) (length (splice_at s n new d))"
  using addChange_undo_all [OF assms, of now new] by blast

theorem undo_all_unchanged_witness:
  "let h = addChange 1000 1 1 [''old''] newHistory; d = [''a'', ''new'', ''b''] in
     length (hdone (addChange 1100 0 1 [''a'', ''new''] h)) = 1 \<and>
     revert_all (all_done (addChange 1100 0 1 [''a'', ''new''] h)) [''z'', ''b''] = [''a'', ''old'', ''b'']"
proof -
  let ?h = "addChange 1000 1 1 [''old''] newHistory" and ?d = "[''a'', ''new'', ''b'']"
  have "revertible (all_done ?h) (length ?d)" "revert_all (all_done ?h) ?d = [''a'', ''old'', ''b'']"
    "length (hdone (addChange 1100 0 1 [''a'', ''new''] ?h)) = 1"
    by (simp_all add: addChange_def newHistory_def all_done_def in_range_def revert_def splice_at_def merge_change_def)
  with undo_all_unchanged [of ?h ?d 0 2 1100 "[''z'']"] show ?thesis
    by (simp add: splice_at_def Let_def)
qed

text \<open>
  C9: \<open>setValue\<close> returns in every reachable editor, and then \<open>getValue\<close> is the text that was set with its
  line ends normalised.
\<close>

theorem set_get_value:
  assumes "reachable ed"
  shows "\<exists>ed'. setValue v ed = Some ed' \<and> reachable ed' \<and> getValue ed' [nl] = norm_nl v"
proof -
  obtain ed' where e: "setValue v ed = Some ed'" "getValue ed' [nl] = norm_nl v"
    using setValue_ok [OF reachable_undo_ok [OF assms], of v] by blast
  from reach_step [OF assms, of "SetValue v"] e show ?thesis by simp
qed

theorem set_get_value_witness:
  "\<exists>ed'. setValue ''ab'' (demo_editor ''c'') = Some ed' \<and> getValue ed' [nl] = ''ab''"
  using set_get_value [OF demo_reachable [of "''c''"], of "''ab''"] by auto

text \<open>
  C10: \<open>replaceRange\<close> clips its ends, replaces exactly the text between them, and returns the end of the
  inserted text.
\<close>

theorem replace_range_text:
  assumes "reachable ed" and "api_ok (ReplaceRange v from to) ed"
  shows "\<exists>ed' p q. clip ed from = Some p \<and> clip ed to = Some q \<and>
     replaceRange v from (Some to) ed = Some (ed', code_end (splitLines v) p) \<and>
     getValue ed' [nl] = take (offset (texts ed) p) (getValue ed [nl]) @ norm_nl v @ drop (offset (texts ed) q) (getValue ed [nl]) \<and>
     posFromIndex ed' (int (offset (texts ed) p + length (norm_nl v))) = Some (code_end (splitLines v) p)"
proof -
  note ok = reachable_undo_ok [OF assms(1)]
  note d = undo_okD [OF ok]
  let ?p = "clip_text (texts ed) (pline from) (Some (pch from))" and ?q = "clip_text (texts ed) (pline to) (Some (pch to))"
  have cl: "clip ed from = Some ?p" "clip ed to = Some ?q" by (simp_all add: clipPos_text [OF d(2,3)])
  have pq: "pos_ok (texts ed) ?p" "pos_ok (texts ed) ?q" by (simp_all add: clip_text_ok [OF d(3)])
  have le: "?p \<le> ?q" using assms(2) by (simp add: cl)
  obtain ed' where e: "replaceRange v from (Some to) ed = Some (ed', code_end (splitLines v) ?p)" "undo_ok ed'"
      "texts ed' = text_edit ?p ?q (splitLines v) (texts ed)"
    using replaceRange_ok [OF ok le, of v] by blast
  note d' = undo_okD(2) [OF e(2)]
  note ce = code_end_ok [OF pq le splitLines_nonempty, of v]
  have "posFromIndex ed' (int (offset (texts ed) ?p + length (norm_nl v))) = Some (code_end (splitLines v) ?p)"
    using posFromIndex_offset [OF d', of "code_end (splitLines v) ?p"] ce e(3) by (simp add: flat_splitLines)
  moreover have "getValue ed' [nl] = take (offset (texts ed) ?p) (getValue ed [nl]) @ norm_nl v @
      drop (offset (texts ed) ?q) (getValue ed [nl])"
    using flat_text_edit [OF pq le splitLines_nonempty, of v] e(3)
    by (simp add: getValue_texts [OF d'] getValue_texts [OF d(2)] flat_splitLines flip: flat_def)
  ultimately show ?thesis using cl e(1) by blast
qed

theorem replace_range_text_witness:
  "\<exists>ed'. replaceRange ''x'' (Pos 0 1) (Some (Pos 0 2)) (demo_editor ''abc'') = Some (ed', Pos 0 2)"
proof -
  have "api_ok (ReplaceRange ''x'' (Pos 0 1) (Pos 0 2)) (demo_editor ''abc'')"
    "clip (demo_editor ''abc'') (Pos 0 1) = Some (Pos 0 1)"
    by (code_simp, code_simp)
  with replace_range_text [OF demo_reachable, of "''x''" "Pos 0 1" "Pos 0 2" "''abc''"] show ?thesis
    by (auto simp: code_end_def)
qed

text \<open>
  C12: \<open>getRange\<close> between two ordered positions is the stretch of \<open>getValue\<close> between their offsets.
\<close>

theorem get_range_text:
  assumes "reachable ed" and "pos_ok (texts ed) p" and "pos_ok (texts ed) q" and "p \<le> q"
  shows "getRange ed p q [nl] =
     Some (js_slice (getValue ed [nl]) (indexFromPos ed (pline p) (pch p)) (indexFromPos ed (pline q) (pch q)))"
proof -
  note d = undo_okD(2) [OF reachable_undo_ok [OF assms(1)]]
  show ?thesis
    using getRange_flat [OF d assms(2-4)] indexFromPos_offset [OF d assms(2)] indexFromPos_offset [OF d assms(3)]
    by (simp add: js_slice_nat getValue_texts [OF d] flat_def)
qed

theorem get_range_text_witness:
  "getRange (demo_editor ''ab'') (Pos 0 1) (Pos 0 2) [nl] = Some ''b''"
proof -
  have p: "pos_ok (texts (demo_editor ''ab'')) (Pos 0 1)" "pos_ok (texts (demo_editor ''ab'')) (Pos 0 2)"
    unfolding demo_texts by (simp_all add: pos_ok_def)
  have v: "js_slice (getValue (demo_editor ''ab'') [nl]) (indexFromPos (demo_editor ''ab'') 0 1)
      (indexFromPos (demo_editor ''ab'') 0 2) = ''b''" by code_simp
  show ?thesis using get_range_text [OF demo_reachable p] v by (simp add: pos_le_iff)
qed

text \<open>
  C13: \<open>posFromIndex\<close> and \<open>indexFromPos\<close> are inverse: on every position of the text, and on every offset
  from 0 to the length of the text.
\<close>

theorem index_pos_inverse:
  assumes "reachable ed" and "pos_ok (texts ed) p" and "i \<le> length (getValue ed [nl])"
  shows "posFromIndex ed (indexFromPos ed (pline p) (pch p)) = Some p \<and>
    (\<exists>q. posFromIndex ed (int i) = Some q \<and> pos_ok (texts ed) q \<and> indexFromPos ed (pline q) (pch q) = int i)"
proof -
  note d = undo_okD [OF reachable_undo_ok [OF assms(1)]]
  have "i \<le> length (flat (texts ed))" using assms(3) by (simp add: getValue_texts [OF d(2)] flat_def)
  from indexFromPos_posFromIndex [OF d(2,3) this] show ?thesis
    by (simp add: indexFromPos_offset [OF d(2) assms(2)] posFromIndex_offset [OF d(2) assms(2)])
qed

theorem index_pos_inverse_witness:
  "posFromIndex (demo_editor ''ab'') (indexFromPos (demo_editor ''ab'') 0 1) = Some (Pos 0 1)"
proof -
  have "pos_ok (texts (demo_editor ''ab'')) (Pos 0 1)" unfolding demo_texts by (simp add: pos_ok_def)
  from index_pos_inverse [OF demo_reachable this, of 0] show ?thesis by simp
qed

text \<open>
  C14: The hand-written line splitter for browsers with a broken \<open>split\<close> gives the same lines as the
  regular expression on every string that does not end in a carriage return.
\<close>

theorem split_variants_agree:
  assumes "s = [] \<or> last s \<noteq> cr"
  shows "splitLinesIE s = splitLines s"
  using ie_split_splitLines [OF assms, of 0 "[]"] by (simp add: splitLinesIE_def)

theorem split_variants_agree_witness:
  "splitLinesIE [CHR ''a'', cr, nl, CHR ''b''] = [''a'', ''b'']"
  using split_variants_agree [of "[CHR ''a'', cr, nl, CHR ''b'']"] by simp

text \<open>
  On a string that ends in a carriage return they differ: the hand-written splitter loses the empty
  last line.
\<close>

theorem split_variants_differ:
  "splitLinesIE [CHR ''a'', cr] = [''a''] \<and> splitLines [CHR ''a'', cr] = [''a'', []]"
  by code_simp

text \<open>
  C15: The document tree is a sequence of lines: inserting and removing keep its sizes, heights and
  branching bounds, and change the lines as a splice; reading and numbering lines agree with the sequence.
\<close>

theorem tree_is_sequence:
  fixes ls :: "'s line list"
  assumes "doc_ok c" and "i + n \<le> length (collapse c)"
  defines "c' \<equiv> insert_lines i ls (fst (chunk_remove i n c))"
  shows "doc_ok c' \<and> collapse c' = splice_at i n ls (collapse c) \<and>
     snd (chunk_remove i n c) = take n (drop i (collapse c)) \<and>
     (distinct (map lid (collapse c')) \<longrightarrow>
       (\<forall>k < length (collapse c'). \<exists>l. getLineAt c' k = Some l \<and> lineNo (lid l) c' = Some k))"
proof -
  have ok: "doc_ok c'" and seq: "collapse c' = splice_at i n ls (collapse c)"
    unfolding c'_def by (rule tree.replace_lines(2) [OF assms(1,2)], rule tree.replace_lines(1) [OF assms(1,2)])
  have "\<exists>l. getLineAt c' k = Some l \<and> lineNo (lid l) c' = Some k"
    if "distinct (map lid (collapse c'))" "k < length (collapse c')" for k
    using index_of_distinct [OF that(1), of k] that(2) by (simp add: getLineAt_collapse [OF ok] lineNo_collapse [OF ok that(1)])
  then show ?thesis using ok seq chunk_remove_collapse(2) [OF assms(1,2)] by blast
qed

theorem tree_is_sequence_witness:
  "collapse (insert_lines 0 [new_line 1 ''x'' None] (fst (chunk_remove 0 1 (doc (demo_editor ''ab''))))) = [new_line 1 ''x'' None]"
proof -
  have d: "doc_ok (doc (demo_editor ''ab''))" using undo_okD(2) [OF reachable_undo_ok [OF demo_reachable]] .
  have l: "length (lines (demo_editor ''ab'')) = 1" using arg_cong [OF demo_texts [of "''ab''"], of length] by simp
  from tree_is_sequence [OF d, of 0 1 "[new_line 1 ''x'' None]"] l show ?thesis
    by (simp add: splice_at_def)
qed

text \<open>
  C17: Highlighting a line of any length in the SPARQL mode ends, and its fragments make up the line.  On a line
  of at most 5000 characters no fragment is empty and no two neighbours have the same style.  On a longer line that
  is so up to the end \<open>p\<close> of the first token that ends behind column 5000; the rest of the line is then one more
  fragment, without a style, and empty when the token was the last one.  In both cases running the parser without
  styling leaves it in the same state.
\<close>

theorem sparql_highlight:
  "\<exists>g' s' st. highlight (sparql_mode u) tab t g s = Some (g', s', st) \<and> process (sparql_mode u) tab t g s = Some (g', s') \<and>
     concat (map fst st) = t \<and>
     (if length t \<le> 5000 then normal_styles st
      else \<exists>us p. st = us @ [(drop p t, None)] \<and> normal_styles us \<and> 5000 < p \<and> p \<le> length t)"
proof -
  obtain g' s' st where h: "highlight (sparql_mode u) tab t g s = Some (g', s', st)" "concat (map fst st) = t" "cut_styles t st"
    using sparql.highlight_total by blast
  from h(1) sparql.highlight_process [OF h(1)] h(2) h(3) [unfolded cut_styles_def] show ?thesis by blast
qed

theorem sparql_highlight_witness:
  "\<exists>g' s' st. highlight (sparql_mode 2) 4 ''SELECT ?x'' sparql_env0 sparql_startState = Some (g', s', st) \<and> normal_styles st"
  using sparql_highlight [of 2 4 "''SELECT ?x''"] by fastforce

text \<open>
  The token of the SPARQL mode at a column lies on both sides of it: it starts before the column,
  does not end before it, and its string is that stretch of the line.
\<close>

theorem sparql_token_at:
  assumes "0 < ch" and "ch \<le> int (length t)"
  shows "\<exists>g' tk. getTokenAt (sparql_mode u) tab t ch g s = Some (g', tk) \<and> int (t_start tk) < ch \<and>
     ch \<le> int (t_end tk) \<and> t_string tk = js_slice t (int (t_start tk)) (int (t_end tk))"
  using sparql.getTokenAt_covers [OF assms, of u tab g s] by (auto simp: js_slice_nat)

theorem sparql_token_at_witness:
  "\<exists>g' tk. getTokenAt (sparql_mode 2) 4 ''?x'' 2 sparql_env0 sparql_startState = Some (g', tk) \<and> t_start tk < 2"
proof -
  from sparql_token_at [of 2 "''?x''" 2 4 sparql_env0 sparql_startState] show ?thesis by auto
qed

text \<open>
  C24: An edit inside a line moves the marks of the line with the text: a mark in front keeps its place, a
  mark behind is shifted, a mark around grows or shrinks, one inside the replaced stretch disappears.
\<close>

theorem marks_follow_text:
  assumes "distinct (map smarker ss)" and "\<forall>s \<in> set ss. plain_span mk s" and "a \<le> b"
  shows "updateMarkedSpans mk (Some ss) (Some ss) a b [t] =
     [newHL t (opt_list (map (moved_span a b (int (length t)))
          (filter (\<lambda>s. the (sfrom s) < a) ss @ filter (\<lambda>s. a \<le> the (sfrom s) \<and> b < the (sto s)) ss)))]"
  by (rule updateMarkedSpans_line [OF assms])

theorem marks_follow_text_witness:
  "updateMarkedSpans (\<lambda>_. \<lparr>mlines = [], mtype = Range, mstyle = None, inclusiveLeft = False, inclusiveRight = False,
       startStyle = None, endStyle = None\<rparr>)
     (Some [\<lparr>sfrom = Some 4, sto = Some 6, smarker = 0\<rparr>]) (Some [\<lparr>sfrom = Some 4, sto = Some 6, smarker = 0\<rparr>]) 0 1 [''abc''] =
   [HLS ''abc'' [\<lparr>sfrom = Some 6, sto = Some 8, smarker = 0\<rparr>]]"
  using marks_follow_text [of "[\<lparr>sfrom = Some 4, sto = Some 6, smarker = 0\<rparr>]" _ 0 1 "''abc''"]
  by (simp add: plain_span_def moved_span_def opt_list_def)

end
